(* ===== verification/Prelude.thy ===== *)
theory Prelude
  imports Main "HOL-Library.AList" "HOL-Library.Char_ord" "HOL-Library.Sublist"
begin

text \<open>
  Shared vocabulary of the development: Go's machine integers, Go's error values, byte strings,
  and the generic list lemmas the component theories use.

  Go's \<open>int\<close> and \<open>int64\<close> are 64-bit two's complement.  They are HOL integers here; where the
  code adds or subtracts values that may leave the range, the definition writes the wrap-around
  out with \<open>wrap64\<close>.  A Go \<open>string\<close>, \<open>[]byte\<close> or \<open>json.RawMessage\<close> is a list of bytes
  (\<open>string\<close>); nil and empty slices are identified.  A Go \<open>error\<close> is a tree: a node is either a
  sentinel of the program or a text, and its children are the errors it wraps, so that
  \<open>errors.Is\<close> is a search of the tree and nil is \<open>None\<close>.
\<close>

section \<open>Hint collections\<close>

named_theorems view_simps \<open>equations that evaluate an accessor after an operation of a component\<close>
named_theorems step_intros \<open>preservation lemmas of a component's invariant\<close>

section \<open>Machine integers\<close>

type_synonym bytes = string

definition max_int :: int where
  "max_int = 2 ^ 63 - 1"

definition min_int :: int where
  "min_int = - (2 ^ 63)"

definition wrap64 :: "int \<Rightarrow> int" where
  "wrap64 x = (x + 2 ^ 63) mod 2 ^ 64 - 2 ^ 63"

definition int64 :: "int \<Rightarrow> bool" where
  "int64 x \<longleftrightarrow> min_int \<le> x \<and> x \<le> max_int"

lemma wrap64_id [simp]: "int64 x \<Longrightarrow> wrap64 x = x"
  by (simp add: int64_def wrap64_def min_int_def max_int_def)

lemma int64_wrap64 [simp]: "int64 (wrap64 x)"
proof -
  have "0 \<le> (x + 2 ^ 63) mod 2 ^ 64" "(x + 2 ^ 63) mod 2 ^ 64 < (2 :: int) ^ 64"
    by simp_all
  then show ?thesis
    by (simp add: int64_def wrap64_def min_int_def max_int_def)
qed

lemma int64_zero [simp]: "int64 0"
  by (simp add: int64_def min_int_def max_int_def)

lemma max_int_pos [simp]: "0 < max_int" "0 \<le> max_int"
  by (simp_all add: max_int_def)

section \<open>Errors\<close>

text \<open>The sentinel errors of the program, and \<open>ErrText\<close> for an error made from a text.\<close>

datatype err_id =
    ErrText bytes
  | CtxCanceled
  | CtxDeadlineExceeded
  | ErrIncompleteToolTurn
  | ErrNotExecuted
  | ErrToolNotFound
  | ErrToolPanic
  | ErrDuplicateToolName
  | ErrInvalidToolDefinition
  | ErrTooManyToolCalls
  | ErrToolUpdateProtocol
  | ErrToolUpdateLimit
  | ErrInterceptorProtocol
  | ErrInvalidArguments
  | ErrBudgetExhausted
  | ErrPauseContinuationLimit
  | ErrIncompleteResponse
  | ErrStepAborted
  | ErrInvalidContinuation
  | ErrControlClosed
  | ErrControlUsed
  | ErrControlLimit
  | ErrControlSteer
  | ErrOutputGuardrailRetryLimit
  | ErrOutputGuardrailTripwire
  | ErrProviderTurnLimit
  | ErrContextLimit
  | ErrWorkingMemoryTarget
  | ErrInvalidToolCallArguments
  | ErrDuplicateToolCallID
  | ErrToolCallIdentityConflict
  | ErrMissingToolCallID
  | ErrMissingTerminalEvent
  | ErrMultipleTerminalEvents
  | ErrEventAfterTerminal
  | ErrTooManyProviderToolCalls
  | ErrPanicRecovered
  | ErrHookPanic
  | ErrOutputGuardrailInvalidResult
  | ErrModelRequestTimeout
  | ErrModelConnectTimeout
  | ErrStreamIdleTimeout
  | ErrContextOverflow
  | ErrToolBusMissing
  | ErrSkillNotFound
  | ErrSkillToolConflict
  | ErrSkillRegistryMissing
  | ErrProviderResolverMissing
  | ErrNoDriverForModel
  | ErrNotStarted
  | ErrStreamInterceptorProtocol
  | IoUnexpectedEOF
  | IoEOF

datatype go_err = GoErr err_id "go_err list"

text \<open>\<open>errors.Is(err, target)\<close> for a sentinel target.\<close>

fun errors_is :: "err_id \<Rightarrow> go_err \<Rightarrow> bool" where
  "errors_is t (GoErr i es) = (i = t \<or> (\<exists>e \<in> set es. errors_is t e))"

abbreviation sentinel :: "err_id \<Rightarrow> go_err" where
  "sentinel i \<equiv> GoErr i []"

text \<open>\<open>fmt.Errorf("%w: text", err)\<close>, and \<open>errors.New(text)\<close>.\<close>

definition wrap_err :: "bytes \<Rightarrow> go_err \<Rightarrow> go_err" where
  "wrap_err t e = GoErr (ErrText t) [e]"

definition new_err :: "bytes \<Rightarrow> go_err" where
  "new_err t = GoErr (ErrText t) []"

text \<open>\<open>errors.Join\<close> drops nil errors and is nil when none is left.\<close>

fun some_errs :: "go_err option list \<Rightarrow> go_err list" where
  "some_errs [] = []"
| "some_errs (None # es) = some_errs es"
| "some_errs (Some e # es) = e # some_errs es"

definition errors_join :: "go_err option list \<Rightarrow> go_err option" where
  "errors_join es = (case some_errs es of [] \<Rightarrow> None | xs \<Rightarrow> Some (GoErr (ErrText []) xs))"

lemma errors_is_wrap [simp]: "errors_is t (wrap_err x e) \<longleftrightarrow> t = ErrText x \<or> errors_is t e"
  by (auto simp: wrap_err_def)

lemma errors_is_new [simp]: "errors_is t (new_err x) \<longleftrightarrow> t = ErrText x"
  by (auto simp: new_err_def)

lemma set_some_errs [simp]: "e \<in> set (some_errs es) \<longleftrightarrow> Some e \<in> set es"
  by (induction es rule: some_errs.induct) auto

lemma errors_join_None [simp]: "errors_join es = None \<longleftrightarrow> (\<forall>e \<in> set es. e = None)"
proof -
  have "some_errs es = [] \<longleftrightarrow> (\<forall>e \<in> set es. e = None)"
    by (induction es rule: some_errs.induct) auto
  then show ?thesis
    by (auto simp: errors_join_def split: list.splits)
qed

lemma errors_join_is:
  "errors_join es = Some e \<Longrightarrow> t \<noteq> ErrText [] \<Longrightarrow>
     errors_is t e \<longleftrightarrow> (\<exists>x. Some x \<in> set es \<and> errors_is t x)"
  by (auto simp: errors_join_def simp flip: set_some_errs split: list.splits)

section \<open>Byte strings\<close>

text \<open>
  \<open>strings.TrimSpace\<close>: the runes \<open>unicode.IsSpace\<close> accepts, as their UTF-8 bytes.  UTF-8 is
  self-synchronising, so the last rune of a string is a space exactly if the string ends with
  the bytes of one.
\<close>

definition ascii_space :: "char \<Rightarrow> bool" where
  "ascii_space c \<longleftrightarrow> c \<in> {CHR '' '', CHR 0x09, CHR 0x0A, CHR 0x0B, CHR 0x0C, CHR 0x0D}"

definition space2 :: "char \<Rightarrow> char \<Rightarrow> bool" where
  "space2 c d \<longleftrightarrow> c = CHR 0xC2 \<and> (d = CHR 0x85 \<or> d = CHR 0xA0)"

definition space3 :: "char \<Rightarrow> char \<Rightarrow> char \<Rightarrow> bool" where
  "space3 c d e \<longleftrightarrow>
     (c = CHR 0xE1 \<and> d = CHR 0x9A \<and> e = CHR 0x80) \<or>
     (c = CHR 0xE2 \<and> d = CHR 0x80 \<and>
        (CHR 0x80 \<le> e \<and> e \<le> CHR 0x8A \<or> e = CHR 0xA8 \<or> e = CHR 0xA9 \<or> e = CHR 0xAF)) \<or>
     (c = CHR 0xE2 \<and> d = CHR 0x81 \<and> e = CHR 0x9F) \<or>
     (c = CHR 0xE3 \<and> d = CHR 0x80 \<and> e = CHR 0x80)"

fun trim_left :: "bytes \<Rightarrow> bytes" where
  "trim_left (c # d # e # s) =
     (if ascii_space c then trim_left (d # e # s)
      else if space2 c d then trim_left (e # s)
      else if space3 c d e then trim_left s
      else c # d # e # s)"
| "trim_left [c, d] = (if ascii_space c then trim_left [d] else if space2 c d then [] else [c, d])"
| "trim_left [c] = (if ascii_space c then [] else [c])"
| "trim_left [] = []"

text \<open>The same from the end; the argument is the reversed string.\<close>

fun trim_left_rev :: "bytes \<Rightarrow> bytes" where
  "trim_left_rev (e # d # c # s) =
     (if ascii_space e then trim_left_rev (d # c # s)
      else if space2 d e then trim_left_rev (c # s)
      else if space3 c d e then trim_left_rev s
      else e # d # c # s)"
| "trim_left_rev [e, d] =
     (if ascii_space e then trim_left_rev [d] else if space2 d e then [] else [e, d])"
| "trim_left_rev [e] = (if ascii_space e then [] else [e])"
| "trim_left_rev [] = []"

definition trim_space :: "bytes \<Rightarrow> bytes" where
  "trim_space s = rev (trim_left_rev (rev (trim_left s)))"

lemma trim_space_Nil [simp]: "trim_space [] = []"
  by (simp add: trim_space_def)

text \<open>Trimming twice is trimming once.\<close>

definition starts_space :: "bytes \<Rightarrow> bool" where
  "starts_space s \<longleftrightarrow> (\<exists>c r. s = c # r \<and> ascii_space c) \<or> (\<exists>c d r. s = c # d # r \<and> space2 c d) \<or>
     (\<exists>c d e r. s = c # d # e # r \<and> space3 c d e)"

definition ends_space_rev :: "bytes \<Rightarrow> bool" where
  "ends_space_rev s \<longleftrightarrow> (\<exists>e r. s = e # r \<and> ascii_space e) \<or> (\<exists>e d r. s = e # d # r \<and> space2 d e) \<or>
     (\<exists>e d c r. s = e # d # c # r \<and> space3 c d e)"

lemma trim_left_starts: "\<not> starts_space (trim_left s)"
  by (induction s rule: trim_left.induct) (auto simp: starts_space_def)

lemma trim_left_fix: "\<not> starts_space s \<Longrightarrow> trim_left s = s"
  by (cases s rule: trim_left.cases) (auto simp: starts_space_def)

lemma trim_left_rev_starts: "\<not> ends_space_rev (trim_left_rev s)"
  by (induction s rule: trim_left_rev.induct) (auto simp: ends_space_rev_def)

lemma trim_left_rev_fix: "\<not> ends_space_rev s \<Longrightarrow> trim_left_rev s = s"
  by (cases s rule: trim_left_rev.cases) (auto simp: ends_space_rev_def)

lemma trim_left_rev_suffix: "suffix (trim_left_rev s) s"
  by (induction s rule: trim_left_rev.induct) (auto intro: suffix_ConsI)

lemma starts_space_append: "starts_space s \<Longrightarrow> starts_space (s @ t)"
  by (auto simp: starts_space_def)

lemma trim_space_idem [simp]: "trim_space (trim_space s) = trim_space s"
proof -
  let ?l = "trim_left s" and ?r = "trim_left_rev (rev (trim_left s))"
  obtain r where "rev ?l = r @ ?r"
    using trim_left_rev_suffix [of "rev ?l"] by (auto elim: suffixE)
  then have "?l = rev ?r @ rev r"
    by (metis rev_append rev_rev_ident)
  then have "\<not> starts_space (rev ?r)"
    using trim_left_starts [of s] starts_space_append [of "rev ?r" "rev r"] by metis
  then show ?thesis
    by (simp add: trim_space_def trim_left_fix trim_left_rev_fix trim_left_rev_starts)
qed

text \<open>Decimal text of a number, as \<open>%d\<close> prints it.\<close>

definition digit_char :: "nat \<Rightarrow> char" where
  "digit_char n = char_of (48 + n)"

fun decimal :: "nat \<Rightarrow> bytes" where
  "decimal n = (if n < 10 then [digit_char n] else decimal (n div 10) @ [digit_char (n mod 10)])"

declare decimal.simps [simp del]

lemma decimal_not_Nil [simp]: "decimal n \<noteq> []"
  by (subst decimal.simps) simp

section \<open>Lists\<close>

lemma drop_eq_ConsD: "drop n xs = y # ys \<Longrightarrow> n < length xs \<and> xs ! n = y \<and> drop (Suc n) xs = ys"
  by (metis drop_eq_Nil2 leI list.distinct(1) Cons_nth_drop_Suc list.inject)

lemma take_drop_append: "take n xs @ drop n xs = xs"
  by simp

lemma sum_list_filter_le_nat:
  "sum_list (map (f :: 'a \<Rightarrow> nat) (filter P xs)) \<le> sum_list (map f xs)"
  by (induction xs) auto

end
