(* ===== verification/Messages.thy ===== *)
theory Messages
  imports Prelude
begin

text \<open>
  The provider-neutral messages of package message: \<open>src/message/message.go\<close> and
  \<open>src/message/content.go\<close>.  A Go string type with constants is a datatype with one constructor
  per constant and one for any other string.  A pointer is an option.  Values have no identity
  here, so the deep clones of content.go are the identity and are not modelled; string maps are
  association lists.  The lemmas show that the two views of a message (ordered content parts and
  legacy scalar fields) agree after \<open>SyncLegacyContent\<close>, and that synchronising is idempotent.
\<close>

section \<open>Data\<close>

datatype role =
  RoleSystem | RoleUser | RoleAssistant | RoleTool | RoleCustom | RoleOther bytes

datatype msg_kind =
    KindStandard | KindBranchSummary | KindCompactionSummary | KindCommandOutput | KindCustom
  | KindOther bytes

datatype content_kind =
    ContentText | ContentCommentary | ContentFinalAnswer | ContentReasoning
  | ContentRedactedReasoning | ContentImage | ContentAudio | ContentFile | ContentSource
  | ContentProviderData | ContentOther bytes

fun content_kind_name :: "content_kind \<Rightarrow> bytes" where
  "content_kind_name ContentText = ''text''"
| "content_kind_name ContentCommentary = ''commentary''"
| "content_kind_name ContentFinalAnswer = ''final_answer''"
| "content_kind_name ContentReasoning = ''reasoning''"
| "content_kind_name ContentRedactedReasoning = ''redacted_reasoning''"
| "content_kind_name ContentImage = ''image''"
| "content_kind_name ContentAudio = ''audio''"
| "content_kind_name ContentFile = ''file''"
| "content_kind_name ContentSource = ''source''"
| "content_kind_name ContentProviderData = ''provider_data''"
| "content_kind_name (ContentOther s) = s"

record source_ref =
  src_ID :: bytes
  src_URL :: bytes
  src_Title :: bytes
  src_MediaType :: bytes
  src_Filename :: bytes

record content_part =
  cp_ID :: bytes
  cp_Kind :: content_kind
  cp_Text :: bytes
  cp_Data :: bytes
  cp_MediaType :: bytes
  cp_URI :: bytes
  cp_Filename :: bytes
  cp_Source :: "source_ref option"
  cp_Signature :: bytes
  cp_ProviderData :: bytes

type_synonym string_map = "(bytes \<times> bytes) list"

record response_metadata =
  rm_ID :: bytes
  rm_Model :: bytes
  rm_Headers :: string_map

record tool_call =
  tc_ID :: bytes
  tc_Name :: bytes
  tc_Arguments :: bytes
  tc_OperationID :: bytes

record tool_result =
  tr_ToolCallID :: bytes
  tr_Name :: bytes
  tr_Content :: bytes
  tr_Parts :: "content_part list"
  tr_Structured :: bytes
  tr_IsError :: bool

record message =
  m_ID :: bytes
  m_Role :: role
  m_Kind :: msg_kind
  m_Name :: bytes
  m_Text :: bytes
  m_Content :: "content_part list"
  m_CacheBoundary :: bool
  m_ContextArchived :: bool
  m_Thinking :: bytes
  m_ThinkingSignature :: bytes
  m_RedactedThinking :: bytes
  m_ProviderState :: bytes
  m_Response :: response_metadata
  m_ToolCalls :: "tool_call list"
  m_ToolResult :: "tool_result option"
  m_Metadata :: string_map

text \<open>Go's zero values.\<close>

definition zero_part :: content_part where
  "zero_part = \<lparr>cp_ID = [], cp_Kind = ContentOther [], cp_Text = [], cp_Data = [],
     cp_MediaType = [], cp_URI = [], cp_Filename = [], cp_Source = None, cp_Signature = [],
     cp_ProviderData = []\<rparr>"

definition zero_response :: response_metadata where
  "zero_response = \<lparr>rm_ID = [], rm_Model = [], rm_Headers = []\<rparr>"

definition zero_result :: tool_result where
  "zero_result = \<lparr>tr_ToolCallID = [], tr_Name = [], tr_Content = [], tr_Parts = [],
     tr_Structured = [], tr_IsError = False\<rparr>"

definition zero_message :: message where
  "zero_message = \<lparr>m_ID = [], m_Role = RoleOther [], m_Kind = KindOther [], m_Name = [],
     m_Text = [], m_Content = [], m_CacheBoundary = False, m_ContextArchived = False,
     m_Thinking = [], m_ThinkingSignature = [], m_RedactedThinking = [], m_ProviderState = [],
     m_Response = zero_response, m_ToolCalls = [], m_ToolResult = None, m_Metadata = []\<rparr>"

section \<open>Content parts\<close>

definition TextPart :: "bytes \<Rightarrow> content_part" where
  "TextPart t = zero_part\<lparr>cp_Kind := ContentText, cp_Text := t\<rparr>"

definition CommentaryPart :: "bytes \<Rightarrow> content_part" where
  "CommentaryPart t = zero_part\<lparr>cp_Kind := ContentCommentary, cp_Text := t\<rparr>"

definition FinalAnswerPart :: "bytes \<Rightarrow> content_part" where
  "FinalAnswerPart t = zero_part\<lparr>cp_Kind := ContentFinalAnswer, cp_Text := t\<rparr>"

definition ReasoningPart :: "bytes \<Rightarrow> bytes \<Rightarrow> content_part" where
  "ReasoningPart t sig = zero_part\<lparr>cp_Kind := ContentReasoning, cp_Text := t, cp_Signature := sig\<rparr>"

definition RedactedPart :: "bytes \<Rightarrow> content_part" where
  "RedactedPart d = zero_part\<lparr>cp_Kind := ContentRedactedReasoning, cp_Data := d\<rparr>"

fun textForKinds :: "content_part list \<Rightarrow> content_kind list \<Rightarrow> bytes" where
  "textForKinds [] kinds = []"
| "textForKinds (part # parts) kinds =
     (if cp_Kind part \<in> set kinds then cp_Text part else []) @ textForKinds parts kinds"

abbreviation answer_kinds :: "content_kind list" where
  "answer_kinds \<equiv> [ContentText, ContentCommentary, ContentFinalAnswer]"

section \<open>Messages\<close>

definition CanonicalContent :: "message \<Rightarrow> content_part list" where
  "CanonicalContent m =
     (if m_Content m \<noteq> [] then m_Content m
      else (if m_Thinking m \<noteq> [] \<or> m_ThinkingSignature m \<noteq> []
              then [ReasoningPart (m_Thinking m) (m_ThinkingSignature m)] else [])
         @ (if m_RedactedThinking m \<noteq> [] then [RedactedPart (m_RedactedThinking m)] else [])
         @ (if m_Text m \<noteq> [] then [TextPart (m_Text m)] else []))"

definition TextContent :: "message \<Rightarrow> bytes" where
  "TextContent m = textForKinds (CanonicalContent m) answer_kinds"

definition FinalAnswerContent :: "message \<Rightarrow> bytes" where
  "FinalAnswerContent m = textForKinds (CanonicalContent m) [ContentText, ContentFinalAnswer]"

definition ReasoningContent :: "message \<Rightarrow> bytes" where
  "ReasoningContent m = textForKinds (CanonicalContent m) [ContentReasoning]"

definition HasContent :: "message \<Rightarrow> bool" where
  "HasContent m \<longleftrightarrow> CanonicalContent m \<noteq> [] \<or> m_ToolCalls m \<noteq> [] \<or> m_ToolResult m \<noteq> None \<or>
     m_ProviderState m \<noteq> []"

text \<open>The loop of \<open>SyncLegacyContent\<close>: the last signature and the last redacted payload win.\<close>

fun sync_scalars :: "content_part list \<Rightarrow> bytes \<times> bytes \<Rightarrow> bytes \<times> bytes" where
  "sync_scalars [] acc = acc"
| "sync_scalars (part # parts) (sig, red) =
     sync_scalars parts
       (if cp_Kind part = ContentReasoning \<and> cp_Signature part \<noteq> [] then cp_Signature part else sig,
        if cp_Kind part = ContentRedactedReasoning \<and> cp_Data part \<noteq> [] then cp_Data part else red)"

definition SyncLegacyContent :: "message \<Rightarrow> message" where
  "SyncLegacyContent m =
     (if m_Content m = [] then m\<lparr>m_Content := CanonicalContent m\<rparr>
      else let (sig, red) = sync_scalars (m_Content m) ([], []) in
        m\<lparr>m_Text := textForKinds (m_Content m) answer_kinds,
          m_Thinking := textForKinds (m_Content m) [ContentReasoning],
          m_ThinkingSignature := sig, m_RedactedThinking := red\<rparr>)"

section \<open>Tool results\<close>

definition result_CanonicalContent :: "tool_result \<Rightarrow> content_part list" where
  "result_CanonicalContent r =
     (if tr_Parts r \<noteq> [] then tr_Parts r
      else if tr_Content r = [] then [] else [TextPart (tr_Content r)])"

definition result_TextContent :: "tool_result \<Rightarrow> bytes" where
  "result_TextContent r = textForKinds (result_CanonicalContent r) answer_kinds"

definition result_SyncLegacyContent :: "tool_result \<Rightarrow> tool_result" where
  "result_SyncLegacyContent r =
     (if tr_Parts r = [] then r\<lparr>tr_Parts := result_CanonicalContent r\<rparr>
      else r\<lparr>tr_Content := textForKinds (tr_Parts r) answer_kinds\<rparr>)"

section \<open>Constructors\<close>

definition NewText :: "role \<Rightarrow> bytes \<Rightarrow> message" where
  "NewText r t = zero_message\<lparr>m_Role := r, m_Kind := KindStandard, m_Text := t,
     m_Content := [TextPart t]\<rparr>"

definition NewToolResult :: "tool_result \<Rightarrow> message" where
  "NewToolResult r0 = (let r = result_SyncLegacyContent r0 in
     zero_message\<lparr>m_Role := RoleTool, m_Kind := KindStandard, m_Name := tr_Name r,
       m_ToolResult := Some r\<rparr>)"

section \<open>Lemmas\<close>

lemma part_simps [simp]:
  "cp_Kind (TextPart t) = ContentText" "cp_Text (TextPart t) = t"
  "cp_Kind (ReasoningPart t s) = ContentReasoning" "cp_Text (ReasoningPart t s) = t"
  "cp_Signature (ReasoningPart t s) = s"
  "cp_Kind (RedactedPart d) = ContentRedactedReasoning" "cp_Data (RedactedPart d) = d"
  by (simp_all add: TextPart_def ReasoningPart_def RedactedPart_def)

lemma textForKinds_append [simp]:
  "textForKinds (xs @ ys) ks = textForKinds xs ks @ textForKinds ys ks"
  by (induction xs) auto

lemma NewText_view [simp]:
  "m_Role (NewText r t) = r" "m_ToolCalls (NewText r t) = []" "m_ToolResult (NewText r t) = None"
  "m_Text (NewText r t) = t" "m_ContextArchived (NewText r t) = False"
  "m_CacheBoundary (NewText r t) = False"
  by (simp_all add: NewText_def zero_message_def)

lemma result_sync_view [simp]:
  "tr_ToolCallID (result_SyncLegacyContent r) = tr_ToolCallID r"
  "tr_Name (result_SyncLegacyContent r) = tr_Name r"
  "tr_IsError (result_SyncLegacyContent r) = tr_IsError r"
  "tr_Structured (result_SyncLegacyContent r) = tr_Structured r"
  by (simp_all add: result_SyncLegacyContent_def)

lemma NewToolResult_view [simp]:
  "m_Role (NewToolResult r) = RoleTool" "m_ToolCalls (NewToolResult r) = []"
  "m_ToolResult (NewToolResult r) = Some (result_SyncLegacyContent r)"
  by (simp_all add: NewToolResult_def zero_message_def Let_def)

lemma sync_view [simp]:
  "m_Role (SyncLegacyContent m) = m_Role m" "m_ToolCalls (SyncLegacyContent m) = m_ToolCalls m"
  "m_ToolResult (SyncLegacyContent m) = m_ToolResult m"
  "m_Metadata (SyncLegacyContent m) = m_Metadata m"
  by (simp_all add: SyncLegacyContent_def Let_def split: prod.splits)

lemma CanonicalContent_sync [simp]: "CanonicalContent (SyncLegacyContent m) = CanonicalContent m"
  by (simp add: SyncLegacyContent_def CanonicalContent_def Let_def split: prod.splits)

lemma result_CanonicalContent_sync [simp]:
  "result_CanonicalContent (result_SyncLegacyContent r) = result_CanonicalContent r"
  by (simp add: result_SyncLegacyContent_def result_CanonicalContent_def)

lemma sync_legacy_scalars:
  assumes "m_Content m = []"
  shows "textForKinds (CanonicalContent m) answer_kinds = m_Text m"
    and "textForKinds (CanonicalContent m) [ContentReasoning] = m_Thinking m"
    and "sync_scalars (CanonicalContent m) ([], []) = (m_ThinkingSignature m, m_RedactedThinking m)"
  using assms by (auto simp: CanonicalContent_def)

lemma result_sync_idempotent:
  "result_SyncLegacyContent (result_SyncLegacyContent r) = result_SyncLegacyContent r"
  by (simp add: result_SyncLegacyContent_def result_CanonicalContent_def)

section \<open>Properties\<close>

text \<open>
  SyncLegacyContent makes the two views of a message agree and keeps them so: every scalar
  field equals what the ordered content says, the ordered content equals the canonical content
  of the message before the call, and a second call changes nothing.
\<close>

theorem sync_legacy_content_agrees:
  "m_Content (SyncLegacyContent m) = CanonicalContent m \<and>
   m_Text (SyncLegacyContent m) = TextContent m \<and>
   m_Thinking (SyncLegacyContent m) = ReasoningContent m \<and>
   (m_ThinkingSignature (SyncLegacyContent m), m_RedactedThinking (SyncLegacyContent m)) =
     sync_scalars (CanonicalContent m) ([], []) \<and>
   SyncLegacyContent (SyncLegacyContent m) = SyncLegacyContent m"
proof (cases "m_Content m = []")
  case True
  have "SyncLegacyContent m = m\<lparr>m_Content := CanonicalContent m\<rparr>"
    using True by (simp add: SyncLegacyContent_def)
  then show ?thesis
    using sync_legacy_scalars [OF True]
    by (simp add: TextContent_def ReasoningContent_def)
       (auto simp: SyncLegacyContent_def CanonicalContent_def)
next
  case False
  then show ?thesis
    by (auto simp: SyncLegacyContent_def TextContent_def ReasoningContent_def CanonicalContent_def
        Let_def split: prod.splits)
qed

end
