(* ===== verification/History.thy ===== *)
theory History
  imports Messages "HOL-Library.Multiset"
begin

text \<open>
  Tool-turn histories: \<open>src/message/history.go\<close>.  A loop over an index becomes a recursion over
  the suffix of the history that starts there, with the index kept for the error it reports.
  The lemmas give the validator a specification (a history is a sequence of groups, each a plain
  message or an assistant turn with its results), first with the index of the code and then without
  it (\<open>complete_history\<close>), and from it the correctness of the two cut
  functions, of the archived view, and of appending complete turns.
\<close>

section \<open>Errors\<close>

datatype turn_reason =
    CallsRequireAssistant
  | ResultsRequireTool
  | ToolMessageWithoutResult
  | OrphanToolResult
  | DuplicateCallID bytes
  | IncompleteSuffix
  | NonToolBeforeComplete
  | DuplicateOrUnmatchedResult

text \<open>\<open>incompleteToolTurn(index, reason)\<close>.\<close>

type_synonym turn_error = "nat \<times> turn_reason"

section \<open>Matching results to calls\<close>

text \<open>
  \<open>callIndexes\<close>: the index of every non-empty call ID; \<open>Inl\<close> is the first duplicate.
\<close>

fun call_indexes :: "nat \<Rightarrow> tool_call list \<Rightarrow> (bytes \<rightharpoonup> nat) \<Rightarrow> bytes + (bytes \<rightharpoonup> nat)" where
  "call_indexes i [] idx = Inr idx"
| "call_indexes i (call # calls) idx =
     (if tc_ID call = [] then call_indexes (Suc i) calls idx
      else if idx (tc_ID call) \<noteq> None then Inl (tc_ID call)
      else call_indexes (Suc i) calls (idx(tc_ID call \<mapsto> i)))"

fun first_index :: "nat \<Rightarrow> (nat \<Rightarrow> 'a \<Rightarrow> bool) \<Rightarrow> 'a list \<Rightarrow> nat option" where
  "first_index i P [] = None"
| "first_index i P (x # xs) = (if P i x then Some i else first_index (Suc i) P xs)"

text \<open>\<open>None\<close> stands for the -1 of the code.\<close>

definition unmatchedCallIndex ::
  "tool_call list \<Rightarrow> bool list \<Rightarrow> (bytes \<rightharpoonup> nat) \<Rightarrow> bytes \<Rightarrow> nat option" where
  "unmatchedCallIndex calls matched idx rid =
     (if rid \<noteq> []
      then (case idx rid of
              Some i \<Rightarrow> if matched ! i then None else Some i
            | None \<Rightarrow> first_index 0 (\<lambda>i call. \<not> matched ! i \<and> tc_ID call = []) calls)
      else first_index 0 (\<lambda>i call. \<not> matched ! i) calls)"

text \<open>
  The loop over \<open>resultOffset\<close>: \<open>n\<close> results are still to come, \<open>pos\<close> is the index of the next
  message and \<open>start\<close> that of the assistant message.
\<close>

fun match_results ::
  "nat \<Rightarrow> tool_call list \<Rightarrow> (bytes \<rightharpoonup> nat) \<Rightarrow> bool list \<Rightarrow> nat \<Rightarrow> nat \<Rightarrow> message list \<Rightarrow> turn_error option" where
  "match_results start calls idx matched pos 0 ms = None"
| "match_results start calls idx matched pos (Suc n) [] = Some (start, IncompleteSuffix)"
| "match_results start calls idx matched pos (Suc n) (m # ms) =
     (if m_ToolCalls m \<noteq> [] then Some (pos, CallsRequireAssistant)
      else if m_Role m \<noteq> RoleTool then Some (pos, NonToolBeforeComplete)
      else case m_ToolResult m of
             None \<Rightarrow> Some (pos, ToolMessageWithoutResult)
           | Some r \<Rightarrow>
               (case unmatchedCallIndex calls matched idx (tr_ToolCallID r) of
                  None \<Rightarrow> Some (pos, DuplicateOrUnmatchedResult)
                | Some i \<Rightarrow> match_results start calls idx (matched[i := True]) (Suc pos) n ms))"

section \<open>Validation\<close>

function validate_from :: "nat \<Rightarrow> message list \<Rightarrow> turn_error option" where
  "validate_from index [] = None"
| "validate_from index (m # ms) =
     (if m_ToolCalls m \<noteq> [] \<and> m_Role m \<noteq> RoleAssistant then Some (index, CallsRequireAssistant)
      else if m_ToolResult m \<noteq> None \<and> m_Role m \<noteq> RoleTool then Some (index, ResultsRequireTool)
      else if m_Role m = RoleTool then
        Some (index, if m_ToolResult m = None then ToolMessageWithoutResult else OrphanToolResult)
      else if m_ToolCalls m = [] then validate_from (Suc index) ms
      else case call_indexes 0 (m_ToolCalls m) Map.empty of
             Inl dup \<Rightarrow> Some (index, DuplicateCallID dup)
           | Inr idx \<Rightarrow>
               (case match_results index (m_ToolCalls m) idx
                       (replicate (length (m_ToolCalls m)) False) (Suc index)
                       (length (m_ToolCalls m)) ms of
                  Some e \<Rightarrow> Some e
                | None \<Rightarrow> validate_from (index + length (m_ToolCalls m) + 1)
                            (drop (length (m_ToolCalls m)) ms)))"
  by pat_completeness auto
termination
  by (relation "measure (\<lambda>(i, ms). length ms)") auto

declare validate_from.simps(2) [simp del]

definition ValidateCompleteTurns :: "message list \<Rightarrow> turn_error option" where
  "ValidateCompleteTurns messages = validate_from 0 messages"

section \<open>Cut points\<close>

text \<open>The group loop of \<open>CompleteTurnBoundary\<close>; \<open>len\<close> is the length of the whole history.\<close>

function boundary_loop :: "nat \<Rightarrow> nat \<Rightarrow> nat \<Rightarrow> message list \<Rightarrow> nat" where
  "boundary_loop len start index [] = start"
| "boundary_loop len start index (m # ms) =
     (let callCount = length (m_ToolCalls m); groupEnd = index + callCount + 1 in
      if callCount = 0 then boundary_loop len start (Suc index) ms
      else if index < start \<and> start < groupEnd
        then (if groupEnd < len then groupEnd else index)
      else boundary_loop len start groupEnd (drop callCount ms))"
  by pat_completeness auto
termination
  by (relation "measure (\<lambda>(t, s, i, ms). length ms)") auto

declare boundary_loop.simps(2) [simp del]

definition clamp_start :: "int \<Rightarrow> nat \<Rightarrow> nat" where
  "clamp_start preferred n =
     (if preferred < 0 then 0 else if int n < preferred then n else nat preferred)"

definition CompleteTurnBoundary :: "message list \<Rightarrow> int \<Rightarrow> turn_error + nat" where
  "CompleteTurnBoundary messages preferredStart =
     (case ValidateCompleteTurns messages of
        Some e \<Rightarrow> Inl e
      | None \<Rightarrow> Inr (boundary_loop (length messages)
                       (clamp_start preferredStart (length messages)) 0 messages))"

text \<open>The first loop of \<open>CachePrefixBoundary\<close>: one past the last marked message.\<close>

fun last_marker :: "nat \<Rightarrow> nat \<Rightarrow> message list \<Rightarrow> nat" where
  "last_marker boundary index [] = boundary"
| "last_marker boundary index (m # ms) =
     last_marker (if m_CacheBoundary m then Suc index else boundary) (Suc index) ms"

function cache_loop :: "nat \<Rightarrow> nat \<Rightarrow> message list \<Rightarrow> nat" where
  "cache_loop boundary index [] = boundary"
| "cache_loop boundary index (m # ms) =
     (let callCount = length (m_ToolCalls m); groupEnd = index + callCount + 1 in
      if callCount = 0 then cache_loop boundary (Suc index) ms
      else if index < boundary \<and> boundary < groupEnd then groupEnd
      else cache_loop boundary groupEnd (drop callCount ms))"
  by pat_completeness auto
termination
  by (relation "measure (\<lambda>(b, i, ms). length ms)") auto

declare cache_loop.simps(2) [simp del]

definition CachePrefixBoundary :: "message list \<Rightarrow> turn_error + nat" where
  "CachePrefixBoundary messages =
     (case ValidateCompleteTurns messages of
        Some e \<Rightarrow> Inl e
      | None \<Rightarrow> (let boundary = last_marker 0 0 messages in
          Inr (if boundary = 0 then 0 else cache_loop boundary 0 messages)))"

section \<open>The archived view\<close>

definition ContextView :: "message list \<Rightarrow> message list" where
  "ContextView history = filter (\<lambda>m. \<not> m_ContextArchived m) history"

section \<open>Specification: a history is a sequence of groups\<close>

definition plain_message :: "message \<Rightarrow> bool" where
  "plain_message m \<longleftrightarrow> m_ToolCalls m = [] \<and> m_ToolResult m = None \<and> m_Role m \<noteq> RoleTool"

text \<open>A group: a plain message, or a tool turn whose results the matching loop accepts.\<close>

definition tool_turn :: "message \<Rightarrow> message list \<Rightarrow> bool" where
  "tool_turn m rs \<longleftrightarrow>
     m_ToolCalls m \<noteq> [] \<and> m_Role m = RoleAssistant \<and> m_ToolResult m = None \<and>
     length rs = length (m_ToolCalls m) \<and>
     (\<exists>idx. call_indexes 0 (m_ToolCalls m) Map.empty = Inr idx \<and>
        match_results 0 (m_ToolCalls m) idx (replicate (length (m_ToolCalls m)) False) 0
          (length (m_ToolCalls m)) rs = None)"

inductive turns :: "message list \<Rightarrow> bool" where
  turns_Nil: "turns []"
| turns_plain: "plain_message m \<Longrightarrow> turns ms \<Longrightarrow> turns (m # ms)"
| turns_tool: "tool_turn m rs \<Longrightarrow> turns ms \<Longrightarrow> turns (m # rs @ ms)"

inductive_cases turns_ConsE: "turns (m # ms)"


section \<open>The validator meets its specification\<close>

lemma match_results_shift:
  "match_results start calls idx matched pos n ms = None \<longleftrightarrow>
     n \<le> length ms \<and> match_results 0 calls idx matched 0 n (take n ms) = None"
proof (induction n arbitrary: matched pos ms start)
  case 0
  then show ?case by simp
next
  case (Suc n)
  show ?case
  proof (cases ms)
    case Nil
    then show ?thesis by simp
  next
    case (Cons m ms')
    have "match_results 0 calls idx b (Suc 0) n (take n ms') = None \<longleftrightarrow>
            n \<le> length (take n ms') \<and> match_results 0 calls idx b 0 n (take n ms') = None" for b
      using Suc.IH [of 0 b "Suc 0" "take n ms'"] by simp
    then show ?thesis
      using Cons Suc.IH [of start _ "Suc pos" ms']
      by (auto split: option.splits)
  qed
qed

lemma match_results_roles:
  "match_results start calls idx matched pos n ms = None \<Longrightarrow> m \<in> set (take n ms) \<Longrightarrow>
     m_Role m = RoleTool"
  by (induction start calls idx matched pos n ms rule: match_results.induct)
     (auto split: option.splits if_splits)

lemma tool_turn_roles: "tool_turn m rs \<Longrightarrow> r \<in> set rs \<Longrightarrow> m_Role r = RoleTool"
  by (auto simp: tool_turn_def dest: match_results_roles)

lemma tool_turn_length: "tool_turn m rs \<Longrightarrow> length rs = length (m_ToolCalls m)"
  by (simp add: tool_turn_def)

lemma tool_turn_take:
  assumes "m_ToolCalls m \<noteq> []" "m_Role m = RoleAssistant" "m_ToolResult m = None"
    and "call_indexes 0 (m_ToolCalls m) Map.empty = Inr idx"
  shows "match_results start (m_ToolCalls m) idx (replicate (length (m_ToolCalls m)) False) pos
           (length (m_ToolCalls m)) ms = None \<longleftrightarrow>
         length (m_ToolCalls m) \<le> length ms \<and> tool_turn m (take (length (m_ToolCalls m)) ms)"
  using assms match_results_shift [of start "m_ToolCalls m" idx _ pos "length (m_ToolCalls m)" ms]
  by (auto simp: tool_turn_def)

lemma tool_turn_indexes:
  "tool_turn m rs \<Longrightarrow> \<exists>idx. call_indexes 0 (m_ToolCalls m) Map.empty = Inr idx"
  by (auto simp: tool_turn_def)

lemma turns_Cons_iff:
  "turns (m # ms) \<longleftrightarrow>
     (plain_message m \<and> turns ms) \<or>
     (length (m_ToolCalls m) \<le> length ms \<and> tool_turn m (take (length (m_ToolCalls m)) ms) \<and>
        turns (drop (length (m_ToolCalls m)) ms))"
proof
  assume "turns (m # ms)"
  then show "(plain_message m \<and> turns ms) \<or>
     (length (m_ToolCalls m) \<le> length ms \<and> tool_turn m (take (length (m_ToolCalls m)) ms) \<and>
        turns (drop (length (m_ToolCalls m)) ms))"
    by (cases rule: turns_ConsE) (auto simp: tool_turn_length [symmetric])
next
  assume *: "(plain_message m \<and> turns ms) \<or>
     (length (m_ToolCalls m) \<le> length ms \<and> tool_turn m (take (length (m_ToolCalls m)) ms) \<and>
        turns (drop (length (m_ToolCalls m)) ms))"
  then show "turns (m # ms)"
    using turns_tool [of m "take (length (m_ToolCalls m)) ms" "drop (length (m_ToolCalls m)) ms"]
    by (auto intro: turns_plain)
qed

lemma plain_no_calls: "plain_message m \<Longrightarrow> m_ToolCalls m = []"
  by (simp add: plain_message_def)

lemma tool_turn_calls: "tool_turn m rs \<Longrightarrow> m_ToolCalls m \<noteq> []"
  by (simp add: tool_turn_def)

lemma validate_from_turns: "validate_from index ms = None \<longleftrightarrow> turns ms"
proof (induction index ms rule: validate_from.induct)
  case (1 index)
  then show ?case by (simp add: turns_Nil)
next
  case (2 index m ms)
  let ?n = "length (m_ToolCalls m)"
  show ?case
  proof (cases "m_ToolCalls m = []")
    case True
    then have "\<not> tool_turn m rs" for rs
      by (auto dest: tool_turn_calls)
    then show ?thesis
      using True "2.IH"(1)
      by (auto simp: validate_from.simps(2) turns_Cons_iff plain_message_def)
  next
    case calls: False
    show ?thesis
    proof (cases "m_Role m = RoleAssistant \<and> m_ToolResult m = None")
      case False
      then have "\<not> turns (m # ms)"
        using calls by (auto simp: turns_Cons_iff plain_message_def tool_turn_def)
      then show ?thesis
        using False calls by (auto simp: validate_from.simps(2))
    next
      case ok: True
      show ?thesis
      proof (cases "call_indexes 0 (m_ToolCalls m) Map.empty")
        case (Inl dup)
        then show ?thesis
          using ok calls
          by (auto simp: validate_from.simps(2) turns_Cons_iff plain_message_def
              dest: tool_turn_indexes)
      next
        case (Inr idx)
        show ?thesis
        proof (cases "match_results index (m_ToolCalls m) idx (replicate ?n False) (Suc index) ?n ms")
          case None
          then show ?thesis
            using ok calls Inr "2.IH"(2) [OF _ _ _ calls Inr]
              tool_turn_take [of m idx index "Suc index" ms]
            by (auto simp: validate_from.simps(2) turns_Cons_iff plain_message_def)
        next
          case (Some e)
          then show ?thesis
            using ok calls Inr tool_turn_take [of m idx index "Suc index" ms]
            by (auto simp: validate_from.simps(2) turns_Cons_iff plain_message_def)
        qed
      qed
    qed
  qed
qed

lemma ValidateCompleteTurns_turns: "ValidateCompleteTurns ms = None \<longleftrightarrow> turns ms"
  by (simp add: ValidateCompleteTurns_def validate_from_turns)

section \<open>Concatenation and cuts\<close>

lemma turns_append: "turns xs \<Longrightarrow> turns ys \<Longrightarrow> turns (xs @ ys)"
  by (induction rule: turns.induct) (auto intro: turns.intros)

lemma turns_drop_group: "turns xs \<Longrightarrow> turns (xs @ ys) \<Longrightarrow> turns ys"
proof (induction rule: turns.induct)
  case turns_Nil
  then show ?case by simp
next
  case (turns_plain m ms)
  then show ?case
    by (auto simp: turns_Cons_iff plain_message_def dest: tool_turn_calls)
next
  case (turns_tool m rs ms)
  then have "turns (m # rs @ (ms @ ys))" by simp
  then have "turns (ms @ ys)"
    using turns_tool.hyps
    by (auto simp: turns_Cons_iff plain_message_def tool_turn_length dest: tool_turn_calls)
  then show ?case by (rule turns_tool.IH)
qed

lemma turns_not_tool_head: "turns (m # ms) \<Longrightarrow> m_Role m \<noteq> RoleTool"
  by (auto simp: turns_Cons_iff plain_message_def tool_turn_def)

text \<open>No cut lies inside a tool turn.\<close>

lemma no_cut_inside:
  assumes "tool_turn m rs" "0 < k" "k < Suc (length rs)"
  shows "\<not> turns (drop k (m # rs @ ms))"
proof -
  obtain j where j: "k = Suc j" "j < length rs"
    using assms by (cases k) auto
  then have "drop k (m # rs @ ms) = rs ! j # drop (Suc j) rs @ ms"
    by (simp add: Cons_nth_drop_Suc)
  moreover have "m_Role (rs ! j) = RoleTool"
    using assms(1) j by (auto intro: tool_turn_roles)
  ultimately show ?thesis
    using turns_not_tool_head by metis
qed

definition cut :: "message list \<Rightarrow> nat \<Rightarrow> bool" where
  "cut ms k \<longleftrightarrow> k \<le> length ms \<and> turns (take k ms) \<and> turns (drop k ms)"

lemma cut_0: "turns ms \<Longrightarrow> cut ms 0"
  by (simp add: cut_def turns_Nil)

lemma cut_plain: "plain_message m \<Longrightarrow> cut ms k \<Longrightarrow> cut (m # ms) (Suc k)"
  by (simp add: cut_def turns_plain)

lemma cut_tool: "tool_turn m rs \<Longrightarrow> cut ms k \<Longrightarrow> cut (m # rs @ ms) (Suc (length rs) + k)"
  by (simp add: cut_def turns_tool)

lemma cut_plain_at:
  "plain_message m \<Longrightarrow> Suc index \<le> k \<Longrightarrow> cut ms (k - Suc index) \<Longrightarrow> cut (m # ms) (k - index)"
  using cut_plain [of m ms "k - Suc index"] by (simp add: Suc_diff_Suc Suc_diff_le)

lemma cut_tool_at:
  assumes "tool_turn m rs" "Suc (index + length rs) \<le> k" "cut ms (k - Suc (index + length rs))"
  shows "cut (m # rs @ ms) (k - index)"
proof -
  have "k - index = Suc (length rs) + (k - Suc (index + length rs))"
    using assms(2) by arith
  then show ?thesis
    using cut_tool [OF assms(1,3)] by simp
qed

lemma boundary_loop_passed: "start \<le> index \<Longrightarrow> boundary_loop len start index ms = start"
  by (induction len start index ms rule: boundary_loop.induct)
     (simp_all add: boundary_loop.simps(2) Let_def)

lemma boundary_loop_plain:
  "m_ToolCalls m = [] \<Longrightarrow> boundary_loop len start index (m # ms) = boundary_loop len start (Suc index) ms"
  by (simp add: boundary_loop.simps(2))

lemma boundary_loop_tool:
  assumes "tool_turn m rs"
  shows "boundary_loop len start index (m # rs @ ms) =
     (if index < start \<and> start < Suc (index + length rs)
        then (if Suc (index + length rs) < len then Suc (index + length rs) else index)
      else boundary_loop len start (Suc (index + length rs)) ms)"
  using tool_turn_calls [OF assms] tool_turn_length [OF assms]
  by (simp add: boundary_loop.simps(2) Let_def)

lemma boundary_loop_cut:
  "turns ms \<Longrightarrow> index \<le> start \<Longrightarrow> start \<le> index + length ms \<Longrightarrow> len = index + length ms \<Longrightarrow>
     index \<le> boundary_loop len start index ms \<and> cut ms (boundary_loop len start index ms - index)"
proof (induction arbitrary: index rule: turns.induct)
  case turns_Nil
  then show ?case by (simp add: cut_def turns.turns_Nil)
next
  case (turns_plain m ms)
  show ?case
  proof (cases "start = index")
    case True
    then show ?thesis
      using turns_plain by (simp add: boundary_loop_passed cut_0 turns.turns_plain)
  next
    case False
    have "Suc index \<le> boundary_loop len start (Suc index) ms \<and>
          cut ms (boundary_loop len start (Suc index) ms - Suc index)"
      using turns_plain.IH [of "Suc index"] turns_plain.prems False by simp
    then show ?thesis
      using turns_plain.hyps cut_plain_at by (simp add: boundary_loop_plain plain_no_calls)
  qed
next
  case (turns_tool m rs ms)
  let ?e = "Suc (index + length rs)"
  have whole: "turns (m # rs @ ms)"
    using turns_tool.hyps by (auto intro: turns.turns_tool)
  have end_cut: "cut (m # rs @ ms) (Suc (length rs))"
    using cut_tool [OF turns_tool.hyps(1) cut_0 [OF turns_tool.hyps(2)]] by simp
  consider "start = index" | "index < start" "start < ?e" | "?e \<le> start"
    using turns_tool.prems by linarith
  then show ?case
  proof cases
    case 1
    then show ?thesis by (simp add: boundary_loop_passed cut_0 whole)
  next
    case 2
    then show ?thesis
      using end_cut whole
      by (simp add: boundary_loop_tool [OF turns_tool.hyps(1)] cut_0)
  next
    case 3
    have "?e \<le> boundary_loop len start ?e ms \<and> cut ms (boundary_loop len start ?e ms - ?e)"
      using turns_tool.IH [of ?e] turns_tool.prems 3 by simp
    then show ?thesis
      using 3 cut_tool_at [OF turns_tool.hyps(1)]
      by (simp add: boundary_loop_tool [OF turns_tool.hyps(1)])
  qed
qed

lemma boundary_loop_fixed:
  "turns ms \<Longrightarrow> index \<le> start \<Longrightarrow> cut ms (start - index) \<Longrightarrow> boundary_loop len start index ms = start"
proof (induction arbitrary: index rule: turns.induct)
  case turns_Nil
  then show ?case by simp
next
  case (turns_plain m ms)
  show ?case
  proof (cases "start = index")
    case False
    then have "start - index = Suc (start - Suc index)"
      using turns_plain.prems by simp
    then have "cut ms (start - Suc index)"
      using turns_plain.prems turns_plain.hyps
      by (auto simp: cut_def turns_Cons_iff plain_message_def dest: tool_turn_calls)
    then show ?thesis
      using turns_plain False by (simp add: boundary_loop_plain plain_no_calls)
  qed (simp add: boundary_loop_passed)
next
  case (turns_tool m rs ms)
  have "\<not> (0 < start - index \<and> start - index < Suc (length rs))"
    using no_cut_inside [OF turns_tool.hyps(1), of "start - index" ms] turns_tool.prems
    by (auto simp: cut_def)
  then consider "start = index" | "Suc (index + length rs) \<le> start"
    using turns_tool.prems by linarith
  then show ?case
  proof cases
    case 1
    then show ?thesis by (simp add: boundary_loop_passed)
  next
    case 2
    then obtain k where k: "start = Suc (index + length rs) + k"
      using le_Suc_ex by blast
    then have "turns (drop k ms)" "k \<le> length ms"
      using turns_tool.prems by (auto simp: cut_def)
    moreover from this have "turns (take k ms)"
      using turns_drop_group [of "m # rs" "take k ms"] turns_tool.hyps(1) turns_tool.prems k
        turns.turns_tool [OF turns_tool.hyps(1) turns.turns_Nil]
      by (auto simp: cut_def)
    ultimately show ?thesis
      using turns_tool.IH [of "Suc (index + length rs)"] k 2
      by (auto simp: boundary_loop_tool [OF turns_tool.hyps(1)] cut_def)
  qed
qed


section \<open>Cache prefixes\<close>

text \<open>The protected prefix covers every marked message.\<close>

definition protects :: "nat \<Rightarrow> message list \<Rightarrow> bool" where
  "protects b ms \<longleftrightarrow> (\<forall>i < length ms. m_CacheBoundary (ms ! i) \<longrightarrow> i < b)"

lemma last_marker_ge: "b \<le> i \<Longrightarrow> b \<le> last_marker b i ms \<and> last_marker b i ms \<le> i + length ms"
proof (induction b i ms rule: last_marker.induct)
  case (2 b i m ms)
  then show ?case by (cases "m_CacheBoundary m") auto
qed simp

lemma last_marker_covers:
  "b \<le> i \<Longrightarrow> k < length ms \<Longrightarrow> m_CacheBoundary (ms ! k) \<Longrightarrow> i + k < last_marker b i ms"
proof (induction b i ms arbitrary: k rule: last_marker.induct)
  case (2 b i m ms)
  then show ?case
    using last_marker_ge [of "Suc i" "Suc i" ms] by (cases k) auto
qed simp

lemma last_marker_none:
  "last_marker b i ms = b \<or> (\<exists>k < length ms. m_CacheBoundary (ms ! k))"
proof (induction b i ms rule: last_marker.induct)
  case (2 b i m ms)
  then show ?case by (cases "m_CacheBoundary m") auto
qed simp

lemma cache_loop_passed: "boundary \<le> index \<Longrightarrow> cache_loop boundary index ms = boundary"
  by (induction boundary index ms rule: cache_loop.induct)
     (simp_all add: cache_loop.simps(2) Let_def)

lemma cache_loop_tool:
  assumes "tool_turn m rs"
  shows "cache_loop b index (m # rs @ ms) =
     (if index < b \<and> b < Suc (index + length rs) then Suc (index + length rs)
      else cache_loop b (Suc (index + length rs)) ms)"
  using tool_turn_calls [OF assms] tool_turn_length [OF assms]
  by (simp add: cache_loop.simps(2) Let_def)

text \<open>On a valid history it rounds the marker up to the end of its group.\<close>

lemma cache_loop_cut:
  "turns ms \<Longrightarrow> index \<le> b \<Longrightarrow> b \<le> index + length ms \<Longrightarrow>
     b \<le> cache_loop b index ms \<and> cut ms (cache_loop b index ms - index)"
proof (induction arbitrary: index rule: turns.induct)
  case turns_Nil
  then show ?case by (simp add: cut_def turns.turns_Nil)
next
  case (turns_plain m ms)
  show ?case
  proof (cases "b = index")
    case True
    then show ?thesis
      using turns_plain by (simp add: cache_loop_passed cut_0 turns.turns_plain)
  next
    case False
    have "b \<le> cache_loop b (Suc index) ms \<and> cut ms (cache_loop b (Suc index) ms - Suc index)"
      using turns_plain.IH [of "Suc index"] turns_plain.prems False by simp
    then show ?thesis
      using turns_plain.hyps turns_plain.prems False
        cut_plain_at [of m index "cache_loop b (Suc index) ms" ms]
      by (simp add: cache_loop.simps(2) plain_no_calls)
  qed
next
  case (turns_tool m rs ms)
  let ?e = "Suc (index + length rs)"
  have whole: "turns (m # rs @ ms)"
    using turns_tool.hyps by (auto intro: turns.turns_tool)
  have end_cut: "cut (m # rs @ ms) (Suc (length rs))"
    using cut_tool [OF turns_tool.hyps(1) cut_0 [OF turns_tool.hyps(2)]] by simp
  consider "b = index" | "index < b" "b < ?e" | "?e \<le> b"
    using turns_tool.prems by linarith
  then show ?case
  proof cases
    case 1
    then show ?thesis by (simp add: cache_loop_passed cut_0 whole)
  next
    case 2
    then show ?thesis
      using end_cut by (simp add: cache_loop_tool [OF turns_tool.hyps(1)])
  next
    case 3
    then have ih: "b \<le> cache_loop b ?e ms \<and> cut ms (cache_loop b ?e ms - ?e)"
      using turns_tool.IH [of ?e] turns_tool.prems by simp
    then show ?thesis
      using 3 cut_tool_at [OF turns_tool.hyps(1), of index "cache_loop b ?e ms" ms]
      by (simp add: cache_loop_tool [OF turns_tool.hyps(1)])
  qed
qed


section \<open>Every call is answered exactly once\<close>

text \<open>
  A result may answer a call if one of the two has no ID or the IDs agree.  The calls still
  unmatched are those whose flag is false.
\<close>

definition answers :: "tool_call \<Rightarrow> message \<Rightarrow> bool" where
  "answers c m \<longleftrightarrow> (\<exists>r. m_ToolResult m = Some r \<and>
     (tr_ToolCallID r = [] \<or> tc_ID c = [] \<or> tr_ToolCallID r = tc_ID c))"

fun unmatched :: "tool_call list \<Rightarrow> bool list \<Rightarrow> tool_call list" where
  "unmatched (c # cs) (b # bs) = (if b then unmatched cs bs else c # unmatched cs bs)"
| "unmatched _ _ = []"

lemma unmatched_update:
  "i < length cs \<Longrightarrow> length bs = length cs \<Longrightarrow> \<not> bs ! i \<Longrightarrow>
     mset (unmatched cs bs) = add_mset (cs ! i) (mset (unmatched cs (bs[i := True])))"
proof (induction cs bs arbitrary: i rule: unmatched.induct)
  case (1 c cs b bs)
  then show ?case by (cases i) auto
qed auto

lemma unmatched_replicate [simp]: "unmatched cs (replicate (length cs) False) = cs"
  by (induction cs) auto

lemma first_index_sound:
  "first_index j P xs = Some i \<Longrightarrow> j \<le> i \<and> i < j + length xs \<and> P i (xs ! (i - j))"
proof (induction j P xs rule: first_index.induct)
  case (2 j P x xs)
  then show ?case by (auto simp: nth_Cons' split: if_splits)
qed simp

lemma call_indexes_sound:
  "call_indexes j cs m = Inr idx \<Longrightarrow> idx rid = Some i \<Longrightarrow>
     m rid = Some i \<or> (j \<le> i \<and> i < j + length cs \<and> tc_ID (cs ! (i - j)) = rid)"
proof (induction j cs m rule: call_indexes.induct)
  case (2 j c cs m)
  then show ?case by (fastforce simp: nth_Cons' split: if_splits)
qed simp

lemma unmatchedCallIndex_sound:
  assumes "call_indexes 0 calls Map.empty = Inr idx" "m_ToolResult m = Some r"
    and "unmatchedCallIndex calls matched idx (tr_ToolCallID r) = Some i"
  shows "i < length calls \<and> \<not> matched ! i \<and> answers (calls ! i) m"
  using assms
  by (auto simp: unmatchedCallIndex_def answers_def split: if_splits option.splits
      dest!: first_index_sound call_indexes_sound)

lemma match_results_sound:
  assumes idx: "call_indexes 0 calls Map.empty = Inr idx"
  shows "match_results start calls idx matched pos n ms = None \<Longrightarrow>
     length matched = length calls \<Longrightarrow>
     \<exists>cs. list_all2 answers cs (take n ms) \<and> mset cs \<subseteq># mset (unmatched calls matched)"
proof (induction n arbitrary: matched pos ms)
  case 0
  then show ?case by simp
next
  case (Suc n)
  then obtain m ms' r i where ms: "ms = m # ms'" and r: "m_ToolResult m = Some r"
    and i: "unmatchedCallIndex calls matched idx (tr_ToolCallID r) = Some i"
    and rec: "match_results start calls idx (matched[i := True]) (Suc pos) n ms' = None"
    by (cases ms) (auto split: option.splits if_splits)
  obtain cs where cs: "list_all2 answers cs (take n ms')"
    "mset cs \<subseteq># mset (unmatched calls (matched[i := True]))"
    using Suc.IH [OF rec] Suc.prems by auto
  have "i < length calls" "\<not> matched ! i" "answers (calls ! i) m"
    using unmatchedCallIndex_sound [OF idx r i] by auto
  then have "list_all2 answers (calls ! i # cs) (take (Suc n) ms)"
    "mset (calls ! i # cs) \<subseteq># mset (unmatched calls matched)"
    using cs ms Suc.prems unmatched_update [of i calls matched] by auto
  then show ?case by blast
qed

lemma tool_turn_answered:
  assumes "tool_turn m rs"
  shows "\<exists>cs. mset cs = mset (m_ToolCalls m) \<and> list_all2 answers cs rs"
proof -
  let ?calls = "m_ToolCalls m"
  obtain idx where idx: "call_indexes 0 ?calls Map.empty = Inr idx"
    and none: "match_results 0 ?calls idx (replicate (length ?calls) False) 0 (length ?calls) rs = None"
    and len: "length rs = length ?calls"
    using assms by (auto simp: tool_turn_def)
  obtain cs where cs: "list_all2 answers cs (take (length ?calls) rs)" "mset cs \<subseteq># mset ?calls"
    using match_results_sound [OF idx none] by auto
  have "size (mset cs) = size (mset ?calls)"
    using cs len by (auto dest: list_all2_lengthD)
  then have "mset cs = mset ?calls"
    using cs(2) by (metis mset_subset_size nless_le subset_mset.nless_le)
  then show ?thesis
    using cs len by auto
qed

section \<open>An independent specification of a complete history\<close>

text \<open>
  The specification the package comment gives, without the validator's index map, flags or loops.
  \<open>suits calls taken rid a\<close>: with the calls of \<open>taken\<close> already answered, a result for the call ID \<open>rid\<close>
  belongs to call \<open>a\<close>.  A result that names a call of the turn belongs to that call; one with an ID
  nobody has takes the first open call without an ID; one without an ID takes the first open call.
\<close>

definition suits :: "tool_call list \<Rightarrow> nat set \<Rightarrow> bytes \<Rightarrow> nat \<Rightarrow> bool" where
  "suits calls taken rid a \<longleftrightarrow> a < length calls \<and> a \<notin> taken \<and>
     (if rid \<noteq> [] \<and> rid \<in> tc_ID ` set calls then tc_ID (calls ! a) = rid
      else if rid \<noteq> [] then tc_ID (calls ! a) = [] \<and>
        (\<forall>i < a. tc_ID (calls ! i) = [] \<longrightarrow> i \<in> taken)
      else (\<forall>i < a. i \<in> taken))"

definition result_message :: "message \<Rightarrow> bool" where
  "result_message r \<longleftrightarrow> m_Role r = RoleTool \<and> m_ToolCalls r = [] \<and> m_ToolResult r \<noteq> None"

definition answered_id :: "message \<Rightarrow> bytes" where
  "answered_id r = tr_ToolCallID (the (m_ToolResult r))"

text \<open>The result at place \<open>j\<close> belongs to the call \<open>as ! j\<close>, the earlier ones having taken theirs.\<close>

definition allotted :: "tool_call list \<Rightarrow> nat set \<Rightarrow> message list \<Rightarrow> nat list \<Rightarrow> bool" where
  "allotted calls taken rs as \<longleftrightarrow> length as = length rs \<and>
     (\<forall>j < length rs. suits calls (taken \<union> set (take j as)) (answered_id (rs ! j)) (as ! j))"

definition complete_exchange :: "message \<Rightarrow> message list \<Rightarrow> bool" where
  "complete_exchange m rs \<longleftrightarrow>
     m_Role m = RoleAssistant \<and> m_ToolResult m = None \<and> m_ToolCalls m \<noteq> [] \<and>
     distinct (filter (\<lambda>rid. rid \<noteq> []) (map tc_ID (m_ToolCalls m))) \<and>
     length rs = length (m_ToolCalls m) \<and> list_all result_message rs \<and>
     (\<exists>as. allotted (m_ToolCalls m) {} rs as)"

inductive complete_history :: "message list \<Rightarrow> bool" where
  complete_Nil: "complete_history []"
| complete_plain: "plain_message m \<Longrightarrow> complete_history ms \<Longrightarrow> complete_history (m # ms)"
| complete_exchange: "complete_exchange m rs \<Longrightarrow> complete_history ms \<Longrightarrow>
     complete_history (m # rs @ ms)"

lemma call_indexes_iff:
  "(\<exists>idx. call_indexes j calls m = Inr idx) \<longleftrightarrow>
     distinct (filter (\<lambda>rid. rid \<noteq> []) (map tc_ID calls)) \<and>
     (\<forall>c \<in> set calls. tc_ID c \<noteq> [] \<longrightarrow> m (tc_ID c) = None)"
proof (induction calls arbitrary: j m)
  case (Cons call calls)
  show ?case
  proof (cases "tc_ID call = [] \<or> m (tc_ID call) \<noteq> None")
    case True
    then show ?thesis
      using Cons.IH [of "Suc j" m] by auto
  next
    case False
    have "(\<exists>idx. call_indexes j (call # calls) m = Inr idx) \<longleftrightarrow>
          distinct (filter (\<lambda>rid. rid \<noteq> []) (map tc_ID calls)) \<and>
          (\<forall>c \<in> set calls. tc_ID c \<noteq> [] \<longrightarrow> (if tc_ID c = tc_ID call then Some j else m (tc_ID c)) = None)"
        using False Cons.IH [of "Suc j" "m(tc_ID call \<mapsto> j)"] by (simp add: fun_upd_def)
    also have "\<dots> \<longleftrightarrow> distinct (filter (\<lambda>rid. rid \<noteq> []) (map tc_ID (call # calls))) \<and>
          (\<forall>c \<in> set (call # calls). tc_ID c \<noteq> [] \<longrightarrow> m (tc_ID c) = None)"
      using False by (auto simp: image_iff split: if_splits)
    finally show ?thesis .
  qed
qed simp

lemma call_indexes_keeps:
  "call_indexes j calls m = Inr idx \<Longrightarrow> m rid = Some i \<Longrightarrow> idx rid = Some i"
proof (induction calls arbitrary: j m)
  case (Cons call calls)
  then show ?case
    using Cons.IH [of "Suc j" "m(tc_ID call \<mapsto> j)"] by (cases "rid = tc_ID call") (auto simp: fun_upd_def split: if_splits)
qed simp

lemma call_indexes_complete:
  "call_indexes j calls m = Inr idx \<Longrightarrow> i < length calls \<Longrightarrow> tc_ID (calls ! i) \<noteq> [] \<Longrightarrow>
     idx (tc_ID (calls ! i)) = Some (j + i)"
proof (induction calls arbitrary: i j m)
  case (Cons call calls)
  then show ?case
    using Cons.IH [of "Suc j" _ "i - 1"] call_indexes_keeps [of "Suc j" calls _ idx]
    by (cases i) (auto split: if_splits)
qed simp

lemma call_indexes_named:
  "call_indexes j calls m = Inr idx \<Longrightarrow> idx [] = m []"
proof (induction calls arbitrary: j m)
  case (Cons call calls)
  then show ?case
    using Cons.IH [of "Suc j" "m(tc_ID call \<mapsto> j)"] by (auto simp: fun_upd_def split: if_splits)
qed simp

lemma call_indexes_lookup:
  assumes "call_indexes 0 calls Map.empty = Inr idx"
  shows "idx rid = Some i \<longleftrightarrow> rid \<noteq> [] \<and> i < length calls \<and> tc_ID (calls ! i) = rid"
proof
  assume "idx rid = Some i"
  then show "rid \<noteq> [] \<and> i < length calls \<and> tc_ID (calls ! i) = rid"
    using call_indexes_sound [OF assms, of rid i] call_indexes_named [OF assms] by (cases rid) simp_all
next
  assume "rid \<noteq> [] \<and> i < length calls \<and> tc_ID (calls ! i) = rid"
  then show "idx rid = Some i"
    using call_indexes_complete [OF assms, of i] by simp
qed

lemma first_index_at:
  "first_index k P xs = Some i \<longleftrightarrow>
     (\<exists>d. i = k + d \<and> d < length xs \<and> P (k + d) (xs ! d) \<and> (\<forall>e < d. \<not> P (k + e) (xs ! e)))"
proof (induction xs arbitrary: k)
  case (Cons x xs)
  have split: "(\<exists>d. Q d) \<longleftrightarrow> Q 0 \<or> (\<exists>d. Q (Suc d))" for Q
    by (metis not0_implies_Suc)
  show ?case
    by (subst split) (simp add: Cons.IH All_less_Suc2, auto)
qed simp

lemma first_index_iff:
  "first_index 0 P xs = Some i \<longleftrightarrow> i < length xs \<and> P i (xs ! i) \<and> (\<forall>j < i. \<not> P j (xs ! j))"
  by (auto simp: first_index_at)

lemma unmatched_suits:
  assumes idx: "call_indexes 0 calls Map.empty = Inr idx" and len: "length matched = length calls"
  shows "unmatchedCallIndex calls matched idx rid = Some a \<longleftrightarrow>
     suits calls {i. i < length calls \<and> matched ! i} rid a"
proof (cases "rid \<noteq> [] \<and> rid \<in> tc_ID ` set calls")
  case True
  then obtain i where i: "idx rid = Some i" "i < length calls" "tc_ID (calls ! i) = rid"
    using call_indexes_lookup [OF idx, of rid] by (auto simp: in_set_conv_nth)
  have "a < length calls \<Longrightarrow> tc_ID (calls ! a) = rid \<Longrightarrow> a = i"
    using call_indexes_lookup [OF idx, of rid a] i(1) True by auto
  then show ?thesis
    using True i by (auto simp: unmatchedCallIndex_def suits_def)
next
  case False
  then have "rid \<noteq> [] \<Longrightarrow> idx rid \<noteq> Some i" for i
    using call_indexes_lookup [OF idx, of rid i] nth_mem [of i calls] by auto
  then have "rid \<noteq> [] \<Longrightarrow> idx rid = None"
    by (cases "idx rid") auto
  then show ?thesis
    using False by (auto simp: unmatchedCallIndex_def suits_def first_index_iff)
qed

lemma suits_at: "suits calls taken rid a \<Longrightarrow> a < length calls"
  by (simp add: suits_def)

lemma allotted_step:
  "allotted calls taken (r # rs) (a # as) \<longleftrightarrow>
     suits calls taken (answered_id r) a \<and> allotted calls (insert a taken) rs as"
  by (auto simp: allotted_def All_less_Suc2)

lemma allotted_Cons:
  "(\<exists>as. allotted calls taken (r # rs) as) \<longleftrightarrow>
     (\<exists>a. suits calls taken (answered_id r) a \<and> (\<exists>as. allotted calls (insert a taken) rs as))"
proof
  assume "\<exists>as. allotted calls taken (r # rs) as"
  then obtain as where as: "allotted calls taken (r # rs) as" ..
  then obtain a as' where "as = a # as'"
    by (cases as) (auto simp: allotted_def)
  then show "\<exists>a. suits calls taken (answered_id r) a \<and> (\<exists>as. allotted calls (insert a taken) rs as)"
    using as by (auto simp: allotted_step)
qed (metis allotted_step)

lemma match_results_allotted:
  assumes idx: "call_indexes 0 calls Map.empty = Inr idx"
  shows "length matched = length calls \<Longrightarrow>
     match_results start calls idx matched pos (length rs) rs = None \<longleftrightarrow>
     list_all result_message rs \<and>
     (\<exists>as. allotted calls {i. i < length calls \<and> matched ! i} rs as)"
proof (induction rs arbitrary: matched pos)
  case Nil
  then show ?case by (simp add: allotted_def)
next
  case (Cons r rs)
  let ?taken = "{i. i < length calls \<and> matched ! i}"
  have step: "{i. i < length calls \<and> matched[a := True] ! i} = insert a ?taken" if "a < length calls" for a
    using that Cons.prems by (auto simp: nth_list_update)
  show ?case
  proof (cases "result_message r")
    case False
    then show ?thesis by (auto simp: result_message_def)
  next
    case True
    then obtain res where res: "m_ToolResult r = Some res" "answered_id r = tr_ToolCallID res"
      by (auto simp: result_message_def answered_id_def)
    show ?thesis
    proof (cases "unmatchedCallIndex calls matched idx (tr_ToolCallID res)")
      case None
      then have "\<not> suits calls ?taken (answered_id r) a" for a
        using unmatched_suits [OF idx Cons.prems, of "tr_ToolCallID res" a] res by simp
      then show ?thesis
        using None True res by (simp add: result_message_def allotted_Cons)
    next
      case (Some a)
      then have only: "suits calls ?taken (answered_id r) b \<longleftrightarrow> b = a" for b
        using unmatched_suits [OF idx Cons.prems, of "tr_ToolCallID res" b] res by auto
      then have "a < length calls"
        using suits_at by blast
      then show ?thesis
        using Some True res only step [of a] Cons.prems
          Cons.IH [of "matched[a := True]" "Suc pos"]
        by (simp add: result_message_def allotted_Cons)
    qed
  qed
qed

lemma tool_turn_exchange: "tool_turn m rs \<longleftrightarrow> complete_exchange m rs"
proof (cases "call_indexes 0 (m_ToolCalls m) Map.empty")
  case (Inl dup)
  then have "\<not> distinct (filter (\<lambda>rid. rid \<noteq> []) (map tc_ID (m_ToolCalls m)))"
    using call_indexes_iff [of 0 "m_ToolCalls m" Map.empty] by auto
  then show ?thesis
    using Inl by (simp add: tool_turn_def complete_exchange_def)
next
  case (Inr idx)
  then have "distinct (filter (\<lambda>rid. rid \<noteq> []) (map tc_ID (m_ToolCalls m)))"
    using call_indexes_iff [of 0 "m_ToolCalls m" Map.empty] by auto
  moreover have none: "{i. i < length (m_ToolCalls m) \<and> replicate (length (m_ToolCalls m)) False ! i} = {}"
    by auto
  have "match_results 0 (m_ToolCalls m) idx (replicate (length (m_ToolCalls m)) False) 0 (length rs) rs = None
      \<longleftrightarrow> list_all result_message rs \<and> (\<exists>as. allotted (m_ToolCalls m) {} rs as)"
    using match_results_allotted [OF Inr, of "replicate (length (m_ToolCalls m)) False" 0 0 rs]
    unfolding none by simp
  ultimately show ?thesis
    using Inr by (auto simp: tool_turn_def complete_exchange_def)
qed

lemma turns_complete: "turns ms \<longleftrightarrow> complete_history ms"
proof
  show "turns ms \<Longrightarrow> complete_history ms"
    by (induction rule: turns.induct) (auto intro: complete_history.intros simp: tool_turn_exchange)
  show "complete_history ms \<Longrightarrow> turns ms"
    by (induction rule: complete_history.induct) (auto intro: turns.intros simp: tool_turn_exchange)
qed

section \<open>Archiving whole groups\<close>

text \<open>A tool turn is archived as a whole or not at all.\<close>

inductive uniform_turns :: "message list \<Rightarrow> bool" where
  uniform_Nil: "uniform_turns []"
| uniform_plain: "plain_message m \<Longrightarrow> uniform_turns ms \<Longrightarrow> uniform_turns (m # ms)"
| uniform_tool: "tool_turn m rs \<Longrightarrow> \<forall>r \<in> set rs. m_ContextArchived r = m_ContextArchived m \<Longrightarrow>
     uniform_turns ms \<Longrightarrow> uniform_turns (m # rs @ ms)"

lemma uniform_turns_turns: "uniform_turns ms \<Longrightarrow> turns ms"
  by (induction rule: uniform_turns.induct) (auto intro: turns.intros)

lemma uniform_turns_view: "uniform_turns ms \<Longrightarrow> turns (ContextView ms)"
proof (induction rule: uniform_turns.induct)
  case uniform_Nil
  then show ?case by (simp add: ContextView_def turns_Nil)
next
  case (uniform_plain m ms)
  then show ?case by (auto simp: ContextView_def intro: turns_plain)
next
  case (uniform_tool m rs ms)
  have "filter (\<lambda>r. \<not> m_ContextArchived r) rs = (if m_ContextArchived m then [] else rs)"
    using uniform_tool.hyps(2) by (auto simp: filter_empty_conv filter_id_conv)
  then show ?case
    using uniform_tool by (auto simp: ContextView_def intro: turns_tool)
qed

lemma uniform_append: "uniform_turns xs \<Longrightarrow> uniform_turns ys \<Longrightarrow> uniform_turns (xs @ ys)"
  by (induction rule: uniform_turns.induct) (auto intro: uniform_turns.intros)

lemma ContextView_append [simp]: "ContextView (xs @ ys) = ContextView xs @ ContextView ys"
  by (simp add: ContextView_def)

lemma CachePrefixBoundary_protects:
  assumes "ValidateCompleteTurns ms = None"
  shows "\<exists>b. CachePrefixBoundary ms = Inr b \<and> protects b ms \<and> cut ms b \<and>
    (b = 0) = (\<not> (\<exists>m \<in> set ms. m_CacheBoundary m))"
proof -
  let ?b = "last_marker 0 0 ms"
  have t: "turns ms"
    using assms by (simp add: ValidateCompleteTurns_turns)
  have none: "?b = 0 \<longleftrightarrow> \<not> (\<exists>m \<in> set ms. m_CacheBoundary m)"
    using last_marker_none [of 0 0 ms] last_marker_covers [of 0 0 _ ms]
    by (metis in_set_conv_nth le0 not_less_zero add_0)
  show ?thesis
  proof (cases "?b = 0")
    case True
    then show ?thesis
      using assms none cut_0 [OF t]
      by (auto simp: CachePrefixBoundary_def protects_def dest: nth_mem)
  next
    case False
    have "?b \<le> cache_loop ?b 0 ms" "cut ms (cache_loop ?b 0 ms)"
      using cache_loop_cut [OF t, of 0 ?b] last_marker_ge [of 0 0 ms] by auto
    moreover have "protects (cache_loop ?b 0 ms) ms"
      using \<open>?b \<le> cache_loop ?b 0 ms\<close> last_marker_covers [of 0 0 _ ms]
      by (fastforce simp: protects_def)
    ultimately show ?thesis
      using assms False none by (auto simp: CachePrefixBoundary_def)
  qed
qed

section \<open>Properties\<close>

text \<open>
  C1.  The validator accepts exactly the complete histories: sequences of plain messages (no calls,
  no result, not of the tool role) and exchanges.  An exchange is an assistant message whose calls
  have no non-empty ID twice, followed by as many tool messages, each carrying a result and no call,
  which belong to the calls one to one: a result that names a call of the turn answers that call,
  one whose ID nobody has the first open call without an ID, one without an ID the first open call.
\<close>

theorem validate_complete_turns_spec: "(ValidateCompleteTurns ms = None) = complete_history ms"
  by (simp add: ValidateCompleteTurns_turns turns_complete)

text \<open>
  C2.  In an accepted history an assistant turn with calls is followed by one result per call:
  the calls can be listed, each exactly once, so that the i-th result answers the i-th of them.
\<close>

theorem accepted_turn_answers_every_call:
  assumes "ValidateCompleteTurns (pre @ m # post) = None"
    and "ValidateCompleteTurns pre = None" and "m_ToolCalls m \<noteq> []"
  shows "\<exists>rs post' cs. post = rs @ post' \<and> mset cs = mset (m_ToolCalls m) \<and> list_all2 answers cs rs"
proof -
  have "turns (m # post)"
    using assms(1,2) turns_drop_group [of pre "m # post"] by (simp add: ValidateCompleteTurns_turns)
  then have "tool_turn m (take (length (m_ToolCalls m)) post)"
    using assms(3) by (auto simp: turns_Cons_iff plain_message_def)
  then show ?thesis
    by (metis tool_turn_answered append_take_drop_id)
qed

definition sample_calls :: message where
  "sample_calls = zero_message\<lparr>m_Role := RoleAssistant, m_ToolCalls :=
     [\<lparr>tc_ID = ''a'', tc_Name = ''f'', tc_Arguments = [], tc_OperationID = []\<rparr>,
      \<lparr>tc_ID = ''b'', tc_Name = ''f'', tc_Arguments = [], tc_OperationID = []\<rparr>]\<rparr>"

definition sample_history :: "message list" where
  "sample_history =
     [NewText RoleUser ''q'', sample_calls, NewToolResult (zero_result\<lparr>tr_ToolCallID := ''b''\<rparr>),
      (NewToolResult (zero_result\<lparr>tr_ToolCallID := ''a''\<rparr>))\<lparr>m_CacheBoundary := True\<rparr>,
      NewText RoleAssistant ''done'']"

lemmas sample_simps = sample_history_def sample_calls_def zero_message_def NewText_def
  NewToolResult_def result_SyncLegacyContent_def result_CanonicalContent_def zero_result_def
  ValidateCompleteTurns_def validate_from.simps unmatchedCallIndex_def

lemma sample_history_valid: "ValidateCompleteTurns sample_history = None"
  by (simp add: sample_simps)

theorem accepted_turn_answers_every_call_witness:
  "\<exists>rs post' cs. drop 2 sample_history = rs @ post' \<and> mset cs = mset (m_ToolCalls sample_calls) \<and>
     list_all2 answers cs rs"
proof (rule accepted_turn_answers_every_call [of "[NewText RoleUser ''q'']"])
  show "ValidateCompleteTurns ([NewText RoleUser ''q''] @ sample_calls # drop 2 sample_history) = None"
    using sample_history_valid by (simp add: sample_history_def)
qed (simp_all add: sample_simps)

text \<open>
  C3.  On an accepted history CompleteTurnBoundary returns a position within the history whose
  two sides are both accepted, and returns the preferred start itself (clamped to the history)
  whenever that is already such a position.
\<close>

theorem complete_turn_boundary_cut:
  assumes "ValidateCompleteTurns ms = None"
  shows "\<exists>b. CompleteTurnBoundary ms p = Inr b \<and> b \<le> length ms \<and>
    ValidateCompleteTurns (take b ms) = None \<and> ValidateCompleteTurns (drop b ms) = None \<and>
    (cut ms (clamp_start p (length ms)) \<longrightarrow> b = clamp_start p (length ms))"
proof -
  let ?s = "clamp_start p (length ms)"
  let ?b = "boundary_loop (length ms) ?s 0 ms"
  have t: "turns ms"
    using assms by (simp add: ValidateCompleteTurns_turns)
  have "?s \<le> length ms"
    by (auto simp: clamp_start_def)
  then have "cut ms ?b" "cut ms ?s \<Longrightarrow> ?b = ?s"
    using boundary_loop_cut [OF t, of 0 ?s "length ms"] boundary_loop_fixed [OF t, of 0 ?s "length ms"]
    by auto
  moreover have "CompleteTurnBoundary ms p = Inr ?b"
    using assms by (simp add: CompleteTurnBoundary_def)
  ultimately show ?thesis
    by (auto simp: cut_def ValidateCompleteTurns_turns)
qed

theorem complete_turn_boundary_cut_witness:
  "CompleteTurnBoundary sample_history 3 = Inr 4 \<and> (\<exists>b. CompleteTurnBoundary sample_history 3 = Inr b \<and>
     ValidateCompleteTurns (take b sample_history) = None)"
proof -
  have "CompleteTurnBoundary sample_history 3 = Inr 4"
    using sample_history_valid
    by (simp add: CompleteTurnBoundary_def) (simp add: sample_simps boundary_loop.simps clamp_start_def)
  then show ?thesis
    using complete_turn_boundary_cut [OF sample_history_valid, of 3] by auto
qed

text \<open>
  On an accepted history CachePrefixBoundary returns a position that covers every message
  marked CacheBoundary, never splits a tool turn, and is zero exactly when no message is marked.
\<close>

theorem cache_prefix_boundary_protects:
  assumes "ValidateCompleteTurns ms = None"
  shows "\<exists>b. CachePrefixBoundary ms = Inr b \<and> protects b ms \<and> cut ms b \<and>
    (b = 0) = (\<not> (\<exists>m \<in> set ms. m_CacheBoundary m))"
  using assms by (rule CachePrefixBoundary_protects)

theorem cache_prefix_boundary_protects_witness:
  "CachePrefixBoundary sample_history = Inr 4 \<and> protects 4 sample_history"
proof -
  have "CachePrefixBoundary sample_history = Inr 4"
    using sample_history_valid
    by (simp add: CachePrefixBoundary_def) (simp add: sample_simps cache_loop.simps)
  then show ?thesis
    using cache_prefix_boundary_protects [OF sample_history_valid] by auto
qed

end
