(* ===== verification/Usage.thy ===== *)
theory Usage
  imports Prelude "HOL-Library.Multiset"
begin

text \<open>
  Token accounting: \<open>Usage\<close>, \<open>Add\<close> and \<open>saturatingTokenAdd\<close> of \<open>src/provider/provider.go\<close>, and
  the usage predicates of \<open>src/agent/continuation.go\<close>.  Counters are 64-bit integers.  The lemmas
  show that the addition is a commutative, associative, saturating sum that repairs inconsistent
  input, that its results always satisfy the checks a persisted continuation has to pass, and
  that no counter ever goes down.  The locale \<open>ledger\<close> is the interface the agent loop and the
  continuation checks use: totals folded from a list of charges.
\<close>

record usage =
  u_InputTokens :: int
  u_CachedInputTokens :: int
  u_CachedInputTokensReported :: bool
  u_CacheWriteInputTokens :: int
  u_CacheWriteInputTokensReported :: bool
  u_OutputTokens :: int
  u_ReasoningTokens :: int
  u_TotalTokens :: int

definition zero_usage :: usage where
  "zero_usage = \<lparr>u_InputTokens = 0, u_CachedInputTokens = 0, u_CachedInputTokensReported = False,
     u_CacheWriteInputTokens = 0, u_CacheWriteInputTokensReported = False, u_OutputTokens = 0,
     u_ReasoningTokens = 0, u_TotalTokens = 0\<rparr>"

definition saturatingTokenAdd :: "int \<Rightarrow> int \<Rightarrow> int" where
  "saturatingTokenAdd left right =
     (if wrap64 (max_int - right) \<le> left then max_int else wrap64 (left + right))"

definition normalizedUsage :: "usage \<Rightarrow> usage" where
  "normalizedUsage u =
     (let inp = max 0 (u_InputTokens u);
          cached = min (max 0 (u_CachedInputTokens u)) inp;
          written = min (max 0 (u_CacheWriteInputTokens u)) inp;
          out = max 0 (u_OutputTokens u);
          reasoning = min (max 0 (u_ReasoningTokens u)) out
      in \<lparr>u_InputTokens = inp, u_CachedInputTokens = cached,
          u_CachedInputTokensReported = (u_CachedInputTokensReported u \<or> 0 < cached),
          u_CacheWriteInputTokens = written,
          u_CacheWriteInputTokensReported = (u_CacheWriteInputTokensReported u \<or> 0 < written),
          u_OutputTokens = out, u_ReasoningTokens = reasoning,
          u_TotalTokens = max (max 0 (u_TotalTokens u)) (saturatingTokenAdd inp out)\<rparr>)"

text \<open>\<open>Usage.Add\<close>.\<close>

definition usage_add :: "usage \<Rightarrow> usage \<Rightarrow> usage" where
  "usage_add u0 v0 = (let u = normalizedUsage u0; v = normalizedUsage v0 in
     \<lparr>u_InputTokens = saturatingTokenAdd (u_InputTokens u) (u_InputTokens v),
      u_CachedInputTokens = saturatingTokenAdd (u_CachedInputTokens u) (u_CachedInputTokens v),
      u_CachedInputTokensReported = (u_CachedInputTokensReported u \<or> u_CachedInputTokensReported v),
      u_CacheWriteInputTokens =
        saturatingTokenAdd (u_CacheWriteInputTokens u) (u_CacheWriteInputTokens v),
      u_CacheWriteInputTokensReported =
        (u_CacheWriteInputTokensReported u \<or> u_CacheWriteInputTokensReported v),
      u_OutputTokens = saturatingTokenAdd (u_OutputTokens u) (u_OutputTokens v),
      u_ReasoningTokens = saturatingTokenAdd (u_ReasoningTokens u) (u_ReasoningTokens v),
      u_TotalTokens = saturatingTokenAdd (u_TotalTokens u) (u_TotalTokens v)\<rparr>)"

text \<open>\<open>usageContains\<close> and \<open>validateContinuationUsage\<close> of continuation.go.\<close>

definition usageContains :: "usage \<Rightarrow> usage \<Rightarrow> bool" where
  "usageContains t m \<longleftrightarrow>
     u_InputTokens m \<le> u_InputTokens t \<and>
     u_CachedInputTokens m \<le> u_CachedInputTokens t \<and>
     (\<not> u_CachedInputTokensReported m \<or> u_CachedInputTokensReported t) \<and>
     u_CacheWriteInputTokens m \<le> u_CacheWriteInputTokens t \<and>
     (\<not> u_CacheWriteInputTokensReported m \<or> u_CacheWriteInputTokensReported t) \<and>
     u_OutputTokens m \<le> u_OutputTokens t \<and>
     u_ReasoningTokens m \<le> u_ReasoningTokens t \<and>
     u_TotalTokens m \<le> u_TotalTokens t"

definition validateContinuationUsage :: "usage \<Rightarrow> bytes option" where
  "validateContinuationUsage u =
     (if u_InputTokens u < 0 \<or> u_CachedInputTokens u < 0 \<or> u_CacheWriteInputTokens u < 0 \<or>
         u_OutputTokens u < 0 \<or> u_ReasoningTokens u < 0 \<or> u_TotalTokens u < 0
        then Some ''negative usage''
      else if u_InputTokens u < u_CachedInputTokens u \<or>
         u_InputTokens u < u_CacheWriteInputTokens u \<or>
         u_OutputTokens u < u_ReasoningTokens u \<or>
         u_TotalTokens u < wrap64 (u_InputTokens u + u_OutputTokens u)
        then Some ''inconsistent usage''
      else None)"

section \<open>Saturating addition\<close>

definition token :: "int \<Rightarrow> bool" where
  "token x \<longleftrightarrow> 0 \<le> x \<and> x \<le> max_int"

lemma sat_min: "token a \<Longrightarrow> token b \<Longrightarrow> saturatingTokenAdd a b = min max_int (a + b)"
  by (auto simp: saturatingTokenAdd_def token_def int64_def min_int_def max_int_def wrap64_id
      min_def)

lemma token_sat [simp]: "token a \<Longrightarrow> token b \<Longrightarrow> token (saturatingTokenAdd a b)"
  by (simp add: sat_min) (simp add: token_def min_def)

lemma token_zero [simp]: "token 0"
  by (simp add: token_def)

lemma sat_zero [simp]: "token a \<Longrightarrow> saturatingTokenAdd a 0 = a"
  by (simp add: sat_min) (simp add: token_def)

lemma sat_commute: "token a \<Longrightarrow> token b \<Longrightarrow> saturatingTokenAdd a b = saturatingTokenAdd b a"
  by (simp add: sat_min add.commute)

lemma sat_assoc:
  "token a \<Longrightarrow> token b \<Longrightarrow> token c \<Longrightarrow>
     saturatingTokenAdd (saturatingTokenAdd a b) c = saturatingTokenAdd a (saturatingTokenAdd b c)"
  by (simp add: sat_min [of "saturatingTokenAdd a b"] sat_min [of a "saturatingTokenAdd b c"])
     (auto simp: sat_min token_def min_def)

lemma sat_mono:
  "token a \<Longrightarrow> token b \<Longrightarrow> token a' \<Longrightarrow> token b' \<Longrightarrow> a \<le> a' \<Longrightarrow> b \<le> b' \<Longrightarrow>
     saturatingTokenAdd a b \<le> saturatingTokenAdd a' b'"
  by (simp add: sat_min min_def)

lemma sat_ge: "token a \<Longrightarrow> token b \<Longrightarrow> a \<le> saturatingTokenAdd a b"
  by (simp add: sat_min token_def)

lemma sat_pos: "token a \<Longrightarrow> token b \<Longrightarrow> 0 < saturatingTokenAdd a b \<longleftrightarrow> 0 < a \<or> 0 < b"
  by (simp add: sat_min) (auto simp: token_def)

lemma sat_swap:
  assumes "token a" "token b" "token c" "token d"
  shows "saturatingTokenAdd (saturatingTokenAdd a b) (saturatingTokenAdd c d) =
         saturatingTokenAdd (saturatingTokenAdd a c) (saturatingTokenAdd b d)"
  using assms by (metis sat_assoc sat_commute token_sat)

section \<open>Well-formed usage\<close>

definition int64_usage :: "usage \<Rightarrow> bool" where
  "int64_usage u \<longleftrightarrow> int64 (u_InputTokens u) \<and> int64 (u_CachedInputTokens u) \<and>
     int64 (u_CacheWriteInputTokens u) \<and> int64 (u_OutputTokens u) \<and>
     int64 (u_ReasoningTokens u) \<and> int64 (u_TotalTokens u)"

definition wf_usage :: "usage \<Rightarrow> bool" where
  "wf_usage u \<longleftrightarrow> token (u_InputTokens u) \<and> token (u_CachedInputTokens u) \<and>
     token (u_CacheWriteInputTokens u) \<and> token (u_OutputTokens u) \<and>
     token (u_ReasoningTokens u) \<and> token (u_TotalTokens u) \<and>
     u_CachedInputTokens u \<le> u_InputTokens u \<and> u_CacheWriteInputTokens u \<le> u_InputTokens u \<and>
     u_ReasoningTokens u \<le> u_OutputTokens u \<and>
     (0 < u_CachedInputTokens u \<longrightarrow> u_CachedInputTokensReported u) \<and>
     (0 < u_CacheWriteInputTokens u \<longrightarrow> u_CacheWriteInputTokensReported u) \<and>
     saturatingTokenAdd (u_InputTokens u) (u_OutputTokens u) \<le> u_TotalTokens u"

lemma wf_zero [simp]: "wf_usage zero_usage"
  by (simp add: wf_usage_def zero_usage_def)

lemma int64_token: "int64 x \<Longrightarrow> token (max 0 x)"
  by (simp add: int64_def token_def)

lemma wf_normalized:
  assumes "int64_usage u"
  shows "wf_usage (normalizedUsage u)"
proof -
  have "token (max 0 (u_InputTokens u))" "token (max 0 (u_OutputTokens u))"
    "token (max 0 (u_TotalTokens u))"
    using assms by (auto simp: int64_usage_def intro: int64_token)
  then show ?thesis
    using assms token_sat [of "max 0 (u_InputTokens u)" "max 0 (u_OutputTokens u)"]
    by (auto simp: wf_usage_def normalizedUsage_def Let_def token_def int64_usage_def int64_def)
qed

lemma normalized_wf: "wf_usage u \<Longrightarrow> normalizedUsage u = u"
  by (auto simp: wf_usage_def normalizedUsage_def Let_def token_def max_def min_def)

lemma wf_int64: "wf_usage u \<Longrightarrow> int64_usage u"
  by (auto simp: wf_usage_def int64_usage_def token_def int64_def min_int_def max_int_def)

lemma usage_add_normalized:
  "int64_usage u \<Longrightarrow> int64_usage v \<Longrightarrow>
     usage_add u v = usage_add (normalizedUsage u) (normalizedUsage v)"
  by (simp add: usage_add_def normalized_wf wf_normalized)

lemma wf_usage_add_wf:
  assumes "wf_usage u" "wf_usage v"
  shows "wf_usage (usage_add u v)"
proof -
  have "saturatingTokenAdd (saturatingTokenAdd (u_InputTokens u) (u_InputTokens v))
          (saturatingTokenAdd (u_OutputTokens u) (u_OutputTokens v)) =
        saturatingTokenAdd (saturatingTokenAdd (u_InputTokens u) (u_OutputTokens u))
          (saturatingTokenAdd (u_InputTokens v) (u_OutputTokens v))"
    using assms by (intro sat_swap) (auto simp: wf_usage_def)
  then show ?thesis
    using assms
    by (auto simp: wf_usage_def usage_add_def normalized_wf Let_def sat_pos intro!: sat_mono token_sat)
qed

lemma wf_usage_add [step_intros]: "int64_usage u \<Longrightarrow> int64_usage v \<Longrightarrow> wf_usage (usage_add u v)"
  by (simp add: usage_add_normalized wf_usage_add_wf wf_normalized)

lemma usage_add_commute_wf: "wf_usage u \<Longrightarrow> wf_usage v \<Longrightarrow> usage_add u v = usage_add v u"
  by (auto simp: usage_add_def normalized_wf Let_def wf_usage_def sat_commute)

lemma usage_add_assoc_wf:
  "wf_usage u \<Longrightarrow> wf_usage v \<Longrightarrow> wf_usage w \<Longrightarrow>
     usage_add (usage_add u v) w = usage_add u (usage_add v w)"
  using wf_usage_add_wf [of u v] wf_usage_add_wf [of v w]
  by (simp add: usage_add_def normalized_wf Let_def) (simp add: wf_usage_def sat_assoc)

lemma usage_add_zero [simp]: "wf_usage u \<Longrightarrow> usage_add u zero_usage = u"
  by (simp add: usage_add_def normalized_wf Let_def) (simp add: zero_usage_def wf_usage_def)

lemma usage_add_contains: "wf_usage u \<Longrightarrow> wf_usage v \<Longrightarrow> usageContains (usage_add u v) u"
  by (auto simp: usage_add_def usageContains_def normalized_wf Let_def wf_usage_def sat_ge)

lemma usageContains_trans: "usageContains a b \<Longrightarrow> usageContains b c \<Longrightarrow> usageContains a c"
  by (auto simp: usageContains_def)

lemma usageContains_refl [simp]: "usageContains a a"
  by (simp add: usageContains_def)

lemma wf_usage_valid: "wf_usage u \<Longrightarrow> validateContinuationUsage u = None"
proof -
  assume "wf_usage u"
  moreover from this have "wrap64 (u_InputTokens u + u_OutputTokens u) \<le> u_TotalTokens u"
    by (auto simp: wf_usage_def sat_min token_def wrap64_def max_int_def min_def split: if_splits)
  ultimately show ?thesis
    by (auto simp: validateContinuationUsage_def wf_usage_def token_def)
qed


section \<open>The ledger interface\<close>

text \<open>
  What a client of the accounting relies on: charges of well-formed amounts, in any order, keep
  the ledger well-formed and never lower it.
\<close>

locale ledger =
  fixes charge :: "'u \<Rightarrow> 'u \<Rightarrow> 'u" and ok :: "'u \<Rightarrow> bool" and covers :: "'u \<Rightarrow> 'u \<Rightarrow> bool"
  assumes charge_ok: "ok t \<Longrightarrow> ok u \<Longrightarrow> ok (charge t u)"
    and charge_covers: "ok t \<Longrightarrow> ok u \<Longrightarrow> covers (charge t u) t"
    and covers_refl: "covers t t"
    and covers_trans: "covers a b \<Longrightarrow> covers b c \<Longrightarrow> covers a c"
    and charge_assoc: "ok a \<Longrightarrow> ok b \<Longrightarrow> ok c \<Longrightarrow> charge (charge a b) c = charge a (charge b c)"
    and charge_commute: "ok a \<Longrightarrow> ok b \<Longrightarrow> charge a b = charge b a"
begin

lemma charges_ok: "ok t \<Longrightarrow> \<forall>u \<in> set us. ok u \<Longrightarrow> ok (foldl charge t us)"
  by (induction us arbitrary: t) (auto intro: charge_ok)

lemma charges_cover: "ok t \<Longrightarrow> \<forall>u \<in> set us. ok u \<Longrightarrow> covers (foldl charge t us) t"
proof (induction us arbitrary: t)
  case Nil
  then show ?case by (simp add: covers_refl)
next
  case (Cons u us)
  then have "covers (foldl charge (charge t u) us) (charge t u)" "covers (charge t u) t"
    by (auto intro: charge_ok charge_covers)
  then show ?case by (auto intro: covers_trans)
qed

lemma charge_swap: "ok t \<Longrightarrow> ok u \<Longrightarrow> ok v \<Longrightarrow> charge (charge t u) v = charge (charge t v) u"
  by (metis charge_assoc charge_commute)

lemma charge_last:
  "ok t \<Longrightarrow> ok u \<Longrightarrow> \<forall>v \<in> set us. ok v \<Longrightarrow> foldl charge (charge t u) us = charge (foldl charge t us) u"
proof (induction us arbitrary: t)
  case (Cons v us)
  then have "foldl charge (charge (charge t u) v) us = foldl charge (charge (charge t v) u) us"
    using charge_swap [of t u v] by simp
  then show ?case
    using Cons by (simp add: charge_ok)
qed simp

lemma charges_permute:
  "ok t \<Longrightarrow> \<forall>u \<in> set us. ok u \<Longrightarrow> mset us = mset vs \<Longrightarrow> foldl charge t us = foldl charge t vs"
proof (induction us arbitrary: t vs)
  case (Cons u us)
  then have "u \<in> set vs"
    by (metis list.set_intros(1) set_mset_mset)
  then obtain xs ys where vs: "vs = xs @ u # ys"
    by (meson split_list)
  have ok: "\<forall>v \<in> set (xs @ ys). ok v"
    using Cons.prems(2,3) vs by (metis Un_iff insert_iff list.set(2) mset_eq_setD set_append)
  have "foldl charge t (u # us) = foldl charge (charge t u) (xs @ ys)"
    using Cons.IH [of "charge t u" "xs @ ys"] Cons.prems vs by (simp add: charge_ok)
  also have "\<dots> = foldl charge t vs"
    using charge_last [of t u xs] Cons.prems(1,2) ok vs by simp
  finally show ?case .
qed simp

end

interpretation tokens: ledger usage_add wf_usage usageContains
proof unfold_locales
  show "usageContains a c" if "usageContains a b" "usageContains b c" for a b c
    using that by (rule usageContains_trans)
qed (simp_all add: wf_usage_add_wf usage_add_contains usage_add_assoc_wf, rule usage_add_commute_wf)

section \<open>Properties\<close>

text \<open>
  On any two 64-bit usages Add commutes and its result passes the check a persisted
  continuation has to pass, and never overflows; on three of them it is associative, although
  every counter saturates at the largest int.
\<close>

theorem usage_add_laws:
  assumes "int64_usage u" "int64_usage v" "int64_usage w"
  shows "usage_add u v = usage_add v u \<and> usage_add (usage_add u v) w = usage_add u (usage_add v w) \<and>
    validateContinuationUsage (usage_add u v) = None \<and> wf_usage (usage_add u v)"
proof -
  let ?u = "normalizedUsage u" and ?v = "normalizedUsage v" and ?w = "normalizedUsage w"
  have wf: "wf_usage ?u" "wf_usage ?v" "wf_usage ?w"
    using assms by (auto intro: wf_normalized)
  have uv: "usage_add u v = usage_add ?u ?v" "usage_add v u = usage_add ?v ?u"
    "usage_add v w = usage_add ?v ?w"
    using assms by (auto intro: usage_add_normalized)
  have "usage_add (usage_add ?u ?v) w = usage_add (usage_add ?u ?v) ?w"
    "usage_add u (usage_add ?v ?w) = usage_add ?u (usage_add ?v ?w)"
    using assms wf
    by (simp_all add: usage_add_normalized [of _ w] usage_add_normalized [of u] wf_usage_add_wf
        normalized_wf wf_int64)
  then show ?thesis
    using wf uv usage_add_commute_wf [OF wf(1,2)] usage_add_assoc_wf [OF wf]
    by (simp add: wf_usage_add_wf wf_usage_valid)
qed

definition full_usage :: usage where
  "full_usage = zero_usage\<lparr>u_InputTokens := max_int, u_OutputTokens := 7, u_ReasoningTokens := 9,
     u_CachedInputTokens := 5\<rparr>"

theorem usage_add_laws_witness:
  "usage_add full_usage zero_usage = usage_add zero_usage full_usage \<and>
   u_TotalTokens (usage_add full_usage full_usage) = max_int \<and>
   validateContinuationUsage (usage_add full_usage full_usage) = None"
proof -
  have i: "int64_usage full_usage" "int64_usage zero_usage"
    by (simp_all add: full_usage_def zero_usage_def int64_usage_def int64_def min_int_def max_int_def)
  have "u_TotalTokens (usage_add full_usage full_usage) = max_int"
    by (simp add: full_usage_def zero_usage_def usage_add_def normalizedUsage_def Let_def
        saturatingTokenAdd_def max_int_def wrap64_def)
  then show ?thesis
    using usage_add_laws [OF i(1) i(2) i(2)] usage_add_laws [OF i(1) i(1) i(1)] by simp
qed

text \<open>
  The total of a run does not depend on the order in which its charges arrive (parallel
  tools report their child usage in any order), stays well-formed, and never falls below the
  total before the charges.
\<close>

theorem usage_total_order_independent:
  assumes "wf_usage t" "\<forall>u \<in> set us. wf_usage u" "mset us = mset vs"
  shows "foldl usage_add t us = foldl usage_add t vs \<and> wf_usage (foldl usage_add t us) \<and>
    usageContains (foldl usage_add t us) t"
  using tokens.charges_permute [OF assms] tokens.charges_ok [OF assms(1,2)]
    tokens.charges_cover [OF assms(1,2)] by blast

theorem usage_total_order_independent_witness:
  "foldl usage_add zero_usage [normalizedUsage full_usage, zero_usage] =
   foldl usage_add zero_usage [zero_usage, normalizedUsage full_usage]"
proof -
  have "wf_usage (normalizedUsage full_usage)"
    by (rule wf_normalized)
      (simp add: full_usage_def zero_usage_def int64_usage_def int64_def min_int_def max_int_def)
  then show ?thesis
    using usage_total_order_independent
      [of zero_usage "[normalizedUsage full_usage, zero_usage]" "[zero_usage, normalizedUsage full_usage]"]
    by (simp add: add_mset_commute)
qed

end
