(* ===== verification/Requests.thy ===== *)
theory Requests
  imports Messages
begin

text \<open>
  Requests and execution policies: \<open>src/agent/request.go\<close>, \<open>src/agent/loop_policy.go\<close>.
  Durations are 64-bit nanosecond counts.  The lemmas say which requests are accepted and that
  an accepted request always becomes a user message with text or media in it.
\<close>

section \<open>Data\<close>

record budget =
  b_MaxTokens :: int
  b_MaxToolCalls :: int
  b_MaxSteps :: int
  b_MaxWallClock :: int

record session_budget =
  sb_MaxTokens :: int
  sb_MaxWallClock :: int

record timeout_policy =
  tp_ConnectTimeout :: int
  tp_RequestTimeout :: int
  tp_StreamIdleTimeout :: int
  tp_DisableDefaults :: bool

record request =
  r_Prompt :: bytes
  r_Budget :: "budget option"
  r_SessionBudget :: "session_budget option"
  r_ModelTimeouts :: "timeout_policy option"
  r_Content :: "content_part list"

definition nanos_per_second :: int where
  "nanos_per_second = 1000000000"

definition defaultModelConnectTimeout :: int where
  "defaultModelConnectTimeout = 15 * nanos_per_second"

definition defaultModelStreamIdleTimeout :: int where
  "defaultModelStreamIdleTimeout = 5 * 60 * nanos_per_second"

definition resolved :: "timeout_policy \<Rightarrow> timeout_policy" where
  "resolved p =
     (if tp_DisableDefaults p then p
      else p\<lparr>tp_ConnectTimeout := (if tp_ConnectTimeout p = 0 then defaultModelConnectTimeout
                                      else tp_ConnectTimeout p),
             tp_StreamIdleTimeout := (if tp_StreamIdleTimeout p = 0 then defaultModelStreamIdleTimeout
                                      else tp_StreamIdleTimeout p)\<rparr>)"

section \<open>Validation\<close>

definition validateBudget :: "budget option \<Rightarrow> go_err option" where
  "validateBudget b = (case b of None \<Rightarrow> None | Some b \<Rightarrow>
     if b_MaxTokens b < 0 \<or> b_MaxSteps b < 0 \<or> b_MaxToolCalls b < 0 \<or> b_MaxWallClock b < 0
     then Some (new_err ''agent: negative request budget'') else None)"

definition validateSessionBudget :: "session_budget option \<Rightarrow> go_err option" where
  "validateSessionBudget b = (case b of None \<Rightarrow> None | Some b \<Rightarrow>
     if sb_MaxTokens b < 0 \<or> sb_MaxWallClock b < 0
     then Some (new_err ''agent: negative session budget'') else None)"

definition validateModelTimeouts :: "timeout_policy option \<Rightarrow> go_err option" where
  "validateModelTimeouts p = (case p of None \<Rightarrow> None | Some p \<Rightarrow>
     if tp_ConnectTimeout p < 0 \<or> tp_RequestTimeout p < 0 \<or> tp_StreamIdleTimeout p < 0
     then Some (new_err ''agent: negative model timeout'') else None)"

text \<open>The loop over the content parts; the state is \<open>meaningful\<close>.\<close>

fun validate_parts :: "bool \<Rightarrow> content_part list \<Rightarrow> go_err + bool" where
  "validate_parts meaningful [] = Inr meaningful"
| "validate_parts meaningful (part # parts) =
     (if cp_Source part \<noteq> None \<or> cp_Signature part \<noteq> [] \<or> cp_ProviderData part \<noteq> []
        then Inl (new_err ''agent: user content cannot contain provider or evidence metadata'')
      else if cp_Kind part = ContentText
        then validate_parts (meaningful \<or> trim_space (cp_Text part) \<noteq> []) parts
      else if cp_Kind part \<in> {ContentImage, ContentAudio, ContentFile}
        then (if cp_Data part = [] \<and> trim_space (cp_URI part) = []
                then Inl (new_err ''agent: input requires data or URI'')
              else validate_parts True parts)
      else Inl (new_err ''agent: unsupported user content kind''))"

definition Request_Validate :: "request \<Rightarrow> go_err option" where
  "Request_Validate r =
     (case validateBudget (r_Budget r) of Some e \<Rightarrow> Some e | None \<Rightarrow>
      case validateSessionBudget (r_SessionBudget r) of Some e \<Rightarrow> Some e | None \<Rightarrow>
      case validateModelTimeouts (r_ModelTimeouts r) of Some e \<Rightarrow> Some e | None \<Rightarrow>
      case validate_parts (trim_space (r_Prompt r) \<noteq> []) (r_Content r) of
        Inl e \<Rightarrow> Some e
      | Inr meaningful \<Rightarrow>
          if r_Content r \<noteq> [] \<and> \<not> meaningful then Some (new_err ''agent: empty user content'')
          else None)"

definition requestMessage :: "request \<Rightarrow> go_err + message" where
  "requestMessage r =
     (case Request_Validate r of Some e \<Rightarrow> Inl e | None \<Rightarrow>
        let prompt0 = trim_space (r_Prompt r);
            prompt = (if prompt0 = [] \<and> r_Content r = []
              then ''Complete the assigned task and return a concise result.'' else prompt0);
            parts = (if prompt \<noteq> [] then TextPart prompt # r_Content r else r_Content r)
        in Inr (SyncLegacyContent
             (zero_message\<lparr>m_Role := RoleUser, m_Kind := KindStandard, m_Content := parts\<rparr>)))"

section \<open>Lemmas\<close>

lemma requestMessage_plain:
  "requestMessage r = Inr m \<Longrightarrow>
     m_Role m = RoleUser \<and> m_ToolCalls m = [] \<and> m_ToolResult m = None \<and>
     m_ContextArchived m = False \<and> m_CacheBoundary m = False"
  by (auto simp: requestMessage_def Let_def SyncLegacyContent_def zero_message_def
      split: option.splits prod.splits if_splits)

lemma requestMessage_Inl: "(\<exists>e. requestMessage r = Inl e) \<longleftrightarrow> Request_Validate r \<noteq> None"
  by (auto simp: requestMessage_def Let_def split: option.splits)

text \<open>A user part: text or media with a payload, and no provider metadata.\<close>

definition user_part :: "content_part \<Rightarrow> bool" where
  "user_part p \<longleftrightarrow> cp_Source p = None \<and> cp_Signature p = [] \<and> cp_ProviderData p = [] \<and>
     (cp_Kind p = ContentText \<or>
      cp_Kind p \<in> {ContentImage, ContentAudio, ContentFile} \<and>
        (cp_Data p \<noteq> [] \<or> trim_space (cp_URI p) \<noteq> []))"

definition meaningful_part :: "content_part \<Rightarrow> bool" where
  "meaningful_part p \<longleftrightarrow> cp_Kind p \<noteq> ContentText \<or> trim_space (cp_Text p) \<noteq> []"

lemma validate_parts_spec:
  "validate_parts b ps = Inr b' \<longleftrightarrow>
     (\<forall>p \<in> set ps. user_part p) \<and> b' = (b \<or> (\<exists>p \<in> set ps. meaningful_part p))"
  by (induction b ps rule: validate_parts.induct) (auto simp: user_part_def meaningful_part_def)

lemma default_prompt:
  "trim_space ''Complete the assigned task and return a concise result.'' \<noteq> []"
  by code_simp

lemma requestMessage_parts:
  assumes "requestMessage r = Inr m"
  shows "(\<forall>p \<in> set (m_Content m). user_part p) \<and> (\<exists>p \<in> set (m_Content m). meaningful_part p)"
proof -
  obtain b where b: "validate_parts (trim_space (r_Prompt r) \<noteq> []) (r_Content r) = Inr b"
    and nonempty: "r_Content r = [] \<or> b"
    using assms
    by (auto simp: requestMessage_def Request_Validate_def split: option.splits sum.splits if_splits)
  define prompt where "prompt = (if trim_space (r_Prompt r) = [] \<and> r_Content r = []
    then ''Complete the assigned task and return a concise result.'' else trim_space (r_Prompt r))"
  define parts where "parts = (if prompt \<noteq> [] then TextPart prompt # r_Content r else r_Content r)"
  have "parts \<noteq> []"
    by (auto simp: parts_def prompt_def)
  then have m: "m_Content m = parts"
    using assms
    by (auto simp: requestMessage_def Let_def SyncLegacyContent_def parts_def prompt_def
        split: option.splits prod.splits)
  have tp: "user_part (TextPart t)" "meaningful_part (TextPart t) \<longleftrightarrow> trim_space t \<noteq> []" for t
    by (simp_all add: user_part_def meaningful_part_def TextPart_def zero_part_def)
  show ?thesis
  proof (cases "trim_space (r_Prompt r) = []")
    case False
    then show ?thesis
      using b m tp by (auto simp: parts_def prompt_def validate_parts_spec meaningful_part_def)
  next
    case True
    then show ?thesis
      using b m tp nonempty default_prompt
      by (auto simp: parts_def prompt_def validate_parts_spec)
  qed
qed

end
