(* ===== verification/Machines.thy ===== *)
theory Machines
  imports Main
begin

text \<open>
  State machines: the states reachable from a start state, and the interface a component with an
  invariant provides.  Each stateful component of the development interprets \<open>machine\<close>.
\<close>

inductive reachable :: "('s \<Rightarrow> bool) \<Rightarrow> ('s \<Rightarrow> 's \<Rightarrow> bool) \<Rightarrow> 's \<Rightarrow> bool"
  for initial :: "'s \<Rightarrow> bool" and next_state :: "'s \<Rightarrow> 's \<Rightarrow> bool" where
  reach_init: "initial s \<Longrightarrow> reachable initial next_state s"
| reach_step: "reachable initial next_state s \<Longrightarrow> next_state s t \<Longrightarrow> reachable initial next_state t"

inductive run :: "('s \<Rightarrow> 's \<Rightarrow> bool) \<Rightarrow> 's \<Rightarrow> 's \<Rightarrow> bool" for next_state :: "'s \<Rightarrow> 's \<Rightarrow> bool" where
  run_refl: "run next_state s s"
| run_step: "run next_state s t \<Longrightarrow> next_state t u \<Longrightarrow> run next_state s u"

lemma reachable_run: "reachable i n s \<Longrightarrow> run n s t \<Longrightarrow> reachable i n t"
  by (rotate_tac 1, induction rule: run.induct) (auto intro: reach_step)

text \<open>A machine whose steps keep an invariant.\<close>

locale machine =
  fixes initial :: "'s \<Rightarrow> bool" and next_state :: "'s \<Rightarrow> 's \<Rightarrow> bool" and inv :: "'s \<Rightarrow> bool"
  assumes inv_init: "initial s \<Longrightarrow> inv s"
    and inv_step: "inv s \<Longrightarrow> next_state s t \<Longrightarrow> inv t"
begin

lemma reachable_inv: "reachable initial next_state s \<Longrightarrow> inv s"
  by (induction rule: reachable.induct) (auto intro: inv_init inv_step)

lemma run_inv: "run next_state s t \<Longrightarrow> inv s \<Longrightarrow> inv t"
  by (induction rule: run.induct) (auto intro: inv_step)

end

text \<open>A machine with a property that, once it holds, holds for ever.\<close>

locale machine_stable = machine +
  fixes stable :: "'s \<Rightarrow> bool"
  assumes stable_step: "inv s \<Longrightarrow> stable s \<Longrightarrow> next_state s t \<Longrightarrow> stable t"
begin

lemma stable_run: "run next_state s t \<Longrightarrow> inv s \<Longrightarrow> stable s \<Longrightarrow> stable t"
  by (induction rule: run.induct) (auto intro: stable_step run_inv)

end

end
