(* ===== verification/Control.thy ===== *)
theory Control
  imports Requests Machines "HOL-Library.Multiset"
begin

text \<open>
  Live steering: \<open>src/agent/control.go\<close>.  Every method of \<open>Control\<close> runs under one mutex, so the
  handle is a state machine whose steps are the methods' critical sections; Steer has two of
  them (enqueue, then interrupt).  An acknowledgement channel is named by the sequence number of
  its input, and \<open>c_acks\<close> logs what was sent on which channel.  A context is \<open>None\<close> when the field
  is nil and otherwise holds its \<open>Err()\<close>.  \<open>json.Marshal\<close> of the queued message is the argument
  \<open>marshal\<close>.  The lemmas show that the queue stays within its limits, that every accepted
  input is acknowledged at most once and none is lost, that a boundary takes inputs in the order
  they were admitted, and that a sealed handle never accepts again.  The sequence counters of the code
  are \<open>uint64\<close>; here they are natural numbers, which differs only after 2^64 inputs of one handle.
\<close>

section \<open>State\<close>

record queued_input =
  qi_message :: message
  qi_size :: int
  qi_seq :: nat

record turn_state =
  ts_started :: bool
  ts_cause :: "go_err option"

record control =
  c_started :: bool
  c_accepting :: bool
  c_ctx :: "go_err option option"
  c_pending :: "queued_input list"
  c_steers :: "queued_input list"
  c_followups :: "queued_input list"
  c_inflight :: "queued_input list"
  c_bytes :: int
  c_nextSeq :: nat
  c_turn :: "turn_state option"
  c_acks :: "(nat \<times> go_err option) list"

definition new_control :: control where
  "new_control = \<lparr>c_started = False, c_accepting = False, c_ctx = None, c_pending = [],
     c_steers = [], c_followups = [], c_inflight = [], c_bytes = 0, c_nextSeq = 0, c_turn = None,
     c_acks = []\<rparr>"

definition maxControlQueue :: nat where "maxControlQueue = 64"
definition max_input_bytes :: int where "max_input_bytes = 2 ^ 20"
definition max_queue_bytes :: int where "max_queue_bytes = 4 * 2 ^ 20"

section \<open>Contexts\<close>

text \<open>Cancelling a turn's context with a cause; the first cause stays.\<close>

definition cancel_turn :: "go_err \<Rightarrow> control \<Rightarrow> control" where
  "cancel_turn cause c = (case c_turn c of None \<Rightarrow> c
     | Some t \<Rightarrow> c\<lparr>c_turn := Some (t\<lparr>ts_cause :=
         (case ts_cause t of None \<Rightarrow> Some cause | Some e \<Rightarrow> Some e)\<rparr>)\<rparr>)"

text \<open>The execution context ends with an error; a turn's context is its child.\<close>

definition end_context :: "go_err \<Rightarrow> control \<Rightarrow> control" where
  "end_context e c = (case c_ctx c of
       Some None \<Rightarrow> cancel_turn e (c\<lparr>c_ctx := Some (Some e)\<rparr>)
     | _ \<Rightarrow> c)"

abbreviation canceled :: go_err where
  "canceled \<equiv> sentinel CtxCanceled"

section \<open>Queues\<close>

definition queueLen :: "control \<Rightarrow> nat" where
  "queueLen c = length (c_pending c) + length (c_steers c) + length (c_followups c)
     + length (c_inflight c)"

datatype queue_name = Pending | Steers | Followups

fun push :: "queue_name \<Rightarrow> queued_input \<Rightarrow> control \<Rightarrow> control" where
  "push Pending q c = c\<lparr>c_pending := c_pending c @ [q]\<rparr>"
| "push Steers q c = c\<lparr>c_steers := c_steers c @ [q]\<rparr>"
| "push Followups q c = c\<lparr>c_followups := c_followups c @ [q]\<rparr>"

text \<open>The locked part of \<open>enqueue\<close>.\<close>

definition admit ::
  "queue_name \<Rightarrow> message \<Rightarrow> int \<Rightarrow> control \<Rightarrow> control \<times> (go_err + nat)" where
  "admit queue current sz c =
     (if \<not> c_accepting c \<or> c_ctx c \<noteq> Some None then (c, Inl (sentinel ErrControlClosed))
      else if maxControlQueue \<le> queueLen c \<or> max_input_bytes < sz \<or>
              max_queue_bytes < c_bytes c + sz
        then (c, Inl (sentinel ErrControlLimit))
      else let seq = Suc (c_nextSeq c) in
        ((push queue \<lparr>qi_message = current, qi_size = sz, qi_seq = seq\<rparr> (c\<lparr>c_nextSeq := seq\<rparr>))
           \<lparr>c_bytes := c_bytes c + sz\<rparr>, Inr seq))"

definition enqueue ::
  "(message \<Rightarrow> go_err + bytes) \<Rightarrow> request \<Rightarrow> queue_name \<Rightarrow> control \<Rightarrow> control \<times> (go_err + nat)" where
  "enqueue marshal input queue c =
     (if r_Budget input \<noteq> None \<or> (trim_space (r_Prompt input) = [] \<and> r_Content input = [])
        then (c, Inl (new_err ''agent input requires user content and cannot change the budget''))
      else case requestMessage input of
        Inl e \<Rightarrow> (c, Inl e)
      | Inr current \<Rightarrow>
          (case marshal current of
             Inl e \<Rightarrow> (c, Inl e)
           | Inr encoded \<Rightarrow> admit queue current (int (length encoded)) c))"

definition Send where "Send marshal input c = enqueue marshal input Pending c"

definition FollowUp where "FollowUp marshal input c = enqueue marshal input Followups c"

definition interruptTurn :: "control \<Rightarrow> control" where
  "interruptTurn c = (case c_turn c of None \<Rightarrow> c
     | Some t \<Rightarrow> if ts_started t then c else cancel_turn (sentinel ErrControlSteer) c)"

definition Steer where
  "Steer marshal input c = (case enqueue marshal input Steers c of
       (c', Inl e) \<Rightarrow> (c', Inl e)
     | (c', Inr seq) \<Rightarrow> (interruptTurn c', Inr seq))"

definition Cancel :: "control \<Rightarrow> control" where
  "Cancel c = cancel_turn canceled (end_context canceled (c\<lparr>c_accepting := False\<rparr>))"

section \<open>The execution's side\<close>

text \<open>\<open>start\<close>: a second start is refused.  The argument is the parent context's \<open>Err()\<close>.\<close>

definition start_control :: "go_err option \<Rightarrow> control \<Rightarrow> control \<times> go_err option" where
  "start_control parent c =
     (if c_started c then (c, Some (sentinel ErrControlUsed))
      else (c\<lparr>c_started := True, c_accepting := True, c_ctx := Some parent\<rparr>, None))"

definition ack_all :: "go_err option \<Rightarrow> queued_input list \<Rightarrow> control \<Rightarrow> control" where
  "ack_all e qs c = c\<lparr>c_acks := c_acks c @ map (\<lambda>q. (qi_seq q, e)) qs\<rparr>"

definition finish_control :: "control \<Rightarrow> control" where
  "finish_control c =
     (let c1 = end_context canceled (c\<lparr>c_accepting := False\<rparr>);
          c2 = c1\<lparr>c_turn := None\<rparr>;
          everything = c_inflight c2 @ c_steers c2 @ c_pending c2 @ c_followups c2
      in (ack_all (Some (sentinel ErrControlClosed)) everything c2)
           \<lparr>c_pending := [], c_steers := [], c_followups := [], c_inflight := [], c_bytes := 0\<rparr>)"

definition beginTurn :: "bool \<Rightarrow> control \<Rightarrow> control" where
  "beginTurn started c =
     (let c' = c\<lparr>c_turn := Some \<lparr>ts_started = started,
                   ts_cause = (case c_ctx c of Some e \<Rightarrow> e | None \<Rightarrow> None)\<rparr>\<rparr>
      in if c_steers c' \<noteq> [] then interruptTurn c' else c')"

definition endTurn :: "control \<Rightarrow> control" where
  "endTurn c = c\<lparr>c_turn := None\<rparr>"

fun mergeQueued :: "queued_input list \<Rightarrow> queued_input list \<Rightarrow> queued_input list" where
  "mergeQueued [] second = second"
| "mergeQueued first [] = first"
| "mergeQueued (l # first) (r # second) =
     (if qi_seq l < qi_seq r then l # mergeQueued first (r # second)
      else r # mergeQueued (l # first) second)"

definition take_inputs :: "control \<Rightarrow> control \<times> message list" where
  "take_inputs c =
     (let merged = mergeQueued (c_steers c) (c_pending c)
      in (c\<lparr>c_inflight := c_inflight c @ merged, c_steers := [], c_pending := []\<rparr>,
          map qi_message merged))"

fun release_bytes :: "int \<Rightarrow> queued_input list \<Rightarrow> int" where
  "release_bytes b [] = b"
| "release_bytes b (q # qs) = release_bytes (b - qi_size q) qs"

definition acknowledge :: "go_err option \<Rightarrow> control \<Rightarrow> control" where
  "acknowledge err c =
     (ack_all (map_option (wrap_err ''agent input boundary'') err) (c_inflight c) c)
       \<lparr>c_bytes := release_bytes (c_bytes c) (c_inflight c), c_inflight := []\<rparr>"

definition hasSteer :: "control \<Rightarrow> bool" where
  "hasSteer c \<longleftrightarrow> c_steers c \<noteq> []"

definition shouldSkipTool :: "control \<Rightarrow> bool" where
  "shouldSkipTool c \<longleftrightarrow> c_steers c \<noteq> []"

definition continueOrSeal :: "control \<Rightarrow> control \<times> bool" where
  "continueOrSeal c =
     (if c_pending c @ c_steers c \<noteq> [] then (c, True)
      else if c_followups c \<noteq> []
        then (c\<lparr>c_pending := c_pending c @ c_followups c, c_followups := []\<rparr>, True)
      else (c\<lparr>c_accepting := False\<rparr>, False))"

definition updateTurnStarted :: "bool \<Rightarrow> control \<Rightarrow> control" where
  "updateTurnStarted started c = (case c_turn c of None \<Rightarrow> c
     | Some t \<Rightarrow> (let c' = c\<lparr>c_turn := Some (t\<lparr>ts_started := started\<rparr>)\<rparr>
         in if c_steers c' \<noteq> [] then interruptTurn c' else c'))"

text \<open>\<open>validatePendingInput\<close>: compaction must keep the new inputs at the end of the history.\<close>

definition validatePendingInput :: "message list \<Rightarrow> message list \<Rightarrow> go_err option" where
  "validatePendingInput history pending =
     (if pending = [] then None
      else if length history < length pending \<or>
              drop (length history - length pending) history \<noteq> pending
        then Some (new_err ''agent compaction removed or changed pending user input'')
      else None)"

section \<open>The machine\<close>

text \<open>One rule per critical section, and the two things the environment does.\<close>

inductive control_step :: "control \<Rightarrow> control \<Rightarrow> bool" where
  step_enqueue: "control_step c (fst (enqueue marshal input queue c))"
| step_interrupt: "control_step c (interruptTurn c)"
| step_cancel: "control_step c (Cancel c)"
| step_start: "control_step c (fst (start_control parent c))"
| step_finish: "control_step c (finish_control c)"
| step_begin: "control_step c (beginTurn started c)"
| step_end: "control_step c (endTurn c)"
| step_take: "control_step c (fst (take_inputs c))"
| step_ack: "control_step c (acknowledge err c)"
| step_seal: "control_step c (fst (continueOrSeal c))"
| step_update: "control_step c (updateTurnStarted started c)"
| step_context: "control_step c (end_context e c)"

inductive_cases control_stepE: "control_step c d"


section \<open>Invariant\<close>

definition waiting :: "control \<Rightarrow> queued_input list" where
  "waiting c = c_pending c @ c_steers c @ c_followups c @ c_inflight c"

definition in_order :: "queued_input list \<Rightarrow> bool" where
  "in_order qs \<longleftrightarrow> sorted_wrt (<) (map qi_seq qs)"

definition total_size :: "queued_input list \<Rightarrow> int" where
  "total_size qs = sum_list (map qi_size qs)"

definition issued :: "nat \<Rightarrow> nat multiset" where
  "issued n = mset [1 ..< Suc n]"

lemma issued_simps [simp]: "issued 0 = {#}" "issued (Suc n) = add_mset (Suc n) (issued n)"
  by (simp_all add: issued_def)

lemma in_issued [simp]: "i \<in># issued n \<longleftrightarrow> 0 < i \<and> i \<le> n"
  by (auto simp: issued_def)

lemma count_issued: "count (issued n) i \<le> 1"
proof (induction n)
  case (Suc n)
  have "count (issued n) (Suc n) = 0"
    by (simp add: count_eq_zero_iff)
  then show ?case
    using Suc by auto
qed simp

text \<open>Every sequence number issued is either waiting or has been acknowledged, exactly once.\<close>

definition settled_once :: "control \<Rightarrow> bool" where
  "settled_once c \<longleftrightarrow>
     mset (map qi_seq (waiting c)) + mset (map fst (c_acks c)) = issued (c_nextSeq c)"

definition control_inv :: "control \<Rightarrow> bool" where
  "control_inv c \<longleftrightarrow>
     queueLen c \<le> maxControlQueue \<and> c_bytes c = total_size (waiting c) \<and>
     c_bytes c \<le> max_queue_bytes \<and> (\<forall>q \<in> set (waiting c). 0 \<le> qi_size q) \<and>
     settled_once c \<and> in_order (c_pending c) \<and> in_order (c_steers c) \<and> in_order (c_followups c) \<and>
     (c_accepting c \<longrightarrow> c_started c)"

lemma total_size_simps [simp]:
  "total_size [] = 0" "total_size (q # qs) = qi_size q + total_size qs"
  "total_size (xs @ ys) = total_size xs + total_size ys"
  by (simp_all add: total_size_def)

lemma total_size_nonneg: "\<forall>q \<in> set qs. 0 \<le> qi_size q \<Longrightarrow> 0 \<le> total_size qs"
  by (induction qs) auto

lemma release_bytes_total: "release_bytes b qs = b - total_size qs"
  by (induction b qs rule: release_bytes.induct) auto

lemma mset_mergeQueued: "mset (mergeQueued xs ys) = mset xs + mset ys"
  by (induction xs ys rule: mergeQueued.induct) auto

lemma set_mergeQueued: "set (mergeQueued xs ys) = set xs \<union> set ys"
  by (metis mset_mergeQueued set_mset_mset set_mset_union)

lemma length_mergeQueued: "length (mergeQueued xs ys) = length xs + length ys"
  by (metis mset_mergeQueued size_mset size_union)

lemma total_size_mergeQueued: "total_size (mergeQueued xs ys) = total_size xs + total_size ys"
  by (induction xs ys rule: mergeQueued.induct) auto

lemma seqs_mergeQueued:
  "mset (map qi_seq (mergeQueued xs ys)) = mset (map qi_seq xs) + mset (map qi_seq ys)"
  by (metis image_mset_union mset_map mset_mergeQueued)

lemma in_order_mergeQueued:
  "in_order xs \<Longrightarrow> in_order ys \<Longrightarrow> qi_seq ` set xs \<inter> qi_seq ` set ys = {} \<Longrightarrow>
     in_order (mergeQueued xs ys)"
proof (induction xs ys rule: mergeQueued.induct)
  case (3 l xs r ys)
  then show ?case
    by (force simp: in_order_def set_mergeQueued)
qed (auto simp: in_order_def)

lemma cancel_turn_view [simp]:
  "c_pending (cancel_turn e c) = c_pending c" "c_steers (cancel_turn e c) = c_steers c"
  "c_followups (cancel_turn e c) = c_followups c" "c_inflight (cancel_turn e c) = c_inflight c"
  "c_bytes (cancel_turn e c) = c_bytes c" "c_nextSeq (cancel_turn e c) = c_nextSeq c"
  "c_acks (cancel_turn e c) = c_acks c" "c_started (cancel_turn e c) = c_started c"
  "c_accepting (cancel_turn e c) = c_accepting c" "c_ctx (cancel_turn e c) = c_ctx c"
  by (simp_all add: cancel_turn_def split: option.splits)

lemma end_context_view [simp]:
  "c_pending (end_context e c) = c_pending c" "c_steers (end_context e c) = c_steers c"
  "c_followups (end_context e c) = c_followups c" "c_inflight (end_context e c) = c_inflight c"
  "c_bytes (end_context e c) = c_bytes c" "c_nextSeq (end_context e c) = c_nextSeq c"
  "c_acks (end_context e c) = c_acks c" "c_started (end_context e c) = c_started c"
  "c_accepting (end_context e c) = c_accepting c"
  by (simp_all add: end_context_def split: option.splits)

lemma interruptTurn_view [simp]:
  "c_pending (interruptTurn c) = c_pending c" "c_steers (interruptTurn c) = c_steers c"
  "c_followups (interruptTurn c) = c_followups c" "c_inflight (interruptTurn c) = c_inflight c"
  "c_bytes (interruptTurn c) = c_bytes c" "c_nextSeq (interruptTurn c) = c_nextSeq c"
  "c_acks (interruptTurn c) = c_acks c" "c_started (interruptTurn c) = c_started c"
  "c_accepting (interruptTurn c) = c_accepting c" "c_ctx (interruptTurn c) = c_ctx c"
  by (simp_all add: interruptTurn_def split: option.splits)

text \<open>Steps that touch neither the queues nor the flags.\<close>

lemmas control_inv_simps = control_inv_def waiting_def queueLen_def settled_once_def

lemma settled_fresh:
  "settled_once c \<Longrightarrow> q \<in> set (waiting c) \<Longrightarrow> qi_seq q \<le> c_nextSeq c"
proof -
  assume "settled_once c" "q \<in> set (waiting c)"
  then have "qi_seq q \<in># issued (c_nextSeq c)"
    unfolding settled_once_def by (metis image_eqI list.set_map set_mset_mset union_iff)
  then show ?thesis by auto
qed

lemma in_order_snoc:
  "in_order qs \<Longrightarrow> \<forall>q \<in> set qs. qi_seq q < qi_seq x \<Longrightarrow> in_order (qs @ [x])"
  by (auto simp: in_order_def sorted_wrt_append)

text \<open>Either nothing happens and an error comes back, or one input is admitted.\<close>

definition admitted :: "queue_name \<Rightarrow> queued_input \<Rightarrow> control \<Rightarrow> control" where
  "admitted queue q c =
     (push queue q (c\<lparr>c_nextSeq := Suc (c_nextSeq c)\<rparr>))\<lparr>c_bytes := c_bytes c + qi_size q\<rparr>"

lemma admit_result:
  "(0::int) \<le> sz \<Longrightarrow>
   (\<exists>e. admit queue m sz c = (c, Inl e)) \<or>
   (\<exists>q. admit queue m sz c = (admitted queue q c, Inr (qi_seq q)) \<and> qi_message q = m \<and>
      qi_seq q = Suc (c_nextSeq c) \<and> 0 \<le> qi_size q \<and> c_bytes c + qi_size q \<le> max_queue_bytes \<and>
      queueLen c < maxControlQueue \<and> c_accepting c \<and> c_ctx c = Some None)"
  by (cases "c_accepting c \<and> c_ctx c = Some None"; cases "maxControlQueue \<le> queueLen c \<or>
        max_input_bytes < sz \<or> max_queue_bytes < c_bytes c + sz")
     (auto simp: admit_def admitted_def Let_def intro!: exI
       [of _ "\<lparr>qi_message = m, qi_size = sz, qi_seq = Suc (c_nextSeq c)\<rparr>"])

lemma enqueue_result:
  "(\<exists>e. enqueue marshal input queue c = (c, Inl e)) \<or>
   (\<exists>q. enqueue marshal input queue c = (admitted queue q c, Inr (qi_seq q)) \<and>
      requestMessage input = Inr (qi_message q) \<and>
      qi_seq q = Suc (c_nextSeq c) \<and> 0 \<le> qi_size q \<and> c_bytes c + qi_size q \<le> max_queue_bytes \<and>
      queueLen c < maxControlQueue \<and> c_accepting c \<and> c_ctx c = Some None)"
proof (cases "requestMessage input")
  case (Inr m)
  show ?thesis
  proof (cases "marshal m")
    case (Inl e)
    then show ?thesis
      using Inr by (simp add: enqueue_def)
  next
    case (Inr encoded)
    let ?refuse = "r_Budget input \<noteq> None \<or> trim_space (r_Prompt input) = [] \<and> r_Content input = []"
    have "enqueue marshal input queue c =
        (if ?refuse
         then (c, Inl (new_err ''agent input requires user content and cannot change the budget''))
         else admit queue m (int (length encoded)) c)"
      using Inr \<open>requestMessage input = Inr m\<close> by (simp add: enqueue_def)
    then show ?thesis
      using admit_result [of "int (length encoded)" queue m c] \<open>requestMessage input = Inr m\<close>
      by (auto split: if_splits)
  qed
qed (simp add: enqueue_def)

lemma control_inv_admitted:
  assumes "control_inv c" "qi_seq q = Suc (c_nextSeq c)" "0 \<le> qi_size q"
    "c_bytes c + qi_size q \<le> max_queue_bytes" "queueLen c < maxControlQueue"
  shows "control_inv (admitted queue q c)"
proof -
  have fresh: "\<forall>x \<in> set (waiting c). qi_seq x < qi_seq q"
    using assms settled_fresh by (fastforce simp: control_inv_def)
  then have "in_order (c_pending c @ [q])" "in_order (c_steers c @ [q])" "in_order (c_followups c @ [q])"
    using assms by (auto intro!: in_order_snoc simp: control_inv_def waiting_def)
  then show ?thesis
    using assms by (cases queue) (auto simp: control_inv_simps admitted_def)
qed

lemma control_inv_enqueue [step_intros]:
  assumes "control_inv c"
  shows "control_inv (fst (enqueue marshal input queue c))"
  using enqueue_result [of marshal input queue c] assms by (auto intro: control_inv_admitted)

lemma control_inv_finish [step_intros]:
  assumes "control_inv c"
  shows "control_inv (finish_control c)"
  using assms
  by (auto simp: control_inv_simps finish_control_def ack_all_def Let_def in_order_def comp_def
      max_queue_bytes_def ac_simps)

lemma control_inv_take [step_intros]:
  assumes "control_inv c"
  shows "control_inv (fst (take_inputs c))"
  using assms seqs_mergeQueued [of "c_steers c" "c_pending c"]
  by (auto simp: control_inv_simps take_inputs_def Let_def in_order_def length_mergeQueued
      total_size_mergeQueued set_mergeQueued ac_simps)

lemma control_inv_ack [step_intros]:
  assumes "control_inv c"
  shows "control_inv (acknowledge err c)"
  using assms total_size_nonneg [of "c_inflight c"]
  by (auto simp: control_inv_simps acknowledge_def ack_all_def release_bytes_total comp_def ac_simps)

lemma control_inv_seal [step_intros]: "control_inv c \<Longrightarrow> control_inv (fst (continueOrSeal c))"
  by (auto simp: control_inv_simps continueOrSeal_def in_order_def ac_simps)

lemma control_inv_step:
  assumes "control_inv c" "control_step c d"
  shows "control_inv d"
  using assms(2)
proof cases
  case (step_begin started)
  then show ?thesis
    using assms(1) by (auto simp: beginTurn_def Let_def control_inv_simps)
next
  case (step_update started)
  then show ?thesis
    using assms(1) by (auto simp: updateTurnStarted_def Let_def control_inv_simps split: option.splits)
next
  case step_cancel
  then show ?thesis
    using assms(1) by (simp add: Cancel_def control_inv_simps)
next
  case (step_start parent)
  then show ?thesis
    using assms(1) by (auto simp: start_control_def control_inv_simps)
qed (use assms(1) in \<open>auto simp: endTurn_def control_inv_enqueue control_inv_finish control_inv_take
  control_inv_ack control_inv_seal, auto simp: control_inv_simps\<close>)

lemma control_inv_new: "control_inv new_control"
  by (simp add: control_inv_simps new_control_def in_order_def max_queue_bytes_def)

definition sealed :: "control \<Rightarrow> bool" where
  "sealed c \<longleftrightarrow> c_started c \<and> \<not> c_accepting c"

lemma sealed_enqueue: "sealed c \<Longrightarrow> fst (enqueue marshal input queue c) = c"
  using enqueue_result [of marshal input queue c] by (auto simp: sealed_def)

lemma sealed_step:
  assumes "sealed c" "control_step c d"
  shows "sealed d"
  using assms(2)
proof cases
  case (step_begin started)
  then show ?thesis
    using assms(1) by (auto simp: beginTurn_def Let_def sealed_def)
next
  case (step_update started)
  then show ?thesis
    using assms(1) by (auto simp: updateTurnStarted_def Let_def sealed_def split: option.splits)
qed (use assms(1) in \<open>auto simp: sealed_enqueue, auto simp: sealed_def Cancel_def endTurn_def
  finish_control_def ack_all_def Let_def start_control_def take_inputs_def acknowledge_def
  continueOrSeal_def\<close>)

interpretation steering: machine_stable "\<lambda>c. c = new_control" control_step control_inv sealed
  by unfold_locales (auto simp: control_inv_new intro: control_inv_step sealed_step)


section \<open>Properties\<close>

definition reachable_control :: "control \<Rightarrow> bool" where
  "reachable_control = reachable (\<lambda>c. c = new_control) control_step"

lemma reachable_new_control: "reachable_control new_control"
  by (simp add: reachable_control_def reach_init)

lemma reachable_control_step: "reachable_control c \<Longrightarrow> control_step c d \<Longrightarrow> reachable_control d"
  by (auto simp: reachable_control_def intro: reach_step)

lemma reachable_control_inv: "reachable_control c \<Longrightarrow> control_inv c"
  by (simp add: reachable_control_def steering.reachable_inv)

lemma distinct_settled:
  assumes "settled_once c"
  shows "distinct (map fst (c_acks c)) \<and> distinct (map qi_seq (waiting c)) \<and>
    set (map fst (c_acks c)) \<inter> qi_seq ` set (waiting c) = {} \<and>
    set (map fst (c_acks c)) \<union> qi_seq ` set (waiting c) = {1 .. c_nextSeq c}"
proof -
  let ?w = "map qi_seq (waiting c)" and ?a = "map fst (c_acks c)"
  have eq: "mset (?w @ ?a) = issued (c_nextSeq c)"
    using assms by (simp add: settled_once_def)
  have "distinct (?w @ ?a)"
    by (rule distinct_count_atmost_1 [THEN iffD2])
      (metis One_nat_def count_issued eq count_greater_eq_Suc_zero_iff count_eq_zero_iff
        le_antisym set_mset_mset)
  moreover have "set (?w @ ?a) = {1 .. c_nextSeq c}"
    using arg_cong [OF eq, of set_mset] by (auto simp: set_eq_iff)
  ultimately show ?thesis by auto
qed

text \<open>A control that was started, got three inputs, and consumed two of them.\<close>

definition sample_request :: "bytes \<Rightarrow> request" where
  "sample_request t = \<lparr>r_Prompt = t, r_Budget = None, r_SessionBudget = None,
     r_ModelTimeouts = None, r_Content = []\<rparr>"

definition sample_marshal :: "message \<Rightarrow> go_err + bytes" where
  "sample_marshal m = Inr (m_Text m)"

definition sample_queue :: control where
  "sample_queue = fst (enqueue sample_marshal (sample_request ''late'') Followups
     (fst (enqueue sample_marshal (sample_request ''b'') Steers
       (fst (enqueue sample_marshal (sample_request ''a'') Pending
         (fst (start_control None new_control)))))))"

lemma sample_queue_reachable: "reachable_control sample_queue"
  unfolding sample_queue_def
  by (rule reachable_control_step [OF _ step_enqueue] reachable_control_step [OF _ step_start]
      reachable_new_control)+

lemmas sample_control_simps = sample_queue_def enqueue_def admit_def sample_request_def
  sample_marshal_def requestMessage_def Request_Validate_def validateBudget_def
  validateSessionBudget_def validateModelTimeouts_def start_control_def new_control_def Let_def
  trim_space_def ascii_space_def space2_def space3_def SyncLegacyContent_def TextPart_def
  zero_message_def zero_part_def maxControlQueue_def max_input_bytes_def max_queue_bytes_def
  queueLen_def

text \<open>
  C4.  In every reachable state the queues of a Control hold at most 64 inputs and 4 MiB, and the
  byte counter equals the sum of the sizes of the inputs that are waiting.
\<close>

theorem control_queue_bounded:
  assumes "reachable_control c"
  shows "queueLen c \<le> 64 \<and> 0 \<le> c_bytes c \<and> c_bytes c \<le> 4 * 2 ^ 20 \<and>
    c_bytes c = total_size (waiting c)"
  using reachable_control_inv [OF assms] total_size_nonneg [of "waiting c"]
  by (simp add: control_inv_def maxControlQueue_def max_queue_bytes_def)

theorem control_queue_bounded_witness:
  "c_bytes sample_queue = total_size (waiting sample_queue) \<and> queueLen sample_queue = 3"
proof -
  have "queueLen sample_queue = 3"
    by (simp add: sample_control_simps)
  then show ?thesis
    using control_queue_bounded [OF sample_queue_reachable] by simp
qed

text \<open>
  C5.  Every input a Control accepted is acknowledged at most once: its sequence number is either
  on a queue or in the log of acknowledgements, never both and never twice, and once finish has
  run every accepted input has been acknowledged exactly once.
\<close>

theorem control_acknowledges_exactly_once:
  assumes "reachable_control c"
  shows "distinct (map fst (c_acks c)) \<and> set (map fst (c_acks c)) \<inter> qi_seq ` set (waiting c) = {} \<and>
    set (map fst (c_acks c)) \<union> qi_seq ` set (waiting c) = {1 .. c_nextSeq c} \<and>
    distinct (map fst (c_acks (finish_control c))) \<and>
    set (map fst (c_acks (finish_control c))) = {1 .. c_nextSeq c}"
proof -
  have "control_inv c" "control_inv (finish_control c)"
    using reachable_control_inv [OF assms] by (auto intro: control_inv_finish)
  moreover have "waiting (finish_control c) = []" "c_nextSeq (finish_control c) = c_nextSeq c"
    by (simp_all add: finish_control_def waiting_def Let_def ack_all_def)
  ultimately show ?thesis
    using distinct_settled [of c] distinct_settled [of "finish_control c"]
    by (simp add: control_inv_def)
qed

theorem control_acknowledges_exactly_once_witness:
  "set (map fst (c_acks (finish_control sample_queue))) = {1 .. 3}"
proof -
  have "c_nextSeq sample_queue = 3"
    by (simp add: sample_control_simps)
  then show ?thesis
    using control_acknowledges_exactly_once [OF sample_queue_reachable] by simp
qed

text \<open>
  Taking the queued inputs at a model boundary returns all Send and Steer inputs, loses
  none, duplicates none, and orders them by admission, so an older message never follows a newer
  correction.
\<close>

theorem take_keeps_admission_order:
  assumes "reachable_control c"
  shows "\<exists>qs. take_inputs c = (c\<lparr>c_inflight := c_inflight c @ qs, c_steers := [], c_pending := []\<rparr>,
      map qi_message qs) \<and>
    sorted_wrt (<) (map qi_seq qs) \<and> mset qs = mset (c_steers c) + mset (c_pending c)"
proof -
  have inv: "control_inv c"
    by (rule reachable_control_inv [OF assms])
  then have "distinct (map qi_seq (waiting c))"
    using distinct_settled [of c] by (simp add: control_inv_def)
  then have "qi_seq ` set (c_steers c) \<inter> qi_seq ` set (c_pending c) = {}"
    by (auto simp: waiting_def)
  then have "in_order (mergeQueued (c_steers c) (c_pending c))"
    using inv by (intro in_order_mergeQueued) (auto simp: control_inv_def)
  then show ?thesis
    by (auto simp: take_inputs_def Let_def in_order_def mset_mergeQueued)
qed

theorem take_keeps_admission_order_witness:
  "\<exists>qs. snd (take_inputs sample_queue) = map qi_message qs \<and> sorted_wrt (<) (map qi_seq qs) \<and>
     mset qs = mset (c_steers sample_queue) + mset (c_pending sample_queue)"
  using take_keeps_admission_order [OF sample_queue_reachable] by auto

text \<open>
  C6.  continueOrSeal refuses to finish an execution while any input it accepted is still queued:
  it answers false only with all three queues empty, and after that every Send, Steer and
  FollowUp is refused, whatever happens in between.
\<close>

theorem seal_is_final:
  assumes "reachable_control c" "c_started c" "continueOrSeal c = (d, False)" "run control_step d e"
  shows "c_pending c = [] \<and> c_steers c = [] \<and> c_followups c = [] \<and>
    fst (enqueue marshal input queue e) = e \<and> (\<exists>x. snd (enqueue marshal input queue e) = Inl x)"
proof -
  have d: "d = c\<lparr>c_accepting := False\<rparr>" "c_pending c = []" "c_steers c = []" "c_followups c = []"
    using assms(3) by (auto simp: continueOrSeal_def split: if_splits)
  have "control_step c d"
    using step_seal [of c] assms(3) by simp
  then have "control_inv d"
    using reachable_control_inv [OF assms(1)] control_inv_step by blast
  moreover have "sealed d"
    using d assms(2) by (simp add: sealed_def)
  ultimately have "sealed e"
    using steering.stable_run [OF assms(4)] by blast
  then show ?thesis
    using d enqueue_result [of marshal input queue e] by (auto simp: sealed_def)
qed

definition drained_queue :: control where
  "drained_queue = fst (start_control None new_control)"

theorem seal_is_final_witness:
  "fst (enqueue sample_marshal (sample_request ''x'') Pending (fst (continueOrSeal drained_queue))) =
   fst (continueOrSeal drained_queue)"
proof -
  have r: "reachable_control drained_queue"
    unfolding drained_queue_def
    by (rule reachable_control_step [OF _ step_start] reachable_new_control)+
  have s: "continueOrSeal drained_queue = (drained_queue\<lparr>c_accepting := False\<rparr>, False)"
    by (simp add: drained_queue_def start_control_def new_control_def continueOrSeal_def)
  show ?thesis
    using seal_is_final [OF r _ s run_refl, of sample_marshal "sample_request ''x''" Pending] s
    by (simp add: drained_queue_def start_control_def new_control_def)
qed

text \<open>
  Steer interrupts only the current model turn: an accepted correction cancels the turn's
  context with the steering cause when no streaming tool has started and leaves the turn alone
  when one has, and in no case ends the execution's context or stops the handle accepting.
\<close>

theorem steer_is_turn_local:
  assumes "Steer marshal input c = (d, Inr seq)"
  shows "c_ctx d = c_ctx c \<and> c_accepting d = c_accepting c \<and> hasSteer d \<and>
    c_turn d = (case c_turn c of None \<Rightarrow> None
      | Some t \<Rightarrow> Some (if ts_started t \<or> ts_cause t \<noteq> None then t
                        else t\<lparr>ts_cause := Some (sentinel ErrControlSteer)\<rparr>))"
proof -
  obtain q where "enqueue marshal input Steers c = (admitted Steers q c, Inr (qi_seq q))"
    using enqueue_result [of marshal input Steers c] assms by (auto simp: Steer_def)
  then have "d = interruptTurn (admitted Steers q c)"
    using assms by (simp add: Steer_def)
  then show ?thesis
    by (auto simp: interruptTurn_def cancel_turn_def admitted_def hasSteer_def split: option.splits)
qed

definition sample_turn :: control where
  "sample_turn = beginTurn False (fst (start_control None new_control))"

theorem steer_is_turn_local_witness:
  "c_turn (fst (Steer sample_marshal (sample_request ''b'') sample_turn)) =
     Some \<lparr>ts_started = False, ts_cause = Some (sentinel ErrControlSteer)\<rparr>"
proof -
  have "\<exists>d. Steer sample_marshal (sample_request ''b'') sample_turn = (d, Inr 1)"
    by (simp add: sample_turn_def Steer_def beginTurn_def interruptTurn_def sample_control_simps)
  then obtain d where "Steer sample_marshal (sample_request ''b'') sample_turn = (d, Inr 1)" ..
  then show ?thesis
    using steer_is_turn_local [of sample_marshal "sample_request ''b''" sample_turn d 1]
    by (simp add: sample_turn_def beginTurn_def start_control_def new_control_def Let_def)
qed

end
