(* ===== verification/Programs.thy ===== *)
theory Programs
  imports Messages
begin

text \<open>
  Effectful calls.  A tool driver, an interceptor or an update sink is code the SDK is given; what
  the SDK sees of it is a program tree: it reads and writes the world (\<open>Do\<close>), emits an update and
  goes on with the sink's answer (\<open>Emit\<close>), and ends by returning or panicking.  Trees are
  well-founded: a call that never returns is not represented.  The lemmas are the laws of
  sequencing with and without recovery.
\<close>

section \<open>Updates\<close>

text \<open>\<open>src/tool/tool.go\<close>: \<open>Update\<close>.\<close>

datatype update_kind = UpdateProgress | UpdateOutput | UpdateOther bytes

record update =
  up_Kind :: update_kind
  up_ToolCallID :: bytes
  up_OperationID :: bytes
  up_Sequence :: nat
  up_Message :: bytes
  up_Data :: string_map
  up_Parts :: "content_part list"

section \<open>Trees\<close>

datatype 'r outcome = Returned 'r | Panicked bytes

datatype ('w, 'r) prog =
    Ret 'r
  | Crash bytes
  | Do "'w \<Rightarrow> 'w \<times> ('w, 'r) prog"
  | Emit update "go_err option outcome \<Rightarrow> ('w, 'r) prog"

type_synonym 'w sink = "update \<Rightarrow> 'w \<Rightarrow> 'w \<times> go_err option outcome"

text \<open>Run a call and continue with its outcome, panics included (a deferred recover).\<close>

primrec catch :: "('w, 'r) prog \<Rightarrow> ('r outcome \<Rightarrow> ('w, 's) prog) \<Rightarrow> ('w, 's) prog" where
  "catch (Ret r) k = k (Returned r)"
| "catch (Crash b) k = k (Panicked b)"
| "catch (Do f) k = Do (\<lambda>w. map_prod id (\<lambda>p. catch p k) (f w))"
| "catch (Emit u g) k = Emit u (\<lambda>x. catch (g x) k)"

text \<open>Ordinary sequencing: a panic passes through.\<close>

definition andThen :: "('w, 'r) prog \<Rightarrow> ('r \<Rightarrow> ('w, 's) prog) \<Rightarrow> ('w, 's) prog" where
  "andThen p k = catch p (\<lambda>x. case x of Returned r \<Rightarrow> k r | Panicked b \<Rightarrow> Crash b)"

definition observe :: "('w \<Rightarrow> 'a) \<Rightarrow> ('a \<Rightarrow> ('w, 'r) prog) \<Rightarrow> ('w, 'r) prog" where
  "observe f k = Do (\<lambda>w. (w, k (f w)))"

primrec run_prog :: "'w sink \<Rightarrow> ('w, 'r) prog \<Rightarrow> 'w \<Rightarrow> 'w \<times> 'r outcome" where
  "run_prog s (Ret r) = (\<lambda>w. (w, Returned r))"
| "run_prog s (Crash b) = (\<lambda>w. (w, Panicked b))"
| "run_prog s (Do f) = (\<lambda>w. case map_prod id (run_prog s) (f w) of (w', g) \<Rightarrow> g w')"
| "run_prog s (Emit u k) = (\<lambda>w. case s u w of (w', x) \<Rightarrow> run_prog s (k x) w')"

text \<open>What the sink saw, with its answers, in order.\<close>

primrec emitted ::
  "'w sink \<Rightarrow> ('w, 'r) prog \<Rightarrow> 'w \<Rightarrow> (update \<times> go_err option outcome) list" where
  "emitted s (Ret r) = (\<lambda>w. [])"
| "emitted s (Crash b) = (\<lambda>w. [])"
| "emitted s (Do f) = (\<lambda>w. case map_prod id (emitted s) (f w) of (w', g) \<Rightarrow> g w')"
| "emitted s (Emit u k) = (\<lambda>w. case s u w of (w', x) \<Rightarrow> (u, x) # emitted s (k x) w')"

section \<open>Laws\<close>

lemma prog_induct [case_names Ret Crash Do Emit]:
  assumes "\<And>r. P (Ret r)" "\<And>b. P (Crash b)"
    and "\<And>f. (\<And>w w' p. f w = (w', p) \<Longrightarrow> P p) \<Longrightarrow> P (Do f)"
    and "\<And>u k. (\<And>x. P (k x)) \<Longrightarrow> P (Emit u k)"
  shows "P p"
proof (induction p)
  case (Do f)
  have "P q" if "f w = (w', q)" for w w' q
    by (rule Do [of "(w', q)"]) (use that in \<open>auto intro: range_eqI [of _ _ w]\<close>)
  then show ?case
    by (rule assms(3))
qed (use assms in auto)

lemma do_simps [simp]:
  "run_prog s (Do f) w = run_prog s (snd (f w)) (fst (f w))"
  "emitted s (Do f) w = emitted s (snd (f w)) (fst (f w))"
  "catch (Do f) k = Do (\<lambda>w. (fst (f w), catch (snd (f w)) k))"
  by (simp_all add: map_prod_def case_prod_unfold)

declare run_prog.simps(3) [simp del] emitted.simps(3) [simp del] catch.simps(3) [simp del]

lemma run_catch [simp]:
  "run_prog s (catch p k) w = (case run_prog s p w of (w', x) \<Rightarrow> run_prog s (k x) w')"
proof (induction p arbitrary: w rule: prog_induct)
  case (Do f)
  show ?case
    using Do [of w "fst (f w)" "snd (f w)"] by simp
qed (auto split: prod.splits)

lemma emitted_catch [simp]:
  "emitted s (catch p k) w =
     emitted s p w @ (case run_prog s p w of (w', x) \<Rightarrow> emitted s (k x) w')"
proof (induction p arbitrary: w rule: prog_induct)
  case (Do f)
  show ?case
    using Do [of w "fst (f w)" "snd (f w)"] by simp
qed (auto split: prod.splits)

lemma run_andThen [simp]:
  "run_prog s (andThen p k) w = (case run_prog s p w of
     (w', Returned r) \<Rightarrow> run_prog s (k r) w' | (w', Panicked b) \<Rightarrow> (w', Panicked b))"
  by (auto simp: andThen_def split: prod.splits outcome.splits)

lemma emitted_andThen [simp]:
  "emitted s (andThen p k) w = emitted s p w @ (case run_prog s p w of
     (w', Returned r) \<Rightarrow> emitted s (k r) w' | (w', Panicked b) \<Rightarrow> [])"
  by (auto simp: andThen_def split: prod.splits outcome.splits)

lemma run_observe [simp]:
  "run_prog s (observe f k) w = run_prog s (k (f w)) w"
  "emitted s (observe f k) w = emitted s (k (f w)) w"
  by (simp_all add: observe_def)

lemma catch_assoc: "catch (catch p k) l = catch p (\<lambda>x. catch (k x) l)"
proof (induction p rule: prog_induct)
  case (Do f)
  have "catch (catch (snd (f w)) k) l = catch (snd (f w)) (\<lambda>x. catch (k x) l)" for w
    by (rule Do [of w "fst (f w)"]) simp
  then show ?case
    by simp
qed simp_all

lemma run_pair_eq: "run_prog s p w = (fst (run_prog s p w), snd (run_prog s p w))"
  by simp

end
