(* ===== verification/ToolUpdates.thy ===== *)
theory ToolUpdates
  imports Programs
begin

text \<open>
  Streaming tool updates: \<open>src/tool/update.go\<close>.  \<open>toolUpdateDriver\<close> puts a state between a driver
  and the caller's sink; each \<open>emit\<close> runs under the state's mutex, delivery included, so it is
  atomic.  \<open>with_updates\<close> runs a driver's tree against the state.  Lengths add up in a \<open>uint64\<close>,
  written out with \<open>mod 2 ^ 64\<close>.  The lemmas show what the sink can see: consecutive sequence
  numbers under the call's identity within both limits, nothing after the first failure, and
  a terminal result equal to the streamed output.
\<close>

section \<open>State\<close>

definition maxToolUpdatesPerCall :: nat where "maxToolUpdatesPerCall = 65536"

definition maxToolUpdateBytesPerCall :: nat where "maxToolUpdateBytesPerCall = 64 * 2 ^ 20"

record update_state =
  us_call :: tool_call
  us_sink :: bool
  us_cancelled :: bool
  us_closed :: bool
  us_count :: nat
  us_bytes :: nat
  us_output :: "content_part list"
  us_err :: "go_err option"

definition new_update_state :: "tool_call \<Rightarrow> bool \<Rightarrow> update_state" where
  "new_update_state call has_sink = \<lparr>us_call = call, us_sink = has_sink, us_cancelled = False,
     us_closed = False, us_count = 0, us_bytes = 0, us_output = [], us_err = None\<rparr>"

section \<open>Checks\<close>

fun update_kind_name :: "update_kind \<Rightarrow> bytes" where
  "update_kind_name UpdateProgress = ''progress''"
| "update_kind_name UpdateOutput = ''output''"
| "update_kind_name (UpdateOther s) = s"

definition validateUpdate :: "update \<Rightarrow> go_err option" where
  "validateUpdate u = (case up_Kind u of
       UpdateProgress \<Rightarrow> if up_Parts u \<noteq> []
         then Some (wrap_err ''progress update contains output parts'' (sentinel ErrToolUpdateProtocol))
         else None
     | UpdateOutput \<Rightarrow> if up_Parts u = []
         then Some (wrap_err ''output update has no parts'' (sentinel ErrToolUpdateProtocol))
         else None
     | UpdateOther k \<Rightarrow> Some (wrap_err (''unknown kind '' @ k) (sentinel ErrToolUpdateProtocol)))"

definition part_bytes :: "content_part \<Rightarrow> nat" where
  "part_bytes p = length (cp_ID p) + length (content_kind_name (cp_Kind p)) + length (cp_Text p)
     + length (cp_Data p) + length (cp_MediaType p) + length (cp_URI p) + length (cp_Filename p)
     + length (cp_Signature p) + length (cp_ProviderData p)
     + (case cp_Source p of None \<Rightarrow> 0
        | Some s \<Rightarrow> length (src_ID s) + length (src_URL s) + length (src_Title s)
            + length (src_MediaType s) + length (src_Filename s))"

definition decodedUpdateBytes :: "update \<Rightarrow> nat" where
  "decodedUpdateBytes u =
     (8 + length (update_kind_name (up_Kind u)) + length (up_ToolCallID u)
      + length (up_OperationID u) + length (up_Message u)
      + sum_list (map (\<lambda>(k, v). length k + length v) (up_Data u))
      + sum_list (map part_bytes (up_Parts u))) mod 2 ^ 64"

section \<open>Emitting\<close>

text \<open>\<open>failLocked\<close>: the first error stays.\<close>

definition fail_update :: "go_err \<Rightarrow> update_state \<Rightarrow> update_state" where
  "fail_update e st =
     (if us_err st = None then st\<lparr>us_err := Some e, us_cancelled := True\<rparr> else st)"

text \<open>\<open>emit\<close> up to the delivery: an error, or the update to deliver.\<close>

definition emit_admit :: "update_state \<Rightarrow> update \<Rightarrow> update_state \<times> (go_err + update)" where
  "emit_admit st input =
     (if us_closed st
        then (st, Inl (wrap_err ''update emitted after Driver.Execute returned''
                         (sentinel ErrToolUpdateProtocol)))
      else case us_err st of Some e \<Rightarrow> (st, Inl e) | None \<Rightarrow>
      case validateUpdate input of Some e \<Rightarrow> (fail_update e st, Inl e) | None \<Rightarrow>
      if maxToolUpdatesPerCall \<le> us_count st
        then let e = wrap_err ''count exceeds'' (sentinel ErrToolUpdateLimit)
             in (fail_update e st, Inl e)
      else let u = input\<lparr>up_ToolCallID := tc_ID (us_call st),
                         up_OperationID := tc_OperationID (us_call st),
                         up_Sequence := us_count st + 1\<rparr>;
               n = decodedUpdateBytes u
           in if maxToolUpdateBytesPerCall - us_bytes st < n
                then let e = wrap_err ''decoded bytes exceed'' (sentinel ErrToolUpdateLimit)
                     in (fail_update e st, Inl e)
              else (st\<lparr>us_count := us_count st + 1, us_bytes := us_bytes st + n,
                       us_output := us_output st @
                         (if up_Kind u = UpdateOutput then up_Parts u else [])\<rparr>, Inr u))"

text \<open>\<open>deliverUpdate\<close> turns a panic of the sink into an error; \<open>emit\<close> records an error.\<close>

definition deliverUpdate :: "go_err option outcome \<Rightarrow> go_err option" where
  "deliverUpdate x = (case x of Returned e \<Rightarrow> e
     | Panicked b \<Rightarrow> Some (new_err (''tool update sink panicked: '' @ b)))"

definition emit_delivered :: "go_err option outcome \<Rightarrow> update_state \<Rightarrow> update_state \<times> go_err option" where
  "emit_delivered x st = (case deliverUpdate x of None \<Rightarrow> (st, None)
     | Some e \<Rightarrow> (fail_update e st, Some e))"

text \<open>A driver's tree with \<open>state.emit\<close> as its sink; the result carries the final state.\<close>

primrec with_updates ::
  "('w, 'r) prog \<Rightarrow> update_state \<Rightarrow> ('w, update_state \<times> 'r outcome) prog" where
  "with_updates (Ret r) = (\<lambda>st. Ret (st, Returned r))"
| "with_updates (Crash b) = (\<lambda>st. Ret (st, Panicked b))"
| "with_updates (Do f) = (\<lambda>st. Do (\<lambda>w. map_prod id (\<lambda>g. g st) (map_prod id with_updates (f w))))"
| "with_updates (Emit u k) = (\<lambda>st. case emit_admit st u of
       (st', Inl e) \<Rightarrow> with_updates (k (Returned (Some e))) st'
     | (st', Inr u') \<Rightarrow>
         if \<not> us_sink st' then with_updates (k (Returned None)) st'
         else Emit u' (\<lambda>x. case emit_delivered x st' of
                (st'', e) \<Rightarrow> with_updates (k (Returned e)) st''))"

section \<open>The terminal result\<close>

definition equalContentPart :: "content_part \<Rightarrow> content_part \<Rightarrow> bool" where
  "equalContentPart l r =
     (if cp_ID l \<noteq> cp_ID r \<or> cp_Kind l \<noteq> cp_Kind r \<or> cp_Text l \<noteq> cp_Text r \<or>
         cp_MediaType l \<noteq> cp_MediaType r \<or> cp_URI l \<noteq> cp_URI r \<or>
         cp_Filename l \<noteq> cp_Filename r \<or> cp_Signature l \<noteq> cp_Signature r \<or>
         cp_Data l \<noteq> cp_Data r \<or> cp_ProviderData l \<noteq> cp_ProviderData r then False
      else case (cp_Source l, cp_Source r) of
          (Some a, Some b) \<Rightarrow> a = b
        | (a, b) \<Rightarrow> a = None \<and> b = None)"

fun equalContent :: "content_part list \<Rightarrow> content_part list \<Rightarrow> bool" where
  "equalContent [] [] = True"
| "equalContent (l # ls) (r # rs) = (equalContentPart l r \<and> equalContent ls rs)"
| "equalContent _ _ = False"

definition normalizeUpdatedResult ::
  "tool_call \<Rightarrow> tool_result \<Rightarrow> content_part list \<Rightarrow> tool_result \<times> go_err option" where
  "normalizeUpdatedResult call result0 output =
     (let result = result0\<lparr>tr_ToolCallID := tc_ID call, tr_Name := tc_Name call\<rparr>
      in if output = [] then (result_SyncLegacyContent result, None)
      else if tr_Parts result = []
        then (result_SyncLegacyContent (result\<lparr>tr_Parts := output\<rparr>), None)
      else let expected = result_SyncLegacyContent (zero_result\<lparr>tr_Parts := output\<rparr>);
               synced = result_SyncLegacyContent result
           in if tr_Content synced \<noteq> tr_Content expected \<or>
                 \<not> equalContent (tr_Parts synced) (tr_Parts expected)
              then (synced, Some (wrap_err ''terminal result differs from streamed output''
                                    (sentinel ErrToolUpdateProtocol)))
              else (synced, None))"

definition finish_updates ::
  "update_state \<Rightarrow> update_state \<times> content_part list \<times> nat \<times> go_err option" where
  "finish_updates st = (let st' = st\<lparr>us_closed := True, us_cancelled := True\<rparr>
     in (st', us_output st', us_count st', us_err st'))"

type_synonym tool_return = "tool_result \<times> go_err option"

text \<open>What \<open>toolUpdateDriver.Execute\<close> returns once the driver has.\<close>

definition update_result :: "tool_call \<Rightarrow> update_state \<Rightarrow> tool_return \<Rightarrow> tool_return" where
  "update_result call st r =
     (case finish_updates st of (_, parts, updateCount, updateErr) \<Rightarrow>
      case normalizeUpdatedResult call (fst r) parts of (normalized, protocolErr) \<Rightarrow>
        (normalized,
         if updateErr \<noteq> None
           then (if protocolErr \<noteq> None then errors_join [updateErr, protocolErr] else updateErr)
         else if protocolErr \<noteq> None then protocolErr
         else case snd r of None \<Rightarrow> None
           | Some e \<Rightarrow> if 0 < updateCount \<and> errors_is ErrNotExecuted e
               then Some (wrap_err ''driver emitted updates before reporting that it was not executed''
                            (sentinel ErrToolUpdateProtocol))
               else Some e))"

type_synonym 'w driver = "tool_call \<Rightarrow> ('w, tool_return) prog"

definition toolUpdateDriver :: "bool \<Rightarrow> 'w driver \<Rightarrow> 'w driver" where
  "toolUpdateDriver has_sink next_driver call =
     andThen (with_updates (next_driver call) (new_update_state call has_sink))
       (\<lambda>(st, x). case x of Returned r \<Rightarrow> Ret (update_result call st r) | Panicked b \<Rightarrow> Crash b)"

section \<open>Lemmas\<close>

lemma equalContentPart_eq [simp]: "equalContentPart l r \<longleftrightarrow> l = r"
  by (cases l, cases r) (auto simp: equalContentPart_def split: option.splits)

lemma equalContent_eq [simp]: "equalContent ls rs \<longleftrightarrow> ls = rs"
  by (induction ls rs rule: equalContent.induct) auto

lemma with_updates_Do [simp]:
  "with_updates (Do f) st = Do (\<lambda>w. (fst (f w), with_updates (snd (f w)) st))"
  by (simp add: map_prod_def case_prod_unfold)

declare with_updates.simps(3) [simp del]

lemma fail_update_view [simp]:
  "us_call (fail_update e st) = us_call st" "us_sink (fail_update e st) = us_sink st"
  "us_closed (fail_update e st) = us_closed st" "us_count (fail_update e st) = us_count st"
  "us_bytes (fail_update e st) = us_bytes st" "us_output (fail_update e st) = us_output st"
  "us_err (fail_update e st) = (case us_err st of None \<Rightarrow> Some e | Some d \<Rightarrow> Some d)"
  by (auto simp: fail_update_def split: option.splits)

text \<open>An update emitted after the driver returned is refused and changes nothing.\<close>

lemma late_emit:
  "us_closed st \<Longrightarrow> \<exists>e. emit_admit st u = (st, Inl e) \<and> errors_is ErrToolUpdateProtocol e"
  by (auto simp: emit_admit_def)

definition within_limits :: "update_state \<Rightarrow> bool" where
  "within_limits st \<longleftrightarrow> us_count st \<le> maxToolUpdatesPerCall \<and> us_bytes st \<le> maxToolUpdateBytesPerCall"

lemma emit_admit_refused:
  assumes "emit_admit st u = (st', Inl e)"
  shows "(us_closed st \<and> st' = st) \<or> (us_err st = Some e \<and> st' = st) \<or>
    (us_err st = None \<and> st' = fail_update e st \<and>
       (errors_is ErrToolUpdateProtocol e \<or> errors_is ErrToolUpdateLimit e) \<and>
       \<not> errors_is ErrNotExecuted e)"
  using assms
  by (auto simp: emit_admit_def Let_def validateUpdate_def split: if_splits option.splits update_kind.splits)

lemma validateUpdate_cong:
  "up_Kind u = up_Kind v \<Longrightarrow> up_Parts u = up_Parts v \<Longrightarrow> validateUpdate u = validateUpdate v"
  by (simp add: validateUpdate_def split: update_kind.splits)

lemma emit_admit_accepted:
  assumes "emit_admit st u = (st', Inr v)"
  shows "us_closed st = False \<and> us_err st = None \<and> validateUpdate v = None \<and>
    up_ToolCallID v = tc_ID (us_call st) \<and> up_OperationID v = tc_OperationID (us_call st) \<and>
    up_Sequence v = us_count st + 1 \<and>
    us_bytes st + decodedUpdateBytes v \<le> max maxToolUpdateBytesPerCall (us_bytes st) \<and>
    us_count st < maxToolUpdatesPerCall \<and>
    st' = st\<lparr>us_count := us_count st + 1, us_bytes := us_bytes st + decodedUpdateBytes v,
      us_output := us_output st @ (if up_Kind v = UpdateOutput then up_Parts v else [])\<rparr>"
  using assms validateUpdate_cong [of v u]
  by (auto simp: emit_admit_def Let_def max_def split: if_splits option.splits)

text \<open>What one driver run shows the sink, between two states.\<close>

type_synonym update_trace = "(update \<times> go_err option outcome) list"

definition streamed_parts :: "update_trace \<Rightarrow> content_part list" where
  "streamed_parts tr = concat (map (\<lambda>(u, x). if up_Kind u = UpdateOutput then up_Parts u else []) tr)"

definition trace_bytes :: "update_trace \<Rightarrow> nat" where
  "trace_bytes tr = sum_list (map (\<lambda>(u, x). decodedUpdateBytes u) tr)"

fun numbered :: "tool_call \<Rightarrow> nat \<Rightarrow> update_trace \<Rightarrow> bool" where
  "numbered call n [] = True"
| "numbered call n ((u, x) # tr) =
     (up_ToolCallID u = tc_ID call \<and> up_OperationID u = tc_OperationID call \<and> up_Sequence u = Suc n \<and>
      validateUpdate u = None \<and> (tr \<noteq> [] \<longrightarrow> x = Returned None) \<and> numbered call (Suc n) tr)"

definition trace_error :: "update_trace \<Rightarrow> go_err option" where
  "trace_error tr = (if tr = [] then None else deliverUpdate (snd (last tr)))"

lemma trace_simps [simp]:
  "trace_bytes [] = 0" "trace_bytes ((u, x) # tr) = decodedUpdateBytes u + trace_bytes tr"
  "streamed_parts [] = []"
  "streamed_parts ((u, x) # tr) =
     (if up_Kind u = UpdateOutput then up_Parts u else []) @ streamed_parts tr"
  "trace_error [] = None"
  "trace_error ((u, x) # tr) = (if tr = [] then deliverUpdate x else trace_error tr)"
  by (simp_all add: trace_bytes_def streamed_parts_def trace_error_def)

definition streamed :: "update_state \<Rightarrow> update_trace \<Rightarrow> update_state \<Rightarrow> bool" where
  "streamed st tr st' \<longleftrightarrow>
     us_call st' = us_call st \<and> us_sink st' = us_sink st \<and> us_closed st' = us_closed st \<and>
     us_count st' = us_count st + length tr \<and> us_bytes st' = us_bytes st + trace_bytes tr \<and>
     us_output st' = us_output st @ streamed_parts tr \<and> numbered (us_call st) (us_count st) tr \<and>
     (within_limits st \<longrightarrow> within_limits st') \<and>
     (us_err st \<noteq> None \<longrightarrow> tr = [] \<and> us_err st' = us_err st) \<and>
     (us_err st = None \<longrightarrow> us_err st' = trace_error tr \<or>
        trace_error tr = None \<and> (\<exists>e. us_err st' = Some e \<and> \<not> errors_is ErrNotExecuted e))"

lemma deliver_simps [simp]:
  "deliverUpdate (Returned e) = e" "deliverUpdate x = None \<longleftrightarrow> x = Returned None"
  by (auto simp: deliverUpdate_def split: outcome.splits)

lemma streamed_refl [simp]: "streamed st [] st"
  by (simp add: streamed_def)

lemma streamed_refused:
  assumes "emit_admit st u = (st1, Inl e)" "streamed st1 tr st2"
  shows "streamed st tr st2"
proof -
  consider (fail) "us_err st = None" "st1 = fail_update e st" "\<not> errors_is ErrNotExecuted e"
    | (same) "st1 = st"
    using emit_admit_refused [OF assms(1)] by auto
  then show ?thesis
  proof cases
    case fail
    then have "tr = []" "us_err st2 = Some e"
      using assms(2) by (simp_all add: streamed_def)
    then show ?thesis
      using fail assms(2) by (simp add: streamed_def within_limits_def)
  qed (use assms(2) in simp)
qed

lemma emit_delivered_view:
  assumes "emit_delivered x st = (st', e)"
  shows "e = deliverUpdate x \<and> (case e of None \<Rightarrow> st' = st | Some d \<Rightarrow> st' = fail_update d st)"
  using assms by (auto simp: emit_delivered_def split: option.splits)

lemma streamed_delivered:
  assumes "emit_admit st u = (st1, Inr v)" "emit_delivered x st1 = (st2, e)" "streamed st2 tr st3"
  shows "streamed st ((v, x) # tr) st3"
proof -
  note a = emit_admit_accepted [OF assms(1)] and d = emit_delivered_view [OF assms(2)]
  show ?thesis
  proof (cases "deliverUpdate x")
    case None
    then have "st2 = st1" "x = Returned None"
      using d by auto
    then show ?thesis
      using a assms(3)
      by (auto simp: streamed_def within_limits_def)
  next
    case (Some f)
    then have "st2 = fail_update f st1" "x \<noteq> Returned None"
      using d by (auto simp: deliverUpdate_def)
    then have "tr = []" "us_err st3 = Some f"
      using a assms(3) by (auto simp: streamed_def)
    then show ?thesis
      using a assms(3) Some \<open>st2 = fail_update f st1\<close>
      by (auto simp: streamed_def within_limits_def)
  qed
qed

lemma with_updates_streamed:
  "us_sink st \<Longrightarrow> \<exists>st' x. snd (run_prog s (with_updates p st) w) = Returned (st', x) \<and>
     streamed st (emitted s (with_updates p st) w) st'"
proof (induction p arbitrary: st w rule: prog_induct)
  case (Do f)
  show ?case
    using Do.IH [of w "fst (f w)" "snd (f w)"] Do.prems by simp
next
  case (Emit u k)
  obtain st1 r where r: "emit_admit st u = (st1, r)"
    by force
  show ?case
  proof (cases r)
    case (Inl e)
    then have "us_sink st1"
      using emit_admit_refused [of st u st1 e] r Emit.prems by auto
    then show ?thesis
      using Emit.IH [of st1 "Returned (Some e)" w] Inl r streamed_refused [of st u st1 e] by fastforce
  next
    case (Inr v)
    then have "us_sink st1"
      using emit_admit_accepted [of st u st1 v] r Emit.prems by auto
    obtain w1 x where w1: "s v w = (w1, x)"
      by force
    obtain st2 e where d: "emit_delivered x st1 = (st2, e)"
      by force
    then have "us_sink st2"
      using emit_delivered_view [OF d] \<open>us_sink st1\<close> by (auto split: option.splits)
    from Emit.IH [OF this, of "Returned e" w1] show ?thesis
      using Inr r w1 d \<open>us_sink st1\<close> streamed_delivered [of st u st1 v x st2 e] by fastforce
  qed
qed auto


text \<open>The whole driver: what its caller sees, and what the sink saw.\<close>

lemma toolUpdateDriver_run:
  fixes s :: "'w sink" and d :: "'w driver"
  obtains st x where
    "streamed (new_update_state call True) (emitted s (toolUpdateDriver True d call) w) st"
    and "snd (run_prog s (toolUpdateDriver True d call) w) =
      (case x of Returned r \<Rightarrow> Returned (update_result call st r) | Panicked b \<Rightarrow> Panicked b)"
proof -
  let ?p = "with_updates (d call) (new_update_state call True)"
  have "us_sink (new_update_state call True)"
    by (simp add: new_update_state_def)
  from with_updates_streamed [OF this, of s "d call" w] obtain st x where
    sx: "snd (run_prog s ?p w) = Returned (st, x)"
      "streamed (new_update_state call True) (emitted s ?p w) st"
    by blast
  have e: "emitted s (toolUpdateDriver True d call) w = emitted s ?p w"
    using sx(1) by (auto simp: toolUpdateDriver_def split: prod.splits outcome.splits)
  have r: "snd (run_prog s (toolUpdateDriver True d call) w) =
      (case x of Returned r \<Rightarrow> Returned (update_result call st r) | Panicked b \<Rightarrow> Panicked b)"
    using sx(1) by (auto simp: toolUpdateDriver_def split: prod.splits outcome.splits)
  show ?thesis
    by (rule that [of st x]) (use e r sx(2) in simp_all)
qed

lemma update_result_identity:
  "tr_ToolCallID (fst (update_result call st r)) = tc_ID call \<and>
   tr_Name (fst (update_result call st r)) = tc_Name call"
  by (auto simp: update_result_def finish_updates_def normalizeUpdatedResult_def Let_def
      split: prod.splits)

lemma update_result_parts:
  assumes "snd (update_result call st r) = None" "us_output st \<noteq> []"
  shows "tr_Parts (fst (update_result call st r)) = us_output st"
  using assms
  by (auto simp: update_result_def finish_updates_def normalizeUpdatedResult_def Let_def
      zero_result_def result_SyncLegacyContent_def result_CanonicalContent_def
      split: prod.splits if_splits option.splits)

lemma update_result_not_executed:
  assumes "snd (update_result call st r) = Some e" "errors_is ErrNotExecuted e"
  shows "us_count st = 0 \<or> (\<exists>d. us_err st = Some d \<and> errors_is ErrNotExecuted d)"
  using assms
  by (auto simp: update_result_def finish_updates_def normalizeUpdatedResult_def Let_def
      errors_join_def split: prod.splits if_splits option.splits)

section \<open>Properties\<close>

text \<open>
  C10.  Whatever a driver emits, its caller's sink sees a well-formed stream: the k-th update
  carries the call's identity and sequence number k and has a valid shape, nothing is delivered
  after a delivery that failed, and one call delivers at most 65,536 updates and 64 MiB.
\<close>

theorem tool_update_stream:
  "numbered call 0 (emitted s (toolUpdateDriver True d call) w) \<and>
   length (emitted s (toolUpdateDriver True d call) w) \<le> 65536 \<and>
   trace_bytes (emitted s (toolUpdateDriver True d call) w) \<le> 64 * 2 ^ 20"
proof -
  obtain st x where "streamed (new_update_state call True) (emitted s (toolUpdateDriver True d call) w) st"
    by (rule toolUpdateDriver_run)
  then show ?thesis
    by (simp add: streamed_def new_update_state_def within_limits_def maxToolUpdatesPerCall_def
        maxToolUpdateBytesPerCall_def)
qed

text \<open>
  The terminal result of a driver agrees with what it streamed: it carries the identity of
  the call; when it comes without error and output was streamed, its parts are exactly the
  streamed parts in order; and an error that claims the operation was not executed never follows
  a delivered update, unless the sink itself made that claim.
\<close>

theorem tool_result_agrees_with_stream:
  assumes "snd (run_prog s (toolUpdateDriver True d call) w) = Returned (result, err)"
    and "tr = emitted s (toolUpdateDriver True d call) w"
  shows "tr_ToolCallID result = tc_ID call \<and> tr_Name result = tc_Name call \<and>
    (err = None \<and> streamed_parts tr \<noteq> [] \<longrightarrow> tr_Parts result = streamed_parts tr) \<and>
    (err = None \<longrightarrow> trace_error tr = None) \<and>
    (\<forall>e. err = Some e \<and> errors_is ErrNotExecuted e \<longrightarrow>
       tr = [] \<or> (\<exists>f. trace_error tr = Some f \<and> errors_is ErrNotExecuted f))"
proof -
  obtain st x where st: "streamed (new_update_state call True) tr st"
    and x: "snd (run_prog s (toolUpdateDriver True d call) w) =
      (case x of Returned r \<Rightarrow> Returned (update_result call st r) | Panicked b \<Rightarrow> Panicked b)"
    using assms(2) by (metis toolUpdateDriver_run)
  then obtain r where r: "(result, err) = update_result call st r"
    using assms(1) by (auto split: outcome.splits)
  have out: "us_output st = streamed_parts tr" "us_count st = length tr"
    and e: "us_err st = trace_error tr \<or>
      trace_error tr = None \<and> (\<exists>e. us_err st = Some e \<and> \<not> errors_is ErrNotExecuted e)"
    using st by (auto simp: streamed_def new_update_state_def)
  have "err = None \<Longrightarrow> us_err st = None"
    using r by (auto simp: update_result_def finish_updates_def Let_def errors_join_def
        split: prod.splits if_splits option.splits)
  then show ?thesis
    using r out e update_result_identity [of call st r] update_result_parts [of call st r]
      update_result_not_executed [of call st r] by (auto simp: prod_eq_iff)
qed

text \<open>A driver that streams one line and returns.\<close>

definition sample_call :: tool_call where
  "sample_call = \<lparr>tc_ID = ''c1'', tc_Name = ''echo'', tc_Arguments = ''{}'', tc_OperationID = ''op''\<rparr>"

definition sample_update :: update where
  "sample_update = \<lparr>up_Kind = UpdateOutput, up_ToolCallID = [], up_OperationID = [],
     up_Sequence = 0, up_Message = [], up_Data = [], up_Parts = [TextPart ''hi'']\<rparr>"

definition sample_driver :: "unit driver" where
  "sample_driver call = Emit sample_update (\<lambda>x. Ret (zero_result, None))"

definition quiet_sink :: "unit sink" where
  "quiet_sink u w = (w, Returned None)"

theorem tool_result_agrees_with_stream_witness:
  "tr_Parts (fst (case snd (run_prog quiet_sink (toolUpdateDriver True sample_driver sample_call) ())
      of Returned r \<Rightarrow> r)) = [TextPart ''hi'']"
proof -
  let ?p = "toolUpdateDriver True sample_driver sample_call"
  have 1: "\<exists>r. snd (run_prog quiet_sink ?p ()) = Returned (r, None)"
    and 2: "streamed_parts (emitted quiet_sink ?p ()) = [TextPart ''hi'']"
    by (simp_all add: toolUpdateDriver_def sample_driver_def new_update_state_def emit_admit_def
        sample_update_def validateUpdate_def maxToolUpdatesPerCall_def decodedUpdateBytes_def
        maxToolUpdateBytesPerCall_def part_bytes_def TextPart_def zero_part_def sample_call_def
        quiet_sink_def emit_delivered_def update_result_def finish_updates_def
        normalizeUpdatedResult_def Let_def zero_result_def)
  obtain r where r: "snd (run_prog quiet_sink ?p ()) = Returned (r, None)"
    using 1 by blast
  show ?thesis
    using tool_result_agrees_with_stream [OF r refl] 2 r by simp
qed

end
