(* ===== verification/Interceptors.thy ===== *)
theory Interceptors
  imports ToolUpdates
begin

text \<open>
  Tool interceptors: \<open>src/tool/interceptor.go\<close>.  An interceptor is a tree that can also call the
  next driver with a candidate call and a sink of its own (\<open>INext\<close>); it sees the outcome of that
  call, panics included, and may recover from them.  The guard counts the calls, compares the
  candidate with the call it was given and records a violation.  \<open>json.Marshal\<close> of a call is the
  argument \<open>fingerprint\<close>.  The lemmas show that the driver runs at most once, only with a call of the
  encoding and operation id of the call the interceptor was given, and that an interceptor which just
  passes on changes nothing.  A run of a tree ends when the interceptor returns, so the branch for a
  call of a kept \<open>next\<close> after that return (\<open>gs_closed\<close>) is written out but taken by no run here; it
  never calls the driver, and the bound on the calls rests on the counter alone.
\<close>

section \<open>Interceptor trees\<close>

datatype 'w iprog =
    IRet tool_return
  | ICrash bytes
  | IDo "'w \<Rightarrow> 'w \<times> 'w iprog"
  | IEmit update "go_err option outcome \<Rightarrow> 'w iprog"
  | INext tool_call "update \<Rightarrow> ('w, go_err option) prog" "tool_return outcome \<Rightarrow> 'w iprog"

type_synonym 'w interceptor = "tool_call \<Rightarrow> 'w iprog"

text \<open>Run a call with another sink.\<close>

primrec handle ::
  "(update \<Rightarrow> ('w, go_err option) prog) \<Rightarrow> ('w, 'r) prog \<Rightarrow> ('w, 'r) prog" where
  "handle h (Ret r) = Ret r"
| "handle h (Crash b) = Crash b"
| "handle h (Do f) = Do (\<lambda>w. map_prod id (handle h) (f w))"
| "handle h (Emit u k) = catch (h u) (\<lambda>x. handle h (k x))"

text \<open>The sink the interceptor was given, as a sink it can pass on.\<close>

definition same_sink :: "update \<Rightarrow> ('w, go_err option) prog" where
  "same_sink u = Emit u (\<lambda>x. case x of Returned e \<Rightarrow> Ret e | Panicked b \<Rightarrow> Crash b)"

section \<open>The guard\<close>

record guard =
  gs_calls :: nat
  gs_closed :: bool
  gs_violation :: "go_err option"

definition new_guard :: guard where
  "new_guard = \<lparr>gs_calls = 0, gs_closed = False, gs_violation = None\<rparr>"

text \<open>\<open>InterceptorProtocolError\<close> unwraps to the sentinel and its cause.\<close>

definition protocol_error :: "nat \<Rightarrow> go_err \<Rightarrow> go_err" where
  "protocol_error index e =
     GoErr (ErrText (''tool interceptor '' @ decimal index)) [sentinel ErrInterceptorProtocol, e]"

definition join2 :: "go_err \<Rightarrow> go_err \<Rightarrow> go_err" where
  "join2 e d = GoErr (ErrText []) [e, d]"

type_synonym fingerprint = "tool_call \<Rightarrow> go_err + bytes"

text \<open>A call of the guarded driver: refused, or the call that goes on.\<close>

definition guard_call ::
  "fingerprint \<Rightarrow> nat \<Rightarrow> tool_call \<Rightarrow> bytes \<Rightarrow> guard \<Rightarrow> tool_call \<Rightarrow> guard \<times> (tool_return + tool_call)" where
  "guard_call fingerprint index call expected g candidate =
     (if gs_closed g
        then (g, Inl (zero_result, Some (join2 (sentinel ErrNotExecuted)
               (protocol_error index (new_err ''next called after interceptor returned'')))))
      else let g1 = g\<lparr>gs_calls := gs_calls g + 1\<rparr> in
      if 1 < gs_calls g1
        then let failure = protocol_error index (new_err ''next called more than once'')
             in (g1\<lparr>gs_violation := Some failure\<rparr>, Inl (zero_result, Some failure))
      else if (case fingerprint candidate of Inl e \<Rightarrow> True | Inr f \<Rightarrow> f \<noteq> expected) \<or>
              tc_OperationID candidate \<noteq> tc_OperationID call
        then let cause = (case fingerprint candidate of Inl e \<Rightarrow> e
                 | Inr f \<Rightarrow> new_err ''call or operation ID was modified'');
                 failure = join2 (sentinel ErrNotExecuted) (protocol_error index cause)
             in (g1\<lparr>gs_violation := Some failure\<rparr>, Inl (zero_result, Some failure))
      else (g1, Inr candidate))"

primrec run_guarded ::
  "'w driver \<Rightarrow> (guard \<Rightarrow> tool_call \<Rightarrow> guard \<times> (tool_return + tool_call)) \<Rightarrow> 'w iprog \<Rightarrow> guard
     \<Rightarrow> ('w, guard \<times> tool_return outcome) prog" where
  "run_guarded next_driver check (IRet r) = (\<lambda>g. Ret (g, Returned r))"
| "run_guarded next_driver check (ICrash b) = (\<lambda>g. Ret (g, Panicked b))"
| "run_guarded next_driver check (IDo f) =
     (\<lambda>g. Do (\<lambda>w. map_prod id (\<lambda>h. h g) (map_prod id (run_guarded next_driver check) (f w))))"
| "run_guarded next_driver check (IEmit u k) =
     (\<lambda>g. Emit u (\<lambda>x. run_guarded next_driver check (k x) g))"
| "run_guarded next_driver check (INext candidate h k) =
     (\<lambda>g. case check g candidate of
        (g', Inl r) \<Rightarrow> run_guarded next_driver check (k (Returned r)) g'
      | (g', Inr c) \<Rightarrow> catch (handle h (next_driver c))
          (\<lambda>x. run_guarded next_driver check (k x) g'))"

text \<open>The deferred function: recover, report a violation, mark an error as not executed.\<close>

definition close_guard :: "nat \<Rightarrow> guard \<Rightarrow> tool_return outcome \<Rightarrow> tool_return" where
  "close_guard index g x = (case x of
       Panicked b \<Rightarrow> (zero_result, Some (protocol_error index
         (if gs_calls g = 0 then join2 (sentinel ErrNotExecuted) (new_err (''panic: '' @ b))
          else new_err (''panic: '' @ b))))
     | Returned (result, err) \<Rightarrow>
         (case gs_violation g of
            Some violation \<Rightarrow> (zero_result, errors_join [err, Some violation])
          | None \<Rightarrow> (case err of
                Some e \<Rightarrow> if gs_calls g = 0 \<and> \<not> errors_is ErrNotExecuted e
                  then (result, Some (join2 (sentinel ErrNotExecuted) e)) else (result, err)
              | None \<Rightarrow> (result, None))))"

definition wrapInterceptor ::
  "fingerprint \<Rightarrow> nat \<Rightarrow> 'w interceptor \<Rightarrow> 'w driver \<Rightarrow> 'w driver" where
  "wrapInterceptor fingerprint index interceptor next_driver call =
     (case fingerprint call of
        Inl e \<Rightarrow> Ret (zero_result, Some (protocol_error index e))
      | Inr expected \<Rightarrow>
          andThen (run_guarded next_driver (guard_call fingerprint index call expected)
                     (interceptor call) new_guard)
            (\<lambda>(g, x). Ret (close_guard index g x)))"

text \<open>\<open>ChainInterceptors\<close>: the loop from the innermost interceptor outwards; nil entries dropped.\<close>

fun chain_from :: "fingerprint \<Rightarrow> nat \<Rightarrow> 'w interceptor list \<Rightarrow> 'w driver \<Rightarrow> 'w driver" where
  "chain_from fingerprint index [] d = d"
| "chain_from fingerprint index (i # is) d =
     wrapInterceptor fingerprint index i (chain_from fingerprint (Suc index) is d)"

fun present :: "'a option list \<Rightarrow> 'a list" where
  "present [] = []"
| "present (None # xs) = present xs"
| "present (Some x # xs) = x # present xs"

definition ChainInterceptors ::
  "fingerprint \<Rightarrow> 'w interceptor option list \<Rightarrow> ('w driver \<Rightarrow> 'w driver) option" where
  "ChainInterceptors fingerprint is =
     (if present is = [] then None else Some (chain_from fingerprint 0 (present is)))"

section \<open>Lemmas\<close>

lemma iprog_induct [case_names IRet ICrash IDo IEmit INext]:
  assumes "\<And>r. P (IRet r)" "\<And>b. P (ICrash b)"
    and "\<And>f. (\<And>w w' p. f w = (w', p) \<Longrightarrow> P p) \<Longrightarrow> P (IDo f)"
    and "\<And>u k. (\<And>x. P (k x)) \<Longrightarrow> P (IEmit u k)"
    and "\<And>c h k. (\<And>x. P (k x)) \<Longrightarrow> P (INext c h k)"
  shows "P p"
proof (induction p)
  case (IDo f)
  have "P q" if "f w = (w', q)" for w w' q
    by (rule IDo [of "(w', q)"]) (use that in \<open>auto intro: range_eqI [of _ _ w]\<close>)
  then show ?case
    by (rule assms(3))
qed (use assms in auto)

lemma guarded_Do [simp]:
  "run_guarded d check (IDo f) g = Do (\<lambda>w. (fst (f w), run_guarded d check (snd (f w)) g))"
  "handle h (Do q) = Do (\<lambda>w. (fst (q w), handle h (snd (q w))))"
  by (simp_all add: map_prod_def case_prod_unfold)

declare run_guarded.simps(3) [simp del] handle.simps(3) [simp del]

lemma catch_same_sink: "catch (same_sink u) l = Emit u l"
  by (auto simp: same_sink_def fun_eq_iff split: outcome.splits)

lemma handle_same_sink [simp]: "handle same_sink p = p"
proof (induction p rule: prog_induct)
  case (Do f)
  have "handle same_sink (snd (f w)) = snd (f w)" for w
    by (rule Do [of w "fst (f w)"]) simp
  then show ?case
    by simp
qed (simp_all add: catch_same_sink)

text \<open>
  To state how often a driver runs, the world gets a log beside it.  \<open>lift_prog\<close> and \<open>lift_iprog\<close>
  are code that does not know of the log; \<open>logged\<close> is a driver that writes each call it executes.
\<close>

primrec lift_prog :: "('w, 'r) prog \<Rightarrow> ('l \<times> 'w, 'r) prog" where
  "lift_prog (Ret r) = Ret r"
| "lift_prog (Crash b) = Crash b"
| "lift_prog (Do f) = Do (\<lambda>(l, w). case map_prod id lift_prog (f w) of (w', p) \<Rightarrow> ((l, w'), p))"
| "lift_prog (Emit u k) = Emit u (\<lambda>x. lift_prog (k x))"

primrec lift_iprog :: "'w iprog \<Rightarrow> ('l \<times> 'w) iprog" where
  "lift_iprog (IRet r) = IRet r"
| "lift_iprog (ICrash b) = ICrash b"
| "lift_iprog (IDo f) = IDo (\<lambda>(l, w). case map_prod id lift_iprog (f w) of (w', p) \<Rightarrow> ((l, w'), p))"
| "lift_iprog (IEmit u k) = IEmit u (\<lambda>x. lift_iprog (k x))"
| "lift_iprog (INext c h k) = INext c (\<lambda>u. lift_prog (h u)) (\<lambda>x. lift_iprog (k x))"

definition lift_sink :: "'w sink \<Rightarrow> ('l \<times> 'w) sink" where
  "lift_sink s u lw = (case s u (snd lw) of (w', x) \<Rightarrow> ((fst lw, w'), x))"

definition logged :: "'w driver \<Rightarrow> (tool_call list \<times> 'w) driver" where
  "logged d call = Do (\<lambda>(l, w). ((l @ [call], w), lift_prog (d call)))"

lemma lift_simps [simp]:
  "lift_prog (Do f) = Do (\<lambda>x. ((fst x, fst (f (snd x))), lift_prog (snd (f (snd x)))))"
  "lift_iprog (IDo g) = IDo (\<lambda>x. ((fst x, fst (g (snd x))), lift_iprog (snd (g (snd x)))))"
  by (simp_all add: map_prod_def case_prod_unfold)

declare lift_prog.simps(3) [simp del] lift_iprog.simps(3) [simp del]

text \<open>A tree that logs at most \<open>n\<close> calls, all of them in \<open>Q\<close>, whatever the world and the sink do.\<close>

inductive logs :: "tool_call set \<Rightarrow> nat \<Rightarrow> (tool_call list \<times> 'w, 'r) prog \<Rightarrow> bool" for Q where
  logs_Ret: "logs Q n (Ret r)"
| logs_Crash: "logs Q n (Crash b)"
| logs_Do: "(\<And>lw. fst (fst (f lw)) = fst lw @ l lw \<and> set (l lw) \<subseteq> Q \<and>
     length (l lw) \<le> n \<and> logs Q (n - length (l lw)) (snd (f lw))) \<Longrightarrow> logs Q n (Do f)"
| logs_Emit: "(\<And>x. logs Q n (k x)) \<Longrightarrow> logs Q n (Emit u k)"

lemma logs_mono: "logs Q n p \<Longrightarrow> n \<le> m \<Longrightarrow> logs Q m p"
proof (induction arbitrary: m rule: logs.induct)
  case (logs_Do f l n)
  have "logs Q (m - length (l lw)) (snd (f lw))" for lw
    using logs_Do(1) [of lw] logs_Do(2) by (simp add: diff_le_mono)
  then show ?case
    using logs_Do by (intro logs.logs_Do [where l = l]) (meson le_trans)
qed (auto intro: logs.intros)

lemma logs_lift [simp]: "logs Q n (lift_prog p)"
proof (induction p rule: prog_induct)
  case (Do f)
  have "logs Q n (lift_prog (snd (f w)))" for w
    by (rule Do [of w "fst (f w)"]) simp
  then show ?case
    by (simp, intro logs_Do [where l = "\<lambda>lw. []"]) simp
qed (simp_all add: logs.intros)

lemma logs_catch: "logs Q n p \<Longrightarrow> (\<And>x. logs Q m (k x)) \<Longrightarrow> logs Q (n + m) (catch p k)"
proof (induction rule: logs.induct)
  case (logs_Do f l n)
  have "logs Q (n + m - length (l lw)) (catch (snd (f lw)) k)" for lw
    using logs_Do(1) [of lw] logs_Do(2) by (metis Nat.add_diff_assoc2)
  then show ?case
    using logs_Do(1) by (simp, intro logs.logs_Do [where l = l]) (auto intro: trans_le_add1)
next
  case (logs_Ret n r)
  then show ?case
    using logs_mono [of Q m "k (Returned r)" "n + m"] by simp
next
  case (logs_Crash n b)
  then show ?case
    using logs_mono [of Q m "k (Panicked b)" "n + m"] by simp
qed (auto intro: logs.intros)

lemma logs_handle: "logs Q n p \<Longrightarrow> logs Q n (handle (\<lambda>u. lift_prog (h u)) p)"
proof (induction rule: logs.induct)
  case (logs_Do f l n)
  then show ?case
    by (simp, intro logs.logs_Do [where l = l]) auto
next
  case (logs_Emit n k u)
  then show ?case
    using logs_catch [OF logs_lift [of Q 0]] by fastforce
qed (auto intro: logs.intros)

lemma logs_run:
  assumes "logs Q n p"
  shows "\<exists>l. fst (fst (run_prog (lift_sink s) p lw)) = fst lw @ l \<and> length l \<le> n \<and> set l \<subseteq> Q"
  using assms
proof (induction arbitrary: lw rule: logs.induct)
  case (logs_Do f l n)
  then obtain l' where "fst (fst (run_prog (lift_sink s) (snd (f lw)) (fst (f lw)))) =
      fst (fst (f lw)) @ l'" "length l' \<le> n - length (l lw)" "set l' \<subseteq> Q"
    by blast
  then show ?case
    using logs_Do(1) [of lw] by (intro exI [of _ "l lw @ l'"]) auto
next
  case (logs_Emit n k u)
  then show ?case
    by (auto simp: lift_sink_def split: prod.splits)
qed auto

lemma guard_call_passes:
  assumes "guard_call fingerprint index call expected g c = (g', Inr c')"
  shows "c' = c \<and> gs_calls g = 0 \<and> gs_calls g' = 1 \<and> fingerprint c = Inr expected \<and>
    tc_OperationID c = tc_OperationID call"
  using assms by (auto simp: guard_call_def Let_def split: if_splits sum.splits)

lemma guard_call_refuses:
  assumes "guard_call fingerprint index call expected g c = (g', Inl r)"
  shows "gs_closed g \<and> g' = g \<or> gs_calls g' = Suc (gs_calls g)"
  using assms by (auto simp: guard_call_def Let_def split: if_splits sum.splits)

text \<open>The calls that reach the driver behind a guard.\<close>

definition admissible :: "fingerprint \<Rightarrow> tool_call \<Rightarrow> tool_call set" where
  "admissible fingerprint call =
     {c. fingerprint c = fingerprint call \<and> tc_OperationID c = tc_OperationID call}"

lemma logs_guarded:
  assumes "fingerprint call = Inr expected" "\<And>c. c \<in> admissible fingerprint call \<Longrightarrow> logs Q 1 (d c)"
  shows "logs Q (if gs_calls g = 0 then 1 else 0)
      (run_guarded d (guard_call fingerprint index call expected) (lift_iprog p) g)"
proof (induction p arbitrary: g rule: iprog_induct)
  case (IDo f)
  have "logs Q (if gs_calls g = 0 then 1 else 0)
      (run_guarded d (guard_call fingerprint index call expected) (lift_iprog (snd (f w))) g)" for w
    by (rule IDo [of w "fst (f w)"]) simp
  then show ?case
    unfolding guarded_Do lift_simps
    by (intro logs_Do [where l = "\<lambda>lw. []"]) (simp only: append_Nil2 fst_conv snd_conv list.set
        list.size diff_zero empty_subsetI le0 simp_thms)
next
  case (IEmit u k)
  show ?case
    unfolding lift_iprog.simps run_guarded.simps by (intro logs_Emit) (rule IEmit)
next
  case (INext c h k)
  obtain g' r where r: "guard_call fingerprint index call expected g c = (g', r)"
    by force
  show ?case
  proof (cases r)
    case (Inl q)
    have "gs_calls g' = 0 \<longrightarrow> gs_calls g = 0"
      using guard_call_refuses [of fingerprint index call expected g c g' q] r Inl by auto
    then show ?thesis
      using INext [of g' "Returned q"] r Inl by (auto intro: logs_mono)
  next
    case (Inr c')
    then have p: "c' = c" "gs_calls g = 0" "gs_calls g' = 1" "c \<in> admissible fingerprint call"
      using guard_call_passes [of fingerprint index call expected g c g' c'] r assms(1)
      by (auto simp: admissible_def)
    have "logs Q (1 + 0) (catch (handle (\<lambda>u. lift_prog (h u)) (d c))
        (\<lambda>x. run_guarded d (guard_call fingerprint index call expected) (lift_iprog (k x)) g'))"
    proof (rule logs_catch)
      show "logs Q 1 (handle (\<lambda>u. lift_prog (h u)) (d c))"
        by (rule logs_handle [OF assms(2) [OF p(4)]])
      show "logs Q 0 (run_guarded d (guard_call fingerprint index call expected) (lift_iprog (k x)) g')"
        for x
        using INext [of g' x] p(3) by simp
    qed
    then show ?thesis
      using r Inr p by simp
  qed
qed (auto intro: logs.intros)

lemma logs_wrap:
  assumes "\<And>c. c \<in> admissible fingerprint call \<Longrightarrow> logs Q 1 (d c)"
  shows "logs Q 1 (wrapInterceptor fingerprint index (\<lambda>c. lift_iprog (i c)) d call)"
proof (cases "fingerprint call")
  case (Inr expected)
  have "logs Q (1 + 0) (catch (run_guarded d (guard_call fingerprint index call expected)
      (lift_iprog (i call)) new_guard)
      (\<lambda>x. case x of Returned r \<Rightarrow> (case r of (g, x) \<Rightarrow> Ret (close_guard index g x)) | Panicked b \<Rightarrow> Crash b))"
    by (rule logs_catch)
       (use logs_guarded [of fingerprint call expected Q d new_guard index "i call"] Inr assms in
         \<open>auto simp: new_guard_def intro: logs.intros split: outcome.splits prod.splits\<close>)
  then show ?thesis
    using Inr by (simp add: wrapInterceptor_def andThen_def)
qed (simp add: wrapInterceptor_def logs_Ret)

lemma logs_chain:
  "c \<in> admissible fingerprint call \<Longrightarrow>
   logs (admissible fingerprint call) 1
     (chain_from fingerprint index (map (\<lambda>i c. lift_iprog (i c)) is) (logged d) c)"
proof (induction "is" arbitrary: index c)
  case Nil
  then show ?case
    by (simp add: logged_def, intro logs_Do [where l = "\<lambda>lw. [c]"]) (simp add: case_prod_unfold)
next
  case (Cons i "is")
  have "admissible fingerprint c = admissible fingerprint call"
    using Cons.prems by (auto simp: admissible_def)
  then show ?case
    using Cons logs_wrap [of fingerprint c "admissible fingerprint call"
        "chain_from fingerprint (Suc index) (map (\<lambda>i c. lift_iprog (i c)) is) (logged d)" index i]
    by simp
qed

section \<open>Properties\<close>

text \<open>
  C9.  However interceptors are written and however many are chained, one execution runs the tool
  at most once, and only with a call whose JSON encoding (\<open>callFingerprint\<close>) and operation id are
  those of the call the model made.  The encoding is a parameter, so this is equality of encodings and
  not of calls: \<open>json.Marshal\<close> compacts the arguments, and a call with arguments spaced differently
  passes the guard.
\<close>

theorem interceptors_run_tool_at_most_once:
  "\<exists>executed.
     fst (fst (run_prog (lift_sink s)
       (chain_from fingerprint 0 (map (\<lambda>i c. lift_iprog (i c)) is) (logged d) call) (before, w))) =
         before @ executed \<and>
     length executed \<le> 1 \<and>
     (\<forall>c \<in> set executed. fingerprint c = fingerprint call \<and> tc_OperationID c = tc_OperationID call)"
  using logs_run [OF logs_chain [of call fingerprint call 0 "is" d], of s "(before, w)"]
  by (auto simp: admissible_def)

theorem interceptors_run_tool_at_most_once_witness:
  "length (fst (fst (run_prog (lift_sink quiet_sink)
      (chain_from (\<lambda>c. Inr (tc_Arguments c)) 0
         [\<lambda>c. lift_iprog (INext c same_sink (\<lambda>x. INext c same_sink (\<lambda>y. IRet (zero_result, None))))]
         (logged sample_driver) sample_call) ([], ())))) \<le> 1"
  using interceptors_run_tool_at_most_once [of quiet_sink "\<lambda>c. Inr (tc_Arguments c)"
      "[\<lambda>c. INext c same_sink (\<lambda>x. INext c same_sink (\<lambda>y. IRet (zero_result, None)))]"
      sample_driver sample_call "[]" "()"]
  by auto

text \<open>An interceptor that passes the call, the sink and the outcome on.\<close>

definition pass_through :: "'w interceptor" where
  "pass_through call = INext call same_sink
     (\<lambda>x. case x of Returned r \<Rightarrow> IRet r | Panicked b \<Rightarrow> ICrash b)"

text \<open>The outcome of a call as an interceptor that passes everything on returns it.\<close>

definition recovered :: "nat \<Rightarrow> tool_return outcome \<Rightarrow> tool_return" where
  "recovered index x = (case x of Returned r \<Rightarrow> r
     | Panicked b \<Rightarrow> (zero_result, Some (protocol_error index (new_err (''panic: '' @ b)))))"

text \<open>
  Interceptors that pass everything on are invisible: the chain behaves as the tool itself,
  with the same updates, the same world and the same result, except that a panic of the tool
  comes back as an interceptor protocol error that does not claim the tool was not executed.
\<close>

theorem pass_through_is_invisible:
  assumes "fingerprint call = Inr encoded"
  shows "chain_from fingerprint index (replicate n pass_through) d call =
    (if n = 0 then d call else catch (d call) (\<lambda>x. Ret (recovered (index + (n - 1)) x)))"
proof (induction n arbitrary: index)
  case (Suc n)
  have wrap: "chain_from fingerprint index (replicate (Suc n) pass_through) d call =
    catch (chain_from fingerprint (Suc index) (replicate n pass_through) d call)
      (\<lambda>x. Ret (recovered index x))"
    using assms
    by (simp add: wrapInterceptor_def pass_through_def guard_call_def new_guard_def andThen_def
        catch_assoc)
       (rule arg_cong [of _ _ "catch _"],
        auto simp: fun_eq_iff close_guard_def recovered_def split: outcome.splits option.splits)
  show ?case
    using wrap Suc.IH [of "Suc index"]
    by (cases n) (simp_all add: catch_assoc, simp add: recovered_def)
qed simp

theorem pass_through_is_invisible_witness:
  "chain_from (\<lambda>c. Inr (tc_Arguments c)) 0 [pass_through] sample_driver sample_call =
     Emit sample_update (\<lambda>x. Ret (zero_result, None))"
  using pass_through_is_invisible [of "\<lambda>c. Inr (tc_Arguments c)" sample_call "''{}''" 0 1 sample_driver]
  by (simp add: sample_driver_def sample_call_def recovered_def)

end
