(* ===== verification/ToolBus.thy ===== *)
theory ToolBus
  imports Interceptors "HOL-Library.List_Lexorder" "HOL-Library.Multiset"
begin

text \<open>
  The tool bus: \<open>src/tool/tool.go\<close>, registration and single execution; the size limit and the empty
  payload of \<open>src/tool/validation.go\<close>.  A Go map is an association list.  A limiter is its
  capacity; the permits in use belong to the world.  Parameters stand for the jsonschema package
  (\<open>compile\<close> gives a plan for a definition, a plan decodes and checks a payload), for
  \<open>Error()\<close> texts and the ranked hint for an unknown name, and for the context and the permits of
  a limiter.  The lemmas show that every way of making a bus keeps it consistent, what a lookup
  finds afterwards, and every branch of \<open>Execute\<close> up to the driver.
\<close>

section \<open>Definitions and plans\<close>

datatype concurrency_mode =
  ConcurrencyParallel | ConcurrencySequential | ConcurrencyExclusive | ConcurrencyOther bytes

datatype json_schema = JSONSchema
  (js_Type: bytes) (js_Description: bytes) (js_Properties: "(bytes \<times> json_schema) list")
  (js_Required: "bytes list") (js_Items: "json_schema option") (js_Enum: "bytes list")
  (js_AdditionalProperties: "bool option")

record tool_definition =
  td_Name :: bytes
  td_Description :: bytes
  td_InputSchema :: json_schema
  td_Terminal :: bool
  td_Timeout :: int
  td_Concurrency :: concurrency_mode
  td_ConcurrencyGroup :: bytes
  td_MaxConcurrency :: int

record argument_validation =
  av_schema :: "bytes \<Rightarrow> bytes option"
  av_err :: "go_err option"

definition maxArgumentBytes :: nat where "maxArgumentBytes = 2 ^ 20"
definition MaxToolNameBytes :: nat where "MaxToolNameBytes = 256"

definition validate_arguments :: "argument_validation \<Rightarrow> bytes \<Rightarrow> go_err option" where
  "validate_arguments validation arguments0 =
     (case av_err validation of Some e \<Rightarrow> Some e | None \<Rightarrow>
        let arguments = (if trim_space arguments0 = [] then ''{}'' else arguments0)
        in if maxArgumentBytes < length arguments
             then Some (wrap_err ''payload exceeds bytes'' (sentinel ErrInvalidArguments))
           else map_option (\<lambda>t. wrap_err t (sentinel ErrInvalidArguments))
             (av_schema validation arguments))"

text \<open>The limiter a definition asks for: its key, empty when unlimited, and its capacity.\<close>

definition concurrencySpec :: "tool_definition \<Rightarrow> go_err + bytes \<times> int" where
  "concurrencySpec d =
     (let mode = (if td_Concurrency d = ConcurrencyOther [] then ConcurrencyParallel
                  else td_Concurrency d);
          capacity = td_MaxConcurrency d;
          invalid = (\<lambda>t. Inl (wrap_err t (sentinel ErrInvalidToolDefinition)))
      in if capacity < 0 then invalid ''negative max concurrency''
      else case mode of
          ConcurrencyOther k \<Rightarrow> invalid (''concurrency mode '' @ k)
        | _ \<Rightarrow>
            if mode \<noteq> ConcurrencyParallel \<and> 1 < capacity
              then invalid ''mode requires max concurrency 0 or 1''
            else let capacity = (if mode = ConcurrencyParallel then capacity else 1)
            in if capacity = 0 then Inr ([], 0)
               else let group = trim_space (td_ConcurrencyGroup d)
                    in Inr (if group = [] then td_Name d else group, capacity))"

section \<open>The bus\<close>

record 'w tool =
  tl_Definition :: tool_definition
  tl_Execute :: "'w driver"

record 'w bus =
  bus_drivers :: "(bytes \<times> 'w tool) list"
  bus_definitions :: "(bytes \<times> tool_definition) list"
  bus_validations :: "(bytes \<times> argument_validation) list"
  bus_limiters :: "(bytes \<times> int) list"
  bus_err :: "go_err option"

definition empty_bus :: "'w bus" where
  "empty_bus = \<lparr>bus_drivers = [], bus_definitions = [], bus_validations = [], bus_limiters = [],
     bus_err = None\<rparr>"

text \<open>\<open>Register\<close>; a nil driver is \<open>None\<close>.\<close>

definition Register ::
  "(tool_definition \<Rightarrow> argument_validation) \<Rightarrow> 'w tool option \<Rightarrow> 'w bus \<Rightarrow> 'w bus \<times> go_err option" where
  "Register compile driver b =
     (case driver of
        None \<Rightarrow> (b, Some (wrap_err ''driver is nil'' (sentinel ErrInvalidToolDefinition)))
      | Some t \<Rightarrow>
        let d = tl_Definition t; name = td_Name d in
        if name = [] then (b, Some (wrap_err ''name is empty'' (sentinel ErrInvalidToolDefinition)))
        else if MaxToolNameBytes < length name
          then (b, Some (wrap_err ''name exceeds bytes'' (sentinel ErrInvalidToolDefinition)))
        else let validation = compile d in
        case av_err validation of Some e \<Rightarrow> (b, Some e) | None \<Rightarrow>
        case concurrencySpec d of Inl e \<Rightarrow> (b, Some e) | Inr (key, capacity) \<Rightarrow>
        if map_of (bus_drivers b) name \<noteq> None
          then (b, Some (wrap_err name (sentinel ErrDuplicateToolName)))
        else if key \<noteq> [] \<and> (case map_of (bus_limiters b) key of None \<Rightarrow> False | Some c \<Rightarrow> c \<noteq> capacity)
          then (b, Some (wrap_err (''concurrency group '' @ key) (sentinel ErrInvalidToolDefinition)))
        else (b\<lparr>bus_limiters := (if key \<noteq> [] \<and> map_of (bus_limiters b) key = None
                   then AList.update key capacity (bus_limiters b) else bus_limiters b),
                bus_drivers := AList.update name t (bus_drivers b),
                bus_definitions := AList.update name d (bus_definitions b),
                bus_validations := AList.update name validation (bus_validations b)\<rparr>, None))"

fun register_all ::
  "(tool_definition \<Rightarrow> argument_validation) \<Rightarrow> 'w tool option list \<Rightarrow> 'w bus \<Rightarrow> 'w bus" where
  "register_all compile [] b = b"
| "register_all compile (d # ds) b = (case Register compile d b of
       (b', None) \<Rightarrow> register_all compile ds b'
     | (b', Some e) \<Rightarrow> register_all compile ds (b'\<lparr>bus_err := errors_join [bus_err b', Some e]\<rparr>))"

definition NewBus where
  "NewBus compile drivers = register_all compile drivers empty_bus"

definition Definitions :: "'w bus \<Rightarrow> tool_definition list" where
  "Definitions b = sort_key td_Name (map snd (bus_definitions b))"

definition IsTerminal :: "'w bus \<Rightarrow> bytes \<Rightarrow> bool" where
  "IsTerminal b name = (case map_of (bus_definitions b) name of None \<Rightarrow> False | Some d \<Rightarrow> td_Terminal d)"

definition Bus_Driver :: "'w bus \<Rightarrow> bytes \<Rightarrow> 'w tool option" where
  "Bus_Driver b name = map_of (bus_drivers b) name"

definition isSequentialCall :: "'w bus \<Rightarrow> tool_call \<Rightarrow> bool" where
  "isSequentialCall b call = (case map_of (bus_definitions b) (tc_Name call) of None \<Rightarrow> False
     | Some d \<Rightarrow> td_Concurrency d = ConcurrencySequential)"

text \<open>\<open>MapDrivers\<close>: the loop over the source's drivers; a nil mapped driver is \<open>None\<close>.\<close>

fun map_drivers ::
  "(tool_definition \<Rightarrow> 'w tool \<Rightarrow> 'w tool option) \<Rightarrow> 'w bus \<Rightarrow> (bytes \<times> 'w tool) list \<Rightarrow> 'w bus \<Rightarrow> 'w bus" where
  "map_drivers mapper b [] c = c"
| "map_drivers mapper b ((name, driver) # ds) c =
     (case mapper (the (map_of (bus_definitions b) name)) driver of
        None \<Rightarrow> map_drivers mapper b ds
          (c\<lparr>bus_err := errors_join [bus_err c, Some (wrap_err (''mapped driver is nil: '' @ name)
             (sentinel ErrInvalidToolDefinition))]\<rparr>)
      | Some t \<Rightarrow>
          if td_Name (tl_Definition t) \<noteq> name
            then map_drivers mapper b ds
              (c\<lparr>bus_err := errors_join [bus_err c, Some (wrap_err (''mapped driver renamed: '' @ name)
                 (sentinel ErrInvalidToolDefinition))]\<rparr>)
          else map_drivers mapper b ds (c\<lparr>bus_drivers := AList.update name t (bus_drivers c)\<rparr>))"

definition MapDrivers where
  "MapDrivers mapper b = map_drivers mapper b (bus_drivers b) b"

text \<open>\<open>Subset\<close>: the loop over the names.\<close>

fun subset_loop :: "'w bus \<Rightarrow> bytes list \<Rightarrow> bytes list \<Rightarrow> 'w bus \<Rightarrow> 'w bus" where
  "subset_loop b seen [] c = c"
| "subset_loop b seen (name # names) c =
     (if name \<in> set seen
        then subset_loop b seen names
          (c\<lparr>bus_err := errors_join [bus_err c, Some (wrap_err name (sentinel ErrDuplicateToolName))]\<rparr>)
      else case map_of (bus_drivers b) name of
          None \<Rightarrow> subset_loop b (name # seen) names c
        | Some t \<Rightarrow> subset_loop b (name # seen) names
            (c\<lparr>bus_drivers := AList.update name t (bus_drivers c),
              bus_definitions := AList.update name (the (map_of (bus_definitions b) name)) (bus_definitions c),
              bus_validations := AList.update name (the (map_of (bus_validations b) name)) (bus_validations c)\<rparr>))"

definition Subset :: "bytes list \<Rightarrow> 'w bus \<Rightarrow> 'w bus" where
  "Subset names b =
     (if names = [] then empty_bus
      else subset_loop b [] names
        \<lparr>bus_drivers = [], bus_definitions = [], bus_validations = [],
         bus_limiters = bus_limiters b, bus_err = bus_err b\<rparr>)"

section \<open>Execution\<close>

text \<open>What an execution uses of its surroundings.\<close>

record 'w tool_env =
  te_ctx_err :: "'w \<Rightarrow> go_err option"
  te_acquire :: "bytes \<Rightarrow> 'w \<Rightarrow> 'w \<times> go_err option"
  te_release :: "bytes \<Rightarrow> 'w \<Rightarrow> 'w"
  te_error_text :: "go_err \<Rightarrow> bytes"
  te_hint :: "'w bus \<Rightarrow> bytes \<Rightarrow> bytes"
  te_fingerprint :: fingerprint

definition rune_start :: "char \<Rightarrow> bool" where
  "rune_start c \<longleftrightarrow> \<not> (CHR 0x80 \<le> c \<and> c \<le> CHR 0xBF)"

text \<open>The cut of an over-long label at a rune start, searched downwards.\<close>

fun rune_cut :: "bytes \<Rightarrow> nat \<Rightarrow> nat" where
  "rune_cut s 0 = 0"
| "rune_cut s (Suc n) = (if rune_start (s ! Suc n) then Suc n else rune_cut s n)"

definition rejectedCall :: "tool_call \<Rightarrow> bytes \<Rightarrow> tool_result" where
  "rejectedCall call reason =
     (let label = (if MaxToolNameBytes < length (tc_Name call)
          then take (rune_cut (tc_Name call) MaxToolNameBytes) (tc_Name call) @ ''...''
          else tc_Name call)
      in result_SyncLegacyContent (zero_result\<lparr>tr_ToolCallID := tc_ID call, tr_Name := tc_Name call,
           tr_Content := label @ '' rejected: '' @ reason, tr_IsError := True\<rparr>))"

abbreviation refuse :: "go_err \<Rightarrow> tool_return" where
  "refuse e \<equiv> (zero_result, Some e)"

definition not_executed :: "go_err \<Rightarrow> go_err" where
  "not_executed e = join2 (sentinel ErrNotExecuted) e"

text \<open>\<open>Execute\<close> up to the limiter: a finished result, or the limiter's key and the guarded driver.\<close>

definition prepare_call ::
  "'w tool_env \<Rightarrow> 'w bus \<Rightarrow> bool \<Rightarrow> 'w interceptor option \<Rightarrow> tool_call \<Rightarrow> 'w
     \<Rightarrow> tool_return + (bytes option \<times> ('w, tool_return) prog)" where
  "prepare_call env b has_sink interceptor call w =
     (case bus_err b of Some e \<Rightarrow> Inl (refuse e) | None \<Rightarrow>
      case te_ctx_err env w of Some e \<Rightarrow> Inl (refuse (not_executed e)) | None \<Rightarrow>
      if MaxToolNameBytes < length (tc_Name call)
        then Inl (rejectedCall call (''tool name exceeds 256 bytes''), None)
      else case map_of (bus_drivers b) (tc_Name call) of
        None \<Rightarrow> Inl (rejectedCall call (''tool not found: '' @ tc_Name call @
                ''; choose an available tool ('' @ te_hint env b (tc_Name call) @ '')''), None)
      | Some tool \<Rightarrow>
        let validation = the (map_of (bus_validations b) (tc_Name call));
            key = (case concurrencySpec (the (map_of (bus_definitions b) (tc_Name call))) of
                Inl e \<Rightarrow> [] | Inr (k, c) \<Rightarrow> k)
        in case av_err validation of Some e \<Rightarrow> Inl (refuse e) | None \<Rightarrow>
        case validate_arguments validation (tc_Arguments call) of
          Some e \<Rightarrow> Inl (rejectedCall call (te_error_text env e), None)
        | None \<Rightarrow>
          let terminal = toolUpdateDriver has_sink (tl_Execute tool)
          in Inr (if map_of (bus_limiters b) key = None then None else Some key,
                  case ChainInterceptors (te_fingerprint env) [interceptor] of
                    None \<Rightarrow> terminal call
                  | Some chain \<Rightarrow> chain terminal call))"

text \<open>The permit is released when the driver returns or panics.\<close>

definition holding :: "'w tool_env \<Rightarrow> bytes \<Rightarrow> ('w, 'r) prog \<Rightarrow> ('w, 'r) prog" where
  "holding env key p = catch p (\<lambda>x. Do (\<lambda>w. (te_release env key w,
     case x of Returned r \<Rightarrow> Ret r | Panicked b \<Rightarrow> Crash b)))"

definition Bus_Execute ::
  "'w tool_env \<Rightarrow> 'w bus \<Rightarrow> bool \<Rightarrow> 'w interceptor option \<Rightarrow> 'w driver" where
  "Bus_Execute env b has_sink interceptor call =
     observe (\<lambda>w. prepare_call env b has_sink interceptor call w)
       (\<lambda>x. case x of
          Inl r \<Rightarrow> Ret r
        | Inr (None, p) \<Rightarrow> p
        | Inr (Some key, p) \<Rightarrow> Do (\<lambda>w. case te_acquire env key w of
              (w', Some e) \<Rightarrow> (w', Ret (refuse (not_executed e)))
            | (w', None) \<Rightarrow> (w', holding env key p)))"

section \<open>Consistency\<close>

definition definition_ok :: "(bytes \<times> int) list \<Rightarrow> bytes \<Rightarrow> tool_definition \<Rightarrow> bool" where
  "definition_ok limiters name d \<longleftrightarrow>
     td_Name d = name \<and> name \<noteq> [] \<and> length name \<le> MaxToolNameBytes \<and>
     (\<exists>key capacity. concurrencySpec d = Inr (key, capacity) \<and>
        (key \<noteq> [] \<longrightarrow> map_of limiters key = Some capacity))"

definition limiters_ok :: "(bytes \<times> int) list \<Rightarrow> bool" where
  "limiters_ok limiters \<longleftrightarrow> (\<forall>key capacity. map_of limiters key = Some capacity \<longrightarrow> key \<noteq> [] \<and> 1 \<le> capacity)"

definition bus_ok :: "'w bus \<Rightarrow> bool" where
  "bus_ok b \<longleftrightarrow>
     distinct (map fst (bus_drivers b)) \<and> distinct (map fst (bus_definitions b)) \<and>
     dom (map_of (bus_drivers b)) = dom (map_of (bus_definitions b)) \<and>
     dom (map_of (bus_validations b)) = dom (map_of (bus_definitions b)) \<and>
     (\<forall>name d. map_of (bus_definitions b) name = Some d \<longrightarrow> definition_ok (bus_limiters b) name d) \<and>
     (\<forall>name t. map_of (bus_drivers b) name = Some t \<longrightarrow> td_Name (tl_Definition t) = name) \<and>
     (\<forall>name v. map_of (bus_validations b) name = Some v \<longrightarrow> av_err v = None) \<and>
     limiters_ok (bus_limiters b)"

lemma bus_okD:
  assumes "bus_ok b"
  shows "map_of (bus_definitions b) name = Some d \<Longrightarrow> definition_ok (bus_limiters b) name d"
    and "map_of (bus_drivers b) name = Some t \<Longrightarrow> td_Name (tl_Definition t) = name"
    and "map_of (bus_validations b) name = Some v \<Longrightarrow> av_err v = None"
    and "(map_of (bus_drivers b) name = None) = (map_of (bus_definitions b) name = None)"
    and "(map_of (bus_validations b) name = None) = (map_of (bus_definitions b) name = None)"
  using assms unfolding bus_ok_def by (blast, blast, blast, metis domIff, metis domIff)

lemma bus_ok_empty [simp]: "bus_ok empty_bus"
  by (simp add: bus_ok_def empty_bus_def limiters_ok_def)

lemma bus_ok_err [simp]: "bus_ok (b\<lparr>bus_err := e\<rparr>) = bus_ok b"
  by (simp add: bus_ok_def)

lemma concurrencySpec_capacity:
  assumes "concurrencySpec d = Inr (key, capacity)" "key \<noteq> []"
  shows "1 \<le> capacity"
  using assms
  by (auto simp: concurrencySpec_def Let_def split: if_splits concurrency_mode.splits)

lemma Register_refused: "Register compile driver b = (b', Some e) \<Longrightarrow> b' = b"
  by (auto simp: Register_def Let_def split: option.splits sum.splits if_splits prod.splits)

text \<open>What an accepted registration establishes.\<close>

lemma Register_accepted:
  assumes "Register compile driver b = (b', None)"
  obtains t key capacity where "driver = Some t" "td_Name (tl_Definition t) \<noteq> []"
    "length (td_Name (tl_Definition t)) \<le> MaxToolNameBytes" "av_err (compile (tl_Definition t)) = None"
    "concurrencySpec (tl_Definition t) = Inr (key, capacity)"
    "map_of (bus_drivers b) (td_Name (tl_Definition t)) = None"
    "key \<noteq> [] \<Longrightarrow> map_of (bus_limiters b) key \<in> {None, Some capacity}"
    "b' = b\<lparr>bus_limiters := (if key \<noteq> [] \<and> map_of (bus_limiters b) key = None
              then AList.update key capacity (bus_limiters b) else bus_limiters b),
           bus_drivers := AList.update (td_Name (tl_Definition t)) t (bus_drivers b),
           bus_definitions := AList.update (td_Name (tl_Definition t)) (tl_Definition t) (bus_definitions b),
           bus_validations := AList.update (td_Name (tl_Definition t)) (compile (tl_Definition t))
             (bus_validations b)\<rparr>"
proof (cases driver)
  case (Some t)
  obtain key capacity where "concurrencySpec (tl_Definition t) = Inr (key, capacity)"
    using assms Some by (auto simp: Register_def Let_def split: option.splits sum.splits if_splits)
  then show ?thesis
    by (rule_tac t = t and key = key and capacity = capacity in that)
       (use assms Some in \<open>auto simp: Register_def Let_def not_less
          split: option.splits if_splits\<close>)
qed (use assms in \<open>simp add: Register_def\<close>)

lemma definition_ok_mono:
  "definition_ok ls name d \<Longrightarrow> (\<And>k c. map_of ls k = Some c \<Longrightarrow> map_of ls' k = Some c) \<Longrightarrow>
     definition_ok ls' name d"
  unfolding definition_ok_def by blast

lemma dom_update: "dom (map_of (AList.update k v xs)) = insert k (dom (map_of xs))"
  by (simp add: update_conv')

lemma bus_ok_insert:
  assumes "bus_ok b" "definition_ok ls name d" "td_Name (tl_Definition t) = name" "av_err v = None"
    and "limiters_ok ls" "\<And>k c. map_of (bus_limiters b) k = Some c \<Longrightarrow> map_of ls k = Some c"
  shows "bus_ok (b\<lparr>bus_limiters := ls, bus_drivers := AList.update name t (bus_drivers b),
    bus_definitions := AList.update name d (bus_definitions b),
    bus_validations := AList.update name v (bus_validations b)\<rparr>)"
  unfolding bus_ok_def
proof (intro conjI allI impI)
  fix n e
  assume "map_of (bus_definitions (b\<lparr>bus_limiters := ls, bus_drivers := AList.update name t (bus_drivers b),
    bus_definitions := AList.update name d (bus_definitions b),
    bus_validations := AList.update name v (bus_validations b)\<rparr>)) n = Some e"
  then show "definition_ok (bus_limiters (b\<lparr>bus_limiters := ls,
      bus_drivers := AList.update name t (bus_drivers b),
      bus_definitions := AList.update name d (bus_definitions b),
      bus_validations := AList.update name v (bus_validations b)\<rparr>)) n e"
    using assms bus_okD(1) [OF assms(1), of n e] definition_ok_mono [of "bus_limiters b" n e ls]
    by (auto simp: update_conv' split: if_splits)
qed (use assms in \<open>auto simp: bus_ok_def update_conv' dom_update distinct_update split: if_splits\<close>)

lemma bus_ok_Register:
  fixes b :: "'w bus"
  shows "bus_ok b \<Longrightarrow> bus_ok (fst (Register compile driver b))"
proof (cases "snd (Register compile driver b)")
  case None
  assume ok: "bus_ok b"
  have "Register compile driver b = (fst (Register compile driver b), None)"
    using None by (metis prod.collapse)
  then show ?thesis
  proof (rule Register_accepted)
    fix t :: "'w tool" and key capacity
    let ?ls = "if key \<noteq> [] \<and> map_of (bus_limiters b) key = None
      then AList.update key capacity (bus_limiters b) else bus_limiters b"
    let ?name = "td_Name (tl_Definition t)"
    assume r: "?name \<noteq> []" "length ?name \<le> MaxToolNameBytes" "av_err (compile (tl_Definition t)) = None"
      "concurrencySpec (tl_Definition t) = Inr (key, capacity)"
      and k: "key \<noteq> [] \<Longrightarrow> map_of (bus_limiters b) key \<in> {None, Some capacity}"
      and b': "fst (Register compile driver b) = b\<lparr>bus_limiters := ?ls,
           bus_drivers := AList.update ?name t (bus_drivers b),
           bus_definitions := AList.update ?name (tl_Definition t) (bus_definitions b),
           bus_validations := AList.update ?name (compile (tl_Definition t)) (bus_validations b)\<rparr>"
    have "limiters_ok ?ls"
      using ok concurrencySpec_capacity [OF r(4)] by (auto simp: bus_ok_def limiters_ok_def update_conv')
    moreover have "definition_ok ?ls ?name (tl_Definition t)"
      using r k by (auto simp: definition_ok_def update_conv')
    moreover have "map_of ?ls k = Some c" if "map_of (bus_limiters b) k = Some c" for k c
      using that by (auto simp: update_conv')
    ultimately show ?thesis
      unfolding b' using ok r(3) by (intro bus_ok_insert) simp_all
  qed
next
  case (Some e)
  assume "bus_ok b"
  then show ?thesis
    using Register_refused [of compile driver b "fst (Register compile driver b)" e] Some
    by (metis prod.collapse)
qed

lemma bus_ok_register_all: "bus_ok b \<Longrightarrow> bus_ok (register_all compile ds b)"
proof (induction compile ds b rule: register_all.induct)
  case (2 compile d ds b)
  then show ?case
    using bus_ok_Register [of b compile d] by (auto split: prod.splits option.splits)
qed simp

lemma map_drivers_ok:
  assumes "bus_ok c" "fst ` set ds \<subseteq> dom (map_of (bus_drivers c))"
  shows "bus_ok (map_drivers mapper b ds c) \<and>
    bus_definitions (map_drivers mapper b ds c) = bus_definitions c \<and>
    bus_validations (map_drivers mapper b ds c) = bus_validations c \<and>
    bus_limiters (map_drivers mapper b ds c) = bus_limiters c"
  using assms
proof (induction mapper b ds c rule: map_drivers.induct)
  case (2 mapper b name driver ds c)
  show ?case
  proof (cases "mapper (the (map_of (bus_definitions b) name)) driver")
    case None
    then show ?thesis
      using 2 by auto
  next
    case (Some t)
    show ?thesis
    proof (cases "td_Name (tl_Definition t) = name")
      case True
      let ?c = "c\<lparr>bus_drivers := AList.update name t (bus_drivers c)\<rparr>"
      have d: "dom (map_of (bus_drivers ?c)) = dom (map_of (bus_drivers c))"
        using 2(5) by (auto simp: dom_update)
      have "bus_ok ?c"
        using 2(4) d True by (auto simp: bus_ok_def distinct_update update_conv' split: if_splits)
      then show ?thesis
        using 2(3) [OF Some] 2(5) True Some d by simp
    qed (use 2 Some in auto)
  qed
qed simp

lemma MapDrivers_ok:
  assumes "bus_ok b"
  shows "bus_ok (MapDrivers mapper b) \<and> bus_definitions (MapDrivers mapper b) = bus_definitions b \<and>
    bus_validations (MapDrivers mapper b) = bus_validations b \<and>
    bus_limiters (MapDrivers mapper b) = bus_limiters b"
  using map_drivers_ok [OF assms, of "bus_drivers b" mapper b]
  by (simp add: MapDrivers_def dom_map_of_conv_image_fst)

lemma subset_loop_ok:
  assumes "bus_ok b" "bus_ok c" "bus_limiters c = bus_limiters b"
    and "\<And>n. map_of (bus_drivers c) n = (if n \<in> set seen then map_of (bus_drivers b) n else None)"
  shows "bus_ok (subset_loop b seen names c) \<and>
    bus_limiters (subset_loop b seen names c) = bus_limiters b \<and>
    (\<forall>n. map_of (bus_drivers (subset_loop b seen names c)) n =
      (if n \<in> set seen \<or> n \<in> set names then map_of (bus_drivers b) n else None))"
  using assms
proof (induction b seen names c rule: subset_loop.induct)
  case (2 b seen name names c)
  show ?case
  proof (cases "name \<in> set seen")
    case True
    then show ?thesis
      using 2(1) [OF True] 2(4-7) by auto
  next
    case False
    show ?thesis
    proof (cases "map_of (bus_drivers b) name")
      case None
      show ?thesis
        using 2(2) [OF False None] 2(4-7) False None by (auto split: if_splits)
    next
      case (Some t)
      obtain d v where dv: "map_of (bus_definitions b) name = Some d"
        "map_of (bus_validations b) name = Some v"
        using bus_okD(4,5) [OF 2(4), of name] Some by auto
      let ?c = "c\<lparr>bus_drivers := AList.update name t (bus_drivers c),
        bus_definitions := AList.update name d (bus_definitions c),
        bus_validations := AList.update name v (bus_validations c)\<rparr>"
      have "bus_ok (c\<lparr>bus_limiters := bus_limiters b,
        bus_drivers := AList.update name t (bus_drivers c),
        bus_definitions := AList.update name d (bus_definitions c),
        bus_validations := AList.update name v (bus_validations c)\<rparr>)"
        using bus_okD [OF 2(4)] dv Some 2(4,6)
        by (intro bus_ok_insert [OF 2(5)]) (auto simp: bus_ok_def)
      moreover have "c\<lparr>bus_limiters := bus_limiters b\<rparr> = c"
        using 2(6) by simp
      ultimately have "bus_ok ?c"
        by metis
      then show ?thesis
        using 2(3) [OF False Some] 2(4-7) dv Some False by (auto simp: update_conv' split: if_splits)
    qed
  qed
qed simp

lemma Subset_ok:
  assumes "bus_ok b"
  shows "bus_ok (Subset names b) \<and>
    map_of (bus_drivers (Subset names b)) n = (if n \<in> set names then map_of (bus_drivers b) n else None)"
proof (cases "names = []")
  case False
  let ?c = "\<lparr>bus_drivers = [], bus_definitions = [], bus_validations = [],
    bus_limiters = bus_limiters b, bus_err = bus_err b\<rparr>"
  have "bus_ok ?c"
    using assms by (simp add: bus_ok_def)
  then show ?thesis
    using subset_loop_ok [OF assms, of ?c "[]" names] False by (auto simp: Subset_def)
qed (simp add: Subset_def empty_bus_def [symmetric], simp add: empty_bus_def)

section \<open>The registration contract\<close>

text \<open>A sequence of insertions all of which were accepted.\<close>

inductive accepted :: "('e \<Rightarrow> 's \<Rightarrow> 's \<times> 'x option) \<Rightarrow> 's \<Rightarrow> 'e list \<Rightarrow> 's \<Rightarrow> bool" for add where
  accepted_Nil: "accepted add s [] s"
| accepted_Cons: "add e s = (t, None) \<Longrightarrow> accepted add t es u \<Longrightarrow> accepted add s (e # es) u"

text \<open>What a client relies on: an insertion is visible, and is refused for a name that is taken.\<close>

locale registry =
  fixes add :: "'e \<Rightarrow> 's \<Rightarrow> 's \<times> 'x option"
    and find :: "'s \<Rightarrow> 'n \<Rightarrow> 'e option"
    and key :: "'e \<Rightarrow> 'n"
  assumes added: "add e s = (t, None) \<Longrightarrow>
      find s (key e) = None \<and> find t n = (if n = key e then Some e else find s n)"
begin

lemma accepted_find:
  "accepted add s es t \<Longrightarrow>
     distinct (map key es) \<and> (\<forall>e \<in> set es. find s (key e) = None \<and> find t (key e) = Some e) \<and>
     (\<forall>n. n \<notin> key ` set es \<longrightarrow> find t n = find s n)"
proof (induction rule: accepted.induct)
  case (accepted_Cons e s t es u)
  note a = added [OF accepted_Cons(1)]
  have "key e \<notin> key ` set es"
    using a [of "key e"] accepted_Cons.IH by auto
  moreover have "find s (key x) = None" if "x \<in> set es" for x
    using that a [of "key x"] accepted_Cons.IH \<open>key e \<notin> key ` set es\<close> by (auto split: if_splits)
  ultimately show ?case
    using a accepted_Cons.IH by auto
qed simp

end

interpretation bus_registry: registry "\<lambda>t. Register compile (Some t)" Bus_Driver
  "\<lambda>t. td_Name (tl_Definition t)"
proof
  fix e t :: "'a tool" and s t' :: "'a bus" and n
  assume "Register compile (Some e) s = (t', None)"
  then show "Bus_Driver s (td_Name (tl_Definition e)) = None \<and>
    Bus_Driver t' n = (if n = td_Name (tl_Definition e) then Some e else Bus_Driver s n)"
    by (rule Register_accepted) (auto simp: Bus_Driver_def update_conv')
qed

lemma register_all_err: "bus_err b \<noteq> None \<Longrightarrow> bus_err (register_all compile ds b) \<noteq> None"
proof (induction compile ds b rule: register_all.induct)
  case (2 compile d ds b)
  show ?case
  proof (cases "Register compile d b")
    case (Pair b' e)
    show ?thesis
    proof (cases e)
      case None
      then have "bus_err b' = bus_err b"
        using Pair by (auto elim!: Register_accepted)
      then show ?thesis
        using 2(1) [of b' e] 2(3) Pair None by simp
    next
      case (Some x)
      have "bus_err (b'\<lparr>bus_err := errors_join [bus_err b', Some x]\<rparr>) \<noteq> None"
        by simp
      then show ?thesis
        using 2(2) [of b' e x] Pair Some by (simp del: not_None_eq)
    qed
  qed
qed simp

lemma register_all_accepted:
  assumes "bus_err (register_all compile ds b) = None"
  shows "\<exists>ts. ds = map Some ts \<and> accepted (\<lambda>t. Register compile (Some t)) b ts (register_all compile ds b)"
  using assms
proof (induction ds arbitrary: b)
  case (Cons d ds)
  obtain b' e where r: "Register compile d b = (b', e)"
    by force
  have e: "e = None"
  proof (cases e)
    case (Some x)
    have "bus_err (b'\<lparr>bus_err := errors_join [bus_err b', Some x]\<rparr>) \<noteq> None"
      by simp
    then show ?thesis
      using register_all_err [of "b'\<lparr>bus_err := errors_join [bus_err b', Some x]\<rparr>" compile ds]
        Cons.prems r Some by simp
  qed
  then obtain ts where ts: "ds = map Some ts"
    "accepted (\<lambda>t. Register compile (Some t)) b' ts (register_all compile ds b')"
    using Cons.IH [of b'] Cons.prems r by auto
  obtain t where "d = Some t"
    using r e by (auto elim!: Register_accepted)
  then show ?case
    using r e ts by (intro exI [of _ "t # ts"]) (auto intro: accepted.intros)
qed (auto intro: accepted.intros)

section \<open>Samples\<close>

definition echo_definition :: tool_definition where
  "echo_definition = \<lparr>td_Name = ''echo'', td_Description = [],
     td_InputSchema = JSONSchema [] [] [] [] None [] None, td_Terminal = False, td_Timeout = 0,
     td_Concurrency = ConcurrencyExclusive, td_ConcurrencyGroup = [], td_MaxConcurrency = 0\<rparr>"

definition echo_tool :: "unit tool" where
  "echo_tool = \<lparr>tl_Definition = echo_definition, tl_Execute = sample_driver\<rparr>"

definition any_arguments :: "tool_definition \<Rightarrow> argument_validation" where
  "any_arguments d = \<lparr>av_schema = (\<lambda>a. if a = ''{}'' then None else Some ''not {}''), av_err = None\<rparr>"

definition echo_bus :: "unit bus" where
  "echo_bus = NewBus any_arguments [Some echo_tool]"

definition quiet_env :: "unit tool_env" where
  "quiet_env = \<lparr>te_ctx_err = (\<lambda>w. None), te_acquire = (\<lambda>k w. (w, None)), te_release = (\<lambda>k w. w),
     te_error_text = (\<lambda>e. ''invalid arguments''), te_hint = (\<lambda>b n. ''none''),
     te_fingerprint = (\<lambda>c. Inr (tc_Arguments c))\<rparr>"

lemma echo_bus_eq:
  "echo_bus = \<lparr>bus_drivers = [(''echo'', echo_tool)], bus_definitions = [(''echo'', echo_definition)],
     bus_validations = [(''echo'', any_arguments echo_definition)], bus_limiters = [(''echo'', 1)],
     bus_err = None\<rparr>"
  by (simp add: echo_bus_def NewBus_def empty_bus_def Register_def Let_def echo_tool_def
      echo_definition_def MaxToolNameBytes_def any_arguments_def concurrencySpec_def)

lemma echo_bus_ok: "bus_ok echo_bus"
  unfolding echo_bus_def NewBus_def by (rule bus_ok_register_all) simp

section \<open>Properties\<close>

text \<open>
  A bus built without a registration error contains exactly what was registered: no driver
  was nil, the names are distinct, and each name finds its own driver.
\<close>

theorem new_bus_complete:
  assumes "bus_err (NewBus compile ds) = None"
  shows "\<exists>ts. ds = map Some ts \<and> distinct (map (\<lambda>t. td_Name (tl_Definition t)) ts) \<and>
    (\<forall>name. Bus_Driver (NewBus compile ds) name =
       map_of (map (\<lambda>t. (td_Name (tl_Definition t), t)) ts) name)"
proof -
  obtain ts where ts: "ds = map Some ts"
    "accepted (\<lambda>t. Register compile (Some t)) empty_bus ts (NewBus compile ds)"
    using assms register_all_accepted [of compile ds empty_bus] by (auto simp: NewBus_def)
  note f = bus_registry.accepted_find [OF ts(2)]
  have "Bus_Driver (NewBus compile ds) name =
      map_of (map (\<lambda>t. (td_Name (tl_Definition t), t)) ts) name" for name
  proof (cases "map_of (map (\<lambda>t. (td_Name (tl_Definition t), t)) ts) name")
    case None
    then have "name \<notin> (\<lambda>t. td_Name (tl_Definition t)) ` set ts"
      by (simp add: map_of_eq_None_iff image_image)
    then have "Bus_Driver (NewBus compile ds) name = None"
      using f by (simp add: Bus_Driver_def empty_bus_def)
    then show ?thesis
      using None by simp
  next
    case (Some t)
    then show ?thesis
      using f by (auto dest!: map_of_SomeD)
  qed
  then show ?thesis
    using ts(1) f by blast
qed

theorem new_bus_complete_witness:
  "Bus_Driver (NewBus any_arguments [Some echo_tool]) ''echo'' = Some echo_tool"
proof -
  have "bus_err (NewBus any_arguments [Some echo_tool]) = None"
    using echo_bus_eq by (simp add: echo_bus_def)
  from new_bus_complete [OF this] show ?thesis
    by (auto simp: echo_tool_def echo_definition_def)
qed

text \<open>
  Every bus the package makes is consistent, and derived buses keep the source's policy:
  wrapping drivers changes no definition, argument check or limiter, and a subset dispatches
  exactly the named drivers, under the same limiters.
\<close>

theorem derived_buses_keep_policy:
  assumes "bus_ok b"
  shows "bus_ok (MapDrivers mapper b) \<and> bus_definitions (MapDrivers mapper b) = bus_definitions b \<and>
    bus_validations (MapDrivers mapper b) = bus_validations b \<and>
    bus_limiters (MapDrivers mapper b) = bus_limiters b \<and>
    bus_ok (Subset names b) \<and>
    Bus_Driver (Subset names b) name = (if name \<in> set names then Bus_Driver b name else None)"
  using MapDrivers_ok [OF assms, of mapper] Subset_ok [OF assms, of names name]
  by (simp add: Bus_Driver_def)

theorem derived_buses_keep_policy_witness:
  "bus_limiters (MapDrivers (\<lambda>d t. None) echo_bus) = [(''echo'', 1)] \<and>
   Bus_Driver (Subset [''echo'', ''other''] echo_bus) ''echo'' = Some echo_tool"
  using derived_buses_keep_policy [OF echo_bus_ok, of "\<lambda>d t. None" "[''echo'', ''other'']" "''echo''"]
  by (simp add: echo_bus_eq Bus_Driver_def)

text \<open>
  The definitions shown to a model are the registered ones in strictly increasing order of
  name, whatever order the map is iterated in.
\<close>

theorem definitions_sorted:
  assumes "bus_ok b" "distinct (map fst xs)" "map_of xs = map_of (bus_definitions b)"
  shows "sorted_wrt (<) (map td_Name (Definitions b)) \<and>
    set (Definitions b) = ran (map_of (bus_definitions b)) \<and>
    sort_key td_Name (map snd xs) = Definitions b"
proof -
  have d: "distinct (map fst (bus_definitions b))"
    using assms(1) by (simp add: bus_ok_def)
  have named: "map td_Name (map snd ys) = map fst ys" if "map_of ys = map_of (bus_definitions b)"
    "distinct (map fst ys)" for ys
  proof -
    have "td_Name e = n" if "(n, e) \<in> set ys" for n e
      using that \<open>map_of ys = _\<close> \<open>distinct (map fst ys)\<close> bus_okD(1) [OF assms(1), of n e]
      by (metis definition_ok_def map_of_eq_Some_iff)
    then show ?thesis
      by (auto simp: case_prod_unfold)
  qed
  have n: "map td_Name (map snd (bus_definitions b)) = map fst (bus_definitions b)"
    "map td_Name (map snd xs) = map fst xs"
    using named d assms by auto
  have "set xs = set (bus_definitions b)"
    using assms(2,3) d by (metis map_of_eqI set_map_of_compr)
  then have "mset xs = mset (bus_definitions b)"
    using assms(2) d by (metis distinct_map set_eq_iff_mset_eq_distinct)
  then have "mset (map snd xs) = mset (map snd (bus_definitions b))"
    by simp
  moreover have "inj_on td_Name (set (map snd (bus_definitions b)))"
    using n(1) d by (metis distinct_map)
  ultimately have "sort_key td_Name (map snd xs) = Definitions b"
    unfolding Definitions_def
    by (intro sort_key_inj_key_eq) (simp_all add: set_mset_mset [symmetric] del: set_mset_mset set_map)
  moreover have "distinct (map td_Name (Definitions b))"
    using n(1) d unfolding Definitions_def
    by (metis distinct_map distinct_sort mset_map mset_sort mset_eq_imp_distinct_iff)
  moreover have "sorted (map td_Name (Definitions b))"
    by (simp add: Definitions_def)
  ultimately show ?thesis
    using d by (simp add: strict_sorted_iff Definitions_def ran_distinct)
qed

theorem definitions_sorted_witness:
  "set (Definitions echo_bus) = {echo_definition} \<and> sorted_wrt (<) (map td_Name (Definitions echo_bus))"
  using definitions_sorted [OF echo_bus_ok, of "[(''echo'', echo_definition)]"]
  by (simp add: echo_bus_eq)

text \<open>A call the bus can dispatch: a registered name and arguments its plan accepts.\<close>

definition dispatchable :: "'w bus \<Rightarrow> tool_call \<Rightarrow> bool" where
  "dispatchable b call \<longleftrightarrow> length (tc_Name call) \<le> MaxToolNameBytes \<and>
     (\<exists>t v. Bus_Driver b (tc_Name call) = Some t \<and> map_of (bus_validations b) (tc_Name call) = Some v \<and>
        validate_arguments v (tc_Arguments call) = None)"

lemma rejectedCall_view [simp]:
  "tr_IsError (rejectedCall call t)" "tr_ToolCallID (rejectedCall call t) = tc_ID call"
  "tr_Name (rejectedCall call t) = tc_Name call"
  by (simp_all add: rejectedCall_def Let_def zero_result_def)

lemma prepare_call_cases:
  assumes "bus_ok b" "bus_err b = None" "te_ctx_err env w = None"
  shows "if dispatchable b call then \<exists>kp. prepare_call env b has_sink interceptor call w = Inr kp
    else \<exists>t. prepare_call env b has_sink interceptor call w = Inl (rejectedCall call t, None)"
proof (cases "map_of (bus_drivers b) (tc_Name call)")
  case None
  then show ?thesis
    using assms by (auto simp: prepare_call_def dispatchable_def Bus_Driver_def)
next
  case (Some t)
  then obtain v where "map_of (bus_validations b) (tc_Name call) = Some v" "av_err v = None"
    using bus_okD(3,4,5) [OF assms(1), of "tc_Name call"] by fastforce
  then show ?thesis
    using assms Some
    by (auto simp: prepare_call_def dispatchable_def Bus_Driver_def Let_def not_less split: option.splits)
qed

text \<open>
  C8.  A call the model got wrong never reaches a tool: on a consistent bus, a call whose name is
  unknown or too long or whose arguments its schema refuses comes back as a completed error
  result with the call's identity, with the world untouched and nothing emitted.  Whenever
  anything happens at all, the bus was valid, the context alive and the call dispatchable.
\<close>

theorem execute_rejects_model_mistakes:
  assumes "bus_ok b"
  shows "(bus_err b = None \<and> te_ctx_err env w = None \<and> \<not> dispatchable b call \<longrightarrow>
      (\<exists>t. run_prog s (Bus_Execute env b has_sink interceptor call) w =
         (w, Returned (rejectedCall call t, None)))) \<and>
    (fst (run_prog s (Bus_Execute env b has_sink interceptor call) w) \<noteq> w \<or>
     emitted s (Bus_Execute env b has_sink interceptor call) w \<noteq> [] \<longrightarrow>
       bus_err b = None \<and> te_ctx_err env w = None \<and> dispatchable b call) \<and>
    (bus_err b = None \<and> te_ctx_err env w = Some e \<longrightarrow>
      run_prog s (Bus_Execute env b has_sink interceptor call) w =
        (w, Returned (refuse (not_executed e))))"
proof (cases "bus_err b = None \<and> te_ctx_err env w = None")
  case True
  show ?thesis
    using prepare_call_cases [OF assms, of env w call has_sink interceptor] True
    by (auto simp: Bus_Execute_def split: if_splits)
next
  case False
  then obtain e where "prepare_call env b has_sink interceptor call w =
      Inl (refuse (if bus_err b = None then not_executed e else e)) \<and>
      (bus_err b = None \<longrightarrow> te_ctx_err env w = Some e)"
    by (cases "bus_err b"; cases "te_ctx_err env w") (auto simp: prepare_call_def)
  then show ?thesis
    using False by (auto simp: Bus_Execute_def)
qed

theorem execute_rejects_model_mistakes_witness:
  "\<exists>t. run_prog quiet_sink (Bus_Execute quiet_env echo_bus True None
      (sample_call\<lparr>tc_Name := ''missing''\<rparr>)) () =
     ((), Returned (rejectedCall (sample_call\<lparr>tc_Name := ''missing''\<rparr>) t, None))"
proof -
  have "\<not> dispatchable echo_bus (sample_call\<lparr>tc_Name := ''missing''\<rparr>)"
    by (simp add: dispatchable_def Bus_Driver_def echo_bus_eq sample_call_def)
  then show ?thesis
    using execute_rejects_model_mistakes [OF echo_bus_ok, of quiet_env "()"
        "sample_call\<lparr>tc_Name := ''missing''\<rparr>" quiet_sink True None]
    by (simp add: echo_bus_eq quiet_env_def)
qed

end
