(* ===== verification/ToolBatch.thy ===== *)
theory ToolBatch
  imports ToolBus Machines
begin

text \<open>
  Batches of tool calls: \<open>ExecuteBatch\<close> and \<open>executeParallel\<close> of \<open>src/tool/tool.go\<close>.  A sequential
  batch runs each call to its end on the caller's stack.  A parallel group is a pool of
  slots, one per call: a step hands a call to a worker, waits for or takes a limiter's permit,
  advances one running tree by one effect, or ends a slot; the world may change in between.
  \<open>executeParallel\<close> over-approximates the schedules Go allows.  The lemmas show the limits a pool
  keeps at every moment, which slots may claim that nothing was executed, and that the results
  and failures of a batch account for every call in order.
\<close>

section \<open>Failures\<close>

datatype batch_error =
    PlainError go_err
  | BatchError "(bytes \<times> go_err) list"

text \<open>\<open>NotExecutedCallIDs\<close>; \<open>errors.As\<close> finds a batch error or nothing.\<close>

definition NotExecutedCallIDs :: "batch_error option \<Rightarrow> bytes list \<times> bool" where
  "NotExecutedCallIDs err = (case err of
       Some (BatchError fs) \<Rightarrow>
         if fs = [] then ([], False)
         else (map fst (filter (\<lambda>(i, e). errors_is ErrNotExecuted e) fs),
               list_all (\<lambda>(i, e). errors_is ErrNotExecuted e) fs)
     | _ \<Rightarrow> ([], False))"

definition skippedCallError :: "go_err option \<Rightarrow> go_err" where
  "skippedCallError ctx = (case ctx of Some e \<Rightarrow> not_executed e | None \<Rightarrow> sentinel ErrNotExecuted)"

definition batchStoppedError :: "batch_error \<Rightarrow> tool_call list \<Rightarrow> batch_error" where
  "batchStoppedError err skipped = (case err of
       PlainError e \<Rightarrow> PlainError e
     | BatchError fs \<Rightarrow> BatchError (fs @ map (\<lambda>c. (tc_ID c, sentinel ErrNotExecuted)) skipped))"

text \<open>The last loop of \<open>executeParallel\<close>: outcomes by index become results and failures.\<close>

fun collect_failures :: "tool_call list \<Rightarrow> tool_return list \<Rightarrow> (bytes \<times> go_err) list" where
  "collect_failures (c # cs) ((r, Some e) # os) = (tc_ID c, e) # collect_failures cs os"
| "collect_failures (c # cs) ((r, None) # os) = collect_failures cs os"
| "collect_failures _ _ = []"

fun collect_succeeded :: "tool_call list \<Rightarrow> tool_return list \<Rightarrow> tool_result list" where
  "collect_succeeded (c # cs) ((r, Some e) # os) = collect_succeeded cs os"
| "collect_succeeded (c # cs) ((r, None) # os) =
     r\<lparr>tr_ToolCallID := (if tr_ToolCallID r = [] then tc_ID c else tr_ToolCallID r),
       tr_Name := (if tr_Name r = [] then tc_Name c else tr_Name r)\<rparr> # collect_succeeded cs os"
| "collect_succeeded _ _ = []"

definition collect_outcomes ::
  "tool_call list \<Rightarrow> tool_return list \<Rightarrow> tool_result list \<times> batch_error option" where
  "collect_outcomes calls outs =
     (let failures = collect_failures calls outs
      in if failures \<noteq> [] then (collect_succeeded calls outs, Some (BatchError failures))
         else (map fst outs, None))"

section \<open>The batch\<close>

definition MaxBatchCalls :: nat where "MaxBatchCalls = 1024"
definition DefaultBatchConcurrency :: nat where "DefaultBatchConcurrency = 32"

datatype mode = ModeSequential | ModeParallel | ModeOther bytes

type_synonym batch_return = "tool_result list \<times> batch_error option"

text \<open>Execution of one call, and the outcomes of a parallel group, as the loops use them.\<close>

type_synonym 'w execute = "tool_call \<Rightarrow> 'w \<Rightarrow> 'w \<times> tool_return outcome"
type_synonym 'w group_run = "tool_call list \<Rightarrow> 'w \<Rightarrow> 'w \<times> tool_return list"

definition prepend :: "tool_result list \<Rightarrow> 'w \<times> batch_return outcome \<Rightarrow> 'w \<times> batch_return outcome" where
  "prepend rs x = (case x of (w, Returned (rs', e)) \<Rightarrow> (w, Returned (rs @ rs', e))
     | (w, Panicked b) \<Rightarrow> (w, Panicked b))"

fun sequential_batch ::
  "('w \<Rightarrow> go_err option) \<Rightarrow> 'w execute \<Rightarrow> tool_call list \<Rightarrow> 'w \<Rightarrow> 'w \<times> batch_return outcome" where
  "sequential_batch ctx execute [] w = (w, Returned ([], None))"
| "sequential_batch ctx execute (call # calls) w =
     (case execute call w of
        (w', Panicked b) \<Rightarrow> (w', Panicked b)
      | (w', Returned (result, Some e)) \<Rightarrow>
          (w', Returned ([], Some (BatchError ((tc_ID call, e) #
             map (\<lambda>c. (tc_ID c, skippedCallError (ctx w'))) calls))))
      | (w', Returned (result, None)) \<Rightarrow>
          prepend [result] (sequential_batch ctx execute calls w'))"

function (sequential) parallel_batch ::
  "(tool_call \<Rightarrow> bool) \<Rightarrow> 'w group_run \<Rightarrow> 'w execute \<Rightarrow> tool_call list \<Rightarrow> 'w \<Rightarrow> 'w \<times> batch_return outcome"
where
  "parallel_batch is_sequential group_run execute [] w = (w, Returned ([], None))"
| "parallel_batch is_sequential group_run execute (call # calls) w =
     (if \<not> is_sequential call
        then let group = takeWhile (\<lambda>c. \<not> is_sequential c) (call # calls);
                 rest = dropWhile (\<lambda>c. \<not> is_sequential c) (call # calls)
          in (case group_run group w of (w', outs) \<Rightarrow>
               (case collect_outcomes group outs of
                  (results, Some e) \<Rightarrow> (w', Returned (results, Some (batchStoppedError e rest)))
                | (results, None) \<Rightarrow>
                    prepend results (parallel_batch is_sequential group_run execute rest w')))
      else (case execute call w of
          (w', Panicked b) \<Rightarrow> (w', Panicked b)
        | (w', Returned (result, Some e)) \<Rightarrow>
            (w', Returned ([], Some (batchStoppedError (BatchError [(tc_ID call, e)]) calls)))
        | (w', Returned (result, None)) \<Rightarrow>
            prepend [result] (parallel_batch is_sequential group_run execute calls w')))"
  by pat_completeness auto
termination
  by (relation "measure (\<lambda>(p, g, e, calls, w). length calls)")
     (auto intro: le_imp_less_Suc length_dropWhile_le)

definition ExecuteBatch ::
  "'w tool_env \<Rightarrow> 'w bus \<Rightarrow> 'w group_run \<Rightarrow> 'w sink \<Rightarrow> bool \<Rightarrow> 'w interceptor option \<Rightarrow>
     tool_call list \<Rightarrow> mode \<Rightarrow> 'w \<Rightarrow> 'w \<times> batch_return outcome" where
  "ExecuteBatch env b group_run s has_sink interceptor calls md w =
     (if MaxBatchCalls < length calls
        then (w, Returned ([], Some (PlainError (wrap_err ''batch'' (sentinel ErrTooManyToolCalls)))))
      else let execute = (\<lambda>call w. run_prog s (Bus_Execute env b has_sink interceptor call) w) in
      if md \<noteq> ModeParallel then sequential_batch (te_ctx_err env) execute calls w
      else parallel_batch (isSequentialCall b) group_run execute calls w)"

section \<open>The pool of a parallel group\<close>

datatype 'w slot =
    Waiting
  | Picked
  | Blocked bytes "('w, tool_return) prog"
  | Active "bytes option" "('w, tool_return) prog"
  | Finished tool_return

record 'w pool =
  pl_world :: 'w
  pl_slots :: "'w slot list"
  pl_next :: nat
  pl_started :: "nat list"

definition new_pool :: "tool_call list \<Rightarrow> 'w \<Rightarrow> 'w pool" where
  "new_pool calls w = \<lparr>pl_world = w, pl_slots = replicate (length calls) Waiting, pl_next = 0,
     pl_started = []\<rparr>"

fun busy :: "'w slot \<Rightarrow> bool" where
  "busy Waiting = False"
| "busy (Finished r) = False"
| "busy _ = True"

fun holds :: "bytes \<Rightarrow> 'w slot \<Rightarrow> bool" where
  "holds key (Active (Some k) p) = (k = key)"
| "holds key _ = False"

abbreviation amount :: "('a \<Rightarrow> bool) \<Rightarrow> 'a list \<Rightarrow> nat" where
  "amount P xs \<equiv> length (filter P xs)"

definition set_slot :: "nat \<Rightarrow> 'w slot \<Rightarrow> 'w pool \<Rightarrow> 'w pool" where
  "set_slot i x p = p\<lparr>pl_slots := (pl_slots p)[i := x]\<rparr>"

definition start_slot :: "nat \<Rightarrow> 'w slot \<Rightarrow> 'w pool \<Rightarrow> 'w pool" where
  "start_slot i x p = (set_slot i x p)\<lparr>pl_started := pl_started p @ [i]\<rparr>"

definition has_slot :: "'w pool \<Rightarrow> nat \<Rightarrow> 'w slot \<Rightarrow> bool" where
  "has_slot p i x \<longleftrightarrow> i < length (pl_slots p) \<and> pl_slots p ! i = x"

text \<open>A worker that got the call at index \<open>i\<close>: everything up to the limiter.\<close>

definition begin_slot ::
  "'w tool_env \<Rightarrow> 'w bus \<Rightarrow> bool \<Rightarrow> 'w interceptor option \<Rightarrow> tool_call list \<Rightarrow> nat \<Rightarrow> 'w pool \<Rightarrow> 'w pool" where
  "begin_slot env b has_sink interceptor calls i p =
     (case prepare_call env b has_sink interceptor (calls ! i) (pl_world p) of
        Inl r \<Rightarrow> set_slot i (Finished r) p
      | Inr (None, q) \<Rightarrow> start_slot i (Active None q) p
      | Inr (Some key, q) \<Rightarrow> set_slot i (Blocked key q) p)"

definition tool_panic :: "tool_call \<Rightarrow> bytes \<Rightarrow> go_err" where
  "tool_panic call m = GoErr (ErrText (tc_Name call @ '': '' @ m)) [sentinel ErrToolPanic]"

inductive pool_step ::
  "'w tool_env \<Rightarrow> 'w bus \<Rightarrow> 'w sink \<Rightarrow> bool \<Rightarrow> 'w interceptor option \<Rightarrow> tool_call list \<Rightarrow>
     'w pool \<Rightarrow> 'w pool \<Rightarrow> bool"
  for env b s has_sink interceptor calls where
  pool_dispatch: "pl_next p < length (pl_slots p) \<Longrightarrow>
     amount busy (pl_slots p) < min DefaultBatchConcurrency (length calls) \<Longrightarrow>
     pool_step env b s has_sink interceptor calls p
       ((set_slot (pl_next p) Picked p)\<lparr>pl_next := Suc (pl_next p)\<rparr>)"
| pool_skip: "te_ctx_err env (pl_world p) = Some e \<Longrightarrow>
     pool_step env b s has_sink interceptor calls p
       (p\<lparr>pl_slots := take (pl_next p) (pl_slots p) @
            map (\<lambda>x. Finished (refuse (not_executed e))) (drop (pl_next p) (pl_slots p)),
          pl_next := length (pl_slots p)\<rparr>)"
| pool_cancelled: "has_slot p i Picked \<Longrightarrow> te_ctx_err env (pl_world p) = Some e \<Longrightarrow>
     pool_step env b s has_sink interceptor calls p
       (set_slot i (Finished (refuse (not_executed e))) p)"
| pool_begin: "has_slot p i Picked \<Longrightarrow>
     pool_step env b s has_sink interceptor calls p (begin_slot env b has_sink interceptor calls i p)"
| pool_acquire: "has_slot p i (Blocked key q) \<Longrightarrow> map_of (bus_limiters b) key = Some capacity \<Longrightarrow>
     int (amount (holds key) (pl_slots p)) < capacity \<Longrightarrow>
     pool_step env b s has_sink interceptor calls p (start_slot i (Active (Some key) q) p)"
| pool_abort: "has_slot p i (Blocked key q) \<Longrightarrow> te_ctx_err env (pl_world p) = Some e \<Longrightarrow>
     pool_step env b s has_sink interceptor calls p
       (set_slot i (Finished (refuse (not_executed e))) p)"
| pool_work: "has_slot p i (Active k (Do f)) \<Longrightarrow>
     pool_step env b s has_sink interceptor calls p
       ((set_slot i (Active k (snd (f (pl_world p)))) p)\<lparr>pl_world := fst (f (pl_world p))\<rparr>)"
| pool_emit: "has_slot p i (Active k (Emit u g)) \<Longrightarrow> s u (pl_world p) = (w, x) \<Longrightarrow>
     pool_step env b s has_sink interceptor calls p
       ((set_slot i (Active k (g x)) p)\<lparr>pl_world := w\<rparr>)"
| pool_return: "has_slot p i (Active k (Ret r)) \<Longrightarrow>
     pool_step env b s has_sink interceptor calls p (set_slot i (Finished r) p)"
| pool_panic: "has_slot p i (Active k (Crash m)) \<Longrightarrow>
     pool_step env b s has_sink interceptor calls p
       (set_slot i (Finished (refuse (tool_panic (calls ! i) m))) p)"
| pool_outside: "pool_step env b s has_sink interceptor calls p (p\<lparr>pl_world := w\<rparr>)"

inductive_cases pool_stepE: "pool_step env b s has_sink interceptor calls p p'"

fun outcome_of :: "'w slot \<Rightarrow> tool_return option" where
  "outcome_of (Finished r) = Some r"
| "outcome_of _ = None"

text \<open>What \<open>executeParallel\<close> may do to a group: a pool run until every slot is finished.\<close>

definition executeParallel ::
  "'w tool_env \<Rightarrow> 'w bus \<Rightarrow> 'w sink \<Rightarrow> bool \<Rightarrow> 'w interceptor option \<Rightarrow> tool_call list \<Rightarrow> 'w \<Rightarrow>
     'w \<Rightarrow> tool_return list \<Rightarrow> bool" where
  "executeParallel env b s has_sink interceptor calls w w' outs \<longleftrightarrow>
     (\<exists>p. run (pool_step env b s has_sink interceptor calls) (new_pool calls w) p \<and>
        pl_world p = w' \<and> map outcome_of (pl_slots p) = map Some outs)"

section \<open>The pool's invariant\<close>

definition spec_key :: "'w bus \<Rightarrow> tool_call \<Rightarrow> bytes" where
  "spec_key b call = (case map_of (bus_definitions b) (tc_Name call) of None \<Rightarrow> []
     | Some d \<Rightarrow> (case concurrencySpec d of Inl e \<Rightarrow> [] | Inr (k, c) \<Rightarrow> k))"

text \<open>An outcome of a call whose driver never ran: a rejection, or an error that says so.\<close>

definition not_run :: "tool_call \<Rightarrow> tool_return \<Rightarrow> bool" where
  "not_run call r \<longleftrightarrow> (\<exists>t. r = (rejectedCall call t, None)) \<or>
     (\<exists>e. snd r = Some e \<and> errors_is ErrNotExecuted e)"

fun slot_ok :: "'w bus \<Rightarrow> tool_call \<Rightarrow> bool \<Rightarrow> 'w slot \<Rightarrow> bool" where
  "slot_ok b call started Waiting = (\<not> started)"
| "slot_ok b call started Picked = (\<not> started)"
| "slot_ok b call started (Blocked key q) = (\<not> started \<and> key = spec_key b call \<and> key \<noteq> [])"
| "slot_ok b call started (Active k q) =
     (started \<and> k = (if spec_key b call = [] then None else Some (spec_key b call)))"
| "slot_ok b call started (Finished r) = (\<not> started \<longrightarrow> not_run call r)"

definition pool_inv :: "'w bus \<Rightarrow> tool_call list \<Rightarrow> 'w pool \<Rightarrow> bool" where
  "pool_inv b calls p \<longleftrightarrow>
     length (pl_slots p) = length calls \<and> pl_next p \<le> length calls \<and>
     (\<forall>i < length calls. slot_ok b (calls ! i) (i \<in> set (pl_started p)) (pl_slots p ! i)) \<and>
     (\<forall>i < length calls. pl_next p \<le> i \<longrightarrow> pl_slots p ! i = Waiting) \<and>
     amount busy (pl_slots p) \<le> min DefaultBatchConcurrency (length calls) \<and>
     (\<forall>key capacity. map_of (bus_limiters b) key = Some capacity \<longrightarrow>
        int (amount (holds key) (pl_slots p)) \<le> capacity) \<and>
     distinct (pl_started p) \<and> (\<forall>i \<in> set (pl_started p). i < length calls)"

lemma pool_inv_world [simp]: "pool_inv b calls (p\<lparr>pl_world := w\<rparr>) = pool_inv b calls p"
  by (simp add: pool_inv_def)

lemma amount_update:
  "i < length xs \<Longrightarrow>
     amount P (xs[i := x]) + (if P (xs ! i) then 1 else 0) = amount P xs + (if P x then 1 else 0)"
proof (induction xs arbitrary: i)
  case (Cons y xs)
  show ?case
  proof (cases i)
    case (Suc j)
    then show ?thesis
      using Cons.IH [of j] Cons.prems by (auto split: if_splits)
  qed simp
qed simp

lemma amount_update_le:
  "i < length xs \<Longrightarrow> (P x \<Longrightarrow> P (xs ! i)) \<Longrightarrow> amount P (xs[i := x]) \<le> amount P xs"
  using amount_update [of i xs P x] by (auto split: if_splits)

lemma not_run_refuse [simp]: "not_run call (refuse (not_executed e))"
  by (auto simp: not_run_def not_executed_def join2_def)

lemma prepare_call_not_run:
  assumes "bus_ok b" "bus_err b = None" "prepare_call env b has_sink interceptor call w = Inl r"
  shows "not_run call r"
proof (cases "te_ctx_err env w")
  case None
  then show ?thesis
    using prepare_call_cases [OF assms(1,2), of env w call has_sink interceptor] assms(3)
    by (auto simp: not_run_def split: if_splits)
next
  case (Some e)
  then show ?thesis
    using assms by (auto simp: prepare_call_def)
qed

lemma prepare_call_key:
  assumes "bus_ok b" "prepare_call env b has_sink interceptor call w = Inr (k, q)"
  shows "k = (if spec_key b call = [] then None else Some (spec_key b call))"
proof -
  obtain t where "map_of (bus_drivers b) (tc_Name call) = Some t"
    using assms(2) by (auto simp: prepare_call_def split: option.splits if_splits)
  then obtain d where d: "map_of (bus_definitions b) (tc_Name call) = Some d"
    using bus_okD(4) [OF assms(1), of "tc_Name call"] by auto
  then obtain key capacity where "concurrencySpec d = Inr (key, capacity)"
    "key \<noteq> [] \<longrightarrow> map_of (bus_limiters b) key = Some capacity"
    using bus_okD(1) [OF assms(1) d] by (auto simp: definition_ok_def)
  moreover have "map_of (bus_limiters b) [] = None"
    using assms(1) unfolding bus_ok_def limiters_ok_def by (metis option.exhaust)
  ultimately show ?thesis
    using assms(2) d
    by (auto simp: prepare_call_def spec_key_def Let_def split: option.splits if_splits)
qed

lemma has_slot_before:
  "pool_inv b calls p \<Longrightarrow> has_slot p i x \<Longrightarrow> x \<noteq> Waiting \<Longrightarrow> i < length calls \<and> i < pl_next p"
  by (auto simp: pool_inv_def has_slot_def not_less)

lemma has_slot_ok:
  "pool_inv b calls p \<Longrightarrow> has_slot p i x \<Longrightarrow> slot_ok b (calls ! i) (i \<in> set (pl_started p)) x"
  unfolding pool_inv_def has_slot_def by metis

text \<open>Replacing a slot by one that is no more busy and holds no new permit.\<close>

lemma pool_inv_set:
  assumes "pool_inv b calls p" "has_slot p i y" "y \<noteq> Waiting"
    and "slot_ok b (calls ! i) (i \<in> set (pl_started p)) x" "busy x \<Longrightarrow> busy y"
    and "\<And>k. holds k x \<Longrightarrow> holds k y"
  shows "pool_inv b calls (set_slot i x p)"
proof -
  have i: "i < length (pl_slots p)" "pl_slots p ! i = y" "i < pl_next p"
    using assms(2) has_slot_before [OF assms(1-3)] by (auto simp: has_slot_def)
  have "amount busy ((pl_slots p)[i := x]) \<le> amount busy (pl_slots p)"
    "\<And>k. amount (holds k) ((pl_slots p)[i := x]) \<le> amount (holds k) (pl_slots p)"
    using i assms(5,6) by (auto intro!: amount_update_le)
  then show ?thesis
    using assms(1,4) i unfolding pool_inv_def set_slot_def
    by (auto simp: nth_list_update) (meson le_trans of_nat_mono order_trans)+
qed

text \<open>Starting a driver, with the permit it asked for.\<close>

lemma pool_inv_start:
  assumes "pool_inv b calls p" "has_slot p i y" "busy y" "\<not> (\<exists>k q. y = Active k q)"
    and "k = (if spec_key b (calls ! i) = [] then None else Some (spec_key b (calls ! i)))"
    and "\<And>key. k = Some key \<Longrightarrow> \<exists>capacity. map_of (bus_limiters b) key = Some capacity \<and>
           int (amount (holds key) (pl_slots p)) < capacity"
  shows "pool_inv b calls (start_slot i (Active k q) p)"
proof -
  have "y \<noteq> Waiting"
    using assms(3) by auto
  then have i: "i < length (pl_slots p)" "pl_slots p ! i = y" "i < pl_next p" "i < length calls"
    using assms(2) has_slot_before [OF assms(1,2)] by (auto simp: has_slot_def)
  have new: "i \<notin> set (pl_started p)"
    using assms(1,3,4) i by (cases y) (auto simp: pool_inv_def)
  have b: "amount busy ((pl_slots p)[i := Active k q]) = amount busy (pl_slots p)"
    using amount_update [OF i(1), of busy "Active k q"] assms(3) i(2) by simp
  have h: "int (amount (holds key) ((pl_slots p)[i := Active k q])) \<le> capacity"
    if c: "map_of (bus_limiters b) key = Some capacity" for key capacity
  proof (cases "k = Some key")
    case True
    have "int (amount (holds key) (pl_slots p)) < capacity"
      using assms(6) [OF True] c by auto
    then show ?thesis
      using amount_update [OF i(1), of "holds key" "Active k q"] by (auto split: if_splits)
  next
    case False
    then have "\<not> holds key (Active k q)"
      by (cases k) auto
    then have "amount (holds key) ((pl_slots p)[i := Active k q]) \<le> amount (holds key) (pl_slots p)"
      using amount_update_le [OF i(1), of "holds key" "Active k q"] by blast
    moreover have "int (amount (holds key) (pl_slots p)) \<le> capacity"
      using assms(1) c by (auto simp: pool_inv_def)
    ultimately show ?thesis
      by linarith
  qed
  show ?thesis
    using assms(1,5) i new b h unfolding pool_inv_def start_slot_def set_slot_def
    by (auto simp: nth_list_update)
qed

lemma pool_inv_new: "bus_ok b \<Longrightarrow> pool_inv b calls (new_pool calls w)"
  unfolding pool_inv_def new_pool_def bus_ok_def limiters_ok_def by fastforce

lemma pool_inv_step:
  assumes "bus_ok b" "bus_err b = None" "pool_inv b calls p"
    and "pool_step env b s has_sink interceptor calls p p'"
  shows "pool_inv b calls p'"
  using assms(4)
proof (cases rule: pool_step.cases)
  case pool_dispatch
  let ?n = "pl_next p"
  have n: "?n < length (pl_slots p)" "pl_slots p ! ?n = Waiting"
    using pool_dispatch assms(3) by (auto simp: pool_inv_def)
  let ?xs = "(pl_slots p)[?n := Picked]"
  have new: "?n \<notin> set (pl_started p)"
    using assms(3) n by (auto simp: pool_inv_def)
  have p': "p' = p\<lparr>pl_slots := ?xs, pl_next := Suc ?n\<rparr>"
    using pool_dispatch by (simp add: set_slot_def)
  have busy: "amount busy ?xs \<le> min DefaultBatchConcurrency (length calls)"
    using amount_update [OF n(1), of busy Picked] n(2) pool_dispatch by simp
  have holds: "int (amount (holds k) ?xs) \<le> c" if "map_of (bus_limiters b) k = Some c" for k c
    using n(1) amount_update_le [of ?n "pl_slots p" "holds k" Picked] assms(3) that
    by (force simp: pool_inv_def)
  have slots: "slot_ok b (calls ! i) (i \<in> set (pl_started p)) (?xs ! i)" if "i < length calls" for i
    using that n assms(3) new by (cases "i = ?n") (auto simp: pool_inv_def)
  have later: "?xs ! i = Waiting" if "i < length calls" "Suc ?n \<le> i" for i
    using that assms(3) by (auto simp: pool_inv_def)
  show ?thesis
    using busy holds slots later n(1) assms(3) unfolding pool_inv_def p' by simp
next
  case (pool_begin i)
  show ?thesis
  proof (cases "prepare_call env b has_sink interceptor (calls ! i) (pl_world p)")
    case (Inl r)
    then show ?thesis
      using pool_begin assms prepare_call_not_run [OF assms(1,2) Inl]
      by (auto simp: begin_slot_def intro!: pool_inv_set [where y = Picked])
  next
    case (Inr kq)
    obtain k q where kq: "kq = (k, q)"
      by force
    have k: "k = (if spec_key b (calls ! i) = [] then None else Some (spec_key b (calls ! i)))"
      using prepare_call_key [OF assms(1)] Inr kq by blast
    have "i \<notin> set (pl_started p)"
      using has_slot_ok [OF assms(3), of i Picked] pool_begin by simp
    then show ?thesis
      using pool_begin assms(3) Inr kq k
      by (auto simp: begin_slot_def intro!: pool_inv_set [where y = Picked]
          pool_inv_start [where y = Picked] split: if_splits)
  qed
next
  case (pool_acquire i key q capacity)
  have "key = spec_key b (calls ! i)" "key \<noteq> []"
    using has_slot_ok [OF assms(3), of i "Blocked key q"] pool_acquire by auto
  then show ?thesis
    using pool_acquire assms(3) by (auto intro!: pool_inv_start [where y = "Blocked key q"])
next
  case (pool_skip e)
  let ?done = "Finished (refuse (not_executed e))"
  let ?xs = "take (pl_next p) (pl_slots p) @ map (\<lambda>x. ?done) (drop (pl_next p) (pl_slots p))"
  have le: "amount P ?xs \<le> amount P (pl_slots p)" if "\<not> P ?done" for P
  proof -
    have "amount P ?xs = amount P (take (pl_next p) (pl_slots p))"
      using that by simp
    also have "\<dots> \<le> amount P (take (pl_next p) (pl_slots p) @ drop (pl_next p) (pl_slots p))"
      by (simp only: filter_append length_append)
    finally show ?thesis
      by simp
  qed
  have "amount busy ?xs \<le> amount busy (pl_slots p)"
    "amount (holds key) ?xs \<le> amount (holds key) (pl_slots p)" for key
    using le by simp_all
  moreover have "slot_ok b (calls ! i) (i \<in> set (pl_started p)) (?xs ! i)" if "i < length calls" for i
    using assms(3) that by (cases "i < pl_next p") (auto simp: pool_inv_def nth_append not_less)
  ultimately show ?thesis
    using assms(3) pool_skip unfolding pool_inv_def
    by (auto simp: min_def) (meson le_trans of_nat_mono order_trans)+
next
  case (pool_cancelled i e)
  then show ?thesis
    using assms(3) by (auto intro!: pool_inv_set [where y = Picked])
next
  case (pool_abort i key q e)
  then show ?thesis
    using assms(3) by (auto intro!: pool_inv_set [where y = "Blocked key q"])
next
  case (pool_work i k f)
  then show ?thesis
    using assms(3) has_slot_ok [OF assms(3), of i "Active k (Do f)"]
    by (auto intro!: pool_inv_set [where y = "Active k (Do f)"] elim: holds.elims)
next
  case (pool_emit i k u g w x)
  then show ?thesis
    using assms(3) has_slot_ok [OF assms(3), of i "Active k (Emit u g)"]
    by (auto intro!: pool_inv_set [where y = "Active k (Emit u g)"] elim: holds.elims)
next
  case (pool_return i k r)
  then show ?thesis
    using assms(3) has_slot_ok [OF assms(3), of i "Active k (Ret r)"]
    by (auto intro!: pool_inv_set [where y = "Active k (Ret r)"])
next
  case (pool_panic i k m)
  then show ?thesis
    using assms(3) has_slot_ok [OF assms(3), of i "Active k (Crash m)"]
    by (auto intro!: pool_inv_set [where y = "Active k (Crash m)"])
next
  case (pool_outside w)
  then show ?thesis
    using assms(3) by simp
qed

text \<open>The pools of a consistent bus, as a machine with an invariant.\<close>

definition pool_of :: "'w bus \<Rightarrow> tool_call list \<Rightarrow> 'w pool \<Rightarrow> bool" where
  "pool_of b calls p \<longleftrightarrow> bus_ok b \<and> bus_err b = None \<and> (\<exists>w. p = new_pool calls w)"

definition pool_good :: "'w bus \<Rightarrow> tool_call list \<Rightarrow> 'w pool \<Rightarrow> bool" where
  "pool_good b calls p \<longleftrightarrow> bus_ok b \<and> bus_err b = None \<and> pool_inv b calls p"

interpretation pool: machine "pool_of b calls" "pool_step env b s has_sink interceptor calls"
  "pool_good b calls"
proof
  show "pool_good b calls p" if "pool_of b calls p" for p
    using that pool_inv_new by (auto simp: pool_of_def pool_good_def)
  show "pool_good b calls p'" if "pool_good b calls p"
    "pool_step env b s has_sink interceptor calls p p'" for p p'
    using that pool_inv_step [of b calls p env s has_sink interceptor p']
    by (auto simp: pool_good_def)
qed

lemma pool_run_inv:
  assumes "bus_ok b" "bus_err b = None"
    and "run (pool_step env b s has_sink interceptor calls) (new_pool calls w) p"
  shows "pool_inv b calls p"
  using pool.run_inv [OF assms(3)] pool.inv_init [of b calls "new_pool calls w"] assms(1,2)
  by (auto simp: pool_of_def pool_good_def)

lemma two_slots:
  assumes "i < length xs" "j < length xs" "i \<noteq> j" "P (xs ! i)" "P (xs ! j)"
  shows "2 \<le> amount P xs"
proof -
  have "card {i, j} \<le> card {k. k < length xs \<and> P (xs ! k)}"
    using assms by (intro card_mono) auto
  then show ?thesis
    using assms(3) by (simp add: length_filter_conv_card)
qed

section \<open>Accounting\<close>

text \<open>Which calls of a batch failed, and with what; the rest succeeded, in order.\<close>

lemma collect_lengths:
  "length outs = length calls \<Longrightarrow>
     length (collect_succeeded calls outs) + length (collect_failures calls outs) = length calls"
  by (induction calls outs rule: collect_failures.induct) auto

text \<open>
  A batch return is sound for its calls: without an error there is one result per call; with one,
  the failures name the calls that have no result, in order, and there are no more results
  than calls before the last failure.
\<close>

definition accounts :: "tool_call list \<Rightarrow> batch_return \<Rightarrow> bool" where
  "accounts calls r = (case r of
       (results, None) \<Rightarrow> length results = length calls
     | (results, Some (PlainError e)) \<Rightarrow> False
     | (results, Some (BatchError fs)) \<Rightarrow>
         fs \<noteq> [] \<and> length results + length fs = length calls \<and>
         subseq (map fst fs) (map tc_ID calls))"

lemma collect_failures_subseq:
  "subseq (map fst (collect_failures calls outs)) (map tc_ID calls)"
  by (induction calls outs rule: collect_failures.induct) auto

lemma accounts_prepend:
  assumes "accounts rest r" "length results = length before" "calls = before @ rest"
    and "prepend results (w, Returned r) = (w', Returned r')"
  shows "accounts calls r'"
  using assms
  by (cases r) (auto simp: accounts_def prepend_def split: option.splits batch_error.splits
      intro: list_emb_append2)

lemma accounts_stopped:
  assumes "collect_outcomes par outs = (results, Some e)" "length outs = length par"
  shows "accounts (par @ rest) (results, Some (batchStoppedError e rest))"
  using assms collect_lengths [OF assms(2)] collect_failures_subseq [of par outs]
  by (auto simp: collect_outcomes_def Let_def accounts_def batchStoppedError_def
      comp_def split: if_splits intro: list_emb_append_mono)

lemma accounts_collected:
  assumes "collect_outcomes par outs = (results, None)" "length outs = length par"
  shows "length results = length par"
  using assms by (auto simp: collect_outcomes_def Let_def split: if_splits)

lemma accounts_cons:
  assumes "accounts calls r" "prepend [result] (w, Returned r) = (w', Returned r')"
  shows "accounts (call # calls) r'"
  using accounts_prepend [OF assms(1) _ _ assms(2), of "[call]"] by simp

lemma prepend_returned:
  assumes "prepend rs x = (w', Returned r')"
  obtains w r where "x = (w, Returned r)"
  using assms by (auto simp: prepend_def split: prod.splits outcome.splits)

lemma sequential_batch_accounts:
  "sequential_batch ctx execute calls w = (w', Returned r) \<Longrightarrow> accounts calls r"
proof (induction calls arbitrary: w w' r)
  case (Cons call calls)
  obtain w1 x where x: "execute call w = (w1, x)"
    by force
  then obtain result err where re: "x = Returned (result, err)"
    using Cons.prems by (cases x) auto
  show ?case
  proof (cases err)
    case None
    then have "prepend [result] (sequential_batch ctx execute calls w1) = (w', Returned r)"
      using Cons.prems x re by simp
    then show ?thesis
      by (metis Cons.IH accounts_cons prepend_returned)
  next
    case (Some e)
    then show ?thesis
      using Cons.prems x re by (auto simp: accounts_def comp_def)
  qed
qed (simp add: accounts_def)

lemma parallel_batch_accounts:
  assumes "\<And>cs w. length (snd (group_run cs w)) = length cs"
    and "parallel_batch is_sequential group_run execute calls w = (w', Returned r)"
  shows "accounts calls r"
  using assms(2)
proof (induction "length calls" arbitrary: calls w w' r rule: less_induct)
  case less
  show ?case
  proof (cases calls)
    case Nil
    then show ?thesis
      using less.prems by (auto simp: accounts_def)
  next
    case (Cons call cs)
    let ?par = "takeWhile (\<lambda>c. \<not> is_sequential c) calls"
      and ?rest = "dropWhile (\<lambda>c. \<not> is_sequential c) calls"
    show ?thesis
    proof (cases "is_sequential call")
      case False
      obtain w1 outs where g: "group_run ?par w = (w1, outs)"
        by force
      then have len: "length outs = length ?par"
        using assms(1) [of ?par w] by simp
      obtain results e where c: "collect_outcomes ?par outs = (results, e)"
        by force
      show ?thesis
      proof (cases e)
        case None
        have "length ?rest < length calls"
          using Cons False by (simp add: le_imp_less_Suc length_dropWhile_le)
        moreover have "prepend results (parallel_batch is_sequential group_run execute ?rest w1) =
            (w', Returned r)"
          using less.prems Cons False g c None by simp
        ultimately show ?thesis
          using accounts_collected [of ?par outs results] len c None
          by (metis accounts_prepend less.hyps prepend_returned takeWhile_dropWhile_id)
      next
        case (Some d)
        then have "r = (results, Some (batchStoppedError d ?rest))"
          using less.prems Cons False g c by simp
        then show ?thesis
          using accounts_stopped [of ?par outs results d ?rest] len c Some by simp
      qed
    next
      case True
      obtain w1 x where x: "execute call w = (w1, x)"
        by force
      then obtain result err where re: "x = Returned (result, err)"
        using less.prems Cons True by (cases x) auto
      show ?thesis
      proof (cases err)
        case None
        then have "prepend [result] (parallel_batch is_sequential group_run execute cs w1) =
            (w', Returned r)"
          using less.prems Cons True x re by simp
        then show ?thesis
          using Cons less.hyps [of cs] by (metis accounts_cons length_Cons lessI prepend_returned)
      next
        case (Some e)
        then show ?thesis
          using less.prems Cons True x re by (auto simp: accounts_def batchStoppedError_def comp_def)
      qed
    qed
  qed
qed

lemma executeParallel_length:
  assumes "bus_ok b" "bus_err b = None" "executeParallel env b s has_sink interceptor calls w w' outs"
  shows "length outs = length calls"
  using assms pool_run_inv [OF assms(1,2)]
  by (auto simp: executeParallel_def pool_inv_def dest!: arg_cong [of _ _ length])

section \<open>Properties\<close>

text \<open>
  C7.  At every moment of a parallel batch, under every schedule, at most 32 calls are in flight,
  the calls that run under one limiter never exceed its capacity, and two calls of tools that
  are sequential or exclusive and share a group never run at the same time.
\<close>

theorem parallel_batch_respects_limits:
  assumes "bus_ok b" "bus_err b = None"
    and "run (pool_step env b s has_sink interceptor calls) (new_pool calls w) p"
  shows "amount busy (pl_slots p) \<le> 32 \<and>
    (\<forall>key capacity. map_of (bus_limiters b) key = Some capacity \<longrightarrow>
       int (amount (holds key) (pl_slots p)) \<le> capacity) \<and>
    (\<forall>i j k l q r key d. has_slot p i (Active k q) \<and> has_slot p j (Active l r) \<and>
       map_of (bus_definitions b) (tc_Name (calls ! i)) = Some d \<and> concurrencySpec d = Inr (key, 1) \<and>
       spec_key b (calls ! j) = key \<and> key \<noteq> [] \<longrightarrow> i = j)"
proof (intro conjI)
  have inv: "pool_inv b calls p"
    by (rule pool_run_inv [OF assms])
  then show "amount busy (pl_slots p) \<le> 32"
    by (simp add: pool_inv_def DefaultBatchConcurrency_def)
  show limits: "\<forall>key capacity. map_of (bus_limiters b) key = Some capacity \<longrightarrow>
       int (amount (holds key) (pl_slots p)) \<le> capacity"
    using inv by (simp add: pool_inv_def)
  show "\<forall>i j k l q r key d. has_slot p i (Active k q) \<and> has_slot p j (Active l r) \<and>
       map_of (bus_definitions b) (tc_Name (calls ! i)) = Some d \<and> concurrencySpec d = Inr (key, 1) \<and>
       spec_key b (calls ! j) = key \<and> key \<noteq> [] \<longrightarrow> i = j"
  proof (intro allI impI, elim conjE)
    fix i j k l q r key d
    assume a: "has_slot p i (Active k q)" "has_slot p j (Active l r)"
      and d: "map_of (bus_definitions b) (tc_Name (calls ! i)) = Some d" "concurrencySpec d = Inr (key, 1)"
      and key: "spec_key b (calls ! j) = key" "key \<noteq> []"
    have "holds key (Active k q)" "holds key (Active l r)"
      using has_slot_ok [OF inv a(1)] has_slot_ok [OF inv a(2)] d key by (auto simp: spec_key_def)
    moreover have "map_of (bus_limiters b) key = Some 1"
      using bus_okD(1) [OF assms(1) d(1)] d(2) key(2) by (auto simp: definition_ok_def)
    ultimately show "i = j"
      using limits two_slots [of i "pl_slots p" j "holds key"] a by (force simp: has_slot_def)
  qed
qed

theorem parallel_batch_respects_limits_witness:
  "amount busy (pl_slots (new_pool [sample_call, sample_call] ())) \<le> 32"
proof -
  have "bus_err echo_bus = None"
    by (simp add: echo_bus_eq)
  from parallel_batch_respects_limits [OF echo_bus_ok this run_refl] show ?thesis
    by blast
qed

text \<open>
  A proof that nothing was executed can be trusted: when a parallel group is done, a call
  whose driver was never started either was rejected with an error result for the model or
  carries an error that says it was not executed, and each driver was started at most once.
\<close>

theorem parallel_group_reports_unstarted:
  assumes "bus_ok b" "bus_err b = None"
    and "run (pool_step env b s has_sink interceptor calls) (new_pool calls w) p"
    and "map outcome_of (pl_slots p) = map Some outs"
  shows "length outs = length calls \<and> distinct (pl_started p) \<and>
    (\<forall>i < length calls. i \<notin> set (pl_started p) \<longrightarrow>
       (\<exists>t. outs ! i = (rejectedCall (calls ! i) t, None)) \<or>
       (\<exists>e. snd (outs ! i) = Some e \<and> errors_is ErrNotExecuted e))"
proof -
  have inv: "pool_inv b calls p"
    by (rule pool_run_inv [OF assms(1-3)])
  then have len: "length outs = length calls"
    using arg_cong [OF assms(4), of length] by (simp add: pool_inv_def)
  have "not_run (calls ! i) (outs ! i)" if i: "i < length calls" "i \<notin> set (pl_started p)" for i
  proof -
    have "outcome_of (pl_slots p ! i) = Some (outs ! i)"
      using arg_cong [OF assms(4), of "\<lambda>xs. xs ! i"] i len inv by (simp add: pool_inv_def)
    then have "pl_slots p ! i = Finished (outs ! i)"
      by (cases "pl_slots p ! i") auto
    then show ?thesis
      using inv i unfolding pool_inv_def by (metis slot_ok.simps(5))
  qed
  then show ?thesis
    using inv len by (auto simp: pool_inv_def not_run_def)
qed

definition cancelled_env :: "unit tool_env" where
  "cancelled_env = quiet_env\<lparr>te_ctx_err := (\<lambda>w. Some (sentinel CtxCanceled))\<rparr>"

theorem parallel_group_reports_unstarted_witness:
  "\<exists>p outs. run (pool_step cancelled_env echo_bus quiet_sink True None [sample_call])
      (new_pool [sample_call] ()) p \<and> map outcome_of (pl_slots p) = map Some outs \<and>
    pl_started p = [] \<and> (\<exists>e. snd (outs ! 0) = Some e \<and> errors_is ErrNotExecuted e)"
proof -
  let ?out = "refuse (not_executed (sentinel CtxCanceled))"
  let ?p = "\<lparr>pl_world = (), pl_slots = [Finished ?out], pl_next = 1, pl_started = []\<rparr> :: unit pool"
  have "pool_step cancelled_env echo_bus quiet_sink True None [sample_call] (new_pool [sample_call] ()) ?p"
    using pool_skip [of cancelled_env "new_pool [sample_call] ()" "sentinel CtxCanceled" echo_bus
        quiet_sink True None "[sample_call]"]
    by (simp add: new_pool_def cancelled_env_def)
  then have r: "run (pool_step cancelled_env echo_bus quiet_sink True None [sample_call])
      (new_pool [sample_call] ()) ?p"
    by (rule run_step [OF run_refl])
  have e: "bus_err echo_bus = None"
    by (simp add: echo_bus_eq)
  have "snd ([?out] ! 0) = Some (not_executed (sentinel CtxCanceled))"
    by simp
  then show ?thesis
    using parallel_group_reports_unstarted [OF echo_bus_ok e r, of "[?out]"] r
    by (intro exI [of _ ?p] exI [of _ "[?out]"]) auto
qed

text \<open>
  A batch accounts for every call: without an error there is exactly one result per call,
  otherwise results and failures together are as many as the calls, and the failures name calls
  of the batch in their order; in both modes, whatever tools, sinks and schedules do.
\<close>

theorem execute_batch_accounts:
  assumes "bus_ok b" "bus_err b = None"
    and "\<And>cs v. executeParallel env b s has_sink interceptor cs v (fst (group_run cs v)) (snd (group_run cs v))"
    and "ExecuteBatch env b group_run s has_sink interceptor calls md w = (w', Returned (results, err))"
  shows "(case err of
      None \<Rightarrow> length results = length calls
    | Some (BatchError fs) \<Rightarrow> fs \<noteq> [] \<and> length results + length fs = length calls \<and>
        subseq (map fst fs) (map tc_ID calls)
    | Some (PlainError e) \<Rightarrow> 1024 < length calls \<and> errors_is ErrTooManyToolCalls e \<and>
        results = [] \<and> w' = w)"
proof (cases "MaxBatchCalls < length calls")
  case True
  then show ?thesis
    using assms(4) by (auto simp: ExecuteBatch_def MaxBatchCalls_def)
next
  case False
  have len: "length (snd (group_run cs v)) = length cs" for cs v
    by (rule executeParallel_length [OF assms(1,2,3)])
  have "accounts calls (results, err)"
    using assms(4) False parallel_batch_accounts [OF len] sequential_batch_accounts
    by (auto simp: ExecuteBatch_def Let_def split: if_splits)
  then show ?thesis
    by (auto simp: accounts_def split: option.splits batch_error.splits)
qed

text \<open>The runs of a cancelled group, as a function: every call is skipped.\<close>

definition skip_all :: "tool_call list \<Rightarrow> unit \<Rightarrow> unit \<times> tool_return list" where
  "skip_all cs v = (v, map (\<lambda>c. refuse (not_executed (sentinel CtxCanceled))) cs)"

lemma skip_all_parallel:
  "executeParallel cancelled_env b s has_sink interceptor cs v (fst (skip_all cs v)) (snd (skip_all cs v))"
proof -
  have "run (pool_step cancelled_env b s has_sink interceptor cs) (new_pool cs v)
      (new_pool cs v\<lparr>pl_slots := map (\<lambda>x. Finished (refuse (not_executed (sentinel CtxCanceled))))
         (replicate (length cs) Waiting), pl_next := length cs\<rparr>)"
    using pool_skip [of cancelled_env "new_pool cs v" "sentinel CtxCanceled" b s has_sink interceptor cs]
    by (intro run_step [OF run_refl]) (simp add: new_pool_def cancelled_env_def)
  then show ?thesis
    unfolding executeParallel_def
    by (rule_tac exI, rule_tac conjI, assumption)
       (simp add: skip_all_def new_pool_def list_eq_iff_nth_eq)
qed

theorem execute_batch_accounts_witness:
  "\<exists>fs. snd (ExecuteBatch cancelled_env echo_bus skip_all quiet_sink True None
      [sample_call, sample_call] ModeParallel ()) = Returned ([], Some (BatchError fs)) \<and>
    length fs = 2"
proof -
  have e: "bus_err echo_bus = None"
    by (simp add: echo_bus_eq)
  obtain fs where fs: "ExecuteBatch cancelled_env echo_bus skip_all quiet_sink True None
      [sample_call, sample_call] ModeParallel () = ((), Returned ([], Some (BatchError fs)))"
    by (simp add: ExecuteBatch_def MaxBatchCalls_def isSequentialCall_def echo_bus_eq sample_call_def
        echo_definition_def skip_all_def collect_outcomes_def batchStoppedError_def Let_def)
  from execute_batch_accounts [OF echo_bus_ok e skip_all_parallel fs] fs show ?thesis
    by auto
qed

end
