(* ===== verification/Steps.thy ===== *)
theory Steps
  imports Requests Usage
begin

text \<open>
  The trace of an execution: \<open>src/agent/step.go\<close>, the operation ids of tool calls
  (\<open>turn:T:call:C\<close>, written by \<open>runToolStep\<close> and read by \<open>nextToolOperationTurn\<close> and
  \<open>analyzeTranscript\<close>), and the bounded continuations counted in the trace
  (\<open>src/agent/pause_continuation.go\<close>, \<open>responseRecoveryCount\<close>).  The lemmas show that an
  operation id is read back as it was written and that the next ordinal is fresh.
\<close>

section \<open>Data\<close>

datatype stop_reason =
    StopReasonUnknown | StopReasonComplete | StopReasonPause | StopReasonToolUse | StopReasonLength
  | StopReasonContentFilter | StopReasonMaxTurns | StopReasonAborted | StopReasonError
  | StopReasonOther bytes

datatype step_decision =
  StepDecisionContinue | StepDecisionFinish | StepDecisionFail | StepDecisionOther bytes

text \<open>A model call; its token counters are grouped as a \<open>usage\<close>.\<close>

record model_call =
  mc_Provider :: bytes
  mc_Model :: bytes
  mc_Usage :: usage
  mc_StopReason :: stop_reason

record tool_trace =
  tt_ID :: bytes
  tt_Name :: bytes
  tt_Arguments :: bytes
  tt_Output :: bytes
  tt_Error :: bytes

record observation =
  ob_Kind :: bytes
  ob_Message :: bytes

record budget_usage =
  bu_Tokens :: int
  bu_ToolCalls :: int
  bu_WallClock :: int

record step =
  st_Index :: int
  st_ModelCall :: "model_call option"
  st_ToolCalls :: "tool_trace list"
  st_Observations :: "observation list"
  st_Decision :: step_decision
  st_ContextUsage :: usage
  st_BudgetUsed :: budget_usage

definition budget_of :: "usage \<Rightarrow> int \<Rightarrow> budget_usage" where
  "budget_of spent toolCalls =
     \<lparr>bu_Tokens = u_TotalTokens spent, bu_ToolCalls = toolCalls, bu_WallClock = 0\<rparr>"

text \<open>The loop changes the latest step through \<open>steps[len(steps)-1]\<close>.\<close>

definition with_latest :: "(step \<Rightarrow> step) \<Rightarrow> step list \<Rightarrow> step list" where
  "with_latest f steps = (if steps = [] then [] else butlast steps @ [f (last steps)])"

section \<open>Operation ids\<close>

definition operation_id :: "int \<Rightarrow> int \<Rightarrow> bytes" where
  "operation_id turn slot = ''turn:'' @ (if turn < 0 then ''-'' @ decimal (nat (- turn)) else decimal (nat turn))
     @ '':call:'' @ (if slot < 0 then ''-'' @ decimal (nat (- slot)) else decimal (nat slot))"

text \<open>\<open>fmt.Sscanf\<close> with the verb \<open>%d\<close>: spaces (but no newline), a sign, at least one digit.\<close>

definition is_digit :: "char \<Rightarrow> bool" where
  "is_digit c \<longleftrightarrow> CHR ''0'' \<le> c \<and> c \<le> CHR ''9''"

definition digit_value :: "char \<Rightarrow> nat" where
  "digit_value c = of_char c - 48"

fun parse_decimal :: "nat \<Rightarrow> bytes \<Rightarrow> nat" where
  "parse_decimal acc [] = acc"
| "parse_decimal acc (c # cs) = parse_decimal (10 * acc + digit_value c) cs"

definition skip_space :: "bytes \<Rightarrow> bytes option" where
  "skip_space s = (let t = trim_left s in
     if CHR 0x0A \<in> set (take (length s - length t) s) then None else Some t)"

definition scan_int :: "bytes \<Rightarrow> (int \<times> bytes) option" where
  "scan_int s = (case skip_space s of None \<Rightarrow> None | Some t \<Rightarrow>
     let neg = (t \<noteq> [] \<and> hd t = CHR ''-'');
         u = (if t \<noteq> [] \<and> (hd t = CHR ''-'' \<or> hd t = CHR ''+'') then tl t else t);
         digits = takeWhile is_digit u;
         n = (if neg then - int (parse_decimal 0 digits) else int (parse_decimal 0 digits))
     in if digits = [] \<or> \<not> int64 n then None else Some (n, dropWhile is_digit u))"

definition scan_literal :: "bytes \<Rightarrow> bytes \<Rightarrow> bytes option" where
  "scan_literal lit s = (if take (length lit) s = lit then Some (drop (length lit) s) else None)"

definition scan_operation_id :: "bytes \<Rightarrow> (int \<times> int) option" where
  "scan_operation_id s =
     (case scan_literal ''turn:'' s of None \<Rightarrow> None | Some s1 \<Rightarrow>
      case scan_int s1 of None \<Rightarrow> None | Some (turn, s2) \<Rightarrow>
      case scan_literal '':call:'' s2 of None \<Rightarrow> None | Some s3 \<Rightarrow>
      case scan_int s3 of None \<Rightarrow> None | Some (slot, s4) \<Rightarrow> Some (turn, slot))"

text \<open>\<open>nextToolOperationTurn\<close>: the inner and the outer loop.\<close>

fun next_turn_calls :: "int \<Rightarrow> tool_call list \<Rightarrow> int" where
  "next_turn_calls n [] = n"
| "next_turn_calls n (call # calls) =
     (case scan_operation_id (tc_OperationID call) of
        Some (turn, slot) \<Rightarrow> next_turn_calls (if n \<le> turn then wrap64 (turn + 1) else n) calls
      | None \<Rightarrow> next_turn_calls n calls)"

fun next_turn_from :: "int \<Rightarrow> message list \<Rightarrow> int" where
  "next_turn_from n [] = n"
| "next_turn_from n (msg # msgs) = next_turn_from (next_turn_calls n (m_ToolCalls msg)) msgs"

definition nextToolOperationTurn :: "message list \<Rightarrow> int" where
  "nextToolOperationTurn messages = next_turn_from 0 messages"

section \<open>Bounded continuations\<close>

definition maxPauseContinuations :: int where "maxPauseContinuations = 8"
definition maxResponseRecoveries :: int where "maxResponseRecoveries = 3"

definition pauseContinuationObservation :: bytes where
  "pauseContinuationObservation = ''pause_continuation''"

fun has_pause :: "bool \<Rightarrow> observation list \<Rightarrow> bool" where
  "has_pause paused [] = paused"
| "has_pause paused (observation # observations) =
     (if ob_Kind observation = ''pause_input_progress'' then False
      else has_pause (paused \<or> ob_Kind observation = pauseContinuationObservation) observations)"

definition hasPauseContinuation :: "step \<Rightarrow> bool" where
  "hasPauseContinuation s = has_pause False (st_Observations s)"

definition consecutivePauseContinuations :: "step list \<Rightarrow> int" where
  "consecutivePauseContinuations steps = int (length (takeWhile hasPauseContinuation (rev steps)))"

definition pauseExhaustionError :: "step list \<Rightarrow> go_err option" where
  "pauseExhaustionError steps =
     (if consecutivePauseContinuations steps = 0 then None
      else Some (wrap_err ''loop allowance exhausted while the provider remained paused''
                   (sentinel ErrPauseContinuationLimit)))"

definition resetPauseForInput :: "nat \<Rightarrow> step list \<Rightarrow> step list" where
  "resetPauseForInput inputCount steps =
     (if inputCount = 0 \<or> steps = [] \<or> \<not> hasPauseContinuation (last steps) then steps
      else with_latest (\<lambda>s. s\<lparr>st_Observations := st_Observations s @
             [\<lparr>ob_Kind = ''pause_input_progress'',
               ob_Message = ''new input consumed at the next model boundary''\<rparr>]\<rparr>) steps)"

fun count_recoveries :: "observation list \<Rightarrow> int" where
  "count_recoveries [] = 0"
| "count_recoveries (observation # observations) =
     (if ob_Kind observation = ''response_recovery'' then 1 else 0) + count_recoveries observations"

fun responseRecoveryCount :: "step list \<Rightarrow> int" where
  "responseRecoveryCount [] = 0"
| "responseRecoveryCount (s # steps) = count_recoveries (st_Observations s) + responseRecoveryCount steps"

definition incompleteLoopError :: "step list \<Rightarrow> go_err option" where
  "incompleteLoopError steps =
     (case pauseExhaustionError steps of Some e \<Rightarrow> Some e | None \<Rightarrow>
        if steps \<noteq> [] \<and> 0 < responseRecoveryCount [last steps]
          then Some (sentinel ErrIncompleteResponse) else None)"

section \<open>Traces of tool calls\<close>

fun toolCallTraces :: "tool_call list \<Rightarrow> tool_result list \<Rightarrow> tool_trace list" where
  "toolCallTraces [] results = []"
| "toolCallTraces (call # calls) results =
     (let trace = \<lparr>tt_ID = tc_ID call, tt_Name = tc_Name call, tt_Arguments = tc_Arguments call,
                   tt_Output = [], tt_Error = []\<rparr>
      in case results of
           [] \<Rightarrow> trace # toolCallTraces calls []
         | result # rest \<Rightarrow>
             trace\<lparr>tt_Output := tr_Structured result,
                    tt_Error := (if tr_IsError result then tr_Content result else [])\<rparr>
             # toolCallTraces calls rest)"

section \<open>Lemmas\<close>

lemma with_latest_snoc [simp]: "with_latest f (xs @ [x]) = xs @ [f x]"
  by (simp add: with_latest_def)

lemma length_with_latest [simp]: "length (with_latest f xs) = length xs"
  by (simp add: with_latest_def)

lemma digit_char_digit [simp]: "d < 10 \<Longrightarrow> is_digit (digit_char d)"
  "d < 10 \<Longrightarrow> digit_value (digit_char d) = d"
proof -
  assume "d < 10"
  then have "d \<in> {0, 1, 2, 3, 4, 5, 6, 7, 8, 9}"
    by auto
  then show "is_digit (digit_char d)" "digit_value (digit_char d) = d"
    by (auto simp: is_digit_def digit_char_def digit_value_def less_eq_char_def)
qed

lemma parse_decimal_append:
  "parse_decimal acc (xs @ ys) = parse_decimal (parse_decimal acc xs) ys"
  by (induction xs arbitrary: acc) auto

lemma decimal_digits: "c \<in> set (decimal n) \<Longrightarrow> is_digit c"
proof (induction n arbitrary: c rule: decimal.induct)
  case (1 n)
  then show ?case
    by (subst (asm) (2) decimal.simps) (auto split: if_splits)
qed

lemma parse_decimal_decimal [simp]: "parse_decimal 0 (decimal n) = n"
proof (induction n rule: decimal.induct)
  case (1 n)
  then show ?case
    by (subst decimal.simps) (simp add: parse_decimal_append mult.commute div_mult_mod_eq)
qed

lemma digit_not_space: "is_digit c \<Longrightarrow> trim_left (c # s) = c # s"
proof -
  assume "is_digit c"
  then have "\<not> ascii_space c" "c < CHR 0x80"
    by (auto simp: is_digit_def ascii_space_def less_eq_char_def less_char_def)
  then have "\<not> starts_space (c # s)"
    by (auto simp: starts_space_def space2_def space3_def)
  then show ?thesis
    by (rule trim_left_fix)
qed

lemma scan_int_decimal:
  assumes "int64 (int n)" "rest = [] \<or> \<not> is_digit (hd rest)"
  shows "scan_int (decimal n @ rest) = Some (int n, rest)"
proof -
  obtain c cs where c: "decimal n = c # cs" "is_digit c"
    using decimal_digits [of _ n] by (cases "decimal n") auto
  have "takeWhile is_digit (decimal n @ rest) = decimal n" "dropWhile is_digit (decimal n @ rest) = rest"
    using assms(2) decimal_digits [of _ n]
    by (auto simp: takeWhile_append dropWhile_append takeWhile_eq_Nil_iff dropWhile_eq_self_iff)
  moreover have "c \<noteq> CHR ''-''" "c \<noteq> CHR ''+''"
    using c(2) by (auto simp: is_digit_def less_eq_char_def)
  moreover have "skip_space (decimal n @ rest) = Some (decimal n @ rest)"
    using digit_not_space [OF c(2), of "cs @ rest"] c(1) by (simp add: skip_space_def)
  moreover have "hd (decimal n @ rest) = c"
    using c(1) by simp
  ultimately show ?thesis
    using assms(1) by (simp add: scan_int_def Let_def)
qed

text \<open>An operation id is read back as it was written.\<close>

lemma scan_operation_id_roundtrip:
  assumes "0 \<le> turn" "0 \<le> slot" "int64 turn" "int64 slot"
  shows "scan_operation_id (operation_id turn slot) = Some (turn, slot)"
proof -
  have "\<not> is_digit (CHR '':'')"
    by (simp add: is_digit_def less_eq_char_def)
  then have "scan_int (decimal (nat turn) @ '':call:'' @ decimal (nat slot)) =
      Some (turn, '':call:'' @ decimal (nat slot))"
    using scan_int_decimal [of "nat turn" "'':call:'' @ decimal (nat slot)"] assms by simp
  moreover have "scan_int (decimal (nat slot)) = Some (slot, [])"
    using scan_int_decimal [of "nat slot" "[]"] assms by simp
  ultimately show ?thesis
    using assms(1,2) by (simp add: scan_operation_id_def operation_id_def scan_literal_def)
qed

lemma next_turn_calls_fresh:
  assumes "\<forall>c \<in> set calls. \<forall>t i. scan_operation_id (tc_OperationID c) = Some (t, i) \<longrightarrow> t < max_int"
    and "0 \<le> n"
  shows "n \<le> next_turn_calls n calls \<and>
    (\<forall>c \<in> set calls. \<forall>t i. scan_operation_id (tc_OperationID c) = Some (t, i) \<longrightarrow> t < next_turn_calls n calls)"
  using assms
proof (induction calls arbitrary: n)
  case (Cons c cs)
  show ?case
  proof (cases "scan_operation_id (tc_OperationID c)")
    case None
    then show ?thesis
      using Cons by simp
  next
    case (Some ti)
    then obtain t i where ti: "scan_operation_id (tc_OperationID c) = Some (t, i)"
      by (cases ti) auto
    let ?n = "if n \<le> t then wrap64 (t + 1) else n"
    have n: "n \<le> ?n" "t < ?n"
      using Cons.prems ti by (auto simp: int64_def min_int_def max_int_def)
    then show ?thesis
      using Cons.IH [of ?n] Cons.prems ti by (auto split: if_splits)
  qed
qed simp

lemma next_turn_from_fresh:
  assumes "\<forall>m \<in> set ms. \<forall>c \<in> set (m_ToolCalls m). \<forall>t i.
      scan_operation_id (tc_OperationID c) = Some (t, i) \<longrightarrow> t < max_int"
    and "0 \<le> n"
  shows "n \<le> next_turn_from n ms \<and> (\<forall>m \<in> set ms. \<forall>c \<in> set (m_ToolCalls m). \<forall>t i.
      scan_operation_id (tc_OperationID c) = Some (t, i) \<longrightarrow> t < next_turn_from n ms)"
  using assms
proof (induction ms arbitrary: n)
  case (Cons m ms)
  have "n \<le> next_turn_calls n (m_ToolCalls m)"
    "\<forall>c \<in> set (m_ToolCalls m). \<forall>t i. scan_operation_id (tc_OperationID c) = Some (t, i) \<longrightarrow>
       t < next_turn_calls n (m_ToolCalls m)"
    using next_turn_calls_fresh [of "m_ToolCalls m" n] Cons.prems by auto
  then show ?case
    using Cons.IH [of "next_turn_calls n (m_ToolCalls m)"] Cons.prems by (auto dest: order_trans)
qed simp

section \<open>Properties\<close>

text \<open>
  Operation ids stay unique when an execution goes on from a transcript: every id the next
  turns assign differs from every operation id the transcript holds, as long as no recorded
  ordinal is the largest 64-bit integer.
\<close>

theorem next_operation_turn_is_fresh:
  assumes "\<forall>m \<in> set ms. \<forall>c \<in> set (m_ToolCalls m). \<forall>t i.
      scan_operation_id (tc_OperationID c) = Some (t, i) \<longrightarrow> t < max_int"
    and "nextToolOperationTurn ms \<le> turn" "int64 turn" "0 \<le> slot" "int64 slot"
    and "m \<in> set ms" "c \<in> set (m_ToolCalls m)"
  shows "tc_OperationID c \<noteq> operation_id turn slot"
proof
  assume eq: "tc_OperationID c = operation_id turn slot"
  have f: "0 \<le> nextToolOperationTurn ms \<and> (\<forall>t i.
      scan_operation_id (tc_OperationID c) = Some (t, i) \<longrightarrow> t < nextToolOperationTurn ms)"
    using next_turn_from_fresh [OF assms(1), of 0] assms(6,7) by (auto simp: nextToolOperationTurn_def)
  then have "scan_operation_id (tc_OperationID c) = Some (turn, slot)"
    using scan_operation_id_roundtrip [of turn slot] assms(2-5) eq by simp
  then show False
    using f assms(2) by force
qed

definition sample_op_call :: tool_call where
  "sample_op_call = \<lparr>tc_ID = ''a'', tc_Name = ''echo'', tc_Arguments = [], tc_OperationID = ''turn:4:call:0''\<rparr>"

lemma scan_sample [simp]: "scan_operation_id ''turn:4:call:0'' = Some (4, 0)"
  by (simp add: scan_operation_id_def scan_literal_def scan_int_def skip_space_def Let_def is_digit_def
      less_eq_char_def ascii_space_def space2_def space3_def digit_value_def int64_def min_int_def
      max_int_def)

theorem next_operation_turn_is_fresh_witness:
  "tc_OperationID sample_op_call \<noteq> operation_id 5 0"
proof -
  let ?m = "zero_message\<lparr>m_Role := RoleAssistant, m_ToolCalls := [sample_op_call]\<rparr>"
  have "nextToolOperationTurn [?m] \<le> 5"
    by (simp add: nextToolOperationTurn_def sample_op_call_def int64_def min_int_def max_int_def)
  then show ?thesis
    by (intro next_operation_turn_is_fresh [of "[?m]" 5 0 ?m])
       (auto simp: sample_op_call_def int64_def min_int_def max_int_def)
qed

end
