(* ===== verification/Continuation.thy ===== *)
theory Continuation
  imports Steps History
begin

text \<open>
  Continuations: \<open>src/agent/continuation.go\<close>, the checks persisted state has to pass before an
  execution resumes from it.  \<open>json.Valid\<close> of the output schema is the argument \<open>json_valid\<close>.
  Every error wraps \<open>ErrInvalidContinuation\<close>.  The lemmas relate the transcript scan to a
  declarative grammar of transcripts and to the tool-turn validator of package message, and
  derive from an accepted continuation the accounting facts a resumed loop relies on.
\<close>

section \<open>Data\<close>

datatype continuation_phase =
    ContinuationReady | ContinuationModelComplete | ContinuationToolsComplete
  | ContinuationValidatingOutput | ContinuationOther bytes

record output_policy =
  op_Schema :: bytes
  op_Validate :: bool
  op_Repair :: bool
  op_MaxRepairAttempts :: int
  op_Native :: bool

record continuation =
  k_SchemaVersion :: int
  k_Request :: request
  k_OutputPolicy :: output_policy
  k_Messages :: "message list"
  k_Usage :: usage
  k_ContextUsage :: usage
  k_Steps :: "step list"
  k_ToolCallsUsed :: int
  k_RepairCount :: int
  k_ActiveElapsed :: int
  k_NextOperationTurn :: int
  k_Phase :: continuation_phase

definition ContinuationSchemaVersion :: int where "ContinuationSchemaVersion = 2"

definition continuation_error :: "bytes \<Rightarrow> go_err" where
  "continuation_error t = wrap_err t (sentinel ErrInvalidContinuation)"

section \<open>The transcript\<close>

record transcript_analysis =
  ta_pending :: bool
  ta_endsWithToolResults :: bool
  ta_pendingCalls :: "tool_call list"
  ta_assistantIndices :: "nat list"
  ta_maxOperationTurn :: int

text \<open>The loop over the calls of one assistant message.\<close>

fun analyze_calls :: "nat \<Rightarrow> bytes list \<Rightarrow> int \<Rightarrow> tool_call list \<Rightarrow> go_err + int" where
  "analyze_calls i seen highest [] = Inr highest"
| "analyze_calls i seen highest (call # calls) =
     (if tc_ID call = [] \<or> tc_Name call = [] then Inl (continuation_error ''unnamed tool call'')
      else if tc_ID call \<in> set seen then Inl (continuation_error ''repeats tool call ID'')
      else if tc_OperationID call = [] then analyze_calls (Suc i) (tc_ID call # seen) highest calls
      else case scan_operation_id (tc_OperationID call) of
          None \<Rightarrow> Inl (continuation_error ''invalid operation ID'')
        | Some (turn, slot) \<Rightarrow>
            if tc_OperationID call \<noteq> operation_id turn slot \<or> turn < 0 \<or> slot \<noteq> int i
              then Inl (continuation_error ''invalid operation ID'')
            else analyze_calls (Suc i) (tc_ID call # seen) (max highest turn) calls)"

text \<open>
  The loop over the messages.  The state is the message index, the calls of the open tool turn,
  the number of them already answered, and the analysis so far.
\<close>

fun analyze_loop ::
  "nat \<Rightarrow> tool_call list \<Rightarrow> nat \<Rightarrow> transcript_analysis \<Rightarrow> message list \<Rightarrow> go_err + transcript_analysis" where
  "analyze_loop index pending pendingIndex a [] =
     Inr (a\<lparr>ta_pending := (pending \<noteq> []), ta_pendingCalls := pending\<rparr>)"
| "analyze_loop index pending pendingIndex a (current # rest) =
     (if pending \<noteq> []
        then (if m_Role current \<noteq> RoleTool then Inl (continuation_error ''splits a tool result sequence'')
              else case m_ToolResult current of
                  None \<Rightarrow> Inl (continuation_error ''splits a tool result sequence'')
                | Some r \<Rightarrow>
                    if tr_ToolCallID r \<noteq> tc_ID (pending ! pendingIndex)
                      then Inl (continuation_error ''answers another tool call'')
                    else let a' = a\<lparr>ta_endsWithToolResults := True\<rparr> in
                      if Suc pendingIndex = length pending then analyze_loop (Suc index) [] 0 a' rest
                      else analyze_loop (Suc index) pending (Suc pendingIndex) a' rest)
      else let a' = a\<lparr>ta_endsWithToolResults := False\<rparr> in
        if m_Role current = RoleTool then Inl (continuation_error ''orphan tool result'')
        else if m_Role current \<noteq> RoleAssistant then analyze_loop (Suc index) [] 0 a' rest
        else let a'' = a'\<lparr>ta_assistantIndices := ta_assistantIndices a' @ [index]\<rparr> in
          if m_ToolCalls current = [] then analyze_loop (Suc index) [] 0 a'' rest
          else case analyze_calls 0 [] (ta_maxOperationTurn a'') (m_ToolCalls current) of
              Inl e \<Rightarrow> Inl e
            | Inr highest \<Rightarrow> analyze_loop (Suc index) (m_ToolCalls current) 0
                (a''\<lparr>ta_maxOperationTurn := highest\<rparr>) rest)"

definition new_analysis :: transcript_analysis where
  "new_analysis = \<lparr>ta_pending = False, ta_endsWithToolResults = False, ta_pendingCalls = [],
     ta_assistantIndices = [], ta_maxOperationTurn = -1\<rparr>"

definition analyzeTranscript :: "message list \<Rightarrow> go_err + transcript_analysis" where
  "analyzeTranscript messages = analyze_loop 0 [] 0 new_analysis messages"

section \<open>Scalars\<close>

definition validateContinuationBudget :: "budget option \<Rightarrow> go_err option" where
  "validateContinuationBudget budget = (case budget of None \<Rightarrow> None | Some b \<Rightarrow>
     if b_MaxTokens b < 0 \<or> b_MaxToolCalls b < 0 \<or> b_MaxSteps b < 0 \<or> b_MaxWallClock b < 0
     then Some (continuation_error ''negative request budget'') else None)"

definition validateContinuationOutputPolicy :: "(bytes \<Rightarrow> bool) \<Rightarrow> output_policy \<Rightarrow> go_err option" where
  "validateContinuationOutputPolicy json_valid policy =
     (if op_MaxRepairAttempts policy < 0 then Some (continuation_error ''negative repair attempt limit'')
      else if op_Schema policy \<noteq> [] \<and> \<not> json_valid (op_Schema policy)
        then Some (continuation_error ''output schema is invalid JSON'')
      else None)"

definition validateContinuationScalars :: "(bytes \<Rightarrow> bool) \<Rightarrow> continuation \<Rightarrow> go_err option" where
  "validateContinuationScalars json_valid k =
     (if k_ToolCallsUsed k < 0 \<or> k_RepairCount k < 0 \<or> k_ActiveElapsed k < 0 \<or> k_NextOperationTurn k < 0
        then Some (continuation_error ''negative counter or duration'')
      else case validateContinuationBudget (r_Budget (k_Request k)) of Some e \<Rightarrow> Some e | None \<Rightarrow>
      case validateSessionBudget (r_SessionBudget (k_Request k)) of
        Some e \<Rightarrow> Some (continuation_error ''session budget'') | None \<Rightarrow>
      case validateModelTimeouts (r_ModelTimeouts (k_Request k)) of
        Some e \<Rightarrow> Some (continuation_error ''model timeouts'') | None \<Rightarrow>
      case validateContinuationOutputPolicy json_valid (k_OutputPolicy k) of Some e \<Rightarrow> Some e | None \<Rightarrow>
      case validateContinuationUsage (k_Usage k) of Some t \<Rightarrow> Some (continuation_error t) | None \<Rightarrow>
      case validateContinuationUsage (k_ContextUsage k) of
        Some t \<Rightarrow> Some (continuation_error (''context usage: '' @ t)) | None \<Rightarrow> None)"

section \<open>Phases\<close>

definition validateContinuationPhaseTranscript ::
  "continuation \<Rightarrow> transcript_analysis \<Rightarrow> go_err option" where
  "validateContinuationPhaseTranscript k a = (case k_Phase k of
       ContinuationReady \<Rightarrow>
         if ta_pending a then Some (continuation_error ''ready phase has pending tool calls'') else None
     | ContinuationModelComplete \<Rightarrow>
         if \<not> ta_pending a then Some (continuation_error ''model_complete phase has no pending tool calls'')
         else None
     | ContinuationToolsComplete \<Rightarrow>
         if ta_pending a \<or> \<not> ta_endsWithToolResults a
           then Some (continuation_error ''tools_complete phase does not end with a complete tool turn'')
         else None
     | ContinuationValidatingOutput \<Rightarrow>
         if ta_pending a \<or> k_Messages k = []
           then Some (continuation_error ''validating_output phase has incomplete output'')
         else if m_Role (last (k_Messages k)) \<noteq> RoleAssistant \<or> m_ToolCalls (last (k_Messages k)) \<noteq> []
           then Some (continuation_error ''validating_output phase must end with assistant output'')
         else None
     | ContinuationOther p \<Rightarrow> Some (continuation_error (''unknown phase '' @ p)))"

definition validCompletedStepDecision :: "step_decision \<Rightarrow> bool" where
  "validCompletedStepDecision d \<longleftrightarrow> d \<in> {StepDecisionContinue, StepDecisionFinish, StepDecisionFail}"

definition validateContinuationPhaseSteps ::
  "continuation \<Rightarrow> transcript_analysis \<Rightarrow> go_err option" where
  "validateContinuationPhaseSteps k a = (case k_Phase k of
       ContinuationModelComplete \<Rightarrow>
         if k_Steps k = [] \<or> ta_pendingCalls a = []
           then Some (continuation_error ''model_complete phase has no current model step'') else None
     | ContinuationToolsComplete \<Rightarrow>
         if k_Steps k = [] \<or> st_ToolCalls (last (k_Steps k)) = []
           then Some (continuation_error ''tools_complete phase has no completed tool step'')
         else if \<not> validCompletedStepDecision (st_Decision (last (k_Steps k)))
           then Some (continuation_error ''tools_complete phase has invalid decision'')
         else None
     | ContinuationReady \<Rightarrow>
         if k_Steps k \<noteq> [] \<and> st_Decision (last (k_Steps k)) \<noteq> StepDecisionContinue
           then Some (continuation_error ''ready phase does not follow a continue decision'') else None
     | ContinuationValidatingOutput \<Rightarrow>
         if k_Steps k = [] then Some (continuation_error ''validating_output phase has no current model step'')
         else if st_Decision (last (k_Steps k)) \<noteq> StepDecisionFinish
           then Some (continuation_error ''validating_output phase does not follow a finish decision'')
         else None
     | ContinuationOther p \<Rightarrow> None)"

section \<open>Steps\<close>

definition modelCallUsage :: "model_call \<Rightarrow> usage" where
  "modelCallUsage call = mc_Usage call"

definition validModelCallUsage :: "model_call \<Rightarrow> bool" where
  "validModelCallUsage call = (let u = mc_Usage call in
     if u_InputTokens u < 0 \<or> u_CachedInputTokens u < 0 \<or> u_CacheWriteInputTokens u < 0 \<or>
        u_OutputTokens u < 0 \<or> u_ReasoningTokens u < 0 \<or> u_TotalTokens u < 0 then False
     else u_CachedInputTokens u \<le> u_InputTokens u \<and> u_CacheWriteInputTokens u \<le> u_InputTokens u \<and>
        u_ReasoningTokens u \<le> u_OutputTokens u \<and>
        wrap64 (u_InputTokens u + u_OutputTokens u) \<le> u_TotalTokens u)"

fun same_traces :: "tool_trace list \<Rightarrow> tool_call list \<Rightarrow> bool" where
  "same_traces [] [] = True"
| "same_traces (t # ts) (c # cs) =
     (tt_ID t = tc_ID c \<and> tt_Name t = tc_Name c \<and> tt_Arguments t = tc_Arguments c \<and> same_traces ts cs)"
| "same_traces _ _ = False"

definition validateStepToolCalls :: "tool_trace list \<Rightarrow> tool_call list \<Rightarrow> go_err option" where
  "validateStepToolCalls traces calls =
     (if length traces \<noteq> length calls then Some (continuation_error ''tool traces for calls'')
      else if \<not> same_traces traces calls
        then Some (continuation_error ''tool trace does not match transcript'')
      else None)"

fun operation_ids_ok :: "int \<Rightarrow> nat \<Rightarrow> tool_call list \<Rightarrow> bool" where
  "operation_ids_ok turn i [] = True"
| "operation_ids_ok turn i (call # calls) =
     (tc_OperationID call = operation_id turn (int i) \<and> operation_ids_ok turn (Suc i) calls)"

text \<open>\<open>previous\<close> is the token snapshot of the step before, when there is one.\<close>

definition validateContinuationStepBudget ::
  "int option \<Rightarrow> step \<Rightarrow> model_call \<Rightarrow> message \<Rightarrow> bool \<Rightarrow> int \<Rightarrow> usage \<Rightarrow> go_err option" where
  "validateContinuationStepBudget previous s call assistant pendingStep completedToolCalls cumulative =
     (let minimum0 = u_TotalTokens (usage_add cumulative (st_ContextUsage s));
          minimumTokens = (case previous of None \<Rightarrow> minimum0
            | Some t \<Rightarrow> max minimum0 (wrap64 (t + u_TotalTokens (modelCallUsage call))))
      in if bu_ToolCalls (st_BudgetUsed s) \<noteq> completedToolCalls
           then Some (continuation_error ''tool-call budget snapshot is inconsistent'')
         else if pendingStep \<or> m_ToolCalls assistant = []
           then (if bu_Tokens (st_BudgetUsed s) \<noteq> minimumTokens
                 then Some (continuation_error ''token budget snapshot is inconsistent'') else None)
         else if bu_Tokens (st_BudgetUsed s) < minimumTokens
           then Some (continuation_error ''token budget snapshot is below model usage'')
         else None)"

text \<open>One step; \<open>is_last\<close> says whether it is the last of the continuation's steps.\<close>

definition validateContinuationStep ::
  "continuation_phase \<Rightarrow> bool \<Rightarrow> int option \<Rightarrow> nat \<Rightarrow> step \<Rightarrow> message \<Rightarrow> int \<Rightarrow> int \<Rightarrow> usage \<Rightarrow> usage
     \<Rightarrow> go_err + (int \<times> usage)" where
  "validateContinuationStep phase is_last previous index s assistant operationTurn completed cumulative
     previousContext =
     (if st_Index s \<noteq> int index then Inl (continuation_error ''step has another index'')
      else if bu_Tokens (st_BudgetUsed s) < 0 \<or> bu_ToolCalls (st_BudgetUsed s) < 0 \<or>
              bu_WallClock (st_BudgetUsed s) < 0
        then Inl (continuation_error ''negative budget usage'')
      else case validateContinuationUsage (st_ContextUsage s) of
        Some t \<Rightarrow> Inl (continuation_error (''context usage: '' @ t)) | None \<Rightarrow>
      if \<not> usageContains (st_ContextUsage s) previousContext
        then Inl (continuation_error ''context usage regresses cumulative usage'')
      else case st_ModelCall s of
        None \<Rightarrow> Inl (continuation_error ''missing model usage'')
      | Some call \<Rightarrow>
      if \<not> validModelCallUsage call then Inl (continuation_error ''inconsistent model usage'')
      else if \<not> is_last \<and> st_Decision s \<noteq> StepDecisionContinue
        then Inl (continuation_error ''terminal decision before a later step'')
      else if \<not> operation_ids_ok operationTurn 0 (m_ToolCalls assistant)
        then Inl (continuation_error ''operation ID'')
      else let pendingStep = (phase = ContinuationModelComplete \<and> is_last) in
      case (if pendingStep
              then (if st_ToolCalls s \<noteq> [] \<or> st_Decision s \<noteq> StepDecisionContinue
                    then Some (continuation_error ''model_complete step is already finalized'') else None)
            else validateStepToolCalls (st_ToolCalls s) (m_ToolCalls assistant)) of
        Some e \<Rightarrow> Inl e
      | None \<Rightarrow>
        let completed' = (if pendingStep then completed else completed + int (length (m_ToolCalls assistant)));
            cumulative' = usage_add cumulative (modelCallUsage call)
        in case validateContinuationStepBudget previous s call assistant pendingStep completed' cumulative' of
             Some e \<Rightarrow> Inl e
           | None \<Rightarrow> Inr (completed', cumulative'))"

text \<open>The loop of \<open>validateContinuationSteps\<close>; \<open>assistants\<close> are the generated assistant turns.\<close>

fun validate_steps ::
  "continuation_phase \<Rightarrow> int \<Rightarrow> int option \<Rightarrow> nat \<Rightarrow> step list \<Rightarrow> message list \<Rightarrow> int \<Rightarrow> usage \<Rightarrow> usage
     \<Rightarrow> go_err + (int \<times> usage)" where
  "validate_steps phase firstTurn previous index (s # steps) (assistant # assistants) completed cumulative
     previousContext =
     (case validateContinuationStep phase (steps = []) previous index s assistant
             (wrap64 (firstTurn + int index)) completed cumulative previousContext of
        Inl e \<Rightarrow> Inl e
      | Inr (completed', cumulative') \<Rightarrow>
          validate_steps phase firstTurn (Some (bu_Tokens (st_BudgetUsed s))) (Suc index) steps assistants
            completed' cumulative' (st_ContextUsage s))"
| "validate_steps phase firstTurn previous index _ _ completed cumulative previousContext =
     Inr (completed, cumulative)"

definition generated_assistants :: "continuation \<Rightarrow> transcript_analysis \<Rightarrow> message list" where
  "generated_assistants k a =
     map (\<lambda>i. k_Messages k ! i)
       (drop (length (ta_assistantIndices a) - length (k_Steps k)) (ta_assistantIndices a))"

definition validateContinuationSteps ::
  "continuation \<Rightarrow> transcript_analysis \<Rightarrow> go_err + (int \<times> usage)" where
  "validateContinuationSteps k a =
     (if k_NextOperationTurn k < int (length (k_Steps k))
        then Inl (continuation_error ''next operation turn precedes completed model turns'')
      else if length (ta_assistantIndices a) < length (k_Steps k)
        then Inl (continuation_error ''steps have only assistant turns'')
      else validate_steps (k_Phase k) (k_NextOperationTurn k - int (length (k_Steps k))) None 0
             (k_Steps k) (generated_assistants k a) 0 zero_usage zero_usage)"

definition validateContinuationTotals ::
  "continuation \<Rightarrow> transcript_analysis \<Rightarrow> int \<Rightarrow> usage \<Rightarrow> go_err option" where
  "validateContinuationTotals k a completedToolCalls cumulativeModelUsage =
     (if k_ToolCallsUsed k \<noteq> completedToolCalls
        then Some (continuation_error ''toolCallsUsed does not match completed execution count'')
      else if k_Steps k \<noteq> [] \<and> \<not> usageContains (k_ContextUsage k) (st_ContextUsage (last (k_Steps k)))
        then Some (continuation_error ''cumulative context usage is below step snapshot'')
      else if u_TotalTokens (k_Usage k) \<noteq>
          (if k_Steps k = [] then u_TotalTokens (k_ContextUsage k)
           else bu_Tokens (st_BudgetUsed (last (k_Steps k))))
        then Some (continuation_error ''cumulative token usage does not match step budget'')
      else if \<not> usageContains (k_Usage k) (usage_add cumulativeModelUsage (k_ContextUsage k))
        then Some (continuation_error ''cumulative usage is below model and context work'')
      else if k_NextOperationTurn k \<le> ta_maxOperationTurn a
        then Some (continuation_error ''next operation turn does not follow transcript turn'')
      else None)"

section \<open>Validation\<close>

definition ValidateContinuation :: "(bytes \<Rightarrow> bool) \<Rightarrow> continuation \<Rightarrow> go_err option" where
  "ValidateContinuation json_valid k =
     (if k_SchemaVersion k \<noteq> 1 \<and> k_SchemaVersion k \<noteq> ContinuationSchemaVersion
        then Some (continuation_error ''unsupported schema version'')
      else if k_SchemaVersion k = 1 \<and>
          (r_Content (k_Request k) \<noteq> [] \<or> op_Native (k_OutputPolicy k) \<or> k_ContextUsage k \<noteq> zero_usage)
        then Some (continuation_error ''requires schema version 2'')
      else if k_SchemaVersion k = 1 \<and> (\<exists>s \<in> set (k_Steps k). st_ContextUsage s \<noteq> zero_usage)
        then Some (continuation_error ''step context usage requires schema version 2'')
      else case Request_Validate (k_Request k) of
        Some e \<Rightarrow> Some (continuation_error ''invalid request content'') | None \<Rightarrow>
      case validateContinuationScalars json_valid k of Some e \<Rightarrow> Some e | None \<Rightarrow>
      case analyzeTranscript (k_Messages k) of Inl e \<Rightarrow> Some e | Inr a \<Rightarrow>
      case validateContinuationPhaseTranscript k a of Some e \<Rightarrow> Some e | None \<Rightarrow>
      case validateContinuationSteps k a of Inl e \<Rightarrow> Some e | Inr (completed, cumulative) \<Rightarrow>
      case validateContinuationTotals k a completed cumulative of Some e \<Rightarrow> Some e | None \<Rightarrow>
      validateContinuationPhaseSteps k a)"

section \<open>The grammar of transcripts\<close>

text \<open>The call at an index of an assistant turn is well-formed.\<close>

definition call_ok :: "nat \<Rightarrow> tool_call \<Rightarrow> bool" where
  "call_ok i c \<longleftrightarrow> tc_ID c \<noteq> [] \<and> tc_Name c \<noteq> [] \<and>
     (tc_OperationID c = [] \<or>
        (\<exists>turn. 0 \<le> turn \<and> scan_operation_id (tc_OperationID c) = Some (turn, int i) \<and>
           tc_OperationID c = operation_id turn (int i)))"

fun calls_ok :: "nat \<Rightarrow> tool_call list \<Rightarrow> bool" where
  "calls_ok i [] = True"
| "calls_ok i (c # cs) = (call_ok i c \<and> calls_ok (Suc i) cs)"

text \<open>A tool message that answers a call; the first results of a tool turn.\<close>

definition answers_call :: "tool_call \<Rightarrow> message \<Rightarrow> bool" where
  "answers_call c m \<longleftrightarrow> m_Role m = RoleTool \<and>
     (\<exists>r. m_ToolResult m = Some r \<and> tr_ToolCallID r = tc_ID c)"

definition open_turn :: "message \<Rightarrow> bool" where
  "open_turn m \<longleftrightarrow> m_Role m = RoleAssistant \<and> m_ToolCalls m \<noteq> [] \<and> calls_ok 0 (m_ToolCalls m) \<and>
     distinct (map tc_ID (m_ToolCalls m))"

definition no_turn :: "message \<Rightarrow> bool" where
  "no_turn m \<longleftrightarrow> m_Role m \<noteq> RoleTool \<and> (m_Role m = RoleAssistant \<longrightarrow> m_ToolCalls m = [])"

text \<open>A transcript, with the calls of the last turn that are still to be answered.\<close>

inductive transcript :: "tool_call list \<Rightarrow> message list \<Rightarrow> bool" where
  transcript_Nil: "transcript [] []"
| transcript_plain: "no_turn m \<Longrightarrow> transcript cs ms \<Longrightarrow> transcript cs (m # ms)"
| transcript_turn: "open_turn m \<Longrightarrow> list_all2 answers_call (m_ToolCalls m) rs \<Longrightarrow> transcript cs ms \<Longrightarrow>
     transcript cs (m # rs @ ms)"
| transcript_open: "open_turn m \<Longrightarrow> length rs < length (m_ToolCalls m) \<Longrightarrow>
     list_all2 answers_call (take (length rs) (m_ToolCalls m)) rs \<Longrightarrow>
     transcript (drop (length rs) (m_ToolCalls m)) (m # rs)"

lemma analyze_calls_ok:
  "(\<exists>t. analyze_calls i seen highest calls = Inr t) \<longleftrightarrow>
     calls_ok i calls \<and> distinct (map tc_ID calls) \<and> set seen \<inter> tc_ID ` set calls = {}"
proof (induction i seen highest calls rule: analyze_calls.induct)
  case (2 i seen highest call calls)
  show ?case
  proof (cases "tc_OperationID call = []")
    case True
    then show ?thesis
      using 2(1) by (auto simp: call_ok_def)
  next
    case False
    then show ?thesis
      using 2(2) by (auto simp: call_ok_def split: option.splits)
  qed
qed simp

lemma analyze_calls_max:
  "analyze_calls i seen highest calls = Inr t \<Longrightarrow>
     highest \<le> t \<and> (\<forall>c \<in> set calls. \<forall>turn slot.
       scan_operation_id (tc_OperationID c) = Some (turn, slot) \<longrightarrow> turn \<le> t)"
proof (induction i seen highest calls rule: analyze_calls.induct)
  case (2 i seen highest call calls)
  then show ?case
    by (auto simp: scan_operation_id_def scan_literal_def split: if_splits option.splits prod.splits)
qed simp

lemma matched_prefix_Cons:
  "(\<exists>rs rest. m # ms = rs @ rest \<and> list_all2 R (x # xs) rs \<and> P (length rs) rest) \<longleftrightarrow>
     R x m \<and> (\<exists>rs rest. ms = rs @ rest \<and> list_all2 R xs rs \<and> P (Suc (length rs)) rest)" (is "?l = ?r")
proof
  assume ?l
  then obtain rs rest where "m # ms = rs @ rest" "list_all2 R (x # xs) rs" "P (length rs) rest"
    by blast
  then show ?r
    by (cases rs) auto
next
  assume ?r
  then obtain rs rest where "R x m" "ms = rs @ rest" "list_all2 R xs rs" "P (Suc (length rs)) rest"
    by blast
  then show ?l
    by (intro exI [of _ "m # rs"] exI [of _ rest]) simp
qed

text \<open>The scan inside an open turn: the answers that follow.\<close>

lemma analyze_loop_results:
  assumes "i < length pending"
  shows "(\<exists>b. analyze_loop index pending i a ms = Inr b \<and> ta_pending b = x) \<longleftrightarrow>
    (\<exists>rs rest. ms = rs @ rest \<and> list_all2 answers_call (drop i pending) rs \<and>
       (\<exists>b. analyze_loop (index + length rs) [] 0 (a\<lparr>ta_endsWithToolResults := True\<rparr>) rest = Inr b \<and>
          ta_pending b = x)) \<or>
    (x \<and> length ms < length (drop i pending) \<and>
       list_all2 answers_call (take (length ms) (drop i pending)) ms)"
  using assms
proof (induction ms arbitrary: index i a)
  case (Cons m ms)
  have d: "drop i pending = pending ! i # drop (Suc i) pending"
    using Cons.prems by (simp add: Cons_nth_drop_Suc)
  show ?case
  proof (cases "answers_call (pending ! i) m")
    case False
    then have "\<not> (\<exists>b. analyze_loop index pending i a (m # ms) = Inr b)"
      using Cons.prems by (auto simp: answers_call_def split: option.splits)
    then show ?thesis
      using False d by (auto simp: list_all2_Cons1)
  next
    case True
    then obtain r where r: "m_Role m = RoleTool" "m_ToolResult m = Some r" "tr_ToolCallID r = tc_ID (pending ! i)"
      by (auto simp: answers_call_def)
    show ?thesis
    proof (cases "Suc i = length pending")
      case True
      have "(\<exists>rs rest. m # ms = rs @ rest \<and> list_all2 answers_call (drop i pending) rs \<and> P rs rest) = P [m] ms"
        for P
      proof
        assume "P [m] ms"
        then show "\<exists>rs rest. m # ms = rs @ rest \<and> list_all2 answers_call (drop i pending) rs \<and> P rs rest"
          using d True \<open>answers_call (pending ! i) m\<close> by (intro exI [of _ "[m]"] exI [of _ ms]) simp
      qed (use d True in \<open>auto simp: list_all2_Cons1\<close>)
      moreover have "pending \<noteq> []"
        using Cons.prems by auto
      ultimately show ?thesis
        using True r d Cons.prems by simp
    next
      case False
      then have "Suc i < length pending"
        using Cons.prems by simp
      note ih = Cons.IH [OF this, of "Suc index" "a\<lparr>ta_endsWithToolResults := True\<rparr>"]
      have run: "analyze_loop index pending i a (m # ms) =
          analyze_loop (Suc index) pending (Suc i) (a\<lparr>ta_endsWithToolResults := True\<rparr>) ms"
        using r False Cons.prems by auto
      have split: "(\<exists>rs rest. m # ms = rs @ rest \<and> list_all2 answers_call (drop i pending) rs \<and>
            P (index + length rs) rest) =
          (\<exists>rs rest. ms = rs @ rest \<and> list_all2 answers_call (drop (Suc i) pending) rs \<and>
            P (Suc index + length rs) rest)" for P
        using matched_prefix_Cons [of m ms answers_call "pending ! i" "drop (Suc i) pending"
            "\<lambda>n. P (index + n)"] d \<open>answers_call (pending ! i) m\<close> by simp
      have "length (m # ms) < length (drop i pending) \<longleftrightarrow> length ms < length (drop (Suc i) pending)"
        "list_all2 answers_call (take (length (m # ms)) (drop i pending)) (m # ms) \<longleftrightarrow>
         list_all2 answers_call (take (length ms) (drop (Suc i) pending)) ms"
        using d \<open>answers_call (pending ! i) m\<close> by simp_all
      then show ?thesis
        unfolding run ih split [of "\<lambda>j rest. \<exists>b. analyze_loop j [] 0 (a\<lparr>ta_endsWithToolResults := True\<rparr>) rest = Inr b \<and>
          ta_pending b = x"] by simp
    qed
  qed
qed (auto simp: list_all2_Nil2)

lemma transcript_Cons_iff:
  "transcript cs (m # ms) \<longleftrightarrow>
     (no_turn m \<and> transcript cs ms) \<or>
     (open_turn m \<and>
        ((\<exists>rs rest. ms = rs @ rest \<and> list_all2 answers_call (m_ToolCalls m) rs \<and> transcript cs rest) \<or>
         (cs = drop (length ms) (m_ToolCalls m) \<and> length ms < length (m_ToolCalls m) \<and>
          list_all2 answers_call (take (length ms) (m_ToolCalls m)) ms)))"
  by (subst transcript.simps) auto

lemma analyze_loop_transcript:
  "(\<exists>b. analyze_loop index [] 0 a ms = Inr b \<and> ta_pending b = x) \<longleftrightarrow>
     (\<exists>cs. transcript cs ms \<and> (cs \<noteq> []) = x)"
proof (induction "length ms" arbitrary: ms index a rule: less_induct)
  case less
  show ?case
  proof (cases ms)
    case Nil
    have "transcript cs [] = (cs = [])" for cs
      by (subst transcript.simps) auto
    then show ?thesis
      using Nil by auto
  next
    case (Cons m rest)
    consider (bad) "m_Role m = RoleTool" | (plain) "no_turn m"
      | (turn) "m_Role m = RoleAssistant" "m_ToolCalls m \<noteq> []"
      by (auto simp: no_turn_def)
    then show ?thesis
    proof cases
      case bad
      then show ?thesis
        using Cons by (auto simp: transcript_Cons_iff no_turn_def open_turn_def)
    next
      case plain
      then have "\<not> open_turn m"
        by (auto simp: no_turn_def open_turn_def)
      then show ?thesis
        using less [of rest] plain Cons
        by (cases "m_Role m = RoleAssistant") (auto simp: transcript_Cons_iff no_turn_def Let_def)
    next
      case turn
      then have nt: "\<not> no_turn m"
        by (auto simp: no_turn_def)
      let ?a = "a\<lparr>ta_endsWithToolResults := False, ta_assistantIndices := ta_assistantIndices a @ [index]\<rparr>"
      show ?thesis
      proof (cases "analyze_calls 0 [] (ta_maxOperationTurn a) (m_ToolCalls m)")
        case (Inl e)
        then have "\<not> open_turn m"
          using analyze_calls_ok [of 0 "[]" "ta_maxOperationTurn a" "m_ToolCalls m"]
          by (auto simp: open_turn_def)
        then show ?thesis
          using Inl turn nt Cons by (simp add: transcript_Cons_iff Let_def)
      next
        case (Inr t)
        then have o: "open_turn m"
          using analyze_calls_ok [of 0 "[]" "ta_maxOperationTurn a" "m_ToolCalls m"] turn
          by (auto simp: open_turn_def)
        have run: "analyze_loop index [] 0 a ms =
            analyze_loop (Suc index) (m_ToolCalls m) 0 (?a\<lparr>ta_maxOperationTurn := t\<rparr>) rest"
          using Inr turn Cons by (simp add: Let_def)
        have ih: "(\<exists>b. analyze_loop j [] 0 c tail = Inr b \<and> ta_pending b = x) \<longleftrightarrow>
            (\<exists>cs. transcript cs tail \<and> (cs \<noteq> []) = x)"
          if "rest = rs @ tail" for j c rs tail
          using that less [of tail] Cons by simp
        let ?cut = "x \<and> length rest < length (m_ToolCalls m) \<and>
          list_all2 answers_call (take (length rest) (m_ToolCalls m)) rest"
        have "(\<exists>b. analyze_loop index [] 0 a ms = Inr b \<and> ta_pending b = x) \<longleftrightarrow>
            (\<exists>rs tail. rest = rs @ tail \<and> list_all2 answers_call (m_ToolCalls m) rs \<and>
               (\<exists>cs. transcript cs tail \<and> (cs \<noteq> []) = x)) \<or> ?cut"
          unfolding run
          using analyze_loop_results [of 0 "m_ToolCalls m" "Suc index" "?a\<lparr>ta_maxOperationTurn := t\<rparr>" rest x]
            turn(2) ih by (simp cong: conj_cong)
        also have "\<dots> \<longleftrightarrow> (\<exists>cs. transcript cs ms \<and> (cs \<noteq> []) = x)"
          unfolding Cons transcript_Cons_iff using nt o by (auto simp: drop_eq_Nil2)
        finally show ?thesis .
      qed
    qed
  qed
qed

section \<open>Transcripts and tool turns\<close>

lemma calls_ok_named: "calls_ok i cs \<Longrightarrow> c \<in> set cs \<Longrightarrow> tc_ID c \<noteq> []"
  by (induction cs arbitrary: i) (auto simp: call_ok_def)

lemma call_indexes_distinct:
  assumes "distinct (map tc_ID cs)" "\<forall>c \<in> set cs. tc_ID c \<noteq> [] \<and> m (tc_ID c) = None"
  shows "\<exists>idx. call_indexes j cs m = Inr idx \<and> (\<forall>i < length cs. idx (tc_ID (cs ! i)) = Some (j + i)) \<and>
    (\<forall>k. k \<notin> tc_ID ` set cs \<longrightarrow> idx k = m k)"
  using assms
proof (induction cs arbitrary: j m)
  case (Cons c cs)
  then have "\<forall>d \<in> set cs. tc_ID c \<noteq> tc_ID d"
    by (auto simp: image_iff)
  then have "\<forall>d \<in> set cs. tc_ID d \<noteq> [] \<and> (m(tc_ID c \<mapsto> j)) (tc_ID d) = None"
    using Cons.prems by auto
  then obtain idx where "call_indexes (Suc j) cs (m(tc_ID c \<mapsto> j)) = Inr idx"
    "\<forall>i < length cs. idx (tc_ID (cs ! i)) = Some (Suc j + i)"
    "\<forall>k. k \<notin> tc_ID ` set cs \<longrightarrow> idx k = (m(tc_ID c \<mapsto> j)) k"
    using Cons.IH [of "m(tc_ID c \<mapsto> j)" "Suc j"] Cons.prems(1) by (auto simp del: fun_upd_apply)
  then show ?case
    using Cons.prems by (auto simp: nth_Cons' intro!: exI [of _ idx])
qed simp

lemma match_results_positional:
  assumes "\<forall>i < length calls. idx (tc_ID (calls ! i)) = Some i" "\<forall>c \<in> set calls. tc_ID c \<noteq> []"
    and "list_all2 answers_call (drop k calls) rs" "\<forall>r \<in> set rs. m_ToolCalls r = []"
    and "length matched = length calls" "\<forall>i < length calls. k \<le> i \<longrightarrow> \<not> matched ! i"
    and "k + n = length calls"
  shows "match_results start calls idx matched pos n rs = None"
  using assms(3-7)
proof (induction n arbitrary: k rs matched pos)
  case (Suc n)
  then have k: "k < length calls" "drop k calls = calls ! k # drop (Suc k) calls"
    by (auto simp: Cons_nth_drop_Suc)
  then obtain m rs' where rs: "rs = m # rs'" "answers_call (calls ! k) m"
    "list_all2 answers_call (drop (Suc k) calls) rs'"
    using Suc.prems(1) by (auto simp: list_all2_Cons1)
  then obtain r where r: "m_Role m = RoleTool" "m_ToolResult m = Some r" "tr_ToolCallID r = tc_ID (calls ! k)"
    by (auto simp: answers_call_def)
  have "unmatchedCallIndex calls matched idx (tr_ToolCallID r) = Some k"
    using assms(1,2) k r Suc.prems(4) by (auto simp: unmatchedCallIndex_def)
  moreover have "match_results start calls idx (matched[k := True]) (Suc pos) n rs' = None"
    using Suc.prems rs k by (intro Suc.IH [of "Suc k"]) (auto simp: nth_list_update)
  ultimately show ?case
    using rs r Suc.prems(2) by simp
qed simp

text \<open>Calls and results sit on messages of their roles.\<close>

definition well_shaped :: "message \<Rightarrow> bool" where
  "well_shaped m \<longleftrightarrow> (m_ToolCalls m \<noteq> [] \<longrightarrow> m_Role m = RoleAssistant) \<and>
     (m_ToolResult m \<noteq> None \<longrightarrow> m_Role m = RoleTool)"

lemma answers_role: "list_all2 answers_call cs rs \<Longrightarrow> r \<in> set rs \<Longrightarrow> m_Role r = RoleTool"
  by (induction rule: list_all2_induct) (auto simp: answers_call_def)

lemma answers_no_calls:
  assumes "list_all2 answers_call cs rs" "r \<in> set rs" "well_shaped r"
  shows "m_ToolCalls r = []"
  using answers_role [OF assms(1,2)] assms(3) by (cases "m_ToolCalls r") (simp_all add: well_shaped_def)

lemma positional_tool_turn:
  assumes "open_turn m" "list_all2 answers_call (m_ToolCalls m) rs"
    and "well_shaped m" "\<forall>r \<in> set rs. well_shaped r"
  shows "tool_turn m rs"
proof -
  have named: "\<forall>c \<in> set (m_ToolCalls m). tc_ID c \<noteq> []"
    using assms(1) calls_ok_named by (auto simp: open_turn_def)
  then obtain idx where "call_indexes 0 (m_ToolCalls m) Map.empty = Inr idx"
    "\<forall>i < length (m_ToolCalls m). idx (tc_ID (m_ToolCalls m ! i)) = Some i"
    using call_indexes_distinct [of "m_ToolCalls m" Map.empty 0] assms(1) by (auto simp: open_turn_def)
  moreover have "\<forall>r \<in> set rs. m_ToolCalls r = []"
    using answers_no_calls [OF assms(2)] assms(4) by blast
  ultimately have "call_indexes 0 (m_ToolCalls m) Map.empty = Inr idx"
    "match_results 0 (m_ToolCalls m) idx (replicate (length (m_ToolCalls m)) False) 0
       (length (m_ToolCalls m)) rs = None"
    using assms(2) named by (auto intro!: match_results_positional [where k = 0])
  moreover have "m_ToolCalls m \<noteq> []" "m_Role m = RoleAssistant" "m_ToolResult m = None"
    using assms(1,3) by (auto simp: open_turn_def well_shaped_def)
  ultimately show ?thesis
    using list_all2_lengthD [OF assms(2)] by (auto simp: tool_turn_def)
qed

lemma no_turn_plain: "no_turn m \<Longrightarrow> well_shaped m \<Longrightarrow> plain_message m"
  unfolding no_turn_def well_shaped_def plain_message_def by blast

lemma transcript_turns:
  "transcript cs ms \<Longrightarrow> cs = [] \<Longrightarrow> \<forall>m \<in> set ms. well_shaped m \<Longrightarrow> turns ms"
proof (induction rule: transcript.induct)
  case (transcript_plain m cs ms)
  have shaped: "well_shaped m" "\<forall>m \<in> set ms. well_shaped m"
    using transcript_plain.prems(2) by simp_all
  show ?case
    using no_turn_plain [OF transcript_plain.hyps(1) shaped(1)]
      transcript_plain.IH [OF transcript_plain.prems(1) shaped(2)]
    by (rule turns_plain)
next
  case (transcript_turn m rs cs ms)
  have shaped: "well_shaped m" "\<forall>r \<in> set rs. well_shaped r" "\<forall>m \<in> set ms. well_shaped m"
    using transcript_turn.prems(2) by simp_all
  show ?case
    using positional_tool_turn [OF transcript_turn.hyps(1,2) shaped(1,2)]
      transcript_turn.IH [OF transcript_turn.prems(1) shaped(3)]
    by (rule turns_tool)
qed (auto intro: turns_Nil)

section \<open>Accepted steps\<close>

text \<open>What one accepted step establishes.\<close>

lemma validateContinuationStep_accepted:
  assumes "validateContinuationStep phase is_last previous index s assistant turn completed cumulative
      previousContext = Inr (completed', cumulative')"
  shows "st_Index s = int index \<and> (\<not> is_last \<longrightarrow> st_Decision s = StepDecisionContinue) \<and>
    (\<exists>call. st_ModelCall s = Some call \<and> validModelCallUsage call \<and>
       cumulative' = usage_add cumulative (modelCallUsage call)) \<and>
    usageContains (st_ContextUsage s) previousContext \<and>
    operation_ids_ok turn 0 (m_ToolCalls assistant) \<and>
    bu_ToolCalls (st_BudgetUsed s) = completed' \<and>
    completed' = completed + (if phase = ContinuationModelComplete \<and> is_last then 0
                              else int (length (m_ToolCalls assistant))) \<and>
    (\<not> (phase = ContinuationModelComplete \<and> is_last) \<longrightarrow> same_traces (st_ToolCalls s) (m_ToolCalls assistant)) \<and>
    u_TotalTokens (usage_add cumulative' (st_ContextUsage s)) \<le> bu_Tokens (st_BudgetUsed s)"
  using assms
  by (auto simp: validateContinuationStep_def validateContinuationStepBudget_def Let_def
      validateStepToolCalls_def split: if_splits option.splits)

lemma validate_steps_accepted:
  assumes "validate_steps phase firstTurn previous index steps assistants completed cumulative ctx =
      Inr (completed', cumulative')" "length steps = length assistants"
  shows "(\<forall>i < length steps. st_Index (steps ! i) = int (index + i) \<and>
        (Suc i < length steps \<longrightarrow> st_Decision (steps ! i) = StepDecisionContinue) \<and>
        operation_ids_ok (wrap64 (firstTurn + int (index + i))) 0 (m_ToolCalls (assistants ! i)) \<and>
        ((phase = ContinuationModelComplete \<longrightarrow> Suc i < length steps) \<longrightarrow>
           same_traces (st_ToolCalls (steps ! i)) (m_ToolCalls (assistants ! i)))) \<and>
    completed' = completed + int (sum_list (map (\<lambda>m. length (m_ToolCalls m)) assistants)) -
      (if phase = ContinuationModelComplete \<and> steps \<noteq> [] then int (length (m_ToolCalls (last assistants))) else 0) \<and>
    cumulative' = foldl usage_add cumulative (map (\<lambda>s. modelCallUsage (the (st_ModelCall s))) steps)"
  using assms
proof (induction steps arbitrary: assistants previous index completed cumulative ctx)
  case (Cons s steps)
  then obtain m ms where m: "assistants = m # ms" "length steps = length ms"
    by (cases assistants) auto
  obtain c u where step: "validateContinuationStep phase (steps = []) previous index s m
      (wrap64 (firstTurn + int index)) completed cumulative ctx = Inr (c, u)"
    and rest: "validate_steps phase firstTurn (Some (bu_Tokens (st_BudgetUsed s))) (Suc index) steps ms c u
      (st_ContextUsage s) = Inr (completed', cumulative')"
    using Cons.prems(1) m by (auto split: sum.splits prod.splits)
  note a = validateContinuationStep_accepted [OF step] and ih = Cons.IH [OF rest m(2)]
  show ?case
  proof (intro conjI allI impI)
    fix i
    assume "i < length (s # steps)"
    then show "st_Index ((s # steps) ! i) = int (index + i)"
      using a ih m by (cases i) auto
  next
    fix i
    assume "i < length (s # steps)" "Suc i < length (s # steps)"
    then show "st_Decision ((s # steps) ! i) = StepDecisionContinue"
      using a ih m by (cases i) auto
  next
    fix i
    assume "i < length (s # steps)"
    then show "operation_ids_ok (wrap64 (firstTurn + int (index + i))) 0 (m_ToolCalls (assistants ! i))"
      using a ih m by (cases i) auto
  next
    fix i
    assume "i < length (s # steps)" "phase = ContinuationModelComplete \<longrightarrow> Suc i < length (s # steps)"
    then show "same_traces (st_ToolCalls ((s # steps) ! i)) (m_ToolCalls (assistants ! i))"
      using a ih m by (cases i) auto
  next
    show "completed' = completed + int (sum_list (map (\<lambda>m. length (m_ToolCalls m)) assistants)) -
      (if phase = ContinuationModelComplete \<and> s # steps \<noteq> [] then int (length (m_ToolCalls (last assistants))) else 0)"
      using a ih m by (cases "steps = []") auto
  next
    show "cumulative' = foldl usage_add cumulative (map (\<lambda>s. modelCallUsage (the (st_ModelCall s))) (s # steps))"
      using a ih by auto
  qed
qed simp

section \<open>What an accepted continuation establishes\<close>

definition is_assistant :: "message \<Rightarrow> bool" where
  "is_assistant m \<longleftrightarrow> m_Role m = RoleAssistant"

lemma analyze_loop_assistants:
  assumes "analyze_loop index pending i a ms = Inr b" "drop index allms = ms"
  shows "map ((!) allms) (ta_assistantIndices b) =
    map ((!) allms) (ta_assistantIndices a) @ filter is_assistant ms"
  using assms
proof (induction index pending i a ms rule: analyze_loop.induct)
  case (2 index pending i a current rest)
  have here: "allms ! index = current" "drop (Suc index) allms = rest"
    using nth_via_drop [OF "2.prems"(2)] "2.prems"(2) by (simp_all add: drop_Suc drop_tl)
  then show ?case
    using 2 by (auto simp: is_assistant_def Let_def split: if_splits option.splits sum.splits)
qed auto

definition turns_below :: "int \<Rightarrow> message \<Rightarrow> bool" where
  "turns_below t m \<longleftrightarrow> (\<forall>c \<in> set (m_ToolCalls m). \<forall>turn slot.
     scan_operation_id (tc_OperationID c) = Some (turn, slot) \<longrightarrow> turn \<le> t)"

lemma turns_below_mono: "turns_below t m \<Longrightarrow> t \<le> t' \<Longrightarrow> turns_below t' m"
  unfolding turns_below_def using order_trans by blast

lemma analyze_calls_below:
  "analyze_calls 0 [] highest (m_ToolCalls m) = Inr t \<Longrightarrow> highest \<le> t \<and> turns_below t m"
  unfolding turns_below_def by (rule analyze_calls_max)

lemma turns_below_no_calls: "m_ToolCalls m = [] \<Longrightarrow> turns_below t m"
  by (simp add: turns_below_def)

lemma analyze_loop_max:
  assumes "analyze_loop index pending i a ms = Inr b"
  shows "ta_maxOperationTurn a \<le> ta_maxOperationTurn b \<and>
    list_all (turns_below (ta_maxOperationTurn b)) (filter is_assistant ms)"
  using assms
proof (induction index pending i a ms rule: analyze_loop.induct)
  case (2 index pending i a current rest)
  then show ?case
    by (auto simp: is_assistant_def Let_def turns_below_no_calls split: if_splits option.splits sum.splits
        dest!: analyze_calls_below intro: turns_below_mono; smt (verit) turns_below_mono)
qed auto

text \<open>The assistant turns of a transcript that belong to the recorded steps: the last ones.\<close>

definition step_turns :: "continuation \<Rightarrow> message list" where
  "step_turns k = (let turns = filter is_assistant (k_Messages k)
     in drop (length turns - length (k_Steps k)) turns)"

lemma generated_step_turns:
  assumes "analyzeTranscript (k_Messages k) = Inr a"
  shows "generated_assistants k a = step_turns k"
    and "length (ta_assistantIndices a) = length (filter is_assistant (k_Messages k))"
proof -
  have "map ((!) (k_Messages k)) (ta_assistantIndices a) = filter is_assistant (k_Messages k)"
    using analyze_loop_assistants [OF assms [unfolded analyzeTranscript_def], of "k_Messages k"]
    by (simp add: new_analysis_def)
  then show "length (ta_assistantIndices a) = length (filter is_assistant (k_Messages k))"
    and "generated_assistants k a = step_turns k"
    by (metis length_map, simp add: generated_assistants_def step_turns_def Let_def drop_map
        flip: \<open>map _ _ = _\<close>)
qed

text \<open>The stages an accepted continuation has passed.\<close>

lemma ValidateContinuation_accepted:
  assumes "ValidateContinuation json_valid k = None"
  obtains a completed cumulative where
    "analyzeTranscript (k_Messages k) = Inr a"
    "validateContinuationPhaseTranscript k a = None"
    "validateContinuationSteps k a = Inr (completed, cumulative)"
    "validateContinuationTotals k a completed cumulative = None"
    "validateContinuationPhaseSteps k a = None"
  using assms that
  by (auto simp: ValidateContinuation_def split: if_splits option.splits sum.splits)

text \<open>Calls on a message of the user: the scan passes over them, the validator refuses them.\<close>

lemma scan_ignores_misplaced_calls:
  assumes "calls \<noteq> []"
  shows "\<exists>a. analyzeTranscript [zero_message\<lparr>m_Role := RoleUser, m_ToolCalls := calls\<rparr>] = Inr a \<and>
      \<not> ta_pending a"
    and "ValidateCompleteTurns [zero_message\<lparr>m_Role := RoleUser, m_ToolCalls := calls\<rparr>] \<noteq> None"
  using assms by (simp_all add: analyzeTranscript_def new_analysis_def ValidateCompleteTurns_def
      validate_from.simps zero_message_def Let_def)

section \<open>Properties\<close>

text \<open>
  C12.  The transcript scan of a continuation accepts exactly the transcripts of the grammar: plain
  messages and assistant turns whose calls are well-formed and uniquely named, each followed by
  its results in call order, where only the last turn may be missing results; and it reports a
  pending turn exactly when calls are left unanswered.
\<close>

theorem transcript_scan_spec:
  "(\<exists>a. analyzeTranscript ms = Inr a \<and> ta_pending a = pending) =
     (\<exists>cs. transcript cs ms \<and> (cs \<noteq> []) = pending)"
  unfolding analyzeTranscript_def by (rule analyze_loop_transcript)

text \<open>
  C13.  A transcript that the continuation scan accepts without a pending turn is accepted by the
  tool-turn validator of package message, provided that calls sit on assistant messages only and
  results on tool messages only.  The scan does not look at other placements
  (\<open>scan_ignores_misplaced_calls\<close>), so the hypothesis cannot be dropped.
\<close>

theorem settled_transcript_is_complete:
  assumes "analyzeTranscript ms = Inr a" "\<not> ta_pending a" "list_all well_shaped ms"
  shows "ValidateCompleteTurns ms = None"
proof -
  have "\<exists>a. analyzeTranscript ms = Inr a \<and> ta_pending a = False"
    using assms(1,2) by simp
  then obtain cs where "transcript cs ms" "(cs \<noteq> []) = False"
    unfolding analyzeTranscript_def analyze_loop_transcript by blast
  then have "turns ms"
    using transcript_turns assms(3) by (simp add: list_all_iff)
  then show ?thesis
    by (simp add: ValidateCompleteTurns_turns)
qed

text \<open>
  C11.  An accepted continuation accounts for its work: step i has index i, only the last step has
  a terminal decision, every completed step traces exactly the calls of its assistant turn, the
  number of executed tool calls is the number of calls of those turns, and the next operation
  turn lies beyond every operation id of an assistant turn.
\<close>

theorem accepted_continuation_accounts:
  assumes "ValidateContinuation json_valid k = None"
  shows "length (k_Steps k) \<le> length (filter is_assistant (k_Messages k)) \<and>
    list_all (turns_below (k_NextOperationTurn k - 1)) (filter is_assistant (k_Messages k)) \<and>
    k_ToolCallsUsed k = int (sum_list (map (\<lambda>m. length (m_ToolCalls m)) (step_turns k))) -
      (if k_Phase k = ContinuationModelComplete \<and> k_Steps k \<noteq> []
       then int (length (m_ToolCalls (last (step_turns k)))) else 0) \<and>
    (\<forall>i < length (k_Steps k).
       st_Index (k_Steps k ! i) = int i \<and>
       (Suc i < length (k_Steps k) \<longrightarrow> st_Decision (k_Steps k ! i) = StepDecisionContinue) \<and>
       ((k_Phase k = ContinuationModelComplete \<longrightarrow> Suc i < length (k_Steps k)) \<longrightarrow>
          same_traces (st_ToolCalls (k_Steps k ! i)) (m_ToolCalls (step_turns k ! i))))"
proof -
  obtain a completed cumulative where a: "analyzeTranscript (k_Messages k) = Inr a"
    and steps: "validateContinuationSteps k a = Inr (completed, cumulative)"
    and totals: "validateContinuationTotals k a completed cumulative = None"
    using assms by (rule ValidateContinuation_accepted)
  note turns = generated_step_turns [OF a]
  have len: "length (k_Steps k) \<le> length (filter is_assistant (k_Messages k))"
    and run: "validate_steps (k_Phase k) (k_NextOperationTurn k - int (length (k_Steps k))) None 0
      (k_Steps k) (step_turns k) 0 zero_usage zero_usage = Inr (completed, cumulative)"
    using steps turns by (auto simp: validateContinuationSteps_def split: if_splits)
  have "length (k_Steps k) = length (step_turns k)"
    using len by (simp add: step_turns_def Let_def)
  note walk = validate_steps_accepted [OF run this]
  have used: "k_ToolCallsUsed k = completed" "ta_maxOperationTurn a \<le> k_NextOperationTurn k - 1"
    using totals by (auto simp: validateContinuationTotals_def split: if_splits)
  have "list_all (turns_below (k_NextOperationTurn k - 1)) (filter is_assistant (k_Messages k))"
    using analyze_loop_max [OF a [unfolded analyzeTranscript_def]] used(2) turns_below_mono
    by (auto simp: list_all_iff)
  then show ?thesis
    using len walk used(1) by simp
qed

text \<open>A continuation after one completed tool turn.\<close>

definition sample_turn_messages :: "message list" where
  "sample_turn_messages =
     [zero_message\<lparr>m_Role := RoleUser, m_Text := ''go''\<rparr>,
      zero_message\<lparr>m_Role := RoleAssistant, m_ToolCalls :=
        [\<lparr>tc_ID = ''a'', tc_Name = ''echo'', tc_Arguments = [], tc_OperationID = ''turn:4:call:0''\<rparr>]\<rparr>,
      zero_message\<lparr>m_Role := RoleTool, m_ToolResult :=
        Some \<lparr>tr_ToolCallID = ''a'', tr_Name = ''echo'', tr_Content = ''ok'', tr_Parts = [],
              tr_Structured = [], tr_IsError = False\<rparr>\<rparr>]"

definition sample_call_usage :: usage where
  "sample_call_usage = zero_usage\<lparr>u_InputTokens := 2, u_OutputTokens := 1, u_TotalTokens := 3\<rparr>"

definition sample_continuation :: continuation where
  "sample_continuation =
     \<lparr>k_SchemaVersion = 2,
      k_Request = \<lparr>r_Prompt = ''go'', r_Budget = None, r_SessionBudget = None, r_ModelTimeouts = None,
        r_Content = []\<rparr>,
      k_OutputPolicy = \<lparr>op_Schema = [], op_Validate = False, op_Repair = False, op_MaxRepairAttempts = 0,
        op_Native = False\<rparr>,
      k_Messages = sample_turn_messages,
      k_Usage = sample_call_usage,
      k_ContextUsage = zero_usage,
      k_Steps = [\<lparr>st_Index = 0,
        st_ModelCall = Some \<lparr>mc_Provider = ''p'', mc_Model = ''m'', mc_Usage = sample_call_usage,
          mc_StopReason = StopReasonToolUse\<rparr>,
        st_ToolCalls = [\<lparr>tt_ID = ''a'', tt_Name = ''echo'', tt_Arguments = [], tt_Output = ''ok'', tt_Error = []\<rparr>],
        st_Observations = [], st_Decision = StepDecisionContinue, st_ContextUsage = zero_usage,
        st_BudgetUsed = \<lparr>bu_Tokens = 3, bu_ToolCalls = 1, bu_WallClock = 0\<rparr>\<rparr>],
      k_ToolCallsUsed = 1, k_RepairCount = 0, k_ActiveElapsed = 0, k_NextOperationTurn = 5,
      k_Phase = ContinuationToolsComplete\<rparr>"

lemmas sample_continuation_simps = sample_continuation_def sample_turn_messages_def sample_call_usage_def
  zero_usage_def zero_message_def

lemma sample_operation_id: "operation_id 4 0 = ''turn:4:call:0''"
  by code_simp

lemma sample_transcript:
  "analyzeTranscript sample_turn_messages = Inr
     \<lparr>ta_pending = False, ta_endsWithToolResults = True, ta_pendingCalls = [], ta_assistantIndices = [1],
      ta_maxOperationTurn = 4\<rparr>"
  by (simp add: analyzeTranscript_def sample_turn_messages_def new_analysis_def zero_message_def Let_def
      sample_operation_id)

lemma sample_continuation_valid: "ValidateContinuation (\<lambda>_. True) sample_continuation = None"
proof -
  have "analyzeTranscript (k_Messages sample_continuation) = Inr
     \<lparr>ta_pending = False, ta_endsWithToolResults = True, ta_pendingCalls = [], ta_assistantIndices = [1],
      ta_maxOperationTurn = 4\<rparr>"
    using sample_transcript by (simp add: sample_continuation_def)
  moreover have "Request_Validate (k_Request sample_continuation) = None"
    "validateContinuationScalars (\<lambda>_. True) sample_continuation = None"
    by code_simp+
  moreover have "validateContinuationPhaseTranscript sample_continuation
      \<lparr>ta_pending = False, ta_endsWithToolResults = True, ta_pendingCalls = [], ta_assistantIndices = [1],
       ta_maxOperationTurn = 4\<rparr> = None"
    by code_simp
  moreover have "validateContinuationSteps sample_continuation
      \<lparr>ta_pending = False, ta_endsWithToolResults = True, ta_pendingCalls = [], ta_assistantIndices = [1],
       ta_maxOperationTurn = 4\<rparr> = Inr (1, sample_call_usage)"
    by code_simp
  moreover have "validateContinuationTotals sample_continuation
      \<lparr>ta_pending = False, ta_endsWithToolResults = True, ta_pendingCalls = [], ta_assistantIndices = [1],
       ta_maxOperationTurn = 4\<rparr> 1 sample_call_usage = None"
    by code_simp
  moreover have "validateContinuationPhaseSteps sample_continuation
      \<lparr>ta_pending = False, ta_endsWithToolResults = True, ta_pendingCalls = [], ta_assistantIndices = [1],
       ta_maxOperationTurn = 4\<rparr> = None"
    by code_simp
  moreover have "k_SchemaVersion sample_continuation = ContinuationSchemaVersion"
    "k_SchemaVersion sample_continuation \<noteq> 1"
    by code_simp+
  ultimately show ?thesis
    by (simp add: ValidateContinuation_def)
qed

theorem settled_transcript_is_complete_witness: "ValidateCompleteTurns sample_turn_messages = None"
  by (rule settled_transcript_is_complete [OF sample_transcript])
     (simp_all add: sample_turn_messages_def well_shaped_def zero_message_def)

theorem accepted_continuation_accounts_witness:
  "k_ToolCallsUsed sample_continuation =
     int (sum_list (map (\<lambda>m. length (m_ToolCalls m)) (step_turns sample_continuation)))"
  using accepted_continuation_accounts [OF sample_continuation_valid]
  by (simp add: sample_continuation_def)

end
