(* ===== verification/ContextWindow.thy ===== *)
theory ContextWindow
  imports ToolBus History
begin

text \<open>
  The bounded provider view: \<open>src/agent/context_window.go\<close>.  \<open>json.Marshal\<close> of a message is the
  argument \<open>marshal\<close>; the two reads of \<open>ctx.Err()\<close> are arguments.  The lemmas show that a fitted
  history is made of complete turns, stays within the target, keeps the explicit cache prefix and
  every instruction, and is the history itself when that already fits.
\<close>

section \<open>Cost of a message\<close>

definition activateSkillToolName :: bytes where
  "activateSkillToolName = ''hydaelyn_activate_skill''"

definition media_part :: "content_part \<Rightarrow> bool" where
  "media_part p \<longleftrightarrow> cp_Kind p \<in> {ContentImage, ContentAudio, ContentFile}"

definition stripped_result :: "tool_result \<Rightarrow> tool_result" where
  "stripped_result r =
     (let r1 = r\<lparr>tr_Parts := result_CanonicalContent r\<rparr>;
          r2 = (if trim_space (result_TextContent r1) = trim_space (tr_Structured r1)
                then r1\<lparr>tr_Structured := []\<rparr> else r1)
      in r2\<lparr>tr_Content := []\<rparr>)"

definition stripped_message :: "message \<Rightarrow> message" where
  "stripped_message m = m\<lparr>m_Content := CanonicalContent m, m_Text := [], m_Thinking := [],
     m_ThinkingSignature := [], m_RedactedThinking := [],
     m_ToolResult := map_option stripped_result (m_ToolResult m)\<rparr>"

definition contextMessageCost :: "(message \<Rightarrow> go_err + bytes) \<Rightarrow> message \<Rightarrow> go_err + int" where
  "contextMessageCost marshal current =
     (if \<exists>p \<in> set (CanonicalContent current @
           (case m_ToolResult current of None \<Rightarrow> [] | Some r \<Rightarrow> result_CanonicalContent r)). media_part p
        then Inl (wrap_err ''media requires a model-aware CompactTo'' (sentinel ErrContextLimit))
      else case marshal (stripped_message current) of
          Inl e \<Rightarrow> Inl (wrap_err ''estimate context'' e)
        | Inr encoded \<Rightarrow> Inr (int (length encoded) + 16))"

definition protectedContextMessage :: "message \<Rightarrow> bool" where
  "protectedContextMessage current \<longleftrightarrow>
     m_Role current = RoleSystem \<or> m_Role current = RoleUser \<or>
     (case m_ToolResult current of None \<Rightarrow> False
      | Some r \<Rightarrow> tr_IsError r \<or> tr_Name r = activateSkillToolName)"

section \<open>Groups\<close>

record context_group =
  cg_messages :: "message list"
  cg_cost :: int
  cg_protected :: bool

fun group_cost :: "(message \<Rightarrow> go_err + bytes) \<Rightarrow> message list \<Rightarrow> go_err + int" where
  "group_cost marshal [] = Inr 0"
| "group_cost marshal (m # ms) = (case contextMessageCost marshal m of Inl e \<Rightarrow> Inl e
     | Inr c \<Rightarrow> (case group_cost marshal ms of Inl e \<Rightarrow> Inl e | Inr c' \<Rightarrow> Inr (c + c')))"

text \<open>The grouping loop; \<open>len\<close> is the length of the whole history.\<close>

function context_groups ::
  "(message \<Rightarrow> go_err + bytes) \<Rightarrow> nat \<Rightarrow> nat \<Rightarrow> nat \<Rightarrow> message list \<Rightarrow> go_err + context_group list" where
  "context_groups marshal prefix_len len index [] = Inr []"
| "context_groups marshal prefix_len len index (m # ms) =
     (let n = length (m_ToolCalls m); members = m # take n ms; group_end = Suc (index + n)
      in case group_cost marshal members of Inl e \<Rightarrow> Inl e
       | Inr c \<Rightarrow>
          (case context_groups marshal prefix_len len group_end (drop n ms) of Inl e \<Rightarrow> Inl e
           | Inr gs \<Rightarrow> Inr (\<lparr>cg_messages = members, cg_cost = c, cg_protected =
               list_ex protectedContextMessage members \<or> index < prefix_len \<or> group_end = len\<rparr> # gs)))"
  by pat_completeness auto
termination
  by (relation "measure (\<lambda>(f, p, l, i, ms). length ms)") auto

declare context_groups.simps(2) [simp del]

fun keep_groups :: "int \<Rightarrow> int \<Rightarrow> context_group list \<Rightarrow> message list \<times> int" where
  "keep_groups target total_cost [] = ([], total_cost)"
| "keep_groups target total_cost (g # gs) =
     (if \<not> cg_protected g \<and> target < total_cost
        then keep_groups target (total_cost - cg_cost g) gs
      else case keep_groups target total_cost gs of (ms, t) \<Rightarrow> (cg_messages g @ ms, t))"

section \<open>Trimming tool output\<close>

text \<open>The cuts of \<open>contextHeadTail\<close> at rune starts: downwards for the head, upwards for the tail.\<close>

function rune_tail :: "bytes \<Rightarrow> nat \<Rightarrow> nat" where
  "rune_tail s tail =
     (if tail < length s \<and> \<not> rune_start (s ! tail) then rune_tail s (Suc tail) else tail)"
  by pat_completeness auto
termination
  by (relation "measure (\<lambda>(s, t). length s - t)") auto

declare rune_tail.simps [simp del]

definition omitted_marker :: bytes where
  "omitted_marker = [CHR 0x0A] @
     ''[... tool output omitted from model context; full result retained in transcript ...]'' @ [CHR 0x0A]"

definition contextHeadTail :: "bytes \<Rightarrow> nat \<Rightarrow> bytes" where
  "contextHeadTail s n =
     take (rune_cut s (n div 2)) s @ omitted_marker @
     drop (rune_tail s (length s - (n - n div 2))) s"

definition resized :: "message \<Rightarrow> tool_result \<Rightarrow> bytes \<Rightarrow> nat \<Rightarrow> message" where
  "resized current original s n =
     current\<lparr>m_ToolResult := Some (result_SyncLegacyContent (original\<lparr>tr_Structured := [],
       tr_Parts := [TextPart (contextHeadTail s n)]\<rparr>))\<rparr>"

function trim_search :: "(nat \<Rightarrow> go_err + int) \<Rightarrow> int \<Rightarrow> nat \<Rightarrow> nat \<Rightarrow> go_err + nat" where
  "trim_search cost limit low high =
     (if low < high
        then let mid = low + (high - low + 1) div 2
          in case cost mid of Inl e \<Rightarrow> Inl e
           | Inr c \<Rightarrow> if c \<le> limit then trim_search cost limit mid high
                      else trim_search cost limit low (mid - 1)
      else Inr low)"
  by pat_completeness auto
termination
  by (relation "measure (\<lambda>(c, l, low, high). high - low)") auto

declare trim_search.simps [simp del]

text \<open>The text a trim may shorten, when the message is trimmable at all.\<close>

definition trimmable_text :: "message \<Rightarrow> (tool_result \<times> bytes) option" where
  "trimmable_text current = (case m_ToolResult current of None \<Rightarrow> None | Some r \<Rightarrow>
     if tr_Name r = activateSkillToolName \<or> m_ProviderState current \<noteq> [] \<or> m_Content current \<noteq> []
       then None
     else if \<exists>p \<in> set (result_CanonicalContent r). cp_Kind p \<noteq> ContentText then None
     else let s0 = result_TextContent r;
              s = (if tr_Structured r \<noteq> [] \<and> trim_space s0 \<noteq> trim_space (tr_Structured r)
                   then s0 @ [CHR 0x0A] @ ''Structured: '' @ tr_Structured r else s0)
          in if length s \<le> 512 then None else Some (r, s))"

definition trim_one ::
  "(message \<Rightarrow> go_err + bytes) \<Rightarrow> int \<Rightarrow> int \<Rightarrow> message \<Rightarrow> go_err + message \<times> int" where
  "trim_one marshal target total_cost current =
     (case trimmable_text current of None \<Rightarrow> Inr (current, total_cost) | Some (r, s) \<Rightarrow>
      case contextMessageCost marshal current of Inl e \<Rightarrow> Inl e | Inr before \<Rightarrow>
      case trim_search (\<lambda>n. contextMessageCost marshal (resized current r s n))
             (max 256 (before - (total_cost - target))) 128 (length s - 1) of Inl e \<Rightarrow> Inl e | Inr low \<Rightarrow>
      case contextMessageCost marshal (resized current r s low) of Inl e \<Rightarrow> Inl e | Inr after \<Rightarrow>
        if before \<le> after then Inr (current, total_cost)
        else Inr (resized current r s low, total_cost - (before - after)))"

fun trim_loop ::
  "(message \<Rightarrow> go_err + bytes) \<Rightarrow> int \<Rightarrow> int \<Rightarrow> message list \<Rightarrow> go_err + message list \<times> int" where
  "trim_loop marshal target total_cost [] = Inr ([], total_cost)"
| "trim_loop marshal target total_cost (m # ms) =
     (if total_cost \<le> target then Inr (m # ms, total_cost)
      else case trim_one marshal target total_cost m of Inl e \<Rightarrow> Inl e
        | Inr (m', t) \<Rightarrow> (case trim_loop marshal target t ms of Inl e \<Rightarrow> Inl e
            | Inr (ms', t') \<Rightarrow> Inr (m' # ms', t')))"

definition incomplete_turn :: "turn_error \<Rightarrow> go_err" where
  "incomplete_turn e = wrap_err ''message index'' (sentinel ErrIncompleteToolTurn)"

definition trimContextToolOutput ::
  "(message \<Rightarrow> go_err + bytes) \<Rightarrow> message list \<Rightarrow> int \<Rightarrow> int \<Rightarrow> go_err + message list \<times> int" where
  "trimContextToolOutput marshal history total_cost target =
     (case CachePrefixBoundary history of Inl e \<Rightarrow> Inl (incomplete_turn e)
      | Inr n \<Rightarrow> (case trim_loop marshal target total_cost (drop n history) of Inl e \<Rightarrow> Inl e
          | Inr (ms, t) \<Rightarrow> Inr (take n history @ ms, t)))"

section \<open>Fitting\<close>

definition fitContext ::
  "(message \<Rightarrow> go_err + bytes) \<Rightarrow> go_err option \<Rightarrow> go_err option \<Rightarrow> message list \<Rightarrow> int
     \<Rightarrow> go_err + message list" where
  "fitContext marshal ctx_before ctx_after history target =
     (case ctx_before of Some e \<Rightarrow> Inl e | None \<Rightarrow>
      case ValidateCompleteTurns history of Some e \<Rightarrow> Inl (incomplete_turn e) | None \<Rightarrow>
      case CachePrefixBoundary history of Inl e \<Rightarrow> Inl (incomplete_turn e) | Inr prefix_len \<Rightarrow>
      case context_groups marshal prefix_len (length history) 0 history of Inl e \<Rightarrow> Inl e | Inr groups \<Rightarrow>
      case keep_groups target (sum_list (map cg_cost groups)) groups of (kept, t) \<Rightarrow>
      case (if target < t then trimContextToolOutput marshal kept t target else Inr (kept, t)) of
        Inl e \<Rightarrow> Inl e
      | Inr (fitted, t') \<Rightarrow>
          if target < t'
            then Inl (wrap_err ''protected history estimate exceeds target'' (sentinel ErrContextLimit))
          else case ctx_after of Some e \<Rightarrow> Inl e | None \<Rightarrow> Inr fitted)"

section \<open>Costs and instructions\<close>

definition message_cost :: "(message \<Rightarrow> go_err + bytes) \<Rightarrow> message \<Rightarrow> int" where
  "message_cost marshal m = (case contextMessageCost marshal m of Inl e \<Rightarrow> 0 | Inr c \<Rightarrow> c)"

definition history_cost :: "(message \<Rightarrow> go_err + bytes) \<Rightarrow> message list \<Rightarrow> int" where
  "history_cost marshal ms = sum_list (map (message_cost marshal) ms)"

definition instruction :: "message \<Rightarrow> bool" where
  "instruction m \<longleftrightarrow> m_Role m = RoleSystem \<or> m_Role m = RoleUser"

lemma history_cost_simps [simp]:
  "history_cost marshal [] = 0"
  "history_cost marshal (m # ms) = message_cost marshal m + history_cost marshal ms"
  "history_cost marshal (xs @ ys) = history_cost marshal xs + history_cost marshal ys"
  by (simp_all add: history_cost_def)

lemma message_cost_Inr: "contextMessageCost marshal m = Inr c \<Longrightarrow> message_cost marshal m = c"
  by (simp add: message_cost_def)

lemma group_cost_history: "group_cost marshal ms = Inr c \<Longrightarrow> history_cost marshal ms = c"
  by (induction ms arbitrary: c) (auto simp: message_cost_Inr split: sum.splits)

section \<open>Groups\<close>

definition group_ok :: "(message \<Rightarrow> go_err + bytes) \<Rightarrow> context_group \<Rightarrow> bool" where
  "group_ok marshal g \<longleftrightarrow> turns (cg_messages g) \<and> cg_cost g = history_cost marshal (cg_messages g) \<and>
     (\<not> cg_protected g \<longrightarrow> filter instruction (cg_messages g) = [])"

abbreviation members :: "context_group list \<Rightarrow> message list" where
  "members gs \<equiv> concat (map cg_messages gs)"

lemma unprotected_no_instruction:
  "\<not> list_ex protectedContextMessage ms \<Longrightarrow> filter instruction ms = []"
  by (auto simp: filter_empty_conv list_ex_iff instruction_def protectedContextMessage_def)

text \<open>One step of the grouping loop on a group of the history.\<close>

definition grouped ::
  "(message \<Rightarrow> go_err + bytes) \<Rightarrow> nat \<Rightarrow> nat \<Rightarrow> message list \<Rightarrow> context_group \<Rightarrow> bool" where
  "grouped marshal p index ms g \<longleftrightarrow> cg_messages g = ms \<and> cg_cost g = history_cost marshal ms \<and>
     (index < p \<longrightarrow> cg_protected g) \<and> (\<not> cg_protected g \<longrightarrow> filter instruction ms = [])"

lemma context_groups_group:
  assumes "length rs = length (m_ToolCalls m)"
    and "context_groups marshal p len index (m # rs @ ms) = Inr gs"
  shows "\<exists>g gs'. gs = g # gs' \<and> grouped marshal p index (m # rs) g \<and>
    context_groups marshal p len (Suc (index + length rs)) ms = Inr gs'"
proof -
  have take: "take (length rs) (rs @ ms) = rs" "drop (length rs) (rs @ ms) = ms"
    by simp_all
  obtain c gs' where c: "group_cost marshal (m # rs) = Inr c"
    and rest: "context_groups marshal p len (Suc (index + length rs)) ms = Inr gs'"
    and gs: "gs = \<lparr>cg_messages = m # rs, cg_cost = c, cg_protected =
      list_ex protectedContextMessage (m # rs) \<or> index < p \<or> Suc (index + length rs) = len\<rparr> # gs'"
    using assms(2) unfolding context_groups.simps(2) Let_def assms(1) [symmetric] take
    by (auto simp del: group_cost.simps split: sum.splits)
  show ?thesis
    using gs group_cost_history [OF c] rest unprotected_no_instruction [of "m # rs"]
    by (simp add: grouped_def)
qed

lemma context_groups_plain:
  assumes "m_ToolCalls m = []" "context_groups marshal p len index (m # ms) = Inr gs"
  shows "\<exists>g gs'. gs = g # gs' \<and> grouped marshal p index [m] g \<and>
    context_groups marshal p len (Suc index) ms = Inr gs'"
  using context_groups_group [of "[]" m marshal p len index ms gs] assms by simp

lemma grouped_ok: "turns ms \<Longrightarrow> grouped marshal p index ms g \<Longrightarrow> group_ok marshal g \<and> cg_messages g = ms"
  by (simp add: grouped_def group_ok_def)

lemma turns_single: "plain_message m \<Longrightarrow> turns [m]"
  using turns_plain turns_Nil by blast

lemma turns_group: "tool_turn m rs \<Longrightarrow> turns (m # rs)"
  using turns_tool [OF _ turns_Nil] by simp

lemma context_groups_ok:
  "turns ms \<Longrightarrow> context_groups marshal p len index ms = Inr gs \<Longrightarrow>
     members gs = ms \<and> list_all (group_ok marshal) gs"
proof (induction arbitrary: index gs rule: turns.induct)
  case (turns_plain m ms)
  obtain g gs' where g: "gs = g # gs'" "grouped marshal p index [m] g"
    and rest: "context_groups marshal p len (Suc index) ms = Inr gs'"
    using context_groups_plain [OF plain_no_calls [OF turns_plain.hyps(1)] turns_plain.prems(1)] by blast
  show ?case
    using turns_plain.IH [OF rest] g(1) grouped_ok [OF turns_single [OF turns_plain.hyps(1)] g(2)] by simp
next
  case (turns_tool m rs ms)
  obtain g gs' where g: "gs = g # gs'" "grouped marshal p index (m # rs) g"
    and rest: "context_groups marshal p len (Suc (index + length rs)) ms = Inr gs'"
    using context_groups_group [OF tool_turn_length [OF turns_tool.hyps(1)] turns_tool.prems] by blast
  show ?case
    using turns_tool.IH [OF rest] g(1) grouped_ok [OF turns_group [OF turns_tool.hyps(1)] g(2)] by simp
qed simp

lemma context_groups_prefix:
  "turns ms \<Longrightarrow> context_groups marshal p len index ms = Inr gs \<Longrightarrow> index \<le> p \<Longrightarrow> cut ms (p - index) \<Longrightarrow>
     \<exists>front rear. gs = front @ rear \<and> list_all cg_protected front \<and> members front = take (p - index) ms"
proof (induction arbitrary: index gs rule: turns.induct)
  case (turns_plain m ms)
  show ?case
  proof (cases "p = index")
    case False
    obtain g gs' where g: "gs = g # gs'" "grouped marshal p index [m] g"
      and rest: "context_groups marshal p len (Suc index) ms = Inr gs'"
      using context_groups_plain [OF plain_no_calls [OF turns_plain.hyps(1)] turns_plain.prems(1)] by blast
    have k: "p - index = Suc (p - Suc index)"
      using turns_plain.prems(2) False by simp
    have "cut ms (p - Suc index)"
      using turns_plain.prems(3) turns_drop_group [OF turns_single [OF turns_plain.hyps(1)]]
      unfolding k cut_def by simp
    then obtain front rear where "gs' = front @ rear" "list_all cg_protected front"
      "members front = take (p - Suc index) ms"
      using turns_plain.IH [OF rest] turns_plain.prems(2) False by auto
    then show ?thesis
      using g False turns_plain.prems(2) unfolding k grouped_def
      by (intro exI [of _ "g # front"] exI [of _ rear]) simp
  qed (rule exI [of _ "[]"], simp)
next
  case (turns_tool m rs ms)
  show ?case
  proof (cases "p = index")
    case False
    obtain g gs' where g: "gs = g # gs'" "grouped marshal p index (m # rs) g"
      and rest: "context_groups marshal p len (Suc (index + length rs)) ms = Inr gs'"
      using context_groups_group [OF tool_turn_length [OF turns_tool.hyps(1)] turns_tool.prems(1)] by blast
    have "\<not> (0 < p - index \<and> p - index < Suc (length rs))"
      using no_cut_inside [OF turns_tool.hyps(1), of "p - index" ms] turns_tool.prems(3)
      by (auto simp: cut_def)
    then have k: "p - index = Suc (length rs) + (p - Suc (index + length rs))"
      using turns_tool.prems(2) False by linarith
    have parts: "take (p - index) (m # rs @ ms) = (m # rs) @ take (p - Suc (index + length rs)) ms"
      "drop (p - index) (m # rs @ ms) = drop (p - Suc (index + length rs)) ms"
      unfolding k by simp_all
    then have "cut ms (p - Suc (index + length rs))"
      using turns_tool.prems(3) k turns_drop_group [OF turns_group [OF turns_tool.hyps(1)]]
      by (auto simp: cut_def)
    then obtain front rear where "gs' = front @ rear" "list_all cg_protected front"
      "members front = take (p - Suc (index + length rs)) ms"
      using turns_tool.IH [OF rest] k False turns_tool.prems(2) by fastforce
    then show ?thesis
      using g False turns_tool.prems(2) parts(1) unfolding grouped_def
      by (intro exI [of _ "g # front"] exI [of _ rear]) simp
  qed (rule exI [of _ "[]"], simp)
qed (rule exI [of _ "[]"], simp)

section \<open>Dropping groups\<close>

lemma keep_groups_ok:
  assumes "keep_groups target t gs = (ms, t')" "list_all (group_ok marshal) gs"
  shows "turns ms \<and> t' = t - (history_cost marshal (members gs) - history_cost marshal ms) \<and>
     filter instruction ms = filter instruction (members gs)"
  using assms
proof (induction gs arbitrary: t ms t')
  case Nil
  then show ?case
    by (simp add: turns_Nil)
next
  case (Cons g gs)
  have g: "turns (cg_messages g)" "cg_cost g = history_cost marshal (cg_messages g)"
    "\<not> cg_protected g \<Longrightarrow> filter instruction (cg_messages g) = []" and gs: "list_all (group_ok marshal) gs"
    using Cons.prems(2) unfolding list.pred_inject group_ok_def [of _ g] by simp_all
  show ?case
  proof (cases "\<not> cg_protected g \<and> target < t")
    case True
    then have "keep_groups target (t - cg_cost g) gs = (ms, t')"
      using Cons.prems(1) by simp
    from Cons.IH [OF this gs] show ?thesis
      using True g by simp
  next
    case False
    obtain ms1 where "keep_groups target t gs = (ms1, t')" "ms = cg_messages g @ ms1"
      using Cons.prems(1) False by (auto split: prod.splits)
    then show ?thesis
      using Cons.IH [OF _ gs] g by (auto intro: turns_append)
  qed
qed

lemma keep_groups_fits:
  "t \<le> target \<Longrightarrow> keep_groups target t gs = (members gs, t)"
  by (induction gs) auto

lemma keep_groups_subset: "set (fst (keep_groups target t gs)) \<subseteq> set (members gs)"
proof (induction gs arbitrary: t)
  case (Cons g gs)
  show ?case
    using Cons.IH [of t] Cons.IH [of "t - cg_cost g"] by (auto simp: case_prod_unfold)
qed simp

lemma keep_groups_front:
  "list_all cg_protected front \<Longrightarrow> keep_groups target t (front @ rear) =
     (members front @ fst (keep_groups target t rear), snd (keep_groups target t rear))"
  by (induction front) (auto split: prod.splits)

section \<open>Trimming\<close>

text \<open>A trim replaces the payload of a tool result and keeps everything else.\<close>

definition retold :: "message \<Rightarrow> message \<Rightarrow> bool" where
  "retold m m' \<longleftrightarrow> m' = m \<or>
     (\<exists>r r'. m_ToolResult m = Some r \<and> m' = m\<lparr>m_ToolResult := Some r'\<rparr> \<and>
        tr_ToolCallID r' = tr_ToolCallID r \<and> tr_Name r' = tr_Name r \<and> tr_IsError r' = tr_IsError r)"

lemma retold_view:
  "retold m m' \<Longrightarrow> m_Role m' = m_Role m" "retold m m' \<Longrightarrow> m_ToolCalls m' = m_ToolCalls m"
  "retold m m' \<Longrightarrow> (m_ToolResult m' = None) = (m_ToolResult m = None)"
  by (auto simp: retold_def)

lemma resized_retold:
  "m_ToolResult m = Some r \<Longrightarrow> retold m (resized m r s n)"
  by (auto simp: retold_def resized_def result_SyncLegacyContent_def)

lemma trimmable_result: "trimmable_text m = Some (r, s) \<Longrightarrow> m_ToolResult m = Some r"
  by (auto simp: trimmable_text_def Let_def split: option.splits if_splits)

lemma trim_one_cases:
  assumes "trim_one marshal target t m = Inr (m', t')"
  shows "(m' = m \<and> t' = t) \<or> (\<exists>r s low before after. m_ToolResult m = Some r \<and>
    contextMessageCost marshal m = Inr before \<and> contextMessageCost marshal (resized m r s low) = Inr after \<and>
    after < before \<and> m' = resized m r s low \<and> t' = t - (before - after))"
proof (cases "trimmable_text m")
  case (Some rs)
  then obtain r s where "trimmable_text m = Some (r, s)"
    by (cases rs) auto
  then show ?thesis
    using assms trimmable_result [of m r s]
    by (auto simp: trim_one_def not_le split: sum.splits if_splits)
qed (use assms in \<open>simp add: trim_one_def\<close>)

lemma trim_one_ok:
  assumes "trim_one marshal target t m = Inr (m', t')"
  shows "retold m m' \<and> t' = t - (message_cost marshal m - message_cost marshal m')"
  using trim_one_cases [OF assms] by (auto simp: message_cost_Inr intro: resized_retold) (simp add: retold_def)

lemma trim_loop_ok:
  "trim_loop marshal target t ms = Inr (ms', t') \<Longrightarrow>
     list_all2 retold ms ms' \<and> t' = t - (history_cost marshal ms - history_cost marshal ms')"
proof (induction ms arbitrary: t ms' t')
  case (Cons m ms)
  show ?case
  proof (cases "t \<le> target")
    case True
    then show ?thesis
      using Cons.prems by (auto simp: retold_def intro: list_all2_refl)
  next
    case False
    then obtain m1 t1 ms1 where one: "trim_one marshal target t m = Inr (m1, t1)"
      and rest: "trim_loop marshal target t1 ms = Inr (ms1, t')" and ms': "ms' = m1 # ms1"
      using Cons.prems by (auto split: sum.splits)
    show ?thesis
      using Cons.IH [OF rest] trim_one_ok [OF one] ms' by simp
  qed
qed simp

lemma match_results_retold:
  "match_results start calls idx matched pos n ms = None \<Longrightarrow> list_all2 retold ms ms' \<Longrightarrow>
     match_results start calls idx matched pos n ms' = None"
proof (induction start calls idx matched pos n ms arbitrary: ms' rule: match_results.induct)
  case (3 start calls idx matched pos n m ms)
  then obtain m1 ms1 where ms': "ms' = m1 # ms1" "retold m m1" "list_all2 retold ms ms1"
    by (auto simp: list_all2_Cons1)
  obtain r i where r: "m_ToolCalls m = []" "m_Role m = RoleTool" "m_ToolResult m = Some r"
    "unmatchedCallIndex calls matched idx (tr_ToolCallID r) = Some i"
    and rest: "match_results start calls idx (matched[i := True]) (Suc pos) n ms = None"
    using "3.prems"(1) by (auto split: if_splits option.splits)
  have "match_results start calls idx (matched[i := True]) (Suc pos) n ms1 = None"
    using "3.IH" r rest ms'(3) by simp
  moreover obtain r1 where "m_ToolResult m1 = Some r1" "tr_ToolCallID r1 = tr_ToolCallID r"
    using ms'(2) r(3) by (auto simp: retold_def)
  ultimately show ?case
    using ms'(1) retold_view [OF ms'(2)] r by simp
qed auto

lemma tool_turn_retold:
  assumes "tool_turn m rs" "list_all2 retold rs rs'"
  shows "tool_turn m rs'"
  using assms match_results_retold [OF _ assms(2)] list_all2_lengthD [OF assms(2)]
  unfolding tool_turn_def by auto

lemma turns_retold: "turns ms \<Longrightarrow> list_all2 retold ms ms' \<Longrightarrow> turns ms'"
proof (induction arbitrary: ms' rule: turns.induct)
  case (turns_plain m ms)
  then obtain m1 ms1 where ms': "ms' = m1 # ms1" "retold m m1" "list_all2 retold ms ms1"
    by (auto simp: list_all2_Cons1)
  have "m1 = m"
    using ms'(2) turns_plain.hyps(1) by (auto simp: retold_def plain_message_def)
  then show ?case
    using ms'(1) turns.turns_plain [OF turns_plain.hyps(1) turns_plain.IH [OF ms'(3)]] by simp
next
  case (turns_tool m rs ms)
  then obtain m1 rs1 ms1 where ms': "ms' = m1 # rs1 @ ms1" "retold m m1" "list_all2 retold rs rs1"
    "list_all2 retold ms ms1"
    by (auto simp: list_all2_Cons1 list_all2_append1)
  have "m1 = m"
    using ms'(2) turns_tool.hyps(1) by (auto simp: retold_def tool_turn_def)
  then show ?case
    using ms'(1) turns.turns_tool [OF tool_turn_retold [OF turns_tool.hyps(1) ms'(3)] turns_tool.IH [OF ms'(4)]]
    by simp
qed (auto intro: turns_Nil)

lemma tool_turn_no_result: "tool_turn m rs \<Longrightarrow> m_ToolResult m = None"
  by (simp add: tool_turn_def)

lemma turns_result_role: "turns ms \<Longrightarrow> m \<in> set ms \<Longrightarrow> m_ToolResult m \<noteq> None \<Longrightarrow> m_Role m = RoleTool"
  by (induction rule: turns.induct) (auto simp: plain_message_def dest: tool_turn_roles tool_turn_no_result)

lemma instruction_retold:
  assumes "retold m m'" "m_ToolResult m \<noteq> None \<Longrightarrow> m_Role m = RoleTool"
  shows "instruction m' = instruction m" "instruction m \<Longrightarrow> m' = m"
proof -
  show "instruction m' = instruction m"
    using retold_view(1) [OF assms(1)] by (simp add: instruction_def)
  show "m' = m" if "instruction m"
    using assms that by (cases "m_ToolResult m") (simp_all add: retold_def instruction_def)
qed

lemma instructions_retold:
  "list_all2 retold ms ms' \<Longrightarrow> (\<And>m. m \<in> set ms \<Longrightarrow> m_ToolResult m \<noteq> None \<Longrightarrow> m_Role m = RoleTool) \<Longrightarrow>
     filter instruction ms' = filter instruction ms"
proof (induction rule: list_all2_induct)
  case (Cons m ms m' ms')
  have "filter instruction ms' = filter instruction ms"
    by (rule Cons.IH) (use Cons.prems in simp)
  moreover note instruction_retold [OF Cons.hyps(1)]
  ultimately show ?case
    using Cons.prems by (cases "instruction m") simp_all
qed simp

section \<open>The cache prefix\<close>

lemma last_marker_append: "last_marker b i (xs @ ys) = last_marker (last_marker b i xs) (i + length xs) ys"
  by (induction b i xs rule: last_marker.induct) simp_all

lemma last_marker_unmarked: "list_all (\<lambda>m. \<not> m_CacheBoundary m) ms \<Longrightarrow> last_marker b i ms = b"
  by (induction b i ms rule: last_marker.induct) simp_all

lemma cache_loop_append:
  "turns xs \<Longrightarrow> b \<le> index + length xs \<Longrightarrow> cache_loop b index (xs @ ys) = cache_loop b index xs"
proof (induction arbitrary: index rule: turns.induct)
  case turns_Nil
  then show ?case
    by (simp add: cache_loop_passed)
next
  case (turns_plain m ms)
  then show ?case
    by (simp add: cache_loop.simps(2) Let_def plain_no_calls)
next
  case (turns_tool m rs ms)
  then show ?case
    using cache_loop_tool [OF turns_tool.hyps(1), of b index ms]
      cache_loop_tool [OF turns_tool.hyps(1), of b index "ms @ ys"] by simp
qed

text \<open>What follows the protected prefix does not move it.\<close>

lemma CachePrefixBoundary_append:
  assumes "turns xs" "turns ys" "list_all (\<lambda>m. \<not> m_CacheBoundary m) ys"
  shows "CachePrefixBoundary (xs @ ys) = CachePrefixBoundary xs"
proof -
  have "ValidateCompleteTurns xs = None" "ValidateCompleteTurns (xs @ ys) = None"
    using assms turns_append by (simp_all add: ValidateCompleteTurns_turns)
  moreover have "last_marker 0 0 (xs @ ys) = last_marker 0 0 xs" "last_marker 0 0 xs \<le> length xs"
    using assms(3) last_marker_ge [of 0 0 xs] by (simp_all add: last_marker_append last_marker_unmarked)
  ultimately show ?thesis
    using cache_loop_append [OF assms(1), of "last_marker 0 0 xs" 0 ys]
    by (simp add: CachePrefixBoundary_def Let_def)
qed

lemma CachePrefixBoundary_cut:
  assumes "CachePrefixBoundary ms = Inr p"
  shows "turns ms" "cut ms p" "list_all (\<lambda>m. \<not> m_CacheBoundary m) (drop p ms)"
proof -
  have valid: "ValidateCompleteTurns ms = None"
    using assms by (auto simp: CachePrefixBoundary_def split: option.splits)
  then show "turns ms"
    by (simp add: ValidateCompleteTurns_turns)
  have p: "protects p ms" and "cut ms p"
    using CachePrefixBoundary_protects [OF valid] assms by auto
  then show "cut ms p"
    by simp
  have "\<not> m_CacheBoundary (ms ! (p + n))" if "n < length ms - p" for n
    using p that unfolding protects_def by (metis add.commute less_diff_conv not_add_less1)
  then show "list_all (\<lambda>m. \<not> m_CacheBoundary m) (drop p ms)"
    by (simp add: list_all_length)
qed

text \<open>A history with the same protected prefix and an unmarked rest has the same boundary.\<close>

lemma CachePrefixBoundary_same_prefix:
  assumes "CachePrefixBoundary ms = Inr p" "turns ys" "list_all (\<lambda>m. \<not> m_CacheBoundary m) ys"
  shows "CachePrefixBoundary (take p ms @ ys) = Inr p"
proof -
  have "CachePrefixBoundary (take p ms @ drop p ms) = CachePrefixBoundary (take p ms)"
    using CachePrefixBoundary_cut [OF assms(1)] by (intro CachePrefixBoundary_append) (simp_all add: cut_def)
  moreover have "CachePrefixBoundary (take p ms @ ys) = CachePrefixBoundary (take p ms)"
    using CachePrefixBoundary_cut [OF assms(1)] assms(2,3) by (intro CachePrefixBoundary_append) (simp_all add: cut_def)
  ultimately show ?thesis
    using assms(1) by simp
qed

section \<open>Fitting\<close>

lemma fitContext_Inr:
  assumes "fitContext marshal c1 c2 history target = Inr fitted"
  obtains p groups kept t t' where "CachePrefixBoundary history = Inr p"
    "context_groups marshal p (length history) 0 history = Inr groups"
    "keep_groups target (sum_list (map cg_cost groups)) groups = (kept, t)"
    "(if target < t then trimContextToolOutput marshal kept t target else Inr (kept, t)) = Inr (fitted, t')"
    "t' \<le> target"
  using assms that
  by (auto simp: fitContext_def not_less split: option.splits sum.splits prod.splits if_splits)

lemma group_costs: "list_all (group_ok marshal) gs \<Longrightarrow> sum_list (map cg_cost gs) = history_cost marshal (members gs)"
  by (induction gs) (simp_all add: group_ok_def)

lemma trim_ok:
  assumes "trimContextToolOutput marshal kept t target = Inr (fitted, t')" "CachePrefixBoundary kept = Inr p"
  shows "take p fitted = take p kept \<and> list_all2 retold kept fitted \<and>
    t' = t - (history_cost marshal kept - history_cost marshal fitted)"
proof -
  obtain ms where ms: "trim_loop marshal target t (drop p kept) = Inr (ms, t')" "fitted = take p kept @ ms"
    using assms by (auto simp: trimContextToolOutput_def split: sum.splits)
  have p: "p \<le> length kept"
    using CachePrefixBoundary_cut(2) [OF assms(2)] by (simp add: cut_def)
  have "list_all2 retold (take p kept @ drop p kept) fitted"
    unfolding ms(2) using trim_loop_ok [OF ms(1)]
    by (intro list_all2_appendI list_all2_refl) (auto simp: retold_def)
  moreover have "history_cost marshal kept = history_cost marshal (take p kept) + history_cost marshal (drop p kept)"
    by (metis append_take_drop_id history_cost_simps(3))
  ultimately show ?thesis
    using trim_loop_ok [OF ms(1)] ms(2) p by simp
qed

text \<open>What a successful fit is, in terms of its input.\<close>

definition fits :: "(message \<Rightarrow> go_err + bytes) \<Rightarrow> nat \<Rightarrow> int \<Rightarrow> message list \<Rightarrow> message list \<Rightarrow> bool" where
  "fits marshal p target history fitted \<longleftrightarrow>
     turns fitted \<and> take p fitted = take p history \<and> history_cost marshal fitted \<le> target \<and>
     filter instruction fitted = filter instruction history"

lemma fitContext_fits:
  assumes "fitContext marshal c1 c2 history target = Inr fitted"
  shows "\<exists>p. CachePrefixBoundary history = Inr p \<and> fits marshal p target history fitted"
proof -
  obtain p groups kept t t' where p: "CachePrefixBoundary history = Inr p"
    and groups: "context_groups marshal p (length history) 0 history = Inr groups"
    and kept: "keep_groups target (sum_list (map cg_cost groups)) groups = (kept, t)"
    and trim: "(if target < t then trimContextToolOutput marshal kept t target else Inr (kept, t)) = Inr (fitted, t')"
    and t': "t' \<le> target"
    using assms by (rule fitContext_Inr)
  note history = CachePrefixBoundary_cut [OF p]
  have ok: "members groups = history" "list_all (group_ok marshal) groups"
    using context_groups_ok [OF history(1) groups] by simp_all
  have k: "turns kept" "t = history_cost marshal kept" "filter instruction kept = filter instruction history"
    using keep_groups_ok [OF kept ok(2)] group_costs [OF ok(2)] ok(1) by simp_all
  obtain front rear where fr: "groups = front @ rear" "list_all cg_protected front" "members front = take p history"
    using context_groups_prefix [OF history(1) groups] history(2) by auto
  let ?rest = "fst (keep_groups target (sum_list (map cg_cost groups)) rear)"
  have rest: "kept = take p history @ ?rest"
    using keep_groups_front [OF fr(2), of target "sum_list (map cg_cost groups)" rear] kept
    unfolding fr(1) [symmetric] fr(3) by simp
  have len: "p \<le> length history"
    using history(2) by (simp add: cut_def)
  have same: "take p kept = take p history"
    using rest len by simp
  show ?thesis
  proof (cases "target < t")
    case False
    then show ?thesis
      using p trim t' k same by (intro exI [of _ p]) (auto simp: fits_def)
  next
    case True
    have "members rear = drop p history"
      using ok(1) fr len by (metis append_eq_conv_conj append_take_drop_id concat_append length_take map_append min.absorb2)
    then have unmarked: "list_all (\<lambda>m. \<not> m_CacheBoundary m) ?rest"
      using history(3) keep_groups_subset [of target "sum_list (map cg_cost groups)" rear] by (auto simp: list_all_iff)
    have "turns ?rest"
      using turns_drop_group [of "take p history" ?rest] history(2) k(1) rest by (simp add: cut_def)
    then have "CachePrefixBoundary kept = Inr p"
      using CachePrefixBoundary_same_prefix [OF p _ unmarked] rest by simp
    then have "take p fitted = take p kept" "list_all2 retold kept fitted"
      "t' = t - (history_cost marshal kept - history_cost marshal fitted)"
      using trim_ok True trim by simp_all
    then show ?thesis
      using p t' k same turns_retold [OF k(1)] instructions_retold [of kept fitted] turns_result_role [OF k(1)]
      by (intro exI [of _ p]) (simp add: fits_def)
  qed
qed

lemma fitContext_identity:
  assumes "fitContext marshal None c2 history target = Inr fitted" "history_cost marshal history \<le> target"
  shows "fitted = history"
proof -
  obtain p groups kept t t' where p: "CachePrefixBoundary history = Inr p"
    and groups: "context_groups marshal p (length history) 0 history = Inr groups"
    and kept: "keep_groups target (sum_list (map cg_cost groups)) groups = (kept, t)"
    and trim: "(if target < t then trimContextToolOutput marshal kept t target else Inr (kept, t)) = Inr (fitted, t')"
    using assms(1) by (rule fitContext_Inr)
  have ok: "members groups = history" "list_all (group_ok marshal) groups"
    using context_groups_ok [OF CachePrefixBoundary_cut(1) [OF p] groups] by simp_all
  have "sum_list (map cg_cost groups) \<le> target"
    using group_costs [OF ok(2)] ok(1) assms(2) by simp
  then show ?thesis
    using keep_groups_fits [of "sum_list (map cg_cost groups)" target groups] kept trim ok(1) by auto
qed

section \<open>Fitting again\<close>

definition costable :: "(message \<Rightarrow> go_err + bytes) \<Rightarrow> message \<Rightarrow> bool" where
  "costable marshal m \<longleftrightarrow> (\<exists>c. contextMessageCost marshal m = Inr c)"

lemma group_cost_costable: "(\<exists>c. group_cost marshal ms = Inr c) \<longleftrightarrow> list_all (costable marshal) ms"
  by (induction ms) (auto simp: costable_def split: sum.splits)

lemma context_groups_costable:
  "(\<exists>gs. context_groups marshal p len index ms = Inr gs) \<longleftrightarrow> list_all (costable marshal) ms"
proof (induction marshal p len index ms rule: context_groups.induct)
  case (2 marshal p len index m ms)
  let ?n = "length (m_ToolCalls m)"
  have "list_all (costable marshal) (m # ms) \<longleftrightarrow>
      list_all (costable marshal) (m # take ?n ms) \<and> list_all (costable marshal) (drop ?n ms)"
    by (metis append_Cons append_take_drop_id list_all_append)
  moreover note group_cost_costable [of marshal "m # take ?n ms"]
  ultimately show ?case
    using "2.IH" [OF refl refl refl]
    by (cases "group_cost marshal (m # take ?n ms)")
       (auto simp: context_groups.simps(2) Let_def simp del: group_cost.simps split: sum.split)
qed simp

lemma trim_one_costable:
  assumes "trim_one marshal target t m = Inr (m', t')" "costable marshal m"
  shows "costable marshal m'"
  using trim_one_cases [OF assms(1)] assms(2) by (auto simp: costable_def)

lemma trim_loop_costable:
  "trim_loop marshal target t ms = Inr (ms', t') \<Longrightarrow> list_all (costable marshal) ms \<Longrightarrow>
     list_all (costable marshal) ms'"
proof (induction ms arbitrary: t ms' t')
  case (Cons m ms)
  then show ?case
    using trim_one_costable by (auto split: if_splits sum.splits)
qed simp

lemma fitContext_costable:
  assumes "fitContext marshal c1 c2 history target = Inr fitted"
  shows "list_all (costable marshal) fitted"
proof -
  obtain p groups kept t t' where p: "CachePrefixBoundary history = Inr p"
    and groups: "context_groups marshal p (length history) 0 history = Inr groups"
    and kept: "keep_groups target (sum_list (map cg_cost groups)) groups = (kept, t)"
    and trim: "(if target < t then trimContextToolOutput marshal kept t target else Inr (kept, t)) = Inr (fitted, t')"
    using assms by (rule fitContext_Inr)
  have "members groups = history"
    using context_groups_ok [OF CachePrefixBoundary_cut(1) [OF p] groups] by simp
  then have "set kept \<subseteq> set history"
    using keep_groups_subset [of target "sum_list (map cg_cost groups)" groups] kept by simp
  moreover have "list_all (costable marshal) history"
    using groups context_groups_costable by blast
  ultimately have k: "list_all (costable marshal) kept"
    by (auto simp: list_all_iff)
  have "list_all (costable marshal) (take n kept @ ms)"
    if "trim_loop marshal target t (drop n kept) = Inr (ms, t')" for n ms
    using trim_loop_costable [OF that] k by (auto simp: list_all_iff dest: in_set_dropD in_set_takeD)
  then show ?thesis
    using trim k by (auto simp: trimContextToolOutput_def split: if_splits sum.splits)
qed

lemma fitContext_total:
  assumes "turns history" "list_all (costable marshal) history" "history_cost marshal history \<le> target"
  shows "fitContext marshal None None history target = Inr history"
proof -
  have valid: "ValidateCompleteTurns history = None"
    using assms(1) by (simp add: ValidateCompleteTurns_turns)
  obtain p where p: "CachePrefixBoundary history = Inr p"
    using CachePrefixBoundary_protects [OF valid] by auto
  obtain groups where groups: "context_groups marshal p (length history) 0 history = Inr groups"
    using context_groups_costable assms(2) by blast
  have ok: "members groups = history" "sum_list (map cg_cost groups) = history_cost marshal history"
    using context_groups_ok [OF assms(1) groups] group_costs by auto
  then show ?thesis
    using valid p groups assms(3) keep_groups_fits [of "history_cost marshal history" target groups]
    by (simp add: fitContext_def)
qed

section \<open>Properties\<close>

text \<open>
  C15.  A history that fitContext returns is made of complete tool turns, its estimated cost is
  within the target, it starts with the explicit cache prefix of the input unchanged, and it
  contains every system and user message of the input, unchanged and in order.
\<close>

theorem fit_context_keeps_contract:
  assumes "fitContext marshal ctx_before ctx_after history target = Inr fitted"
  shows "ValidateCompleteTurns fitted = None \<and> history_cost marshal fitted \<le> target \<and>
    (\<exists>p. CachePrefixBoundary history = Inr p \<and> take p fitted = take p history) \<and>
    filter instruction fitted = filter instruction history"
  using fitContext_fits [OF assms] by (auto simp: fits_def ValidateCompleteTurns_turns)

text \<open>
  Fitting is idempotent: fitting a fitted history to the same target returns it unchanged,
  when no cancellation intervenes.
\<close>

theorem fit_context_idempotent:
  assumes "fitContext marshal ctx_before ctx_after history target = Inr fitted"
  shows "fitContext marshal None None fitted target = Inr fitted"
  using fitContext_fits [OF assms] fitContext_costable [OF assms]
  by (auto simp: fits_def intro: fitContext_total)

definition sample_marshal_text :: "message \<Rightarrow> go_err + bytes" where
  "sample_marshal_text m = Inr (concat (map cp_Text (m_Content m)))"

definition sample_window :: "message list" where
  "sample_window = [NewText RoleUser ''question'', NewText RoleAssistant ''a long remark'',
     NewText RoleAssistant ''done'']"

lemma sample_window_fit:
  "fitContext sample_marshal_text None None sample_window 50 =
     Inr [NewText RoleUser ''question'', NewText RoleAssistant ''done'']"
  by code_simp

theorem fit_context_keeps_contract_witness:
  "history_cost sample_marshal_text [NewText RoleUser ''question'', NewText RoleAssistant ''done''] \<le> 50"
  using fit_context_keeps_contract [OF sample_window_fit] by simp

theorem fit_context_idempotent_witness:
  "fitContext sample_marshal_text None None
     [NewText RoleUser ''question'', NewText RoleAssistant ''done''] 50 =
   Inr [NewText RoleUser ''question'', NewText RoleAssistant ''done'']"
  by (rule fit_context_idempotent [OF sample_window_fit])

end
