(* ===== verification/Effects.thy ===== *)
theory Effects
  imports Programs Control Usage
begin

text \<open>
  Effectful code of the run loop.  An action reads and changes a state and ends by returning or
  panicking; a panic keeps the state it was raised in.  The world of an execution holds its
  \<open>Control\<close>, the \<open>Err()\<close> of the caller's context and everything else (\<open>w_ext\<close>).  Caller
  extensions (hooks, guardrails, observers, sinks, tools, the provider) are arbitrary actions on
  the world.  \<open>keeps\<close> is the logic of invariants: what holds before an action, after it returns,
  and when it panics.
\<close>

section \<open>Actions\<close>

type_synonym ('s, 'a) act = "'s \<Rightarrow> 's \<times> 'a outcome"

definition give :: "'a \<Rightarrow> ('s, 'a) act" where
  "give a = (\<lambda>s. (s, Returned a))"

definition bnd :: "('s, 'a) act \<Rightarrow> ('a \<Rightarrow> ('s, 'b) act) \<Rightarrow> ('s, 'b) act" where
  "bnd m f = (\<lambda>s. case m s of (s', Returned a) \<Rightarrow> f a s' | (s', Panicked b) \<Rightarrow> (s', Panicked b))"

definition peek :: "('s \<Rightarrow> 'a) \<Rightarrow> ('s, 'a) act" where
  "peek f = (\<lambda>s. (s, Returned (f s)))"

definition alter :: "('s \<Rightarrow> 's) \<Rightarrow> ('s, unit) act" where
  "alter f = (\<lambda>s. (f s, Returned ()))"

text \<open>A deferred \<open>recover\<close>.\<close>

definition recovering :: "('s, 'a) act \<Rightarrow> (bytes \<Rightarrow> ('s, 'a) act) \<Rightarrow> ('s, 'a) act" where
  "recovering m h = (\<lambda>s. case m s of (s', Panicked b) \<Rightarrow> h b s' | r \<Rightarrow> r)"

text \<open>An action on a part of the state.\<close>

definition zoom :: "('s \<Rightarrow> 't) \<Rightarrow> ('t \<Rightarrow> 's \<Rightarrow> 's) \<Rightarrow> ('t, 'a) act \<Rightarrow> ('s, 'a) act" where
  "zoom part set_part m = (\<lambda>s. case m (part s) of (t, r) \<Rightarrow> (set_part t s, r))"

lemma bnd_simps [simp]:
  "bnd (give a) f = f a" "bnd (peek g) f s = f (g s) s" "bnd (alter h) k s = k () (h s)"
  "give a s = (s, Returned a)" "peek g s = (s, Returned (g s))" "alter h s = (h s, Returned ())"
  by (simp_all add: bnd_def give_def peek_def alter_def)

lemma bnd_give [simp]: "bnd m give = m"
  by (auto simp: bnd_def give_def split: prod.splits outcome.splits)

lemma give_fold [simp]: "(\<lambda>s. (s, Returned a)) = give a"
  by (simp add: give_def)

lemma bnd_assoc: "bnd (bnd m f) g = bnd m (\<lambda>x. bnd (f x) g)"
  by (auto simp: bnd_def split: prod.splits outcome.splits)

lemma bnd_returned:
  "bnd m f s = (s', Returned b) \<longleftrightarrow> (\<exists>s1 a. m s = (s1, Returned a) \<and> f a s1 = (s', Returned b))"
  by (auto simp: bnd_def split: prod.splits outcome.splits)

section \<open>Invariants of actions\<close>

definition keeps :: "('s \<Rightarrow> bool) \<Rightarrow> ('s, 'a) act \<Rightarrow> ('a \<Rightarrow> 's \<Rightarrow> bool) \<Rightarrow> ('s \<Rightarrow> bool) \<Rightarrow> bool" where
  "keeps P m Q E \<longleftrightarrow> (\<forall>s. P s \<longrightarrow> (case m s of (s', Returned a) \<Rightarrow> Q a s' | (s', Panicked b) \<Rightarrow> E s'))"

named_theorems keeps_intros \<open>introduction rules for the logic of actions\<close>

lemma keepsI:
  assumes "\<And>s s' a. P s \<Longrightarrow> m s = (s', Returned a) \<Longrightarrow> Q a s'"
    and "\<And>s s' b. P s \<Longrightarrow> m s = (s', Panicked b) \<Longrightarrow> E s'"
  shows "keeps P m Q E"
  using assms by (auto simp: keeps_def split: prod.split outcome.split)

lemma keepsD:
  assumes "keeps P m Q E" "P s"
  shows "m s = (s', Returned a) \<Longrightarrow> Q a s'" "m s = (s', Panicked b) \<Longrightarrow> E s'"
  using assms by (auto simp: keeps_def dest!: spec [of _ s])

lemma keeps_bnd [keeps_intros]:
  assumes "keeps P m R E" "\<And>a. keeps (R a) (f a) Q E"
  shows "keeps P (bnd m f) Q E"
proof (rule keepsI)
  fix s s' a
  assume s: "P s" "bnd m f s = (s', Returned a)"
  then obtain s1 a1 where "m s = (s1, Returned a1)" "f a1 s1 = (s', Returned a)"
    by (auto simp: bnd_def split: prod.splits outcome.splits)
  then show "Q a s'"
    using keepsD(1) [OF assms(1) s(1)] keepsD(1) [OF assms(2)] by blast
next
  fix s s' b
  assume s: "P s" "bnd m f s = (s', Panicked b)"
  then consider "m s = (s', Panicked b)"
    | s1 a1 where "m s = (s1, Returned a1)" "f a1 s1 = (s', Panicked b)"
    by (auto simp: bnd_def split: prod.splits outcome.splits)
  then show "E s'"
    by cases (use keepsD [OF assms(1) s(1)] keepsD(2) [OF assms(2)] in blast)+
qed

lemma keeps_give [keeps_intros]: "(\<And>s. P s \<Longrightarrow> Q a s) \<Longrightarrow> keeps P (give a) Q E"
  by (rule keepsI) auto

lemma keeps_peek [keeps_intros]: "(\<And>s. P s \<Longrightarrow> Q (f s) s) \<Longrightarrow> keeps P (peek f) Q E"
  by (rule keepsI) auto

lemma keeps_alter [keeps_intros]: "(\<And>s. P s \<Longrightarrow> Q () (f s)) \<Longrightarrow> keeps P (alter f) Q E"
  by (rule keepsI) auto

lemma keeps_recovering:
  assumes "keeps P m Q R" "\<And>b. keeps R (h b) Q E"
  shows "keeps P (recovering m h) Q E"
proof (rule keepsI)
  fix s s' a
  assume s: "P s" "recovering m h s = (s', Returned a)"
  then consider "m s = (s', Returned a)" | s1 b where "m s = (s1, Panicked b)" "h b s1 = (s', Returned a)"
    by (auto simp: recovering_def split: prod.splits outcome.splits)
  then show "Q a s'"
    by cases (use keepsD [OF assms(1) s(1)] keepsD(1) [OF assms(2)] in blast)+
next
  fix s s' b
  assume s: "P s" "recovering m h s = (s', Panicked b)"
  then obtain s1 c where "m s = (s1, Panicked c)" "h c s1 = (s', Panicked b)"
    by (auto simp: recovering_def split: prod.splits outcome.splits)
  then show "E s'"
    using keepsD(2) [OF assms(1) s(1)] keepsD(2) [OF assms(2)] by blast
qed

lemma keeps_weaken:
  assumes "keeps P m Q E" "\<And>s. P' s \<Longrightarrow> P s" "\<And>a s. Q a s \<Longrightarrow> Q' a s" "\<And>s. E s \<Longrightarrow> E' s"
  shows "keeps P' m Q' E'"
proof (rule keepsI)
  fix s s' a
  assume "P' s" "m s = (s', Returned a)"
  then show "Q' a s'"
    using keepsD(1) [OF assms(1)] assms(2,3) by blast
next
  fix s s' b
  assume "P' s" "m s = (s', Panicked b)"
  then show "E' s'"
    using keepsD(2) [OF assms(1)] assms(2,4) by blast
qed

text \<open>An action on another part of the state does not touch the invariant.\<close>

lemma keeps_zoom:
  assumes "\<And>t s. P s \<Longrightarrow> P (set_part t s)"
  shows "keeps P (zoom part set_part m) (\<lambda>_. P) P"
  using assms by (intro keepsI) (auto simp: zoom_def split: prod.splits)

text \<open>What an action returns, whatever it is run in.\<close>

abbreviation yields :: "('s, 'a) act \<Rightarrow> ('a \<Rightarrow> bool) \<Rightarrow> bool" where
  "yields m Q \<equiv> keeps (\<lambda>_. True) m (\<lambda>a _. Q a) (\<lambda>_. True)"

lemma yields_any [simp]: "yields m (\<lambda>_. True)"
  by (auto simp: keeps_def split: prod.splits outcome.splits)

lemma yields_give: "Q a \<Longrightarrow> yields (give a) Q"
  by (auto intro: keeps_give)

lemma yields_mapped: "yields m R \<Longrightarrow> (\<And>a. R a \<Longrightarrow> Q (f a)) \<Longrightarrow> yields (bnd m (\<lambda>a. give (f a))) Q"
  by (rule keeps_bnd [where R = "\<lambda>a _. R a"]) (auto intro: keeps_give)

lemma yields_after: "(\<And>a. yields (f a) Q) \<Longrightarrow> yields (bnd m f) Q"
  by (rule keeps_bnd [where R = "\<lambda>_ _. True"]) simp_all

lemma keeps_pure: "(c \<Longrightarrow> yields m Q) \<Longrightarrow> keeps (\<lambda>_. c) m (\<lambda>a _. Q a) (\<lambda>_. True)"
  by (auto simp: keeps_def)

section \<open>The world\<close>

text \<open>
  \<open>w_collector\<close> is the usage collector a tool dispatch puts in its context, \<open>w_summaries\<close> what a
  model-backed compactor has reported to the context observer since the loop last folded it,
  \<open>w_stream_closed\<close> the \<open>sync.Once\<close> of the open stream.
\<close>

record 'x world =
  w_control :: control
  w_parent_err :: "go_err option"
  w_deadline_err :: "go_err option"
  w_collector :: usage
  w_summaries :: "usage list"
  w_stream_closed :: bool
  w_ext :: 'x

text \<open>
  \<open>ctx.Err()\<close>: with a handle, the context is the one \<open>start\<close> derived.  \<open>w_deadline_err\<close> is the
  error of a run's own deadline (\<open>runContext\<close>), once it has expired before anything above it.
\<close>

definition ctx_err :: "bool \<Rightarrow> 'x world \<Rightarrow> go_err option" where
  "ctx_err handle w = (case w_deadline_err w of Some e \<Rightarrow> Some e | None \<Rightarrow>
     (if handle then (case c_ctx (w_control w) of None \<Rightarrow> w_parent_err w | Some e \<Rightarrow> e)
      else w_parent_err w))"

text \<open>A method of the handle; on a nil handle it returns the given value.\<close>

definition on_control :: "bool \<Rightarrow> 'a \<Rightarrow> (control \<Rightarrow> control \<times> 'a) \<Rightarrow> ('x world, 'a) act" where
  "on_control handle absent f = (\<lambda>w. if \<not> handle then (w, Returned absent)
     else case f (w_control w) of (c, a) \<Rightarrow> (w\<lparr>w_control := c\<rparr>, Returned a))"

definition control_do :: "bool \<Rightarrow> (control \<Rightarrow> control) \<Rightarrow> ('x world, unit) act" where
  "control_do handle f = on_control handle () (\<lambda>c. (f c, ()))"

end
