(* ===== verification/ProviderEvents.thy ===== *)
theory ProviderEvents
  imports Usage Steps
begin

text \<open>
  Provider streams: the events of \<open>src/provider/provider.go\<close> and their normalization in
  \<open>src/provider/conformance.go\<close>.  A \<open>strings.Builder\<close> is the list of bytes written to it, and the
  pointers to tool-call builders are the entries of one table.  \<open>json.Valid\<close> is the argument
  \<open>json_valid\<close>.  The lemmas show that the accepted tool calls of a response have distinct,
  non-blank ids and valid arguments, and that the content parts carry the streamed text.
\<close>

section \<open>Events\<close>

datatype text_phase = TextPhaseCommentary | TextPhaseFinalAnswer | TextPhaseOther bytes

datatype event_kind =
    EventTextDelta | EventThinkingDelta | EventToolCallDelta | EventToolCall | EventDone | EventError
  | EventOther bytes

record tool_call_delta =
  dl_Index :: "int option"
  dl_ID :: bytes
  dl_Name :: bytes
  dl_ArgumentsDelta :: bytes

record event =
  ev_Kind :: event_kind
  ev_Text :: bytes
  ev_TextPhase :: text_phase
  ev_Thinking :: bytes
  ev_Signature :: bytes
  ev_RedactedThinking :: bytes
  ev_ToolCall :: "tool_call option"
  ev_ToolCallDelta :: "tool_call_delta option"
  ev_Usage :: usage
  ev_StopReason :: stop_reason
  ev_ProviderState :: bytes
  ev_Response :: response_metadata
  ev_Err :: "go_err option"

record normalized_response =
  nr_Content :: "content_part list"
  nr_Text :: bytes
  nr_Thinking :: bytes
  nr_Signature :: bytes
  nr_RedactedThinking :: bytes
  nr_ToolCalls :: "tool_call list"
  nr_Usage :: usage
  nr_StopReason :: stop_reason
  nr_ProviderState :: bytes
  nr_Response :: response_metadata

definition zero_normalized :: normalized_response where
  "zero_normalized = \<lparr>nr_Content = [], nr_Text = [], nr_Thinking = [], nr_Signature = [],
     nr_RedactedThinking = [], nr_ToolCalls = [], nr_Usage = zero_usage, nr_StopReason = StopReasonOther [],
     nr_ProviderState = [], nr_Response = zero_response\<rparr>"

definition MaxToolCallsPerResponse :: nat where "MaxToolCallsPerResponse = 1024"

section \<open>Terminal events\<close>

fun terminal_scan :: "bool \<Rightarrow> event list \<Rightarrow> go_err + bool" where
  "terminal_scan terminal [] = Inr terminal"
| "terminal_scan terminal (e # es) =
     (if ev_Kind e \<noteq> EventDone \<and> ev_Kind e \<noteq> EventError
        then (if terminal then Inl (wrap_err ''terminal index'' (sentinel ErrEventAfterTerminal))
              else terminal_scan terminal es)
      else if terminal then Inl (wrap_err ''indexes'' (sentinel ErrMultipleTerminalEvents))
      else terminal_scan True es)"

definition validateTerminalSequence :: "event list \<Rightarrow> bool \<Rightarrow> go_err option" where
  "validateTerminalSequence events requireTerminal = (case terminal_scan False events of
       Inl e \<Rightarrow> Some e
     | Inr terminal \<Rightarrow>
         if requireTerminal \<and> \<not> terminal then Some (sentinel ErrMissingTerminalEvent) else None)"

section \<open>Content parts\<close>

definition contentKindForPhase :: "text_phase \<Rightarrow> content_kind" where
  "contentKindForPhase phase = (case phase of
       TextPhaseCommentary \<Rightarrow> ContentCommentary
     | TextPhaseFinalAnswer \<Rightarrow> ContentFinalAnswer
     | TextPhaseOther _ \<Rightarrow> ContentText)"

text \<open>The builder is the list of parts, each with the text written so far.\<close>

definition appendText ::
  "content_kind \<Rightarrow> bytes \<Rightarrow> bytes \<Rightarrow> content_part list \<Rightarrow> content_part list" where
  "appendText kind txt signature parts =
     (if txt = [] \<and> signature = [] then parts
      else if parts \<noteq> [] \<and> cp_Kind (last parts) = kind \<and> cp_Data (last parts) = []
        then butlast parts @ [(last parts)\<lparr>cp_Text := cp_Text (last parts) @ txt,
               cp_Signature := (if signature \<noteq> [] then signature else cp_Signature (last parts))\<rparr>]
      else parts @ [zero_part\<lparr>cp_Kind := kind, cp_Signature := signature, cp_Text := txt\<rparr>])"

definition appendPart :: "content_part \<Rightarrow> content_part list \<Rightarrow> content_part list" where
  "appendPart part parts = parts @ [part\<lparr>cp_Text := []\<rparr>]"

section \<open>Tool-call builders\<close>

record builder =
  bd_ID :: bytes
  bd_Index :: "int option"
  bd_Name :: bytes
  bd_Arguments :: bytes
  bd_fullSeen :: bool
  bd_fullArguments :: bool
  bd_identityConflict :: bytes

record builder_table =
  bt_builders :: "bytes \<rightharpoonup> builder"
  bt_order :: "bytes list"
  bt_idKeys :: "bytes \<rightharpoonup> bytes"
  bt_indexKeys :: "int \<rightharpoonup> bytes"
  bt_syntheticSeq :: nat

definition empty_table :: builder_table where
  "empty_table = \<lparr>bt_builders = Map.empty, bt_order = [], bt_idKeys = Map.empty,
     bt_indexKeys = Map.empty, bt_syntheticSeq = 0\<rparr>"

definition alter_builder :: "bytes \<Rightarrow> (builder \<Rightarrow> builder) \<Rightarrow> builder_table \<Rightarrow> builder_table" where
  "alter_builder key f t = t\<lparr>bt_builders := (bt_builders t)(key := map_option f (bt_builders t key))\<rparr>"

definition builder_at :: "builder_table \<Rightarrow> bytes \<Rightarrow> builder" where
  "builder_at t key = (case bt_builders t key of Some b \<Rightarrow> b
     | None \<Rightarrow> \<lparr>bd_ID = [], bd_Index = None, bd_Name = [], bd_Arguments = [], bd_fullSeen = False,
         bd_fullArguments = False, bd_identityConflict = []\<rparr>)"

abbreviation conflict :: "bytes \<Rightarrow> bytes \<Rightarrow> builder_table \<Rightarrow> builder_table" where
  "conflict key label \<equiv> alter_builder key (bd_identityConflict_update (\<lambda>_. label))"

text \<open>A known id, with an index to bind; a known index, with an id to bind.\<close>

definition bind_index :: "bytes \<Rightarrow> int option \<Rightarrow> builder_table \<Rightarrow> builder_table" where
  "bind_index key index t = (case index of None \<Rightarrow> t | Some i \<Rightarrow>
     if (case bt_indexKeys t i of Some k \<Rightarrow> k \<noteq> key | None \<Rightarrow> False)
       then conflict key ''id rebound to index'' t
     else if (case bd_Index (builder_at t key) of Some j \<Rightarrow> j \<noteq> i | None \<Rightarrow> False)
       then conflict key ''id used indexes'' t
     else (alter_builder key (bd_Index_update (\<lambda>_. Some i)) t)
            \<lparr>bt_indexKeys := (bt_indexKeys t)(i \<mapsto> key)\<rparr>)"

definition bind_id :: "bytes \<Rightarrow> bytes \<Rightarrow> builder_table \<Rightarrow> builder_table" where
  "bind_id key i t =
     (if i = [] then t
      else if (case bt_idKeys t i of Some k \<Rightarrow> k \<noteq> key | None \<Rightarrow> False)
        then conflict key ''index rebound to id'' t
      else if bd_ID (builder_at t key) \<noteq> [] \<and> bd_ID (builder_at t key) \<noteq> i
        then conflict key ''index used ids'' t
      else (alter_builder key (bd_ID_update (\<lambda>_. i)) t)\<lparr>bt_idKeys := (bt_idKeys t)(i \<mapsto> key)\<rparr>)"

text \<open>\<open>%d\<close> of an integer.\<close>

definition print_int :: "int \<Rightarrow> bytes" where
  "print_int i = (if i < 0 then ''-'' @ decimal (nat (- i)) else decimal (nat i))"

definition new_builder :: "bytes \<Rightarrow> int option \<Rightarrow> builder_table \<Rightarrow> builder_table \<times> bytes" where
  "new_builder i index t0 =
     (let (key, t) = (if i \<noteq> [] then (''id:'' @ i, t0)
            else case index of
                Some n \<Rightarrow> (''index:'' @ print_int n, t0)
              | None \<Rightarrow> (''tool-call-'' @ decimal (bt_syntheticSeq t0),
                         t0\<lparr>bt_syntheticSeq := Suc (bt_syntheticSeq t0)\<rparr>))
      in if bt_builders t key \<noteq> None then (t, key)
         else (t\<lparr>bt_builders := (bt_builders t)(key \<mapsto>
                   \<lparr>bd_ID = i, bd_Index = index, bd_Name = [], bd_Arguments = [], bd_fullSeen = False,
                    bd_fullArguments = False, bd_identityConflict = []\<rparr>),
                 bt_idKeys := (if i \<noteq> [] then (bt_idKeys t)(i \<mapsto> key) else bt_idKeys t),
                 bt_indexKeys := (case index of Some n \<Rightarrow> (bt_indexKeys t)(n \<mapsto> key) | None \<Rightarrow> bt_indexKeys t),
                 bt_order := bt_order t @ [key]\<rparr>, key))"

definition ensureToolCallBuilder :: "bytes \<Rightarrow> int option \<Rightarrow> builder_table \<Rightarrow> builder_table \<times> bytes" where
  "ensureToolCallBuilder i index t =
     (case (if i = [] then None else bt_idKeys t i) of
        Some key \<Rightarrow> (bind_index key index t, key)
      | None \<Rightarrow>
          (case (case index of Some n \<Rightarrow> bt_indexKeys t n | None \<Rightarrow> None) of
             Some key \<Rightarrow> (bind_id key i t, key)
           | None \<Rightarrow> new_builder i index t))"

definition applyToolCallEvent :: "tool_call option \<Rightarrow> builder_table \<Rightarrow> go_err + builder_table" where
  "applyToolCallEvent call t0 = (case call of None \<Rightarrow> Inr t0 | Some c \<Rightarrow>
     (case ensureToolCallBuilder (tc_ID c) None t0 of (t, key) \<Rightarrow>
        if bd_fullSeen (builder_at t key)
          then Inl (wrap_err (bd_ID (builder_at t key)) (sentinel ErrDuplicateToolCallID))
        else Inr (alter_builder key (\<lambda>b. b\<lparr>
               bd_fullSeen := True,
               bd_ID := (if tc_ID c \<noteq> [] then tc_ID c else bd_ID b),
               bd_Name := (if tc_Name c \<noteq> [] then tc_Name c else bd_Name b),
               bd_Arguments := (if tc_Arguments c \<noteq> [] then tc_Arguments c else bd_Arguments b),
               bd_fullArguments := (tc_Arguments c \<noteq> [] \<or> bd_fullArguments b)\<rparr>) t)))"

definition applyToolCallDeltaEvent :: "tool_call_delta option \<Rightarrow> builder_table \<Rightarrow> builder_table" where
  "applyToolCallDeltaEvent delta t0 = (case delta of None \<Rightarrow> t0 | Some d \<Rightarrow>
     (case ensureToolCallBuilder (dl_ID d) (dl_Index d) t0 of (t, key) \<Rightarrow>
        if bd_fullArguments (builder_at t key) then t
        else alter_builder key (\<lambda>b. b\<lparr>
               bd_ID := (if dl_ID d \<noteq> [] then dl_ID d else bd_ID b),
               bd_Index := (if dl_Index d \<noteq> None then dl_Index d else bd_Index b),
               bd_Name := (if dl_Name d \<noteq> [] then dl_Name d else bd_Name b),
               bd_Arguments := bd_Arguments b @ dl_ArgumentsDelta d\<rparr>) t))"

section \<open>Normalization\<close>

fun finalize_loop ::
  "(bytes \<Rightarrow> bool) \<Rightarrow> builder_table \<Rightarrow> bytes list \<Rightarrow> tool_call list \<Rightarrow> go_err option
     \<Rightarrow> go_err + (tool_call list \<times> go_err option)" where
  "finalize_loop json_valid t [] calls argumentsErr = Inr (calls, argumentsErr)"
| "finalize_loop json_valid t (key # keys) calls argumentsErr =
     (case bt_builders t key of None \<Rightarrow> finalize_loop json_valid t keys calls argumentsErr
      | Some b \<Rightarrow>
          if bd_identityConflict b \<noteq> []
            then Inl (wrap_err (bd_identityConflict b) (sentinel ErrToolCallIdentityConflict))
          else if trim_space (bd_ID b) = [] then Inl (wrap_err key (sentinel ErrMissingToolCallID))
          else if bd_Arguments b \<noteq> [] \<and> \<not> json_valid (bd_Arguments b)
            then finalize_loop json_valid t keys calls
                   (errors_join [argumentsErr, Some (wrap_err (bd_ID b) (sentinel ErrInvalidToolCallArguments))])
          else if MaxToolCallsPerResponse \<le> length calls
            then Inl (wrap_err ''more than 1024'' (sentinel ErrTooManyProviderToolCalls))
          else finalize_loop json_valid t keys
                 (calls @ [\<lparr>tc_ID = bd_ID b, tc_Name = bd_Name b, tc_Arguments = bd_Arguments b,
                            tc_OperationID = []\<rparr>]) argumentsErr)"

text \<open>A response with an optional error: a fatal error comes with the zero response.\<close>

definition finalizeToolCalls ::
  "(bytes \<Rightarrow> bool) \<Rightarrow> normalized_response \<Rightarrow> builder_table \<Rightarrow> normalized_response \<times> go_err option" where
  "finalizeToolCalls json_valid response t =
     (if MaxToolCallsPerResponse < length (bt_order t)
        then (zero_normalized, Some (wrap_err ''more than 1024'' (sentinel ErrTooManyProviderToolCalls)))
      else case finalize_loop json_valid t (bt_order t) [] None of
          Inl e \<Rightarrow> (zero_normalized, Some e)
        | Inr (calls, argumentsErr) \<Rightarrow>
            (response\<lparr>nr_ToolCalls := (if argumentsErr \<noteq> None then [] else calls)\<rparr>, argumentsErr))"

text \<open>One event; \<open>nr_Content\<close>, \<open>nr_Text\<close> and \<open>nr_Thinking\<close> hold what the builders hold.\<close>

definition normalize_event ::
  "event \<Rightarrow> normalized_response \<times> builder_table \<Rightarrow> go_err + normalized_response \<times> builder_table" where
  "normalize_event e st = (case st of (r0, t) \<Rightarrow>
     (let r = r0\<lparr>nr_Usage := usage_add (nr_Usage r0) (ev_Usage e)\<rparr> in case ev_Kind e of
        EventTextDelta \<Rightarrow> Inr (r\<lparr>nr_Text := nr_Text r @ ev_Text e,
            nr_Content := appendText (contentKindForPhase (ev_TextPhase e)) (ev_Text e) [] (nr_Content r)\<rparr>, t)
      | EventThinkingDelta \<Rightarrow>
          (let r1 = r\<lparr>nr_Thinking := nr_Thinking r @ ev_Thinking e,
                 nr_Content := appendText ContentReasoning (ev_Thinking e) (ev_Signature e) (nr_Content r),
                 nr_Signature := (if ev_Signature e \<noteq> [] then ev_Signature e else nr_Signature r)\<rparr>
           in Inr (if ev_RedactedThinking e = [] then r1
                   else r1\<lparr>nr_RedactedThinking := ev_RedactedThinking e,
                          nr_Content := appendPart (zero_part\<lparr>cp_Kind := ContentRedactedReasoning,
                            cp_Data := ev_RedactedThinking e\<rparr>) (nr_Content r1)\<rparr>, t))
      | EventToolCall \<Rightarrow> (case applyToolCallEvent (ev_ToolCall e) t of Inl x \<Rightarrow> Inl x | Inr t' \<Rightarrow> Inr (r, t'))
      | EventToolCallDelta \<Rightarrow> Inr (r, applyToolCallDeltaEvent (ev_ToolCallDelta e) t)
      | EventError \<Rightarrow> Inl (case ev_Err e of Some x \<Rightarrow> x
            | None \<Rightarrow> new_err ''provider stream returned error event'')
      | EventDone \<Rightarrow> Inr (r\<lparr>nr_StopReason := ev_StopReason e,
            nr_Usage := (if ev_Usage e \<noteq> zero_usage then ev_Usage e else nr_Usage r),
            nr_ProviderState := (if ev_ProviderState e \<noteq> [] then ev_ProviderState e else nr_ProviderState r),
            nr_Response := (if rm_ID (ev_Response e) \<noteq> [] \<or> rm_Model (ev_Response e) \<noteq> [] \<or>
                rm_Headers (ev_Response e) \<noteq> [] then ev_Response e else nr_Response r)\<rparr>, t)
      | EventOther _ \<Rightarrow> Inr (r, t)))"

fun normalize_loop ::
  "event list \<Rightarrow> normalized_response \<times> builder_table \<Rightarrow> go_err + normalized_response \<times> builder_table" where
  "normalize_loop [] st = Inr st"
| "normalize_loop (e # es) st = (case normalize_event e st of Inl x \<Rightarrow> Inl x | Inr st' \<Rightarrow> normalize_loop es st')"

definition normalizeEvents ::
  "(bytes \<Rightarrow> bool) \<Rightarrow> event list \<Rightarrow> bool \<Rightarrow> normalized_response \<times> go_err option" where
  "normalizeEvents json_valid events requireTerminal =
     (case validateTerminalSequence events False of Some e \<Rightarrow> (zero_normalized, Some e) | None \<Rightarrow>
      case normalize_loop events (zero_normalized, empty_table) of
        Inl e \<Rightarrow> (zero_normalized, Some e)
      | Inr (response, t) \<Rightarrow>
          (case (if requireTerminal then validateTerminalSequence events True else None) of
             Some e \<Rightarrow> (zero_normalized, Some e)
           | None \<Rightarrow> finalizeToolCalls json_valid response t))"

definition NormalizeEvents where
  "NormalizeEvents json_valid events = normalizeEvents json_valid events True"

definition NormalizePartialEvents where
  "NormalizePartialEvents json_valid events = normalizeEvents json_valid events False"

section \<open>The table of builders\<close>

text \<open>
  Unless a conflict has been recorded for it, a builder is found through its id; what the two
  index maps name exists; and the order lists the builders once each.
\<close>

definition settled_id :: "builder_table \<Rightarrow> bytes \<Rightarrow> builder \<Rightarrow> bool" where
  "settled_id t key b \<longleftrightarrow> bd_identityConflict b = [] \<longrightarrow> bd_ID b \<noteq> [] \<longrightarrow> bt_idKeys t (bd_ID b) = Some key"

definition table_ok :: "builder_table \<Rightarrow> bool" where
  "table_ok t \<longleftrightarrow>
     (\<forall>key b. bt_builders t key = Some b \<longrightarrow> settled_id t key b) \<and>
     (\<forall>i key. bt_idKeys t i = Some key \<longrightarrow> bt_builders t key \<noteq> None) \<and>
     (\<forall>n key. bt_indexKeys t n = Some key \<longrightarrow> bt_builders t key \<noteq> None) \<and>
     (\<forall>i. bt_builders t (''id:'' @ i) \<noteq> None \<longrightarrow> i \<noteq> [] \<longrightarrow> bt_idKeys t i \<noteq> None) \<and>
     set (bt_order t) = dom (bt_builders t) \<and> distinct (bt_order t)"

lemma table_okI:
  assumes "\<And>key b. bt_builders t key = Some b \<Longrightarrow> settled_id t key b"
    and "\<And>i key. bt_idKeys t i = Some key \<Longrightarrow> bt_builders t key \<noteq> None"
    and "\<And>n key. bt_indexKeys t n = Some key \<Longrightarrow> bt_builders t key \<noteq> None"
    and "\<And>i. bt_builders t (''id:'' @ i) \<noteq> None \<Longrightarrow> i \<noteq> [] \<Longrightarrow> bt_idKeys t i \<noteq> None"
    and "set (bt_order t) = dom (bt_builders t)" "distinct (bt_order t)"
  shows "table_ok t"
  using assms unfolding table_ok_def by blast

lemma table_okD:
  assumes "table_ok t"
  shows "bt_builders t key = Some b \<Longrightarrow> settled_id t key b"
    and "bt_idKeys t i = Some key \<Longrightarrow> bt_builders t key \<noteq> None"
    and "bt_indexKeys t n = Some key \<Longrightarrow> bt_builders t key \<noteq> None"
    and "bt_builders t (''id:'' @ i) \<noteq> None \<Longrightarrow> i \<noteq> [] \<Longrightarrow> bt_idKeys t i \<noteq> None"
    and "set (bt_order t) = dom (bt_builders t)" "distinct (bt_order t)"
  using assms unfolding table_ok_def by simp_all

lemma table_ok_empty: "table_ok empty_table"
  by (simp add: table_ok_def empty_table_def)

lemma alter_builder_view [simp]:
  "bt_order (alter_builder key f t) = bt_order t" "bt_idKeys (alter_builder key f t) = bt_idKeys t"
  "bt_indexKeys (alter_builder key f t) = bt_indexKeys t"
  "bt_syntheticSeq (alter_builder key f t) = bt_syntheticSeq t"
  "dom (bt_builders (alter_builder key f t)) = dom (bt_builders t)"
  "bt_builders (alter_builder key f t) k =
     (if k = key then map_option f (bt_builders t key) else bt_builders t k)"
  by (auto simp: alter_builder_def dom_def)

text \<open>Changing one builder, where its id stays findable.\<close>

lemma table_ok_alter:
  assumes t: "table_ok t" and f: "\<And>b. bt_builders t key = Some b \<Longrightarrow> settled_id t key (f b)"
  shows "table_ok (alter_builder key f t)"
proof (rule table_okI)
  fix k b
  assume "bt_builders (alter_builder key f t) k = Some b"
  then have "settled_id t k b"
    using f table_okD(1) [OF t] by (auto split: if_splits)
  then show "settled_id (alter_builder key f t) k b"
    by (simp add: settled_id_def)
next
  fix i
  assume "bt_builders (alter_builder key f t) (''id:'' @ i) \<noteq> None" "i \<noteq> []"
  then have "bt_builders t (''id:'' @ i) \<noteq> None"
    by (auto split: if_splits)
  then show "bt_idKeys (alter_builder key f t) i \<noteq> None"
    using table_okD(4) [OF t] \<open>i \<noteq> []\<close> by (simp del: append.simps)
qed (use table_okD [OF t] in auto)

lemma table_ok_conflict: "table_ok t \<Longrightarrow> label \<noteq> [] \<Longrightarrow> table_ok (conflict key label t)"
  by (rule table_ok_alter) (simp_all add: settled_id_def)

text \<open>What the lookup of a builder establishes: it exists, and its id may be set to the given one.\<close>

definition claims :: "bytes \<Rightarrow> builder_table \<times> bytes \<Rightarrow> bool" where
  "claims i r \<longleftrightarrow> table_ok (fst r) \<and> bt_builders (fst r) (snd r) \<noteq> None \<and>
     (i \<noteq> [] \<longrightarrow> bt_idKeys (fst r) i = Some (snd r) \<or>
        bd_identityConflict (builder_at (fst r) (snd r)) \<noteq> [])"

lemma builder_at_alter:
  "bt_builders t key \<noteq> None \<Longrightarrow> builder_at (alter_builder key f t) key = f (builder_at t key)"
  by (auto simp: builder_at_def)

lemma bind_index_claims:
  assumes t: "table_ok t" and key: "bt_idKeys t i = Some key"
  shows "claims i (bind_index key index t, key)"
proof -
  have b: "bt_builders t key \<noteq> None"
    using t key by (rule table_okD)
  have "table_ok ((alter_builder key (bd_Index_update (\<lambda>_. Some n)) t)
      \<lparr>bt_indexKeys := (bt_indexKeys t)(n \<mapsto> key)\<rparr>)" for n
  proof (rule table_okI)
    fix k c
    assume "bt_builders ((alter_builder key (bd_Index_update (\<lambda>_. Some n)) t)
      \<lparr>bt_indexKeys := (bt_indexKeys t)(n \<mapsto> key)\<rparr>) k = Some c"
    then show "settled_id ((alter_builder key (bd_Index_update (\<lambda>_. Some n)) t)
      \<lparr>bt_indexKeys := (bt_indexKeys t)(n \<mapsto> key)\<rparr>) k c"
      using table_okD(1) [OF t] by (fastforce simp: settled_id_def split: if_splits)
  qed (use b table_okD [OF t] in \<open>auto split: if_splits\<close>)
  then show ?thesis
    using t b key table_ok_conflict [OF t]
    by (auto simp: claims_def bind_index_def split: option.splits)
qed

lemma bind_id_claims:
  assumes t: "table_ok t" and b: "bt_builders t key \<noteq> None"
  shows "claims i (bind_id key i t, key)"
proof -
  have "table_ok ((alter_builder key (bd_ID_update (\<lambda>_. i)) t)\<lparr>bt_idKeys := (bt_idKeys t)(i \<mapsto> key)\<rparr>)"
    if free: "bt_idKeys t i = None \<or> bt_idKeys t i = Some key"
  proof (rule table_okI)
    fix k c
    assume "bt_builders ((alter_builder key (bd_ID_update (\<lambda>_. i)) t)
      \<lparr>bt_idKeys := (bt_idKeys t)(i \<mapsto> key)\<rparr>) k = Some c"
    then show "settled_id ((alter_builder key (bd_ID_update (\<lambda>_. i)) t)
      \<lparr>bt_idKeys := (bt_idKeys t)(i \<mapsto> key)\<rparr>) k c"
      using table_okD(1) [OF t, of k c] free by (auto simp: settled_id_def split: if_splits)
  qed (use b table_okD [OF t] in \<open>auto split: if_splits\<close>)
  then show ?thesis
    using t b table_ok_conflict [OF t]
    by (auto simp: claims_def bind_id_def builder_at_alter split: option.splits)
qed

lemma fresh_key:
  assumes "i \<noteq> [] \<Longrightarrow> bt_idKeys t i = None" "bt_builders t key = None"
    and "i \<noteq> [] \<Longrightarrow> key = ''id:'' @ i" "i = [] \<Longrightarrow> hd key \<noteq> CHR ''i'' \<or> hd (tl key) \<noteq> CHR ''d''"
    and t: "table_ok t" and "bd_ID b = i"
  shows "table_ok (t\<lparr>bt_builders := (bt_builders t)(key \<mapsto> b),
      bt_idKeys := (if i \<noteq> [] then (bt_idKeys t)(i \<mapsto> key) else bt_idKeys t),
      bt_indexKeys := (case index of Some n \<Rightarrow> (bt_indexKeys t)(n \<mapsto> key) | None \<Rightarrow> bt_indexKeys t),
      bt_order := bt_order t @ [key]\<rparr>)" (is "table_ok ?t")
proof (rule table_okI)
  fix k c
  assume "bt_builders ?t k = Some c"
  then show "settled_id ?t k c"
    using table_okD(1) [OF t, of k c] assms(1,6) by (auto simp: settled_id_def split: if_splits)
next
  fix j
  assume "bt_builders ?t (''id:'' @ j) \<noteq> None" "j \<noteq> []"
  then show "bt_idKeys ?t j \<noteq> None"
    using table_okD(4) [OF t, of j] assms(3,4) by (auto split: if_splits)
qed (use assms(2) table_okD [OF t] in \<open>auto split: if_splits option.splits\<close>)

lemma new_builder_claims:
  assumes t: "table_ok t" and free: "i \<noteq> [] \<Longrightarrow> bt_idKeys t i = None"
  shows "claims i (new_builder i index t)"
proof (cases "i = []")
  case True
  show ?thesis
  proof (cases index)
    case None
    have "table_ok (t\<lparr>bt_syntheticSeq := n\<rparr>)" for n
      using t by (simp add: table_ok_def settled_id_def)
    then show ?thesis
      using True None fresh_key [of i "t\<lparr>bt_syntheticSeq := Suc (bt_syntheticSeq t)\<rparr>" _ _ None]
      by (auto simp: claims_def new_builder_def Let_def)
  next
    case (Some n)
    then show ?thesis
      using True t fresh_key [of i t _ _ "Some n"] by (auto simp: claims_def new_builder_def Let_def)
  qed
next
  case False
  have "bt_builders t (''id:'' @ i) = None"
    by (metis False free t table_okD(4))
  then show ?thesis
    using False t free fresh_key [of i t "''id:'' @ i" _ index]
    by (cases index) (auto simp: claims_def new_builder_def Let_def)
qed

lemma ensureToolCallBuilder_claims:
  "table_ok t \<Longrightarrow> claims i (ensureToolCallBuilder i index t)"
  by (auto simp: ensureToolCallBuilder_def split: option.splits
      intro: bind_index_claims bind_id_claims new_builder_claims dest: table_okD(3))

lemma ensured:
  "ensureToolCallBuilder i index t = (t', key) \<Longrightarrow> table_ok t \<Longrightarrow> claims i (t', key) \<and> table_ok t'"
  using ensureToolCallBuilder_claims [of t i index] by (simp add: claims_def)

lemma claimed_alter:
  assumes "claims i (t, key)" "\<And>b. bd_identityConflict (f b) = bd_identityConflict b"
    and "\<And>b. bd_ID (f b) = (if i \<noteq> [] then i else bd_ID b)"
  shows "table_ok (alter_builder key f t)"
  using assms table_okD(1) [of t key]
  by (intro table_ok_alter) (auto simp: claims_def settled_id_def builder_at_def)

lemma table_ok_call:
  assumes "table_ok t" "applyToolCallEvent call t = Inr t'"
  shows "table_ok t'"
proof (cases call)
  case None
  then show ?thesis
    using assms by (simp add: applyToolCallEvent_def)
next
  case (Some c)
  obtain t1 key where e: "ensureToolCallBuilder (tc_ID c) None t = (t1, key)"
    by fastforce
  have "t' = alter_builder key (\<lambda>b. b\<lparr>bd_fullSeen := True,
      bd_ID := (if tc_ID c \<noteq> [] then tc_ID c else bd_ID b),
      bd_Name := (if tc_Name c \<noteq> [] then tc_Name c else bd_Name b),
      bd_Arguments := (if tc_Arguments c \<noteq> [] then tc_Arguments c else bd_Arguments b),
      bd_fullArguments := (tc_Arguments c \<noteq> [] \<or> bd_fullArguments b)\<rparr>) t1"
    using assms(2) unfolding applyToolCallEvent_def Some option.case e prod.case
    by (simp split: if_splits)
  moreover have "table_ok \<dots>"
    using ensured [OF e assms(1)] by (intro claimed_alter [of "tc_ID c"]) simp_all
  ultimately show ?thesis
    by (rule ssubst)
qed

lemma table_ok_delta:
  assumes "table_ok t"
  shows "table_ok (applyToolCallDeltaEvent delta t)"
proof (cases delta)
  case None
  then show ?thesis
    using assms by (simp add: applyToolCallDeltaEvent_def)
next
  case (Some d)
  obtain t1 key where e: "ensureToolCallBuilder (dl_ID d) (dl_Index d) t = (t1, key)"
    by fastforce
  have "table_ok (alter_builder key (\<lambda>b. b\<lparr>bd_ID := (if dl_ID d \<noteq> [] then dl_ID d else bd_ID b),
      bd_Index := (if dl_Index d \<noteq> None then dl_Index d else bd_Index b),
      bd_Name := (if dl_Name d \<noteq> [] then dl_Name d else bd_Name b),
      bd_Arguments := bd_Arguments b @ dl_ArgumentsDelta d\<rparr>) t1)" (is "table_ok ?t")
    using ensured [OF e assms(1)] by (intro claimed_alter [of "dl_ID d"]) simp_all
  then show ?thesis
    using ensured [OF e assms(1)] unfolding applyToolCallDeltaEvent_def Some option.case e prod.case
    by simp
qed

lemma table_ok_normalize:
  "normalize_loop es (r, t) = Inr (r', t') \<Longrightarrow> table_ok t \<Longrightarrow> table_ok t'"
proof (induction es arbitrary: r t)
  case (Cons e es)
  then show ?case
    by (auto simp: normalize_event_def Let_def table_ok_delta table_ok_call
        split: event_kind.splits sum.splits option.splits)
qed simp

section \<open>Accepted tool calls\<close>

definition call_accepted :: "(bytes \<Rightarrow> bool) \<Rightarrow> tool_call \<Rightarrow> bool" where
  "call_accepted json_valid c \<longleftrightarrow> trim_space (tc_ID c) \<noteq> [] \<and>
     (tc_Arguments c = [] \<or> json_valid (tc_Arguments c))"

definition calls_accepted :: "(bytes \<Rightarrow> bool) \<Rightarrow> tool_call list \<Rightarrow> bool" where
  "calls_accepted json_valid cs \<longleftrightarrow> list_all (call_accepted json_valid) cs \<and> distinct (map tc_ID cs) \<and>
     length cs \<le> MaxToolCallsPerResponse"

lemma calls_accepted_snoc:
  "calls_accepted json_valid cs \<Longrightarrow> call_accepted json_valid c \<Longrightarrow> tc_ID c \<notin> tc_ID ` set cs \<Longrightarrow>
     length cs < MaxToolCallsPerResponse \<Longrightarrow> calls_accepted json_valid (cs @ [c])"
  by (auto simp: calls_accepted_def)

lemma finalize_loop_accepts:
  assumes t: "table_ok t" and "finalize_loop json_valid t keys calls e = Inr (calls', e')"
    and "distinct keys" "calls_accepted json_valid calls"
    and "\<forall>c \<in> set calls. bt_idKeys t (tc_ID c) \<notin> Some ` set keys"
  shows "calls_accepted json_valid calls'"
  using assms(2-)
proof (induction keys arbitrary: calls e)
  case (Cons key keys)
  have rest: "\<forall>c \<in> set calls. bt_idKeys t (tc_ID c) \<notin> Some ` set keys"
    and other: "\<forall>c \<in> set calls. bt_idKeys t (tc_ID c) \<noteq> Some key"
    using Cons.prems(4) by auto
  show ?case
  proof (cases "bt_builders t key")
    case (Some b)
    let ?c = "\<lparr>tc_ID = bd_ID b, tc_Name = bd_Name b, tc_Arguments = bd_Arguments b, tc_OperationID = []\<rparr>"
    show ?thesis
    proof (cases "bd_Arguments b \<noteq> [] \<and> \<not> json_valid (bd_Arguments b)")
      case True
      then show ?thesis
        using Cons.prems Some rest by (intro Cons.IH [OF _ _ _ rest]) (auto split: if_splits)
    next
      case False
      have ok: "bd_identityConflict b = []" "trim_space (bd_ID b) \<noteq> []" "length calls < MaxToolCallsPerResponse"
        and next_keys: "finalize_loop json_valid t keys (calls @ [?c]) e = Inr (calls', e')"
        using Cons.prems(1) Some False by (auto split: if_splits)
      have known: "bt_idKeys t (bd_ID b) = Some key"
        using table_okD(1) [OF t Some] ok by (auto simp: settled_id_def)
      have "calls_accepted json_valid (calls @ [?c])"
        using Cons.prems(3) False ok known other
        by (intro calls_accepted_snoc) (auto simp: call_accepted_def)
      moreover have "\<forall>c \<in> set (calls @ [?c]). bt_idKeys t (tc_ID c) \<notin> Some ` set keys"
        using rest known Cons.prems(2) by auto
      ultimately show ?thesis
        using next_keys Cons.prems(2) by (intro Cons.IH) auto
    qed
  qed (use Cons rest in simp)
qed simp

lemma finalizeToolCalls_accepts:
  assumes "table_ok t"
  shows "calls_accepted json_valid (nr_ToolCalls (fst (finalizeToolCalls json_valid r t)))"
proof -
  have zero: "calls_accepted json_valid []"
    by (simp add: calls_accepted_def)
  have "calls_accepted json_valid calls"
    if "finalize_loop json_valid t (bt_order t) [] None = Inr (calls, e)" for calls e
    using finalize_loop_accepts [OF assms that table_okD(6) [OF assms] zero] by simp
  then show ?thesis
    using zero by (auto simp: finalizeToolCalls_def zero_normalized_def split: sum.split)
qed

lemma normalizeEvents_accepts:
  "calls_accepted json_valid (nr_ToolCalls (fst (normalizeEvents json_valid events complete)))"
proof -
  have "calls_accepted json_valid (nr_ToolCalls zero_normalized)"
    by (simp add: calls_accepted_def zero_normalized_def)
  moreover have "table_ok t" if "normalize_loop events (zero_normalized, empty_table) = Inr (r, t)" for r t
    using that table_ok_empty by (rule table_ok_normalize)
  ultimately show ?thesis
    unfolding normalizeEvents_def
    by (auto simp: finalizeToolCalls_accepts split: option.split sum.split)
qed

section \<open>Content and text\<close>

text \<open>Answer text and reasoning are what the parts of their kinds hold, in order.\<close>

definition texts_agree :: "normalized_response \<Rightarrow> bool" where
  "texts_agree r \<longleftrightarrow> textForKinds (nr_Content r) answer_kinds = nr_Text r \<and>
     textForKinds (nr_Content r) [ContentReasoning] = nr_Thinking r"

lemma textForKinds_butlast:
  assumes "parts \<noteq> []"
  shows "textForKinds parts kinds = textForKinds (butlast parts) kinds @
    (if cp_Kind (last parts) \<in> set kinds then cp_Text (last parts) else [])"
proof -
  have "textForKinds (butlast parts @ [last parts]) kinds = textForKinds (butlast parts) kinds @
      (if cp_Kind (last parts) \<in> set kinds then cp_Text (last parts) else [])"
    by (simp add: textForKinds_append)
  then show ?thesis
    using assms by simp
qed

lemma textForKinds_appendText:
  "textForKinds (appendText kind txt signature parts) kinds =
     textForKinds parts kinds @ (if kind \<in> set kinds then txt else [])"
  by (auto simp: appendText_def textForKinds_append textForKinds_butlast [of parts])

lemma textForKinds_appendPart:
  "textForKinds (appendPart part parts) kinds = textForKinds parts kinds"
  by (simp add: appendPart_def textForKinds_append)

lemma texts_agree_event:
  "normalize_event e (r, t) = Inr (r', t') \<Longrightarrow> texts_agree r \<Longrightarrow> texts_agree r'"
  by (auto simp: normalize_event_def Let_def texts_agree_def textForKinds_appendText
      textForKinds_appendPart contentKindForPhase_def split: event_kind.splits sum.splits text_phase.splits if_splits)

lemma texts_agree_loop:
  "normalize_loop es (r, t) = Inr (r', t') \<Longrightarrow> texts_agree r \<Longrightarrow> texts_agree r'"
  by (induction es arbitrary: r t) (auto dest: texts_agree_event split: sum.splits)

text \<open>Where a complete stream ends: exactly one terminal event, the last one.\<close>

definition terminal_kind :: "event_kind \<Rightarrow> bool" where
  "terminal_kind k \<longleftrightarrow> k = EventDone \<or> k = EventError"

lemma terminal_scan_spec:
  "terminal_scan terminal es = Inr found \<longleftrightarrow>
     (if terminal then es = [] \<and> found
      else (\<not> found \<and> list_all (\<lambda>e. \<not> terminal_kind (ev_Kind e)) es) \<or>
           (found \<and> es \<noteq> [] \<and> terminal_kind (ev_Kind (last es)) \<and>
              list_all (\<lambda>e. \<not> terminal_kind (ev_Kind e)) (butlast es)))"
  by (induction terminal es rule: terminal_scan.induct) (auto simp: terminal_kind_def)

lemma loop_no_error: "normalize_loop es st = Inr st' \<Longrightarrow> e \<in> set es \<Longrightarrow> ev_Kind e \<noteq> EventError"
  by (induction es arbitrary: st) (auto simp: normalize_event_def Let_def split: sum.splits prod.splits)

lemma normalizeEvents_fold:
  assumes "normalizeEvents json_valid events complete = (r, None)"
  obtains r0 t calls where "normalize_loop events (zero_normalized, empty_table) = Inr (r0, t)"
    "r = r0\<lparr>nr_ToolCalls := calls\<rparr>" "validateTerminalSequence events complete = None"
proof -
  have "\<exists>r0 t calls. normalize_loop events (zero_normalized, empty_table) = Inr (r0, t) \<and>
      r = r0\<lparr>nr_ToolCalls := calls\<rparr> \<and> validateTerminalSequence events complete = None"
    using assms by (auto simp: normalizeEvents_def finalizeToolCalls_def split: option.splits sum.splits if_splits)
  then show ?thesis
    using that by blast
qed

section \<open>Properties\<close>

text \<open>
  C14.  Whatever the events of a provider stream were, the tool calls of the normalized response
  have distinct ids that are not blank, arguments that are absent or valid JSON, and number at
  most 1024; this holds for complete and for partial streams, and also when an error is reported.
\<close>

theorem normalized_calls_well_formed:
  "list_all (call_accepted json_valid) (nr_ToolCalls (fst (normalizeEvents json_valid events complete))) \<and>
   distinct (map tc_ID (nr_ToolCalls (fst (normalizeEvents json_valid events complete)))) \<and>
   length (nr_ToolCalls (fst (normalizeEvents json_valid events complete))) \<le> 1024"
  using normalizeEvents_accepts [of json_valid events complete]
  by (simp add: calls_accepted_def MaxToolCallsPerResponse_def)

text \<open>
  A stream that normalizes without error ends with its only terminal event, a done event, and
  the ordered content parts of the response carry exactly the streamed text: the answer parts
  concatenate to its text and the reasoning parts to its thinking.
\<close>

theorem normalized_content_agrees:
  assumes "NormalizeEvents json_valid events = (r, None)"
  shows "ev_Kind (last events) = EventDone \<and>
    list_all (\<lambda>e. ev_Kind e \<noteq> EventDone \<and> ev_Kind e \<noteq> EventError) (butlast events) \<and>
    textForKinds (nr_Content r) answer_kinds = nr_Text r \<and>
    textForKinds (nr_Content r) [ContentReasoning] = nr_Thinking r"
proof -
  obtain r0 t calls where l: "normalize_loop events (zero_normalized, empty_table) = Inr (r0, t)"
    and r: "r = r0\<lparr>nr_ToolCalls := calls\<rparr>" and v: "validateTerminalSequence events True = None"
    using assms unfolding NormalizeEvents_def by (rule normalizeEvents_fold)
  have "texts_agree r0"
    using texts_agree_loop [OF l] by (simp add: texts_agree_def zero_normalized_def)
  moreover have "terminal_scan False events = Inr True"
    using v by (auto simp: validateTerminalSequence_def split: sum.splits if_splits)
  then have ends: "events \<noteq> []" "terminal_kind (ev_Kind (last events))"
    "list_all (\<lambda>e. \<not> terminal_kind (ev_Kind e)) (butlast events)"
    by (simp_all add: terminal_scan_spec)
  moreover have "ev_Kind (last events) \<noteq> EventError"
    using loop_no_error [OF l] ends(1) by simp
  ultimately show ?thesis
    using r by (simp add: texts_agree_def terminal_kind_def list_all_iff)
qed

text \<open>Two fragments of an answer, a tool call in two fragments, and the end.\<close>

definition zero_event :: event where
  "zero_event = \<lparr>ev_Kind = EventOther [], ev_Text = [], ev_TextPhase = TextPhaseOther [], ev_Thinking = [],
     ev_Signature = [], ev_RedactedThinking = [], ev_ToolCall = None, ev_ToolCallDelta = None,
     ev_Usage = zero_usage, ev_StopReason = StopReasonOther [], ev_ProviderState = [],
     ev_Response = zero_response, ev_Err = None\<rparr>"

definition sample_events :: "event list" where
  "sample_events =
     [zero_event\<lparr>ev_Kind := EventTextDelta, ev_Text := ''hel''\<rparr>,
      zero_event\<lparr>ev_Kind := EventToolCallDelta, ev_ToolCallDelta :=
        Some \<lparr>dl_Index = Some 0, dl_ID = ''a'', dl_Name = ''echo'', dl_ArgumentsDelta = ''{''\<rparr>\<rparr>,
      zero_event\<lparr>ev_Kind := EventTextDelta, ev_Text := ''lo''\<rparr>,
      zero_event\<lparr>ev_Kind := EventToolCallDelta, ev_ToolCallDelta :=
        Some \<lparr>dl_Index = Some 0, dl_ID = [], dl_Name = [], dl_ArgumentsDelta = ''}''\<rparr>\<rparr>,
      zero_event\<lparr>ev_Kind := EventDone, ev_StopReason := StopReasonToolUse\<rparr>]"

definition sample_response :: normalized_response where
  "sample_response = zero_normalized\<lparr>
     nr_Content := [zero_part\<lparr>cp_Kind := ContentText, cp_Text := ''hello''\<rparr>], nr_Text := ''hello'',
     nr_ToolCalls := [\<lparr>tc_ID = ''a'', tc_Name = ''echo'', tc_Arguments = ''{}'', tc_OperationID = []\<rparr>],
     nr_StopReason := StopReasonToolUse\<rparr>"

lemma sample_events_normalize: "NormalizeEvents (\<lambda>_. True) sample_events = (sample_response, None)"
  by code_simp

theorem normalized_content_agrees_witness:
  "textForKinds (nr_Content sample_response) answer_kinds = ''hello'' \<and>
   textForKinds (nr_Content sample_response) [ContentReasoning] = []"
  using normalized_content_agrees [OF sample_events_normalize]
  by (simp add: sample_response_def zero_normalized_def)

end
