(* ===== verification/Frames.thy ===== *)
theory Frames
  imports Effects ProviderEvents
begin

text \<open>
  Output frames: \<open>src/agent/output.go\<close>.  A frame is what a consumer of an execution sees of a
  provider event or a tool result; the accumulator folds the frames back into a provider
  response.  The lemmas show that normalizing the frames of a stream gives the response of the
  stream itself, up to the response metadata no frame carries, and what the accumulator computes
  over the turns of an execution.
\<close>

section \<open>Frames\<close>

datatype frame_kind =
    FrameText | FrameThinking | FrameToolCall | FrameToolCallDelta | FrameToolUpdate | FrameToolResult
  | FrameDone | FrameError | FrameOther bytes

record frame =
  fr_Source :: bytes
  fr_Kind :: frame_kind
  fr_Text :: bytes
  fr_TextPhase :: text_phase
  fr_Thinking :: bytes
  fr_Signature :: bytes
  fr_RedactedThinking :: bytes
  fr_ToolCall :: "tool_call option"
  fr_ToolCallDelta :: "tool_call_delta option"
  fr_ToolResult :: "tool_result option"
  fr_ToolUpdate :: "update option"
  fr_Usage :: usage
  fr_StopReason :: stop_reason
  fr_ProviderState :: bytes
  fr_Err :: "go_err option"

definition zero_frame :: frame where
  "zero_frame = \<lparr>fr_Source = [], fr_Kind = FrameOther [], fr_Text = [], fr_TextPhase = TextPhaseOther [],
     fr_Thinking = [], fr_Signature = [], fr_RedactedThinking = [], fr_ToolCall = None,
     fr_ToolCallDelta = None, fr_ToolResult = None, fr_ToolUpdate = None, fr_Usage = zero_usage,
     fr_StopReason = StopReasonOther [], fr_ProviderState = [], fr_Err = None\<rparr>"

definition FrameFromEvent :: "event \<Rightarrow> frame option" where
  "FrameFromEvent e = (case ev_Kind e of
       EventTextDelta \<Rightarrow> Some (zero_frame\<lparr>fr_Kind := FrameText, fr_Text := ev_Text e,
         fr_TextPhase := ev_TextPhase e, fr_Usage := ev_Usage e\<rparr>)
     | EventThinkingDelta \<Rightarrow> Some (zero_frame\<lparr>fr_Kind := FrameThinking, fr_Thinking := ev_Thinking e,
         fr_Signature := ev_Signature e, fr_RedactedThinking := ev_RedactedThinking e, fr_Usage := ev_Usage e\<rparr>)
     | EventToolCall \<Rightarrow> Some (zero_frame\<lparr>fr_Kind := FrameToolCall, fr_ToolCall := ev_ToolCall e,
         fr_Usage := ev_Usage e\<rparr>)
     | EventToolCallDelta \<Rightarrow> Some (zero_frame\<lparr>fr_Kind := FrameToolCallDelta,
         fr_ToolCallDelta := ev_ToolCallDelta e, fr_Usage := ev_Usage e\<rparr>)
     | EventDone \<Rightarrow> Some (zero_frame\<lparr>fr_Kind := FrameDone, fr_StopReason := ev_StopReason e,
         fr_Usage := ev_Usage e, fr_ProviderState := ev_ProviderState e\<rparr>)
     | EventError \<Rightarrow> Some (zero_frame\<lparr>fr_Kind := FrameError, fr_Err := ev_Err e, fr_Usage := ev_Usage e\<rparr>)
     | EventOther _ \<Rightarrow> None)"

definition FrameFromToolUpdate :: "update \<Rightarrow> frame" where
  "FrameFromToolUpdate u = zero_frame\<lparr>fr_Kind := FrameToolUpdate, fr_ToolUpdate := Some u\<rparr>"

definition ToEvent :: "frame \<Rightarrow> event option" where
  "ToEvent f = (case fr_Kind f of
       FrameText \<Rightarrow> Some (zero_event\<lparr>ev_Kind := EventTextDelta, ev_Text := fr_Text f,
         ev_TextPhase := fr_TextPhase f, ev_Usage := fr_Usage f\<rparr>)
     | FrameThinking \<Rightarrow> Some (zero_event\<lparr>ev_Kind := EventThinkingDelta, ev_Thinking := fr_Thinking f,
         ev_Signature := fr_Signature f, ev_RedactedThinking := fr_RedactedThinking f, ev_Usage := fr_Usage f\<rparr>)
     | FrameToolCall \<Rightarrow> Some (zero_event\<lparr>ev_Kind := EventToolCall, ev_ToolCall := fr_ToolCall f,
         ev_Usage := fr_Usage f\<rparr>)
     | FrameToolCallDelta \<Rightarrow> Some (zero_event\<lparr>ev_Kind := EventToolCallDelta,
         ev_ToolCallDelta := fr_ToolCallDelta f, ev_Usage := fr_Usage f\<rparr>)
     | FrameDone \<Rightarrow> Some (zero_event\<lparr>ev_Kind := EventDone, ev_StopReason := fr_StopReason f,
         ev_Usage := fr_Usage f, ev_ProviderState := fr_ProviderState f\<rparr>)
     | FrameError \<Rightarrow> Some (zero_event\<lparr>ev_Kind := EventError, ev_Err := fr_Err f, ev_Usage := fr_Usage f\<rparr>)
     | _ \<Rightarrow> None)"

section \<open>Sinks\<close>

type_synonym 'x frame_sink = "frame \<Rightarrow> ('x world, go_err option) act"

definition NewBroadcast :: "'x frame_sink option list \<Rightarrow> 'x frame_sink list" where
  "NewBroadcast sinks = map the (filter (\<lambda>s. s \<noteq> None) sinks)"

fun broadcast_loop ::
  "('x world \<Rightarrow> go_err option) \<Rightarrow> frame \<Rightarrow> go_err option list \<Rightarrow> 'x frame_sink list
     \<Rightarrow> ('x world, go_err option) act" where
  "broadcast_loop ctx f joined [] = give (errors_join joined)"
| "broadcast_loop ctx f joined (s # ss) =
     bnd (peek ctx) (\<lambda>c. if c \<noteq> None then give (errors_join (joined @ [c]))
       else bnd (s f) (\<lambda>e. broadcast_loop ctx f (joined @ [e]) ss))"

definition Broadcast_Emit ::
  "('x world \<Rightarrow> go_err option) \<Rightarrow> 'x frame_sink list \<Rightarrow> 'x frame_sink" where
  "Broadcast_Emit ctx sinks f = broadcast_loop ctx f [] sinks"

section \<open>The accumulator\<close>

record accumulator =
  ac_events :: "event list"
  ac_tools :: "tool_result list"

definition NewAccumulator :: accumulator where
  "NewAccumulator = \<lparr>ac_events = [], ac_tools = []\<rparr>"

definition Accumulator_Emit :: "frame \<Rightarrow> accumulator \<Rightarrow> accumulator" where
  "Accumulator_Emit f a =
     (if fr_Kind f = FrameToolResult
        then (case fr_ToolResult f of None \<Rightarrow> a | Some r \<Rightarrow> a\<lparr>ac_tools := ac_tools a @ [r]\<rparr>)
      else case ToEvent f of Some e \<Rightarrow> a\<lparr>ac_events := ac_events a @ [e]\<rparr> | None \<Rightarrow> a)"

definition mergeNormalizedResponse ::
  "normalized_response \<Rightarrow> normalized_response \<Rightarrow> normalized_response" where
  "mergeNormalizedResponse t s = t\<lparr>
     nr_Content := nr_Content t @ nr_Content s, nr_Text := nr_Text t @ nr_Text s,
     nr_Thinking := nr_Thinking t @ nr_Thinking s,
     nr_RedactedThinking := nr_RedactedThinking t @ nr_RedactedThinking s,
     nr_ToolCalls := nr_ToolCalls t @ nr_ToolCalls s, nr_Usage := usage_add (nr_Usage t) (nr_Usage s),
     nr_Signature := (if nr_Signature s \<noteq> [] then nr_Signature s else nr_Signature t),
     nr_StopReason := (if nr_StopReason s \<noteq> StopReasonOther [] then nr_StopReason s else nr_StopReason t),
     nr_ProviderState := (if nr_ProviderState s \<noteq> [] then nr_ProviderState s else nr_ProviderState t),
     nr_Response := (if rm_ID (nr_Response s) \<noteq> [] \<or> rm_Model (nr_Response s) \<noteq> [] \<or>
         rm_Headers (nr_Response s) \<noteq> [] then nr_Response s else nr_Response t)\<rparr>"

text \<open>The loop over the terminal events; \<open>segment\<close> is \<open>events[start:index]\<close>.\<close>

fun accumulate ::
  "(bytes \<Rightarrow> bool) \<Rightarrow> normalized_response \<Rightarrow> event list \<Rightarrow> event list
     \<Rightarrow> go_err + normalized_response \<times> event list" where
  "accumulate json_valid combined segment [] = Inr (combined, segment)"
| "accumulate json_valid combined segment (e # es) =
     (if ev_Kind e \<noteq> EventDone \<and> ev_Kind e \<noteq> EventError
        then accumulate json_valid combined (segment @ [e]) es
      else case NormalizeEvents json_valid (segment @ [e]) of
          (r, Some err) \<Rightarrow> Inl err
        | (r, None) \<Rightarrow> accumulate json_valid (mergeNormalizedResponse combined r) [] es)"

definition normalizeAccumulatorEvents ::
  "(bytes \<Rightarrow> bool) \<Rightarrow> event list \<Rightarrow> bool \<Rightarrow> normalized_response \<times> go_err option" where
  "normalizeAccumulatorEvents json_valid events requireFinal =
     (case accumulate json_valid zero_normalized [] events of
        Inl e \<Rightarrow> (zero_normalized, Some e)
      | Inr (combined, segment) \<Rightarrow>
          if segment \<noteq> []
            then (case (if requireFinal then NormalizeEvents json_valid segment
                        else NormalizePartialEvents json_valid segment) of
                (r, Some e) \<Rightarrow> (zero_normalized, Some e)
              | (r, None) \<Rightarrow> (mergeNormalizedResponse combined r, None))
          else if requireFinal \<and> events = [] then NormalizeEvents json_valid []
          else (combined, None))"

definition Accumulator_Response where
  "Accumulator_Response json_valid a = normalizeAccumulatorEvents json_valid (ac_events a) False"

definition Accumulator_FinalResponse where
  "Accumulator_FinalResponse json_valid a = normalizeAccumulatorEvents json_valid (ac_events a) True"

definition Accumulator_Message :: "(bytes \<Rightarrow> bool) \<Rightarrow> accumulator \<Rightarrow> message \<times> go_err option" where
  "Accumulator_Message json_valid a = (case Accumulator_Response json_valid a of
       (r, Some e) \<Rightarrow> (zero_message, Some e)
     | (r, None) \<Rightarrow> (SyncLegacyContent (zero_message\<lparr>m_Role := RoleAssistant, m_Kind := KindStandard,
         m_Content := nr_Content r, m_ToolCalls := nr_ToolCalls r, m_ProviderState := nr_ProviderState r,
         m_Response := nr_Response r\<rparr>), None))"

definition ToolResults :: "accumulator \<Rightarrow> tool_result list" where
  "ToolResults a = ac_tools a"

section \<open>Frames carry what normalization uses\<close>

definition framed :: "event \<Rightarrow> event option" where
  "framed e = Option.bind (FrameFromEvent e) ToEvent"

text \<open>What remains of an event after the round trip through a frame.\<close>

definition visible :: "event \<Rightarrow> event" where
  "visible e = (case framed e of Some e' \<Rightarrow> e' | None \<Rightarrow> e)"

definition standard_event :: "event \<Rightarrow> bool" where
  "standard_event e \<longleftrightarrow> (case ev_Kind e of EventOther _ \<Rightarrow> False | _ \<Rightarrow> True)"

lemma framed_standard: "standard_event e \<Longrightarrow> framed e = Some (visible e)"
  by (auto simp: framed_def visible_def standard_event_def FrameFromEvent_def ToEvent_def
      split: event_kind.splits)

lemma visible_kind: "standard_event e \<Longrightarrow> ev_Kind (visible e) = ev_Kind e"
  by (auto simp: framed_def visible_def standard_event_def FrameFromEvent_def ToEvent_def zero_frame_def
      zero_event_def split: event_kind.splits)

definition without_response :: "normalized_response \<Rightarrow> normalized_response" where
  "without_response r = r\<lparr>nr_Response := zero_response\<rparr>"

lemma normalize_event_visible:
  assumes "standard_event e"
  shows "normalize_event (visible e) (without_response r, t) =
    map_sum id (map_prod without_response id) (normalize_event e (r, t))"
proof -
  have "ev_Kind e \<noteq> EventOther x" for x
    using assms by (auto simp: standard_event_def)
  then show ?thesis
    by (cases "ev_Kind e"; cases "applyToolCallEvent (ev_ToolCall e) t")
       (simp_all add: normalize_event_def Let_def framed_def visible_def FrameFromEvent_def ToEvent_def
         zero_frame_def zero_event_def without_response_def zero_response_def)
qed

lemma normalize_loop_visible:
  "list_all standard_event es \<Longrightarrow>
     normalize_loop (map visible es) (without_response r, t) =
     map_sum id (map_prod without_response id) (normalize_loop es (r, t))"
proof (induction es arbitrary: r t)
  case (Cons e es)
  then show ?case
    using normalize_event_visible [of e r t] by (cases "normalize_event e (r, t)") auto
qed simp

lemma terminal_scan_visible:
  "list_all standard_event es \<Longrightarrow> terminal_scan b (map visible es) = terminal_scan b es"
  by (induction b es rule: terminal_scan.induct) (simp_all add: visible_kind)

lemma normalizeEvents_visible:
  assumes "list_all standard_event es"
  shows "normalizeEvents json_valid (map visible es) complete =
    map_prod without_response id (normalizeEvents json_valid es complete)"
proof -
  have zero: "without_response zero_normalized = zero_normalized"
    by (simp add: without_response_def zero_normalized_def)
  have valid: "validateTerminalSequence (map visible es) b = validateTerminalSequence es b" for b
    by (simp add: validateTerminalSequence_def terminal_scan_visible [OF assms])
  have finish: "finalizeToolCalls json_valid (without_response r) t =
      map_prod without_response id (finalizeToolCalls json_valid r t)" for r t
    by (auto simp: finalizeToolCalls_def zero split: sum.splits) (simp_all add: without_response_def)
  show ?thesis
    using normalize_loop_visible [OF assms, of zero_normalized empty_table]
    unfolding normalizeEvents_def valid zero
    by (cases "normalize_loop es (zero_normalized, empty_table)")
       (auto simp: zero finish split: option.splits)
qed

section \<open>The accumulator over turns\<close>

definition frames_of :: "event list \<Rightarrow> frame list" where
  "frames_of es = concat (map (\<lambda>e. case FrameFromEvent e of Some f \<Rightarrow> [f] | None \<Rightarrow> []) es)"

lemma emit_standard:
  assumes "standard_event e"
  shows "fold Accumulator_Emit (case FrameFromEvent e of Some f \<Rightarrow> [f] | None \<Rightarrow> []) a =
    a\<lparr>ac_events := ac_events a @ [visible e]\<rparr>"
  using assms
  by (cases "ev_Kind e")
     (simp_all add: standard_event_def FrameFromEvent_def Accumulator_Emit_def framed_def visible_def
       ToEvent_def zero_frame_def)

lemma emit_frames:
  "list_all standard_event es \<Longrightarrow>
     fold Accumulator_Emit (frames_of es) a = a\<lparr>ac_events := ac_events a @ map visible es\<rparr>"
  by (induction es arbitrary: a) (simp_all add: frames_of_def emit_standard)

lemma emit_turns:
  "list_all (list_all standard_event) turns \<Longrightarrow>
     fold Accumulator_Emit (concat (map frames_of turns)) a =
     a\<lparr>ac_events := ac_events a @ concat (map (map visible) turns)\<rparr>"
  by (induction turns arbitrary: a) (simp_all add: emit_frames)

lemma accumulate_prefix:
  "list_all (\<lambda>e. \<not> terminal_kind (ev_Kind e)) xs \<Longrightarrow>
     accumulate json_valid c segment (xs @ ys) = accumulate json_valid c (segment @ xs) ys"
  by (induction xs arbitrary: segment) (simp_all add: terminal_kind_def)

lemma normalized_ends:
  assumes "snd (NormalizeEvents json_valid es) = None"
  obtains xs e where "es = xs @ [e]" "list_all (\<lambda>e. \<not> terminal_kind (ev_Kind e)) xs"
    "terminal_kind (ev_Kind e)"
proof -
  obtain r where "normalizeEvents json_valid es True = (r, None)"
    using assms unfolding NormalizeEvents_def by (metis prod.collapse)
  then have "validateTerminalSequence es True = None"
    by (rule normalizeEvents_fold)
  then have "terminal_scan False es = Inr True"
    by (auto simp: validateTerminalSequence_def split: sum.splits if_splits)
  then have "es \<noteq> []" "terminal_kind (ev_Kind (last es))"
    "list_all (\<lambda>e. \<not> terminal_kind (ev_Kind e)) (butlast es)"
    by (simp_all add: terminal_scan_spec)
  then show ?thesis
    using that [of "butlast es" "last es"] by simp
qed

lemma accumulate_turn:
  assumes "snd (NormalizeEvents json_valid es) = None"
  shows "accumulate json_valid c [] (es @ rest) =
    accumulate json_valid (mergeNormalizedResponse c (fst (NormalizeEvents json_valid es))) [] rest"
proof -
  obtain xs e where es: "es = xs @ [e]" "list_all (\<lambda>e. \<not> terminal_kind (ev_Kind e)) xs"
    and e: "terminal_kind (ev_Kind e)"
    using assms by (rule normalized_ends)
  have "accumulate json_valid c [] (es @ rest) = accumulate json_valid c xs (e # rest)"
    using accumulate_prefix [OF es(2), of json_valid c "[]" "e # rest"] es(1) by simp
  also have "\<dots> = accumulate json_valid (mergeNormalizedResponse c (fst (NormalizeEvents json_valid es))) [] rest"
    using e assms es(1) by (cases "NormalizeEvents json_valid es") (auto simp: terminal_kind_def)
  finally show ?thesis .
qed

lemma accumulate_turns:
  "list_all (\<lambda>es. snd (NormalizeEvents json_valid es) = None) turns \<Longrightarrow>
     accumulate json_valid c [] (concat turns) =
     Inr (foldl mergeNormalizedResponse c (map (fst \<circ> NormalizeEvents json_valid) turns), [])"
  by (induction turns arbitrary: c) (simp_all add: accumulate_turn)

section \<open>Properties\<close>

text \<open>
  C16.  Frames carry everything normalization uses: normalizing the events read back from the
  frames of a stream gives the same response and the same error as normalizing the stream, up to
  the response metadata, for complete and for partial streams.
\<close>

theorem frames_round_trip:
  assumes "list_all standard_event es"
  shows "normalizeEvents json_valid (map (\<lambda>e. the (framed e)) es) complete =
    map_prod without_response id (normalizeEvents json_valid es complete)"
proof -
  have "map (\<lambda>e. the (framed e)) es = map visible es"
    by (rule map_cong) (use assms in \<open>auto simp: list_all_iff framed_standard\<close>)
  then show ?thesis
    by (simp only: normalizeEvents_visible [OF assms])
qed

text \<open>
  An accumulator that received the frames of several complete turns reports, as its final
  response, the turns' own responses merged in order, and no error.
\<close>

theorem accumulator_folds_turns:
  assumes "list_all (list_all standard_event) turns"
    and "list_all (\<lambda>es. snd (NormalizeEvents json_valid es) = None) turns" "turns \<noteq> []"
  shows "Accumulator_FinalResponse json_valid
      (fold Accumulator_Emit (concat (map frames_of turns)) NewAccumulator) =
    (foldl mergeNormalizedResponse zero_normalized
       (map (without_response \<circ> fst \<circ> NormalizeEvents json_valid) turns), None)"
proof -
  let ?seen = "map (map visible) turns"
  have norm: "NormalizeEvents json_valid (map visible es) =
      map_prod without_response id (NormalizeEvents json_valid es)" if "es \<in> set turns" for es
    using normalizeEvents_visible assms(1) that by (simp add: NormalizeEvents_def list_all_iff)
  then have "list_all (\<lambda>es. snd (NormalizeEvents json_valid es) = None) ?seen"
    using assms(2) by (simp add: list_all_iff)
  then have "accumulate json_valid zero_normalized [] (concat ?seen) =
      Inr (foldl mergeNormalizedResponse zero_normalized (map (fst \<circ> NormalizeEvents json_valid) ?seen), [])"
    by (rule accumulate_turns)
  moreover have "map (fst \<circ> NormalizeEvents json_valid) ?seen =
      map (without_response \<circ> fst \<circ> NormalizeEvents json_valid) turns"
    unfolding map_map by (rule map_cong) (use norm in auto)
  ultimately have run: "accumulate json_valid zero_normalized [] (concat ?seen) =
      Inr (foldl mergeNormalizedResponse zero_normalized
        (map (without_response \<circ> fst \<circ> NormalizeEvents json_valid) turns), [])"
    by (simp only:)
  have "NormalizeEvents json_valid [] \<noteq> (r, None)" for r
    by (simp add: NormalizeEvents_def normalizeEvents_def validateTerminalSequence_def)
  then have "hd turns \<noteq> []"
    using assms(2,3) by (cases turns) (auto simp: NormalizeEvents_def normalizeEvents_def validateTerminalSequence_def)
  then obtain v vs where some: "concat ?seen = v # vs"
    using assms(3) by (cases turns; cases "hd turns") auto
  show ?thesis
    using run emit_turns [OF assms(1), of NewAccumulator] unfolding some
    by (simp add: Accumulator_FinalResponse_def normalizeAccumulatorEvents_def NewAccumulator_def)
qed

lemma sample_events_standard: "list_all standard_event sample_events"
  by (simp add: sample_events_def standard_event_def zero_event_def)

theorem frames_round_trip_witness:
  "normalizeEvents (\<lambda>_. True) (map (\<lambda>e. the (framed e)) sample_events) True =
     (without_response sample_response, None)"
  using frames_round_trip [OF sample_events_standard, of "\<lambda>_. True" True] sample_events_normalize
  by (simp add: NormalizeEvents_def)

theorem accumulator_folds_turns_witness:
  "nr_Text (fst (Accumulator_FinalResponse (\<lambda>_. True)
     (fold Accumulator_Emit (concat (map frames_of [sample_events, sample_events])) NewAccumulator))) =
   ''hellohello''"
proof -
  let ?turns = "[sample_events, sample_events]"
  have "Accumulator_FinalResponse (\<lambda>_. True)
      (fold Accumulator_Emit (concat (map frames_of ?turns)) NewAccumulator) =
    (foldl mergeNormalizedResponse zero_normalized
       (map (without_response \<circ> fst \<circ> NormalizeEvents (\<lambda>_. True)) ?turns), None)"
    by (rule accumulator_folds_turns) (simp_all add: sample_events_standard sample_events_normalize)
  then show ?thesis
    by (simp add: sample_events_normalize sample_response_def mergeNormalizedResponse_def
        without_response_def zero_normalized_def)
qed

end
