(* ===== verification/ExtraBody.thy ===== *)
theory ExtraBody
  imports Prelude
begin

text \<open>
  Provider-specific request fields: \<open>src/provider/extra_body.go\<close>.  The walk inspects a value by
  reflection; a reflected value is a datatype of the kinds the walk distinguishes (\<open>RvIface\<close> is a
  value stored in a variable of type \<open>any\<close>, nil when empty; \<open>RvFloat\<close> says whether the number is
  finite).  json.Marshal and the JSON decoder are parameters.
\<close>

datatype reflected =
    RvInvalid
  | RvIface "reflected option"
  | RvRawMessage bytes
  | RvBool bool
  | RvString bytes
  | RvInteger int
  | RvFloat bool
  | RvMap bool "(bytes \<times> reflected) list"
  | RvSequence "reflected list"
  | RvOther bytes

definition maxExtraBodyDepth :: nat where "maxExtraBodyDepth = 64"
definition maxExtraBodyBytes :: nat where "maxExtraBodyBytes = 2 ^ 20"

definition extra_body_err :: "bytes \<Rightarrow> bytes \<Rightarrow> go_err" where
  "extra_body_err path what = new_err (''provider extra body '' @ path @ what)"

text \<open>\<open>[i]\<close> of a path.\<close>

definition index_path :: "bytes \<Rightarrow> nat \<Rightarrow> bytes" where
  "index_path path i = path @ ''['' @ decimal i @ '']''"

text \<open>
  \<open>decode_raw\<close> is the decoder with \<open>UseNumber\<close>; what it returns holds no \<open>RawMessage\<close>, so the
  nested walk has its own copy of the function, one level further down.
\<close>

function validate_value ::
  "(bytes \<Rightarrow> nat \<Rightarrow> bytes \<Rightarrow> go_err option) \<Rightarrow> reflected \<Rightarrow> nat \<Rightarrow> bytes \<Rightarrow> go_err option"
  and validate_entries ::
  "(bytes \<Rightarrow> nat \<Rightarrow> bytes \<Rightarrow> go_err option) \<Rightarrow> (bytes \<times> reflected) list \<Rightarrow> nat \<Rightarrow> bytes \<Rightarrow> go_err option"
  and validate_elements ::
  "(bytes \<Rightarrow> nat \<Rightarrow> bytes \<Rightarrow> go_err option) \<Rightarrow> reflected list \<Rightarrow> nat \<Rightarrow> nat \<Rightarrow> bytes \<Rightarrow> go_err option"
where
  "validate_value raw v depth path =
     (if maxExtraBodyDepth < depth then Some (extra_body_err path '' exceeds 64 levels'')
      else case v of
        RvInvalid \<Rightarrow> None
      | RvIface None \<Rightarrow> None
      | RvIface (Some u) \<Rightarrow> validate_value raw u (Suc depth) path
      | RvRawMessage data \<Rightarrow> raw data depth path
      | RvBool _ \<Rightarrow> None
      | RvString _ \<Rightarrow> None
      | RvInteger _ \<Rightarrow> None
      | RvFloat is_finite \<Rightarrow>
          if is_finite then None else Some (extra_body_err path '' contains a non-finite number'')
      | RvMap string_keys entries \<Rightarrow>
          if \<not> string_keys then Some (extra_body_err path '' has non-string object keys'')
          else validate_entries raw entries depth path
      | RvSequence vs \<Rightarrow> validate_elements raw vs 0 depth path
      | RvOther kind \<Rightarrow> Some (extra_body_err path ('' contains unsupported '' @ kind)))"
| "validate_entries raw [] depth path = None"
| "validate_entries raw ((k, v) # entries) depth path =
     (case validate_value raw v (Suc depth) (path @ ''.'' @ k) of Some e \<Rightarrow> Some e
      | None \<Rightarrow> validate_entries raw entries depth path)"
| "validate_elements raw [] i depth path = None"
| "validate_elements raw (v # vs) i depth path =
     (case validate_value raw v (Suc depth) (index_path path i) of Some e \<Rightarrow> Some e
      | None \<Rightarrow> validate_elements raw vs (Suc i) depth path)"
  by pat_completeness auto
termination
  by (relation "measure (\<lambda>x. case x of Inl (r, v, d, p) \<Rightarrow> size v
        | Inr (Inl (r, es, d, p)) \<Rightarrow> size_list (size_prod (\<lambda>_. 0) size) es
        | Inr (Inr (r, vs, i, d, p)) \<Rightarrow> size_list size vs)")
     (auto simp: size_list_conv_sum_list)

declare validate_value.simps [simp del]

definition validateRawExtraBody ::
  "(bytes \<Rightarrow> go_err + reflected) \<Rightarrow> bytes \<Rightarrow> nat \<Rightarrow> bytes \<Rightarrow> go_err option" where
  "validateRawExtraBody decode data depth path =
     (if data = [] then None
      else if maxExtraBodyBytes < length data
        then Some (extra_body_err path '' exceeds 1048576 bytes'')
      else case decode data of
        Inl e \<Rightarrow> Some (wrap_err ''provider extra body contains invalid raw JSON'' e)
      | Inr v \<Rightarrow> validate_value (\<lambda>_ _ _. None) v (Suc depth) path)"

definition validateExtraBodyValue where
  "validateExtraBodyValue decode v depth path =
     validate_value (validateRawExtraBody decode) v depth path"

text \<open>The nil body is \<open>None\<close>; \<open>marshal\<close> is \<open>json.Marshal\<close> of the body.\<close>

definition ValidateExtraBody ::
  "(bytes \<Rightarrow> go_err + reflected) \<Rightarrow> ((bytes \<times> reflected) list \<Rightarrow> go_err + bytes)
     \<Rightarrow> (bytes \<times> reflected) list option \<Rightarrow> go_err option" where
  "ValidateExtraBody decode marshal body = (case body of None \<Rightarrow> None | Some entries \<Rightarrow>
     case validateExtraBodyValue decode (RvMap True entries) 0 ''extraBody'' of Some e \<Rightarrow> Some e | None \<Rightarrow>
     case marshal entries of Inl e \<Rightarrow> Some (wrap_err ''provider extra body is not valid JSON'' e)
     | Inr encoded \<Rightarrow> if maxExtraBodyBytes < length encoded
         then Some (new_err ''provider extra body exceeds 1048576 bytes'') else None)"

end
