(* ===== verification/Json.thy ===== *)
theory Json
  imports Prelude
begin

text \<open>
  JSON documents: decoded values as \<open>encoding/json\<close> delivers them with \<open>UseNumber\<close> (a number is
  its literal), and the bounded check of \<open>src/message/json_limits.go\<close> over the token stream of a
  decoder.  The lemmas show that, whatever the decoder delivers, the check accepts exactly the streams
  of one complete value within every limit and without duplicate object keys, and that it looks at a
  bounded number of tokens.
\<close>

section \<open>Values\<close>

datatype json =
    JNull
  | JBool bool
  | JNumber bytes
  | JString bytes
  | JArray "json list"
  | JObject "(bytes \<times> json) list"

text \<open>A decoded object is a map; \<open>field\<close> is the lookup.\<close>

definition field :: "(bytes \<times> json) list \<Rightarrow> bytes \<Rightarrow> json option" where
  "field obj key = map_of obj key"

section \<open>Token streams\<close>

text \<open>
  What \<open>Decoder.Token\<close> returns until its first error, and that error (\<open>IoEOF\<close> at the end of the
  input).  \<open>Decoder.More\<close> looks at the next token.
\<close>

datatype token = TkOpen bool | TkClose bool | TkString bytes | TkOther

record tokens =
  tk_rest :: "token list"
  tk_end :: go_err

fun next_token :: "tokens \<Rightarrow> (go_err + token) \<times> tokens" where
  "next_token t = (case tk_rest t of [] \<Rightarrow> (Inl (tk_end t), t) | k # ks \<Rightarrow> (Inr k, t\<lparr>tk_rest := ks\<rparr>))"

fun has_more :: "tokens \<Rightarrow> bool" where
  "has_more t = (case tk_rest t of [] \<Rightarrow> False | TkClose _ # _ \<Rightarrow> False | _ \<Rightarrow> True)"

record json_limits =
  jl_Bytes :: int
  jl_Depth :: int
  jl_Values :: int
  jl_Collection :: int

section \<open>The check\<close>

text \<open>
  \<open>value\<close> and \<open>collection\<close>.  \<open>left\<close> is \<open>Depth - depth + 1\<close>, so that \<open>depth > Depth\<close> is
  \<open>left = 0\<close>; \<open>room\<close> is \<open>Collection - count\<close>; \<open>seen\<close> is the number of values so far.
\<close>

function check_value ::
  "json_limits \<Rightarrow> nat \<Rightarrow> int \<Rightarrow> tokens \<Rightarrow> go_err + int \<times> tokens"
  and check_collection ::
  "json_limits \<Rightarrow> nat \<Rightarrow> nat \<Rightarrow> bool \<Rightarrow> bytes list \<Rightarrow> int \<Rightarrow> tokens \<Rightarrow> go_err + int \<times> tokens"
where
  "check_value limits left seen t =
     (if left = 0 \<or> jl_Values limits < seen + 1
        then Inl (new_err ''JSON exceeds depth or value limit'')
      else case next_token t of
        (Inl e, t') \<Rightarrow> Inl e
      | (Inr k, t') \<Rightarrow> (case k of
            TkOpen is_object \<Rightarrow>
              check_collection limits (left - 1) (nat (jl_Collection limits)) is_object [] (seen + 1) t'
          | TkClose _ \<Rightarrow> Inl (new_err ''JSON has unexpected delimiter'')
          | _ \<Rightarrow> Inr (seen + 1, t')))"
| "check_collection limits left room is_object keys seen t =
     (if has_more t
        then if room = 0 then Inl (new_err ''JSON exceeds collection limit'')
        else if is_object
          then (case next_token t of
              (Inl e, t') \<Rightarrow> Inl e
            | (Inr (TkString key), t') \<Rightarrow>
                if key \<in> set keys then Inl (new_err ''JSON contains a duplicate object field'')
                else (case check_value limits left seen t' of Inl e \<Rightarrow> Inl e
                  | Inr (seen', t'') \<Rightarrow>
                      check_collection limits left (room - 1) is_object (key # keys) seen' t'')
            | (Inr _, t') \<Rightarrow> Inl (new_err ''JSON object key is not a string''))
        else (case check_value limits left seen t of Inl e \<Rightarrow> Inl e
            | Inr (seen', t') \<Rightarrow> check_collection limits left (room - 1) is_object keys seen' t')
      else case next_token t of
        (Inl e, t') \<Rightarrow> Inl e
      | (Inr k, t') \<Rightarrow>
          if k = TkClose is_object then Inr (seen, t')
          else Inl (new_err ''JSON has invalid closing delimiter''))"
  by pat_completeness auto
termination
  by (relation "inv_image (less_than <*lex*> less_than)
       (\<lambda>x. case x of Inl (l, left, s, t) \<Rightarrow> (left, 0 :: nat)
                    | Inr (l, left, room, b, ks, s, t) \<Rightarrow> (left, Suc room))") auto

declare check_value.simps [simp del] check_collection.simps [simp del] next_token.simps [simp del]

definition CheckJSON :: "(bytes \<Rightarrow> tokens) \<Rightarrow> bytes \<Rightarrow> json_limits \<Rightarrow> go_err option" where
  "CheckJSON decoder data limits =
     (if jl_Bytes limits \<le> 0 \<or> jl_Depth limits \<le> 0 \<or> jl_Values limits \<le> 0 \<or> jl_Collection limits \<le> 0
        then Some (new_err ''JSON limits must be positive'')
      else if jl_Bytes limits < int (length data) then Some (new_err ''JSON exceeds bytes'')
      else case check_value limits (nat (jl_Depth limits)) 0 (decoder data) of
        Inl e \<Rightarrow> Some e
      | Inr (seen, t) \<Rightarrow> (case next_token t of
            (Inl e, t') \<Rightarrow> if errors_is IoEOF e then None else Some (new_err ''JSON contains trailing data'')
          | (Inr k, t') \<Rightarrow> Some (new_err ''JSON contains trailing data'')))"

section \<open>What an accepted document is\<close>

text \<open>The token stream of a value, and the limits as a recursive predicate on values.\<close>

fun tokens_of :: "json \<Rightarrow> token list" where
  "tokens_of JNull = [TkOther]"
| "tokens_of (JBool b) = [TkOther]"
| "tokens_of (JNumber n) = [TkOther]"
| "tokens_of (JString s) = [TkString s]"
| "tokens_of (JArray vs) = TkOpen False # concat (map tokens_of vs) @ [TkClose False]"
| "tokens_of (JObject fs) = TkOpen True # concat (map (\<lambda>(k, v). TkString k # tokens_of v) fs) @ [TkClose True]"

fun values_of :: "json \<Rightarrow> nat" where
  "values_of (JArray vs) = Suc (sum_list (map values_of vs))"
| "values_of (JObject fs) = Suc (sum_list (map (\<lambda>(k, v). values_of v) fs))"
| "values_of _ = 1"

fun within :: "nat \<Rightarrow> nat \<Rightarrow> json \<Rightarrow> bool" where
  "within left coll (JArray vs) \<longleftrightarrow>
     0 < left \<and> length vs \<le> coll \<and> list_all (within (left - 1) coll) vs"
| "within left coll (JObject fs) \<longleftrightarrow>
     0 < left \<and> length fs \<le> coll \<and> distinct (map fst fs) \<and> list_all (\<lambda>(k, v). within (left - 1) coll v) fs"
| "within left coll _ \<longleftrightarrow> 0 < left"


text \<open>Reading the tokens of a value, and of the members of a collection, in front of any rest.\<close>

definition token_stream :: "token list \<Rightarrow> go_err \<Rightarrow> tokens" where
  "token_stream ks e = \<lparr>tk_rest = ks, tk_end = e\<rparr>"

lemma next_token_stream [simp]:
  "next_token (token_stream (k # ks) e) = (Inr k, token_stream ks e)" "next_token (token_stream [] e) = (Inl e, token_stream [] e)"
  by (simp_all add: next_token.simps token_stream_def)

lemma more_token_stream [simp]:
  "has_more (token_stream (TkClose b # ks) e) = False" "has_more (token_stream (TkOpen c # ks) e)"
  "has_more (token_stream (TkString key # ks) e)" "has_more (token_stream (TkOther # ks) e)"
  by (simp_all add: token_stream_def)

declare has_more.simps [simp del]

lemma tokens_of_more [simp]: "has_more (token_stream (tokens_of v @ ks) e)"
  by (cases v) auto

definition read_as :: "json_limits \<Rightarrow> nat \<Rightarrow> int \<Rightarrow> json \<Rightarrow> token list \<Rightarrow> go_err \<Rightarrow> bool" where
  "read_as limits left seen v ks e \<longleftrightarrow>
     (if within left (nat (jl_Collection limits)) v \<and> seen + int (values_of v) \<le> jl_Values limits
        then check_value limits left seen (token_stream (tokens_of v @ ks) e) =
          Inr (seen + int (values_of v), token_stream ks e)
      else \<exists>x. check_value limits left seen (token_stream (tokens_of v @ ks) e) = Inl x)"

lemma values_of_pos: "0 < values_of v"
  by (cases v) auto

lemma read_array:
  assumes "\<And>v seen ks. v \<in> set vs \<Longrightarrow> read_as limits left seen v ks e"
  shows "if length vs \<le> room \<and> list_all (within left (nat (jl_Collection limits))) vs \<and>
           (vs \<noteq> [] \<longrightarrow> seen + int (sum_list (map values_of vs)) \<le> jl_Values limits)
         then check_collection limits left room False keys seen
             (token_stream (concat (map tokens_of vs) @ TkClose False # ks) e) =
           Inr (seen + int (sum_list (map values_of vs)), token_stream ks e)
         else \<exists>x. check_collection limits left room False keys seen
             (token_stream (concat (map tokens_of vs) @ TkClose False # ks) e) = Inl x"
  using assms
proof (induction vs arbitrary: room seen)
  case Nil
  then show ?case
    by (simp add: check_collection.simps)
next
  case (Cons v vs)
  let ?rest = "concat (map tokens_of vs) @ TkClose False # ks"
  have v: "read_as limits left seen v ?rest e"
    using Cons.prems by simp
  have ih: "if length vs \<le> room - 1 \<and> list_all (within left (nat (jl_Collection limits))) vs \<and>
           (vs \<noteq> [] \<longrightarrow> seen + int (values_of v) + int (sum_list (map values_of vs)) \<le> jl_Values limits)
         then check_collection limits left (room - 1) False keys (seen + int (values_of v)) (token_stream ?rest e) =
           Inr (seen + int (values_of v) + int (sum_list (map values_of vs)), token_stream ks e)
         else \<exists>x. check_collection limits left (room - 1) False keys (seen + int (values_of v)) (token_stream ?rest e) = Inl x"
    by (rule Cons.IH) (use Cons.prems in simp)
  show ?case
  proof (cases "room = 0 \<or> \<not> (within left (nat (jl_Collection limits)) v \<and>
      seen + int (values_of v) \<le> jl_Values limits)")
    case True
    then show ?thesis
      using v by (auto simp: check_collection.simps read_as_def split: if_splits)
  next
    case False
    then have "check_collection limits left room False keys seen (token_stream (tokens_of v @ ?rest) e) =
        check_collection limits left (room - 1) False keys (seen + int (values_of v)) (token_stream ?rest e)"
      using v by (subst check_collection.simps) (simp add: read_as_def)
    then show ?thesis
      using ih False by (cases "vs = []") (auto split: if_splits)
  qed
qed


text \<open>The same for the members of an object, whose keys must be new.\<close>

lemma read_object:
  assumes "\<And>k v seen ks. (k, v) \<in> set fs \<Longrightarrow> read_as limits left seen v ks e"
  shows "if length fs \<le> room \<and> distinct (map fst fs) \<and> set (map fst fs) \<inter> set keys = {} \<and>
           list_all (\<lambda>(k, v). within left (nat (jl_Collection limits)) v) fs \<and>
           (fs \<noteq> [] \<longrightarrow> seen + int (sum_list (map (\<lambda>(k, v). values_of v) fs)) \<le> jl_Values limits)
         then check_collection limits left room True keys seen
             (token_stream (concat (map (\<lambda>(k, v). TkString k # tokens_of v) fs) @ TkClose True # ks) e) =
           Inr (seen + int (sum_list (map (\<lambda>(k, v). values_of v) fs)), token_stream ks e)
         else \<exists>x. check_collection limits left room True keys seen
             (token_stream (concat (map (\<lambda>(k, v). TkString k # tokens_of v) fs) @ TkClose True # ks) e) = Inl x"
  using assms
proof (induction fs arbitrary: room seen keys)
  case Nil
  then show ?case
    by (simp add: check_collection.simps)
next
  case (Cons f fs)
  obtain k v where f: "f = (k, v)"
    by fastforce
  let ?rest = "concat (map (\<lambda>(k, v). TkString k # tokens_of v) fs) @ TkClose True # ks"
  have v: "read_as limits left seen v ?rest e"
    by (rule Cons.prems [of k]) (simp add: f)
  have ih: "if length fs \<le> room - 1 \<and> distinct (map fst fs) \<and> set (map fst fs) \<inter> set (k # keys) = {} \<and>
           list_all (\<lambda>(k, v). within left (nat (jl_Collection limits)) v) fs \<and>
           (fs \<noteq> [] \<longrightarrow> seen + int (values_of v) + int (sum_list (map (\<lambda>(k, v). values_of v) fs)) \<le> jl_Values limits)
         then check_collection limits left (room - 1) True (k # keys) (seen + int (values_of v)) (token_stream ?rest e) =
           Inr (seen + int (values_of v) + int (sum_list (map (\<lambda>(k, v). values_of v) fs)), token_stream ks e)
         else \<exists>x. check_collection limits left (room - 1) True (k # keys) (seen + int (values_of v)) (token_stream ?rest e) = Inl x"
    by (rule Cons.IH) (use Cons.prems in auto)
  show ?case
  proof (cases "room = 0 \<or> k \<in> set keys \<or> \<not> (within left (nat (jl_Collection limits)) v \<and>
      seen + int (values_of v) \<le> jl_Values limits)")
    case True
    then show ?thesis
      using v by (auto simp: f check_collection.simps read_as_def split: if_splits)
  next
    case False
    then have "check_collection limits left room True keys seen (token_stream (TkString k # tokens_of v @ ?rest) e) =
        check_collection limits left (room - 1) True (k # keys) (seen + int (values_of v)) (token_stream ?rest e)"
      using v by (subst check_collection.simps) (simp add: read_as_def)
    then show ?thesis
      using ih False by (cases "fs = []") (auto simp: f split: if_splits)
  qed
qed

lemma check_value_reads: "read_as limits left seen v ks e"
proof (induction v arbitrary: left seen ks)
  case (JArray vs)
  have vs: "read_as limits left seen v ks e" if "v \<in> set vs" for v left seen ks
    using JArray that by blast
  show ?case
    using read_array [OF vs, where left = "left - 1" and seen = "seen + 1" and keys = "[]" and ks = ks
        and room = "nat (jl_Collection limits)" and vs = vs]
    unfolding read_as_def
    by (cases "vs = []") (auto simp: check_value.simps split: if_splits)
next
  case (JObject fs)
  have fs: "read_as limits left seen v ks e" if "(k, v) \<in> set fs" for k v left seen ks
    by (rule JObject [of "(k, v)"]) (use that in \<open>simp_all add: prod_set_simps\<close>)
  show ?case
    using read_object [OF fs, where left = "left - 1" and seen = "seen + 1" and keys = "[]" and ks = ks
        and room = "nat (jl_Collection limits)" and fs = fs]
    unfolding read_as_def
    by (cases "fs = []") (auto simp: check_value.simps split: if_splits)
qed (auto simp: read_as_def check_value.simps)

section \<open>What was accepted was a value\<close>

text \<open>The converse: whatever the token stream, what the check reads is the tokens of a value.\<close>

definition reads_members :: "bool \<Rightarrow> token list \<Rightarrow> nat \<Rightarrow> bool" where
  "reads_members is_object ts n \<longleftrightarrow>
     (if is_object then \<exists>fs. ts = concat (map (\<lambda>(k, v). TkString k # tokens_of v) fs) \<and>
          n = sum_list (map (\<lambda>(k, v). values_of v) fs)
      else \<exists>vs. ts = concat (map tokens_of vs) \<and> n = sum_list (map values_of vs))"

lemma reads_members_Nil: "reads_members b [] 0"
  by (auto simp: reads_members_def intro: exI [of _ "[]"])

lemma reads_members_array:
  "reads_members False ts n \<Longrightarrow> reads_members False (tokens_of v @ ts) (values_of v + n)"
  by (auto simp: reads_members_def intro: exI [of _ "v # _"])

lemma reads_members_object:
  assumes "reads_members True ts n"
  shows "reads_members True (TkString k # tokens_of v @ ts) (values_of v + n)"
proof -
  obtain fs where "ts = concat (map (\<lambda>(k, v). TkString k # tokens_of v) fs)" "n = sum_list (map (\<lambda>(k, v). values_of v) fs)"
    using assms by (auto simp: reads_members_def)
  then show ?thesis
    by (auto simp: reads_members_def intro!: exI [of _ "(k, v) # fs"])
qed

lemma next_token_Inr: "next_token t = (Inr k, t') \<longleftrightarrow> tk_rest t = k # tk_rest t' \<and> tk_end t' = tk_end t"
  by (cases t; cases t') (auto simp: next_token.simps split: list.splits)

lemma next_token_Inl: "next_token t = (Inl e, t') \<longleftrightarrow> tk_rest t = [] \<and> e = tk_end t \<and> t' = t"
  by (auto simp: next_token.simps split: list.splits)

lemma check_reads:
  "check_value limits left seen t = Inr (seen', t') \<Longrightarrow>
     \<exists>v. tk_rest t = tokens_of v @ tk_rest t' \<and> tk_end t' = tk_end t \<and> seen' = seen + int (values_of v)"
  "check_collection limits left room is_object keys seen t = Inr (seen', t') \<Longrightarrow>
     \<exists>ts n. tk_rest t = ts @ TkClose is_object # tk_rest t' \<and> tk_end t' = tk_end t \<and>
       reads_members is_object ts n \<and> seen' = seen + int n"
proof (induction limits left seen t and limits left room is_object keys seen t
    arbitrary: seen' t' and seen' t' rule: check_value_check_collection.induct)
  case (1 limits left seen t)
  obtain k t1 where k: "next_token t = (Inr k, t1)" and small: "\<not> (left = 0 \<or> jl_Values limits < seen + 1)"
    using "1.prems" by (auto simp: check_value.simps split: if_splits prod.splits sum.splits)
  note rest = k [unfolded next_token_Inr]
  show ?case
  proof (cases k)
    case (TkOpen b)
    then have "check_collection limits (left - 1) (nat (jl_Collection limits)) b [] (seen + 1) t1 = Inr (seen', t')"
      using "1.prems" k small by (simp add: check_value.simps)
    from "1.IH" [OF small k [symmetric] refl TkOpen this]
    obtain ts n where ts: "tk_rest t1 = ts @ TkClose b # tk_rest t'" "tk_end t' = tk_end t1"
      "reads_members b ts n" "seen' = seen + 1 + int n"
      by blast
    show ?thesis
    proof (cases b)
      case True
      then obtain fs where "ts = concat (map (\<lambda>(k, v). TkString k # tokens_of v) fs)" "n = sum_list (map (\<lambda>(k, v). values_of v) fs)"
        using ts(3) by (auto simp: reads_members_def)
      then show ?thesis
        using ts rest TkOpen True by (intro exI [of _ "JObject fs"]) simp
    next
      case False
      then obtain vs where "ts = concat (map tokens_of vs)" "n = sum_list (map values_of vs)"
        using ts(3) by (auto simp: reads_members_def)
      then show ?thesis
        using ts rest TkOpen False by (intro exI [of _ "JArray vs"]) simp
    qed
  next
    case (TkString key)
    then show ?thesis
      using "1.prems" k small rest by (intro exI [of _ "JString key"]) (simp add: check_value.simps)
  next
    case TkOther
    then show ?thesis
      using "1.prems" k small rest by (intro exI [of _ JNull]) (simp add: check_value.simps)
  qed (use "1.prems" k small in \<open>simp add: check_value.simps\<close>)
next
  case (2 limits left room is_object keys seen t)
  show ?case
  proof (cases "has_more t")
    case False
    then have "next_token t = (Inr (TkClose is_object), t') \<and> seen' = seen"
      using "2.prems" by (auto simp: check_collection.simps split: prod.splits sum.splits if_splits)
    then show ?thesis
      using reads_members_Nil [of is_object] by (intro exI [of _ "[]"] exI [of _ 0]) (simp add: next_token_Inr)
  next
    case more: True
    then have room: "room \<noteq> 0"
      using "2.prems" by (cases room) (simp_all add: check_collection.simps [of _ _ 0])
    show ?thesis
    proof (cases is_object)
      case False
      then obtain s1 t1 where v: "check_value limits left seen t = Inr (s1, t1)"
        and c: "check_collection limits left (room - 1) is_object keys s1 t1 = Inr (seen', t')"
        using "2.prems" more room by (auto simp: check_collection.simps [of _ _ room] split: sum.splits prod.splits)
      show ?thesis
        using "2.IH"(3) [OF more room False v] "2.IH"(4) [OF more room False v refl c] False reads_members_array
        by fastforce
    next
      case True
      then obtain key t1 s2 t2 where k: "next_token t = (Inr (TkString key), t1)" and new: "key \<notin> set keys"
        and v: "check_value limits left seen t1 = Inr (s2, t2)"
        and c: "check_collection limits left (room - 1) is_object (key # keys) s2 t2 = Inr (seen', t')"
        using "2.prems" more room
        by (auto simp: check_collection.simps [of _ _ room] split: sum.splits prod.splits token.splits if_splits)
      show ?thesis
        using "2.IH"(1) [OF more room True k [symmetric] refl refl new v]
          "2.IH"(2) [OF more room True k [symmetric] refl refl new v refl c]
          k [unfolded next_token_Inr] True reads_members_object
        by fastforce
    qed
  qed
qed

section \<open>Properties\<close>

text \<open>
  C17.  CheckJSON accepts exactly the documents within its limits, whatever the decoder delivers: it
  succeeds exactly if the limits are positive, the document is short enough, and the tokens of the
  whole document are those of one JSON value, followed by the end of the input, that is nested no
  deeper than allowed, holds no more values, and has no collection that is too large and no duplicate
  key.  So documents that are cut off, have mismatched delimiters or go on after the value are refused.
\<close>

theorem check_json_spec:
  "CheckJSON decoder data limits = None \<longleftrightarrow>
    0 < jl_Bytes limits \<and> 0 < jl_Depth limits \<and> 0 < jl_Values limits \<and> 0 < jl_Collection limits \<and>
    int (length data) \<le> jl_Bytes limits \<and>
    (\<exists>v. tk_rest (decoder data) = tokens_of v \<and> errors_is IoEOF (tk_end (decoder data)) \<and>
       within (nat (jl_Depth limits)) (nat (jl_Collection limits)) v \<and> int (values_of v) \<le> jl_Values limits)"
proof -
  let ?check = "check_value limits (nat (jl_Depth limits)) 0 (decoder data)"
  have whole: "decoder data = token_stream (tk_rest (decoder data)) (tk_end (decoder data))"
    by (simp add: token_stream_def)
  have "(\<exists>seen t. ?check = Inr (seen, t) \<and> tk_rest t = [] \<and> errors_is IoEOF (tk_end t)) \<longleftrightarrow>
    (\<exists>v. tk_rest (decoder data) = tokens_of v \<and> errors_is IoEOF (tk_end (decoder data)) \<and>
       within (nat (jl_Depth limits)) (nat (jl_Collection limits)) v \<and> int (values_of v) \<le> jl_Values limits)"
    (is "?accepted = ?read")
  proof
    assume ?accepted
    then obtain seen t where t: "?check = Inr (seen, t)" "tk_rest t = []" "errors_is IoEOF (tk_end t)"
      by blast
    then obtain v where v: "tk_rest (decoder data) = tokens_of v" "tk_end t = tk_end (decoder data)"
      using check_reads(1) [OF t(1)] by auto
    have "decoder data = token_stream (tokens_of v @ []) (tk_end (decoder data))"
      using whole v by simp
    then show ?read
      using check_value_reads [of limits "nat (jl_Depth limits)" 0 v "[]" "tk_end (decoder data)"] t v
      by (intro exI [of _ v]) (auto simp: read_as_def split: if_splits)
  next
    assume ?read
    then obtain v where v: "tk_rest (decoder data) = tokens_of v" "errors_is IoEOF (tk_end (decoder data))"
      "within (nat (jl_Depth limits)) (nat (jl_Collection limits)) v" "int (values_of v) \<le> jl_Values limits"
      by blast
    have "decoder data = token_stream (tokens_of v @ []) (tk_end (decoder data))"
      using whole v by simp
    then have "?check = check_value limits (nat (jl_Depth limits)) 0 (token_stream (tokens_of v @ []) (tk_end (decoder data)))"
      by (rule arg_cong)
    also have "\<dots> = Inr (int (values_of v), token_stream [] (tk_end (decoder data)))"
      using check_value_reads [of limits "nat (jl_Depth limits)" 0 v "[]" "tk_end (decoder data)"] v
      by (simp add: read_as_def)
    finally show ?accepted
      using v(2) by (intro exI conjI) (assumption, simp_all add: token_stream_def)
  qed
  moreover have "CheckJSON decoder data limits = None \<longleftrightarrow>
    0 < jl_Bytes limits \<and> 0 < jl_Depth limits \<and> 0 < jl_Values limits \<and> 0 < jl_Collection limits \<and>
    int (length data) \<le> jl_Bytes limits \<and> ?accepted"
    by (auto simp: CheckJSON_def next_token.simps split: sum.splits prod.splits list.splits if_splits)
  ultimately show ?thesis
    by simp
qed

definition tight_limits :: json_limits where
  "tight_limits = \<lparr>jl_Bytes = 16, jl_Depth = 2, jl_Values = 3, jl_Collection = 2\<rparr>"

text \<open>An accepted document; one nested too deeply; one that is cut off.\<close>

lemma check_json_examples:
  "CheckJSON (\<lambda>_. token_stream (tokens_of (JArray [JNull, JString ''a''])) (sentinel IoEOF)) ''[null,#a#]'' tight_limits = None"
  "CheckJSON (\<lambda>_. token_stream (tokens_of (JArray [JArray [JArray []]])) (sentinel IoEOF)) ''[[[]]]'' tight_limits \<noteq> None"
  "CheckJSON (\<lambda>_. token_stream [TkOpen False, TkOther] (sentinel IoEOF)) ''[null'' tight_limits \<noteq> None"
  by (simp_all add: CheckJSON_def tight_limits_def check_value.simps check_collection.simps token_stream_def next_token.simps
      has_more.simps)

end
