(* ===== verification/ToolText.thy ===== *)
theory ToolText
  imports Json ToolBus
begin

text \<open>
  Tool calls a model wrote as plain text: the detection in \<open>src/agent/response_recovery.go\<close>.  The
  token stream and the decoded value of a candidate are parameters, as the JSON package delivers
  them.
\<close>

section \<open>Searching\<close>

text \<open>What precedes and what follows the first occurrence (\<open>strings.Index\<close>).\<close>

fun split_sub :: "bytes \<Rightarrow> bytes \<Rightarrow> (bytes \<times> bytes) option" where
  "split_sub sub s =
     (if prefix sub s then Some ([], drop (length sub) s)
      else case s of [] \<Rightarrow> None
        | c # cs \<Rightarrow> map_option (\<lambda>(before, rest). (c # before, rest)) (split_sub sub cs))"

declare split_sub.simps [simp del]

definition contains :: "bytes \<Rightarrow> bytes \<Rightarrow> bool" where
  "contains s sub \<longleftrightarrow> split_sub sub s \<noteq> None"

lemma split_sub_Some: "split_sub sub s = Some (before, rest) \<Longrightarrow> s = before @ sub @ rest"
proof (induction s arbitrary: before)
  case (Cons c cs)
  then show ?case
    by (subst (asm) split_sub.simps) (auto split: if_splits simp: prefix_def)
qed (auto simp: split_sub.simps prefix_def split: if_splits)

lemma split_sub_length:
  "split_sub sub s = Some (before, rest) \<Longrightarrow> length s = length before + length sub + length rest"
  by (drule split_sub_Some) simp

section \<open>Limits\<close>

definition maxToolCallCandidateBytes :: nat where "maxToolCallCandidateBytes = 64 * 1024"
definition maxToolCallCandidates :: nat where "maxToolCallCandidates = 16"
definition maxToolCallEnvelopeDepth :: nat where "maxToolCallEnvelopeDepth = 3"

definition toolCallJSONLimits :: json_limits where
  "toolCallJSONLimits = \<lparr>jl_Bytes = int maxToolCallCandidateBytes, jl_Depth = 16, jl_Values = 512,
     jl_Collection = 128\<rparr>"

section \<open>Decoded calls\<close>

definition tool_call_keys :: "bytes list" where
  "tool_call_keys = [''id'', ''call_id'', ''type'', ''name'', ''tool'', ''tool_name'', ''arguments'',
     ''parameters'', ''input'', ''function'', ''tool_calls'']"

definition hasOnlyToolCallKeys :: "(bytes \<times> json) list \<Rightarrow> bool" where
  "hasOnlyToolCallKeys obj \<longleftrightarrow> obj \<noteq> [] \<and> list_all (\<lambda>(k, v). k \<in> set tool_call_keys) obj"

fun extractDecodedStringField :: "(bytes \<times> json) list \<Rightarrow> bytes list \<Rightarrow> bytes" where
  "extractDecodedStringField obj [] = []"
| "extractDecodedStringField obj (key # keys) = (case field obj key of
       Some (JString value) \<Rightarrow> if value \<noteq> [] then value else extractDecodedStringField obj keys
     | _ \<Rightarrow> extractDecodedStringField obj keys)"

abbreviation name_field :: "(bytes \<times> json) list \<Rightarrow> bytes" where
  "name_field obj \<equiv> extractDecodedStringField obj [''name'', ''tool'', ''tool_name'']"

text \<open>The recursion ends at the envelope depth; \<open>left\<close> is \<open>maxToolCallEnvelopeDepth + 1 - depth\<close>.\<close>

fun isDecodedToolCallValue :: "'w bus \<Rightarrow> nat \<Rightarrow> json \<Rightarrow> bool"
  and isDecodedToolCallObject :: "'w bus \<Rightarrow> nat \<Rightarrow> (bytes \<times> json) list \<Rightarrow> bool"
where
  "isDecodedToolCallValue b 0 value = False"
| "isDecodedToolCallValue b (Suc left) value = (case value of
       JObject obj \<Rightarrow> isDecodedToolCallObject b (Suc left) obj
     | JArray items \<Rightarrow> items \<noteq> [] \<and>
         list_all (\<lambda>item. case item of JObject obj \<Rightarrow> isDecodedToolCallObject b left obj | _ \<Rightarrow> False) items
     | _ \<Rightarrow> False)"
| "isDecodedToolCallObject b 0 obj = False"
| "isDecodedToolCallObject b (Suc left) obj =
     (if \<not> hasOnlyToolCallKeys obj then False
      else case field obj ''tool_calls'' of
        Some rawCalls \<Rightarrow> isDecodedToolCallValue b left rawCalls
      | None \<Rightarrow>
        if (case field obj ''function'' of
              Some (JObject fnObj) \<Rightarrow> isDecodedToolCallObject b left fnObj \<or>
                (hasOnlyToolCallKeys fnObj \<and> name_field fnObj \<noteq> [] \<and> Bus_Driver b (name_field fnObj) \<noteq> None)
            | _ \<Rightarrow> False) then True
        else if name_field obj = [] \<or> Bus_Driver b (name_field obj) = None then False
        else if list_ex (\<lambda>key. field obj key \<noteq> None) [''arguments'', ''parameters'', ''input''] then True
        else extractDecodedStringField obj [''type''] \<in> {''function'', ''tool_use'', ''tool_call''})"

definition isJSONToolCallPayload ::
  "(bytes \<Rightarrow> tokens) \<Rightarrow> (bytes \<Rightarrow> json option) \<Rightarrow> 'w bus \<Rightarrow> bytes \<Rightarrow> bool" where
  "isJSONToolCallPayload decoder unmarshal b candidate \<longleftrightarrow>
     2 \<le> length candidate \<and> length candidate \<le> maxToolCallCandidateBytes \<and>
     (hd candidate = CHR ''{'' \<or> hd candidate = CHR ''['') \<and>
     CheckJSON decoder candidate toolCallJSONLimits = None \<and>
     (case unmarshal candidate of None \<Rightarrow> False
      | Some decoded \<Rightarrow> isDecodedToolCallValue b (Suc maxToolCallEnvelopeDepth) decoded)"

section \<open>Balanced objects\<close>

record object_scan =
  sn_inString :: bool
  sn_escaped :: bool
  sn_depth :: nat
  sn_start :: "nat option"
  sn_objects :: "bytes list"

definition new_scan :: object_scan where
  "new_scan = \<lparr>sn_inString = False, sn_escaped = False, sn_depth = 0, sn_start = None, sn_objects = []\<rparr>"

text \<open>One byte: \<open>Inl\<close> is the early return.\<close>

definition scan_byte :: "bytes \<Rightarrow> nat \<Rightarrow> char \<Rightarrow> object_scan \<Rightarrow> bytes list + object_scan" where
  "scan_byte s i ch st =
     (if sn_inString st
        then Inr (if sn_escaped st then st\<lparr>sn_escaped := False\<rparr>
                  else if ch = CHR 0x5C then st\<lparr>sn_escaped := True\<rparr>
                  else if ch = CHR 0x22 then st\<lparr>sn_inString := False\<rparr> else st)
      else if ch = CHR 0x22 then Inr (if 0 < sn_depth st then st\<lparr>sn_inString := True\<rparr> else st)
      else if ch = CHR ''{''
        then Inr (st\<lparr>sn_start := (if sn_depth st = 0 then Some i else sn_start st),
                    sn_depth := Suc (sn_depth st)\<rparr>)
      else if ch = CHR ''}'' \<and> 0 < sn_depth st
        then let st1 = st\<lparr>sn_depth := sn_depth st - 1\<rparr> in
          (case (sn_depth st1, sn_start st1) of
             (0, Some start) \<Rightarrow>
               let objects = (if i + 1 - start \<le> maxToolCallCandidateBytes
                     then sn_objects st1 @ [take (i + 1 - start) (drop start s)] else sn_objects st1)
               in if maxToolCallCandidates \<le> length objects then Inl objects
                  else Inr (st1\<lparr>sn_objects := objects, sn_start := None\<rparr>)
           | _ \<Rightarrow> Inr st1)
      else Inr st)"

fun scan_objects :: "bytes \<Rightarrow> nat \<Rightarrow> bytes \<Rightarrow> object_scan \<Rightarrow> bytes list" where
  "scan_objects s i [] st = sn_objects st"
| "scan_objects s i (ch # rest) st = (case scan_byte s i ch st of
       Inl objects \<Rightarrow> objects
     | Inr st' \<Rightarrow> scan_objects s (Suc i) rest st')"

definition extractBalancedJSONObjects :: "bytes \<Rightarrow> bytes list" where
  "extractBalancedJSONObjects s = scan_objects s 0 s new_scan"

section \<open>Candidates\<close>

definition addCandidate :: "bytes \<Rightarrow> bytes list \<Rightarrow> bytes list" where
  "addCandidate candidate candidates =
     (if candidate = [] \<or> maxToolCallCandidateBytes < length candidate \<or>
         maxToolCallCandidates \<le> length candidates then candidates
      else candidates @ [candidate])"

definition fence :: bytes where "fence = ''```''"

text \<open>A first line without a bracket is the language tag of the fence.\<close>

definition fenced_block :: "bytes \<Rightarrow> bytes" where
  "fenced_block block = (case split_sub [CHR 0x0A] block of
       Some (line, rest) \<Rightarrow>
         if list_ex (\<lambda>c. c = CHR ''{'' \<or> c = CHR ''['') (trim_space line) then block else rest
     | None \<Rightarrow> block)"

function fenced_candidates :: "bytes \<Rightarrow> bytes list \<Rightarrow> bytes list" where
  "fenced_candidates remaining candidates =
     (if maxToolCallCandidates \<le> length candidates then candidates
      else case split_sub fence remaining of None \<Rightarrow> candidates | Some (x, after_open) \<Rightarrow>
           case split_sub fence after_open of None \<Rightarrow> candidates | Some (block, after_close) \<Rightarrow>
             fenced_candidates after_close (addCandidate (trim_space (fenced_block block)) candidates))"
  by pat_completeness auto
termination
  by (relation "measure (\<lambda>(s, c). length s)") (auto dest!: split_sub_length simp: fence_def)

declare fenced_candidates.simps [simp del]

definition jsonToolCallCandidates :: "bytes \<Rightarrow> bytes list" where
  "jsonToolCallCandidates s =
     fold addCandidate (extractBalancedJSONObjects s) (fenced_candidates s (addCandidate s []))"

section \<open>Markup\<close>

function tag_occurs :: "bytes \<Rightarrow> bytes \<Rightarrow> bytes \<Rightarrow> bool" where
  "tag_occurs open_tag close_tag remaining =
     (if open_tag = [] then False else
      case split_sub open_tag remaining of None \<Rightarrow> False | Some (x, rest) \<Rightarrow>
        if contains rest close_tag then True else tag_occurs open_tag close_tag rest)"
  by pat_completeness auto
termination
  by (relation "measure (\<lambda>(a, c, s). length s)") (auto dest!: split_sub_length)

declare tag_occurs.simps [simp del]

definition hasRegisteredFunctionTag :: "bytes \<Rightarrow> bytes \<Rightarrow> bool" where
  "hasRegisteredFunctionTag s name \<longleftrightarrow>
     tag_occurs (''<function='' @ name @ ''>'') ''</function>'' s \<or>
     tag_occurs (''<function='' @ name @ '' '') ''</function>'' s \<or>
     tag_occurs (''<invoke name='' @ [CHR 0x22] @ name @ [CHR 0x22]) ''</invoke>'' s"

text \<open>\<open>U+FF5C\<close> and \<open>U+2581\<close> in the markers of one model family.\<close>

definition wide_bar :: bytes where "wide_bar = [CHR 0xEF, CHR 0xBD, CHR 0x9C]"
definition low_line :: bytes where "low_line = [CHR 0xE2, CHR 0x96, CHR 0x81]"

definition wide_marker :: "bytes list \<Rightarrow> bytes" where
  "wide_marker words = ''<'' @ wide_bar @ concat (case words of [] \<Rightarrow> [] | w # ws \<Rightarrow> w # map ((@) low_line) ws)
     @ wide_bar @ ''>''"

definition markers :: "bytes list" where
  "markers = [''<tool_call>'', wide_marker [''tool'', ''calls'', ''begin''], ''<|tool_calls_begin|>'',
     ''<|tool_call|>'', ''<|python_tag|>'', ''[TOOL_CALLS]'', ''<function_calls>'']"

definition invokes :: "bytes \<Rightarrow> bytes \<Rightarrow> bool" where
  "invokes rest name \<longleftrightarrow> name \<noteq> [] \<and>
     (prefix (name @ ''('') (trim_space rest) \<or> contains rest (wide_marker [''tool'', ''sep''] @ name) \<or>
      contains rest (''<|tool_sep|>'' @ name))"

function hasMarkerInvocationPayload ::
  "(bytes \<Rightarrow> bool) \<Rightarrow> bytes list \<Rightarrow> bytes \<Rightarrow> bytes \<Rightarrow> bool" where
  "hasMarkerInvocationPayload payload names marker remaining =
     (if marker = [] then False else
      case split_sub marker remaining of None \<Rightarrow> False | Some (x, rest) \<Rightarrow>
        if list_ex payload (extractBalancedJSONObjects rest) then True
        else if list_ex (invokes rest) names then True
        else hasMarkerInvocationPayload payload names marker rest)"
  by pat_completeness auto
termination
  by (relation "measure (\<lambda>(p, n, m, s). length s)") (auto dest!: split_sub_length)

declare hasMarkerInvocationPayload.simps [simp del]

definition hasExplicitToolCallMarkup :: "(bytes \<Rightarrow> bool) \<Rightarrow> 'w bus \<Rightarrow> bytes \<Rightarrow> bool" where
  "hasExplicitToolCallMarkup payload b s =
     (let names = map td_Name (Definitions b) in
      list_ex (\<lambda>name. name \<noteq> [] \<and> hasRegisteredFunctionTag s name) names \<or>
      list_ex (\<lambda>token. hasMarkerInvocationPayload payload names token s) markers)"

definition hasPlainTextToolCall ::
  "(bytes \<Rightarrow> tokens) \<Rightarrow> (bytes \<Rightarrow> json option) \<Rightarrow> 'w bus option \<Rightarrow> bytes \<Rightarrow> bool" where
  "hasPlainTextToolCall decoder unmarshal bus s = (case bus of None \<Rightarrow> False | Some b \<Rightarrow>
     if Definitions b = [] then False
     else let trimmed = trim_space s; payload = isJSONToolCallPayload decoder unmarshal b in
       if trimmed = [] then False
       else hasExplicitToolCallMarkup payload b trimmed \<or>
            list_ex payload (jsonToolCallCandidates trimmed))"

section \<open>What a flagged text contains\<close>

text \<open>The strings of a value.\<close>

fun strings_of :: "json \<Rightarrow> bytes set" where
  "strings_of (JString s) = {s}"
| "strings_of (JArray vs) = \<Union> (strings_of ` set vs)"
| "strings_of (JObject fs) = \<Union> ((\<lambda>(k, v). strings_of v) ` set fs)"
| "strings_of _ = {}"

definition names_tool :: "'w bus \<Rightarrow> json \<Rightarrow> bool" where
  "names_tool b v \<longleftrightarrow> (\<exists>name \<in> strings_of v. name \<noteq> [] \<and> Bus_Driver b name \<noteq> None)"

lemma field_strings: "field obj key = Some v \<Longrightarrow> strings_of v \<subseteq> strings_of (JObject obj)"
  by (auto simp: field_def dest!: map_of_SomeD)

lemma names_tool_field: "field obj key = Some v \<Longrightarrow> names_tool b v \<Longrightarrow> names_tool b (JObject obj)"
  using field_strings unfolding names_tool_def by blast

lemma extracted_string:
  "extractDecodedStringField obj keys \<noteq> [] \<Longrightarrow> extractDecodedStringField obj keys \<in> strings_of (JObject obj)"
proof (induction keys)
  case (Cons key keys)
  show ?case
  proof (cases "field obj key")
    case (Some v)
    then show ?thesis
      using Cons field_strings [OF Some] by (cases v) (auto split: if_splits)
  qed (use Cons in simp)
qed simp

lemma named_field: "name_field obj \<noteq> [] \<Longrightarrow> Bus_Driver b (name_field obj) \<noteq> None \<Longrightarrow> names_tool b (JObject obj)"
  using extracted_string unfolding names_tool_def by blast

lemma decoded_names_tool:
  "isDecodedToolCallValue b left v \<Longrightarrow> names_tool b v"
  "isDecodedToolCallObject b left obj \<Longrightarrow> names_tool b (JObject obj)"
proof (induction b left v and b left obj rule: isDecodedToolCallValue_isDecodedToolCallObject.induct)
  case (2 b left v)
  show ?case
  proof (cases v)
    case (JArray items)
    then obtain item where item: "item \<in> set items"
      using 2(3) by (cases items) auto
    have "case item of JObject obj \<Rightarrow> isDecodedToolCallObject b left obj | _ \<Rightarrow> False"
      using 2(3) JArray item by (simp add: list_all_iff)
    then obtain obj where "item = JObject obj" "isDecodedToolCallObject b left obj"
      by (cases item) simp_all
    then have "names_tool b item"
      using 2(1) [OF JArray item] by simp
    then show ?thesis
      using item JArray by (auto simp: names_tool_def)
  next
    case (JObject obj)
    then show ?thesis
      using 2(2,3) by simp
  qed (use 2(3) in simp_all)
next
  case (4 b left obj)
  show ?case
  proof (cases "field obj ''tool_calls''")
    case (Some v)
    then show ?thesis
      using 4(2) [OF _ Some] 4(3) names_tool_field [OF Some] by (simp split: if_splits)
  next
    case None
    show ?thesis
    proof (cases "name_field obj \<noteq> [] \<and> Bus_Driver b (name_field obj) \<noteq> None")
      case True
      then show ?thesis
        using named_field by blast
    next
      case False
      let ?holds = "\<lambda>fnObj. isDecodedToolCallObject b left fnObj \<or>
        (hasOnlyToolCallKeys fnObj \<and> name_field fnObj \<noteq> [] \<and> Bus_Driver b (name_field fnObj) \<noteq> None)"
      have only: "\<not> \<not> hasOnlyToolCallKeys obj"
        using 4(3) by (cases "hasOnlyToolCallKeys obj") simp_all
      have "case field obj ''function'' of Some (JObject fnObj) \<Rightarrow> ?holds fnObj | _ \<Rightarrow> False"
      proof (rule ccontr)
        assume "\<not> (case field obj ''function'' of Some (JObject fnObj) \<Rightarrow> ?holds fnObj | _ \<Rightarrow> False)"
        then show False
          using 4(3) None only False
          by (subst (asm) isDecodedToolCallObject.simps) (simp only: if_False option.case simp_thms not_not split: if_split_asm, blast+)
      qed
      then obtain fnObj where f: "field obj ''function'' = Some (JObject fnObj)" and g: "?holds fnObj"
        by (cases "field obj ''function''"; cases "the (field obj ''function'')") simp_all
      have "names_tool b (JObject fnObj)"
        using g
      proof
        assume "isDecodedToolCallObject b left fnObj"
        then show ?thesis
          by (rule 4(1) [OF only None f refl])
      next
        assume "hasOnlyToolCallKeys fnObj \<and> name_field fnObj \<noteq> [] \<and> Bus_Driver b (name_field fnObj) \<noteq> None"
        then show ?thesis
          using named_field by blast
      qed
      then show ?thesis
        using names_tool_field [OF f] by blast
    qed
  qed
qed simp_all

text \<open>Candidates are pieces of the text.\<close>

lemma trim_left_suffix: "suffix (trim_left s) s"
  by (induction s rule: trim_left.induct) (auto intro: suffix_ConsI)

lemma sublist_trim_space: "sublist (trim_space s) s"
proof -
  have "suffix (trim_left_rev (rev (trim_left s))) (rev (trim_left s))"
    by (rule trim_left_rev_suffix)
  then have "prefix (trim_space s) (trim_left s)"
    by (simp add: trim_space_def suffix_to_prefix)
  then obtain vs where "trim_left s = trim_space s @ vs"
    by (rule prefixE)
  moreover obtain us where "s = us @ trim_left s"
    using trim_left_suffix [of s] by (rule suffixE)
  ultimately show ?thesis
    by (metis sublist_appendI)
qed

lemma sublist_trans: "sublist xs ys \<Longrightarrow> sublist ys zs \<Longrightarrow> sublist xs zs"
  by (rule sublist_order.order_trans)

lemma contains_sublist: "contains s sub \<Longrightarrow> sublist sub s"
  by (auto simp: contains_def sublist_def dest!: split_sub_Some)

lemma split_sub_sublist:
  "split_sub sub s = Some (before, rest) \<Longrightarrow> sublist before s \<and> sublist sub s \<and> sublist rest s"
  by (drule split_sub_Some) (metis append_assoc sublist_append_leftI sublist_append_rightI sublist_appendI)

definition piece :: "bytes \<Rightarrow> bytes \<Rightarrow> bool" where
  "piece s candidate \<longleftrightarrow> sublist candidate s \<and> length candidate \<le> maxToolCallCandidateBytes"

lemma piece_mono: "piece t x \<Longrightarrow> sublist t s \<Longrightarrow> piece s x"
  unfolding piece_def using sublist_trans by blast

lemma scan_byte_pieces:
  assumes "list_all (piece s) (sn_objects st)"
  shows "case scan_byte s i ch st of Inl os \<Rightarrow> list_all (piece s) os | Inr st' \<Rightarrow> list_all (piece s) (sn_objects st')"
proof -
  have "sublist (take n (drop m s)) s" for n m
    by (metis sublist_drop sublist_take sublist_trans)
  then show ?thesis
    using assms by (auto simp: scan_byte_def piece_def Let_def split: nat.split option.split)
qed

lemma scan_objects_pieces: "list_all (piece s) (sn_objects st) \<Longrightarrow> list_all (piece s) (scan_objects s i rest st)"
proof (induction rest arbitrary: i st)
  case (Cons ch rest)
  then show ?case
    using scan_byte_pieces [OF Cons.prems, of i ch] by (auto split: sum.split)
qed simp

lemma extracted_pieces: "c \<in> set (extractBalancedJSONObjects s) \<Longrightarrow> piece s c"
  using scan_objects_pieces [of s new_scan 0 s] by (simp add: extractBalancedJSONObjects_def new_scan_def list_all_iff)

definition candidates_ok :: "bytes \<Rightarrow> bytes list \<Rightarrow> bool" where
  "candidates_ok s cs \<longleftrightarrow> list_all (piece s) cs \<and> length cs \<le> maxToolCallCandidates"

lemma addCandidate_ok: "candidates_ok s cs \<Longrightarrow> sublist c s \<Longrightarrow> candidates_ok s (addCandidate c cs)"
  by (auto simp: addCandidate_def candidates_ok_def piece_def)

lemma fold_addCandidate_ok:
  "candidates_ok s cs \<Longrightarrow> list_all (\<lambda>c. sublist c s) xs \<Longrightarrow> candidates_ok s (fold addCandidate xs cs)"
  by (induction xs arbitrary: cs) (auto intro: addCandidate_ok)

lemma fenced_block_sublist: "sublist (fenced_block block) block"
  by (auto simp: fenced_block_def split: option.splits dest: split_sub_sublist)

lemma fenced_candidates_ok:
  "candidates_ok s cs \<Longrightarrow> sublist t s \<Longrightarrow> candidates_ok s (fenced_candidates t cs)"
proof (induction t cs rule: fenced_candidates.induct)
  case (1 t cs)
  show ?case
  proof (cases "maxToolCallCandidates \<le> length cs \<or> split_sub fence t = None")
    case True
    then show ?thesis
      using 1(2) by (subst fenced_candidates.simps) auto
  next
    case False
    then obtain x u where o: "split_sub fence t = Some (x, u)"
      by auto
    show ?thesis
    proof (cases "split_sub fence u")
      case None
      then show ?thesis
        using 1(2) False o by (subst fenced_candidates.simps) simp
    next
      case (Some p)
      obtain block w where p: "p = (block, w)"
        by fastforce
      have "sublist block s" "sublist w s"
        using split_sub_sublist [OF o] split_sub_sublist [of fence u block w] Some p 1(3) sublist_trans by blast+
      moreover from this have "sublist (trim_space (fenced_block block)) s"
        using sublist_trim_space fenced_block_sublist sublist_trans by blast
      ultimately show ?thesis
        using 1 False o Some p by (subst fenced_candidates.simps) (simp add: addCandidate_ok)
    qed
  qed
qed

lemma jsonToolCallCandidates_ok: "candidates_ok s (jsonToolCallCandidates s)"
  unfolding jsonToolCallCandidates_def
  by (intro fold_addCandidate_ok fenced_candidates_ok addCandidate_ok)
     (auto simp: candidates_ok_def list_all_iff piece_def dest!: extracted_pieces)

section \<open>Property\<close>

definition mentions_tool :: "(bytes \<Rightarrow> json option) \<Rightarrow> 'w bus \<Rightarrow> bytes \<Rightarrow> bool" where
  "mentions_tool unmarshal b s \<longleftrightarrow>
     (\<exists>name \<in> set (map td_Name (Definitions b)). name \<noteq> [] \<and> sublist name s) \<or>
     (\<exists>c v. piece s c \<and> unmarshal c = Some v \<and> names_tool b v)"

lemma mentions_mono: "mentions_tool unmarshal b t \<Longrightarrow> sublist t s \<Longrightarrow> mentions_tool unmarshal b s"
  unfolding mentions_tool_def using piece_mono sublist_trans by blast

lemma payload_mentions:
  assumes "isJSONToolCallPayload decoder unmarshal b c" "piece s c"
  shows "mentions_tool unmarshal b s"
proof -
  obtain v where "unmarshal c = Some v" "isDecodedToolCallValue b (Suc maxToolCallEnvelopeDepth) v"
    using assms(1) by (auto simp: isJSONToolCallPayload_def split: option.splits)
  then show ?thesis
    unfolding mentions_tool_def using decoded_names_tool(1) assms(2) by blast
qed

lemma tag_occurs_sublist: "tag_occurs open_tag close_tag s \<Longrightarrow> sublist open_tag s"
  by (subst (asm) tag_occurs.simps) (auto split: if_splits option.splits dest: split_sub_sublist)

lemma tag_part: "tag_occurs (xs @ name @ ys) close_tag s \<Longrightarrow> sublist name s"
  by (drule tag_occurs_sublist) (meson sublist_appendI sublist_trans)

lemma tag_mentions: "hasRegisteredFunctionTag s name \<Longrightarrow> sublist name s"
  unfolding hasRegisteredFunctionTag_def
  using tag_part [of "''<function=''" name "''>''"] tag_part [of "''<function=''" name "'' ''"]
    tag_part [of "''<invoke name='' @ [CHR 0x22]" name "[CHR 0x22]"]
  by (auto simp del: append_Cons)

lemma invokes_sublist: "invokes rest name \<Longrightarrow> name \<noteq> [] \<and> sublist name rest"
proof -
  assume i: "invokes rest name"
  then consider "prefix (name @ ''('') (trim_space rest)" | xs where "contains rest (xs @ name)"
    unfolding invokes_def by blast
  then have "sublist name rest"
  proof cases
    case 1
    then have "sublist (name @ ''('') rest"
      using prefix_imp_sublist sublist_trim_space sublist_trans by blast
    then show ?thesis
      using sublist_append_rightI sublist_trans by blast
  next
    case 2
    then show ?thesis
      using contains_sublist sublist_append_leftI sublist_trans by blast
  qed
  then show "name \<noteq> [] \<and> sublist name rest"
    using i by (simp add: invokes_def)
qed

lemma marker_mentions:
  "hasMarkerInvocationPayload (isJSONToolCallPayload decoder unmarshal b) (map td_Name (Definitions b)) marker s \<Longrightarrow>
     mentions_tool unmarshal b s"
proof (induction "length s" arbitrary: s rule: less_induct)
  case less
  obtain x rest where rest: "split_sub marker s = Some (x, rest)" "marker \<noteq> []"
    using less.prems by (subst (asm) hasMarkerInvocationPayload.simps) (auto split: if_splits option.splits)
  then consider c where "c \<in> set (extractBalancedJSONObjects rest)" "isJSONToolCallPayload decoder unmarshal b c"
    | name where "name \<in> set (map td_Name (Definitions b))" "invokes rest name"
    | "hasMarkerInvocationPayload (isJSONToolCallPayload decoder unmarshal b) (map td_Name (Definitions b)) marker rest"
    using less.prems by (subst (asm) (2) hasMarkerInvocationPayload.simps) (auto simp: list_ex_iff split: if_splits)
  then have "mentions_tool unmarshal b rest"
  proof cases
    case 1
    then show ?thesis
      using payload_mentions extracted_pieces by blast
  next
    case 2
    then show ?thesis
      using invokes_sublist unfolding mentions_tool_def by blast
  next
    case 3
    then show ?thesis
      using less.hyps split_sub_length [OF rest(1)] rest(2) by simp
  qed
  then show ?case
    using split_sub_sublist [OF rest(1)] mentions_mono by blast
qed

text \<open>
  A response is taken for a tool call written as text only when it mentions a tool of the
  bus: a registered name occurs in it, or a bounded piece of it decodes to JSON that names a
  registered tool.
\<close>

theorem flagged_text_mentions_a_tool:
  assumes "hasPlainTextToolCall decoder unmarshal (Some b) s"
  shows "(\<exists>name \<in> set (map td_Name (Definitions b)). name \<noteq> [] \<and> sublist name s) \<or>
    (\<exists>c v. sublist c s \<and> length c \<le> 65536 \<and> unmarshal c = Some v \<and> names_tool b v)"
proof -
  let ?t = "trim_space s"
  have "hasExplicitToolCallMarkup (isJSONToolCallPayload decoder unmarshal b) b ?t \<or>
      list_ex (isJSONToolCallPayload decoder unmarshal b) (jsonToolCallCandidates ?t)"
    using assms by (simp add: hasPlainTextToolCall_def Let_def split: if_splits)
  then have "mentions_tool unmarshal b ?t"
  proof
    assume "hasExplicitToolCallMarkup (isJSONToolCallPayload decoder unmarshal b) b ?t"
    then consider name where "name \<in> set (map td_Name (Definitions b))" "name \<noteq> []"
        "hasRegisteredFunctionTag ?t name"
      | marker where "hasMarkerInvocationPayload (isJSONToolCallPayload decoder unmarshal b)
          (map td_Name (Definitions b)) marker ?t"
      unfolding hasExplicitToolCallMarkup_def Let_def list_ex_iff by blast
    then show ?thesis
      by cases (use tag_mentions mentions_tool_def marker_mentions in blast)+
  next
    assume "list_ex (isJSONToolCallPayload decoder unmarshal b) (jsonToolCallCandidates ?t)"
    then obtain c where c: "c \<in> set (jsonToolCallCandidates ?t)" "isJSONToolCallPayload decoder unmarshal b c"
      by (auto simp: list_ex_iff)
    then have "piece ?t c"
      using jsonToolCallCandidates_ok [of ?t] by (simp add: candidates_ok_def list_all_iff)
    with c(2) show ?thesis
      by (rule payload_mentions)
  qed
  then have "mentions_tool unmarshal b s"
    using sublist_trim_space by (rule mentions_mono)
  then show ?thesis
    by (auto simp: mentions_tool_def piece_def maxToolCallCandidateBytes_def)
qed

lemma sample_text_flagged:
  "hasPlainTextToolCall (\<lambda>_. stream [] (sentinel IoEOF)) (\<lambda>_. None) (Some echo_bus)
     ''<function=echo>1</function>''"
proof -
  let ?s = "''<function=echo>1</function>''"
  let ?payload = "isJSONToolCallPayload (\<lambda>_. stream [] (sentinel IoEOF)) (\<lambda>_. None) echo_bus"
  have d: "Definitions echo_bus = [echo_definition]"
    by (simp add: Definitions_def echo_bus_eq)
  have "tag_occurs ''<function=echo>'' ''</function>'' ?s"
    by code_simp
  then have "hasRegisteredFunctionTag ?s ''echo''"
    by (simp add: hasRegisteredFunctionTag_def)
  then have "hasExplicitToolCallMarkup ?payload echo_bus ?s"
    by (simp add: hasExplicitToolCallMarkup_def Let_def d echo_definition_def)
  moreover have t: "trim_space ?s = ?s"
    by code_simp
  ultimately show ?thesis
    by (simp only: hasPlainTextToolCall_def option.case d Let_def t) simp
qed

theorem flagged_text_mentions_a_tool_witness:
  "\<exists>name \<in> set (map td_Name (Definitions echo_bus)). name \<noteq> [] \<and> sublist name ''<function=echo>1</function>''"
  using flagged_text_mentions_a_tool [OF sample_text_flagged] by simp

end
