(* ===== verification/OutputPolicy.thy ===== *)
theory OutputPolicy
  imports Json Continuation
begin

text \<open>
  Structured output: \<open>src/agent/output_policy.go\<close>.  A decoded document is a \<open>json\<close> value, a raw
  schema is decoded twice as in the code (into the struct and, for the keyword check, into maps);
  the decoders and \<open>big.Rat.SetString\<close> (numerator and denominator in lowest terms) are parameters.
  Map iteration order only decides which error is reported; here it is the order of the list.  What
  it is to conform to a schema (\<open>conforms\<close>) is stated on its own, over the relation \<open>same_value\<close> and
  without the functions of the validator; the lemmas show that validation succeeds exactly for the
  values that conform.
\<close>

section \<open>Schemas\<close>

datatype output_schema = OutputSchema
  (sc_Type: bytes)
  (sc_Properties: "(bytes \<times> output_schema) list")
  (sc_Required: "bytes list")
  (sc_Items: "output_schema option")
  (sc_Enum: "bytes list")
  (sc_AdditionalProperties: "bool option")

record json_reader =
  jr_tokens :: "bytes \<Rightarrow> tokens"
  jr_decode :: "bytes \<Rightarrow> go_err + json"
  jr_schema :: "bytes \<Rightarrow> go_err + output_schema option"
  jr_rat :: "bytes \<Rightarrow> (int \<times> int) option"

definition propertyPath :: "bytes \<Rightarrow> bytes \<Rightarrow> bytes" where
  "propertyPath path property = (if path = ''$'' then ''$.'' @ property else path @ ''.'' @ property)"

definition supportedOutputPolicySchemaKeyword :: "bytes \<Rightarrow> bool" where
  "supportedOutputPolicySchemaKeyword keyword \<longleftrightarrow> keyword \<in> set [''type'', ''properties'', ''required'',
     ''items'', ''enum'', ''additionalProperties'', ''description'']"

definition supportedJSONSchemaType :: "bytes \<Rightarrow> bool" where
  "supportedJSONSchemaType schemaType \<longleftrightarrow> schemaType \<in> set [''object'', ''array'', ''string'',
     ''number'', ''integer'', ''boolean'']"

lemma field_size: "field members key = Some v \<Longrightarrow> size v < Suc (size_list (size_prod (\<lambda>_. 0) size) members)"
  by (induction members) (auto simp: field_def split: if_splits)

text \<open>\<open>rejectUnsupportedOutputPolicySchemaKeywords\<close>, on the decoded value of the raw schema.\<close>

function reject_keywords :: "json \<Rightarrow> bytes \<Rightarrow> go_err option"
  and reject_in_properties :: "json option \<Rightarrow> bytes \<Rightarrow> go_err option"
  and reject_property_keywords :: "(bytes \<times> json) list \<Rightarrow> bytes \<Rightarrow> go_err option"
where
  "reject_keywords v path = (case v of
       JObject members \<Rightarrow>
         if \<not> list_all (\<lambda>(k, v). supportedOutputPolicySchemaKeyword k) members
           then Some (new_err (path @ '': unsupported schema keyword''))
         else (case reject_in_properties (field members ''properties'') path of
             Some e \<Rightarrow> Some e
           | None \<Rightarrow> (case field members ''items'' of None \<Rightarrow> None
               | Some items \<Rightarrow> reject_keywords items (path @ ''.items'')))
     | _ \<Rightarrow> Some (new_err (path @ '': schema must be a JSON object'')))"
| "reject_in_properties p path = (case p of
       None \<Rightarrow> None
     | Some v \<Rightarrow> (case v of
           JNull \<Rightarrow> None
         | JObject properties \<Rightarrow> reject_property_keywords properties path
         | _ \<Rightarrow> Some (new_err (path @ ''.properties: invalid properties''))))"
| "reject_property_keywords [] path = None"
| "reject_property_keywords ((name, v) # properties) path =
     (case reject_keywords v (propertyPath path name) of Some e \<Rightarrow> Some e
      | None \<Rightarrow> reject_property_keywords properties path)"
  by pat_completeness auto

termination
  by (relation "measure (\<lambda>x. case x of Inl (v, p) \<Rightarrow> 2 * size v
        | Inr (Inl (v, p)) \<Rightarrow> (case v of None \<Rightarrow> 0 | Some u \<Rightarrow> Suc (2 * size u))
        | Inr (Inr (fs, p)) \<Rightarrow> 2 * size_list (size_prod (\<lambda>_. 0) size) fs)")
     (auto dest!: field_size split: option.split)

declare reject_keywords.simps [simp del] reject_in_properties.simps [simp del]

function validate_schema :: "output_schema \<Rightarrow> bytes \<Rightarrow> go_err option"
  and validate_schema_properties :: "(bytes \<times> output_schema) list \<Rightarrow> bytes \<Rightarrow> go_err option"
where
  "validate_schema (OutputSchema ty properties required items enum additional) path =
     (if ty \<noteq> [] \<and> \<not> supportedJSONSchemaType ty
        then Some (new_err (path @ '': unsupported schema type''))
      else case validate_schema_properties properties path of Some e \<Rightarrow> Some e
      | None \<Rightarrow> (case items of None \<Rightarrow> None | Some s \<Rightarrow> validate_schema s (path @ ''.items'')))"
| "validate_schema_properties [] path = None"
| "validate_schema_properties ((name, s) # properties) path =
     (case validate_schema s (propertyPath path name) of Some e \<Rightarrow> Some e
      | None \<Rightarrow> validate_schema_properties properties path)"
  by pat_completeness auto
termination
  by (relation "measure (\<lambda>x. case x of Inl (s, p) \<Rightarrow> size s
        | Inr (ps, p) \<Rightarrow> size_list (size_prod (\<lambda>_. 0) size) ps)") auto

text \<open>The limits of \<open>validateContinuationJSONDocument\<close>.\<close>

definition continuation_limits :: json_limits where
  "continuation_limits = \<lparr>jl_Bytes = 64 * 2 ^ 20, jl_Depth = 128, jl_Values = 524288, jl_Collection = 65536\<rparr>"

definition validateContinuationJSONDocument :: "json_reader \<Rightarrow> bytes \<Rightarrow> go_err option" where
  "validateContinuationJSONDocument jr data =
     (case CheckJSON (jr_tokens jr) data continuation_limits of Some e \<Rightarrow> Some e
      | None \<Rightarrow> (case trim_space data of
            [] \<Rightarrow> Some (new_err ''top-level value must be an object'')
          | c # cs \<Rightarrow> if c \<noteq> CHR ''{'' then Some (new_err ''top-level value must be an object'') else None))"

definition parseOutputPolicySchema :: "json_reader \<Rightarrow> bytes \<Rightarrow> go_err + output_schema" where
  "parseOutputPolicySchema jr schemaRaw =
     (case validateContinuationJSONDocument jr schemaRaw of
        Some e \<Rightarrow> Inl (wrap_err ''output schema is invalid JSON'' e) | None \<Rightarrow>
      case jr_schema jr schemaRaw of
        Inl e \<Rightarrow> Inl (wrap_err ''output schema is invalid JSON'' e)
      | Inr None \<Rightarrow> Inl (new_err ''output schema must be a JSON object'')
      | Inr (Some schema) \<Rightarrow>
          (case (case jr_decode jr schemaRaw of
               Inl e \<Rightarrow> Some (wrap_err ''$: schema must be a JSON object'' e)
             | Inr v \<Rightarrow> reject_keywords v ''$'') of
             Some e \<Rightarrow> Inl e
           | None \<Rightarrow> (case validate_schema schema ''$'' of Some e \<Rightarrow> Inl e | None \<Rightarrow> Inr schema)))"

section \<open>Policies\<close>

definition ValidateOutputPolicy :: "json_reader \<Rightarrow> output_policy \<Rightarrow> go_err option" where
  "ValidateOutputPolicy jr policy =
     (if op_MaxRepairAttempts policy < 0 then Some (new_err ''negative repair attempt limit'')
      else if op_Native policy \<and> op_Schema policy = []
        then Some (new_err ''native output requires a schema'')
      else if (\<not> op_Validate policy \<and> \<not> op_Native policy) \<or> op_Schema policy = [] then None
      else case parseOutputPolicySchema jr (op_Schema policy) of Inl e \<Rightarrow> Some e | Inr _ \<Rightarrow> None)"

text \<open>The response format as its type, name and raw schema.\<close>

definition prepareOutputPolicy :: "json_reader \<Rightarrow> output_policy \<Rightarrow> go_err + (bytes \<times> bytes \<times> bytes) option" where
  "prepareOutputPolicy jr policy = (case ValidateOutputPolicy jr policy of
       Some e \<Rightarrow> Inl e
     | None \<Rightarrow> if \<not> op_Native policy then Inr None
         else Inr (Some (''json_schema'', ''agent_output'', op_Schema policy)))"

section \<open>Values\<close>

definition equalJSONNumber :: "json_reader \<Rightarrow> bytes \<Rightarrow> bytes \<Rightarrow> bool" where
  "equalJSONNumber jr left right = (case jr_rat jr left of None \<Rightarrow> False
     | Some a \<Rightarrow> (case jr_rat jr right of None \<Rightarrow> False | Some b \<Rightarrow> a = b))"

text \<open>A decoded object has each key once; its length is the number of its fields.\<close>

function equalJSONValue :: "json_reader \<Rightarrow> json \<Rightarrow> json \<Rightarrow> bool"
  and equal_elements :: "json_reader \<Rightarrow> json list \<Rightarrow> json list \<Rightarrow> bool"
  and equal_fields :: "json_reader \<Rightarrow> (bytes \<times> json) list \<Rightarrow> (bytes \<times> json) list \<Rightarrow> bool"
where
  "equalJSONValue jr JNull right = (right = JNull)"
| "equalJSONValue jr (JString s) right = (right = JString s)"
| "equalJSONValue jr (JBool b) right = (right = JBool b)"
| "equalJSONValue jr (JNumber n) right = (case right of JNumber m \<Rightarrow> equalJSONNumber jr n m | _ \<Rightarrow> False)"
| "equalJSONValue jr (JArray vs) right = (case right of
     JArray us \<Rightarrow> length vs = length us \<and> equal_elements jr vs us | _ \<Rightarrow> False)"
| "equalJSONValue jr (JObject fs) right = (case right of
     JObject gs \<Rightarrow> length fs = length gs \<and> equal_fields jr fs gs | _ \<Rightarrow> False)"
| "equal_elements jr [] us = True"
| "equal_elements jr (v # vs) us = (case us of [] \<Rightarrow> False
     | u # us' \<Rightarrow> equalJSONValue jr v u \<and> equal_elements jr vs us')"
| "equal_fields jr [] gs = True"
| "equal_fields jr ((k, v) # fs) gs = (case field gs k of None \<Rightarrow> False
     | Some u \<Rightarrow> equalJSONValue jr v u \<and> equal_fields jr fs gs)"
  by pat_completeness auto
termination
  by (relation "measure (\<lambda>x. case x of Inl (j, v, u) \<Rightarrow> size v
        | Inr (Inl (j, vs, us)) \<Rightarrow> size_list size vs
        | Inr (Inr (j, fs, gs)) \<Rightarrow> size_list (size_prod (\<lambda>_. 0) size) fs)") auto

fun valueMatchesEnum :: "json_reader \<Rightarrow> json \<Rightarrow> bytes list \<Rightarrow> go_err + bool" where
  "valueMatchesEnum jr v [] = Inr False"
| "valueMatchesEnum jr v (raw # enum) = (case jr_decode jr raw of
     Inl e \<Rightarrow> Inl (wrap_err ''invalid enum value'' e)
   | Inr expected \<Rightarrow> if equalJSONValue jr v expected then Inr True else valueMatchesEnum jr v enum)"

definition has_type :: "json_reader \<Rightarrow> json \<Rightarrow> bytes \<Rightarrow> bool" where
  "has_type jr v schemaType \<longleftrightarrow> (case v of
       JObject _ \<Rightarrow> schemaType = ''object''
     | JArray _ \<Rightarrow> schemaType = ''array''
     | JString _ \<Rightarrow> schemaType = ''string''
     | JNumber n \<Rightarrow> (schemaType = ''number'' \<and> jr_rat jr n \<noteq> None) \<or>
         (schemaType = ''integer'' \<and> (case jr_rat jr n of Some (p, q) \<Rightarrow> q = 1 | None \<Rightarrow> False))
     | JBool _ \<Rightarrow> schemaType = ''boolean''
     | JNull \<Rightarrow> False)"

definition validateJSONType :: "json_reader \<Rightarrow> json \<Rightarrow> bytes \<Rightarrow> bytes \<Rightarrow> go_err option" where
  "validateJSONType jr v schemaType path =
     (if \<not> supportedJSONSchemaType schemaType then Some (new_err (path @ '': unsupported schema type''))
      else if has_type jr v schemaType then None
      else Some (new_err (path @ '': expected '' @ schemaType)))"

definition validateJSONEnum :: "json_reader \<Rightarrow> json \<Rightarrow> bytes list \<Rightarrow> bytes \<Rightarrow> go_err option" where
  "validateJSONEnum jr v enum path =
     (if enum = [] then None
      else case valueMatchesEnum jr v enum of
        Inl e \<Rightarrow> Some (wrap_err path e)
      | Inr ok \<Rightarrow> if ok then None else Some (new_err (path @ '': value is not in enum'')))"

definition schemaRequiresObject :: "output_schema \<Rightarrow> bool" where
  "schemaRequiresObject s \<longleftrightarrow> sc_Type s = ''object'' \<or> sc_Properties s \<noteq> [] \<or> sc_Required s \<noteq> [] \<or>
     sc_AdditionalProperties s \<noteq> None"

definition validateRequiredProperties :: "(bytes \<times> json) list \<Rightarrow> bytes list \<Rightarrow> bytes \<Rightarrow> go_err option" where
  "validateRequiredProperties obj required path =
     (if list_all (\<lambda>name. field obj name \<noteq> None) required then None
      else Some (new_err (path @ '': missing required property'')))"

definition validateAdditionalProperties ::
  "(bytes \<times> json) list \<Rightarrow> output_schema \<Rightarrow> bytes \<Rightarrow> go_err option" where
  "validateAdditionalProperties obj s path =
     (if sc_AdditionalProperties s \<noteq> Some False then None
      else if list_all (\<lambda>(name, v). name \<in> set (map fst (sc_Properties s))) obj then None
      else Some (new_err (path @ '': additional property is not allowed'')))"

text \<open>\<open>validateJSONValue\<close>; the properties and the elements have their own loops.\<close>

lemma schema_sizes:
  "size_list (size_prod (\<lambda>_. 0) size) (sc_Properties s) < size s"
  "sc_Items s = Some item \<Longrightarrow> size item < size s"
  by (cases s; simp)+

function validateJSONValue :: "json_reader \<Rightarrow> json \<Rightarrow> output_schema \<Rightarrow> bytes \<Rightarrow> go_err option"
  and validateDefinedProperties ::
    "json_reader \<Rightarrow> (bytes \<times> json) list \<Rightarrow> (bytes \<times> output_schema) list \<Rightarrow> bytes \<Rightarrow> go_err option"
  and validateElements :: "json_reader \<Rightarrow> json list \<Rightarrow> output_schema \<Rightarrow> nat \<Rightarrow> bytes \<Rightarrow> go_err option"
where
  "validateJSONValue jr v s path =
     (case (if sc_Type s \<noteq> [] then validateJSONType jr v (sc_Type s) path else None) of Some e \<Rightarrow> Some e
      | None \<Rightarrow>
      case validateJSONEnum jr v (sc_Enum s) path of Some e \<Rightarrow> Some e | None \<Rightarrow>
      case (if \<not> schemaRequiresObject s then None else case v of
              JObject obj \<Rightarrow>
                (case validateRequiredProperties obj (sc_Required s) path of Some e \<Rightarrow> Some e | None \<Rightarrow>
                 case validateDefinedProperties jr obj (sc_Properties s) path of Some e \<Rightarrow> Some e | None \<Rightarrow>
                 validateAdditionalProperties obj s path)
            | _ \<Rightarrow> Some (new_err (path @ '': expected object''))) of Some e \<Rightarrow> Some e
      | None \<Rightarrow>
      if sc_Type s \<noteq> ''array'' \<and> sc_Items s = None then None else case v of
          JArray vs \<Rightarrow> (case sc_Items s of None \<Rightarrow> None | Some item \<Rightarrow> validateElements jr vs item 0 path)
        | _ \<Rightarrow> Some (new_err (path @ '': expected array'')))"
| "validateDefinedProperties jr obj [] path = None"
| "validateDefinedProperties jr obj ((name, s) # properties) path = (case field obj name of
       None \<Rightarrow> validateDefinedProperties jr obj properties path
     | Some v \<Rightarrow> (case validateJSONValue jr v s (propertyPath path name) of Some e \<Rightarrow> Some e
         | None \<Rightarrow> validateDefinedProperties jr obj properties path))"
| "validateElements jr [] item i path = None"
| "validateElements jr (v # vs) item i path =
     (case validateJSONValue jr v item (path @ ''['' @ decimal i @ '']'') of Some e \<Rightarrow> Some e
      | None \<Rightarrow> validateElements jr vs item (Suc i) path)"
  by pat_completeness auto

termination
  by (relation "inv_image (less_than <*lex*> less_than) (\<lambda>x. case x of
        Inl (j, v, s, p) \<Rightarrow> (size s, 0 :: nat)
      | Inr (Inl (j, obj, ps, p)) \<Rightarrow> (size_list (size_prod (\<lambda>_. 0) size) ps, 0)
      | Inr (Inr (j, vs, s, i, p)) \<Rightarrow> (size s, Suc (length vs)))")
     (auto simp: schema_sizes)

declare validateJSONValue.simps [simp del]


definition validateStructuredOutputAgainstSchema ::
  "json_reader \<Rightarrow> output_schema \<Rightarrow> bytes \<Rightarrow> go_err + bytes" where
  "validateStructuredOutputAgainstSchema jr schema s = (case jr_decode jr s of
       Inl e \<Rightarrow> Inl (wrap_err ''agent terminal output is not valid JSON'' e)
     | Inr v \<Rightarrow> (case validateJSONValue jr v schema ''$'' of Some e \<Rightarrow> Inl e | None \<Rightarrow> Inr s))"

definition ValidateJSON :: "json_reader \<Rightarrow> bytes \<Rightarrow> bytes \<Rightarrow> go_err option" where
  "ValidateJSON jr schemaRaw payload =
     (if schemaRaw = [] then None
      else case parseOutputPolicySchema jr schemaRaw of Inl e \<Rightarrow> Some e
      | Inr schema \<Rightarrow> (case validateStructuredOutputAgainstSchema jr schema payload of
            Inl e \<Rightarrow> Some e | Inr _ \<Rightarrow> None))"

section \<open>Conformance\<close>

text \<open>
  What a schema means, without paths, loops and errors, and without the validator's own tests of types,
  enums and equality.  Two decoded values are the same when they are of one kind and numbers have the
  same rational value (\<open>1.0\<close> is \<open>1\<close>), arrays the same elements in order and objects the same members.
\<close>

inductive same_value :: "json_reader \<Rightarrow> json \<Rightarrow> json \<Rightarrow> bool" for jr where
  same_null: "same_value jr JNull JNull"
| same_bool: "same_value jr (JBool b) (JBool b)"
| same_string: "same_value jr (JString t) (JString t)"
| same_number: "jr_rat jr n = Some a \<Longrightarrow> jr_rat jr m = Some a \<Longrightarrow> same_value jr (JNumber n) (JNumber m)"
| same_array: "list_all2 (same_value jr) vs us \<Longrightarrow> same_value jr (JArray vs) (JArray us)"
| same_object: "length fs = length gs \<Longrightarrow>
     \<forall>(k, v) \<in> set fs. \<exists>u. field gs k = Some u \<and> same_value jr v u \<Longrightarrow> same_value jr (JObject fs) (JObject gs)"

inductive_simps same_value_simps [simp]:
  "same_value jr JNull u" "same_value jr (JBool b) u" "same_value jr (JString t) u"
  "same_value jr (JNumber n) u" "same_value jr (JArray vs) u" "same_value jr (JObject fs) u"

definition meets_type :: "json_reader \<Rightarrow> bytes \<Rightarrow> json \<Rightarrow> bool" where
  "meets_type jr ty v \<longleftrightarrow>
     (ty = ''object'' \<and> (\<exists>obj. v = JObject obj)) \<or>
     (ty = ''array'' \<and> (\<exists>vs. v = JArray vs)) \<or>
     (ty = ''string'' \<and> (\<exists>t. v = JString t)) \<or>
     (ty = ''boolean'' \<and> (\<exists>b. v = JBool b)) \<or>
     (ty = ''number'' \<and> (\<exists>n p q. v = JNumber n \<and> jr_rat jr n = Some (p, q))) \<or>
     (ty = ''integer'' \<and> (\<exists>n p. v = JNumber n \<and> jr_rat jr n = Some (p, 1)))"

text \<open>Some entry of the enum is the value, and the entries before it can be decoded.\<close>

definition enumerated :: "json_reader \<Rightarrow> bytes list \<Rightarrow> json \<Rightarrow> bool" where
  "enumerated jr enum v \<longleftrightarrow> (\<exists>i < length enum.
     (\<exists>w. jr_decode jr (enum ! i) = Inr w \<and> same_value jr v w) \<and>
     (\<forall>j < i. \<exists>w. jr_decode jr (enum ! j) = Inr w))"

fun conforms :: "json_reader \<Rightarrow> output_schema \<Rightarrow> json \<Rightarrow> bool" where
  "conforms jr (OutputSchema ty properties required items enum additional) v \<longleftrightarrow>
     (ty \<noteq> [] \<longrightarrow> meets_type jr ty v) \<and> (enum \<noteq> [] \<longrightarrow> enumerated jr enum v) \<and>
     (ty = ''object'' \<or> properties \<noteq> [] \<or> required \<noteq> [] \<or> additional \<noteq> None \<longrightarrow>
        (\<exists>obj. v = JObject obj \<and> (\<forall>name \<in> set required. field obj name \<noteq> None) \<and>
           (\<forall>p \<in> set properties. case field obj (fst p) of None \<Rightarrow> True | Some u \<Rightarrow> conforms jr (snd p) u) \<and>
           (additional = Some False \<longrightarrow> fst ` set obj \<subseteq> fst ` set properties))) \<and>
     (ty = ''array'' \<or> items \<noteq> None \<longrightarrow>
        (\<exists>vs. v = JArray vs \<and> (case items of None \<Rightarrow> True | Some item \<Rightarrow> \<forall>u \<in> set vs. conforms jr item u)))"

lemma equal_values_same:
  "equalJSONValue jr v u \<longleftrightarrow> same_value jr v u"
  "length vs = length us \<Longrightarrow> equal_elements jr vs us \<longleftrightarrow> list_all2 (same_value jr) vs us"
  "equal_fields jr fs gs \<longleftrightarrow> (\<forall>(k, v) \<in> set fs. \<exists>u. field gs k = Some u \<and> same_value jr v u)"
proof (induction jr v u and jr vs us and jr fs gs rule: equalJSONValue_equal_elements_equal_fields.induct)
  case (4 jr n right)
  then show ?case
    by (cases right) (auto simp: equalJSONNumber_def split: option.splits)
next
  case (5 jr vs right)
  then show ?case
    by (cases right) (auto dest: list_all2_lengthD)
next
  case (6 jr fs right)
  then show ?case
    by (cases right) auto
next
  case (8 jr v vs us)
  then show ?case
    by (cases us) auto
next
  case (10 jr k v fs gs)
  then show ?case
    by (cases "field gs k") auto
qed auto

lemma matches_enumerated: "valueMatchesEnum jr v enum = Inr True \<longleftrightarrow> enumerated jr enum v"
proof (induction enum)
  case (Cons raw enum)
  have cons: "enumerated jr (raw # enum) v \<longleftrightarrow> (\<exists>w. jr_decode jr raw = Inr w \<and> (same_value jr v w \<or> enumerated jr enum v))"
    unfolding enumerated_def by (simp add: Ex_less_Suc2 All_less_Suc2) blast
  show ?case
  proof (cases "jr_decode jr raw")
    case (Inr w)
    then show ?thesis
      using Cons by (simp add: cons equal_values_same(1))
  qed (simp add: cons)
qed (simp add: enumerated_def)

lemma validate_type: "validateJSONType jr v ty path = None \<longleftrightarrow> meets_type jr ty v"
  by (cases v) (auto simp: validateJSONType_def meets_type_def has_type_def supportedJSONSchemaType_def split: option.splits)

lemma validate_enum: "validateJSONEnum jr v enum path = None \<longleftrightarrow> enum = [] \<or> enumerated jr enum v"
  by (auto simp: validateJSONEnum_def matches_enumerated [symmetric] split: sum.splits)

lemma validate_required:
  "validateRequiredProperties obj required path = None \<longleftrightarrow> (\<forall>name \<in> set required. field obj name \<noteq> None)"
  by (simp add: validateRequiredProperties_def list_all_iff)

lemma validate_additional:
  "validateAdditionalProperties obj s path = None \<longleftrightarrow>
     (sc_AdditionalProperties s = Some False \<longrightarrow> fst ` set obj \<subseteq> fst ` set (sc_Properties s))"
  by (force simp: validateAdditionalProperties_def list_all_iff)

lemmas validate_parts = validate_type validate_enum validate_required validate_additional

lemma conforms_sel:
  "conforms jr s v \<longleftrightarrow>
     (sc_Type s \<noteq> [] \<longrightarrow> meets_type jr (sc_Type s) v) \<and> (sc_Enum s \<noteq> [] \<longrightarrow> enumerated jr (sc_Enum s) v) \<and>
     (schemaRequiresObject s \<longrightarrow>
        (\<exists>obj. v = JObject obj \<and> (\<forall>name \<in> set (sc_Required s). field obj name \<noteq> None) \<and>
           (\<forall>p \<in> set (sc_Properties s). case field obj (fst p) of None \<Rightarrow> True | Some u \<Rightarrow> conforms jr (snd p) u) \<and>
           (sc_AdditionalProperties s = Some False \<longrightarrow> fst ` set obj \<subseteq> fst ` set (sc_Properties s)))) \<and>
     (sc_Type s = ''array'' \<or> sc_Items s \<noteq> None \<longrightarrow>
        (\<exists>vs. v = JArray vs \<and>
           (case sc_Items s of None \<Rightarrow> True | Some item \<Rightarrow> \<forall>u \<in> set vs. conforms jr item u)))"
  by (cases s) (simp only: conforms.simps output_schema.sel schemaRequiresObject_def)

lemma first_none: "(case a of None \<Rightarrow> b | Some e \<Rightarrow> Some e) = None \<longleftrightarrow> a = None \<and> b = None"
  by (cases a) auto

lemma validate_spec:
  "validateJSONValue jr v s path = None \<longleftrightarrow> conforms jr s v"
  "validateDefinedProperties jr obj ps path = None \<longleftrightarrow>
     (\<forall>p \<in> set ps. case field obj (fst p) of None \<Rightarrow> True | Some u \<Rightarrow> conforms jr (snd p) u)"
  "validateElements jr vs item i path = None \<longleftrightarrow> (\<forall>u \<in> set vs. conforms jr item u)"
proof (induction jr v s path and jr obj ps path and jr vs item i path
    rule: validateJSONValue_validateDefinedProperties_validateElements.induct)
  case (1 jr v s path)
  let ?type = "if sc_Type s \<noteq> [] then validateJSONType jr v (sc_Type s) path else None"
  let ?enum = "validateJSONEnum jr v (sc_Enum s) path"
  have type: "?type = None \<longleftrightarrow> (sc_Type s \<noteq> [] \<longrightarrow> meets_type jr (sc_Type s) v)"
    and enum: "?enum = None \<longleftrightarrow> (sc_Enum s \<noteq> [] \<longrightarrow> enumerated jr (sc_Enum s) v)"
    by (simp_all add: validate_parts) blast
  show ?case
  proof (cases "?type = None \<and> ?enum = None")
    case False
    then have "validateJSONValue jr v s path \<noteq> None"
      unfolding validateJSONValue.simps [of jr v s path] first_none by blast
    moreover have "\<not> conforms jr s v"
      using False unfolding conforms_sel [of jr s v] type enum by blast
    ultimately show ?thesis
      by blast
  next
    case True
    then have t: "?type = None" and e: "?enum = None"
      by simp_all
    note now = conforms_sel [of jr s v] type [unfolded t] enum [unfolded e]
    show ?thesis
    proof (cases v)
      case (JObject obj)
      have ih: "validateDefinedProperties jr obj (sc_Properties s) path = None \<longleftrightarrow>
          (\<forall>p \<in> set (sc_Properties s). case field obj (fst p) of None \<Rightarrow> True | Some u \<Rightarrow> conforms jr (snd p) u)"
        if "schemaRequiresObject s" "validateRequiredProperties obj (sc_Required s) path = None"
        using 1(1) [OF t e _ JObject] that by simp
      have "validateJSONValue jr v s path = None \<longleftrightarrow>
          (schemaRequiresObject s \<longrightarrow> validateRequiredProperties obj (sc_Required s) path = None \<and>
             validateDefinedProperties jr obj (sc_Properties s) path = None \<and>
             validateAdditionalProperties obj s path = None) \<and> sc_Type s \<noteq> ''array'' \<and> sc_Items s = None"
        unfolding validateJSONValue.simps [of jr v s path] t e by (simp add: JObject first_none)
      moreover have "conforms jr s v \<longleftrightarrow> (schemaRequiresObject s \<longrightarrow>
           (\<forall>name \<in> set (sc_Required s). field obj name \<noteq> None) \<and>
           (\<forall>p \<in> set (sc_Properties s). case field obj (fst p) of None \<Rightarrow> True | Some u \<Rightarrow> conforms jr (snd p) u) \<and>
           (sc_AdditionalProperties s = Some False \<longrightarrow> fst ` set obj \<subseteq> fst ` set (sc_Properties s))) \<and>
          sc_Type s \<noteq> ''array'' \<and> sc_Items s = None"
        using now by (simp add: JObject)
      ultimately show ?thesis
        using ih unfolding validate_required validate_additional by blast
    next
      case (JArray vs)
      have ih: "validateElements jr vs item 0 path = None \<longleftrightarrow> (\<forall>u \<in> set vs. conforms jr item u)"
        if "sc_Items s = Some item" "\<not> schemaRequiresObject s" for item
        using 1(2) [OF t e _ _ JArray that(1)] that by simp
      have "validateJSONValue jr v s path = None \<longleftrightarrow> \<not> schemaRequiresObject s \<and>
          (\<forall>item. sc_Items s = Some item \<longrightarrow> validateElements jr vs item 0 path = None)"
        unfolding validateJSONValue.simps [of jr v s path] t e by (cases "sc_Items s") (simp_all add: JArray first_none)
      moreover have "conforms jr s v \<longleftrightarrow> \<not> schemaRequiresObject s \<and>
          (\<forall>item. sc_Items s = Some item \<longrightarrow> (\<forall>u \<in> set vs. conforms jr item u))"
        using now by (cases "sc_Items s") (simp_all add: JArray)
      ultimately show ?thesis
        using ih by (cases "sc_Items s") (simp, blast)
    qed (use now in \<open>unfold validateJSONValue.simps [of jr v s path] t e; simp add: first_none\<close>)+
  qed
qed (force split: option.splits)+

section \<open>Property\<close>

text \<open>
  C18.  A payload is accepted exactly if the schema is empty, or the schema can be used and the
  payload decodes to a value that conforms to it: the value has the declared type (an integer is a
  number whose rational value has denominator one), is one of the enumerated values if there are any,
  and if it is an object it has the required properties, no other ones when they are forbidden, and
  properties that conform, and if it is an array its elements conform.
\<close>

theorem validate_json_accepts:
  "ValidateJSON jr schemaRaw payload = None \<longleftrightarrow>
     schemaRaw = [] \<or>
     (\<exists>schema v. parseOutputPolicySchema jr schemaRaw = Inr schema \<and>
        jr_decode jr payload = Inr v \<and> conforms jr schema v)"
proof -
  have "(case validateStructuredOutputAgainstSchema jr schema payload of Inl e \<Rightarrow> Some e | Inr _ \<Rightarrow> None) = None \<longleftrightarrow>
      (\<exists>v. jr_decode jr payload = Inr v \<and> conforms jr schema v)" for schema
  proof (cases "jr_decode jr payload")
    case (Inr v)
    show ?thesis
      using validate_spec(1) [of jr v schema "''$''"]
      by (cases "validateJSONValue jr v schema ''$''") (auto simp: validateStructuredOutputAgainstSchema_def Inr)
  qed (simp add: validateStructuredOutputAgainstSchema_def)
  then show ?thesis
    by (cases "parseOutputPolicySchema jr schemaRaw") (auto simp: ValidateJSON_def)
qed

end
