(* ===== verification/Loop.thy ===== *)
theory Loop
  imports Frames ToolBatch ContextWindow ExtraBody OutputPolicy ToolText
begin

text \<open>
  The data of the run loop of \<open>src/agent/agent.go\<close>: the input and output of \<open>RunMessages\<close>, the
  engine, and the extensions a caller configures -- hooks (\<open>src/agent/hook.go\<close>), guardrails
  (\<open>src/agent/output_guardrail.go\<close>), compactors, observers, sinks, streams.  An extension is an
  action on the world.  The options the loop only copies into the provider request are one record.
  The lemmas show that a hook chain never panics and what each of its hooks is given.
\<close>

section \<open>Provider requests\<close>

text \<open>A \<open>float64\<close> is only copied; it is represented by its IEEE bits.\<close>

type_synonym float_bits = nat

record response_format =
  rf_Type :: bytes
  rf_Name :: bytes
  rf_Strict :: bool
  rf_Schema :: "json_schema option"
  rf_RawSchema :: bytes

record model_options =
  mo_Temperature :: float_bits
  mo_TopP :: float_bits
  mo_StopSequences :: "bytes list"
  mo_ThinkingBudget :: int
  mo_ResponseFormat :: "response_format option"
  mo_PromptCacheKey :: bytes
  mo_ServiceTier :: bytes
  mo_ParallelToolCalls :: "bool option"
  mo_ContextUsage :: "nat option"
  mo_ExtraBody :: "(bytes \<times> reflected) list option"

record provider_request =
  rq_Model :: bytes
  rq_OperationID :: bytes
  rq_Messages :: "message list"
  rq_MaxTokens :: int
  rq_Tools :: "tool_definition list"
  rq_Metadata :: string_map
  rq_CompleteToolCalls :: bool
  rq_Options :: model_options

text \<open>
  An open stream.  A panic of \<open>Recv\<close> is not represented: under the (default) idle timeout
  \<open>Recv\<close> runs on a goroutine of its own, where a panic ends the process.
\<close>

record stream_identity =
  si_Provider :: bytes
  si_Model :: bytes

record 'x stream =
  sm_Recv :: "'x world \<Rightarrow> 'x world \<times> (go_err + event)"
  sm_Close :: "'x world \<Rightarrow> 'x world"
  sm_Identity :: "('x world \<Rightarrow> stream_identity) option"

section \<open>Hooks\<close>

record 'x hook =
  hk_TransformContext :: "message list \<Rightarrow> ('x world, go_err + message list option) act"
  hk_BeforeModelCall :: "provider_request \<Rightarrow> ('x world, go_err + provider_request) act"
  hk_BeforeToolCall :: "tool_call \<Rightarrow> ('x world, go_err + tool_call) act"
  hk_AfterToolCall :: "tool_result \<Rightarrow> ('x world, go_err + tool_result) act"
  hk_OnEvent :: "event \<Rightarrow> ('x world, go_err + event) act"

text \<open>
  A hook changes its request, call or result through a pointer; on an error the caller drops the
  value.  \<open>OnEvent\<close> has no pointer: the chain ignores the event it returns.
\<close>

type_synonym 'x hook_chain = "'x hook option list"

definition Append :: "'x hook_chain \<Rightarrow> 'x hook option \<Rightarrow> 'x hook_chain" where
  "Append c hook = c @ [hook]"

definition Prepend :: "'x hook_chain \<Rightarrow> 'x hook option \<Rightarrow> 'x hook_chain" where
  "Prepend c hook = (case hook of None \<Rightarrow> c | Some h \<Rightarrow> Some h # c)"

definition guardHook :: "bytes \<Rightarrow> ('s, go_err + 'a) act \<Rightarrow> ('s, go_err + 'a) act" where
  "guardHook stage call = recovering call
     (\<lambda>recovered. give (Inl (wrap_err (stage @ '': '' @ recovered) (sentinel ErrHookPanic))))"

fun run_hooks ::
  "bytes \<Rightarrow> ('x hook \<Rightarrow> 'a \<Rightarrow> ('x world, go_err + 'a) act) \<Rightarrow> 'x hook_chain \<Rightarrow> 'a
     \<Rightarrow> ('x world, go_err + 'a) act" where
  "run_hooks stage callback [] a = give (Inr a)"
| "run_hooks stage callback (None # hooks) a = run_hooks stage callback hooks a"
| "run_hooks stage callback (Some h # hooks) a =
     bnd (guardHook stage (callback h a)) (\<lambda>r. case r of
         Inl e \<Rightarrow> give (Inl e)
       | Inr a' \<Rightarrow> run_hooks stage callback hooks a')"

text \<open>A nil slice returned by \<open>TransformContext\<close> keeps the current one.\<close>

definition transform_context :: "'x hook \<Rightarrow> message list \<Rightarrow> ('x world, go_err + message list) act" where
  "transform_context h current = bnd (hk_TransformContext h current) (\<lambda>r. give (case r of
       Inl e \<Rightarrow> Inl e | Inr None \<Rightarrow> Inr current | Inr (Some next) \<Rightarrow> Inr next))"

definition TransformContext where
  "TransformContext c messages = run_hooks ''TransformContext'' transform_context c messages"

definition BeforeModelCall where
  "BeforeModelCall c request = run_hooks ''BeforeModelCall'' hk_BeforeModelCall c request"

definition BeforeToolCall where
  "BeforeToolCall c call = run_hooks ''BeforeToolCall'' hk_BeforeToolCall c call"

definition AfterToolCall where
  "AfterToolCall c result = run_hooks ''AfterToolCall'' hk_AfterToolCall c result"

definition keep_event :: "'x hook \<Rightarrow> event \<Rightarrow> ('x world, go_err + event) act" where
  "keep_event h e = bnd (hk_OnEvent h e) (\<lambda>r. give (map_sum id (\<lambda>_. e) r))"

definition OnEvent :: "'x hook_chain \<Rightarrow> event \<Rightarrow> ('x world, go_err option) act" where
  "OnEvent c e = bnd (run_hooks ''OnEvent'' keep_event c e)
     (\<lambda>r. give (case r of Inl err \<Rightarrow> Some err | Inr _ \<Rightarrow> None))"

section \<open>Guardrails\<close>

datatype guardrail_action =
    OutputGuardrailActionAllow | OutputGuardrailActionReplace | OutputGuardrailActionRetry
  | OutputGuardrailActionBlock | OutputGuardrailActionOther bytes

record guardrail_input =
  gi_Model :: bytes
  gi_Messages :: "message list"
  gi_Output :: message
  gi_Iteration :: int
  gi_MaxIterations :: int
  gi_UnlimitedIterations :: bool
  gi_Usage :: usage
  gi_StopReason :: stop_reason
  gi_Metadata :: string_map

record retry_policy =
  rp_IncludeRejectedOutput :: bool
  rp_RedactRejectedOutput :: bool
  rp_ReplacementContext :: "message list"

record guardrail_result =
  gr_Action :: guardrail_action
  gr_Replacement :: "message option"
  gr_RetryMessages :: "message list"
  gr_RetryPolicy :: retry_policy
  gr_Reason :: bytes
  gr_Metadata :: string_map

record guardrail_decision =
  gd_GuardrailName :: bytes
  gd_Action :: guardrail_action
  gd_Reason :: bytes
  gd_Iteration :: int
  gd_Metadata :: string_map

record 'x guardrail =
  gl_Name :: bytes
  gl_Check :: "guardrail_input \<Rightarrow> ('x world, go_err + guardrail_result) act"

section \<open>The loop\<close>

type_synonym 'x compactor = "nat \<Rightarrow> message list \<Rightarrow> ('x world, go_err + message list) act"

text \<open>
  The first argument of a compactor is the number of fresh inputs in its context
  (\<open>withFreshContextInputs\<close>).  \<open>li_Control\<close> says that the handle is not nil.
\<close>

record 'x loop_input =
  li_Model :: bytes
  li_Messages :: "message list"
  li_Options :: model_options
  li_ModelMaxTokens :: int
  li_Metadata :: string_map
  li_ToolMode :: mode
  li_MaxIterations :: int
  li_UnlimitedIterations :: bool
  li_OperationTurn :: int
  li_SafeStreamingTools :: "bytes list"
  li_OnEvent :: "(event \<Rightarrow> ('x world, go_err option) act) option"
  li_Sink :: "'x frame_sink option"
  li_Control :: bool
  li_OutputGuardrails :: "'x guardrail option list"
  li_OutputObserver :: "(guardrail_decision \<Rightarrow> ('x world, unit) act) option"
  li_ResponseContinuation :: bytes
  li_MaxTokens :: int
  li_MaxToolCalls :: int
  li_MaxSteps :: int
  li_ModelTimeouts :: timeout_policy
  li_ContextTokenTarget :: int
  li_StepDecider :: "(step list \<Rightarrow> ('x world, go_err + step_decision) act) option"
  li_StepObserver :: "(step \<Rightarrow> ('x world, go_err option) act) option"
  li_Compact :: "'x compactor option"
  li_CompactTo :: "(int \<Rightarrow> 'x compactor) option"
  li_continuationRequest :: request
  li_continuationPolicy :: output_policy
  li_controlBound :: bool
  li_repairCount :: int
  li_activeElapsed :: int
  li_segmentStarted :: "int option"
  li_initialUsage :: usage
  li_initialContextUsage :: usage
  li_initialSteps :: "step list"
  li_initialToolCallsUsed :: int

record loop_output =
  lo_Messages :: "message list"
  lo_Usage :: usage
  lo_StopReason :: stop_reason
  lo_Iterations :: int
  lo_Thinking :: bytes
  lo_Steps :: "step list"
  lo_ToolCallsUsed :: int
  lo_RepairCount :: int
  lo_ActiveElapsed :: int
  lo_NextOperationTurn :: int
  lo_contextUsage :: usage

definition zero_output :: loop_output where
  "zero_output = \<lparr>lo_Messages = [], lo_Usage = zero_usage, lo_StopReason = StopReasonOther [],
     lo_Iterations = 0, lo_Thinking = [], lo_Steps = [], lo_ToolCallsUsed = 0, lo_RepairCount = 0,
     lo_ActiveElapsed = 0, lo_NextOperationTurn = 0, lo_contextUsage = zero_usage\<rparr>"

record 'x output_store =
  os_Tools :: "'x world tool list"
  os_Process :: "tool_result \<Rightarrow> ('x world, go_err + tool_result) act"

record 'x engine =
  en_Stream :: "provider_request \<Rightarrow> ('x world, go_err + 'x stream) act"
  en_ProviderName :: bytes
  en_Tools :: "'x world bus option"
  en_OutputStore :: "'x output_store option"
  en_Hooks :: "'x hook_chain"
  en_ToolInterceptor :: "'x world interceptor option"
  en_Boundaries :: "(continuation \<Rightarrow> ('x world, go_err option) act) option"

text \<open>
  What the loop meets in its surroundings: the other goroutines (\<open>sy_others\<close> runs before the loop
  looks at shared state), clocks, the deadline of the caller's context, timers, schedules, and the
  standard library and third-party code the models take as parameters.
\<close>

datatype wait = WaitResult | WaitContext | WaitTimer

record 'x system =
  sy_others :: "'x world \<Rightarrow> 'x world"
  sy_now :: "'x world \<Rightarrow> int"
  sy_deadline :: "'x world \<Rightarrow> int option"
  sy_request_expired :: "'x world \<Rightarrow> bool"
  sy_wait :: "'x world \<Rightarrow> wait"
  sy_schedule :: "'x world \<Rightarrow> bytes list"
  sy_tool_env :: "'x world tool_env"
  sy_group_run :: "'x world group_run"
  sy_compile :: "tool_definition \<Rightarrow> argument_validation"
  sy_same_driver :: "'x world tool \<Rightarrow> 'x world tool \<Rightarrow> bool"
  sy_marshal :: "message \<Rightarrow> go_err + bytes"
  sy_json_valid :: "bytes \<Rightarrow> bool"
  sy_extra_body :: "(bytes \<times> reflected) list option \<Rightarrow> go_err option"
  sy_json :: json_reader
  sy_unmarshal :: "bytes \<Rightarrow> json option"
  sy_marshal_schema :: "json_schema \<Rightarrow> go_err + bytes"

text \<open>\<open>time.Since(input.segmentStarted)\<close>.\<close>

definition since_start :: "'x system \<Rightarrow> 'x loop_input \<Rightarrow> 'x world \<Rightarrow> int" where
  "since_start sys inp w = sy_now sys w - (case li_segmentStarted inp of None \<Rightarrow> 0 | Some t \<Rightarrow> t)"

definition context_now :: "'x system \<Rightarrow> 'x loop_input \<Rightarrow> ('x world, go_err option) act" where
  "context_now sys inp = bnd (alter (sy_others sys)) (\<lambda>_. peek (ctx_err (li_Control inp)))"

definition control_now ::
  "'x system \<Rightarrow> 'x loop_input \<Rightarrow> 'a \<Rightarrow> (control \<Rightarrow> control \<times> 'a) \<Rightarrow> ('x world, 'a) act" where
  "control_now sys inp absent f =
     bnd (alter (sy_others sys)) (\<lambda>_. on_control (li_Control inp) absent f)"

text \<open>\<open>attachOutputStoreTools\<close>.\<close>

fun attach_tools ::
  "'x system \<Rightarrow> 'x world tool list \<Rightarrow> 'x world bus \<Rightarrow> go_err + 'x world bus" where
  "attach_tools sys [] b = Inr b"
| "attach_tools sys (t # ts) b =
     (case Bus_Driver b (td_Name (tl_Definition t)) of
        Some existing \<Rightarrow>
          if \<not> sy_same_driver sys existing t
            then Inl (new_err ''output artifact tool conflicts with a registered tool'')
          else attach_tools sys ts b
      | None \<Rightarrow> (case Register (sy_compile sys) (Some t) b of
            (b', Some e) \<Rightarrow> Inl (wrap_err ''register output artifact tool'' e)
          | (b', None) \<Rightarrow> attach_tools sys ts b'))"

definition attachOutputStoreTools ::
  "'x system \<Rightarrow> 'x world bus option \<Rightarrow> 'x output_store option
     \<Rightarrow> 'x world bus option \<times> go_err option" where
  "attachOutputStoreTools sys b store = (case store of
       None \<Rightarrow> (b, None)
     | Some st \<Rightarrow>
         (case attach_tools sys (os_Tools st) (case b of None \<Rightarrow> empty_bus | Some b' \<Rightarrow> b') of
            Inl e \<Rightarrow> (None, Some e)
          | Inr b' \<Rightarrow> (Some b', bus_err b')))"

section \<open>Hook chains contain their panics\<close>

definition returns :: "('s, 'a) act \<Rightarrow> bool" where
  "returns m \<longleftrightarrow> (\<forall>s. \<exists>s' a. m s = (s', Returned a))"

lemma returnsE:
  assumes "returns m"
  obtains s' a where "m s = (s', Returned a)"
  using assms unfolding returns_def by blast

lemma returns_give [simp]: "returns (give a)" "returns (\<lambda>s. (s, Returned a))"
  and returns_peek [simp]: "returns (peek f)" and returns_alter [simp]: "returns (alter g)"
  by (simp_all add: returns_def)

lemma returns_bnd [intro]:
  assumes "returns m" "\<And>a. returns (f a)"
  shows "returns (bnd m f)"
  unfolding returns_def
proof
  fix s
  obtain s1 a where "m s = (s1, Returned a)"
    using assms(1) by (rule returnsE)
  moreover obtain s2 b where "f a s1 = (s2, Returned b)"
    using assms(2) by (rule returnsE)
  ultimately show "\<exists>s' b. bnd m f s = (s', Returned b)"
    by (simp add: bnd_def)
qed

lemma returns_recovering [intro]:
  assumes "\<And>b. returns (h b)"
  shows "returns (recovering m h)"
  unfolding returns_def
proof
  fix s
  obtain s1 r where m: "m s = (s1, r)"
    by fastforce
  show "\<exists>s' a. recovering m h s = (s', Returned a)"
  proof (cases r)
    case (Panicked b)
    obtain s2 a where "h b s1 = (s2, Returned a)"
      using assms by (rule returnsE)
    then show ?thesis
      by (simp add: recovering_def m Panicked)
  qed (simp add: recovering_def m)
qed

lemma returns_case [intro]:
  "(\<And>e. returns (f e)) \<Longrightarrow> (\<And>a. returns (g a)) \<Longrightarrow> returns (case x of Inl e \<Rightarrow> f e | Inr a \<Rightarrow> g a)"
  "returns k \<Longrightarrow> (\<And>a. returns (g a)) \<Longrightarrow> returns (case y of None \<Rightarrow> k | Some a \<Rightarrow> g a)"
  by (simp_all split: sum.split option.split)

lemma returns_guardHook [simp]: "returns (guardHook stage call)"
  by (auto simp: guardHook_def)

lemma returns_run_hooks [simp]: "returns (run_hooks stage callback c a)"
  by (induction stage callback c a rule: run_hooks.induct) (auto split: sum.splits)

lemma returns_OnEvent [simp]: "returns (OnEvent c e)"
  by (auto simp: OnEvent_def)

end
