(* ===== verification/Samples.thy ===== *)
theory Samples
  imports Loop
begin

text \<open>
  A small execution the witnesses of the run loop use: the surroundings do nothing, the rest of the
  world is the list of provider events not received yet, and the engine has one tool.
\<close>

type_synonym tape = "event list"

definition tape_tool :: "tape world tool" where
  "tape_tool = \<lparr>tl_Definition = \<lparr>td_Name = ''look'', td_Description = [],
       td_InputSchema = JSONSchema [] [] [] [] None [] None, td_Terminal = False, td_Timeout = 0,
       td_Concurrency = ConcurrencyParallel, td_ConcurrencyGroup = [], td_MaxConcurrency = 0\<rparr>,
     tl_Execute = (\<lambda>call. Ret (zero_result\<lparr>tr_Content := ''seen''\<rparr>, None))\<rparr>"

definition tape_bus :: "tape world bus" where
  "tape_bus = \<lparr>bus_drivers = [(''look'', tape_tool)],
     bus_definitions = [(''look'', tl_Definition tape_tool)],
     bus_validations = [(''look'', \<lparr>av_schema = (\<lambda>_. None), av_err = None\<rparr>)],
     bus_limiters = [], bus_err = None\<rparr>"

definition tape_env :: "tape world tool_env" where
  "tape_env = \<lparr>te_ctx_err = w_parent_err, te_acquire = (\<lambda>k w. (w, None)), te_release = (\<lambda>k w. w),
     te_error_text = (\<lambda>e. []), te_hint = (\<lambda>b n. []), te_fingerprint = (\<lambda>c. Inr (tc_Arguments c))\<rparr>"

definition tape_system :: "tape system" where
  "tape_system = \<lparr>sy_others = (\<lambda>w. w), sy_now = (\<lambda>w. 0), sy_deadline = (\<lambda>w. None), sy_request_expired = (\<lambda>w. False),
     sy_wait = (\<lambda>w. WaitResult), sy_schedule = (\<lambda>w. []), sy_tool_env = tape_env,
     sy_group_run = (\<lambda>calls w. (w, map (\<lambda>c. (zero_result\<lparr>tr_Content := ''seen''\<rparr>, None)) calls)),
     sy_compile = (\<lambda>d. \<lparr>av_schema = (\<lambda>_. None), av_err = None\<rparr>), sy_same_driver = (\<lambda>s t. True),
     sy_marshal = (\<lambda>m. Inr (m_Text m)), sy_json_valid = (\<lambda>a. True), sy_extra_body = (\<lambda>b. None),
     sy_json = \<lparr>jr_tokens = (\<lambda>b. \<lparr>tk_rest = [], tk_end = sentinel IoEOF\<rparr>),
       jr_decode = (\<lambda>b. Inl (sentinel IoEOF)), jr_schema = (\<lambda>b. Inl (sentinel IoEOF)), jr_rat = (\<lambda>b. None)\<rparr>,
     sy_unmarshal = (\<lambda>b. None), sy_marshal_schema = (\<lambda>s. Inr [])\<rparr>"

definition tape_world :: "event list \<Rightarrow> tape world" where
  "tape_world events = \<lparr>w_control = new_control, w_parent_err = None, w_deadline_err = None, w_collector = zero_usage,
     w_summaries = [], w_stream_closed = False, w_ext = events\<rparr>"

definition tape_stream :: "tape stream" where
  "tape_stream = \<lparr>sm_Recv = (\<lambda>w. case w_ext w of [] \<Rightarrow> (w, Inl (sentinel IoEOF))
       | e # es \<Rightarrow> (w\<lparr>w_ext := es\<rparr>, Inr e)),
     sm_Close = (\<lambda>w. w), sm_Identity = None\<rparr>"

definition tape_engine :: "tape engine" where
  "tape_engine = \<lparr>en_Stream = (\<lambda>rq. give (Inr tape_stream)), en_ProviderName = ''tape'',
     en_Tools = Some tape_bus, en_OutputStore = None, en_Hooks = [], en_ToolInterceptor = None,
     en_Boundaries = None\<rparr>"

definition tape_options :: model_options where
  "tape_options = \<lparr>mo_Temperature = 0, mo_TopP = 0, mo_StopSequences = [], mo_ThinkingBudget = 0,
     mo_ResponseFormat = None, mo_PromptCacheKey = [], mo_ServiceTier = [], mo_ParallelToolCalls = None,
     mo_ContextUsage = None, mo_ExtraBody = None\<rparr>"

definition tape_input :: "tape loop_input" where
  "tape_input = \<lparr>li_Model = ''m'', li_Messages = [NewText RoleUser ''go''], li_Options = tape_options,
     li_ModelMaxTokens = 0, li_Metadata = [], li_ToolMode = ModeParallel, li_MaxIterations = 4,
     li_UnlimitedIterations = False, li_OperationTurn = 0, li_SafeStreamingTools = [''look''],
     li_OnEvent = None, li_Sink = None, li_Control = False, li_OutputGuardrails = [],
     li_OutputObserver = None, li_ResponseContinuation = [], li_MaxTokens = 0, li_MaxToolCalls = 3,
     li_MaxSteps = 0,
     li_ModelTimeouts = \<lparr>tp_ConnectTimeout = 0, tp_RequestTimeout = 0, tp_StreamIdleTimeout = 0,
       tp_DisableDefaults = True\<rparr>,
     li_ContextTokenTarget = 0, li_StepDecider = None, li_StepObserver = None, li_Compact = None,
     li_CompactTo = None,
     li_continuationRequest = \<lparr>r_Prompt = ''go'', r_Budget = None, r_SessionBudget = None,
       r_ModelTimeouts = None, r_Content = []\<rparr>,
     li_continuationPolicy = \<lparr>op_Schema = [], op_Validate = False, op_Repair = False,
       op_MaxRepairAttempts = 0, op_Native = False\<rparr>,
     li_controlBound = False, li_repairCount = 0, li_activeElapsed = 0, li_segmentStarted = None, li_initialUsage = zero_usage,
     li_initialContextUsage = zero_usage, li_initialSteps = [], li_initialToolCallsUsed = 0\<rparr>"

lemmas tape_simps = tape_input_def tape_engine_def tape_system_def tape_bus_def tape_tool_def tape_env_def
  tape_stream_def tape_world_def tape_options_def

end
