(* ===== verification/Guardrails.thy ===== *)
theory Guardrails
  imports Loop
begin

text \<open>
  Output guardrails: \<open>src/agent/output_guardrail.go\<close>, and \<open>applyOutputGuardrails\<close>,
  \<open>recordOutputGuardrailDecision\<close>, \<open>appendRetryContext\<close> and \<open>appendFinalAssistant\<close> of
  \<open>src/agent/agent.go\<close>.  The lemmas show that whatever the guardrails answer, the output that
  survives them is terminal assistant output.
\<close>

section \<open>Results\<close>

definition no_retry :: retry_policy where
  "no_retry = \<lparr>rp_IncludeRejectedOutput = False, rp_RedactRejectedOutput = False,
     rp_ReplacementContext = []\<rparr>"

definition zero_guardrail_result :: guardrail_result where
  "zero_guardrail_result = \<lparr>gr_Action = OutputGuardrailActionOther [], gr_Replacement = None,
     gr_RetryMessages = [], gr_RetryPolicy = no_retry, gr_Reason = [], gr_Metadata = []\<rparr>"

definition AllowOutput :: guardrail_result where
  "AllowOutput = zero_guardrail_result\<lparr>gr_Action := OutputGuardrailActionAllow\<rparr>"

definition ReplaceOutput :: "message \<Rightarrow> guardrail_result" where
  "ReplaceOutput output = zero_guardrail_result\<lparr>gr_Action := OutputGuardrailActionReplace,
     gr_Replacement := Some output\<rparr>"

definition RetryOutputWithPolicy :: "retry_policy \<Rightarrow> message list \<Rightarrow> guardrail_result" where
  "RetryOutputWithPolicy policy messages = zero_guardrail_result\<lparr>gr_Action := OutputGuardrailActionRetry,
     gr_RetryMessages := messages, gr_RetryPolicy := policy\<rparr>"

definition RetryOutput :: "message list \<Rightarrow> guardrail_result" where
  "RetryOutput messages = RetryOutputWithPolicy no_retry messages"

definition BlockOutput :: "bytes \<Rightarrow> guardrail_result" where
  "BlockOutput reason = zero_guardrail_result\<lparr>gr_Action := OutputGuardrailActionBlock, gr_Reason := reason\<rparr>"

definition invalid_result :: "bytes \<Rightarrow> go_err" where
  "invalid_result what = wrap_err what (sentinel ErrOutputGuardrailInvalidResult)"

definition normalizeOutputGuardrailResult :: "guardrail_result \<Rightarrow> go_err + guardrail_result" where
  "normalizeOutputGuardrailResult result =
     (let r = (if gr_Action result = OutputGuardrailActionOther []
               then result\<lparr>gr_Action := OutputGuardrailActionAllow\<rparr> else result)
      in case gr_Action r of
           OutputGuardrailActionAllow \<Rightarrow> Inr r
         | OutputGuardrailActionReplace \<Rightarrow>
             (case gr_Replacement r of
                None \<Rightarrow> Inl (invalid_result ''replace requires replacement output'')
              | Some m \<Rightarrow>
                  let replacement = m\<lparr>
                        m_Role := (if m_Role m = RoleOther [] then RoleAssistant else m_Role m),
                        m_Kind := (if m_Kind m = KindOther [] then KindStandard else m_Kind m)\<rparr>
                  in if m_ToolCalls replacement \<noteq> [] \<or> m_ToolResult replacement \<noteq> None
                       then Inl (invalid_result ''replace output must remain terminal assistant output'')
                     else Inr (r\<lparr>gr_Replacement := Some replacement\<rparr>))
         | OutputGuardrailActionRetry \<Rightarrow>
             if gr_RetryMessages r = []
               then Inl (invalid_result ''retry requires at least one retry message'')
             else Inr r
         | OutputGuardrailActionBlock \<Rightarrow> Inr r
         | OutputGuardrailActionOther action \<Rightarrow> Inl (invalid_result (''unknown action '' @ action)))"

section \<open>The chain\<close>

definition merge_metadata :: "string_map \<Rightarrow> string_map \<Rightarrow> string_map" where
  "merge_metadata base extra = fold (\<lambda>(k, v). AList.update k v) extra base"

definition recordOutputGuardrailDecision ::
  "'x loop_input \<Rightarrow> bytes \<Rightarrow> guardrail_result \<Rightarrow> int \<Rightarrow> ('x world, unit) act" where
  "recordOutputGuardrailDecision inp name r iteration = (case li_OutputObserver inp of
       None \<Rightarrow> give ()
     | Some observer \<Rightarrow> observer \<lparr>gd_GuardrailName = name, gd_Action = gr_Action r, gd_Reason = gr_Reason r,
         gd_Iteration = iteration, gd_Metadata = merge_metadata (li_Metadata inp) (gr_Metadata r)\<rparr>)"

definition guardrail_view ::
  "'x loop_input \<Rightarrow> message list \<Rightarrow> message \<Rightarrow> int \<Rightarrow> usage \<Rightarrow> stop_reason \<Rightarrow> guardrail_input" where
  "guardrail_view inp current candidate iteration spent stop = \<lparr>gi_Model = li_Model inp,
     gi_Messages = current, gi_Output = candidate, gi_Iteration = iteration,
     gi_MaxIterations = li_MaxIterations inp, gi_UnlimitedIterations = li_UnlimitedIterations inp,
     gi_Usage = spent, gi_StopReason = stop, gi_Metadata = li_Metadata inp\<rparr>"

type_synonym guardrail_outcome = "go_err + message \<times> message list \<times> retry_policy"

text \<open>The body of the loop for one guardrail: the candidate to go on with, or the outcome.\<close>

definition check_guardrail ::
  "'x loop_input \<Rightarrow> message list \<Rightarrow> int \<Rightarrow> usage \<Rightarrow> stop_reason \<Rightarrow> 'x guardrail \<Rightarrow> message
     \<Rightarrow> ('x world, message + guardrail_outcome) act" where
  "check_guardrail inp current iteration spent stop g candidate =
     bnd (gl_Check g (guardrail_view inp current candidate iteration spent stop)) (\<lambda>x. case x of
         Inl e \<Rightarrow> give (Inr (Inl e))
       | Inr result \<Rightarrow> (case normalizeOutputGuardrailResult result of
           Inl e \<Rightarrow> give (Inr (Inl e))
         | Inr r \<Rightarrow> (case gr_Action r of
             OutputGuardrailActionAllow \<Rightarrow> give (Inl candidate)
           | OutputGuardrailActionReplace \<Rightarrow>
               bnd (recordOutputGuardrailDecision inp (gl_Name g) r iteration)
                 (\<lambda>_. give (Inl (case gr_Replacement r of Some m \<Rightarrow> m | None \<Rightarrow> candidate)))
           | OutputGuardrailActionRetry \<Rightarrow>
               bnd (recordOutputGuardrailDecision inp (gl_Name g) r iteration) (\<lambda>_. give (Inr
                 (if \<not> li_UnlimitedIterations inp \<and> li_MaxIterations inp \<le> iteration
                    then Inl (sentinel ErrOutputGuardrailRetryLimit)
                  else Inr (candidate, gr_RetryMessages r, gr_RetryPolicy r))))
           | OutputGuardrailActionBlock \<Rightarrow>
               bnd (recordOutputGuardrailDecision inp (gl_Name g) r iteration)
                 (\<lambda>_. give (Inr (Inl (sentinel ErrOutputGuardrailTripwire))))
           | OutputGuardrailActionOther _ \<Rightarrow> give (Inl candidate))))"

fun guardrail_loop ::
  "'x loop_input \<Rightarrow> message list \<Rightarrow> int \<Rightarrow> usage \<Rightarrow> stop_reason \<Rightarrow> 'x guardrail option list \<Rightarrow> message
     \<Rightarrow> ('x world, guardrail_outcome) act" where
  "guardrail_loop inp current iteration spent stop [] candidate = give (Inr (candidate, [], no_retry))"
| "guardrail_loop inp current iteration spent stop (None # gs) candidate =
     guardrail_loop inp current iteration spent stop gs candidate"
| "guardrail_loop inp current iteration spent stop (Some g # gs) candidate =
     bnd (check_guardrail inp current iteration spent stop g candidate) (\<lambda>x. case x of
         Inl candidate' \<Rightarrow> guardrail_loop inp current iteration spent stop gs candidate'
       | Inr outcome \<Rightarrow> give outcome)"

definition applyOutputGuardrails ::
  "'x loop_input \<Rightarrow> message list \<Rightarrow> message \<Rightarrow> int \<Rightarrow> usage \<Rightarrow> stop_reason
     \<Rightarrow> ('x world, guardrail_outcome) act" where
  "applyOutputGuardrails inp current assistant iteration spent stop =
     (if li_OutputGuardrails inp = [] then give (Inr (assistant, [], no_retry))
      else guardrail_loop inp current iteration spent stop (li_OutputGuardrails inp) assistant)"

section \<open>Histories\<close>

definition appendRetryContext ::
  "message list \<Rightarrow> message \<Rightarrow> message list \<Rightarrow> retry_policy \<Rightarrow> message list" where
  "appendRetryContext current assistant retryMessages policy =
     current @
     (if rp_IncludeRejectedOutput policy \<and> (m_Text assistant \<noteq> [] \<or> m_Thinking assistant \<noteq> [])
      then [assistant] else []) @
     rp_ReplacementContext policy @ retryMessages"

definition appendFinalAssistant :: "message list \<Rightarrow> message \<Rightarrow> message list" where
  "appendFinalAssistant current final =
     (if m_Text final \<noteq> [] \<or> m_Thinking final \<noteq> [] then current @ [final] else current)"

section \<open>What survives the guardrails\<close>

definition terminal_output :: "message \<Rightarrow> bool" where
  "terminal_output m \<longleftrightarrow> m_ToolCalls m = [] \<and> m_ToolResult m = None"

definition guardrail_ok :: "guardrail_outcome \<Rightarrow> bool" where
  "guardrail_ok r \<longleftrightarrow> (case r of Inl e \<Rightarrow> True | Inr (m, ms, p) \<Rightarrow> terminal_output m)"

lemma normalized_replacement:
  assumes "normalizeOutputGuardrailResult result = Inr r" "gr_Action r = OutputGuardrailActionReplace"
  shows "\<exists>m. gr_Replacement r = Some m \<and> terminal_output m"
  using assms unfolding normalizeOutputGuardrailResult_def Let_def
  by (auto simp: terminal_output_def split: guardrail_action.splits option.splits if_splits)

lemma check_guardrail_ok:
  assumes "terminal_output candidate"
  shows "yields (check_guardrail inp current iteration spent stop g candidate)
    (\<lambda>x. case x of Inl c \<Rightarrow> terminal_output c | Inr r \<Rightarrow> guardrail_ok r)"
  unfolding check_guardrail_def
proof (rule yields_after)
  fix x
  show "yields (case x of Inl e \<Rightarrow> give (Inr (Inl e)) | Inr result \<Rightarrow> (case normalizeOutputGuardrailResult result of
           Inl e \<Rightarrow> give (Inr (Inl e))
         | Inr r \<Rightarrow> (case gr_Action r of
             OutputGuardrailActionAllow \<Rightarrow> give (Inl candidate)
           | OutputGuardrailActionReplace \<Rightarrow>
               bnd (recordOutputGuardrailDecision inp (gl_Name g) r iteration)
                 (\<lambda>_. give (Inl (case gr_Replacement r of Some m \<Rightarrow> m | None \<Rightarrow> candidate)))
           | OutputGuardrailActionRetry \<Rightarrow>
               bnd (recordOutputGuardrailDecision inp (gl_Name g) r iteration) (\<lambda>_. give (Inr
                 (if \<not> li_UnlimitedIterations inp \<and> li_MaxIterations inp \<le> iteration
                    then Inl (sentinel ErrOutputGuardrailRetryLimit)
                  else Inr (candidate, gr_RetryMessages r, gr_RetryPolicy r))))
           | OutputGuardrailActionBlock \<Rightarrow>
               bnd (recordOutputGuardrailDecision inp (gl_Name g) r iteration)
                 (\<lambda>_. give (Inr (Inl (sentinel ErrOutputGuardrailTripwire))))
           | OutputGuardrailActionOther _ \<Rightarrow> give (Inl candidate))))
        (\<lambda>x. case x of Inl c \<Rightarrow> terminal_output c | Inr r \<Rightarrow> guardrail_ok r)"
    using assms
    by (auto simp: guardrail_ok_def dest: normalized_replacement intro!: keeps_give yields_after
        split: sum.split guardrail_action.split)
qed

lemma guardrail_loop_ok:
  "terminal_output candidate \<Longrightarrow>
     yields (guardrail_loop inp current iteration spent stop gs candidate) guardrail_ok"
proof (induction inp current iteration spent stop gs candidate rule: guardrail_loop.induct)
  case (3 inp current iteration spent stop g gs candidate)
  show ?case
    by (simp, rule keeps_bnd [OF check_guardrail_ok [OF 3(2)]])
       (auto intro: keeps_pure 3(1) keeps_give split: sum.split)
qed (auto simp: guardrail_ok_def intro: keeps_give)

lemma applyOutputGuardrails_ok:
  "terminal_output assistant \<Longrightarrow>
     yields (applyOutputGuardrails inp current assistant iteration spent stop) guardrail_ok"
  by (cases "li_OutputGuardrails inp = []")
     (simp_all only: applyOutputGuardrails_def if_True if_False, auto simp: guardrail_ok_def intro: keeps_give,
      rule guardrail_loop_ok [unfolded guardrail_ok_def])

end
