(* ===== verification/Compaction.thy ===== *)
theory Compaction
  imports Samples
begin

text \<open>
  Budgets and the preparation of the history before a model turn: \<open>budgetRemaining\<close>,
  \<open>preDispatchBudgetBlock\<close>, \<open>maybeCompactHistory\<close>, \<open>compactAfterContextOverflow\<close> and what they
  call in \<open>src/agent/agent.go\<close>, and \<open>prepareIterationContext\<close> of \<open>src/agent/runtime_helpers.go\<close>.
  A prepared history is complete and keeps the explicit cache prefix, whatever the compactor
  returned; the locale states this contract of a preparation, and every path of the code is an
  instance of it.
\<close>

section \<open>Budgets\<close>

datatype dimension = MaxTokensDimension | MaxToolCallsDimension | MaxStepsDimension

fun dimension_name :: "dimension \<Rightarrow> bytes" where
  "dimension_name MaxTokensDimension = ''max tokens''"
| "dimension_name MaxToolCallsDimension = ''max tool calls''"
| "dimension_name MaxStepsDimension = ''max steps''"

text \<open>The first exhausted dimension, or the input with what remains of each budget.\<close>

definition budgetRemaining ::
  "'x loop_input \<Rightarrow> usage \<Rightarrow> int \<Rightarrow> int \<Rightarrow> 'x loop_input \<times> dimension option" where
  "budgetRemaining inp spent toolCallsUsed steps =
     (if 0 < li_MaxTokens inp \<and> li_MaxTokens inp - u_TotalTokens spent \<le> 0
        then (inp, Some MaxTokensDimension)
      else if 0 < li_MaxToolCalls inp \<and> li_MaxToolCalls inp - toolCallsUsed \<le> 0
        then (inp, Some MaxToolCallsDimension)
      else if 0 < li_MaxSteps inp \<and> li_MaxSteps inp - steps \<le> 0
        then (inp, Some MaxStepsDimension)
      else (inp\<lparr>
          li_MaxTokens := (if 0 < li_MaxTokens inp then li_MaxTokens inp - u_TotalTokens spent else li_MaxTokens inp),
          li_MaxToolCalls := (if 0 < li_MaxToolCalls inp then li_MaxToolCalls inp - toolCallsUsed else li_MaxToolCalls inp),
          li_MaxSteps := (if 0 < li_MaxSteps inp then li_MaxSteps inp - steps else li_MaxSteps inp)\<rparr>, None))"

definition dispatchExceedsToolBudget :: "'x loop_input \<Rightarrow> int \<Rightarrow> int \<Rightarrow> bool" where
  "dispatchExceedsToolBudget inp toolCallsUsed batch \<longleftrightarrow>
     0 < li_MaxToolCalls inp \<and> li_MaxToolCalls inp < toolCallsUsed + batch"

definition preDispatchBudgetBlock ::
  "'x loop_input \<Rightarrow> usage \<Rightarrow> int \<Rightarrow> int \<Rightarrow> int \<Rightarrow> dimension option" where
  "preDispatchBudgetBlock inp spent toolCallsUsed steps batch =
     (case snd (budgetRemaining inp spent toolCallsUsed steps) of
        Some d \<Rightarrow> Some d
      | None \<Rightarrow> if dispatchExceedsToolBudget inp toolCallsUsed batch then Some MaxToolCallsDimension else None)"

text \<open>Partial outputs.\<close>

definition partial_output ::
  "stop_reason \<Rightarrow> message list \<Rightarrow> usage \<Rightarrow> step list \<Rightarrow> int \<Rightarrow> int \<Rightarrow> loop_output" where
  "partial_output stop current spent steps iterations toolCallsUsed = zero_output\<lparr>
     lo_Messages := current, lo_Usage := spent, lo_StopReason := stop, lo_Iterations := iterations,
     lo_Steps := steps, lo_ToolCallsUsed := toolCallsUsed\<rparr>"

definition loopErrorOutput ::
  "message list \<Rightarrow> usage \<Rightarrow> step list \<Rightarrow> int \<Rightarrow> int \<Rightarrow> loop_output" where
  "loopErrorOutput current spent steps iterations toolCallsUsed =
     partial_output StopReasonError current spent steps iterations toolCallsUsed"

definition budget_error :: "bytes \<Rightarrow> go_err" where
  "budget_error what = wrap_err what (sentinel ErrBudgetExhausted)"

definition budgetAbort ::
  "message list \<Rightarrow> usage \<Rightarrow> step list \<Rightarrow> int \<Rightarrow> int \<Rightarrow> dimension \<Rightarrow> loop_output \<times> go_err option" where
  "budgetAbort current spent steps iterations toolCallsUsed d =
     (partial_output StopReasonAborted current spent steps iterations toolCallsUsed,
      Some (budget_error (dimension_name d)))"

section \<open>Compaction\<close>

definition compactionBudgetHeadroomDivisor :: int where "compactionBudgetHeadroomDivisor = 5"

definition validateCachePrefixPreserved :: "message list \<Rightarrow> message list \<Rightarrow> go_err option" where
  "validateCachePrefixPreserved before after = (case CachePrefixBoundary before of
       Inl e \<Rightarrow> Some (incomplete_turn e)
     | Inr boundary \<Rightarrow>
         if boundary = 0 then None
         else if length after < boundary
           then Some (new_err ''compaction removed an explicit cache prefix'')
         else if list_all (\<lambda>i. before ! i = after ! i) [0..<boundary] then None
         else Some (new_err ''compaction changed explicit cache prefix''))"

definition cacheSafeCompactionInput :: "message list \<Rightarrow> go_err + message list" where
  "cacheSafeCompactionInput messages = (case CachePrefixBoundary messages of
       Inl e \<Rightarrow> Inl (incomplete_turn e)
     | Inr boundary \<Rightarrow> Inr messages)"

text \<open>The checks both callers make on what a compactor returned; \<open>what\<close> is their error text.\<close>

definition checked_compaction ::
  "bytes \<Rightarrow> message list \<Rightarrow> go_err + message list \<Rightarrow> go_err + message list" where
  "checked_compaction what before x = (case x of
       Inl e \<Rightarrow> Inl (wrap_err what e)
     | Inr compacted \<Rightarrow>
         (case ValidateCompleteTurns compacted of
            Some e \<Rightarrow> Inl (wrap_err what (incomplete_turn e))
          | None \<Rightarrow> (case validateCachePrefixPreserved before compacted of
                Some e \<Rightarrow> Inl (wrap_err what e)
              | None \<Rightarrow> Inr compacted)))"

text \<open>The compactor \<open>maybeCompactHistory\<close> invokes, if any.\<close>

definition compaction_due :: "'x loop_input \<Rightarrow> usage \<Rightarrow> 'x compactor option" where
  "compaction_due inp spent =
     (if 0 < li_ContextTokenTarget inp
        then (case li_CompactTo inp of
            Some c \<Rightarrow> Some (c (li_ContextTokenTarget inp))
          | None \<Rightarrow> li_Compact inp)
      else case li_Compact inp of None \<Rightarrow> None | Some c \<Rightarrow>
        if li_MaxTokens inp \<le> 0 then None
        else if li_MaxTokens inp div compactionBudgetHeadroomDivisor < li_MaxTokens inp - u_TotalTokens spent
          then None
        else Some c)"

definition maybeCompactHistory ::
  "'x loop_input \<Rightarrow> nat \<Rightarrow> message list \<Rightarrow> usage \<Rightarrow> ('x world, go_err + message list) act" where
  "maybeCompactHistory inp fresh current spent = (case compaction_due inp spent of
       None \<Rightarrow> give (Inr current)
     | Some compact \<Rightarrow>
         (case cacheSafeCompactionInput current of
            Inl e \<Rightarrow> give (Inl (wrap_err ''compact history'' e))
          | Inr history \<Rightarrow> bnd (compact fresh history)
              (\<lambda>x. give (checked_compaction ''compact history'' current x))))"

text \<open>After a context overflow: three quarters of the target, or the built-in trimming.\<close>

definition overflow_target :: "'x loop_input \<Rightarrow> int" where
  "overflow_target inp = max 1 (wrap64 (li_ContextTokenTarget inp * 3) div 4)"

definition overflow_compactor ::
  "'x system \<Rightarrow> ('x world \<Rightarrow> go_err option) \<Rightarrow> 'x loop_input \<Rightarrow> 'x compactor" where
  "overflow_compactor sys ctx inp =
     (if li_CompactTo inp \<noteq> None \<and> 1 < li_ContextTokenTarget inp
        then the (li_CompactTo inp) (overflow_target inp)
      else case li_Compact inp of
        Some c \<Rightarrow> c
      | None \<Rightarrow> (\<lambda>fresh history. peek (\<lambda>w.
          fitContext (sy_marshal sys) (ctx w) (ctx w) history (overflow_target inp))))"

definition compactAfterContextOverflow ::
  "'x system \<Rightarrow> ('x world \<Rightarrow> go_err option) \<Rightarrow> 'x loop_input \<Rightarrow> nat \<Rightarrow> message list
     \<Rightarrow> ('x world, go_err + message list \<times> bool) act" where
  "compactAfterContextOverflow sys ctx inp fresh history =
     (if li_ContextTokenTarget inp \<le> 1 \<and> li_Compact inp = None then give (Inr (history, False))
      else let what = ''compact context after provider overflow'' in
        case cacheSafeCompactionInput history of
          Inl e \<Rightarrow> give (Inl (wrap_err what e))
        | Inr safe \<Rightarrow> bnd (overflow_compactor sys ctx inp fresh safe)
            (\<lambda>x. give (case checked_compaction what history x of
                Inl e \<Rightarrow> Inl e
              | Inr compacted \<Rightarrow> Inr (compacted, history \<noteq> compacted))))"

section \<open>Before a turn\<close>

text \<open>The history to go on with, or how the loop ends.\<close>

type_synonym preamble = "loop_output \<times> go_err option + message list"

definition loopTurnPreamble ::
  "'x loop_input \<Rightarrow> nat \<Rightarrow> message list \<Rightarrow> usage \<Rightarrow> step list \<Rightarrow> int \<Rightarrow> int \<Rightarrow> ('x world, preamble) act" where
  "loopTurnPreamble inp fresh current spent steps iteration toolCallsUsed =
     (case snd (budgetRemaining inp spent toolCallsUsed (int (length steps))) of
        Some d \<Rightarrow> give (Inl (budgetAbort current spent steps iteration toolCallsUsed d))
      | None \<Rightarrow> bnd (maybeCompactHistory inp fresh current spent) (\<lambda>x. give (case x of
            Inl e \<Rightarrow> Inl (loopErrorOutput current spent steps iteration toolCallsUsed, Some e)
          | Inr compacted \<Rightarrow> Inr compacted)))"

definition prepareIterationContext ::
  "'x loop_input \<Rightarrow> nat \<Rightarrow> message list \<Rightarrow> usage \<Rightarrow> step list \<Rightarrow> int \<Rightarrow> int \<Rightarrow> ('x world, preamble) act" where
  "prepareIterationContext inp fresh current spent steps iteration toolCallsUsed =
     (if 0 < iteration then loopTurnPreamble inp fresh current spent steps iteration toolCallsUsed
      else if li_ContextTokenTarget inp \<le> 0 then give (Inr current)
      else bnd (maybeCompactHistory inp fresh current spent) (\<lambda>x. give (case x of
          Inl e \<Rightarrow> Inl (loopErrorOutput current spent steps iteration toolCallsUsed, Some e)
        | Inr prepared \<Rightarrow> Inr prepared)))"

section \<open>The contract of a preparation\<close>

definition keeps_prefix :: "message list \<Rightarrow> message list \<Rightarrow> bool" where
  "keeps_prefix before after \<longleftrightarrow>
     (case CachePrefixBoundary before of Inl _ \<Rightarrow> False | Inr n \<Rightarrow> take n after = take n before)"

text \<open>A preparation leaves the history alone or returns a complete one with the same prefix.\<close>

locale preparation =
  fixes prepare :: "message list \<Rightarrow> ('s, go_err + message list) act"
  assumes prepared: "prepare h s = (s', Returned (Inr h')) \<Longrightarrow>
    h' = h \<or> ValidateCompleteTurns h' = None \<and> keeps_prefix h h'"
begin

lemma prepared_complete:
  "ValidateCompleteTurns h = None \<Longrightarrow> prepare h s = (s', Returned (Inr h')) \<Longrightarrow> ValidateCompleteTurns h' = None"
  using prepared by blast

lemma prepared_prefix:
  "CachePrefixBoundary h = Inr n \<Longrightarrow> prepare h s = (s', Returned (Inr h')) \<Longrightarrow> take n h' = take n h"
  using prepared by (fastforce simp: keeps_prefix_def)

lemma prepared_keeps: "keeps (\<lambda>s. P) (prepare h) (\<lambda>r s. case r of Inl e \<Rightarrow> True
    | Inr h' \<Rightarrow> P \<and> (h' = h \<or> ValidateCompleteTurns h' = None \<and> keeps_prefix h h')) (\<lambda>_. True)"
  using prepared by (intro keepsI) (auto split: sum.splits)

end

lemma validateCachePrefixPreserved_keeps:
  assumes "validateCachePrefixPreserved before after = None"
  shows "keeps_prefix before after"
proof -
  obtain n where n: "CachePrefixBoundary before = Inr n"
    and p: "n = 0 \<or> n \<le> length after \<and> list_all (\<lambda>i. before ! i = after ! i) [0..<n]"
    using assms by (auto simp: validateCachePrefixPreserved_def split: sum.splits if_splits)
  have "n \<le> length before"
    using CachePrefixBoundary_cut(2) [OF n] by (simp add: cut_def)
  with p have "take n after = take n before"
    by (auto intro!: nth_equalityI simp: list_all_iff)
  then show ?thesis
    by (simp add: keeps_prefix_def n)
qed

lemma checked_compaction_sound:
  "checked_compaction what before x = Inr after \<Longrightarrow>
     ValidateCompleteTurns after = None \<and> keeps_prefix before after"
  by (auto simp: checked_compaction_def validateCachePrefixPreserved_keeps split: sum.splits option.splits)

lemma mapped_case:
  "(case y of Inl e \<Rightarrow> Inl (f e) | Inr a \<Rightarrow> Inr (g a)) = Inr b \<longleftrightarrow> (\<exists>a. y = Inr a \<and> b = g a)"
  by (cases y) auto

lemma bnd_mapped:
  "bnd m (\<lambda>x. give (case x of Inl e \<Rightarrow> Inl (f e) | Inr a \<Rightarrow> Inr (g a))) s = (s', Returned (Inr b)) \<longleftrightarrow>
     (\<exists>a. m s = (s', Returned (Inr a)) \<and> b = g a)"
  by (auto simp: bnd_returned mapped_case)

lemma maybeCompactHistory_sound:
  assumes "maybeCompactHistory inp fresh h spent s = (s', Returned (Inr h'))"
  shows "h' = h \<or> ValidateCompleteTurns h' = None \<and> keeps_prefix h h'"
  using assms
  by (auto simp: maybeCompactHistory_def bnd_returned split: option.splits sum.splits
      dest!: checked_compaction_sound)

interpretation before_turn: preparation "\<lambda>h. maybeCompactHistory inp fresh h spent"
  by unfold_locales (rule maybeCompactHistory_sound)

lemma prepareIterationContext_sound:
  assumes "prepareIterationContext inp fresh h spent steps iteration used s = (s', Returned (Inr h'))"
  shows "h' = h \<or> ValidateCompleteTurns h' = None \<and> keeps_prefix h h'"
proof -
  have "h' = h \<or> maybeCompactHistory inp fresh h spent s = (s', Returned (Inr h'))"
    using assms
    by (auto simp: prepareIterationContext_def loopTurnPreamble_def bnd_mapped split: option.splits if_splits)
  then show ?thesis
    using before_turn.prepared by blast
qed

lemma compactAfterContextOverflow_sound:
  assumes "compactAfterContextOverflow sys ctx inp fresh h s = (s', Returned (Inr (h', changed)))"
  shows "(h' = h \<or> ValidateCompleteTurns h' = None \<and> keeps_prefix h h') \<and> (changed \<longleftrightarrow> h' \<noteq> h)"
proof -
  consider "h' = h" "\<not> changed"
    | x compacted where "checked_compaction ''compact context after provider overflow'' h x = Inr compacted"
        "h' = compacted" "changed \<longleftrightarrow> h \<noteq> compacted"
    using assms
    by (cases "cacheSafeCompactionInput h")
       (auto simp: compactAfterContextOverflow_def Let_def bnd_returned mapped_case split: if_splits)
  then show ?thesis
    by cases (auto dest: checked_compaction_sound)
qed

lemma map_sum_InrE: "map_sum f g x = Inr b \<Longrightarrow> (\<And>a. x = Inr a \<Longrightarrow> b = g a \<Longrightarrow> P) \<Longrightarrow> P"
  by (cases x) auto

interpretation after_overflow: preparation
  "\<lambda>h. bnd (compactAfterContextOverflow sys ctx inp fresh h) (\<lambda>x. give (map_sum id fst x))"
proof unfold_locales
  fix h h' s s'
  assume "bnd (compactAfterContextOverflow sys ctx inp fresh h) (\<lambda>x. give (map_sum id fst x)) s = (s', Returned (Inr h'))"
  then obtain changed where "compactAfterContextOverflow sys ctx inp fresh h s = (s', Returned (Inr (h', changed)))"
    by (auto simp: bnd_returned elim!: map_sum_InrE)
  then show "h' = h \<or> ValidateCompleteTurns h' = None \<and> keeps_prefix h h'"
    using compactAfterContextOverflow_sound by blast
qed

section \<open>Preparations in sequence\<close>

text \<open>A history that keeps an explicit prefix has a boundary no smaller than it.\<close>

lemma keeps_prefix_boundary:
  assumes h: "CachePrefixBoundary h = Inr n" and h1: "turns h1" "take n h1 = take n h"
  shows "\<exists>n1 \<ge> n. CachePrefixBoundary h1 = Inr n1"
proof -
  note c = CachePrefixBoundary_cut [OF h]
  define xs ys where "xs = take n h" "ys = drop n h1"
  have h1_eq: "h1 = xs @ ys" and xs: "turns xs" "length xs = n"
    using h1(2) c(2) append_take_drop_id [of n h1] by (auto simp: xs_ys_def cut_def min_def)
  have ys: "turns ys"
    using turns_drop_group [OF xs(1)] h1(1) h1_eq by simp
  have valid: "ValidateCompleteTurns h1 = None"
    using h1(1) by (simp add: ValidateCompleteTurns_turns)
  show ?thesis
  proof (cases "list_all (\<lambda>m. \<not> m_CacheBoundary m) ys")
    case True
    then have "CachePrefixBoundary h1 = Inr n"
      using CachePrefixBoundary_same_prefix [OF h ys] unfolding xs_ys_def(1) [symmetric] h1_eq [symmetric] by blast
    then show ?thesis
      by blast
  next
    case False
    then obtain k where k: "k < length ys" "m_CacheBoundary (ys ! k)"
      by (auto simp: list_all_length)
    then have "n + k < last_marker 0 0 h1"
      using last_marker_covers [of 0 0 "n + k" h1] xs(2) by (simp add: h1_eq nth_append)
    moreover have "last_marker 0 0 h1 \<le> cache_loop (last_marker 0 0 h1) 0 h1"
      using cache_loop_cut [OF h1(1), of 0] last_marker_ge [of 0 0 h1] by simp
    ultimately show ?thesis
      using valid by (auto simp: CachePrefixBoundary_def Let_def)
  qed
qed

lemma preparation_step:
  assumes "CachePrefixBoundary h = Inr n" "h' = h \<or> ValidateCompleteTurns h' = None \<and> keeps_prefix h h'"
  shows "ValidateCompleteTurns h' = None" "take n h' = take n h" "\<exists>n' \<ge> n. CachePrefixBoundary h' = Inr n'"
proof -
  show c: "ValidateCompleteTurns h' = None" and p: "take n h' = take n h"
    using assms CachePrefixBoundary_cut(1) [OF assms(1)]
    by (auto simp: ValidateCompleteTurns_turns keeps_prefix_def)
  show "\<exists>n' \<ge> n. CachePrefixBoundary h' = Inr n'"
    using keeps_prefix_boundary [OF assms(1) _ p] c by (simp add: ValidateCompleteTurns_turns)
qed

section \<open>Properties\<close>

text \<open>
  C19.  The history a model request is built from: whatever the caller's compactor returns, the
  history prepared before a turn and the one compacted again after the provider rejected it are
  complete, and both keep the explicit cache prefix of the history the loop had.
\<close>

theorem prepared_history_is_sound:
  assumes "CachePrefixBoundary h = Inr n"
    and "prepareIterationContext inp fresh h spent steps iteration used s = (s1, Returned (Inr h1))"
    and "compactAfterContextOverflow sys ctx inp fresh h1 s2 = (s3, Returned (Inr (h2, changed)))"
  shows "ValidateCompleteTurns h1 = None \<and> take n h1 = take n h \<and>
    ValidateCompleteTurns h2 = None \<and> take n h2 = take n h \<and> (changed = (h2 \<noteq> h1))"
proof -
  note first = preparation_step [OF assms(1) prepareIterationContext_sound [OF assms(2)]]
  obtain n1 where n1: "n \<le> n1" "CachePrefixBoundary h1 = Inr n1"
    using first(3) by blast
  have second: "h2 = h1 \<or> ValidateCompleteTurns h2 = None \<and> keeps_prefix h1 h2" "changed = (h2 \<noteq> h1)"
    using compactAfterContextOverflow_sound [OF assms(3)] by auto
  have "take n h2 = take n h1"
    using preparation_step(2) [OF n1(2) second(1)] n1(1) by (metis min.absorb1 take_take)
  then show ?thesis
    using first preparation_step(1) [OF n1(2) second(1)] second(2) by simp
qed

text \<open>A compactor that drops the second message, then one that changes nothing.\<close>

definition dropping_input :: "tape loop_input" where
  "dropping_input = tape_input\<lparr>li_ContextTokenTarget := 8,
     li_CompactTo := Some (\<lambda>target fresh h. give (Inr (take 1 h @ drop 2 h)))\<rparr>"

definition marked_history :: "message list" where
  "marked_history = [(NewText RoleUser ''a'')\<lparr>m_CacheBoundary := True\<rparr>, NewText RoleUser ''b'', NewText RoleUser ''c'']"

definition kept_history :: "message list" where
  "kept_history = [(NewText RoleUser ''a'')\<lparr>m_CacheBoundary := True\<rparr>, NewText RoleUser ''c'']"

lemma plain_texts: "list_all plain_message ms \<Longrightarrow> turns ms"
  by (induction ms) (simp_all add: turns_Nil turns_plain)

lemma dropping_valid:
  "ValidateCompleteTurns marked_history = None" "ValidateCompleteTurns kept_history = None"
  "ValidateCompleteTurns (take 1 kept_history) = None"
  by (simp_all add: ValidateCompleteTurns_turns plain_texts marked_history_def kept_history_def plain_message_def
      NewText_def zero_message_def)

lemma dropping_kept: "take 1 marked_history @ drop 2 marked_history = kept_history"
  by (simp add: marked_history_def kept_history_def)

lemma dropping_boundaries:
  "CachePrefixBoundary marked_history = Inr 1" "CachePrefixBoundary kept_history = Inr 1"
  "CachePrefixBoundary (take 1 kept_history) = Inr 1"
  using dropping_valid
  by (simp_all add: CachePrefixBoundary_def)
    (simp_all add: marked_history_def kept_history_def NewText_def zero_message_def cache_loop.simps)

lemma dropping_preserved:
  "validateCachePrefixPreserved marked_history kept_history = None"
  "validateCachePrefixPreserved kept_history (take 1 kept_history) = None"
  using dropping_boundaries by (simp_all add: validateCachePrefixPreserved_def marked_history_def kept_history_def)

lemma dropping_fields:
  "li_ContextTokenTarget dropping_input = 8" "li_MaxTokens dropping_input = 0" "li_MaxSteps dropping_input = 0"
  "li_MaxToolCalls dropping_input = 3"
  "li_CompactTo dropping_input = Some (\<lambda>target fresh h. give (Inr (take 1 h @ drop 2 h)))"
  by (simp_all add: dropping_input_def tape_input_def)

lemma give_apply: "give a s = (s, Returned a)"
  by (simp only: give_def)

lemma dropping_checked:
  "checked_compaction what marked_history (Inr kept_history) = Inr kept_history"
  "checked_compaction what kept_history (Inr (take 1 kept_history)) = Inr (take 1 kept_history)"
  using dropping_valid dropping_preserved by (simp_all only: checked_compaction_def sum.case option.case)

theorem prepared_history_is_sound_witness:
  "\<exists>h1 h2. prepareIterationContext dropping_input 0 marked_history zero_usage [] 0 0 (tape_world []) =
      (tape_world [], Returned (Inr h1)) \<and> length h1 = 2 \<and>
    ValidateCompleteTurns h2 = None \<and> length h2 = 1 \<and> take 1 h2 = take 1 marked_history"
proof -
  have p: "prepareIterationContext dropping_input 0 marked_history zero_usage [] 0 0 (tape_world []) =
      (tape_world [], Returned (Inr kept_history))"
  proof -
    have due: "compaction_due dropping_input zero_usage =
        Some (\<lambda>fresh h. give (Inr (take 1 h @ drop 2 h)))"
      by (simp only: compaction_due_def dropping_fields) simp
    have "maybeCompactHistory dropping_input 0 marked_history zero_usage = give (Inr kept_history)"
      by (simp only: maybeCompactHistory_def due option.case cacheSafeCompactionInput_def dropping_boundaries
          sum.case bnd_simps dropping_kept dropping_checked) (simp only: fun_eq_iff give_apply simp_thms)
    then have "prepareIterationContext dropping_input 0 marked_history zero_usage [] 0 0 = give (Inr kept_history)"
      by (simp add: prepareIterationContext_def dropping_fields)
    then show ?thesis
      by (simp only: give_apply)
  qed
  have again: "compactAfterContextOverflow tape_system w_parent_err dropping_input 0 kept_history (tape_world []) =
      (tape_world [], Returned (Inr (take 1 kept_history, True)))"
  proof -
    have k: "take 1 kept_history @ drop 2 kept_history = take 1 kept_history" "kept_history \<noteq> take 1 kept_history"
      by (simp_all add: kept_history_def)
    have "overflow_compactor tape_system w_parent_err dropping_input =
        (\<lambda>fresh h. give (Inr (take 1 h @ drop 2 h)))"
      by (simp add: overflow_compactor_def dropping_fields)
    then have "compactAfterContextOverflow tape_system w_parent_err dropping_input 0 kept_history =
        give (Inr (take 1 kept_history, True))"
      by (simp only: compactAfterContextOverflow_def dropping_fields cacheSafeCompactionInput_def
          dropping_boundaries sum.case bnd_simps k dropping_checked Let_def not_False_eq_True simp_thms) simp
    then show ?thesis
      by (simp only: give_apply)
  qed
  have "length kept_history = 2" "length (take 1 kept_history) = 1"
    by (simp_all add: kept_history_def)
  with prepared_history_is_sound [OF dropping_boundaries(1) p again] p show ?thesis
    by blast
qed

end
