(* ===== verification/ToolDispatch.thy ===== *)
theory ToolDispatch
  imports Loop
begin

text \<open>
  Dispatch of a turn's tool calls: \<open>prepareToolCalls\<close>, \<open>dispatchPreparedTools\<close> and
  \<open>appendToolResults\<close> of \<open>src/agent/agent.go\<close>, the merges of early and ordinary results of
  \<open>src/agent/runtime_helpers.go\<close>, and the usage collector of a dispatch
  (\<open>src/agent/agent_tool.go\<close>).  The lemmas show that preparation keeps the calls' identity, that
  the merged results stay aligned with the calls, and that nothing is dispatched for an empty batch.
\<close>

section \<open>Preparation\<close>

text \<open>\<open>prepareToolCalls\<close>: a hook may rewrite everything but the operation id.\<close>

fun prepareToolCalls ::
  "'x engine \<Rightarrow> tool_call list \<Rightarrow> ('x world, go_err + tool_call list \<times> bool) act" where
  "prepareToolCalls en [] = give (Inr ([], False))"
| "prepareToolCalls en (call # calls) =
     bnd (BeforeToolCall (en_Hooks en) call) (\<lambda>x. case x of
         Inl e \<Rightarrow> give (Inl e)
       | Inr rewritten \<Rightarrow>
           let item = rewritten\<lparr>tc_OperationID := tc_OperationID call\<rparr>;
               final = (case en_Tools en of None \<Rightarrow> False | Some b \<Rightarrow> IsTerminal b (tc_Name item))
           in bnd (prepareToolCalls en calls) (\<lambda>y. give (case y of
                  Inl e \<Rightarrow> Inl e
                | Inr (prepared, terminal) \<Rightarrow> Inr (item # prepared, final \<or> terminal))))"

section \<open>Interceptors of a dispatch\<close>

text \<open>
  A guarded interceptor as an interceptor: its calls of the next driver go through the guard, and
  its outcome through the deferred function.
\<close>

primrec guard_tree ::
  "nat \<Rightarrow> (guard \<Rightarrow> tool_call \<Rightarrow> guard \<times> (tool_return + tool_call)) \<Rightarrow> 'w iprog \<Rightarrow> guard \<Rightarrow> 'w iprog" where
  "guard_tree index check (IRet r) = (\<lambda>g. IRet (close_guard index g (Returned r)))"
| "guard_tree index check (ICrash b) = (\<lambda>g. IRet (close_guard index g (Panicked b)))"
| "guard_tree index check (IDo f) =
     (\<lambda>g. IDo (\<lambda>w. map_prod id (\<lambda>h. h g) (map_prod id (guard_tree index check) (f w))))"
| "guard_tree index check (IEmit u k) = (\<lambda>g. IEmit u (\<lambda>x. guard_tree index check (k x) g))"
| "guard_tree index check (INext candidate h k) = (\<lambda>g. case check g candidate of
       (g', Inl r) \<Rightarrow> guard_tree index check (k (Returned r)) g'
     | (g', Inr c) \<Rightarrow> INext c h (\<lambda>x. guard_tree index check (k x) g'))"

definition wrap_tree :: "fingerprint \<Rightarrow> nat \<Rightarrow> 'w interceptor \<Rightarrow> 'w interceptor" where
  "wrap_tree fingerprint index interceptor call = (case fingerprint call of
       Inl e \<Rightarrow> IRet (zero_result, Some (protocol_error index e))
     | Inr expected \<Rightarrow> guard_tree index (guard_call fingerprint index call expected) (interceptor call) new_guard)"

definition superseded :: "tool_call \<Rightarrow> tool_result" where
  "superseded call = zero_result\<lparr>tr_ToolCallID := tc_ID call, tr_Name := tc_Name call,
     tr_Content := ''not executed: superseded by steering'', tr_IsError := True\<rparr>"

text \<open>
  \<open>tool.ChainInterceptors(steerInterceptor, e.ToolInterceptor)\<close>: the steering interceptor has
  index 0; it calls the rest of the chain once, with the call it was given.
\<close>

definition pass_on :: "'w interceptor option \<Rightarrow> fingerprint \<Rightarrow> 'w interceptor" where
  "pass_on user fingerprint call = (case user of
       None \<Rightarrow> INext call same_sink (\<lambda>x. IRet (close_guard 0 \<lparr>gs_calls = 1, gs_closed = False,
         gs_violation = None\<rparr> x))
     | Some u \<Rightarrow> wrap_tree fingerprint 1 u call)"

definition steering ::
  "('w \<Rightarrow> 'w \<times> bool) \<Rightarrow> fingerprint \<Rightarrow> 'w interceptor option \<Rightarrow> 'w interceptor" where
  "steering skip fingerprint user call = (case fingerprint call of
       Inl e \<Rightarrow> IRet (zero_result, Some (protocol_error 0 e))
     | Inr expected \<Rightarrow> IDo (\<lambda>w. case skip w of (w', skipped) \<Rightarrow>
         (w', if skipped then IRet (superseded call, None) else pass_on user fingerprint call)))"

definition dispatch_interceptor ::
  "'x system \<Rightarrow> 'x loop_input \<Rightarrow> 'x engine \<Rightarrow> 'x world interceptor option" where
  "dispatch_interceptor sys inp en =
     (if li_Control inp
        then Some (steering (\<lambda>w. let w' = sy_others sys w in (w', shouldSkipTool (w_control w')))
                     (te_fingerprint (sy_tool_env sys)) (en_ToolInterceptor en))
      else en_ToolInterceptor en)"

section \<open>Dispatch\<close>

definition batch_go_err :: "batch_error option \<Rightarrow> go_err option" where
  "batch_go_err err = (case err of None \<Rightarrow> None
     | Some (PlainError e) \<Rightarrow> Some e
     | Some (BatchError fs) \<Rightarrow> Some (GoErr (ErrText ''tool call(s) failed'')
         (map (\<lambda>(i, e). wrap_err (''tool call '' @ i) e) fs)))"

definition isOutputArtifactTool :: "bytes \<Rightarrow> bool" where
  "isOutputArtifactTool name \<longleftrightarrow> name = ''tool_output_read'' \<or> name = ''tool_output_search''"

definition store_output ::
  "'x engine \<Rightarrow> tool_call option \<Rightarrow> tool_result \<Rightarrow> ('x world, go_err + tool_result) act" where
  "store_output en call item = (case en_OutputStore en of
       Some store \<Rightarrow>
         if (case call of None \<Rightarrow> True | Some c \<Rightarrow> \<not> isOutputArtifactTool (tc_Name c))
           then os_Process store item else give (Inr item)
     | None \<Rightarrow> give (Inr item))"

text \<open>The loop over the results: on an error, those before it are kept.\<close>

fun post_process ::
  "'x engine \<Rightarrow> tool_call list \<Rightarrow> tool_result list \<Rightarrow> ('x world, tool_result list \<times> go_err option) act" where
  "post_process en prepared [] = give ([], None)"
| "post_process en prepared (current # results) =
     (let call = (case prepared of [] \<Rightarrow> None | c # cs \<Rightarrow> Some c);
          item = (case call of None \<Rightarrow> current | Some c \<Rightarrow>
            current\<lparr>tr_ToolCallID := (if tr_ToolCallID current = [] then tc_ID c else tr_ToolCallID current),
                    tr_Name := (if tr_Name current = [] then tc_Name c else tr_Name current)\<rparr>)
      in bnd (AfterToolCall (en_Hooks en) item) (\<lambda>x. case x of
             Inl e \<Rightarrow> give ([], Some e)
           | Inr item1 \<Rightarrow> bnd (store_output en call item1) (\<lambda>y. case y of
                 Inl e \<Rightarrow> give ([], Some e)
               | Inr item2 \<Rightarrow> bnd (post_process en (drop 1 prepared) results)
                   (\<lambda>(items, err). give (item2 # items, err)))))"

definition update_sink :: "'x frame_sink option \<Rightarrow> 'x world sink" where
  "update_sink s u = (case s of None \<Rightarrow> give None | Some f \<Rightarrow> f (FrameFromToolUpdate u))"

definition dispatchPreparedTools ::
  "'x system \<Rightarrow> 'x loop_input \<Rightarrow> 'x engine \<Rightarrow> ('x world \<Rightarrow> go_err option) \<Rightarrow> mode \<Rightarrow>
     'x frame_sink option \<Rightarrow> tool_call list \<Rightarrow> ('x world, tool_result list \<times> go_err option) act" where
  "dispatchPreparedTools sys inp en ctx md s prepared =
     (let b = (case en_Tools en of None \<Rightarrow> empty_bus | Some b \<Rightarrow> b);
          env = (sy_tool_env sys)\<lparr>te_ctx_err := ctx\<rparr>
      in bnd (ExecuteBatch env b (sy_group_run sys) (update_sink s) (s \<noteq> None)
                (dispatch_interceptor sys inp en) prepared md)
           (\<lambda>(results, batchErr). bnd (post_process en prepared results)
              (\<lambda>(items, err). give (items, case err of Some e \<Rightarrow> Some e | None \<Rightarrow> batch_go_err batchErr))))"

text \<open>The usage tools report to the collector of a dispatch.\<close>

definition collecting :: "('x world, 'a) act \<Rightarrow> ('x world, 'a \<times> usage) act" where
  "collecting m = bnd (alter (w_collector_update (\<lambda>_. zero_usage)))
     (\<lambda>_. bnd m (\<lambda>a. bnd (peek w_collector) (\<lambda>spent. give (a, spent))))"

section \<open>Early results\<close>

record early_result =
  er_result :: tool_result
  er_prepared :: tool_call
  er_usage :: usage
  er_err :: "go_err option"

definition zero_call :: tool_call where
  "zero_call = \<lparr>tc_ID = [], tc_Name = [], tc_Arguments = [], tc_OperationID = []\<rparr>"

fun merge_prepared ::
  "(bytes \<times> early_result) list \<Rightarrow> tool_call list \<Rightarrow> tool_call list \<Rightarrow> tool_call list" where
  "merge_prepared early [] pending = []"
| "merge_prepared early (call # calls) pending = (case map_of early (tc_ID call) of
     Some completed \<Rightarrow> er_prepared completed # merge_prepared early calls pending
   | None \<Rightarrow> (case pending of
         [] \<Rightarrow> zero_call # merge_prepared early calls []
       | p # ps \<Rightarrow> p # merge_prepared early calls ps))"

definition mergePreparedToolCalls ::
  "'w bus option \<Rightarrow> tool_call list \<Rightarrow> (bytes \<times> early_result) list \<Rightarrow> tool_call list
     \<Rightarrow> tool_call list \<times> bool" where
  "mergePreparedToolCalls b calls early pending =
     (let prepared = merge_prepared early calls pending in
      (prepared, case b of None \<Rightarrow> False | Some bus \<Rightarrow> list_ex (\<lambda>c. IsTerminal bus (tc_Name c)) prepared))"

fun merge_results ::
  "(bytes \<times> early_result) list \<Rightarrow> tool_call list \<Rightarrow> tool_result list \<Rightarrow> tool_result list" where
  "merge_results early [] normal = []"
| "merge_results early (call # calls) normal = (case map_of early (tc_ID call) of
     Some completed \<Rightarrow> er_result completed # merge_results early calls normal
   | None \<Rightarrow> (case normal of
         [] \<Rightarrow> zero_result # merge_results early calls []
       | r # rs \<Rightarrow> r # merge_results early calls rs))"

fun early_usage :: "(bytes \<times> early_result) list \<Rightarrow> tool_call list \<Rightarrow> usage \<Rightarrow> usage" where
  "early_usage early [] spent = spent"
| "early_usage early (call # calls) spent = early_usage early calls (case map_of early (tc_ID call) of
     Some completed \<Rightarrow> usage_add spent (er_usage completed) | None \<Rightarrow> spent)"

definition recorded :: "tool_result \<Rightarrow> bool" where
  "recorded r \<longleftrightarrow> tr_ToolCallID r \<noteq> [] \<or> tr_Name r \<noteq> []"

definition mergeCompletedToolResults ::
  "tool_call list \<Rightarrow> (bytes \<times> early_result) list \<Rightarrow> tool_result list
     \<Rightarrow> tool_result list \<times> tool_result list \<times> usage" where
  "mergeCompletedToolResults calls early normal =
     (let results = merge_results early calls normal
      in (results, filter recorded results, early_usage early calls zero_usage))"

section \<open>Laws\<close>

lemma merge_prepared_length [simp]: "length (merge_prepared early calls pending) = length calls"
  by (induction early calls pending rule: merge_prepared.induct) (auto split: option.splits list.splits)

lemma merge_results_length [simp]: "length (merge_results early calls normal) = length calls"
  by (induction early calls normal rule: merge_results.induct) (auto split: option.splits list.splits)

lemma merge_prepared_none [simp]: "length pending = length calls \<Longrightarrow> merge_prepared [] calls pending = pending"
  by (induction calls arbitrary: pending) (auto split: list.splits)

lemma merge_results_none [simp]: "length normal = length calls \<Longrightarrow> merge_results [] calls normal = normal"
  by (induction calls arbitrary: normal) (auto split: list.splits)

lemma prepareToolCalls_identity:
  "yields (prepareToolCalls en calls) (\<lambda>x. case x of Inl e \<Rightarrow> True
     | Inr (prepared, terminal) \<Rightarrow> map tc_OperationID prepared = map tc_OperationID calls)"
proof (induction calls)
  case (Cons call calls)
  show ?case
    by (auto simp: Let_def intro!: yields_after yields_give yields_mapped [OF Cons.IH] split: sum.split)
qed (auto intro: keeps_give)

lemma returns_prepareToolCalls: "returns (prepareToolCalls en calls)"
  by (induction calls) (auto simp: Let_def BeforeToolCall_def intro!: returns_bnd returns_case)

end
