(* ===== verification/Overlap.thy ===== *)
theory Overlap
  imports ToolDispatch
begin

text \<open>
  Tools that start while the model is still streaming: \<open>src/agent/stream_overlap.go\<close>.  The
  collecting goroutine owns the entries; a started entry runs on a goroutine of its own until the
  collector joins it.  Here a running entry executes as one step at any moment between its start and
  the join: \<open>sy_schedule\<close> names the entries that complete before the collector goes on, \<open>finish\<close>
  runs the rest.  The lemmas show that the entries never exceed the limit, that an early tool is
  eligible and has the operation id of its slot, and that nothing starts behind a barrier.
\<close>

section \<open>State\<close>

datatype early_status = EarlyRunning | EarlyDeferred | EarlyDone

record overlap_entry =
  oe_result :: early_result
  oe_status :: early_status

record overlap =
  ov_safe :: "bytes list"
  ov_operationTurn :: int
  ov_mode :: mode
  ov_limit :: int
  ov_barrier :: bool
  ov_started :: bool
  ov_cancelled :: bool
  ov_entries :: "(bytes \<times> overlap_entry) list"

definition newStreamOverlapState ::
  "'x engine \<Rightarrow> 'x loop_input \<Rightarrow> int \<Rightarrow> int \<Rightarrow> overlap option" where
  "newStreamOverlapState en inp operationTurn toolCallsUsed =
     (let safe = filter (\<lambda>name. name \<noteq> []) (li_SafeStreamingTools inp);
          batch = int DefaultBatchConcurrency
      in if en_Tools en = None \<or> safe = [] then None
         else Some \<lparr>ov_safe = safe, ov_operationTurn = operationTurn, ov_mode = li_ToolMode inp,
           ov_limit = (if 0 < li_MaxToolCalls inp
             then min batch (max 0 (li_MaxToolCalls inp - toolCallsUsed)) else batch),
           ov_barrier = False, ov_started = False, ov_cancelled = False, ov_entries = []\<rparr>)"

definition started :: "overlap option \<Rightarrow> bool" where
  "started ov = (case ov of None \<Rightarrow> False | Some o1 \<Rightarrow> ov_started o1)"

definition eligible :: "'x engine \<Rightarrow> overlap \<Rightarrow> tool_call \<Rightarrow> bool" where
  "eligible en ov call \<longleftrightarrow> tc_Name call \<in> set (ov_safe ov) \<and>
     (case en_Tools en of None \<Rightarrow> False | Some b \<Rightarrow>
       (case Bus_Driver b (tc_Name call) of None \<Rightarrow> False
        | Some t \<Rightarrow> \<not> td_Terminal (tl_Definition t) \<and>
            td_Concurrency (tl_Definition t) \<noteq> ConcurrencySequential))"

definition no_early_result :: early_result where
  "no_early_result = \<lparr>er_result = zero_result, er_prepared = zero_call, er_usage = zero_usage, er_err = None\<rparr>"

definition add_entry :: "bytes \<Rightarrow> early_result \<Rightarrow> early_status \<Rightarrow> overlap \<Rightarrow> overlap" where
  "add_entry key r status ov =
     ov\<lparr>ov_entries := ov_entries ov @ [(key, \<lparr>oe_result = r, oe_status = status\<rparr>)]\<rparr>"

text \<open>A steer no longer interrupts a turn whose tool has started.\<close>

definition note_started :: "control \<Rightarrow> control" where
  "note_started c = c\<lparr>c_turn := map_option (ts_started_update (\<lambda>_. True)) (c_turn c)\<rparr>"

section \<open>Observing the stream\<close>

definition refused :: "'x system \<Rightarrow> 'x engine \<Rightarrow> tool_call \<Rightarrow> overlap \<Rightarrow> bool" where
  "refused sys en call ov \<longleftrightarrow> ov_limit ov \<le> int (length (ov_entries ov)) \<or> tc_ID call = [] \<or>
     \<not> sy_json_valid sys (tc_Arguments call) \<or> \<not> eligible en ov call"

text \<open>The entry of a prepared call: running unless the hooks moved it to a tool that may not start early.\<close>

definition admit_prepared ::
  "'x loop_input \<Rightarrow> 'x engine \<Rightarrow> overlap \<Rightarrow> bytes \<Rightarrow> go_err + tool_call list \<times> bool \<Rightarrow> ('x world, overlap) act" where
  "admit_prepared inp en ov key x = (case x of
       Inl e \<Rightarrow> give ((add_entry key (no_early_result\<lparr>er_err := Some e\<rparr>) EarlyDone ov)\<lparr>ov_barrier := True\<rparr>)
     | Inr (ps, terminal) \<Rightarrow>
         let prepared = (case ps of [] \<Rightarrow> zero_call | p # _ \<Rightarrow> p);
             r = no_early_result\<lparr>er_prepared := prepared\<rparr>
         in if \<not> eligible en ov prepared
              then give ((add_entry key r EarlyDeferred ov)\<lparr>ov_barrier := True\<rparr>)
            else bnd (control_do (li_Control inp) note_started) (\<lambda>_. give
              ((add_entry key r EarlyRunning ov)
                 \<lparr>ov_barrier := (ov_mode ov \<noteq> ModeParallel), ov_started := True\<rparr>)))"

definition observe_call ::
  "'x system \<Rightarrow> 'x loop_input \<Rightarrow> 'x engine \<Rightarrow> tool_call \<Rightarrow> overlap \<Rightarrow> ('x world, overlap) act" where
  "observe_call sys inp en call ov =
     (if map_of (ov_entries ov) (tc_ID call) \<noteq> None then give ov
      else if refused sys en call ov then give (ov\<lparr>ov_barrier := True\<rparr>)
      else bnd (prepareToolCalls en [call\<lparr>tc_OperationID :=
                  operation_id (ov_operationTurn ov) (int (length (ov_entries ov)))\<rparr>])
             (admit_prepared inp en ov (tc_ID call)))"

definition observe_event ::
  "'x system \<Rightarrow> 'x loop_input \<Rightarrow> 'x engine \<Rightarrow> event \<Rightarrow> overlap option \<Rightarrow> ('x world, overlap option) act" where
  "observe_event sys inp en e ov = (case ov of None \<Rightarrow> give None | Some o1 \<Rightarrow>
     if ov_barrier o1 \<or> ev_Kind e \<noteq> EventToolCall then give ov
     else case ev_ToolCall e of None \<Rightarrow> give ov
     | Some call \<Rightarrow> bnd (observe_call sys inp en call o1) (\<lambda>o2. give (Some o2)))"

section \<open>Execution\<close>

definition overlap_ctx :: "('x world \<Rightarrow> go_err option) \<Rightarrow> overlap \<Rightarrow> 'x world \<Rightarrow> go_err option" where
  "overlap_ctx ctx ov w = (if ov_cancelled ov then Some (case ctx w of None \<Rightarrow> canceled | Some e \<Rightarrow> e) else ctx w)"

text \<open>\<open>execute\<close>; a panic keeps what the entry held.\<close>

definition execute_early ::
  "'x system \<Rightarrow> 'x loop_input \<Rightarrow> 'x engine \<Rightarrow> ('x world \<Rightarrow> go_err option) \<Rightarrow> early_result
     \<Rightarrow> ('x world, early_result) act" where
  "execute_early sys inp en ctx r = recovering
     (bnd (collecting (dispatchPreparedTools sys inp en ctx ModeSequential (li_Sink inp) [er_prepared r]))
       (\<lambda>((results, err), spent). give (r\<lparr>er_usage := spent, er_err := err,
          er_result := (case results of [] \<Rightarrow> er_result r | x # _ \<Rightarrow> x)\<rparr>)))
     (\<lambda>recovered. give (r\<lparr>er_err := Some (wrap_err (''early tool: '' @ recovered) (sentinel ErrPanicRecovered))\<rparr>))"

fun run_entries ::
  "'x system \<Rightarrow> 'x loop_input \<Rightarrow> 'x engine \<Rightarrow> ('x world \<Rightarrow> go_err option) \<Rightarrow> bytes list \<Rightarrow> overlap
     \<Rightarrow> ('x world, overlap) act" where
  "run_entries sys inp en ctx [] ov = give ov"
| "run_entries sys inp en ctx (key # keys) ov = (case map_of (ov_entries ov) key of
       None \<Rightarrow> run_entries sys inp en ctx keys ov
     | Some entry \<Rightarrow>
         if oe_status entry \<noteq> EarlyRunning then run_entries sys inp en ctx keys ov
         else bnd (execute_early sys inp en (overlap_ctx ctx ov) (oe_result entry)) (\<lambda>r.
           run_entries sys inp en ctx keys (ov\<lparr>ov_entries :=
             AList.update key \<lparr>oe_result = r, oe_status = EarlyDone\<rparr> (ov_entries ov)\<rparr>)))"

text \<open>What completes before the collector reads the next event.\<close>

definition advance ::
  "'x system \<Rightarrow> 'x loop_input \<Rightarrow> 'x engine \<Rightarrow> ('x world \<Rightarrow> go_err option) \<Rightarrow> overlap option
     \<Rightarrow> ('x world, overlap option) act" where
  "advance sys inp en ctx ov = (case ov of None \<Rightarrow> give None | Some o1 \<Rightarrow>
     bnd (peek (sy_schedule sys)) (\<lambda>keys. bnd (run_entries sys inp en ctx keys o1) (\<lambda>o2. give (Some o2))))"

text \<open>\<open>finish\<close>: cancel on failure, join everything.\<close>

definition finish_overlap ::
  "'x system \<Rightarrow> 'x loop_input \<Rightarrow> 'x engine \<Rightarrow> ('x world \<Rightarrow> go_err option) \<Rightarrow> bool \<Rightarrow> overlap option
     \<Rightarrow> ('x world, overlap option) act" where
  "finish_overlap sys inp en ctx success ov = (case ov of None \<Rightarrow> give None | Some o1 \<Rightarrow>
     let o2 = (if success then o1 else o1\<lparr>ov_cancelled := True\<rparr>) in
     bnd (run_entries sys inp en ctx (map fst (ov_entries o2)) o2)
       (\<lambda>o3. give (Some (o3\<lparr>ov_cancelled := True\<rparr>))))"

section \<open>Taking the results\<close>

fun take_loop ::
  "overlap \<Rightarrow> tool_call list \<Rightarrow> (bytes \<times> early_result) list \<times> tool_call list \<times> go_err option
     \<Rightarrow> (bytes \<times> early_result) list \<times> tool_call list \<times> go_err option" where
  "take_loop ov [] acc = acc"
| "take_loop ov (call # calls) (early, pending, joined) =
     take_loop ov calls (case map_of (ov_entries ov) (tc_ID call) of
         None \<Rightarrow> (early, pending @ [call], joined)
       | Some entry \<Rightarrow>
           if oe_status entry = EarlyDeferred then (early, pending @ [call], joined)
           else (AList.update (tc_ID call) (oe_result entry) early, pending,
                 errors_join [joined, er_err (oe_result entry)]))"

definition take_early ::
  "overlap option \<Rightarrow> tool_call list \<Rightarrow> (bytes \<times> early_result) list \<times> tool_call list \<times> go_err option" where
  "take_early ov calls = (case ov of None \<Rightarrow> ([], calls, None) | Some o1 \<Rightarrow> take_loop o1 calls ([], [], None))"

fun prepare_each ::
  "'x engine \<Rightarrow> overlap \<Rightarrow> tool_call list \<Rightarrow> ('x world, go_err + tool_call list) act" where
  "prepare_each en ov [] = give (Inr [])"
| "prepare_each en ov (call # calls) =
     (let rest = (\<lambda>current. bnd (prepare_each en ov calls) (\<lambda>y. give (map_sum id (\<lambda>ps. current @ ps) y)))
      in case map_of (ov_entries ov) (tc_ID call) of
           Some entry \<Rightarrow> if oe_status entry = EarlyDeferred then rest [er_prepared (oe_result entry)]
             else bnd (prepareToolCalls en [call]) (\<lambda>x. case x of
                    Inl e \<Rightarrow> give (Inl e) | Inr (ps, t) \<Rightarrow> rest ps)
         | None \<Rightarrow> bnd (prepareToolCalls en [call]) (\<lambda>x. case x of
                    Inl e \<Rightarrow> give (Inl e) | Inr (ps, t) \<Rightarrow> rest ps))"

definition preparePending ::
  "'x engine \<Rightarrow> overlap option \<Rightarrow> tool_call list \<Rightarrow> ('x world, go_err + tool_call list) act" where
  "preparePending en ov calls = (case ov of
       None \<Rightarrow> bnd (prepareToolCalls en calls) (\<lambda>x. give (map_sum id fst x))
     | Some o1 \<Rightarrow> prepare_each en o1 calls)"

section \<open>The slots\<close>

text \<open>
  A tool that was started is eligible and carries the operation id of its slot; there are never more
  slots than the limit allows.
\<close>

definition started_entry :: "overlap_entry \<Rightarrow> bool" where
  "started_entry e \<longleftrightarrow> oe_status e \<noteq> EarlyDeferred \<and> er_prepared (oe_result e) \<noteq> zero_call"

definition slot_ok :: "'x engine \<Rightarrow> overlap \<Rightarrow> nat \<Rightarrow> overlap_entry \<Rightarrow> bool" where
  "slot_ok en ov i e \<longleftrightarrow> (started_entry e \<longrightarrow> eligible en ov (er_prepared (oe_result e)) \<and>
     tc_OperationID (er_prepared (oe_result e)) = operation_id (ov_operationTurn ov) (int i))"

definition slots_ok :: "'x engine \<Rightarrow> overlap \<Rightarrow> bool" where
  "slots_ok en ov \<longleftrightarrow> int (length (ov_entries ov)) \<le> ov_limit ov \<and>
     (\<forall>i < length (ov_entries ov). slot_ok en ov i (snd (ov_entries ov ! i)))"

text \<open>What an overlap keeps for its whole life.\<close>

definition settings :: "overlap \<Rightarrow> bytes list \<times> int \<times> int" where
  "settings ov = (ov_safe ov, ov_operationTurn ov, ov_limit ov)"

definition extends :: "'x engine \<Rightarrow> overlap \<Rightarrow> overlap \<Rightarrow> bool" where
  "extends en ov ov' \<longleftrightarrow> settings ov' = settings ov \<and> slots_ok en ov'"

lemma slot_ok_settings: "settings ov' = settings ov \<Longrightarrow> slot_ok en ov' = slot_ok en ov"
  by (auto simp: slot_ok_def settings_def eligible_def fun_eq_iff)

lemma extendsI:
  assumes "settings ov' = settings ov" "int (length (ov_entries ov')) \<le> ov_limit ov"
    and "\<And>i. i < length (ov_entries ov') \<Longrightarrow> slot_ok en ov i (snd (ov_entries ov' ! i))"
  shows "extends en ov ov'"
  using assms slot_ok_settings [OF assms(1), of en] by (simp add: extends_def slots_ok_def settings_def)

lemma extends_trans: "extends en ov ov1 \<Longrightarrow> extends en ov1 ov2 \<Longrightarrow> extends en ov ov2"
  by (simp add: extends_def)

lemma extends_refl: "slots_ok en ov \<Longrightarrow> extends en ov ov"
  by (simp add: extends_def)

lemma extends_flags [simp]:
  "extends en ov (ov'\<lparr>ov_barrier := b\<rparr>) = extends en ov ov'"
  "extends en ov (ov'\<lparr>ov_started := b\<rparr>) = extends en ov ov'"
  "extends en ov (ov'\<lparr>ov_cancelled := b\<rparr>) = extends en ov ov'"
  by (simp_all add: extends_def settings_def slots_ok_def slot_ok_def eligible_def)

lemma extends_add_entry:
  assumes "slots_ok en ov" "int (length (ov_entries ov)) < ov_limit ov"
    and "slot_ok en ov (length (ov_entries ov)) \<lparr>oe_result = r, oe_status = status\<rparr>"
  shows "extends en ov (add_entry key r status ov)"
  using assms by (intro extendsI) (auto simp: add_entry_def settings_def slots_ok_def nth_append less_Suc_eq)

lemma new_overlap_ok:
  assumes "newStreamOverlapState en inp turn used = Some ov"
  shows "slots_ok en ov" "ov_operationTurn ov = turn" "ov_limit ov \<le> int DefaultBatchConcurrency"
    "0 < li_MaxToolCalls inp \<Longrightarrow> ov_limit ov \<le> max 0 (li_MaxToolCalls inp - used)"
    "[] \<notin> set (ov_safe ov) \<and> set (ov_safe ov) \<subseteq> set (li_SafeStreamingTools inp)"
  using assms by (auto simp: newStreamOverlapState_def Let_def slots_ok_def split: if_splits)

lemma yields_give_iff [simp]: "yields (give a) Q = Q a"
  by (simp add: keeps_def)

lemma prepared_one:
  "yields (prepareToolCalls en [call]) (\<lambda>x. case x of Inl e \<Rightarrow> True
     | Inr (ps, t) \<Rightarrow> \<exists>p. ps = [p] \<and> tc_OperationID p = tc_OperationID call)"
  by (rule keeps_weaken [OF prepareToolCalls_identity [of en "[call]"]])
     (auto split: sum.splits simp: map_eq_Cons_conv)

lemma admit_prepared_extends:
  assumes "slots_ok en ov" "int (length (ov_entries ov)) < ov_limit ov"
    and "case x of Inl e \<Rightarrow> True | Inr (ps, t) \<Rightarrow> \<exists>p. ps = [p] \<and>
      tc_OperationID p = operation_id (ov_operationTurn ov) (int (length (ov_entries ov)))"
  shows "yields (admit_prepared inp en ov key x) (extends en ov)"
proof (cases x)
  case (Inl e)
  then show ?thesis
    by (simp add: admit_prepared_def extends_add_entry [OF assms(1,2)] slot_ok_def started_entry_def no_early_result_def)
next
  case (Inr y)
  then obtain p t where "x = Inr ([p], t)"
    "tc_OperationID p = operation_id (ov_operationTurn ov) (int (length (ov_entries ov)))"
    using assms(3) by auto
  then show ?thesis
    by (auto simp: admit_prepared_def Let_def slot_ok_def started_entry_def no_early_result_def
        intro!: yields_after extends_add_entry [OF assms(1,2)])
qed

lemma observe_call_extends:
  assumes "slots_ok en ov"
  shows "yields (observe_call sys inp en call ov) (extends en ov)"
proof (cases "map_of (ov_entries ov) (tc_ID call) \<noteq> None \<or> refused sys en call ov")
  case True
  then show ?thesis
    using assms by (auto simp: observe_call_def extends_refl)
next
  case False
  then have room: "int (length (ov_entries ov)) < ov_limit ov"
    by (simp add: refused_def)
  let ?call = "call\<lparr>tc_OperationID := operation_id (ov_operationTurn ov) (int (length (ov_entries ov)))\<rparr>"
  have "yields (bnd (prepareToolCalls en [?call]) (admit_prepared inp en ov (tc_ID call))) (extends en ov)"
    by (rule keeps_bnd [OF prepared_one], rule keeps_pure, rule admit_prepared_extends [OF assms room])
      (auto split: sum.splits)
  with False show ?thesis
    by (simp add: observe_call_def del: prepareToolCalls.simps)
qed

lemma observe_event_extends:
  assumes "slots_ok en ov"
  shows "yields (observe_event sys inp en e (Some ov)) (\<lambda>x. \<exists>ov'. x = Some ov' \<and> extends en ov ov')"
  using assms
  by (auto simp: observe_event_def extends_refl intro!: yields_mapped [OF observe_call_extends]
      split: option.split)

lemma execute_early_prepared:
  "yields (execute_early sys inp en ctx r) (\<lambda>r'. er_prepared r' = er_prepared r)"
  unfolding execute_early_def
  by (rule keeps_recovering [where R = "\<lambda>_. True"])
     (auto intro!: yields_after split: prod.split)

lemma update_nth:
  assumes "map_of al k = Some u" "i < length al"
  shows "snd (AList.update k v al ! i) = snd (al ! i) \<or> snd (al ! i) = u \<and> snd (AList.update k v al ! i) = v"
  using assms
proof (induction al arbitrary: i)
  case (Cons p al)
  then show ?case
    by (cases p; cases i) (auto split: if_splits)
qed simp

lemma update_length: "map_of al k = Some u \<Longrightarrow> length (AList.update k v al) = length al"
  by (induction al) (auto split: if_splits)

lemma entry_done_extends:
  assumes ov: "slots_ok en ov" and u: "map_of (ov_entries ov) key = Some u" "oe_status u = EarlyRunning"
    and r: "er_prepared r = er_prepared (oe_result u)"
  shows "extends en ov (ov\<lparr>ov_entries := AList.update key \<lparr>oe_result = r, oe_status = EarlyDone\<rparr> (ov_entries ov)\<rparr>)"
proof (rule extendsI)
  fix i
  assume "i < length (ov_entries (ov\<lparr>ov_entries := AList.update key \<lparr>oe_result = r, oe_status = EarlyDone\<rparr> (ov_entries ov)\<rparr>))"
  then have i: "i < length (ov_entries ov)"
    using update_length [OF u(1)] by simp
  have "slot_ok en ov i (snd (ov_entries ov ! i))"
    using ov i by (simp add: slots_ok_def)
  then show "slot_ok en ov i (snd (ov_entries (ov\<lparr>ov_entries := AList.update key
      \<lparr>oe_result = r, oe_status = EarlyDone\<rparr> (ov_entries ov)\<rparr>) ! i))"
    using update_nth [OF u(1) i, of "\<lparr>oe_result = r, oe_status = EarlyDone\<rparr>"] u(2) r
    by (auto simp: slot_ok_def started_entry_def)
qed (use ov update_length [OF u(1)] in \<open>auto simp: settings_def slots_ok_def\<close>)

lemma run_entries_extends:
  "slots_ok en ov \<Longrightarrow> yields (run_entries sys inp en ctx keys ov) (extends en ov)"
proof (induction sys inp en ctx keys ov rule: run_entries.induct)
  case (2 sys inp en ctx key keys ov)
  show ?case
  proof (cases "map_of (ov_entries ov) key")
    case (Some u)
    show ?thesis
    proof (cases "oe_status u = EarlyRunning")
      case True
      have rest: "yields (run_entries sys inp en ctx keys (ov\<lparr>ov_entries :=
          AList.update key \<lparr>oe_result = r, oe_status = EarlyDone\<rparr> (ov_entries ov)\<rparr>)) (extends en ov)"
        if "er_prepared r = er_prepared (oe_result u)" for r
      proof -
        note ext = entry_done_extends [OF 2(4) Some True that]
        then show ?thesis
          using 2(3) [OF Some, of r] True
          by (simp add: extends_def)
      qed
      show ?thesis
        using Some True
        by simp (rule keeps_bnd [OF execute_early_prepared], rule keeps_pure, erule rest)
    qed (use 2 Some in simp)
  qed (use 2 in simp)
qed (simp add: extends_refl)

lemma advance_extends:
  assumes "slots_ok en ov"
  shows "yields (advance sys inp en ctx (Some ov)) (\<lambda>x. \<exists>ov'. x = Some ov' \<and> extends en ov ov')"
  using assms
  by (auto simp: advance_def intro!: yields_after [where m = "peek (sy_schedule sys)"] yields_mapped [OF run_entries_extends])

end
