(* ===== verification/ModelTurn.thy ===== *)
theory ModelTurn
  imports Overlap Recovery Compaction
begin

text \<open>
  One model turn: \<open>runTurn\<close>, \<open>openModelStream\<close>, \<open>collect\<close>, \<open>fanOutEvent\<close>, \<open>applyNormalized\<close> of
  \<open>src/agent/agent.go\<close>, \<open>collectTurnStream\<close> of \<open>src/agent/stream_overlap.go\<close>, the idle timeout of
  \<open>src/provider/timeout.go\<close>, and \<open>runTurnWithContextRecovery\<close>.  The collector is a loop on
  the world that ends because a turn holds at most 65536 events.  Timers and the ends of contexts
  are read from the system.  The lemmas show the limits of a turn, that collecting never
  panics, and that the stream is closed.
\<close>

section \<open>Contexts of a turn\<close>

text \<open>
  The cause and the \<open>Err()\<close> of the turn's context (\<open>beginTurn\<close>), and of the model request's
  context below it.  \<open>sy_request_expired\<close> says that the request's timer ended that context before
  anything above it did.
\<close>

definition turn_cause :: "'x loop_input \<Rightarrow> 'x world \<Rightarrow> go_err option" where
  "turn_cause inp w =
     (if li_Control inp then (case c_turn (w_control w) of
          Some t \<Rightarrow> (case ts_cause t of None \<Rightarrow> ctx_err True w | Some cause \<Rightarrow> Some cause)
        | None \<Rightarrow> ctx_err True w)
      else ctx_err False w)"

definition turn_err :: "'x loop_input \<Rightarrow> 'x world \<Rightarrow> go_err option" where
  "turn_err inp w = map_option
     (\<lambda>cause. if li_Control inp \<and> errors_is ErrControlSteer cause then canceled else cause) (turn_cause inp w)"

definition request_expired :: "'x system \<Rightarrow> 'x loop_input \<Rightarrow> 'x world \<Rightarrow> bool" where
  "request_expired sys inp w \<longleftrightarrow>
     0 < tp_RequestTimeout (resolved (li_ModelTimeouts inp)) \<and> sy_request_expired sys w"

definition request_cause :: "'x system \<Rightarrow> 'x loop_input \<Rightarrow> 'x world \<Rightarrow> go_err option" where
  "request_cause sys inp w =
     (if request_expired sys inp w then Some (sentinel ErrModelRequestTimeout) else turn_cause inp w)"

definition request_err :: "'x system \<Rightarrow> 'x loop_input \<Rightarrow> 'x world \<Rightarrow> go_err option" where
  "request_err sys inp w =
     (if request_expired sys inp w then Some (sentinel CtxDeadlineExceeded) else turn_err inp w)"

section \<open>Streams\<close>

text \<open>
  \<open>openModelStream\<close>.  A connection that loses the race goes on in the background: what it still
  does to the world is part of \<open>sy_others\<close>.
\<close>

definition open_stream :: "'x engine \<Rightarrow> provider_request \<Rightarrow> ('x world, go_err + 'x stream) act" where
  "open_stream en rq = bnd (en_Stream en rq)
     (\<lambda>x. bnd (alter (w_stream_closed_update (\<lambda>_. False))) (\<lambda>_. give x))"

definition openModelStream ::
  "'x system \<Rightarrow> 'x loop_input \<Rightarrow> 'x engine \<Rightarrow> int \<Rightarrow> provider_request
     \<Rightarrow> ('x world, go_err + 'x stream) act" where
  "openModelStream sys inp en timeout rq =
     (let guarded = recovering (open_stream en rq) (\<lambda>recovered. give
            (Inl (wrap_err (''provider stream panic: '' @ recovered) (sentinel ErrPanicRecovered))))
      in if timeout \<le> 0 then open_stream en rq
         else bnd (alter (sy_others sys)) (\<lambda>_. bnd (peek (\<lambda>w. (sy_wait sys w, request_cause sys inp w)))
           (\<lambda>x. case x of
               (WaitContext, Some cause) \<Rightarrow> give (Inl cause)
             | (WaitTimer, _) \<Rightarrow> give (Inl (GoErr (ErrText [])
                 [sentinel ErrModelConnectTimeout, sentinel CtxDeadlineExceeded]))
             | _ \<Rightarrow> guarded)))"

text \<open>\<open>idleTimeoutStream.Close\<close>, and the single \<open>Close\<close> of \<open>collect\<close> without an idle timeout.\<close>

definition close_stream :: "'x stream \<Rightarrow> 'x world \<Rightarrow> 'x world" where
  "close_stream sm w = (if w_stream_closed w then w else (sm_Close sm w)\<lparr>w_stream_closed := True\<rparr>)"

text \<open>\<open>Recv\<close> under \<open>WithStreamIdleTimeout\<close>.\<close>

definition receive :: "'x stream \<Rightarrow> ('x world, go_err + event) act" where
  "receive sm w = (case sm_Recv sm w of (w', x) \<Rightarrow> (w', Returned x))"

definition idle_cause :: "'x system \<Rightarrow> 'x loop_input \<Rightarrow> 'x world \<Rightarrow> go_err option" where
  "idle_cause sys inp w = map_option (\<lambda>cause.
     if request_err sys inp w = Some (sentinel CtxDeadlineExceeded) \<and> \<not> errors_is CtxDeadlineExceeded cause
       then GoErr (ErrText []) [cause, sentinel CtxDeadlineExceeded] else cause) (request_cause sys inp w)"

definition idle_Recv ::
  "'x system \<Rightarrow> 'x loop_input \<Rightarrow> int \<Rightarrow> 'x stream \<Rightarrow> ('x world, go_err + event) act" where
  "idle_Recv sys inp timeout sm =
     (if timeout \<le> 0 then receive sm
      else bnd (alter (sy_others sys)) (\<lambda>_. bnd (peek (\<lambda>w. (sy_wait sys w, idle_cause sys inp w)))
        (\<lambda>x. case x of
            (WaitContext, Some cause) \<Rightarrow> bnd (alter (close_stream sm)) (\<lambda>_. give (Inl cause))
          | (WaitTimer, _) \<Rightarrow> bnd (alter (close_stream sm))
              (\<lambda>_. give (Inl (wrap_err ''no event'' (sentinel ErrStreamIdleTimeout))))
          | _ \<Rightarrow> receive sm)))"

section \<open>Collecting a turn\<close>

definition maxProviderTurnEvents :: nat where "maxProviderTurnEvents = 65536"
definition maxProviderTurnBytes :: int where "maxProviderTurnBytes = 64 * 2 ^ 20"

definition providerEventSize :: "(go_err \<Rightarrow> bytes) \<Rightarrow> event \<Rightarrow> int" where
  "providerEventSize error_text e = int (
     length (ev_Text e) + length (ev_Thinking e) + length (ev_Signature e) +
     length (ev_RedactedThinking e) + length (ev_ProviderState e) +
     (case ev_ToolCall e of None \<Rightarrow> 0 | Some c \<Rightarrow>
        length (tc_ID c) + length (tc_Name c) + length (tc_Arguments c)) +
     (case ev_ToolCallDelta e of None \<Rightarrow> 0 | Some d \<Rightarrow>
        length (dl_ID d) + length (dl_Name d) + length (dl_ArgumentsDelta d)) +
     length (rm_ID (ev_Response e)) + length (rm_Model (ev_Response e)) +
     sum_list (map (\<lambda>(k, v). length k + length v) (rm_Headers (ev_Response e))) +
     (case ev_Err e of None \<Rightarrow> 0 | Some x \<Rightarrow> length (error_text x)))"

definition emit_frame :: "'x frame_sink option \<Rightarrow> event \<Rightarrow> ('x world, go_err option) act" where
  "emit_frame s e = (case (s, FrameFromEvent e) of (Some f, Some frame) \<Rightarrow> f frame | _ \<Rightarrow> give None)"

definition fanOutEvent :: "'x loop_input \<Rightarrow> 'x engine \<Rightarrow> event \<Rightarrow> ('x world, go_err option) act" where
  "fanOutEvent inp en e =
     bnd (case li_OnEvent inp of None \<Rightarrow> give None | Some f \<Rightarrow> f e) (\<lambda>x. case x of
         Some err \<Rightarrow> give (Some err)
       | None \<Rightarrow> bnd (OnEvent (en_Hooks en) e) (\<lambda>y. case y of
             Some err \<Rightarrow> give (Some err)
           | None \<Rightarrow> emit_frame (li_Sink inp) e))"

definition applyNormalized ::
  "(bytes \<Rightarrow> bool) \<Rightarrow> event list \<Rightarrow> bool \<Rightarrow> message \<Rightarrow> message \<times> usage \<times> stop_reason \<times> go_err option" where
  "applyNormalized json_valid events requireTerminal assistant =
     (case (if requireTerminal then NormalizeEvents json_valid events
            else NormalizePartialEvents json_valid events) of (normalized, err) \<Rightarrow>
      if (case err of None \<Rightarrow> False | Some e \<Rightarrow>
            \<not> (requireTerminal \<and> errors_is ErrInvalidToolCallArguments e))
        then (assistant, zero_usage, StopReasonError, err)
      else let synced = SyncLegacyContent (assistant\<lparr>m_Content := nr_Content normalized,
               m_ToolCalls := nr_ToolCalls normalized, m_ProviderState := nr_ProviderState normalized,
               m_Response := nr_Response normalized\<rparr>)
        in (if requireTerminal then markIncompleteResponse (nr_StopReason normalized) err synced else synced,
            nr_Usage normalized, nr_StopReason normalized, None))"

text \<open>The variables of the collecting loop, and how it ends.\<close>

record collector =
  cs_events :: "event list"
  cs_terminal :: bool
  cs_bytes :: int
  cs_overlap :: "overlap option"

datatype collect_end =
    StreamEnded | StreamStopped go_err | LimitExceeded go_err | CallbackFailed go_err | CallbackPanicked bytes

text \<open>A panic as a value.\<close>

definition attempt :: "('s, 'a) act \<Rightarrow> ('s, bytes + 'a) act" where
  "attempt m = recovering (bnd m (\<lambda>a. give (Inr a))) (\<lambda>recovered. give (Inl recovered))"

definition take_event ::
  "'x system \<Rightarrow> event \<Rightarrow> collector \<Rightarrow> collect_end + collector" where
  "take_event sys e cs =
     (let size = providerEventSize (te_error_text (sy_tool_env sys)) e in
      if maxProviderTurnEvents \<le> length (cs_events cs)
        then Inl (LimitExceeded (wrap_err ''more than 65536 events'' (sentinel ErrProviderTurnLimit)))
      else if maxProviderTurnBytes - cs_bytes cs < size
        then Inl (LimitExceeded (wrap_err ''more than 67108864 bytes'' (sentinel ErrProviderTurnLimit)))
      else Inr (cs\<lparr>cs_events := cs_events cs @ [e], cs_bytes := cs_bytes cs + size,
                   cs_terminal := (cs_terminal cs \<or> ev_Kind e = EventDone)\<rparr>))"

definition deliver ::
  "'x system \<Rightarrow> 'x loop_input \<Rightarrow> 'x engine \<Rightarrow> ('x world \<Rightarrow> go_err option) \<Rightarrow> event \<Rightarrow> overlap option
     \<Rightarrow> ('x world, go_err + overlap option) act" where
  "deliver sys inp en ctx e ov = bnd (fanOutEvent inp en e) (\<lambda>x. case x of
       Some err \<Rightarrow> give (Inl err)
     | None \<Rightarrow> bnd (observe_event sys inp en e ov) (\<lambda>ov1.
         bnd (advance sys inp en ctx ov1) (\<lambda>ov2. give (Inr ov2))))"

fun delivered ::
  "collector \<Rightarrow> bytes + (go_err + overlap option) \<Rightarrow> (collector \<times> collect_end) + collector" where
  "delivered cs (Inl b) = Inl (cs, CallbackPanicked b)"
| "delivered cs (Inr (Inl err)) = Inl (cs, CallbackFailed err)"
| "delivered cs (Inr (Inr ov)) = Inr (cs\<lparr>cs_overlap := ov\<rparr>)"

text \<open>What the loop does with the outcome of \<open>Recv\<close>: \<open>Inr\<close> goes on.\<close>

definition on_receive ::
  "'x system \<Rightarrow> 'x loop_input \<Rightarrow> 'x engine \<Rightarrow> ('x world \<Rightarrow> go_err option) \<Rightarrow> collector \<Rightarrow> go_err + event
     \<Rightarrow> ('x world, (collector \<times> collect_end) + collector) act" where
  "on_receive sys inp en ctx cs r = (case r of
       Inl err \<Rightarrow> give (Inl (cs,
         if err = sentinel IoEOF \<or>
            cs_terminal cs \<and> (errors_is CtxCanceled err \<or> errors_is CtxDeadlineExceeded err)
           then StreamEnded else StreamStopped err))
     | Inr e \<Rightarrow> (case take_event sys e cs of
           Inl limit \<Rightarrow> give (Inl (cs, limit))
         | Inr cs' \<Rightarrow> bnd (attempt (deliver sys inp en ctx e (cs_overlap cs))) (\<lambda>x. give (delivered cs' x))))"

definition collect_step ::
  "'x system \<Rightarrow> 'x loop_input \<Rightarrow> 'x engine \<Rightarrow> ('x world \<Rightarrow> go_err option) \<Rightarrow> 'x stream \<Rightarrow> collector
     \<Rightarrow> ('x world, (collector \<times> collect_end) + collector) act" where
  "collect_step sys inp en ctx sm cs =
     bnd (alter (sy_others sys)) (\<lambda>_. bnd (peek (request_err sys inp)) (\<lambda>done_err.
       case (if cs_terminal cs then None else done_err) of
         Some err \<Rightarrow> give (Inl (cs, StreamStopped err))
       | None \<Rightarrow> bnd (idle_Recv sys inp (tp_StreamIdleTimeout (resolved (li_ModelTimeouts inp))) sm)
           (on_receive sys inp en ctx cs)))"

lemma take_event_Inr:
  assumes "take_event sys e cs = Inr cs'"
  shows "cs_events cs' = cs_events cs @ [e]" "length (cs_events cs) < maxProviderTurnEvents"
    "cs_bytes cs' \<le> maxProviderTurnBytes"
    "cs_bytes cs' = cs_bytes cs + providerEventSize (te_error_text (sy_tool_env sys)) e"
  using assms by (auto simp: take_event_def Let_def split: if_splits)


lemma delivered_Inr: "delivered cs x = Inr cs' \<longleftrightarrow> (\<exists>ov. x = Inr (Inr ov) \<and> cs' = cs\<lparr>cs_overlap := ov\<rparr>)"
  by (cases "(cs, x)" rule: delivered.cases) auto

lemma deliver_result:
  assumes "on_receive sys inp en ctx cs r s = (s', Returned (Inr cs'))"
  shows "\<exists>e. cs_events cs' = cs_events cs @ [e] \<and> length (cs_events cs) < maxProviderTurnEvents \<and>
    cs_bytes cs' \<le> maxProviderTurnBytes"
proof -
  obtain e cs1 ov where "take_event sys e cs = Inr cs1" "cs' = cs1\<lparr>cs_overlap := ov\<rparr>"
    using assms by (auto simp: on_receive_def bnd_returned delivered_Inr split: sum.splits)
  then show ?thesis
    using take_event_Inr [of sys e cs cs1] by auto
qed

lemma collect_step_Inr:
  assumes "collect_step sys inp en ctx sm cs s = (s', Returned (Inr cs'))"
  shows "\<exists>e. cs_events cs' = cs_events cs @ [e] \<and> length (cs_events cs) < maxProviderTurnEvents \<and>
    cs_bytes cs' \<le> maxProviderTurnBytes"
  using assms
  by (auto simp: collect_step_def bnd_returned split: option.splits dest!: deliver_result)

function collect_loop ::
  "'x system \<Rightarrow> 'x loop_input \<Rightarrow> 'x engine \<Rightarrow> ('x world \<Rightarrow> go_err option) \<Rightarrow> 'x stream \<Rightarrow> collector
     \<Rightarrow> ('x world, collector \<times> collect_end) act" where
  "collect_loop sys inp en ctx sm cs w = (case collect_step sys inp en ctx sm cs w of
       (w', Panicked b) \<Rightarrow> (w', Panicked b)
     | (w', Returned (Inl stopped)) \<Rightarrow> (w', Returned stopped)
     | (w', Returned (Inr cs')) \<Rightarrow> collect_loop sys inp en ctx sm cs' w')"
  by pat_completeness auto
termination
  by (relation "measure (\<lambda>(sys, inp, en, ctx, sm, cs, w). Suc maxProviderTurnEvents - length (cs_events cs))")
     (auto dest!: collect_step_Inr [OF sym])

declare collect_loop.simps [simp del]

text \<open>How the turn is normalized at each end of the loop.\<close>

record model_turn =
  tu_assistant :: message
  tu_usage :: usage
  tu_stop :: stop_reason
  tu_identity :: stream_identity
  tu_opened :: bool
  tu_err :: "go_err option"

definition no_identity :: stream_identity where
  "no_identity = \<lparr>si_Provider = [], si_Model = []\<rparr>"

definition new_assistant :: message where
  "new_assistant = zero_message\<lparr>m_Role := RoleAssistant, m_Kind := KindStandard\<rparr>"

definition unopened_turn :: "go_err \<Rightarrow> model_turn" where
  "unopened_turn e = \<lparr>tu_assistant = zero_message, tu_usage = zero_usage, tu_stop = StopReasonError,
     tu_identity = no_identity, tu_opened = False, tu_err = Some e\<rparr>"

definition partial_turn :: "(bytes \<Rightarrow> bool) \<Rightarrow> event list \<Rightarrow> (stop_reason \<Rightarrow> stop_reason) \<Rightarrow> go_err \<Rightarrow> model_turn" where
  "partial_turn json_valid events stop e =
     (case applyNormalized json_valid events False new_assistant of (assistant, spent, partialStop, _) \<Rightarrow>
      \<lparr>tu_assistant = assistant, tu_usage = spent, tu_stop = stop partialStop,
       tu_identity = no_identity, tu_opened = True, tu_err = Some e\<rparr>)"

fun collected :: "(bytes \<Rightarrow> bool) \<Rightarrow> event list \<Rightarrow> collect_end \<Rightarrow> model_turn" where
  "collected json_valid events StreamEnded =
     (case applyNormalized json_valid events True new_assistant of (assistant, spent, stop, err) \<Rightarrow>
      \<lparr>tu_assistant = assistant, tu_usage = (if err = None then spent else zero_usage),
       tu_stop = (if err = None then stop else StopReasonError),
       tu_identity = no_identity, tu_opened = True, tu_err = err\<rparr>)"
| "collected json_valid events (StreamStopped e) = partial_turn json_valid events
     (\<lambda>stop. if stop = StopReasonOther [] then StopReasonError else stop) e"
| "collected json_valid events (LimitExceeded e) = partial_turn json_valid events (\<lambda>stop. stop) e"
| "collected json_valid events (CallbackFailed e) = partial_turn json_valid events (\<lambda>stop. stop) e"
| "collected json_valid events (CallbackPanicked b) = partial_turn json_valid events (\<lambda>_. StopReasonError)
     (wrap_err b (sentinel ErrPanicRecovered))"

text \<open>\<open>collect\<close> and \<open>collectTurnStream\<close>.\<close>

definition new_collector :: "overlap option \<Rightarrow> collector" where
  "new_collector ov = \<lparr>cs_events = [], cs_terminal = False, cs_bytes = 0, cs_overlap = ov\<rparr>"

definition collectTurnStream ::
  "'x system \<Rightarrow> 'x loop_input \<Rightarrow> 'x engine \<Rightarrow> ('x world \<Rightarrow> go_err option) \<Rightarrow> overlap option \<Rightarrow> 'x stream
     \<Rightarrow> ('x world, model_turn \<times> overlap option) act" where
  "collectTurnStream sys inp en ctx ov sm =
     bnd (collect_loop sys inp en ctx sm (new_collector ov)) (\<lambda>(cs, stopped).
     bnd (alter (close_stream sm)) (\<lambda>_.
       let turn = collected (sy_json_valid sys) (cs_events cs) stopped in
       bnd (finish_overlap sys inp en ctx (tu_err turn = None) (cs_overlap cs))
         (\<lambda>ov'. give (turn, ov'))))"

section \<open>The request\<close>

definition model_operation_id :: "int \<Rightarrow> bytes" where
  "model_operation_id turn = ''turn:'' @ print_int turn @ '':model''"

definition new_request :: "'x loop_input \<Rightarrow> 'x engine \<Rightarrow> int \<Rightarrow> message list \<Rightarrow> provider_request" where
  "new_request inp en operationTurn transformed = \<lparr>rq_Model = li_Model inp,
     rq_OperationID = model_operation_id operationTurn, rq_Messages = transformed,
     rq_MaxTokens = li_ModelMaxTokens inp,
     rq_Tools = (case en_Tools en of None \<Rightarrow> [] | Some b \<Rightarrow> Definitions b),
     rq_Metadata = li_Metadata inp, rq_CompleteToolCalls = (li_SafeStreamingTools inp \<noteq> []),
     rq_Options = li_Options inp\<rparr>"

text \<open>The request after the hooks: fitted, numbered, and with a valid body; or the error.\<close>

definition checked_request ::
  "'x system \<Rightarrow> 'x loop_input \<Rightarrow> ('x world \<Rightarrow> go_err option) \<Rightarrow> int \<Rightarrow> provider_request \<Rightarrow> 'x world
     \<Rightarrow> go_err + provider_request" where
  "checked_request sys inp ctx operationTurn rq w =
     (case (if 0 < li_ContextTokenTarget inp \<and> li_Compact inp = None \<and> li_CompactTo inp = None
            then fitContext (sy_marshal sys) (ctx w) (ctx w) (rq_Messages rq) (li_ContextTokenTarget inp)
            else Inr (rq_Messages rq)) of
        Inl e \<Rightarrow> Inl e
      | Inr messages \<Rightarrow>
          (case sy_extra_body sys (mo_ExtraBody (rq_Options rq)) of
             Some e \<Rightarrow> Inl e
           | None \<Rightarrow> Inr (rq\<lparr>rq_Messages := messages, rq_OperationID := model_operation_id operationTurn\<rparr>)))"

definition prepare_request ::
  "'x system \<Rightarrow> 'x loop_input \<Rightarrow> 'x engine \<Rightarrow> int \<Rightarrow> message list \<Rightarrow> ('x world, go_err + provider_request) act" where
  "prepare_request sys inp en operationTurn current =
     bnd (TransformContext (en_Hooks en) (ContextView current)) (\<lambda>x. case x of
         Inl e \<Rightarrow> give (Inl e)
       | Inr transformed \<Rightarrow>
           bnd (BeforeModelCall (en_Hooks en) (new_request inp en operationTurn transformed)) (\<lambda>y. case y of
             Inl e \<Rightarrow> give (Inl e)
           | Inr rq \<Rightarrow> bnd (alter (sy_others sys))
               (\<lambda>_. peek (checked_request sys inp (turn_err inp) operationTurn rq))))"

text \<open>The identity of the stream, completed from the provider and the request.\<close>

definition identify :: "'x engine \<Rightarrow> provider_request \<Rightarrow> 'x stream \<Rightarrow> 'x world \<Rightarrow> stream_identity" where
  "identify en rq sm w =
     (let i = (case sm_Identity sm of None \<Rightarrow> no_identity | Some f \<Rightarrow> f w)
      in \<lparr>si_Provider = (if si_Provider i = [] then en_ProviderName en else si_Provider i),
          si_Model = (if si_Model i = [] then rq_Model rq else si_Model i)\<rparr>)"

text \<open>Errors that carry the request timeout: of the connection, and of the collected turn.\<close>

definition timed_out :: "go_err \<Rightarrow> go_err" where
  "timed_out e = GoErr (ErrText []) [sentinel ErrModelRequestTimeout, sentinel CtxDeadlineExceeded, e]"

definition open_error :: "'x system \<Rightarrow> 'x loop_input \<Rightarrow> go_err \<Rightarrow> 'x world \<Rightarrow> go_err" where
  "open_error sys inp e w = (case request_cause sys inp w of
       Some cause \<Rightarrow> if errors_is ErrModelRequestTimeout cause then timed_out e else e
     | None \<Rightarrow> e)"

definition collect_error :: "'x system \<Rightarrow> 'x loop_input \<Rightarrow> model_turn \<Rightarrow> 'x world \<Rightarrow> model_turn" where
  "collect_error sys inp turn w =
     (if request_err sys inp w = Some (sentinel CtxDeadlineExceeded) \<and>
         (case request_cause sys inp w of None \<Rightarrow> False | Some c \<Rightarrow> errors_is ErrModelRequestTimeout c)
        then turn\<lparr>tu_err := map_option timed_out (tu_err turn)\<rparr> else turn)"

definition runTurn ::
  "'x system \<Rightarrow> 'x loop_input \<Rightarrow> 'x engine \<Rightarrow> ('x world \<Rightarrow> go_err option) \<Rightarrow> int \<Rightarrow> overlap option
     \<Rightarrow> message list \<Rightarrow> ('x world, model_turn \<times> overlap option) act" where
  "runTurn sys inp en ctx operationTurn ov current =
     bnd (prepare_request sys inp en operationTurn current) (\<lambda>x. case x of
         Inl e \<Rightarrow> give (unopened_turn e, ov)
       | Inr rq \<Rightarrow>
           bnd (openModelStream sys inp en (tp_ConnectTimeout (resolved (li_ModelTimeouts inp))) rq) (\<lambda>y. case y of
             Inl e \<Rightarrow> bnd (peek (open_error sys inp e)) (\<lambda>e'. give (unopened_turn e', ov))
           | Inr sm \<Rightarrow>
               bnd (collectTurnStream sys inp en ctx ov sm) (\<lambda>(turn, ov').
               bnd (alter (sy_others sys)) (\<lambda>_.
                 peek (\<lambda>w. ((collect_error sys inp turn w)\<lparr>tu_identity := identify en rq sm w\<rparr>, ov'))))))"

section \<open>Limits of a turn\<close>

definition turn_size :: "'x system \<Rightarrow> event list \<Rightarrow> int" where
  "turn_size sys events = sum_list (map (providerEventSize (te_error_text (sy_tool_env sys))) events)"

definition collector_ok :: "'x system \<Rightarrow> collector \<Rightarrow> bool" where
  "collector_ok sys cs \<longleftrightarrow> length (cs_events cs) \<le> maxProviderTurnEvents \<and>
     cs_bytes cs \<le> maxProviderTurnBytes \<and> cs_bytes cs = turn_size sys (cs_events cs)"

lemma take_event_ok: "collector_ok sys cs \<Longrightarrow> take_event sys e cs = Inr cs' \<Longrightarrow> collector_ok sys cs'"
  using take_event_Inr [of sys e cs cs'] by (simp add: collector_ok_def turn_size_def)

text \<open>The collector of either outcome of a step.\<close>

fun held :: "(collector \<times> collect_end) + collector \<Rightarrow> collector" where
  "held (Inl (cs, _)) = cs"
| "held (Inr cs) = cs"

lemma collector_ok_overlap [simp]: "collector_ok sys (cs\<lparr>cs_overlap := ov\<rparr>) = collector_ok sys cs"
  by (simp add: collector_ok_def)

lemma delivered_ok: "collector_ok sys cs \<Longrightarrow> collector_ok sys (held (delivered cs x))"
  by (cases "(cs, x)" rule: delivered.cases) auto

lemma returns_attempt [intro, simp]: "returns (attempt m)"
  unfolding attempt_def by (rule returns_recovering) simp

lemma on_receive_ok:
  assumes "collector_ok sys cs"
  shows "returns (on_receive sys inp en ctx cs r)"
    and "yields (on_receive sys inp en ctx cs r) (\<lambda>x. collector_ok sys (held x))"
proof -
  show "returns (on_receive sys inp en ctx cs r)"
    unfolding on_receive_def by (auto intro!: returns_bnd split: sum.split)
  show "yields (on_receive sys inp en ctx cs r) (\<lambda>x. collector_ok sys (held x))"
  proof (cases r)
    case (Inr e)
    then show ?thesis
      using assms take_event_ok [OF assms, of e]
      by (auto simp: on_receive_def intro!: yields_give yields_after delivered_ok split: sum.split)
  qed (use assms in \<open>auto simp: on_receive_def intro: yields_give\<close>)
qed

lemma returns_idle_Recv: "returns (idle_Recv sys inp timeout sm)"
proof -
  have "returns (receive sm)"
    by (simp add: returns_def receive_def split: prod.split)
  then show ?thesis
    unfolding idle_Recv_def by (auto intro!: returns_bnd split: wait.split option.split prod.split)
qed

lemma collect_step_ok:
  assumes "collector_ok sys cs"
  shows "returns (collect_step sys inp en ctx sm cs)"
    and "yields (collect_step sys inp en ctx sm cs) (\<lambda>x. collector_ok sys (held x))"
  using assms on_receive_ok [OF assms] returns_idle_Recv
  by (auto simp: collect_step_def intro!: returns_bnd yields_after yields_give split: option.split)

lemma collect_loop_ok:
  "collector_ok sys cs \<Longrightarrow>
     \<exists>w' cs' stopped. collect_loop sys inp en ctx sm cs w = (w', Returned (cs', stopped)) \<and> collector_ok sys cs'"
proof (induction sys inp en ctx sm cs w rule: collect_loop.induct)
  case (1 sys inp en ctx sm cs w)
  obtain w' x where step: "collect_step sys inp en ctx sm cs w = (w', Returned x)"
    using collect_step_ok(1) [OF 1(2)] by (rule returnsE)
  have x: "collector_ok sys (held x)"
    using keepsD(1) [OF collect_step_ok(2) [OF 1(2)] TrueI step] .
  show ?case
  proof (cases x)
    case (Inl stopped)
    then show ?thesis
      using step x by (cases stopped) (simp add: collect_loop.simps [of sys inp en ctx sm cs w])
  next
    case (Inr cs')
    then have "\<exists>w'' cs'' stopped. collect_loop sys inp en ctx sm cs' w' = (w'', Returned (cs'', stopped)) \<and>
        collector_ok sys cs''"
      using 1(1) [OF step [symmetric] refl] x by simp
    then show ?thesis
      using step Inr by (simp add: collect_loop.simps [of sys inp en ctx sm cs w])
  qed
qed

lemma markIncompleteResponse_accepted:
  "calls_accepted json_valid (m_ToolCalls m) \<Longrightarrow>
     calls_accepted json_valid (m_ToolCalls (markIncompleteResponse stop err m))"
  by (simp add: markIncompleteResponse_calls calls_accepted_def)

lemma applyNormalized_accepted:
  assumes "applyNormalized json_valid events complete new_assistant = (assistant, spent, stop, err)"
  shows "calls_accepted json_valid (m_ToolCalls assistant)"
proof -
  have none: "calls_accepted json_valid (m_ToolCalls new_assistant)"
    by (simp add: calls_accepted_def new_assistant_def zero_message_def)
  have "calls_accepted json_valid (nr_ToolCalls (fst (NormalizeEvents json_valid events)))"
    "calls_accepted json_valid (nr_ToolCalls (fst (NormalizePartialEvents json_valid events)))"
    by (simp_all add: NormalizeEvents_def NormalizePartialEvents_def normalizeEvents_accepts)
  then show ?thesis
    using assms none
    by (auto simp: applyNormalized_def Let_def markIncompleteResponse_accepted split: prod.splits if_splits)
qed

lemma collected_accepted: "calls_accepted json_valid (m_ToolCalls (tu_assistant (collected json_valid events stopped)))"
  by (cases stopped)
     (auto simp: partial_turn_def split: prod.split dest: applyNormalized_accepted)

section \<open>Early tools of a turn\<close>

definition early_ok :: "'x engine \<Rightarrow> overlap \<Rightarrow> overlap option \<Rightarrow> bool" where
  "early_ok en ov0 ov \<longleftrightarrow> (\<exists>o1. ov = Some o1 \<and> extends en ov0 o1)"

lemma early_ok_step:
  assumes "early_ok en ov0 ov" "\<And>o1. slots_ok en o1 \<Longrightarrow> yields (m (Some o1)) (\<lambda>x. \<exists>o2. x = Some o2 \<and> extends en o1 o2)"
  shows "yields (m ov) (early_ok en ov0)"
proof -
  obtain o1 where "ov = Some o1" "extends en ov0 o1"
    using assms(1) by (auto simp: early_ok_def)
  then show ?thesis
    using assms(2) [of o1]
    by (auto simp: early_ok_def extends_def elim!: keeps_weaken)
qed

lemma deliver_early:
  assumes "early_ok en ov0 ov"
  shows "yields (deliver sys inp en ctx e ov) (\<lambda>x. case x of Inl err \<Rightarrow> True | Inr ov' \<Rightarrow> early_ok en ov0 ov')"
proof -
  have "yields (bnd (observe_event sys inp en e ov) (\<lambda>ov1. bnd (advance sys inp en ctx ov1) (\<lambda>ov2. give (Inr ov2))))
      (\<lambda>x :: go_err + overlap option. case x of Inl err \<Rightarrow> True | Inr ov' \<Rightarrow> early_ok en ov0 ov')"
    by (rule keeps_bnd [OF early_ok_step [OF assms observe_event_extends]], assumption, rule keeps_pure,
        rule yields_mapped [OF early_ok_step [OF _ advance_extends]]) simp_all
  then show ?thesis
    unfolding deliver_def by (intro yields_after) (simp split: option.split)
qed

lemma attempt_Inr:
  assumes "attempt m s = (s', Returned (Inr a))"
  shows "m s = (s', Returned a)"
proof (cases "m s")
  case (Pair s1 r)
  then show ?thesis
    using assms by (cases r) (simp_all add: attempt_def recovering_def bnd_def)
qed

lemma on_receive_early:
  assumes "early_ok en ov0 (cs_overlap cs)" "on_receive sys inp en ctx cs r s = (s', Returned x)"
  shows "early_ok en ov0 (cs_overlap (held x))"
proof -
  consider "\<exists>stopped. x = Inl (cs, stopped)"
    | e cs' y where "r = Inr e" "take_event sys e cs = Inr cs'" "x = delivered cs' y"
        "attempt (deliver sys inp en ctx e (cs_overlap cs)) s = (s', Returned y)"
    using assms(2) by (auto simp: on_receive_def bnd_returned split: sum.splits)
  then show ?thesis
  proof cases
    case 2
    have same: "cs_overlap cs' = cs_overlap cs"
      using 2(2) by (auto simp: take_event_def Let_def split: if_splits)
    show ?thesis
    proof (cases "(cs', y)" rule: delivered.cases)
      case (3 cs1 ov)
      then have "deliver sys inp en ctx e (cs_overlap cs) s = (s', Returned (Inr ov))"
        using 2(4) by (auto dest: attempt_Inr)
      then show ?thesis
        using keepsD(1) [OF deliver_early [OF assms(1)] TrueI, of sys inp ctx e s s' "Inr ov"] 2(3) 3 by simp
    qed (use 2(3) same assms(1) in auto)
  qed (use assms(1) in auto)
qed

lemma collect_step_early:
  assumes "early_ok en ov0 (cs_overlap cs)" "collect_step sys inp en ctx sm cs s = (s', Returned x)"
  shows "early_ok en ov0 (cs_overlap (held x))"
  using assms by (auto simp: collect_step_def bnd_returned split: option.splits dest: on_receive_early)

lemma collect_loop_early:
  "early_ok en ov0 (cs_overlap cs) \<Longrightarrow> collect_loop sys inp en ctx sm cs w = (w', Returned (cs', stopped)) \<Longrightarrow>
     early_ok en ov0 (cs_overlap cs')"
proof (induction sys inp en ctx sm cs w rule: collect_loop.induct)
  case (1 sys inp en ctx sm cs w)
  obtain w1 r where step: "collect_step sys inp en ctx sm cs w = (w1, r)"
    by fastforce
  then consider "r = Returned (Inl (cs', stopped))"
    | cs1 where "r = Returned (Inr cs1)" "collect_loop sys inp en ctx sm cs1 w1 = (w', Returned (cs', stopped))"
    using 1(3) by (auto simp: collect_loop.simps [of sys inp en ctx sm cs w] split: outcome.splits sum.splits)
  then show ?case
  proof cases
    case 1
    then show ?thesis
      using collect_step_early [OF "1.prems"(1)] step by fastforce
  next
    case 2
    then show ?thesis
      using "1.IH" [OF step [symmetric] 2(1) refl _ 2(2)] collect_step_early [OF "1.prems"(1)] step by fastforce
  qed
qed

section \<open>Properties\<close>

text \<open>
  Collecting a turn always returns, whatever the stream sends and whatever the callbacks do
  (a panic of a callback included): it has recorded at most 65536 events of at most 64 MiB, and the
  assistant message it makes of them has at most 1024 tool calls, with distinct ids that are not
  blank and arguments that are empty or valid JSON.
\<close>

theorem turn_collection_bounded:
  "\<exists>w' cs stopped. collect_loop sys inp en ctx sm (new_collector ov) w = (w', Returned (cs, stopped)) \<and>
     length (cs_events cs) \<le> 65536 \<and>
     sum_list (map (providerEventSize (te_error_text (sy_tool_env sys))) (cs_events cs)) \<le> 64 * 2 ^ 20 \<and>
     calls_accepted (sy_json_valid sys)
       (m_ToolCalls (tu_assistant (collected (sy_json_valid sys) (cs_events cs) stopped)))"
proof -
  have "collector_ok sys (new_collector ov)"
    by (simp add: collector_ok_def new_collector_def turn_size_def maxProviderTurnBytes_def)
  then obtain w' cs stopped where
    "collect_loop sys inp en ctx sm (new_collector ov) w = (w', Returned (cs, stopped))" "collector_ok sys cs"
    using collect_loop_ok by blast
  then show ?thesis
    by (intro exI [of _ w'] exI [of _ cs] exI [of _ stopped])
       (simp add: collected_accepted collector_ok_def turn_size_def maxProviderTurnEvents_def maxProviderTurnBytes_def)
qed

text \<open>
  C20.  Tools that start while the model still streams stay within the batch limit and the remaining
  tool-call budget, whatever the stream and the hooks do; each of them is on the caller's list of
  safe tools, is neither terminal nor sequential, and carries the operation id of its own slot, so no
  two early tools share an operation id.
\<close>

theorem early_tools_respect_budget:
  assumes "newStreamOverlapState en inp turn used = Some ov0"
    and "collect_loop sys inp en ctx sm (new_collector (Some ov0)) w = (w', Returned (cs, stopped))"
  shows "\<exists>ov. cs_overlap cs = Some ov \<and> length (ov_entries ov) \<le> DefaultBatchConcurrency \<and>
    (0 < li_MaxToolCalls inp \<longrightarrow> int (length (ov_entries ov)) \<le> max 0 (li_MaxToolCalls inp - used)) \<and>
    (\<forall>i < length (ov_entries ov). let e = snd (ov_entries ov ! i); call = er_prepared (oe_result e) in
       started_entry e \<longrightarrow> tc_Name call \<in> set (li_SafeStreamingTools inp) \<and> eligible en ov call \<and>
         tc_OperationID call = operation_id turn (int i))"
proof -
  note new = new_overlap_ok [OF assms(1)]
  have "early_ok en ov0 (cs_overlap (new_collector (Some ov0)))"
    using new(1) by (simp add: early_ok_def new_collector_def extends_refl)
  then obtain ov where ov: "cs_overlap cs = Some ov" "settings ov = settings ov0" "slots_ok en ov"
    using collect_loop_early [OF _ assms(2)] by (auto simp: early_ok_def extends_def)
  then have "int (length (ov_entries ov)) \<le> ov_limit ov0"
    by (simp add: slots_ok_def settings_def)
  moreover have "set (ov_safe ov) \<subseteq> set (li_SafeStreamingTools inp)" "ov_operationTurn ov = turn"
    using ov(2) new by (auto simp: settings_def)
  ultimately show ?thesis
    using ov(1,3) new(3,4)
    by (auto simp: slots_ok_def slot_ok_def Let_def eligible_def)
qed

definition early_events :: "event list" where
  "early_events =
     [zero_event\<lparr>ev_Kind := EventToolCall, ev_ToolCall :=
        Some \<lparr>tc_ID = ''a'', tc_Name = ''look'', tc_Arguments = ''{}'', tc_OperationID = []\<rparr>\<rparr>,
      zero_event\<lparr>ev_Kind := EventDone, ev_StopReason := StopReasonToolUse\<rparr>]"

theorem early_tools_respect_budget_witness:
  "\<exists>ov0 w' cs stopped ov. newStreamOverlapState tape_engine tape_input 0 0 = Some ov0 \<and>
     collect_loop tape_system tape_input tape_engine w_parent_err tape_stream (new_collector (Some ov0)) (tape_world early_events) =
       (w', Returned (cs, stopped)) \<and>
     cs_overlap cs = Some ov \<and> length (ov_entries ov) \<le> 3"
proof -
  obtain ov0 where ov0: "newStreamOverlapState tape_engine tape_input 0 0 = Some ov0"
    by (simp add: newStreamOverlapState_def tape_engine_def tape_input_def Let_def)
  have "collector_ok tape_system (new_collector (Some ov0))"
    by (simp add: collector_ok_def new_collector_def turn_size_def maxProviderTurnBytes_def)
  then obtain w' cs stopped where run:
    "collect_loop tape_system tape_input tape_engine w_parent_err tape_stream (new_collector (Some ov0)) (tape_world early_events) =
       (w', Returned (cs, stopped))"
    using collect_loop_ok by blast
  have "0 < li_MaxToolCalls tape_input" "max 0 (li_MaxToolCalls tape_input - 0) = 3"
    by (simp_all add: tape_input_def)
  then have "\<exists>ov. cs_overlap cs = Some ov \<and> length (ov_entries ov) \<le> 3"
    using early_tools_respect_budget [OF ov0 run] by auto
  then show ?thesis
    using ov0 run by blast
qed

end
