(* ===== verification/StepEnds.thy ===== *)
theory StepEnds
  imports ModelTurn Guardrails Continuation
begin

text \<open>
  How a turn without tool calls ends: \<open>finalizeNoToolStep\<close>, \<open>observeBoundary\<close>,
  \<open>observeFinalizedStep\<close>, \<open>recordInterruptedTurn\<close>, \<open>handleTurnFailure\<close> of \<open>src/agent/agent.go\<close> and
  \<open>finishPausedTurn\<close> of \<open>src/agent/pause_continuation.go\<close>.  These functions take and return the
  loop's variables by value, so a panic inside them leaves the loop's own values: they are actions
  on the world alone.  \<open>turn_frame\<close> groups the counters they are given.
\<close>

section \<open>Counters of a turn\<close>

record turn_frame =
  tf_usage :: usage
  tf_contextUsage :: usage
  tf_iteration :: int
  tf_toolCallsUsed :: int
  tf_operationTurn :: int

definition model_call_of :: "model_turn \<Rightarrow> model_call" where
  "model_call_of t = \<lparr>mc_Provider = si_Provider (tu_identity t), mc_Model = si_Model (tu_identity t),
     mc_Usage = tu_usage t, mc_StopReason = tu_stop t\<rparr>"

definition new_step :: "turn_frame \<Rightarrow> model_call \<Rightarrow> step_decision \<Rightarrow> step" where
  "new_step fr mc decision = \<lparr>st_Index = tf_iteration fr, st_ModelCall = Some mc, st_ToolCalls = [],
     st_Observations = [], st_Decision = decision, st_ContextUsage = zero_usage,
     st_BudgetUsed = budget_of (tf_usage fr) (tf_toolCallsUsed fr)\<rparr>"

definition decide :: "step_decision \<Rightarrow> step list \<Rightarrow> step list" where
  "decide d = with_latest (\<lambda>s. s\<lparr>st_Decision := d\<rparr>)"

text \<open>\<open>loopErrorOutput\<close> after the turn of the frame.\<close>

definition frame_output :: "turn_frame \<Rightarrow> message list \<Rightarrow> step list \<Rightarrow> loop_output" where
  "frame_output fr current steps =
     loopErrorOutput current (tf_usage fr) steps (tf_iteration fr + 1) (tf_toolCallsUsed fr)"

section \<open>Observers\<close>

definition observeFinalizedStep :: "'x loop_input \<Rightarrow> step list \<Rightarrow> ('x world, go_err option) act" where
  "observeFinalizedStep inp steps = (case li_StepObserver inp of
       None \<Rightarrow> give None
     | Some f \<Rightarrow> if steps = [] then (\<lambda>w. (w, Panicked ''index out of range''))
         else bnd (f (last steps)) (\<lambda>x. give (map_option (wrap_err ''observe step'') x)))"

definition observeRecoveredStep :: "'x loop_input \<Rightarrow> step list \<Rightarrow> ('x world, go_err option) act" where
  "observeRecoveredStep inp steps = recovering (observeFinalizedStep inp steps)
     (\<lambda>b. give (Some (wrap_err b (sentinel ErrPanicRecovered))))"

text \<open>
  \<open>observeBoundary\<close>: but for the first phase it stamps the latest step with the context usage
  (\<open>stamp_context\<close>) before it looks at the observer.
\<close>

definition stamp_context :: "usage \<Rightarrow> step list \<Rightarrow> step list" where
  "stamp_context spent = with_latest (\<lambda>s. s\<lparr>st_ContextUsage := spent\<rparr>)"

definition boundary_continuation ::
  "'x system \<Rightarrow> 'x loop_input \<Rightarrow> turn_frame \<Rightarrow> message list \<Rightarrow> step list \<Rightarrow> continuation_phase \<Rightarrow> 'x world
     \<Rightarrow> continuation" where
  "boundary_continuation sys inp fr messages steps phase w = \<lparr>k_SchemaVersion = ContinuationSchemaVersion,
     k_Request = li_continuationRequest inp, k_OutputPolicy = li_continuationPolicy inp,
     k_Messages = messages, k_Usage = tf_usage fr, k_ContextUsage = tf_contextUsage fr, k_Steps = steps,
     k_ToolCallsUsed = tf_toolCallsUsed fr, k_RepairCount = li_repairCount inp,
     k_ActiveElapsed = li_activeElapsed inp + since_start sys inp w,
     k_NextOperationTurn = tf_operationTurn fr, k_Phase = phase\<rparr>"

definition observeBoundary ::
  "'x system \<Rightarrow> 'x loop_input \<Rightarrow> 'x engine \<Rightarrow> turn_frame \<Rightarrow> message list \<Rightarrow> step list \<Rightarrow> continuation_phase
     \<Rightarrow> ('x world, go_err option) act" where
  "observeBoundary sys inp en fr messages steps phase = (case en_Boundaries en of
       None \<Rightarrow> give None
     | Some notify \<Rightarrow> bnd (peek (boundary_continuation sys inp fr messages steps phase)) (\<lambda>k.
         case ValidateContinuation (sy_json_valid sys) k of
           Some e \<Rightarrow> give (Some (wrap_err ''build continuation'' e))
         | None \<Rightarrow> bnd (notify k) (\<lambda>x. give (map_option (wrap_err ''observe boundary'') x))))"

section \<open>Ends of a turn without tool calls\<close>

text \<open>The loop goes on with new variables, or ends with an output.\<close>

datatype step_end =
    RetryStep "message list" "step list"
  | EndStep "message list" "step list" loop_output "go_err option"

definition failed_end :: "turn_frame \<Rightarrow> message list \<Rightarrow> step list \<Rightarrow> go_err \<Rightarrow> step_end" where
  "failed_end fr current steps e = EndStep current steps (frame_output fr current steps) (Some e)"

text \<open>The step is observed; an error of the observer ends the run.\<close>

definition observed ::
  "'x loop_input \<Rightarrow> turn_frame \<Rightarrow> message list \<Rightarrow> step list \<Rightarrow> ('x world, step_end) act
     \<Rightarrow> ('x world, step_end) act" where
  "observed inp fr current steps k = bnd (observeFinalizedStep inp steps) (\<lambda>x. case x of
       Some e \<Rightarrow> give (failed_end fr current steps e)
     | None \<Rightarrow> k)"

definition pause_step :: "turn_frame \<Rightarrow> model_call \<Rightarrow> int \<Rightarrow> step" where
  "pause_step fr mc consecutive = (new_step fr mc StepDecisionContinue)\<lparr>
     st_Observations := [\<lparr>ob_Kind = pauseContinuationObservation,
       ob_Message = ''provider pause; continuing the same task ('' @ print_int consecutive @ ''/8)''\<rparr>],
     st_ContextUsage := tf_contextUsage fr\<rparr>"

definition pause_error ::
  "'x loop_input \<Rightarrow> model_call \<Rightarrow> int \<Rightarrow> go_err option \<Rightarrow> bool \<Rightarrow> go_err option" where
  "pause_error inp mc consecutive done_err steered =
     (case done_err of
        Some e \<Rightarrow> Some e
      | None \<Rightarrow>
          if 0 < li_MaxTokens inp \<and> u_TotalTokens (mc_Usage mc) = 0
            then Some (budget_error ''paused response reported no usage'')
          else if maxPauseContinuations < consecutive \<and> \<not> steered
            then Some (sentinel ErrPauseContinuationLimit)
          else None)"

definition finishPausedTurn ::
  "'x system \<Rightarrow> 'x loop_input \<Rightarrow> 'x engine \<Rightarrow> turn_frame \<Rightarrow> message list \<Rightarrow> message \<Rightarrow> model_call \<Rightarrow> step list
     \<Rightarrow> ('x world, step_end) act" where
  "finishPausedTurn sys inp en fr before assistant mc steps0 =
     (let current = before @ [assistant];
          consecutive = consecutivePauseContinuations steps0 + 1;
          steps = steps0 @ [pause_step fr mc consecutive]
      in bnd (context_now sys inp) (\<lambda>done_err.
         bnd (control_now sys inp False (\<lambda>c. (c, hasSteer c))) (\<lambda>steered.
         case pause_error inp mc consecutive done_err steered of
           Some e \<Rightarrow>
             let failed = decide StepDecisionFail steps
             in bnd (observeFinalizedStep inp failed) (\<lambda>x. give
                  (EndStep current failed (frame_output fr current failed) (errors_join [Some e, x])))
         | None \<Rightarrow> observed inp fr current steps
             (bnd (observeBoundary sys inp en fr current steps ContinuationReady) (\<lambda>x. give (case x of
                Some e \<Rightarrow> failed_end fr current steps e
              | None \<Rightarrow> RetryStep current steps))))))"

definition finish_output ::
  "turn_frame \<Rightarrow> message list \<Rightarrow> step list \<Rightarrow> stop_reason \<Rightarrow> bytes \<Rightarrow> loop_output" where
  "finish_output fr current steps stop thinking =
     (partial_output stop current (tf_usage fr) steps (tf_iteration fr + 1) (tf_toolCallsUsed fr))
       \<lparr>lo_Thinking := thinking\<rparr>"

text \<open>After the guardrails: recovery of an unusable response, queued input, or the end.\<close>

definition conclude_turn ::
  "'x system \<Rightarrow> 'x loop_input \<Rightarrow> 'x engine \<Rightarrow> turn_frame \<Rightarrow> message list \<Rightarrow> message list \<Rightarrow> message \<Rightarrow> step list
     \<Rightarrow> stop_reason \<Rightarrow> ('x world, step_end) act" where
  "conclude_turn sys inp en fr base shown finalOutput0 steps stop =
     (let finalOutput = markTextToolCallResponse sys (en_Tools en) inp stop finalOutput0 in
      case responseRecovery steps finalOutput (li_ResponseContinuation inp) of
        Inl e \<Rightarrow>
          let failed = decide StepDecisionFail steps
          in bnd (observeFinalizedStep inp failed) (\<lambda>x. give
               (EndStep shown failed (frame_output fr shown failed) (errors_join [Some e, x])))
      | Inr (Some correction) \<Rightarrow>
          let corrected = with_latest (\<lambda>s. s\<lparr>st_Decision := StepDecisionContinue,
                st_Observations := st_Observations s @
                  [\<lparr>ob_Kind = ''response_recovery'', ob_Message = recovery_reason finalOutput\<rparr>]\<rparr>) steps;
              current = appendFinalAssistant base finalOutput @ [correction]
          in observed inp fr current corrected (give (RetryStep current corrected))
      | Inr None \<Rightarrow>
          let current = appendFinalAssistant base finalOutput
          in bnd (control_now sys inp False continueOrSeal) (\<lambda>more_input.
               if more_input
                 then let continued = decide StepDecisionContinue steps
                   in observed inp fr current continued (give (RetryStep current continued))
               else observed inp fr current steps (give
                 (EndStep current steps (finish_output fr current steps stop (m_Thinking finalOutput)) None))))"

definition finalizeNoToolStep ::
  "'x system \<Rightarrow> 'x loop_input \<Rightarrow> 'x engine \<Rightarrow> turn_frame \<Rightarrow> message list \<Rightarrow> message \<Rightarrow> model_call \<Rightarrow> step list
     \<Rightarrow> stop_reason \<Rightarrow> ('x world, step_end) act" where
  "finalizeNoToolStep sys inp en fr base assistant mc steps0 stop =
     (if stop = StopReasonPause then finishPausedTurn sys inp en fr base assistant mc steps0
      else let shown = appendFinalAssistant base assistant;
               steps = stamp_context (tf_contextUsage fr) (steps0 @ [new_step fr mc StepDecisionFinish])
        in bnd (observeBoundary sys inp en fr shown steps ContinuationValidatingOutput) (\<lambda>x. case x of
             Some e \<Rightarrow> give (failed_end fr shown steps e)
           | None \<Rightarrow>
             if 0 < li_MaxTokens inp \<and> u_TotalTokens (mc_Usage mc) = 0
               then let failed = decide StepDecisionFail steps
                 in observed inp fr shown failed (give (case budgetAbort shown (tf_usage fr) failed
                      (tf_iteration fr + 1) (tf_toolCallsUsed fr) MaxTokensDimension of
                    (out, err) \<Rightarrow> EndStep shown failed out err))
             else bnd (applyOutputGuardrails inp base assistant (tf_iteration fr + 1) (tf_usage fr) stop)
               (\<lambda>y. case y of
                  Inl e \<Rightarrow> give (failed_end fr shown (decide StepDecisionFail steps) e)
                | Inr (finalOutput, retryMessages, policy) \<Rightarrow>
                    if retryMessages \<noteq> []
                      then let continued = decide StepDecisionContinue steps;
                               current = appendRetryContext base assistant retryMessages policy
                        in observed inp fr current continued (give (RetryStep current continued))
                    else conclude_turn sys inp en fr base shown finalOutput steps stop)))"

section \<open>Failed turns\<close>

definition recordIncompleteTurn ::
  "message list \<Rightarrow> model_turn \<Rightarrow> usage \<Rightarrow> int \<Rightarrow> int \<Rightarrow> message list \<times> usage \<times> int" where
  "recordIncompleteTurn current t spent iteration turnsRun =
     (let assistant = tu_assistant t in
      if m_Text assistant = [] \<and> m_Thinking assistant = [] \<and> m_RedactedThinking assistant = [] \<and>
         m_ToolCalls assistant = [] \<and> tu_usage t = zero_usage
        then (current, spent, turnsRun)
      else (current @ [assistant], usage_add spent (tu_usage t), iteration + 1))"

definition turnFailureStep :: "turn_frame \<Rightarrow> model_turn \<Rightarrow> step_decision \<Rightarrow> step" where
  "turnFailureStep fr t decision =
     (new_step fr (model_call_of t) decision)\<lparr>st_ContextUsage := tf_contextUsage fr\<rparr>"

record failure_result =
  fl_current :: "message list"
  fl_usage :: usage
  fl_steps :: "step list"
  fl_turnsRun :: int
  fl_err :: "go_err option"
  fl_retry :: bool

definition handleTurnFailure ::
  "'x loop_input \<Rightarrow> turn_frame \<Rightarrow> message list \<Rightarrow> step list \<Rightarrow> int \<Rightarrow> model_turn
     \<Rightarrow> ('x world, failure_result) act" where
  "handleTurnFailure inp fr before steps0 turnsRun0 t =
     (case recordIncompleteTurn before t (tf_usage fr) (tf_iteration fr) turnsRun0 of (current, spent, turnsRun) \<Rightarrow>
      if \<not> tu_opened t
        then give \<lparr>fl_current = current, fl_usage = spent, fl_steps = steps0, fl_turnsRun = turnsRun,
               fl_err = tu_err t, fl_retry = False\<rparr>
      else let steps = steps0 @ [turnFailureStep (fr\<lparr>tf_usage := spent\<rparr>) t StepDecisionFail]
        in bnd (observeFinalizedStep inp steps) (\<lambda>x. give
             \<lparr>fl_current = current, fl_usage = spent, fl_steps = steps,
              fl_turnsRun = max turnsRun (tf_iteration fr + 1),
              fl_err = (case x of None \<Rightarrow> tu_err t | Some e \<Rightarrow> errors_join [tu_err t, Some e]),
              fl_retry = False\<rparr>))"

text \<open>Steering: the turn keeps its text and usage, never its tool calls.\<close>

definition archive_last :: "message list \<Rightarrow> message list" where
  "archive_last ms = (if ms = [] then [] else butlast ms @ [(last ms)\<lparr>m_ContextArchived := True\<rparr>])"

definition recordInterruptedTurn ::
  "'x loop_input \<Rightarrow> turn_frame \<Rightarrow> message list \<Rightarrow> step list \<Rightarrow> int \<Rightarrow> model_turn
     \<Rightarrow> ('x world, failure_result) act" where
  "recordInterruptedTurn inp fr before steps0 turnsRun0 t0 =
     (let t = t0\<lparr>tu_assistant := (tu_assistant t0)\<lparr>m_ToolCalls := [], m_ProviderState := []\<rparr>\<rparr> in
      case recordIncompleteTurn before t (tf_usage fr) (tf_iteration fr) turnsRun0 of (current1, spent, turnsRun) \<Rightarrow>
      if \<not> tu_opened t
        then give \<lparr>fl_current = current1, fl_usage = spent, fl_steps = steps0, fl_turnsRun = turnsRun,
               fl_err = None, fl_retry = True\<rparr>
      else let current = archive_last
                 (if length current1 = length before then current1 @ [new_assistant] else current1);
               steps = steps0 @ [turnFailureStep (fr\<lparr>tf_usage := spent\<rparr>) t StepDecisionContinue]
        in bnd (observeFinalizedStep inp steps) (\<lambda>x. give
             \<lparr>fl_current = current, fl_usage = spent, fl_steps = steps,
              fl_turnsRun = max turnsRun (tf_iteration fr + 1), fl_err = x, fl_retry = (x = None)\<rparr>))"

definition handleControlledTurnFailure ::
  "'x loop_input \<Rightarrow> bool \<Rightarrow> turn_frame \<Rightarrow> message list \<Rightarrow> step list \<Rightarrow> int \<Rightarrow> model_turn
     \<Rightarrow> ('x world, failure_result) act" where
  "handleControlledTurnFailure inp steered fr current steps turnsRun t =
     (if steered then recordInterruptedTurn inp fr current steps turnsRun t
      else handleTurnFailure inp fr current steps turnsRun t)"

end
