(* ===== verification/AgentLoop.thy ===== *)
theory AgentLoop
  imports StepEnds
begin

text \<open>
  The loop of \<open>RunMessages\<close> in \<open>src/agent/agent.go\<close>: one round per model turn, with
  \<open>runTurnWithContextRecovery\<close>, \<open>runToolStep\<close>, \<open>finalizeToolStep\<close>, \<open>stepDecisionOverride\<close> and
  \<open>recoverRunMessagesPanic\<close>.  The state of a run is the loop's local variables over the world; what
  the code changes through a pointer is changed in this state, so a panic keeps it.  The loop takes
  fuel.
\<close>

section \<open>State of a run\<close>

text \<open>
  \<open>rn_recorded\<close> says that the latest step holds \<open>lastModelCall\<close> itself (the code compares the
  pointers); \<open>rn_observed\<close> that the loop's context observer is installed, as it is in \<open>RunMessages\<close> but
  not in the tool step that \<open>resume\<close> takes up.
\<close>

record 'x run =
  rn_world :: "'x world"
  rn_operationTurn :: int
  rn_overlap :: "overlap option"
  rn_current :: "message list"
  rn_usage :: usage
  rn_contextUsage :: usage
  rn_steps :: "step list"
  rn_lastModelCall :: "model_call option"
  rn_recorded :: bool
  rn_turnsRun :: int
  rn_toolCallsUsed :: int
  rn_observed :: bool

text \<open>
  The context observer of \<open>RunMessages\<close> adds the usage of each reported summary and stamps the
  latest step (\<open>snapshotContextUsage\<close>).  Without the observer a report reaches nobody.
\<close>

definition snapshotContextUsage :: "usage \<Rightarrow> usage \<Rightarrow> step list \<Rightarrow> step list" where
  "snapshotContextUsage billed spent = with_latest (\<lambda>s. s\<lparr>st_ContextUsage := spent,
     st_BudgetUsed := (st_BudgetUsed s)\<lparr>bu_Tokens := u_TotalTokens billed\<rparr>\<rparr>)"

definition fold_summaries :: "'x run \<Rightarrow> 'x run" where
  "fold_summaries r = (case w_summaries (rn_world r) of [] \<Rightarrow> r
     | us \<Rightarrow> if \<not> rn_observed r then r\<lparr>rn_world := (rn_world r)\<lparr>w_summaries := []\<rparr>\<rparr>
         else (let billed = foldl usage_add (rn_usage r) us;
                  spent = foldl usage_add (rn_contextUsage r) us
        in r\<lparr>rn_world := (rn_world r)\<lparr>w_summaries := []\<rparr>, rn_usage := billed, rn_contextUsage := spent,
              rn_steps := snapshotContextUsage billed spent (rn_steps r)\<rparr>))"

text \<open>An action on the world, run by the loop.\<close>

definition lift :: "('x world, 'a) act \<Rightarrow> ('x run, 'a) act" where
  "lift m = (\<lambda>r. case m (rn_world r) of (w, x) \<Rightarrow> (fold_summaries (r\<lparr>rn_world := w\<rparr>), x))"

definition frame_of :: "int \<Rightarrow> 'x run \<Rightarrow> turn_frame" where
  "frame_of iteration r = \<lparr>tf_usage = rn_usage r, tf_contextUsage = rn_contextUsage r,
     tf_iteration = iteration, tf_toolCallsUsed = rn_toolCallsUsed r, tf_operationTurn = rn_operationTurn r\<rparr>"

abbreviation set_steps :: "(step list \<Rightarrow> step list) \<Rightarrow> ('x run, unit) act" where
  "set_steps f \<equiv> alter (rn_steps_update f)"

text \<open>How a part of a round ends: the output of the run, or nothing.\<close>

type_synonym run_result = "loop_output \<times> go_err option"

definition run_error :: "int \<Rightarrow> go_err \<Rightarrow> ('x run, run_result) act" where
  "run_error iterations e = peek (\<lambda>r. (loopErrorOutput (rn_current r) (rn_usage r) (rn_steps r)
     iterations (rn_toolCallsUsed r), Some e))"

section \<open>The model turn\<close>

definition attempt_turn ::
  "'x system \<Rightarrow> 'x loop_input \<Rightarrow> 'x engine \<Rightarrow> ('x world \<Rightarrow> go_err option) \<Rightarrow> overlap option
     \<Rightarrow> ('x run, model_turn) act" where
  "attempt_turn sys inp en ctx ov =
     bnd (lift (control_now sys inp () (\<lambda>c. (updateTurnStarted (started ov) c, ())))) (\<lambda>_.
     bnd (peek (\<lambda>r. (rn_operationTurn r, rn_current r))) (\<lambda>(operationTurn, current).
     bnd (lift (runTurn sys inp en ctx operationTurn ov current)) (\<lambda>(t, ov').
     bnd (alter (rn_overlap_update (\<lambda>_. ov'))) (\<lambda>_. give t))))"

text \<open>\<open>IsContextOverflow\<close> reads the kind of a provider error.\<close>

definition IsContextOverflow :: "go_err \<Rightarrow> bool" where
  "IsContextOverflow = errors_is ErrContextOverflow"

definition recoverable :: "model_turn \<Rightarrow> overlap option \<Rightarrow> bool" where
  "recoverable t ov \<longleftrightarrow> (case tu_err t of None \<Rightarrow> False | Some e \<Rightarrow> IsContextOverflow e) \<and>
     CanonicalContent (tu_assistant t) = [] \<and> m_ToolCalls (tu_assistant t) = [] \<and> \<not> started ov"

text \<open>The second and last attempt, after a compaction; \<open>original\<close> is the first error.\<close>

definition retry_turn ::
  "'x system \<Rightarrow> 'x loop_input \<Rightarrow> 'x engine \<Rightarrow> go_err \<Rightarrow> message list \<Rightarrow> ('x run, model_turn) act" where
  "retry_turn sys inp en original compacted =
     bnd (alter (rn_current_update (\<lambda>_. compacted))) (\<lambda>_.
     bnd (peek (\<lambda>r. newStreamOverlapState en inp (rn_operationTurn r) (rn_toolCallsUsed r))) (\<lambda>ov.
     bnd (attempt_turn sys inp en (turn_err inp) ov) (\<lambda>t.
     bnd (peek rn_overlap) (\<lambda>ov'. give (
       if recoverable t ov' then t\<lparr>tu_err := Some original\<rparr>
       else case tu_err t of None \<Rightarrow> t
         | Some e \<Rightarrow> t\<lparr>tu_err := errors_join [Some original, Some e]\<rparr>)))))"

definition runTurnWithContextRecovery ::
  "'x system \<Rightarrow> 'x loop_input \<Rightarrow> 'x engine \<Rightarrow> nat \<Rightarrow> ('x run, model_turn) act" where
  "runTurnWithContextRecovery sys inp en fresh =
     bnd (peek (\<lambda>r. case rn_overlap r of Some o1 \<Rightarrow> Some o1
       | None \<Rightarrow> newStreamOverlapState en inp (rn_operationTurn r) (rn_toolCallsUsed r))) (\<lambda>ov.
     bnd (attempt_turn sys inp en (ctx_err (li_Control inp)) ov) (\<lambda>t.
     bnd (peek rn_overlap) (\<lambda>ov'.
       if \<not> recoverable t ov' then give t
       else let original = the (tu_err t) in
         bnd (peek rn_current) (\<lambda>history.
         bnd (lift (compactAfterContextOverflow sys (turn_err inp) inp fresh history)) (\<lambda>x. case x of
             Inl e \<Rightarrow> give (t\<lparr>tu_err := errors_join [Some original, Some e]\<rparr>)
           | Inr (compacted, changed) \<Rightarrow>
               if changed then retry_turn sys inp en original compacted else give t)))))"

section \<open>The tool step\<close>

definition number_calls :: "int \<Rightarrow> tool_call list \<Rightarrow> tool_call list" where
  "number_calls operationTurn calls =
     map (\<lambda>(i, c). c\<lparr>tc_OperationID := operation_id operationTurn (int i)\<rparr>) (enumerate 0 calls)"

text \<open>\<open>appendToolResults\<close>: a result is in the history before it is emitted.\<close>

fun appendToolResults ::
  "'x frame_sink option \<Rightarrow> tool_result list \<Rightarrow> ('x run, go_err option) act" where
  "appendToolResults s [] = give None"
| "appendToolResults s (result # results) =
     bnd (alter (rn_current_update (\<lambda>ms. ms @ [NewToolResult result]))) (\<lambda>_.
       case s of None \<Rightarrow> appendToolResults s results
       | Some f \<Rightarrow> bnd (lift (f (zero_frame\<lparr>fr_Kind := FrameToolResult, fr_ToolResult := Some result\<rparr>)))
           (\<lambda>x. case x of Some e \<Rightarrow> give (Some e) | None \<Rightarrow> appendToolResults s results))"

text \<open>\<open>stepDecisionOverride\<close>: nothing, a finish, or an error.\<close>

datatype override = NoOverride | OverrideFinish | OverrideError go_err

definition stepDecisionOverride :: "'x loop_input \<Rightarrow> ('x run, override) act" where
  "stepDecisionOverride inp = (case li_StepDecider inp of
       None \<Rightarrow> give NoOverride
     | Some decider \<Rightarrow> bnd (peek rn_steps) (\<lambda>steps. bnd (lift (decider steps)) (\<lambda>x. case x of
           Inl e \<Rightarrow> give (OverrideError (GoErr (ErrText ''step decider'') [sentinel ErrStepAborted, e]))
         | Inr decision \<Rightarrow>
             if decision = StepDecisionFinish
               then bnd (set_steps (decide decision)) (\<lambda>_. give OverrideFinish)
             else if decision = StepDecisionFail
               then bnd (set_steps (decide decision)) (\<lambda>_. give (OverrideError
                 (wrap_err ''step decider returned fail'' (sentinel ErrStepAborted))))
             else give NoOverride)))"

definition boundary_now ::
  "'x system \<Rightarrow> 'x loop_input \<Rightarrow> 'x engine \<Rightarrow> int \<Rightarrow> continuation_phase \<Rightarrow> ('x run, go_err option) act" where
  "boundary_now sys inp en iteration phase =
     bnd (if phase = ContinuationReady then give ()
          else alter (\<lambda>r. r\<lparr>rn_steps := stamp_context (rn_contextUsage r) (rn_steps r)\<rparr>)) (\<lambda>_.
     bnd (peek (\<lambda>r. (frame_of iteration r, rn_current r, rn_steps r))) (\<lambda>(fr, current, steps).
       lift (observeBoundary sys inp en fr current steps phase)))"

definition observe_now :: "'x loop_input \<Rightarrow> ('x run, go_err option) act" where
  "observe_now inp = bnd (peek rn_steps) (\<lambda>steps. lift (observeFinalizedStep inp steps))"

definition override_error :: "override \<Rightarrow> go_err option" where
  "override_error policy = (case policy of OverrideError e \<Rightarrow> Some e | _ \<Rightarrow> None)"

text \<open>The end of \<open>finalizeToolStep\<close>: the step is observed, then the boundary.\<close>

definition conclude_tools ::
  "'x system \<Rightarrow> 'x loop_input \<Rightarrow> 'x engine \<Rightarrow> bytes \<Rightarrow> bool \<Rightarrow> int \<Rightarrow> override \<Rightarrow> ('x run, run_result option) act" where
  "conclude_tools sys inp en thinking terminal iteration policy =
     bnd (set_steps (if override_error policy = None then id else decide StepDecisionFail)) (\<lambda>_.
     bnd (observe_now inp) (\<lambda>observeErr.
     bnd (if observeErr = None then boundary_now sys inp en iteration ContinuationToolsComplete else give None)
       (\<lambda>boundaryErr. case errors_join [override_error policy, observeErr, boundaryErr] of
          Some e \<Rightarrow> bnd (run_error (iteration + 1) e) (\<lambda>x. give (Some x))
        | None \<Rightarrow>
            if terminal \<or> policy = OverrideFinish
              then peek (\<lambda>r. Some (finish_output (frame_of iteration r) (rn_current r) (rn_steps r)
                StopReasonComplete thinking, None))
            else give None)))"

definition finalizeToolStep ::
  "'x system \<Rightarrow> 'x loop_input \<Rightarrow> 'x engine \<Rightarrow> message \<Rightarrow> tool_result list \<Rightarrow> bool \<Rightarrow> int
     \<Rightarrow> ('x run, run_result option) act" where
  "finalizeToolStep sys inp en assistant results terminal0 iteration =
     bnd (alter (\<lambda>r. r\<lparr>rn_steps := with_latest (\<lambda>s. s\<lparr>
            st_ToolCalls := toolCallTraces (m_ToolCalls assistant) results,
            st_BudgetUsed := budget_of (rn_usage r) (rn_toolCallsUsed r)\<rparr>) (rn_steps r)\<rparr>)) (\<lambda>_.
     bnd (if terminal0 then lift (control_now sys inp False continueOrSeal) else give False) (\<lambda>more_input.
       let terminal = (terminal0 \<and> \<not> more_input) in
       bnd (set_steps (decide (if terminal then StepDecisionFinish else StepDecisionContinue))) (\<lambda>_.
       bnd (if terminal then give NoOverride else stepDecisionOverride inp)
         (conclude_tools sys inp en (m_Thinking assistant) terminal iteration))))"

text \<open>The budget's refusal of a dispatch is a failed step.\<close>

definition refuse_dispatch :: "'x loop_input \<Rightarrow> int \<Rightarrow> dimension \<Rightarrow> ('x run, run_result) act" where
  "refuse_dispatch inp iteration d =
     bnd (set_steps (decide StepDecisionFail)) (\<lambda>_.
     bnd (observe_now inp) (\<lambda>x. case x of
         Some e \<Rightarrow> run_error (iteration + 1) e
       | None \<Rightarrow> peek (\<lambda>r. budgetAbort (rn_current r) (rn_usage r) (rn_steps r) (iteration + 1)
           (rn_toolCallsUsed r) d)))"

text \<open>What \<open>runToolStep\<close> does once the dispatch is allowed.\<close>

definition dispatch_step ::
  "'x system \<Rightarrow> 'x loop_input \<Rightarrow> 'x engine \<Rightarrow> message \<Rightarrow> int \<Rightarrow> ('x run, run_result option) act" where
  "dispatch_step sys inp en assistant iteration =
     (let calls = m_ToolCalls assistant in
      bnd (peek (\<lambda>r. (rn_overlap r, take_early (rn_overlap r) calls))) (\<lambda>(ov, early, pendingCalls, overlapErr).
      bnd (lift (preparePending en ov pendingCalls)) (\<lambda>x. case x of
          Inl e \<Rightarrow> bnd (run_error (iteration + 1) e) (\<lambda>y. give (Some y))
        | Inr pendingPrepared \<Rightarrow>
            (case mergePreparedToolCalls (en_Tools en) calls early pendingPrepared of (prepared, terminal) \<Rightarrow>
             bnd (alter (rn_toolCallsUsed_update (\<lambda>n. n + int (length calls)))) (\<lambda>_.
             bnd (lift (collecting (dispatchPreparedTools sys inp en (ctx_err (li_Control inp)) (li_ToolMode inp)
                    (li_Sink inp) pendingPrepared))) (\<lambda>((normalResults, dispatchErr), childUsage).
             case mergeCompletedToolResults calls early normalResults of (results, recordedResults, earlyUsage) \<Rightarrow>
             bnd (alter (\<lambda>r. let billed = usage_add (usage_add (rn_usage r) childUsage) earlyUsage
                   in r\<lparr>rn_usage := billed, rn_steps := with_latest (\<lambda>s. s\<lparr>st_BudgetUsed :=
                        budget_of billed (rn_toolCallsUsed r)\<rparr>) (rn_steps r)\<rparr>)) (\<lambda>_.
             bnd (appendToolResults (li_Sink inp) recordedResults) (\<lambda>appendErr.
               case errors_join [overlapErr, dispatchErr, appendErr] of
                 Some e \<Rightarrow> bnd (run_error (iteration + 1) e) (\<lambda>y. give (Some y))
               | None \<Rightarrow> finalizeToolStep sys inp en assistant results
                   (terminal \<and> (case en_Tools en of None \<Rightarrow> False | Some b \<Rightarrow>
                      list_ex (\<lambda>(result, p). \<not> tr_IsError result \<and> IsTerminal b (tc_Name p))
                        (zip results prepared)))
                   iteration))))))))"

definition runToolStep ::
  "'x system \<Rightarrow> 'x loop_input \<Rightarrow> 'x engine \<Rightarrow> message \<Rightarrow> model_call \<Rightarrow> int \<Rightarrow> int
     \<Rightarrow> ('x run, run_result option) act" where
  "runToolStep sys inp en assistant0 mc iteration operationTurn =
     (let assistant = assistant0\<lparr>m_ToolCalls := number_calls operationTurn (m_ToolCalls assistant0)\<rparr> in
      bnd (alter (\<lambda>r. r\<lparr>rn_current := rn_current r @ [assistant],
             rn_steps := rn_steps r @ [new_step (frame_of iteration r) mc StepDecisionContinue],
             rn_recorded := True\<rparr>)) (\<lambda>_.
      bnd (boundary_now sys inp en iteration ContinuationModelComplete) (\<lambda>boundaryErr. case boundaryErr of
          Some e \<Rightarrow> bnd (run_error (iteration + 1) e) (\<lambda>x. give (Some x))
        | None \<Rightarrow>
      bnd (lift (context_now sys inp)) (\<lambda>done_err. case done_err of
          Some e \<Rightarrow> bnd (run_error (iteration + 1) e) (\<lambda>x. give (Some x))
        | None \<Rightarrow>
      bnd (peek (\<lambda>r. if 0 < li_MaxTokens inp \<and> u_TotalTokens (mc_Usage mc) = 0 then Some MaxTokensDimension
             else preDispatchBudgetBlock inp (rn_usage r) (rn_toolCallsUsed r) (int (length (rn_steps r)))
               (int (length (m_ToolCalls assistant))))) (\<lambda>blocked. case blocked of
          Some d \<Rightarrow> bnd (refuse_dispatch inp iteration d) (\<lambda>x. give (Some x))
        | None \<Rightarrow> dispatch_step sys inp en assistant iteration)))))"

section \<open>Rounds\<close>

definition acknowledge_now :: "'x system \<Rightarrow> 'x loop_input \<Rightarrow> go_err option \<Rightarrow> ('x run, unit) act" where
  "acknowledge_now sys inp e = lift (control_now sys inp () (\<lambda>c. (acknowledge e c, ())))"

text \<open>Up to the model turn: the number of new inputs, or how the run ends.\<close>

definition begin_round ::
  "'x system \<Rightarrow> 'x loop_input \<Rightarrow> 'x engine \<Rightarrow> int \<Rightarrow> ('x run, run_result + nat) act" where
  "begin_round sys inp en iteration =
     bnd (lift (context_now sys inp)) (\<lambda>done_err. case done_err of
         Some e \<Rightarrow> bnd (run_error iteration e) (\<lambda>x. give (Inl x))
       | None \<Rightarrow>
     bnd (lift (control_now sys inp [] take_inputs)) (\<lambda>pendingInput.
     bnd (alter (\<lambda>r. r\<lparr>rn_current := rn_current r @ pendingInput,
            rn_steps := resetPauseForInput (length pendingInput) (rn_steps r)\<rparr>)) (\<lambda>_.
     bnd (peek (\<lambda>r. prepareIterationContext inp (length pendingInput) (rn_current r) (rn_usage r) (rn_steps r)
            iteration (rn_toolCallsUsed r))) (\<lambda>prepare.
     bnd (lift prepare) (\<lambda>x. case x of
         Inl (out, err) \<Rightarrow> peek (\<lambda>r. Inl (out\<lparr>lo_Usage := rn_usage r, lo_Steps := rn_steps r\<rparr>, err))
       | Inr prepared \<Rightarrow>
     bnd (alter (rn_current_update (\<lambda>_. prepared))) (\<lambda>_. case validatePendingInput prepared pendingInput of
         Some e \<Rightarrow> bnd (acknowledge_now sys inp (Some e)) (\<lambda>_. bnd (run_error iteration e) (\<lambda>x. give (Inl x)))
       | None \<Rightarrow>
     bnd (boundary_now sys inp en iteration ContinuationReady) (\<lambda>boundaryErr.
     bnd (acknowledge_now sys inp boundaryErr) (\<lambda>_. case boundaryErr of
         Some e \<Rightarrow> bnd (run_error iteration e) (\<lambda>x. give (Inl x))
       | None \<Rightarrow> give (Inr (length pendingInput))))))))))"

text \<open>
  The turn under its own context, and whether steering cancelled it: the cause is that of the
  context when \<open>releaseModelTurn\<close> ends it.
\<close>

definition release_turn :: "control \<Rightarrow> control \<times> bool" where
  "release_turn c = (endTurn c, case c_turn c of None \<Rightarrow> False | Some t \<Rightarrow>
     (case ts_cause t of None \<Rightarrow> False | Some cause \<Rightarrow> errors_is ErrControlSteer cause))"

definition run_model_turn ::
  "'x system \<Rightarrow> 'x loop_input \<Rightarrow> 'x engine \<Rightarrow> nat \<Rightarrow> ('x run, model_turn \<times> bool) act" where
  "run_model_turn sys inp en fresh =
     bnd (alter (\<lambda>r. r\<lparr>rn_overlap := newStreamOverlapState en inp (rn_operationTurn r) (rn_toolCallsUsed r)\<rparr>)) (\<lambda>_.
     bnd (peek rn_overlap) (\<lambda>ov.
     bnd (lift (control_now sys inp () (\<lambda>c. (beginTurn (started ov) c, ())))) (\<lambda>_.
     bnd (runTurnWithContextRecovery sys inp en fresh) (\<lambda>t.
     bnd (lift (control_now sys inp False release_turn)) (\<lambda>steered. give (t, steered))))))"

text \<open>A failed turn: the run ends, or (\<open>retry\<close>) goes on from the steps it has.\<close>

definition failed_round ::
  "'x loop_input \<Rightarrow> int \<Rightarrow> model_turn \<Rightarrow> bool \<Rightarrow> ('x run, run_result + int) act" where
  "failed_round inp iteration t steered =
     bnd (alter (\<lambda>r. if steered \<and> tu_opened t then r\<lparr>rn_operationTurn := wrap64 (rn_operationTurn r + 1)\<rparr> else r)) (\<lambda>_.
     bnd (peek (\<lambda>r. (frame_of iteration r, rn_current r, rn_steps r, rn_turnsRun r))) (\<lambda>(fr, current, steps, turnsRun).
     bnd (lift (handleControlledTurnFailure inp steered fr current steps turnsRun t)) (\<lambda>fl.
     bnd (alter (\<lambda>r. r\<lparr>rn_current := fl_current fl, rn_usage := fl_usage fl, rn_turnsRun := fl_turnsRun fl,
            rn_recorded := (rn_recorded r \<and> \<not> tu_opened t),
            rn_steps := snapshotContextUsage (fl_usage fl) (rn_contextUsage r) (fl_steps fl)\<rparr>)) (\<lambda>_.
       peek (\<lambda>r. if fl_retry fl then Inr (int (length (rn_steps r)))
         else Inl (loopErrorOutput (fl_current fl) (fl_usage fl) (rn_steps r) (fl_turnsRun fl)
                (rn_toolCallsUsed r), fl_err fl))))))"

text \<open>A turn without tool calls; the variables of the loop are assigned when the call returns.\<close>

definition finish_round ::
  "'x system \<Rightarrow> 'x loop_input \<Rightarrow> 'x engine \<Rightarrow> int \<Rightarrow> model_turn \<Rightarrow> ('x run, run_result + int) act" where
  "finish_round sys inp en iteration t =
     bnd (peek (\<lambda>r. (frame_of iteration r, rn_current r, rn_steps r))) (\<lambda>(fr, current, steps).
     bnd (lift (finalizeNoToolStep sys inp en fr current (tu_assistant t) (model_call_of t) steps (tu_stop t)))
       (\<lambda>x. case x of
          RetryStep current' steps' \<Rightarrow> bnd (alter (\<lambda>r. r\<lparr>rn_current := current', rn_steps := steps', rn_recorded := True\<rparr>))
            (\<lambda>_. give (Inr (iteration + 1)))
        | EndStep current' steps' out err \<Rightarrow>
            bnd (alter (\<lambda>r. r\<lparr>rn_current := current', rn_steps := steps', rn_recorded := True\<rparr>))
              (\<lambda>_. give (Inl (out, err)))))"

definition loop_round ::
  "'x system \<Rightarrow> 'x loop_input \<Rightarrow> 'x engine \<Rightarrow> int \<Rightarrow> ('x run, run_result + int) act" where
  "loop_round sys inp en iteration =
     bnd (begin_round sys inp en iteration) (\<lambda>x. case x of
         Inl ended \<Rightarrow> give (Inl ended)
       | Inr fresh \<Rightarrow>
     bnd (run_model_turn sys inp en fresh) (\<lambda>(t, steered).
       if tu_err t \<noteq> None then failed_round inp iteration t steered
       else
     bnd (peek rn_operationTurn) (\<lambda>operationTurn.
     bnd (alter (\<lambda>r. r\<lparr>rn_operationTurn := wrap64 (operationTurn + 1), rn_usage := usage_add (rn_usage r) (tu_usage t),
            rn_turnsRun := iteration + 1, rn_lastModelCall := Some (model_call_of t), rn_recorded := False\<rparr>)) (\<lambda>_.
       if m_ToolCalls (tu_assistant t) = [] then finish_round sys inp en iteration t
       else bnd (runToolStep sys inp en (tu_assistant t) (model_call_of t) iteration operationTurn) (\<lambda>y.
         give (case y of Some ended \<Rightarrow> Inl ended | None \<Rightarrow> Inr (iteration + 1)))))))"

section \<open>The run\<close>

definition normalizeIterationPolicy :: "'x loop_input \<Rightarrow> 'x loop_input" where
  "normalizeIterationPolicy inp =
     (if li_UnlimitedIterations inp then inp
      else if li_MaxIterations inp \<le> 0 then inp\<lparr>li_MaxIterations := 12\<rparr> else inp)"

definition iterationAllowed :: "'x loop_input \<Rightarrow> int \<Rightarrow> bool" where
  "iterationAllowed inp iteration \<longleftrightarrow> li_UnlimitedIterations inp \<or> iteration < li_MaxIterations inp"

definition exhausted_run :: "'x loop_input \<Rightarrow> 'x run \<Rightarrow> run_result" where
  "exhausted_run inp r = (case incompleteLoopError (rn_steps r) of
       Some e \<Rightarrow> (loopErrorOutput (rn_current r) (rn_usage r) (rn_steps r) (int (length (rn_steps r)))
         (rn_toolCallsUsed r), Some e)
     | None \<Rightarrow> (partial_output StopReasonMaxTurns (rn_current r) (rn_usage r) (rn_steps r)
         (li_MaxIterations inp) (rn_toolCallsUsed r), None))"

text \<open>\<open>None\<close>: out of fuel.\<close>

fun run_loop ::
  "nat \<Rightarrow> 'x system \<Rightarrow> 'x loop_input \<Rightarrow> 'x engine \<Rightarrow> int \<Rightarrow> ('x run, run_result option) act" where
  "run_loop fuel sys inp en iteration =
     (if \<not> iterationAllowed inp iteration then peek (\<lambda>r. Some (exhausted_run inp r))
      else case fuel of 0 \<Rightarrow> give None
        | Suc fuel' \<Rightarrow> bnd (loop_round sys inp en iteration) (\<lambda>x. case x of
              Inl ended \<Rightarrow> give (Some ended)
            | Inr next \<Rightarrow> run_loop fuel' sys inp en next))"

declare run_loop.simps [simp del]

definition panic_step :: "model_call \<Rightarrow> 'x run \<Rightarrow> step" where
  "panic_step mc r = (new_step (frame_of (rn_turnsRun r - 1) r) mc StepDecisionFail)
     \<lparr>st_ContextUsage := rn_contextUsage r\<rparr>"

definition recoverRunMessagesPanic :: "'x loop_input \<Rightarrow> bytes \<Rightarrow> ('x run, run_result) act" where
  "recoverRunMessagesPanic inp b =
     bnd (peek (\<lambda>r. case rn_lastModelCall r of None \<Rightarrow> None
       | Some mc \<Rightarrow> if rn_recorded r \<and> rn_steps r \<noteq> [] then None else Some (panic_step mc r))) (\<lambda>missing.
     bnd (case missing of None \<Rightarrow> give None
       | Some s \<Rightarrow> bnd (set_steps (\<lambda>steps. steps @ [s])) (\<lambda>_. bnd (peek rn_steps) (\<lambda>steps.
           lift (observeRecoveredStep inp steps)))) (\<lambda>observeErr.
       peek (\<lambda>r. (loopErrorOutput (rn_current r) (rn_usage r) (rn_steps r) (rn_turnsRun r) (rn_toolCallsUsed r),
         errors_join [observeErr, Some (wrap_err b (sentinel ErrPanicRecovered))]))))"

definition start_run :: "'x loop_input \<Rightarrow> 'x world \<Rightarrow> 'x run" where
  "start_run inp w = \<lparr>rn_world = w\<lparr>w_summaries := []\<rparr>,
     rn_operationTurn = max (li_OperationTurn inp) (nextToolOperationTurn (li_Messages inp)),
     rn_overlap = None, rn_current = li_Messages inp, rn_usage = li_initialUsage inp,
     rn_contextUsage = li_initialContextUsage inp, rn_steps = li_initialSteps inp,
     rn_lastModelCall = None, rn_recorded = False, rn_turnsRun = int (length (li_initialSteps inp)),
     rn_toolCallsUsed = li_initialToolCallsUsed inp, rn_observed = True\<rparr>"

text \<open>The body between the deferred functions, and the fields the second of them fills in.\<close>

definition guarded_run ::
  "nat \<Rightarrow> 'x system \<Rightarrow> 'x loop_input \<Rightarrow> 'x engine \<Rightarrow> ('x run, run_result option) act" where
  "guarded_run fuel sys inp en =
     recovering (run_loop fuel sys inp en (int (length (li_initialSteps inp))))
       (\<lambda>b. bnd (recoverRunMessagesPanic inp b) (\<lambda>x. give (Some x)))"

definition complete_output :: "'x system \<Rightarrow> 'x loop_input \<Rightarrow> 'x run \<Rightarrow> run_result \<Rightarrow> run_result" where
  "complete_output sys inp r = (\<lambda>(out, err). (out\<lparr>lo_NextOperationTurn := rn_operationTurn r,
     lo_ActiveElapsed := li_activeElapsed inp + since_start sys inp (rn_world r),
     lo_RepairCount := li_repairCount inp, lo_contextUsage := rn_contextUsage r\<rparr>, err))"

text \<open>The defaults of the input, then the run.\<close>

definition run_input :: "int \<Rightarrow> 'x loop_input \<Rightarrow> 'x loop_input" where
  "run_input now inp = (normalizeIterationPolicy inp)\<lparr>li_controlBound := True,
     li_segmentStarted := Some (case li_segmentStarted inp of None \<Rightarrow> now | Some t \<Rightarrow> t),
     li_ToolMode := (if li_ToolMode inp = ModeOther [] then ModeSequential else li_ToolMode inp)\<rparr>"

definition run_messages ::
  "nat \<Rightarrow> 'x system \<Rightarrow> 'x loop_input \<Rightarrow> 'x engine \<Rightarrow> ('x world, run_result option) act" where
  "run_messages fuel sys inp0 en w =
     (let inp = run_input (sy_now sys w) inp0
      in case guarded_run fuel sys inp en (start_run inp w) of
           (r, Panicked b) \<Rightarrow> (rn_world r, Panicked b)
         | (r, Returned x) \<Rightarrow> (rn_world r, Returned (map_option (complete_output sys inp r) x)))"

definition RunMessages ::
  "nat \<Rightarrow> 'x system \<Rightarrow> 'x loop_input \<Rightarrow> 'x engine \<Rightarrow> ('x world, run_result option) act" where
  "RunMessages fuel sys inp en0 =
     (case (case en_OutputStore en0 of None \<Rightarrow> (en_Tools en0, None)
            | Some store \<Rightarrow> attachOutputStoreTools sys (en_Tools en0) (Some store)) of
        (_, Some e) \<Rightarrow> give (Some (zero_output, Some e))
      | (tools, None) \<Rightarrow>
          let en = en0\<lparr>en_Tools := tools\<rparr> in
          if li_controlBound inp then run_messages fuel sys inp en
          else bnd (alter (sy_others sys)) (\<lambda>_. bnd (peek w_parent_err) (\<lambda>parent.
            bnd (on_control (li_Control inp) None (start_control parent)) (\<lambda>err. case err of
                Some e \<Rightarrow> give (Some (zero_output, Some e))
              | None \<Rightarrow> bnd (run_messages fuel sys inp en) (\<lambda>x.
                  bnd (control_now sys inp () (\<lambda>c. (finish_control c, ()))) (\<lambda>_. give x))))))"

section \<open>The run returns\<close>

lemma lift_apply: "lift m r = (case m (rn_world r) of (w, x) \<Rightarrow> (fold_summaries (r\<lparr>rn_world := w\<rparr>), x))"
  by (simp add: lift_def)

lemma yields_lift: "yields m Q \<Longrightarrow> yields (lift m) Q"
  by (auto simp: keeps_def lift_def split: prod.splits outcome.splits)

lemma returns_lift: "returns m \<Longrightarrow> returns (lift m)"
  unfolding returns_def lift_def by (metis (mono_tags, lifting) case_prod_conv)

lemma yields_peek [simp]: "yields (peek f) Q = (\<forall>r. Q (f r))" "yields (\<lambda>r. (r, Returned (f r))) Q = (\<forall>r. Q (f r))"
  by (simp_all add: keeps_def)

lemma yields_both: "yields m R \<Longrightarrow> (\<And>a. R a \<Longrightarrow> yields (f a) Q) \<Longrightarrow> yields (bnd m f) Q"
  by (rule keeps_bnd [where R = "\<lambda>a _. R a"]) (auto intro: keeps_pure)

text \<open>How a round ends: with the run, or at the next iteration.\<close>

fun advances :: "int \<Rightarrow> run_result + int \<Rightarrow> bool" where
  "advances iteration (Inl ended) = True"
| "advances iteration (Inr next) = (next = iteration + 1)"

lemma handleTurnFailure_stops: "yields (handleTurnFailure inp fr current steps turnsRun t) (\<lambda>fl. \<not> fl_retry fl)"
  by (auto simp: handleTurnFailure_def Let_def intro!: yields_after split: prod.split)

lemma failed_round_advances: "yields (failed_round inp iteration t False) (advances iteration)"
  unfolding failed_round_def handleControlledTurnFailure_def
  by (auto intro!: yields_after yields_both [OF yields_lift [OF handleTurnFailure_stops]] keeps_peek)

lemma finish_round_advances: "yields (finish_round sys inp en iteration t) (advances iteration)"
  unfolding finish_round_def by (auto intro!: yields_after split: step_end.split)

lemma not_steered:
  assumes "\<not> li_Control inp"
  shows "yields (run_model_turn sys inp en fresh) (\<lambda>(t, steered). \<not> steered)"
proof -
  have "yields (control_now sys inp False release_turn) Not"
    by (auto simp: control_now_def on_control_def assms keeps_def bnd_def alter_def)
  then have "yields (bnd (lift (control_now sys inp False release_turn)) (\<lambda>steered. give (t, steered)))
      (\<lambda>(t, steered). \<not> steered)" for t
    by (intro yields_both [OF yields_lift]) auto
  note last = this
  show ?thesis
    unfolding run_model_turn_def by (rule yields_after, rule yields_after, rule yields_after, rule yields_after, rule last)
qed

lemma loop_round_advances:
  assumes "\<not> li_Control inp"
  shows "yields (loop_round sys inp en iteration) (advances iteration)"
  unfolding loop_round_def
  by (auto intro!: yields_after yields_both [OF not_steered [OF assms]] failed_round_advances finish_round_advances
      split: sum.split option.split)

text \<open>The fuel was enough.\<close>

definition in_fuel :: "'a option \<Rightarrow> bool" where
  "in_fuel x \<longleftrightarrow> x \<noteq> None"

lemma in_fuel_simps [simp]: "in_fuel (Some a)" "\<not> in_fuel None" "in_fuel (map_option f x) = in_fuel x"
  by (simp_all add: in_fuel_def)

lemma run_loop_enough:
  assumes "\<not> li_Control inp" "\<not> li_UnlimitedIterations inp"
  shows "nat (li_MaxIterations inp - iteration) \<le> fuel \<Longrightarrow>
    yields (run_loop fuel sys inp en iteration) in_fuel"
proof (induction fuel arbitrary: iteration)
  case 0
  then show ?case
    using assms(2) by (auto simp: run_loop.simps [of 0] iterationAllowed_def intro!: keeps_peek)
next
  case (Suc fuel)
  have "yields (run_loop fuel sys inp en (iteration + 1)) in_fuel"
    using Suc.prems by (intro Suc.IH) simp
  then show ?case
    by (auto simp: run_loop.simps [of "Suc fuel"] intro!: keeps_peek yields_both [OF loop_round_advances [OF assms(1)]]
        split: sum.split)
qed

lemma returns_recover: "returns (recoverRunMessagesPanic inp b)"
  unfolding recoverRunMessagesPanic_def observeRecoveredStep_def
  by (auto intro!: returns_bnd returns_lift returns_recovering split: option.split)

lemma returns_guarded_run: "returns (guarded_run fuel sys inp en)"
  unfolding guarded_run_def by (auto intro!: returns_bnd returns_recovering returns_recover)

lemma returns_run_messages: "returns (run_messages fuel sys inp en)"
proof -
  have "\<exists>w' a. run_messages fuel sys inp en w = (w', Returned a)" for w
  proof -
    let ?t = "sy_now sys w"
    obtain r x where "guarded_run fuel sys (run_input ?t inp) en (start_run (run_input ?t inp) w) = (r, Returned x)"
      using returns_guarded_run by (rule returnsE)
    then show ?thesis
      by (simp add: run_messages_def Let_def)
  qed
  then show ?thesis
    by (simp only: returns_def) blast
qed

lemma returns_on_control: "returns (on_control b absent f)" "returns (control_now sys inp absent f)"
  by (auto simp: returns_def on_control_def control_now_def bnd_def alter_def split: prod.split)

text \<open>Whatever the extensions do, a panic does not leave \<open>RunMessages\<close>.\<close>

lemma returns_RunMessages: "returns (RunMessages fuel sys inp en)"
  unfolding RunMessages_def Let_def
  by (auto intro!: returns_bnd returns_run_messages returns_on_control split: prod.split option.split)

text \<open>With enough fuel for its iterations the run is not cut off.\<close>

lemma run_messages_enough:
  assumes "\<not> li_Control inp" "\<not> li_UnlimitedIterations inp"
    and "nat (li_MaxIterations (normalizeIterationPolicy inp)) \<le> fuel"
  shows "yields (run_messages fuel sys inp en) in_fuel"
proof -
  have "\<not> li_Control (run_input t inp)" "\<not> li_UnlimitedIterations (run_input t inp)"
    "nat (li_MaxIterations (run_input t inp) - int (length (li_initialSteps (run_input t inp)))) \<le> fuel" for t
    using assms by (auto simp: run_input_def normalizeIterationPolicy_def)
  then have "yields (run_loop fuel sys (run_input t inp) en (int (length (li_initialSteps (run_input t inp))))) in_fuel" for t
    by (intro run_loop_enough)
  then have guarded: "yields (guarded_run fuel sys (run_input t inp) en) in_fuel" for t
    unfolding guarded_run_def by (rule keeps_recovering) (intro yields_after yields_give in_fuel_simps)
  show ?thesis
    by (rule keepsI) (auto simp: run_messages_def Let_def split: prod.splits outcome.splits
        dest!: keepsD(1) [OF guarded TrueI])
qed

section \<open>The tool-call counter\<close>

text \<open>
  The account of a run: its counter, and the calls its steps have traces of.  Most of a round leaves
  the account at the \<open>n\<close> it had; \<open>Q\<close> is what the action returns then.
\<close>

definition recorded_calls :: "step list \<Rightarrow> nat" where
  "recorded_calls steps = sum_list (map (\<lambda>s. length (st_ToolCalls s)) steps)"

definition tally :: "'x run \<Rightarrow> int \<times> nat" where
  "tally r = (rn_toolCallsUsed r, recorded_calls (rn_steps r))"

lemma recorded_calls_simps [simp]:
  "recorded_calls [] = 0" "recorded_calls (s # steps) = length (st_ToolCalls s) + recorded_calls steps"
  "recorded_calls (xs @ ys) = recorded_calls xs + recorded_calls ys"
  by (simp_all add: recorded_calls_def)

lemma recorded_with_latest:
  "(\<And>s. length (st_ToolCalls (f s)) = length (st_ToolCalls s)) \<Longrightarrow>
     recorded_calls (with_latest f steps) = recorded_calls steps"
  by (cases steps rule: rev_cases) (simp_all add: with_latest_def)

lemma recorded_with_latest_le:
  "(\<And>s. length (st_ToolCalls (f s)) \<le> n) \<Longrightarrow> recorded_calls (with_latest f steps) \<le> recorded_calls steps + n"
  by (cases steps rule: rev_cases) (simp_all add: with_latest_def trans_le_add2)

lemma recorded_stamps [simp]:
  "recorded_calls (decide d steps) = recorded_calls steps"
  "recorded_calls (stamp_context u steps) = recorded_calls steps"
  "recorded_calls (snapshotContextUsage u v steps) = recorded_calls steps"
  "recorded_calls (resetPauseForInput k steps) = recorded_calls steps"
  "recorded_calls (with_latest (st_BudgetUsed_update g) steps) = recorded_calls steps"
  by (simp_all add: decide_def stamp_context_def snapshotContextUsage_def resetPauseForInput_def recorded_with_latest)

lemma new_steps_calls [simp]:
  "st_ToolCalls (new_step fr mc d) = []" "st_ToolCalls (turnFailureStep fr t d) = []"
  "st_ToolCalls (pause_step fr mc k) = []" "st_ToolCalls (panic_step mc r) = []"
  by (simp_all add: new_step_def turnFailureStep_def pause_step_def panic_step_def)

lemma toolCallTraces_length [simp]: "length (toolCallTraces calls results) = length calls"
  by (induction calls results rule: toolCallTraces.induct) (simp_all add: Let_def split: list.split)

definition steady :: "int \<times> nat \<Rightarrow> ('x run, 'a) act \<Rightarrow> ('a \<Rightarrow> bool) \<Rightarrow> bool" where
  "steady n m Q \<longleftrightarrow> keeps (\<lambda>r. tally r = n) m (\<lambda>a r. tally r = n \<and> Q a) (\<lambda>r. tally r = n)"

named_theorems steady_intros \<open>actions that leave the account alone\<close>

lemma steady_give [steady_intros]: "Q a \<Longrightarrow> steady n (give a) Q"
  and steady_peek [steady_intros]: "(\<And>r. tally r = n \<Longrightarrow> Q (f r)) \<Longrightarrow> steady n (peek f) Q"
  by (auto simp: steady_def keeps_def)

lemma steady_alter [steady_intros]:
  "(\<And>r. tally (g r) = tally r) \<Longrightarrow> Q () \<Longrightarrow> steady n (alter g) Q"
  by (auto simp: steady_def keeps_def)

lemma fold_summaries_tally [simp]: "tally (fold_summaries r) = tally r"
  by (simp add: fold_summaries_def tally_def Let_def split: list.split)

lemma tally_world [simp]: "tally (r\<lparr>rn_world := w\<rparr>) = tally r"
  by (simp add: tally_def)

lemma steady_lift: "yields m Q \<Longrightarrow> steady n (lift m) Q"
  by (auto simp: steady_def keeps_def lift_def split: prod.splits outcome.splits)

lemma steady_bnd:
  assumes "steady n m R" "\<And>a. R a \<Longrightarrow> steady n (f a) Q"
  shows "steady n (bnd m f) Q"
  unfolding steady_def
  by (rule keeps_bnd [OF assms(1) [unfolded steady_def]])
     (use assms(2) in \<open>auto simp: steady_def keeps_def split: prod.splits outcome.splits\<close>)

text \<open>An action whose result does not matter, then another.\<close>

lemma steady_then [steady_intros]:
  "steady n m (\<lambda>_. True) \<Longrightarrow> (\<And>a. steady n (f a) Q) \<Longrightarrow> steady n (bnd m f) Q"
  by (rule steady_bnd)

lemma steady_lift_any [steady_intros]: "steady n (lift m) (\<lambda>_. True)"
  by (rule steady_lift) simp

lemma steady_if [steady_intros]:
  "(c \<Longrightarrow> steady n m Q) \<Longrightarrow> (\<not> c \<Longrightarrow> steady n k Q) \<Longrightarrow> steady n (if c then m else k) Q"
  by simp

lemma steady_case [steady_intros]:
  "(\<And>e. x = Inl e \<Longrightarrow> steady n (f e) Q) \<Longrightarrow> (\<And>a. x = Inr a \<Longrightarrow> steady n (g a) Q) \<Longrightarrow>
     steady n (case x of Inl e \<Rightarrow> f e | Inr a \<Rightarrow> g a) Q"
  "(y = None \<Longrightarrow> steady n m Q) \<Longrightarrow> (\<And>a. y = Some a \<Longrightarrow> steady n (h a) Q) \<Longrightarrow>
     steady n (case y of None \<Rightarrow> m | Some a \<Rightarrow> h a) Q"
  "(\<And>a b. z = (a, b) \<Longrightarrow> steady n (k a b) Q) \<Longrightarrow> steady n (case z of (a, b) \<Rightarrow> k a b) Q"
  "(\<And>a b. p = (a, b) \<Longrightarrow> steady n (l a b c) Q) \<Longrightarrow> steady n ((case p of (a, b) \<Rightarrow> l a b) c) Q"
  by (simp_all split: sum.split option.split prod.split)

text \<open>The output reports the account.\<close>

definition reports :: "int \<times> nat \<Rightarrow> run_result \<Rightarrow> bool" where
  "reports n = (\<lambda>(out, err). (lo_ToolCallsUsed out, recorded_calls (lo_Steps out)) = n)"

lemma reports_partial [simp]:
  "reports n (partial_output stop current spent steps k u, e) \<longleftrightarrow> (u, recorded_calls steps) = n"
  "reports n (loopErrorOutput current spent steps k u, e) \<longleftrightarrow> (u, recorded_calls steps) = n"
  "reports n (budgetAbort current spent steps k u d) \<longleftrightarrow> (u, recorded_calls steps) = n"
  by (simp_all add: reports_def partial_output_def loopErrorOutput_def budgetAbort_def)

definition reports_end :: "int \<times> nat \<Rightarrow> run_result + 'a \<Rightarrow> bool" where
  "reports_end n x = (case x of Inl ended \<Rightarrow> reports n ended | Inr _ \<Rightarrow> True)"

definition reports_stop :: "int \<times> nat \<Rightarrow> run_result option \<Rightarrow> bool" where
  "reports_stop n x = (case x of Some ended \<Rightarrow> reports n ended | None \<Rightarrow> True)"

lemma reports_simps [simp]:
  "reports_end n (Inl ended) = reports n ended" "reports_end n (Inr a)"
  "reports_stop n (Some ended) = reports n ended" "reports_stop n None"
  by (simp_all add: reports_end_def reports_stop_def)

lemma steady_run_error: "steady n (run_error k e) (reports n)"
  unfolding run_error_def by (auto intro!: steady_intros simp: tally_def)

lemma steady_fail:
  "(\<And>x. reports n x \<Longrightarrow> Q (f x)) \<Longrightarrow> steady n (bnd (run_error k e) (\<lambda>x. give (f x))) Q"
  by (rule steady_bnd [OF steady_run_error]) (simp add: steady_give)

text \<open>The preparation of a round may end the run; the loop then fills in its own steps.\<close>

definition counted :: "int \<Rightarrow> run_result + 'a \<Rightarrow> bool" where
  "counted u x = (case x of Inl (out, err) \<Rightarrow> lo_ToolCallsUsed out = u | Inr _ \<Rightarrow> True)"

lemma counted_simps [simp]:
  "counted u (Inr a)" "counted u (Inl (loopErrorOutput current spent steps k u, e))"
  "counted u (Inl (budgetAbort current spent steps k u d))"
  by (simp_all add: counted_def partial_output_def loopErrorOutput_def budgetAbort_def)

lemma prepareIterationContext_counted:
  "yields (prepareIterationContext inp fresh h spent steps iteration u) (counted u)"
proof -
  have "yields (maybeCompactHistory inp fresh h spent) (\<lambda>_. True)"
    by simp
  then show ?thesis
    unfolding prepareIterationContext_def loopTurnPreamble_def
    by (auto intro!: yields_after yields_give split: sum.split option.split)
qed

lemma steady_prepare:
  assumes "\<And>x. counted (fst n) x \<Longrightarrow> steady n (f x) Q"
  shows "steady n (bnd (peek (\<lambda>r. prepareIterationContext inp fresh (h r) (u r) (s r) iteration (rn_toolCallsUsed r)))
    (\<lambda>prepare. bnd (lift prepare) f)) Q"
proof (rule steady_bnd [where R = "\<lambda>prepare. yields prepare (counted (fst n))"])
  show "steady n (peek (\<lambda>r. prepareIterationContext inp fresh (h r) (u r) (s r) iteration (rn_toolCallsUsed r)))
      (\<lambda>prepare. yields prepare (counted (fst n)))"
    by (rule steady_peek) (auto simp: tally_def intro: prepareIterationContext_counted)
qed (auto intro!: steady_bnd [OF steady_lift] assms)

lemma steady_ended_by_preparation:
  "counted (fst n) (Inl (out, err) :: run_result + 'b) \<Longrightarrow>
     steady n (peek (\<lambda>r. Inl (out\<lparr>lo_Usage := rn_usage r, lo_Steps := rn_steps r\<rparr>, err))) (reports_end n)"
  by (rule steady_peek) (auto simp: counted_def reports_def tally_def)

lemma steady_boundary_now: "steady n (boundary_now sys inp en iteration phase) (\<lambda>_. True)"
  unfolding boundary_now_def by (intro steady_intros) (simp_all add: tally_def)

lemma steady_acknowledge_now: "steady n (acknowledge_now sys inp e) (\<lambda>_. True)"
  unfolding acknowledge_now_def by (rule steady_lift_any)

lemma steady_begin_round: "steady n (begin_round sys inp en iteration) (reports_end n)"
  unfolding begin_round_def
  by (intro steady_intros steady_fail steady_prepare steady_boundary_now steady_acknowledge_now
      steady_ended_by_preparation)
     (simp_all add: tally_def)

lemma steady_run_model_turn: "steady n (run_model_turn sys inp en fresh) (\<lambda>_. True)"
  unfolding run_model_turn_def runTurnWithContextRecovery_def attempt_turn_def retry_turn_def Let_def
  by (intro steady_intros) (simp_all add: tally_def)

lemma turn_failure_recorded:
  "yields (handleControlledTurnFailure inp steered fr current steps turnsRun t)
     (\<lambda>fl. recorded_calls (fl_steps fl) = recorded_calls steps)"
  unfolding handleControlledTurnFailure_def handleTurnFailure_def recordInterruptedTurn_def Let_def
  by (auto intro!: yields_after yields_give split: prod.split)

lemma steady_failed_round: "steady n (failed_round inp iteration t steered) (reports_end n)"
proof -
  have store: "steady n (bnd (alter (\<lambda>r. r\<lparr>rn_current := fl_current fl, rn_usage := fl_usage fl, rn_turnsRun := fl_turnsRun fl,
            rn_recorded := (rn_recorded r \<and> \<not> tu_opened t),
            rn_steps := snapshotContextUsage (fl_usage fl) (rn_contextUsage r) (fl_steps fl)\<rparr>)) (\<lambda>_.
       peek (\<lambda>r. if fl_retry fl then Inr (int (length (rn_steps r)))
         else Inl (loopErrorOutput (fl_current fl) (fl_usage fl) (rn_steps r) (fl_turnsRun fl)
                (rn_toolCallsUsed r), fl_err fl)))) (reports_end n)"
    if "recorded_calls (fl_steps fl) = snd n" for fl
    using that by (auto simp: steady_def keeps_def tally_def)
  have fail: "steady n (bnd (lift (handleControlledTurnFailure inp steered fr current steps turnsRun t)) k) (reports_end n)"
    if "recorded_calls steps = snd n" "\<And>fl. recorded_calls (fl_steps fl) = snd n \<Longrightarrow> steady n (k fl) (reports_end n)"
    for fr current steps turnsRun k
    by (rule steady_bnd [OF steady_lift [OF turn_failure_recorded]]) (use that in simp)
  show ?thesis
    unfolding failed_round_def
    by (rule steady_then [OF steady_alter], simp add: tally_def, simp,
        rule steady_bnd [where R = "\<lambda>(fr, current, steps, turnsRun). recorded_calls steps = snd n"],
        rule steady_peek, force simp: tally_def, clarsimp, rule fail, assumption, rule store)
qed

text \<open>The end of a turn without tool calls: its steps, and the output if there is one.\<close>

fun end_reports :: "int \<times> nat \<Rightarrow> step_end \<Rightarrow> bool" where
  "end_reports n (RetryStep current steps) = (recorded_calls steps = snd n)"
| "end_reports n (EndStep current steps out e) = (recorded_calls steps = snd n \<and> reports n (out, e))"

lemma end_reports_outputs [simp]:
  "end_reports n (failed_end fr current steps e) \<longleftrightarrow> (tf_toolCallsUsed fr, recorded_calls steps) = n"
  "reports n (frame_output fr current steps, x) \<longleftrightarrow> (tf_toolCallsUsed fr, recorded_calls steps) = n"
  "reports n (finish_output fr current steps stop thinking, x) \<longleftrightarrow> (tf_toolCallsUsed fr, recorded_calls steps) = n"
  by (auto simp: failed_end_def frame_output_def finish_output_def reports_def partial_output_def loopErrorOutput_def)

lemma end_reports_case [simp]:
  "end_reports n (case x of (out, e) \<Rightarrow> EndStep current steps out e) \<longleftrightarrow> recorded_calls steps = snd n \<and> reports n x"
  by (cases x) simp

lemma observed_reports:
  "n = (tf_toolCallsUsed fr, recorded_calls steps) \<Longrightarrow> yields k (end_reports n) \<Longrightarrow>
     yields (observed inp fr current steps k) (end_reports n)"
  unfolding observed_def by (auto intro!: yields_after split: option.split)

lemma finalizeNoToolStep_reports:
  "yields (finalizeNoToolStep sys inp en fr base assistant mc steps stop)
     (end_reports (tf_toolCallsUsed fr, recorded_calls steps))"
  unfolding finalizeNoToolStep_def finishPausedTurn_def conclude_turn_def Let_def
  by (auto intro!: yields_after observed_reports simp: recorded_with_latest split: option.split sum.split)

lemma frame_of_used [simp]: "tf_toolCallsUsed (frame_of iteration r) = rn_toolCallsUsed r"
  by (simp add: frame_of_def)

lemma steady_finish_round: "steady n (finish_round sys inp en iteration t) (reports_end n)"
proof -
  have store: "steady n (case x of
          RetryStep current' steps' \<Rightarrow> bnd (alter (\<lambda>r. r\<lparr>rn_current := current', rn_steps := steps', rn_recorded := True\<rparr>))
            (\<lambda>_. give (Inr (iteration + 1)))
        | EndStep current' steps' out err \<Rightarrow>
            bnd (alter (\<lambda>r. r\<lparr>rn_current := current', rn_steps := steps', rn_recorded := True\<rparr>))
              (\<lambda>_. give (Inl (out, err)))) (reports_end n)"
    if "end_reports n x" for x
    using that by (cases x) (auto simp: steady_def keeps_def tally_def)
  have "steady n (bnd (lift (finalizeNoToolStep sys inp en fr base assistant mc steps stop)) (\<lambda>x. case x of
          RetryStep current' steps' \<Rightarrow> bnd (alter (\<lambda>r. r\<lparr>rn_current := current', rn_steps := steps', rn_recorded := True\<rparr>))
            (\<lambda>_. give (Inr (iteration + 1)))
        | EndStep current' steps' out err \<Rightarrow>
            bnd (alter (\<lambda>r. r\<lparr>rn_current := current', rn_steps := steps', rn_recorded := True\<rparr>))
              (\<lambda>_. give (Inl (out, err))))) (reports_end n)"
    if "(tf_toolCallsUsed fr, recorded_calls steps) = n" for fr base assistant mc steps stop
    using finalizeNoToolStep_reports [of sys inp en fr base assistant mc steps stop] unfolding that
    by (rule steady_bnd [OF steady_lift]) (rule store)
  then show ?thesis
    unfolding finish_round_def
    by (intro steady_bnd [where R = "\<lambda>(fr, current, steps). (tf_toolCallsUsed fr, recorded_calls steps) = n"] steady_peek)
       (auto simp: tally_def split: prod.split)
qed

lemma steady_conclude_tools: "steady n (conclude_tools sys inp en thinking terminal iteration policy) (reports_stop n)"
  unfolding conclude_tools_def observe_now_def
  by (intro steady_intros steady_fail steady_boundary_now) (simp_all add: tally_def)

lemma steady_refuse_dispatch: "steady n (refuse_dispatch inp iteration d) (reports n)"
  unfolding refuse_dispatch_def observe_now_def
  by (intro steady_intros steady_run_error) (simp_all add: tally_def)

lemma steady_recover: "steady n (recoverRunMessagesPanic inp b) (reports n)"
  unfolding recoverRunMessagesPanic_def
proof (rule steady_bnd [where R = "\<lambda>missing. case missing of None \<Rightarrow> True | Some s \<Rightarrow> st_ToolCalls s = []"])
  show "steady n (peek (\<lambda>r. case rn_lastModelCall r of None \<Rightarrow> None
       | Some mc \<Rightarrow> if rn_recorded r \<and> rn_steps r \<noteq> [] then None else Some (panic_step mc r)))
    (\<lambda>missing. case missing of None \<Rightarrow> True | Some s \<Rightarrow> st_ToolCalls s = [])"
    by (rule steady_peek) (simp split: option.split)
next
  fix missing :: "step option"
  assume "case missing of None \<Rightarrow> True | Some s \<Rightarrow> st_ToolCalls s = []"
  then show "steady n (bnd (case missing of None \<Rightarrow> give None
       | Some s \<Rightarrow> bnd (set_steps (\<lambda>steps. steps @ [s])) (\<lambda>_. bnd (peek rn_steps) (\<lambda>steps.
           lift (observeRecoveredStep inp steps)))) (\<lambda>observeErr.
       peek (\<lambda>r. (loopErrorOutput (rn_current r) (rn_usage r) (rn_steps r) (rn_turnsRun r) (rn_toolCallsUsed r),
         errors_join [observeErr, Some (wrap_err b (sentinel ErrPanicRecovered))])))) (reports n)"
    by (intro steady_intros) (simp_all add: tally_def)
qed

text \<open>An action that may count calls: it starts at \<open>n\<close>, and \<open>ok\<close> holds of the account it ends with.\<close>

definition capped :: "int \<times> nat \<Rightarrow> (int \<times> nat \<Rightarrow> bool) \<Rightarrow> ('x run, 'a) act \<Rightarrow> ('a \<Rightarrow> bool) \<Rightarrow> bool" where
  "capped n ok act R \<longleftrightarrow> keeps (\<lambda>r. tally r = n) act (\<lambda>a r. ok (tally r) \<and> R a) (\<lambda>r. ok (tally r))"

lemma capped_steady: "steady n act Q \<Longrightarrow> ok n \<Longrightarrow> (\<And>a. Q a \<Longrightarrow> R a) \<Longrightarrow> capped n ok act R"
  unfolding steady_def capped_def by (erule keeps_weaken) auto

lemma capped_all:
  assumes "\<And>k. ok k \<Longrightarrow> capped k ok act R"
  shows "keeps (\<lambda>r. ok (tally r)) act (\<lambda>a r. ok (tally r) \<and> R a) (\<lambda>r. ok (tally r))"
proof (rule keepsI)
  fix s s' a
  assume s: "ok (tally s)" "act s = (s', Returned a)"
  show "ok (tally s') \<and> R a"
    using keepsD(1) [OF assms [OF s(1), unfolded capped_def] refl s(2)] .
next
  fix s s' b
  assume s: "ok (tally s)" "act s = (s', Panicked b)"
  show "ok (tally s')"
    using keepsD(2) [OF assms [OF s(1), unfolded capped_def] refl s(2)] .
qed

lemma keeps_given: "(c \<Longrightarrow> keeps P m Q E) \<Longrightarrow> keeps (\<lambda>s. P s \<and> c) m Q E"
  by (cases c) (auto simp: keeps_def)

lemma capped_bnd:
  assumes "capped n ok act R'" "\<And>a k. ok k \<Longrightarrow> R' a \<Longrightarrow> capped k ok (f a) R"
  shows "capped n ok (bnd act f) R"
  unfolding capped_def
  by (rule keeps_bnd [OF assms(1) [unfolded capped_def]]) (intro keeps_given capped_all assms(2))

lemma capped_then:
  assumes "steady n act Q" "ok n" "\<And>a. Q a \<Longrightarrow> capped n ok (f a) R"
  shows "capped n ok (bnd act f) R"
  unfolding capped_def
proof (rule keeps_bnd)
  show "keeps (\<lambda>r. tally r = n) act (\<lambda>a r. tally r = n \<and> Q a) (\<lambda>r. ok (tally r))"
    using assms(1) unfolding steady_def by (rule keeps_weaken) (use assms(2) in auto)
qed (intro keeps_given assms(3) [unfolded capped_def])

lemma capped_alter:
  "(\<And>r. tally r = n \<Longrightarrow> capped (tally (g r)) ok (f ()) R) \<Longrightarrow> capped n ok (bnd (alter g) f) R"
  by (auto simp: capped_def keeps_def)

lemma capped_peek:
  "(\<And>r. tally r = n \<Longrightarrow> capped n ok (f (g r)) R) \<Longrightarrow> capped n ok (bnd (peek g) f) R"
  by (auto simp: capped_def keeps_def)

definition stops_within :: "(int \<times> nat \<Rightarrow> bool) \<Rightarrow> run_result option \<Rightarrow> bool" where
  "stops_within ok x = (case x of Some (out, err) \<Rightarrow> ok (lo_ToolCallsUsed out, recorded_calls (lo_Steps out)) | None \<Rightarrow> True)"

lemma stops_within_reports: "reports_stop n x \<Longrightarrow> ok n \<Longrightarrow> stops_within ok x"
  by (auto simp: reports_stop_def stops_within_def reports_def split: option.splits)

lemma capped_fail: "ok n \<Longrightarrow> capped n ok (bnd (run_error k e) (\<lambda>y. give (Some y))) (stops_within ok)"
  by (rule capped_steady [where Q = "reports_stop n"]) (auto intro!: steady_fail stops_within_reports)

lemma steady_append_results: "steady n (appendToolResults s results) (\<lambda>_. True)"
proof (induction s results rule: appendToolResults.induct)
  case (2 s result results)
  show ?case
    unfolding appendToolResults.simps by (intro steady_intros 2) (simp_all add: tally_def)
qed (simp add: steady_give)

lemma capped_finalizeToolStep:
  assumes "\<And>s. s \<le> snd n + length (m_ToolCalls assistant) \<Longrightarrow> ok (fst n, s)"
  shows "capped n ok (finalizeToolStep sys inp en assistant results terminal iteration) (stops_within ok)"
proof -
  let ?step = "\<lambda>r :: 'a run. with_latest (\<lambda>s. s\<lparr>st_ToolCalls := toolCallTraces (m_ToolCalls assistant) results,
      st_BudgetUsed := budget_of (rn_usage r) (rn_toolCallsUsed r)\<rparr>) (rn_steps r)"
  have fine: "ok (tally (r\<lparr>rn_steps := ?step r\<rparr>))" if "tally r = n" for r
    using that assms recorded_with_latest_le [of "\<lambda>s. s\<lparr>st_ToolCalls := toolCallTraces (m_ToolCalls assistant) results,
      st_BudgetUsed := budget_of (rn_usage r) (rn_toolCallsUsed r)\<rparr>" "length (m_ToolCalls assistant)" "rn_steps r"]
    by (auto simp: tally_def)
  have rest: "steady m (bnd (if terminal then lift (control_now sys inp False continueOrSeal) else give False) (\<lambda>more_input.
       let terminal = (terminal \<and> \<not> more_input) in
       bnd (set_steps (decide (if terminal then StepDecisionFinish else StepDecisionContinue))) (\<lambda>_.
       bnd (if terminal then give NoOverride else stepDecisionOverride inp)
         (conclude_tools sys inp en (m_Thinking assistant) terminal iteration)))) (reports_stop m)" for m
    unfolding stepDecisionOverride_def Let_def
    by (intro steady_intros steady_conclude_tools) (simp_all add: tally_def)
  show ?thesis
    unfolding finalizeToolStep_def
    by (rule capped_alter, rule capped_steady [OF rest], erule fine, erule stops_within_reports, erule fine)
qed

lemma capped_dispatch:
  assumes "ok n" "\<And>s. s \<le> snd n + length (m_ToolCalls assistant) \<Longrightarrow> ok (fst n + int (length (m_ToolCalls assistant)), s)"
  shows "capped n ok (dispatch_step sys inp en assistant iteration) (stops_within ok)"
proof -
  let ?k = "(fst n + int (length (m_ToolCalls assistant)), snd n)"
  have k: "ok ?k"
    using assms(2) by simp
  have tally: "tally (rn_toolCallsUsed_update (\<lambda>n. n + int (length (m_ToolCalls assistant))) r) = ?k"
    if "tally r = n" for r :: "'a run"
    using that by (auto simp: tally_def)
  show ?thesis
    unfolding dispatch_step_def Let_def
    apply (rule capped_then [where Q = "\<lambda>_. True"], rule steady_peek, rule TrueI, rule assms)
    apply (clarsimp split del: if_split)
    apply (rule capped_then [where Q = "\<lambda>_. True"], rule steady_lift_any, rule assms)
    apply (simp only: split: sum.split prod.split)
    apply (intro conjI allI impI capped_fail assms(1))
    apply (rule capped_alter, simp only: tally)
    apply (rule capped_then [where Q = "\<lambda>_. True"], rule steady_lift_any, rule k)
    apply (simp only: split: prod.split, intro allI impI)
    apply (rule capped_then [where Q = "\<lambda>_. True"], rule steady_alter, simp add: tally_def Let_def, rule TrueI, rule k)
    apply (rule capped_then [where Q = "\<lambda>_. True"], rule steady_append_results, rule k)
    apply (simp only: split: option.split, intro conjI allI impI capped_fail k)
    apply (rule capped_finalizeToolStep, simp add: assms(2))+
    done
qed

text \<open>
  The account is in order: at least the recorded calls were counted, and no more were counted than a
  positive limit allows, or than the \<open>k\<close> the run was started with.
\<close>

definition accounted :: "int \<Rightarrow> int \<Rightarrow> int \<times> nat \<Rightarrow> bool" where
  "accounted limit k = (\<lambda>(used, recorded). int recorded \<le> used \<and> (0 < limit \<longrightarrow> used \<le> max limit k))"

lemma preDispatchBudgetBlock_room:
  "preDispatchBudgetBlock inp spent used steps batch = None \<Longrightarrow> 0 < li_MaxToolCalls inp \<Longrightarrow>
     used + batch \<le> li_MaxToolCalls inp"
  by (auto simp: preDispatchBudgetBlock_def dispatchExceedsToolBudget_def split: option.splits if_splits)

lemma capped_tool_step:
  fixes inp :: "'x loop_input"
  defines "ok \<equiv> accounted (li_MaxToolCalls inp)"
  assumes "ok k n"
  shows "capped n (ok k) (runToolStep sys inp en assistant mc iteration operationTurn) (stops_within (ok k))"
proof -
  have refuse: "capped n (ok k) (bnd (refuse_dispatch inp iteration d) (\<lambda>y. give (Some y))) (stops_within (ok k))" for d
    by (rule capped_steady [where Q = "reports_stop n"])
       (auto intro!: steady_bnd [OF steady_refuse_dispatch] steady_give stops_within_reports assms(2))
  have dispatch: "capped n (ok k) (dispatch_step sys inp en a iteration) (stops_within (ok k))"
    if "preDispatchBudgetBlock inp u (rn_toolCallsUsed r) steps (int (length (m_ToolCalls a))) = None" "tally r = n"
    for a u steps and r :: "'x run"
    using preDispatchBudgetBlock_room [OF that(1)] that(2) assms(2)
    by (intro capped_dispatch) (auto simp: ok_def accounted_def tally_def)
  show ?thesis
    unfolding runToolStep_def Let_def
    apply (rule capped_then [where Q = "\<lambda>_. True"], rule steady_alter, simp add: tally_def, rule TrueI, rule assms)
    apply (rule capped_then [OF steady_boundary_now], rule assms(2))
    apply (simp only: split: option.split, intro conjI allI impI capped_fail assms(2))
    apply (rule capped_then [OF steady_lift_any], rule assms(2))
    apply (simp only: split: option.split, intro conjI allI impI capped_fail assms(2))
    apply (rule capped_peek)
    apply (simp only: split: option.split, intro conjI allI impI refuse)
    apply (simp split: if_splits)
    apply (rule dispatch, simp, assumption)
    done
qed

text \<open>Rounds, the loop, and the recovery of a panic.\<close>

definition ends_within :: "(int \<times> nat \<Rightarrow> bool) \<Rightarrow> run_result + 'a \<Rightarrow> bool" where
  "ends_within ok x = (case x of Inl (out, err) \<Rightarrow> ok (lo_ToolCallsUsed out, recorded_calls (lo_Steps out)) | Inr _ \<Rightarrow> True)"

lemma ends_within_reports: "reports_end n x \<Longrightarrow> ok n \<Longrightarrow> ends_within ok x"
  by (auto simp: reports_end_def ends_within_def reports_def split: sum.splits)

lemma capped_end: "steady n act (reports_end n) \<Longrightarrow> ok n \<Longrightarrow> capped n ok act (ends_within ok)"
  by (auto intro: capped_steady ends_within_reports)

lemma capped_give: "ok n \<Longrightarrow> R a \<Longrightarrow> capped n ok (give a) R"
  by (rule capped_steady [where Q = R]) (simp_all add: steady_give)

lemma capped_round:
  fixes inp :: "'x loop_input"
  defines "ok \<equiv> accounted (li_MaxToolCalls inp)"
  assumes "ok k n"
  shows "capped n (ok k) (loop_round sys inp en iteration) (ends_within (ok k))"
proof -
  have tools: "capped n (ok k) (bnd (runToolStep sys inp en assistant mc iteration turn)
      (\<lambda>y. give (case y of Some ended \<Rightarrow> Inl ended | None \<Rightarrow> Inr (iteration + 1)))) (ends_within (ok k))" for assistant mc turn
    unfolding ok_def
    by (rule capped_bnd [OF capped_tool_step [OF assms(2) [unfolded ok_def]]])
       (auto intro!: capped_give simp: stops_within_def ends_within_def split: option.splits)
  show ?thesis
    unfolding loop_round_def
    apply (rule capped_then [OF steady_begin_round], rule assms(2))
    apply (simp only: split: sum.split, intro conjI allI impI)
     apply (rule capped_give [where ok = "ok k", OF assms(2)], simp add: ends_within_reports assms(2))
    apply (rule capped_then [OF steady_run_model_turn], rule assms(2))
    apply (simp only: split: prod.split, intro allI impI)
    apply (simp only: split: if_split, intro conjI impI)
     apply (rule capped_end [OF steady_failed_round], rule assms(2))
    apply (rule capped_peek)
    apply (rule capped_then [where Q = "\<lambda>_. True"], rule steady_alter, simp add: tally_def, rule TrueI, rule assms)
    apply (simp only: split: if_split, intro conjI impI tools)
    apply (rule capped_end [OF steady_finish_round], rule assms(2))
    done
qed

lemma ends_within_stops: "ends_within ok (Inl ended) = stops_within ok (Some ended)"
  by (simp add: ends_within_def stops_within_def)

lemma capped_exhausted:
  assumes "ok n"
  shows "capped n ok (peek (\<lambda>r. Some (exhausted_run inp r))) (stops_within ok)"
proof -
  have "reports (tally r) (exhausted_run inp r)" for r :: "'a run"
    by (simp add: exhausted_run_def tally_def split: option.split)
  then have "steady n (peek (\<lambda>r. Some (exhausted_run inp r))) (reports_stop n)"
    by (intro steady_peek) auto
  then show ?thesis
    using assms by (auto intro: capped_steady stops_within_reports)
qed

lemma capped_loop:
  fixes inp :: "'x loop_input"
  defines "ok \<equiv> accounted (li_MaxToolCalls inp)"
  shows "ok k n \<Longrightarrow> capped n (ok k) (run_loop fuel sys inp en iteration) (stops_within (ok k))"
proof (induction fuel arbitrary: n iteration)
  case 0
  have "capped n (ok k) (give None) (stops_within (ok k))"
    using 0 by (auto intro: capped_give simp: stops_within_def)
  then show ?case
    unfolding run_loop.simps [of 0] using capped_exhausted [where ok = "ok k", OF 0]
    by (simp only: nat.case split: if_split) blast
next
  case (Suc fuel)
  have "capped n (ok k) (bnd (loop_round sys inp en iteration) (\<lambda>x. case x of
      Inl ended \<Rightarrow> give (Some ended) | Inr next \<Rightarrow> run_loop fuel sys inp en next)) (stops_within (ok k))"
    by (rule capped_bnd [OF capped_round [OF Suc.prems [unfolded ok_def], folded ok_def]])
       (auto intro!: capped_give Suc.IH simp: ends_within_stops split: sum.splits)
  then show ?case
    unfolding run_loop.simps [of "Suc fuel"] using capped_exhausted [where ok = "ok k", OF Suc.prems]
    by (simp only: nat.case split: if_split) blast
qed

lemma capped_run:
  fixes inp :: "'x loop_input"
  defines "ok \<equiv> accounted (li_MaxToolCalls inp)"
  assumes "ok k n"
  shows "capped n (ok k) (guarded_run fuel sys inp en) (stops_within (ok k))"
proof -
  have "capped m (ok k) (bnd (recoverRunMessagesPanic inp b) (\<lambda>x. give (Some x))) (stops_within (ok k))"
    if "ok k m" for m b
    by (rule capped_steady [where Q = "reports_stop m"])
       (auto intro!: steady_bnd [OF steady_recover] steady_give stops_within_reports that)
  then have "keeps (\<lambda>r. ok k (tally r)) (bnd (recoverRunMessagesPanic inp b) (\<lambda>x. give (Some x)))
      (\<lambda>a r. ok k (tally r) \<and> stops_within (ok k) a) (\<lambda>r. ok k (tally r))" for b
    by (rule capped_all)
  then show ?thesis
    using capped_loop [OF assms(2) [unfolded ok_def], folded ok_def]
    unfolding capped_def guarded_run_def by (intro keeps_recovering)
qed

lemma run_messages_within:
  assumes "accounted (li_MaxToolCalls inp) k (li_initialToolCallsUsed inp, recorded_calls (li_initialSteps inp))"
  shows "yields (run_messages fuel sys inp en) (stops_within (accounted (li_MaxToolCalls inp) k))"
proof -
  have inp: "li_MaxToolCalls (run_input t inp) = li_MaxToolCalls inp"
    "li_initialToolCallsUsed (run_input t inp) = li_initialToolCallsUsed inp"
    "li_initialSteps (run_input t inp) = li_initialSteps inp" for t
    by (simp_all add: run_input_def normalizeIterationPolicy_def)
  then have cap: "capped (li_initialToolCallsUsed inp, recorded_calls (li_initialSteps inp))
      (accounted (li_MaxToolCalls inp) k) (guarded_run fuel sys (run_input t inp) en)
      (stops_within (accounted (li_MaxToolCalls inp) k))" for t
    using capped_run [of "run_input t inp" k _ fuel sys en] assms by simp
  have start: "tally (start_run (run_input t inp) w) = (li_initialToolCallsUsed inp, recorded_calls (li_initialSteps inp))" for t w
    by (simp add: start_run_def tally_def inp)
  have same: "stops_within ok (map_option (complete_output sys inp' r) x) = stops_within ok x" for ok inp' r x
    by (auto simp: stops_within_def complete_output_def split: option.split prod.split)
  show ?thesis
    by (rule keepsI) (auto simp: run_messages_def Let_def same split: prod.splits outcome.splits
        dest!: keepsD(1) [OF cap [unfolded capped_def] start])
qed

lemma RunMessages_enough:
  assumes "\<not> li_Control inp" "\<not> li_UnlimitedIterations inp"
    and "nat (li_MaxIterations (normalizeIterationPolicy inp)) \<le> fuel"
  shows "\<exists>w' out err. RunMessages fuel sys inp en w = (w', Returned (Some (out, err)))"
proof -
  have run: "yields (RunMessages fuel sys inp en) in_fuel"
    unfolding RunMessages_def Let_def
    by (auto intro!: yields_after run_messages_enough [OF assms] yields_both [OF run_messages_enough [OF assms]]
        split: prod.split option.split)
  obtain w' x where x: "RunMessages fuel sys inp en w = (w', Returned x)"
    using returns_RunMessages by (rule returnsE)
  have "in_fuel x"
    using keepsD(1) [OF run _ x] by blast
  then show ?thesis
    using x by (cases x) auto
qed

lemma RunMessages_within:
  assumes "accounted (li_MaxToolCalls inp) k (li_initialToolCallsUsed inp, recorded_calls (li_initialSteps inp))"
    and "0 \<le> k"
  shows "yields (RunMessages fuel sys inp en) (stops_within (accounted (li_MaxToolCalls inp) k))"
proof -
  note within = run_messages_within [OF assms(1)]
  have none: "stops_within (accounted m k) (Some (zero_output, e))" for m e
    using assms(2) by (auto simp: stops_within_def zero_output_def accounted_def)
  show ?thesis
    unfolding RunMessages_def Let_def
    by (auto intro!: yields_after within yields_both [OF within] none split: prod.split option.split)
qed

section \<open>Properties\<close>

text \<open>
  A run without a control handle and with a finite iteration policy ends, and ends by
  returning: with as much fuel as iterations it returns an output and an error, whatever the
  provider, the tools, the hooks, the guardrails and the observers do, a panic of theirs included.
\<close>

theorem run_returns:
  assumes "\<not> li_Control inp" "\<not> li_UnlimitedIterations inp"
    and "nat (li_MaxIterations (normalizeIterationPolicy inp)) \<le> fuel"
  shows "\<exists>w' out err. RunMessages fuel sys inp en w = (w', Returned (Some (out, err)))"
  using assms by (rule RunMessages_enough)

theorem run_returns_witness:
  "\<exists>w' out err. RunMessages 4 tape_system tape_input tape_engine (tape_world early_events) =
     (w', Returned (Some (out, err)))"
  by (rule run_returns) (simp_all add: tape_input_def normalizeIterationPolicy_def)

text \<open>
  The tool-call budget: a run counts at least the calls its steps record, those it was started with
  included, and no more than a positive limit allows (or than it was started with), however it ends:
  with an output, an error, an exhausted budget or a recovered panic.
\<close>

theorem run_respects_tool_budget:
  assumes "int (recorded_calls (li_initialSteps inp)) \<le> li_initialToolCallsUsed inp"
    and "RunMessages fuel sys inp en w = (w', Returned (Some (out, err)))"
  shows "int (recorded_calls (lo_Steps out)) \<le> lo_ToolCallsUsed out"
    and "0 < li_MaxToolCalls inp \<Longrightarrow> lo_ToolCallsUsed out \<le> max (li_MaxToolCalls inp) (li_initialToolCallsUsed inp)"
proof -
  have "accounted (li_MaxToolCalls inp) (li_initialToolCallsUsed inp)
      (li_initialToolCallsUsed inp, recorded_calls (li_initialSteps inp))" "0 \<le> li_initialToolCallsUsed inp"
    using assms(1) by (simp_all add: accounted_def)
  from keepsD(1) [OF RunMessages_within [OF this] _ assms(2)]
  show "int (recorded_calls (lo_Steps out)) \<le> lo_ToolCallsUsed out"
    "0 < li_MaxToolCalls inp \<Longrightarrow> lo_ToolCallsUsed out \<le> max (li_MaxToolCalls inp) (li_initialToolCallsUsed inp)"
    by (simp_all add: stops_within_def accounted_def)
qed

theorem run_respects_tool_budget_witness:
  "\<exists>w' out err. RunMessages 4 tape_system tape_input tape_engine (tape_world early_events) =
     (w', Returned (Some (out, err))) \<and> lo_ToolCallsUsed out \<le> 3"
proof -
  obtain w' out err where
    run: "RunMessages 4 tape_system tape_input tape_engine (tape_world early_events) = (w', Returned (Some (out, err)))"
    using RunMessages_enough [of tape_input 4] by (fastforce simp: tape_input_def normalizeIterationPolicy_def)
  have "lo_ToolCallsUsed out \<le> 3"
    using run_respects_tool_budget(2) [OF _ run] by (simp add: tape_input_def)
  then show ?thesis
    using run by blast
qed

end
