(* ===== verification/RetryStream.thy ===== *)
theory RetryStream
  imports Loop
begin

text \<open>
  Retrying streams of \<open>src/provider/retry_stream.go\<close> over arbitrary drivers.  A raw stream is a
  pair of actions on the world of the drivers; \<open>Recv\<close> may return an event together with an error,
  as in Go.  The state of a retrying stream is kept beside the world, so that it survives a panic of
  a driver or of a callback.  Both loops of the code are total functions: every turn of either
  consumes a retry.
\<close>

section \<open>Options\<close>

definition DefaultMaxStreamRetries :: int where "DefaultMaxStreamRetries = 5"
definition DefaultMaxStreamRetryDelay :: int where "DefaultMaxStreamRetryDelay = 30 * 10 ^ 9"

record 'w raw_stream =
  rw_Recv :: "('w, event \<times> go_err option) act"
  rw_Close :: "('w, go_err option) act"
  rw_Identity :: "('w \<Rightarrow> stream_identity) option"

record retry_progress =
  pg_Attempt :: int
  pg_Max :: int
  pg_Delay :: int
  pg_Cause :: go_err

record 'w retry_options =
  so_Max :: int
  so_Delay :: "(int \<Rightarrow> int) option"
  so_MaxDelay :: int
  so_ShouldRetry :: "(retry_progress \<Rightarrow> ('w, bool) act) option"
  so_Observer :: "(retry_progress \<Rightarrow> ('w, go_err option) act) option"

text \<open>
  The surroundings: the function that opens the stream, the context, the race of the backoff timer
  with the context (\<open>True\<close>: the timer), and \<open>IsRetryableError\<close> and \<open>SuggestedRetryDelay\<close>, which
  look through the types of an error.
\<close>

record 'w retry_env =
  rv_open :: "('w, go_err + 'w raw_stream) act"
  rv_ctx_err :: "'w \<Rightarrow> go_err option"
  rv_timer_first :: "('w, bool) act"
  rv_is_retryable :: "go_err \<Rightarrow> bool"
  rv_suggested_delay :: "go_err \<Rightarrow> int"

definition contextRetryStop :: "go_err \<Rightarrow> bool" where
  "contextRetryStop e \<longleftrightarrow> errors_is CtxCanceled e \<or> errors_is CtxDeadlineExceeded e"

definition default_delay :: "int \<Rightarrow> int" where
  "default_delay attempt =
     (let shift = min (max (attempt - 1) 0) 30 in min (200 * 10 ^ 6 * 2 ^ nat shift) (2 * 10 ^ 9))"

definition normalizedStreamRetryOptions :: "'w retry_options \<Rightarrow> 'w retry_options" where
  "normalizedStreamRetryOptions opts = opts\<lparr>
     so_Max := (if so_Max opts \<le> 0 then DefaultMaxStreamRetries else so_Max opts),
     so_MaxDelay := (if so_MaxDelay opts \<le> 0 then DefaultMaxStreamRetryDelay else so_MaxDelay opts),
     so_Delay := (case so_Delay opts of None \<Rightarrow> Some default_delay | Some d \<Rightarrow> Some d)\<rparr>"

section \<open>Approval and backoff\<close>

definition retry_delay :: "'w retry_env \<Rightarrow> 'w retry_options \<Rightarrow> int \<Rightarrow> go_err \<Rightarrow> int" where
  "retry_delay env opts attempt cause =
     min (max 0 (max ((case so_Delay opts of None \<Rightarrow> default_delay | Some d \<Rightarrow> d) attempt)
       (rv_suggested_delay env cause))) (so_MaxDelay opts)"

definition backoff :: "'w retry_env \<Rightarrow> int \<Rightarrow> ('w, go_err + bool) act" where
  "backoff env delay =
     (if delay \<le> 0 then give (Inr True)
      else bnd (rv_timer_first env) (\<lambda>fired. if fired then give (Inr True)
        else peek (\<lambda>w. case rv_ctx_err env w of Some e \<Rightarrow> Inl e | None \<Rightarrow> Inr False)))"

definition approveStreamRetryAndWait ::
  "'w retry_env \<Rightarrow> 'w retry_options \<Rightarrow> int \<Rightarrow> go_err \<Rightarrow> ('w, go_err + bool) act" where
  "approveStreamRetryAndWait env opts attempt cause =
     bnd (peek (rv_ctx_err env)) (\<lambda>done_err. case done_err of
         Some e \<Rightarrow> give (Inl e)
       | None \<Rightarrow>
           if contextRetryStop cause then give (Inr False)
           else let p = \<lparr>pg_Attempt = attempt, pg_Max = so_Max opts,
                      pg_Delay = retry_delay env opts attempt cause, pg_Cause = cause\<rparr> in
             bnd (case so_ShouldRetry opts of None \<Rightarrow> give (rv_is_retryable env cause) | Some f \<Rightarrow> f p) (\<lambda>approved.
               if \<not> approved then give (Inr False)
               else bnd (case so_Observer opts of None \<Rightarrow> give None | Some f \<Rightarrow> f p) (\<lambda>veto. case veto of
                   Some e \<Rightarrow> give (Inl e)
                 | None \<Rightarrow> backoff env (pg_Delay p))))"

definition retries_exhausted :: "go_err \<Rightarrow> go_err" where
  "retries_exhausted e = wrap_err ''provider stream failed after retries'' e"

section \<open>Opening\<close>

text \<open>One attempt: the end of the loop, or the number of retries to go on with.\<close>

definition open_attempt ::
  "'w retry_env \<Rightarrow> 'w retry_options \<Rightarrow> int \<Rightarrow> ('w, (int \<times> (go_err + 'w raw_stream)) + int) act" where
  "open_attempt env opts retries =
     bnd (rv_open env) (\<lambda>x. case x of
         Inr sm \<Rightarrow> give (Inl (retries, Inr sm))
       | Inl e \<Rightarrow>
           if contextRetryStop e then give (Inl (retries, Inl e))
           else if so_Max opts \<le> retries then give (Inl (retries, Inl (retries_exhausted e)))
           else bnd (approveStreamRetryAndWait env opts (retries + 1) e) (\<lambda>y. give (case y of
               Inl veto \<Rightarrow> Inl (retries, Inl veto)
             | Inr approved \<Rightarrow> if approved then Inr (retries + 1) else Inl (retries, Inl e))))"

lemma open_attempt_next:
  "open_attempt env opts retries w = (w', Returned (Inr r)) \<Longrightarrow> r = retries + 1 \<and> retries < so_Max opts"
  by (auto simp: open_attempt_def bnd_def split: prod.splits outcome.splits sum.splits if_splits)

lemma open_attempt_end:
  "open_attempt env opts retries w = (w', Returned (Inl (r, x))) \<Longrightarrow> r = retries"
  by (auto simp: open_attempt_def bnd_def split: prod.splits outcome.splits sum.splits if_splits)

function openStreamWithRetry ::
  "'w retry_env \<Rightarrow> 'w retry_options \<Rightarrow> int \<Rightarrow> ('w, int \<times> (go_err + 'w raw_stream)) act" where
  "openStreamWithRetry env opts retries w = (case open_attempt env opts retries w of
       (w', Panicked b) \<Rightarrow> (w', Panicked b)
     | (w', Returned (Inl r)) \<Rightarrow> (w', Returned r)
     | (w', Returned (Inr r)) \<Rightarrow> openStreamWithRetry env opts r w')"
  by pat_completeness auto
termination
  by (relation "measure (\<lambda>(env, opts, retries, w). nat (so_Max opts - retries))")
     (auto dest!: open_attempt_next [OF sym])

declare openStreamWithRetry.simps [simp del]

section \<open>The retrying stream\<close>

record 'w retrying =
  rs_current :: "'w raw_stream"
  rs_retries :: int
  rs_emitted :: bool
  rs_terminal :: bool
  rs_closed :: bool

type_synonym 'w rstate = "'w \<times> 'w retrying"

type_synonym received = "event \<times> go_err option"

definition on_world :: "('w, 'a) act \<Rightarrow> ('w rstate, 'a) act" where
  "on_world m = (\<lambda>(w, s). case m w of (w', x) \<Rightarrow> ((w', s), x))"

definition set_state :: "('w retrying \<Rightarrow> 'w retrying) \<Rightarrow> ('w rstate, unit) act" where
  "set_state f = alter (\<lambda>(w, s). (w, f s))"

definition partial_error :: "go_err \<Rightarrow> go_err" where
  "partial_error cause = wrap_err ''provider stream failed after partial output'' cause"

definition no_kind :: event_kind where "no_kind = EventOther []"

text \<open>The event to return, whether it is a retry, and the error or the cause of the retry.\<close>

definition classifyPartialFailure ::
  "event \<Rightarrow> go_err option \<Rightarrow> go_err option \<Rightarrow> 'w retrying \<Rightarrow> 'w retrying \<times> event \<times> bool \<times> go_err option" where
  "classifyPartialFailure e recvErr cause s =
     (if cause = None \<and> ev_Kind e \<noteq> EventError then (s, e, False, recvErr)
      else let c = (case cause of Some c \<Rightarrow> c
                    | None \<Rightarrow> new_err ''provider returned an error event after partial output'')
        in (s\<lparr>rs_terminal := True\<rparr>, if ev_Kind e = EventError then zero_event else e, False,
            Some (partial_error c)))"

definition classifyReceived ::
  "event \<Rightarrow> go_err option \<Rightarrow> 'w retrying \<Rightarrow> 'w retrying \<times> event \<times> bool \<times> go_err option" where
  "classifyReceived e recvErr s =
     (let cause = (if ev_Kind e = EventError \<and> ev_Err e \<noteq> None then ev_Err e else recvErr) in
      if ev_Kind e = EventDone
        then (s\<lparr>rs_terminal := True\<rparr>, case recvErr of
                Some err \<Rightarrow> (zero_event, False, Some (partial_error err))
              | None \<Rightarrow> (e, False, None))
      else if ev_Kind e \<noteq> no_kind \<and> ev_Kind e \<noteq> EventError
        then (case recvErr of
                Some err \<Rightarrow> (s\<lparr>rs_emitted := True, rs_terminal := True\<rparr>, e, False, Some (partial_error err))
              | None \<Rightarrow> (s\<lparr>rs_emitted := True\<rparr>, e, False, None))
      else if rs_emitted s then classifyPartialFailure e recvErr cause s
      else case cause of
          None \<Rightarrow> (if ev_Kind e = EventError then s\<lparr>rs_terminal := True\<rparr> else s, e, False, recvErr)
        | Some c \<Rightarrow> (s, e, True, Some c))"

definition streamRetryFailure :: "event \<Rightarrow> go_err \<Rightarrow> received" where
  "streamRetryFailure e err =
     (if ev_Kind e = EventError then (e\<lparr>ev_Err := Some err\<rparr>, None) else (e, Some err))"

text \<open>After an approved retry: the stream is closed and opened again; \<open>None\<close> goes round the loop.\<close>

definition reopen :: "'w retry_env \<Rightarrow> 'w retry_options \<Rightarrow> event \<Rightarrow> ('w rstate, received option) act" where
  "reopen env opts e =
     bnd (peek snd) (\<lambda>s.
     bnd (on_world (rw_Close (rs_current s))) (\<lambda>_.
     bnd (set_state (rs_retries_update (\<lambda>n. n + 1))) (\<lambda>_.
     bnd (on_world (openStreamWithRetry env opts (rs_retries s + 1))) (\<lambda>(retries, x).
     bnd (set_state (rs_retries_update (\<lambda>_. retries))) (\<lambda>_. case x of
         Inl err \<Rightarrow> give (Some (streamRetryFailure e err))
       | Inr next \<Rightarrow> bnd (set_state (rs_current_update (\<lambda>_. next))) (\<lambda>_. give None))))))"

definition retry_receive ::
  "'w retry_env \<Rightarrow> 'w retry_options \<Rightarrow> event \<Rightarrow> go_err option \<Rightarrow> go_err \<Rightarrow> ('w rstate, received option) act" where
  "retry_receive env opts e recvErr cause =
     bnd (peek (\<lambda>(w, s). rs_retries s)) (\<lambda>retries.
       if contextRetryStop cause then give (Some (zero_event, Some cause))
       else if so_Max opts \<le> retries then give (Some (streamRetryFailure e (retries_exhausted cause)))
       else bnd (on_world (approveStreamRetryAndWait env opts (retries + 1) cause)) (\<lambda>x. case x of
           Inl err \<Rightarrow> give (Some (zero_event, Some err))
         | Inr approved \<Rightarrow>
             if approved then reopen env opts e
             else if ev_Kind e = EventError
               then bnd (set_state (rs_terminal_update (\<lambda>_. True))) (\<lambda>_. give (Some (e, recvErr)))
             else give (Some (e, Some cause))))"

text \<open>What the loop does with an event and an error of the current stream.\<close>

definition after_receive ::
  "'w retry_env \<Rightarrow> 'w retry_options \<Rightarrow> event \<Rightarrow> go_err option \<Rightarrow> 'w retrying \<Rightarrow> ('w rstate, received option) act" where
  "after_receive env opts e recvErr s =
     (case classifyReceived e recvErr s of (s', classified, retry, err) \<Rightarrow>
        bnd (set_state (\<lambda>_. s')) (\<lambda>_. case err of
            Some cause \<Rightarrow> if retry then retry_receive env opts e recvErr cause else give (Some (classified, err))
          | None \<Rightarrow> give (Some (classified, err))))"

definition recv_step :: "'w retry_env \<Rightarrow> 'w retry_options \<Rightarrow> ('w rstate, received option) act" where
  "recv_step env opts =
     bnd (peek snd) (\<lambda>s.
       if rs_closed s then give (Some (zero_event, Some (new_err ''provider stream is closed'')))
       else if rs_terminal s then bnd (on_world (rw_Recv (rs_current s))) (\<lambda>r. give (Some r))
       else bnd (on_world (rw_Recv (rs_current s))) (\<lambda>(e, recvErr). after_receive env opts e recvErr s))"

text \<open>Every turn of the loop uses up a retry.\<close>

lemma open_retries:
  "openStreamWithRetry env opts r w = (w', Returned (r', x)) \<Longrightarrow> r \<le> r' \<and> (r \<le> so_Max opts \<longrightarrow> r' \<le> so_Max opts)"
proof (induction env opts r w rule: openStreamWithRetry.induct)
  case (1 env opts r w)
  obtain w1 a where a: "open_attempt env opts r w = (w1, a)"
    by fastforce
  show ?case
  proof (cases a)
    case (Returned b)
    show ?thesis
    proof (cases b)
      case (Inl q)
      then have "q = (r', x)"
        using 1(2) a Returned by (simp add: openStreamWithRetry.simps [of env opts r w])
      then have "r' = r"
        using a Returned Inl by (auto dest: open_attempt_end)
      then show ?thesis
        by simp
    next
      case (Inr r1)
      then have "openStreamWithRetry env opts r1 w1 = (w', Returned (r', x))"
        using 1(2) a Returned by (simp add: openStreamWithRetry.simps [of env opts r w])
      then show ?thesis
        using 1(1) [OF a [symmetric] Returned Inr] open_attempt_next [of env opts r w w1 r1] a Returned Inr by auto
    qed
  qed (use 1(2) a in \<open>simp add: openStreamWithRetry.simps [of env opts r w]\<close>)
qed

lemma classifyReceived_same:
  assumes "classifyReceived e recvErr s = (s', classified, retry, err)"
  shows "rs_retries s' = rs_retries s" "rs_current s' = rs_current s" "rs_closed s' = rs_closed s"
  using assms
  by (auto simp: classifyReceived_def classifyPartialFailure_def Let_def split: if_splits option.splits)

text \<open>Running actions on the pair of the world and the stream.\<close>

lemma on_world_apply: "on_world m (w, s) = (case m w of (w', x) \<Rightarrow> ((w', s), x))"
  by (simp add: on_world_def)

lemma bnd_on_world:
  "bnd (on_world m) f (w, s) = (st, Returned b) \<longleftrightarrow> (\<exists>w' a. m w = (w', Returned a) \<and> f a (w', s) = (st, Returned b))"
  by (auto simp: bnd_returned on_world_apply split: prod.splits)

lemma bnd_set_state [simp]: "bnd (set_state f) g (w, s) = g () (w, f s)"
  by (simp add: set_state_def)

text \<open>What a retry leaves alone.\<close>

definition same_flags :: "'w retrying \<Rightarrow> 'w retrying \<Rightarrow> bool" where
  "same_flags s s' \<longleftrightarrow> rs_emitted s' = rs_emitted s \<and> rs_terminal s' = rs_terminal s \<and> rs_closed s' = rs_closed s"

lemma reopenE:
  assumes "reopen env opts e (w, s) = (st, Returned x)"
  obtains w1 w2 retries y where "openStreamWithRetry env opts (rs_retries s + 1) w1 = (w2, Returned (retries, y))"
    and "(case y of Inl err \<Rightarrow> give (Some (streamRetryFailure e err))
         | Inr next \<Rightarrow> bnd (set_state (rs_current_update (\<lambda>_. next))) (\<lambda>_. give None))
        (w2, s\<lparr>rs_retries := retries\<rparr>) = (st, Returned x)"
  using assms by (auto simp: reopen_def bnd_on_world)

lemma reopen_next:
  assumes "reopen env opts e (w, s) = ((w', s'), Returned x)"
  shows "rs_retries s < rs_retries s' \<and> (rs_retries s < so_Max opts \<longrightarrow> rs_retries s' \<le> so_Max opts) \<and> same_flags s s'"
  using assms
proof (rule reopenE)
  fix w1 w2 retries y
  assume o: "openStreamWithRetry env opts (rs_retries s + 1) w1 = (w2, Returned (retries, y))"
    and k: "(case y of Inl err \<Rightarrow> give (Some (streamRetryFailure e err))
         | Inr next \<Rightarrow> bnd (set_state (rs_current_update (\<lambda>_. next))) (\<lambda>_. give None))
        (w2, s\<lparr>rs_retries := retries\<rparr>) = ((w', s'), Returned x)"
  have "rs_retries s' = retries \<and> same_flags s s'"
    using k by (cases y) (auto simp: same_flags_def)
  then show ?thesis
    using open_retries [OF o] by auto
qed

lemma retry_receive_next:
  assumes "retry_receive env opts e recvErr cause (w, s) = ((w', s'), Returned None)"
  shows "rs_retries s < so_Max opts \<and> rs_retries s < rs_retries s' \<and> rs_retries s' \<le> so_Max opts \<and> same_flags s s'"
proof -
  obtain w1 where "reopen env opts e (w1, s) = ((w', s'), Returned None)" "rs_retries s < so_Max opts"
    using assms
    by (clarsimp simp: retry_receive_def bnd_on_world split: if_splits) (auto split: sum.splits if_splits)
  then show ?thesis
    using reopen_next [of env opts e w1 s w' s' None] by auto
qed

lemma after_receive_next:
  assumes "after_receive env opts e recvErr s (w, s) = ((w', s'), Returned None)"
  shows "rs_retries s < so_Max opts \<and> rs_retries s < rs_retries s'"
proof -
  obtain s1 classified retry err where c: "classifyReceived e recvErr s = (s1, classified, retry, err)"
    by (cases "classifyReceived e recvErr s") blast
  then obtain cause where "retry_receive env opts e recvErr cause (w, s1) = ((w', s'), Returned None)"
    using assms by (auto simp: after_receive_def split: option.splits if_splits)
  then show ?thesis
    using retry_receive_next [of env opts e recvErr cause w s1 w' s'] classifyReceived_same(1) [OF c] by auto
qed

lemma recv_step_next:
  assumes "recv_step env opts (w, s) = ((w', s'), Returned None)"
  shows "rs_retries s < so_Max opts \<and> rs_retries s < rs_retries s'"
proof -
  obtain w1 e recvErr where "after_receive env opts e recvErr s (w1, s) = ((w', s'), Returned None)"
    using assms by (auto simp: recv_step_def bnd_on_world split: if_splits)
  then show ?thesis
    by (rule after_receive_next)
qed

function recv_loop :: "'w retry_env \<Rightarrow> 'w retry_options \<Rightarrow> ('w rstate, received) act" where
  "recv_loop env opts st = (case recv_step env opts st of
       (st', Panicked b) \<Rightarrow> (st', Panicked b)
     | (st', Returned (Some r)) \<Rightarrow> (st', Returned r)
     | (st', Returned None) \<Rightarrow> recv_loop env opts st')"
  by pat_completeness auto
termination
  by (relation "measure (\<lambda>(env, opts, w, s). nat (so_Max opts - rs_retries s))")
     (auto dest!: recv_step_next [OF sym] split: prod.splits)

declare recv_loop.simps [simp del]

definition retrying_Close :: "('w rstate, go_err option) act" where
  "retrying_Close = bnd (set_state (rs_closed_update (\<lambda>_. True))) (\<lambda>_.
     bnd (peek snd) (\<lambda>s. on_world (rw_Close (rs_current s))))"

definition retrying_Identity :: "'w rstate \<Rightarrow> stream_identity" where
  "retrying_Identity = (\<lambda>(w, s). case rw_Identity (rs_current s) of
     None \<Rightarrow> \<lparr>si_Provider = [], si_Model = []\<rparr> | Some f \<Rightarrow> f w)"

definition OpenRetryingStream ::
  "'w retry_env \<Rightarrow> 'w retry_options \<Rightarrow> ('w, go_err + 'w retrying) act" where
  "OpenRetryingStream env opts =
     bnd (openStreamWithRetry env (normalizedStreamRetryOptions opts) 0) (\<lambda>(retries, x). give (case x of
         Inl e \<Rightarrow> Inl e
       | Inr sm \<Rightarrow> Inr \<lparr>rs_current = sm, rs_retries = retries, rs_emitted = False, rs_terminal = False,
           rs_closed = False\<rparr>))"

text \<open>A client of the stream, and what its \<open>Recv\<close> calls gave it.\<close>

datatype client_op = ClientRecv | ClientClose

fun client ::
  "'w retry_env \<Rightarrow> 'w retry_options \<Rightarrow> client_op list \<Rightarrow> 'w rstate \<Rightarrow> 'w rstate \<times> received outcome list" where
  "client env opts [] st = (st, [])"
| "client env opts (ClientRecv # ops) st = (case recv_loop env opts st of (st1, x) \<Rightarrow>
     (case client env opts ops st1 of (st2, xs) \<Rightarrow> (st2, x # xs)))"
| "client env opts (ClientClose # ops) st = (case retrying_Close st of (st1, x) \<Rightarrow> client env opts ops st1)"

section \<open>No replay after output\<close>

definition is_output :: "event \<Rightarrow> bool" where
  "is_output e \<longleftrightarrow> ev_Kind e \<noteq> no_kind \<and> ev_Kind e \<noteq> EventError"

text \<open>The stream is past the point where it may be reopened.\<close>

definition committed :: "'w retrying \<Rightarrow> bool" where
  "committed s \<longleftrightarrow> rs_emitted s \<or> rs_terminal s \<or> rs_closed s"

definition same_stream :: "'w retrying \<Rightarrow> 'w retrying \<Rightarrow> bool" where
  "same_stream s s' \<longleftrightarrow> rs_current s' = rs_current s \<and> rs_retries s' = rs_retries s \<and> committed s'"

lemma same_stream_trans: "same_stream s s' \<Longrightarrow> same_stream s' s'' \<Longrightarrow> same_stream s s''"
  by (simp add: same_stream_def)

lemma zero_no_output [simp]: "\<not> is_output zero_event"
  by (simp add: is_output_def zero_event_def no_kind_def)

lemma failure_no_output: "\<not> is_output e \<Longrightarrow> \<not> is_output (fst (streamRetryFailure e err))"
  by (auto simp: streamRetryFailure_def is_output_def)

text \<open>A committed stream does not retry, and only output commits a stream that may.\<close>

lemma classify_committed:
  assumes "classifyReceived e recvErr s = (s', classified, retry, err)"
  shows "rs_emitted s \<Longrightarrow> \<not> retry \<and> committed s'"
    and "retry \<Longrightarrow> \<not> is_output e"
    and "\<not> retry \<Longrightarrow> is_output classified \<Longrightarrow> committed s'"
  using assms
  by (auto simp: classifyReceived_def classifyPartialFailure_def Let_def committed_def is_output_def
      zero_event_def no_kind_def split: if_splits option.splits)

lemma after_receive_committed:
  assumes "after_receive env opts e recvErr s (w, s) = ((w', s'), x)" "rs_emitted s"
  shows "same_stream s s' \<and> x \<noteq> Returned None"
proof -
  obtain s1 classified retry err where c: "classifyReceived e recvErr s = (s1, classified, retry, err)"
    by (cases "classifyReceived e recvErr s") blast
  then have "s' = s1" "x = Returned (Some (classified, err))"
    using assms classify_committed(1) [OF c assms(2)] by (auto simp: after_receive_def split: option.splits)
  then show ?thesis
    using classifyReceived_same [OF c] classify_committed(1) [OF c assms(2)] by (simp add: same_stream_def)
qed

lemma recv_step_committed:
  assumes "recv_step env opts (w, s) = ((w', s'), x)" "committed s"
  shows "same_stream s s' \<and> x \<noteq> Returned None"
proof (cases "rs_closed s \<or> rs_terminal s")
  case True
  then show ?thesis
    using assms
    by (auto simp: recv_step_def bnd_def on_world_apply same_stream_def split: prod.splits outcome.splits if_splits)
next
  case False
  then have emitted: "rs_emitted s"
    using assms(2) by (simp add: committed_def)
  obtain w1 y where r: "rw_Recv (rs_current s) w = (w1, y)"
    by fastforce
  show ?thesis
  proof (cases y)
    case (Panicked b)
    then show ?thesis
      using assms False r
      by (auto simp: recv_step_def bnd_def on_world_apply same_stream_def)
  next
    case (Returned p)
    then have "after_receive env opts (fst p) (snd p) s (w1, s) = ((w', s'), x)"
      using assms False r by (cases p) (auto simp: recv_step_def bnd_def on_world_apply)
    then show ?thesis
      using emitted by (rule after_receive_committed)
  qed
qed

lemma recv_loop_committed:
  assumes "recv_loop env opts (w, s) = ((w', s'), x)" "committed s"
  shows "same_stream s s'"
proof -
  obtain w1 s1 y where step: "recv_step env opts (w, s) = ((w1, s1), y)"
    by (metis prod.exhaust)
  have "same_stream s s1" "y \<noteq> Returned None"
    using recv_step_committed [OF step assms(2)] by auto
  then show ?thesis
    using assms(1) step by (auto simp: recv_loop.simps [of env opts "(w, s)"] split: outcome.splits option.splits)
qed

lemma retrying_Close_committed: "retrying_Close (w, s) = ((w', s'), x) \<Longrightarrow> same_stream s s'"
  by (auto simp: retrying_Close_def set_state_def bnd_def on_world_apply same_stream_def committed_def split: prod.splits)

lemma client_committed:
  "client env opts ops (w, s) = ((w', s'), outs) \<Longrightarrow> committed s \<Longrightarrow> same_stream s s'"
proof (induction ops arbitrary: w s outs)
  case (Cons c ops)
  show ?case
  proof (cases c)
    case ClientRecv
    obtain w1 s1 x where r: "recv_loop env opts (w, s) = ((w1, s1), x)"
      by (metis prod.exhaust)
    then obtain xs where "client env opts ops (w1, s1) = ((w', s'), xs)"
      using Cons.prems(1) ClientRecv by (auto split: prod.splits)
    then show ?thesis
      using recv_loop_committed [OF r Cons.prems(2)] Cons.IH same_stream_trans by (metis same_stream_def)
  next
    case ClientClose
    obtain w1 s1 x where r: "retrying_Close (w, s) = ((w1, s1), x)"
      by (metis prod.exhaust)
    then have "client env opts ops (w1, s1) = ((w', s'), outs)"
      using Cons.prems(1) ClientClose by simp
    then show ?thesis
      using retrying_Close_committed [OF r] Cons.IH same_stream_trans by (metis same_stream_def)
  qed
qed (simp add: same_stream_def)

lemma retry_receive_no_output:
  assumes "retry_receive env opts e recvErr cause (w, s) = ((w', s'), Returned (Some r))" "\<not> is_output e"
  shows "\<not> is_output (fst r)"
proof -
  have reopened: "\<not> is_output (fst r)" if "reopen env opts e (w1, s) = ((w', s'), Returned (Some r))" for w1
    using that
  proof (rule reopenE)
    fix w1 w2 retries y
    assume "(case y of Inl err \<Rightarrow> give (Some (streamRetryFailure e err))
         | Inr next \<Rightarrow> bnd (set_state (rs_current_update (\<lambda>_. next))) (\<lambda>_. give None))
        (w2, s\<lparr>rs_retries := retries\<rparr>) = ((w', s'), Returned (Some r))"
    then show ?thesis
      using failure_no_output [OF assms(2)] by (cases y) auto
  qed
  show ?thesis
    using assms(1)
    by (clarsimp simp: retry_receive_def bnd_on_world split: if_splits)
       (use reopened failure_no_output [OF assms(2)] assms(2) in \<open>auto split: sum.splits if_splits\<close>)
qed

lemma after_receive_output:
  assumes "after_receive env opts e recvErr s (w, s) = ((w', s'), Returned (Some r))" "is_output (fst r)"
  shows "committed s'"
proof -
  obtain s1 classified retry err where c: "classifyReceived e recvErr s = (s1, classified, retry, err)"
    by (cases "classifyReceived e recvErr s") blast
  show ?thesis
  proof (cases "retry \<and> err \<noteq> None")
    case True
    then obtain cause where "retry_receive env opts e recvErr cause (w, s1) = ((w', s'), Returned (Some r))"
      using assms(1) c by (auto simp: after_receive_def)
    from retry_receive_no_output [OF this] show ?thesis
      using classify_committed(2) [OF c] True assms(2) by auto
  next
    case False
    then have "s' = s1" "r = (classified, err)" "\<not> retry \<or> err = None"
      using assms(1) c by (auto simp: after_receive_def split: option.splits if_splits)
    moreover have "retry \<Longrightarrow> err \<noteq> None"
      using c by (cases "ev_Err e"; cases recvErr)
        (auto simp: classifyReceived_def classifyPartialFailure_def Let_def split: if_splits dest: sym)
    ultimately show ?thesis
      using classify_committed(3) [OF c] assms(2) by auto
  qed
qed

lemma recv_step_output:
  assumes "recv_step env opts (w, s) = ((w', s'), Returned (Some r))" "is_output (fst r)"
  shows "committed s'"
proof (cases "committed s")
  case True
  then show ?thesis
    using recv_step_committed [OF assms(1)] by (simp add: same_stream_def)
next
  case False
  then obtain w1 e recvErr where "after_receive env opts e recvErr s (w1, s) = ((w', s'), Returned (Some r))"
    using assms(1) by (auto simp: recv_step_def committed_def bnd_on_world)
  then show ?thesis
    using assms(2) by (rule after_receive_output)
qed

lemma recv_loop_output:
  "recv_loop env opts st = ((w', s'), Returned r) \<Longrightarrow> is_output (fst r) \<Longrightarrow> committed s'"
proof (induction env opts st rule: recv_loop.induct)
  case (1 env opts st)
  obtain st1 x where step: "recv_step env opts st = (st1, x)"
    by fastforce
  show ?case
  proof (cases x)
    case (Returned y)
    show ?thesis
    proof (cases y)
      case None
      then have "recv_loop env opts st1 = ((w', s'), Returned r)"
        using 1(2) step Returned by (simp add: recv_loop.simps [of env opts st])
      then show ?thesis
        using 1(1) [OF step [symmetric] Returned None] 1(3) by blast
    next
      case (Some q)
      then have "recv_step env opts (fst st, snd st) = ((w', s'), Returned (Some r))"
        using 1(2) step Returned by (simp add: recv_loop.simps [of env opts st])
      then show ?thesis
        using 1(3) by (rule recv_step_output)
    qed
  qed (use 1(2) step in \<open>simp add: recv_loop.simps [of env opts st]\<close>)
qed

lemma client_output:
  "client env opts ops (w, s) = ((w', s'), outs) \<Longrightarrow> Returned r \<in> set outs \<Longrightarrow> is_output (fst r) \<Longrightarrow> committed s'"
proof (induction ops arbitrary: w s outs)
  case (Cons c ops)
  show ?case
  proof (cases c)
    case ClientRecv
    obtain w1 s1 x where l: "recv_loop env opts (w, s) = ((w1, s1), x)"
      by (metis prod.exhaust)
    then obtain xs where xs: "client env opts ops (w1, s1) = ((w', s'), xs)" "outs = x # xs"
      using Cons.prems(1) ClientRecv by (auto split: prod.splits)
    show ?thesis
    proof (cases "x = Returned r")
      case True
      then have "committed s1"
        using recv_loop_output [of env opts "(w, s)" w1 s1 r] l Cons.prems(3) by simp
      then show ?thesis
        using client_committed [OF xs(1)] by (simp add: same_stream_def)
    next
      case False
      then show ?thesis
        using Cons.IH [OF xs(1)] Cons.prems(2,3) xs(2) by auto
    qed
  next
    case ClientClose
    obtain w1 s1 x where "retrying_Close (w, s) = ((w1, s1), x)"
      by (metis prod.exhaust)
    then show ?thesis
      using Cons ClientClose by simp
  qed
qed simp

section \<open>Counting the opened streams\<close>

text \<open>\<open>opened\<close> counts the streams that were opened; nothing but \<open>open\<close> changes it.\<close>

definition still :: "('w \<Rightarrow> int) \<Rightarrow> ('w, 'a) act \<Rightarrow> bool" where
  "still opened m \<longleftrightarrow> (\<forall>w. opened (fst (m w)) = opened w)"

definition quiet :: "('w \<Rightarrow> int) \<Rightarrow> 'w raw_stream \<Rightarrow> bool" where
  "quiet opened sm \<longleftrightarrow> still opened (rw_Recv sm) \<and> still opened (rw_Close sm)"

definition counts_opens :: "('w \<Rightarrow> int) \<Rightarrow> 'w retry_env \<Rightarrow> 'w retry_options \<Rightarrow> bool" where
  "counts_opens opened env opts \<longleftrightarrow>
     (\<forall>w. opened (fst (rv_open env w)) = opened w + 1) \<and>
     (\<forall>w w' sm. rv_open env w = (w', Returned (Inr sm)) \<longrightarrow> quiet opened sm) \<and>
     still opened (rv_timer_first env) \<and>
     (\<forall>f p. so_ShouldRetry opts = Some f \<longrightarrow> still opened (f p)) \<and>
     (\<forall>f p. so_Observer opts = Some f \<longrightarrow> still opened (f p))"

lemma still_simps [simp]: "still opened (give a)" "still opened (peek f)"
  by (simp_all add: still_def)

lemma stillD: "still opened m \<Longrightarrow> m w = (w', x) \<Longrightarrow> opened w' = opened w"
  unfolding still_def by (metis fst_conv)

lemma still_bnd:
  assumes "still opened m" "\<And>a. still opened (f a)"
  shows "still opened (bnd m f)"
  unfolding still_def
proof
  fix w
  obtain w1 x where m: "m w = (w1, x)"
    by fastforce
  show "opened (fst (bnd m f w)) = opened w"
    using stillD [OF assms(1) m] assms(2) m by (cases x) (simp_all add: bnd_def still_def)
qed

lemma still_approve:
  assumes "counts_opens opened env opts"
  shows "still opened (approveStreamRetryAndWait env opts attempt cause)"
proof -
  have callbacks: "still opened (rv_timer_first env)" "\<And>f p. so_ShouldRetry opts = Some f \<Longrightarrow> still opened (f p)"
    "\<And>f p. so_Observer opts = Some f \<Longrightarrow> still opened (f p)"
    using assms by (simp_all add: counts_opens_def)
  have "still opened (backoff env delay)" for delay
    unfolding backoff_def using callbacks(1) by (simp add: still_bnd)
  then show ?thesis
    unfolding approveStreamRetryAndWait_def Let_def
    by (intro still_bnd still_simps) (auto intro!: still_bnd callbacks split: option.split)
qed

lemma open_attempt_counts:
  assumes "counts_opens opened env opts" "open_attempt env opts r w = (w', x)"
  shows "opened w' = opened w + 1" "x = Returned (Inl (r', Inr sm)) \<Longrightarrow> quiet opened sm"
proof -
  obtain w1 y where o: "rv_open env w = (w1, y)"
    by fastforce
  have w1: "opened w1 = opened w + 1"
    using assms(1) o unfolding counts_opens_def by (metis fst_conv)
  have "opened w' = opened w1 \<and> (x = Returned (Inl (r', Inr sm)) \<longrightarrow> y = Returned (Inr sm))"
  proof (cases y)
    case (Returned v)
    show ?thesis
    proof (cases v)
      case (Inl e)
      obtain w2 z where ap: "approveStreamRetryAndWait env opts (r + 1) e w1 = (w2, z)"
        by fastforce
      then have "opened w2 = opened w1"
        by (rule stillD [OF still_approve [OF assms(1)]])
      then show ?thesis
        using assms(2) o Returned Inl ap
        by (cases z) (auto simp: open_attempt_def bnd_def split: if_splits sum.splits)
    qed (use assms(2) o Returned in \<open>auto simp: open_attempt_def bnd_def\<close>)
  qed (use assms(2) o in \<open>auto simp: open_attempt_def bnd_def\<close>)
  then show "opened w' = opened w + 1" "x = Returned (Inl (r', Inr sm)) \<Longrightarrow> quiet opened sm"
    using w1 o assms(1) by (auto simp: counts_opens_def)
qed

lemma open_counts:
  assumes "counts_opens opened env opts"
  shows "openStreamWithRetry env opts r w = (w', Returned (r', x)) \<Longrightarrow>
    opened w' = opened w + (r' - r) + 1 \<and> (\<forall>sm. x = Inr sm \<longrightarrow> quiet opened sm)"
  using assms
proof (induction env opts r w rule: openStreamWithRetry.induct)
  case (1 env opts r w)
  obtain w1 a where a: "open_attempt env opts r w = (w1, a)"
    by fastforce
  note counts = open_attempt_counts [OF 1(3) a]
  show ?case
  proof (cases a)
    case (Returned b)
    show ?thesis
    proof (cases b)
      case (Inl q)
      then have q: "q = (r', x)" "w' = w1"
        using 1(2) a Returned by (simp_all add: openStreamWithRetry.simps [of env opts r w])
      then have "r' = r"
        using a Returned Inl by (auto dest: open_attempt_end)
      then show ?thesis
        using counts q Returned Inl by auto
    next
      case (Inr r1)
      then have "openStreamWithRetry env opts r1 w1 = (w', Returned (r', x))"
        using 1(2) a Returned by (simp add: openStreamWithRetry.simps [of env opts r w])
      then show ?thesis
        using 1(1) [OF a [symmetric] Returned Inr] 1(3) counts(1) open_attempt_next [of env opts r w w1 r1] a Returned Inr
        by auto
    qed
  qed (use 1(2) a in \<open>simp add: openStreamWithRetry.simps [of env opts r w]\<close>)
qed

text \<open>The retries of the stream account for every stream that was opened.\<close>

definition accounted :: "('w \<Rightarrow> int) \<Rightarrow> int \<Rightarrow> 'w retry_options \<Rightarrow> 'w rstate \<Rightarrow> bool" where
  "accounted opened base opts st \<longleftrightarrow> opened (fst st) = base + rs_retries (snd st) + 1 \<and>
     rs_retries (snd st) \<le> so_Max opts \<and> quiet opened (rs_current (snd st))"

lemma reopen_accounted:
  assumes "counts_opens opened env opts" "accounted opened base opts (w, s)" "rs_retries s < so_Max opts"
    and "reopen env opts e (w, s) = (st, Returned x)"
  shows "accounted opened base opts st"
proof -
  obtain w1 c w2 retries y where close: "rw_Close (rs_current s) w = (w1, Returned c)"
    and o: "openStreamWithRetry env opts (rs_retries s + 1) w1 = (w2, Returned (retries, y))"
    and k: "(case y of Inl err \<Rightarrow> give (Some (streamRetryFailure e err))
         | Inr next \<Rightarrow> bnd (set_state (rs_current_update (\<lambda>_. next))) (\<lambda>_. give None))
        (w2, s\<lparr>rs_retries := retries\<rparr>) = (st, Returned x)"
    using assms(4) by (auto simp: reopen_def bnd_on_world)
  have "opened w1 = opened w"
    using assms(2) close stillD [of opened "rw_Close (rs_current s)"] by (auto simp: accounted_def quiet_def)
  then show ?thesis
    using assms(2,3) open_counts [OF assms(1) o] open_retries [OF o] k
    by (cases y) (auto simp: accounted_def)
qed

lemma retry_receive_accounted:
  assumes "counts_opens opened env opts" "accounted opened base opts (w, s)"
    and "retry_receive env opts e recvErr cause (w, s) = ((w', s'), Returned x)"
  shows "accounted opened base opts (w', s')"
proof -
  have approve: "opened w1 = opened w" if "approveStreamRetryAndWait env opts k cause w = (w1, y)" for k w1 y
    using stillD [OF still_approve [OF assms(1)] that] .
  have moved: "accounted opened base opts (w1, s\<lparr>rs_terminal := t\<rparr>) \<and> accounted opened base opts (w1, s)"
    if "opened w1 = opened w" for w1 t
    using assms(2) that by (simp add: accounted_def)
  show ?thesis
  proof (cases "contextRetryStop cause \<or> so_Max opts \<le> rs_retries s")
    case True
    then have "w' = w" "s' = s"
      using assms(3) by (auto simp: retry_receive_def split: if_splits)
    then show ?thesis
      using assms(2) by simp
  next
    case False
    then obtain w1 y where y: "approveStreamRetryAndWait env opts (rs_retries s + 1) cause w = (w1, Returned y)"
      and k: "(case y of Inl err \<Rightarrow> give (Some (zero_event, Some err))
         | Inr approved \<Rightarrow>
             if approved then reopen env opts e
             else if ev_Kind e = EventError
               then bnd (set_state (rs_terminal_update (\<lambda>_. True))) (\<lambda>_. give (Some (e, recvErr)))
             else give (Some (e, Some cause))) (w1, s) = ((w', s'), Returned x)"
      using assms(3) by (auto simp: retry_receive_def bnd_on_world)
    show ?thesis
    proof (cases "y = Inr True")
      case True
      then show ?thesis
        using reopen_accounted [OF assms(1) conjunct2 [OF moved [OF approve [OF y]]]] k False by simp
    next
      case no: False
      then show ?thesis
        using k moved [OF approve [OF y]] by (cases y) (auto split: if_splits)
    qed
  qed
qed

lemma recv_step_accounted:
  assumes "counts_opens opened env opts" "accounted opened base opts (w, s)"
    and "recv_step env opts (w, s) = ((w', s'), Returned x)"
  shows "accounted opened base opts (w', s')"
proof -
  have moved: "accounted opened base opts (w1, s)" if "rw_Recv (rs_current s) w = (w1, y)" for w1 y
    using assms(2) stillD [of opened "rw_Recv (rs_current s)" w w1 y] that by (simp add: accounted_def quiet_def)
  have receive: "accounted opened base opts (w', s')"
    if a: "accounted opened base opts (w1, s)" "after_receive env opts e recvErr s (w1, s) = ((w', s'), Returned x)"
    for w1 e recvErr
  proof -
    obtain s1 classified retry err where c: "classifyReceived e recvErr s = (s1, classified, retry, err)"
      by (cases "classifyReceived e recvErr s") blast
    then have s1: "accounted opened base opts (w1, s1)"
      using a(1) classifyReceived_same [OF c] by (simp add: accounted_def)
    then show ?thesis
      using a(2) c retry_receive_accounted [OF assms(1) s1]
      by (auto simp: after_receive_def split: option.splits if_splits)
  qed
  show ?thesis
    using assms(2,3) moved receive by (auto simp: recv_step_def bnd_on_world split: if_splits)
qed

lemma recv_loop_accounted:
  "counts_opens opened env opts \<Longrightarrow> accounted opened base opts st \<Longrightarrow>
    recv_loop env opts st = (st', Returned r) \<Longrightarrow> accounted opened base opts st'"
proof (induction env opts st rule: recv_loop.induct)
  case (1 env opts st)
  obtain st1 x where step: "recv_step env opts st = (st1, x)"
    by fastforce
  show ?case
  proof (cases x)
    case (Returned y)
    then have "accounted opened base opts (fst st1, snd st1)"
      using recv_step_accounted [of opened env opts base "fst st" "snd st" "fst st1" "snd st1" y] 1(2,3) step by simp
    then show ?thesis
      using 1 step Returned by (cases y) (auto simp: recv_loop.simps [of env opts st])
  qed (use 1(4) step in \<open>simp add: recv_loop.simps [of env opts st]\<close>)
qed

lemma retrying_Close_accounted:
  assumes "accounted opened base opts st" "retrying_Close st = (st', x)"
  shows "accounted opened base opts st'"
proof (cases st)
  case (Pair w s)
  then obtain w1 where "rw_Close (rs_current s) w = (w1, x)" "st' = (w1, s\<lparr>rs_closed := True\<rparr>)"
    using assms(2) by (auto simp: retrying_Close_def on_world_apply split: prod.splits)
  then show ?thesis
    using assms(1) Pair stillD [of opened "rw_Close (rs_current s)" w w1 x] by (simp add: accounted_def quiet_def)
qed

lemma client_accounted:
  "counts_opens opened env opts \<Longrightarrow> accounted opened base opts st \<Longrightarrow> client env opts ops st = (st', outs) \<Longrightarrow>
    (\<forall>b. Panicked b \<notin> set outs) \<Longrightarrow> accounted opened base opts st'"
proof (induction env opts ops st arbitrary: st' outs rule: client.induct)
  case (2 env opts ops st)
  obtain st1 x where l: "recv_loop env opts st = (st1, x)"
    by fastforce
  then obtain xs where xs: "client env opts ops st1 = (st', xs)" "outs = x # xs"
    using "2.prems"(3) by (auto split: prod.splits)
  then obtain r where r: "x = Returned r"
    using "2.prems"(4) by (cases x) auto
  have "accounted opened base opts st1"
    using recv_loop_accounted [OF "2.prems"(1,2)] l r by simp
  then show ?case
    using "2.IH" [OF l [symmetric] "2.prems"(1) _ xs(1)] "2.prems"(4) xs(2) by auto
next
  case (3 env opts ops st)
  obtain st1 x where c: "retrying_Close st = (st1, x)"
    by fastforce
  then show ?case
    using "3.IH" [OF c [symmetric] "3.prems"(1) retrying_Close_accounted [OF "3.prems"(2) c]] "3.prems" by simp
qed simp

section \<open>Properties\<close>

text \<open>
  C21.  A retrying stream never replays: once any \<open>Recv\<close> has delivered an event that is neither
  empty nor an error, no later call of any client opens another stream, whatever the drivers and
  the callbacks return and even when they panic.
\<close>

theorem retrying_stream_never_replays:
  assumes "client env opts ops (w, s) = ((w1, s1), outs)" "Returned (e, err) \<in> set outs" "is_output e"
    and "client env opts ops' (w1, s1) = ((w2, s2), outs')"
  shows "rs_current s2 = rs_current s1 \<and> rs_retries s2 = rs_retries s1"
  using client_committed [OF assms(4)] client_output [OF assms(1,2)] assms(3) by (simp add: same_stream_def)

text \<open>A driver whose streams read one tape: a transport error, a text, and an error again.\<close>

type_synonym retry_tape = "int \<times> received list"

definition tape_raw :: "retry_tape raw_stream" where
  "tape_raw = \<lparr>rw_Recv = (\<lambda>(n, xs). case xs of
       [] \<Rightarrow> ((n, []), Returned (zero_event, Some (sentinel IoEOF)))
     | x # rest \<Rightarrow> ((n, rest), Returned x)),
     rw_Close = give None, rw_Identity = None\<rparr>"

definition tape_retry_env :: "retry_tape retry_env" where
  "tape_retry_env = \<lparr>rv_open = (\<lambda>(n, xs). ((n + 1, xs), Returned (Inr tape_raw))), rv_ctx_err = (\<lambda>w. None),
     rv_timer_first = give True, rv_is_retryable = (\<lambda>e. True), rv_suggested_delay = (\<lambda>e. 0)\<rparr>"

definition tape_retry_options :: "retry_tape retry_options" where
  "tape_retry_options = \<lparr>so_Max = 2, so_Delay = Some (\<lambda>n. 0), so_MaxDelay = 10 ^ 9, so_ShouldRetry = None,
     so_Observer = None\<rparr>"

definition tape_text :: event where
  "tape_text = zero_event\<lparr>ev_Kind := EventTextDelta, ev_Text := ''hi''\<rparr>"

definition flaky_tape :: "received list" where
  "flaky_tape = [(zero_event, Some (sentinel IoEOF)), (tape_text, None), (zero_event, Some (sentinel IoEOF))]"

definition tape_retrying :: "retry_tape retrying" where
  "tape_retrying = \<lparr>rs_current = tape_raw, rs_retries = 0, rs_emitted = False, rs_terminal = False, rs_closed = False\<rparr>"

lemma tape_open: "openStreamWithRetry tape_retry_env opts r (n, xs) = ((n + 1, xs), Returned (r, Inr tape_raw))"
proof -
  have "open_attempt tape_retry_env opts r (n, xs) = ((n + 1, xs), Returned (Inl (r, Inr tape_raw)))"
    by (simp add: open_attempt_def tape_retry_env_def bnd_def)
  then show ?thesis
    by (simp add: openStreamWithRetry.simps [of tape_retry_env opts r "(n, xs)"])
qed

lemma tape_approve:
  "approveStreamRetryAndWait tape_retry_env tape_retry_options k (sentinel IoEOF) = give (Inr True)"
  by (rule ext) (simp add: approveStreamRetryAndWait_def tape_retry_env_def tape_retry_options_def retry_delay_def
      backoff_def contextRetryStop_def Let_def)

lemma tape_views [simp]:
  "rw_Recv tape_raw (n, x # xs) = ((n, xs), Returned x)" "rw_Close tape_raw = give None"
  "so_Max tape_retry_options = 2" "rs_current tape_retrying = tape_raw" "rs_retries tape_retrying = 0"
  "\<not> rs_emitted tape_retrying" "\<not> rs_terminal tape_retrying" "\<not> rs_closed tape_retrying"
  by (simp_all add: tape_raw_def tape_retry_options_def tape_retrying_def)

lemma tape_classify:
  "\<not> rs_emitted s \<Longrightarrow> classifyReceived zero_event (Some e) s = (s, zero_event, True, Some e)"
  "rs_emitted s \<Longrightarrow> classifyReceived zero_event (Some e) s =
     (s\<lparr>rs_terminal := True\<rparr>, zero_event, False, Some (partial_error e))"
  "classifyReceived tape_text None s = (s\<lparr>rs_emitted := True\<rparr>, tape_text, False, None)"
  by (simp_all add: classifyReceived_def classifyPartialFailure_def zero_event_def tape_text_def no_kind_def)

lemma tape_reopen:
  "rs_current s = tape_raw \<Longrightarrow> reopen tape_retry_env tape_retry_options e ((n, xs), s) =
     (((n + 1, xs), s\<lparr>rs_retries := rs_retries s + 1\<rparr>), Returned None)"
  by (cases s) (simp add: reopen_def bnd_def on_world_apply set_state_def tape_open)

lemma tape_retry:
  "rs_current s = tape_raw \<Longrightarrow> rs_retries s < 2 \<Longrightarrow>
    retry_receive tape_retry_env tape_retry_options zero_event r (sentinel IoEOF) ((n, xs), s) =
      (((n + 1, xs), s\<lparr>rs_retries := rs_retries s + 1\<rparr>), Returned None)"
  by (simp add: retry_receive_def bnd_def on_world_apply tape_approve contextRetryStop_def tape_reopen)

lemma tape_first_recv:
  "client tape_retry_env tape_retry_options [ClientRecv] ((1, flaky_tape), tape_retrying) =
     (((2, [(zero_event, Some (sentinel IoEOF))]), tape_retrying\<lparr>rs_retries := 1, rs_emitted := True\<rparr>),
      [Returned (tape_text, None)])"
proof -
  let ?tail = "[(tape_text, None), (zero_event, Some (sentinel IoEOF))]"
  have "recv_step tape_retry_env tape_retry_options ((1, flaky_tape), tape_retrying) =
      (((2, ?tail), tape_retrying\<lparr>rs_retries := 1\<rparr>), Returned None)"
    by (simp add: recv_step_def bnd_def on_world_apply flaky_tape_def after_receive_def tape_classify set_state_def tape_retry)
  moreover have "recv_step tape_retry_env tape_retry_options ((2, ?tail), tape_retrying\<lparr>rs_retries := 1\<rparr>) =
      (((2, tl ?tail), tape_retrying\<lparr>rs_retries := 1, rs_emitted := True\<rparr>), Returned (Some (tape_text, None)))"
    by (simp add: recv_step_def bnd_def on_world_apply after_receive_def tape_classify set_state_def)
  ultimately show ?thesis
    by (simp add: recv_loop.simps [of tape_retry_env tape_retry_options "((1, flaky_tape), tape_retrying)"]
        recv_loop.simps [of tape_retry_env tape_retry_options "((2, ?tail), tape_retrying\<lparr>rs_retries := 1\<rparr>)"])
qed

theorem retrying_stream_never_replays_witness:
  "client tape_retry_env tape_retry_options [ClientRecv] ((1, flaky_tape), tape_retrying) =
     (((2, [(zero_event, Some (sentinel IoEOF))]), tape_retrying\<lparr>rs_retries := 1, rs_emitted := True\<rparr>),
      [Returned (tape_text, None)]) \<and>
   rs_retries (snd (fst (client tape_retry_env tape_retry_options [ClientRecv, ClientRecv]
     ((2, [(zero_event, Some (sentinel IoEOF))]), tape_retrying\<lparr>rs_retries := 1, rs_emitted := True\<rparr>)))) = 1"
proof -
  let ?s1 = "tape_retrying\<lparr>rs_retries := 1, rs_emitted := True\<rparr>"
  obtain w2 s2 outs where "client tape_retry_env tape_retry_options [ClientRecv, ClientRecv]
      ((2, [(zero_event, Some (sentinel IoEOF))]), ?s1) = ((w2, s2), outs)"
    by (metis prod.exhaust)
  moreover have "is_output tape_text"
    by (simp add: is_output_def tape_text_def no_kind_def zero_event_def)
  ultimately have "rs_retries s2 = 1"
    using retrying_stream_never_replays [OF tape_first_recv, of tape_text None "[ClientRecv, ClientRecv]" w2 s2 outs] by simp
  then show ?thesis
    using tape_first_recv \<open>client _ _ _ _ = _\<close> by simp
qed

text \<open>
  The retries of a stream are bounded over its whole life: from the first attempt to open it
  and through any sequence of \<open>Recv\<close> and \<open>Close\<close> calls, the driver opens at most one stream more
  than the retry limit.
\<close>

theorem retrying_stream_opens_bounded:
  assumes "counts_opens opened env opts"
    and "OpenRetryingStream env opts w = (w1, Returned (Inr s1))"
    and "client env (normalizedStreamRetryOptions opts) ops (w1, s1) = ((w2, s2), outs)"
    and "\<forall>b. Panicked b \<notin> set outs"
  shows "opened w2 \<le> opened w + so_Max (normalizedStreamRetryOptions opts) + 1"
proof -
  let ?opts = "normalizedStreamRetryOptions opts"
  have counts: "counts_opens opened env ?opts"
    using assms(1) by (simp add: counts_opens_def normalizedStreamRetryOptions_def)
  have "0 \<le> so_Max ?opts"
    by (simp add: normalizedStreamRetryOptions_def DefaultMaxStreamRetries_def)
  moreover obtain retries y where o: "openStreamWithRetry env ?opts 0 w = (w1, Returned (retries, y))"
    and y: "(case y of Inl e \<Rightarrow> Inl e | Inr sm \<Rightarrow> Inr \<lparr>rs_current = sm, rs_retries = retries, rs_emitted = False,
        rs_terminal = False, rs_closed = False\<rparr>) = Inr s1"
    using assms(2) by (auto simp: OpenRetryingStream_def bnd_returned)
  moreover from y obtain sm where "y = Inr sm" "rs_current s1 = sm" "rs_retries s1 = retries"
    by (cases y) auto
  ultimately have "accounted opened (opened w) ?opts (w1, s1)"
    using open_counts [OF counts o] open_retries [OF o] by (simp add: accounted_def)
  then show ?thesis
    using client_accounted [OF counts _ assms(3,4)] by (simp add: accounted_def)
qed

lemma tape_counts: "counts_opens fst tape_retry_env tape_retry_options"
proof -
  have "quiet fst tape_raw"
    by (auto simp: quiet_def still_def tape_raw_def split: prod.split list.split)
  then show ?thesis
    by (auto simp: counts_opens_def tape_retry_env_def tape_retry_options_def split: prod.splits)
qed

theorem retrying_stream_opens_bounded_witness:
  "\<exists>w2 s2. OpenRetryingStream tape_retry_env tape_retry_options (0, flaky_tape) =
       ((1, flaky_tape), Returned (Inr tape_retrying)) \<and>
     client tape_retry_env tape_retry_options [ClientRecv] ((1, flaky_tape), tape_retrying) =
       ((w2, s2), [Returned (tape_text, None)]) \<and> fst w2 \<le> 3"
proof -
  have opts: "normalizedStreamRetryOptions tape_retry_options = tape_retry_options"
    by (simp add: normalizedStreamRetryOptions_def tape_retry_options_def)
  have o: "OpenRetryingStream tape_retry_env tape_retry_options (0, flaky_tape) =
      ((1, flaky_tape), Returned (Inr tape_retrying))"
    by (simp add: OpenRetryingStream_def bnd_def opts tape_open tape_retrying_def)
  have run: "client tape_retry_env (normalizedStreamRetryOptions tape_retry_options) [ClientRecv]
      ((1, flaky_tape), tape_retrying) =
        (((2, [(zero_event, Some (sentinel IoEOF))]), tape_retrying\<lparr>rs_retries := 1, rs_emitted := True\<rparr>),
         [Returned (tape_text, None)])"
    by (simp only: opts tape_first_recv)
  have "fst (2 :: int, [(zero_event, Some (sentinel IoEOF))]) \<le> fst (0 :: int, flaky_tape) +
      so_Max (normalizedStreamRetryOptions tape_retry_options) + 1"
    using retrying_stream_opens_bounded [OF tape_counts o run] by simp
  then show ?thesis
    using o tape_first_recv opts by simp
qed

end
