(* ===== verification/SkillBundles.thy ===== *)
theory SkillBundles
  imports ToolBus
begin

text \<open>
  Package skill: the bundles of \<open>src/skill/skill.go\<close> and the resource manifest of
  \<open>src/skill/resource.go\<close>, without the file system.  A document is split, its YAML (decoded by the
  third-party library, a parameter) is read into a skill, and the skill is validated, registered,
  resolved and rendered.  The lemmas show what a parsed skill satisfies, that frontmatter and body
  are recovered from a document made of them, and that the registry keeps the contract of
  \<open>registry\<close>.
\<close>

section \<open>Strings and paths\<close>

definition nl :: bytes where "nl = [CHR 0x0A]"

fun split_on :: "char \<Rightarrow> bytes \<Rightarrow> bytes list" where
  "split_on c [] = [[]]"
| "split_on c (d # s) = (if d = c then [] # split_on c s
     else case split_on c s of [] \<Rightarrow> [[d]] | x # xs \<Rightarrow> (d # x) # xs)"

fun join_with :: "bytes \<Rightarrow> bytes list \<Rightarrow> bytes" where
  "join_with sep [] = []"
| "join_with sep [s] = s"
| "join_with sep (s # ss) = s @ sep @ join_with sep ss"

text \<open>\<open>utf8.RuneCountInString\<close>: an invalid byte is a rune of its own.\<close>

definition cont :: "nat \<Rightarrow> nat \<Rightarrow> char \<Rightarrow> bool" where
  "cont lo hi c \<longleftrightarrow> lo \<le> (of_char c :: nat) \<and> (of_char c :: nat) \<le> hi"

definition rune2 :: "char \<Rightarrow> char \<Rightarrow> bool" where
  "rune2 a b \<longleftrightarrow> cont 0xC2 0xDF a \<and> cont 0x80 0xBF b"

definition rune3 :: "char \<Rightarrow> char \<Rightarrow> char \<Rightarrow> bool" where
  "rune3 a b c \<longleftrightarrow> cont 0x80 0xBF c \<and>
     (cont 0xE0 0xE0 a \<and> cont 0xA0 0xBF b \<or> cont 0xED 0xED a \<and> cont 0x80 0x9F b \<or>
      (cont 0xE1 0xEC a \<or> cont 0xEE 0xEF a) \<and> cont 0x80 0xBF b)"

definition rune4 :: "char \<Rightarrow> char \<Rightarrow> char \<Rightarrow> char \<Rightarrow> bool" where
  "rune4 a b c d \<longleftrightarrow> cont 0x80 0xBF c \<and> cont 0x80 0xBF d \<and>
     (cont 0xF0 0xF0 a \<and> cont 0x90 0xBF b \<or> cont 0xF4 0xF4 a \<and> cont 0x80 0x8F b \<or>
      cont 0xF1 0xF3 a \<and> cont 0x80 0xBF b)"

definition rune_width :: "bytes \<Rightarrow> nat" where
  "rune_width s = (case s of
       a # b # c # d # r \<Rightarrow> if rune2 a b then 2 else if rune3 a b c then 3 else if rune4 a b c d then 4 else 1
     | [a, b, c] \<Rightarrow> if rune2 a b then 2 else if rune3 a b c then 3 else 1
     | [a, b] \<Rightarrow> if rune2 a b then 2 else 1
     | _ \<Rightarrow> 1)"

lemma rune_width_pos: "0 < rune_width s"
  by (simp add: rune_width_def split: list.split)

function rune_count :: "bytes \<Rightarrow> nat" where
  "rune_count s = (if s = [] then 0 else Suc (rune_count (drop (rune_width s) s)))"
  by auto
termination
  by (relation "measure length") (use rune_width_pos in auto)

declare rune_count.simps [simp del]

text \<open>\<open>filepath.Clean\<close>, \<open>Dir\<close> and \<open>Base\<close> on a Unix path.\<close>

fun clean_parts :: "bool \<Rightarrow> bytes list \<Rightarrow> bytes list \<Rightarrow> bytes list" where
  "clean_parts rooted out [] = rev out"
| "clean_parts rooted out (p # ps) =
     (if p = [] \<or> p = ''.'' then clean_parts rooted out ps
      else if p = ''..'' then (case out of
          q # qs \<Rightarrow> if q = ''..'' then clean_parts rooted (p # out) ps else clean_parts rooted qs ps
        | [] \<Rightarrow> clean_parts rooted (if rooted then [] else [p]) ps)
      else clean_parts rooted (p # out) ps)"

definition path_Clean :: "bytes \<Rightarrow> bytes" where
  "path_Clean path =
     (let rooted = prefix ''/'' path;
          joined = join_with ''/'' (clean_parts rooted [] (split_on CHR ''/'' path)) in
      if rooted then CHR ''/'' # joined else if joined = [] then ''.'' else joined)"

definition path_Dir :: "bytes \<Rightarrow> bytes" where
  "path_Dir path = path_Clean (rev (dropWhile (\<lambda>c. c \<noteq> CHR ''/'') (rev path)))"

definition path_Base :: "bytes \<Rightarrow> bytes" where
  "path_Base path =
     (if path = [] then ''.''
      else let trimmed = dropWhile (\<lambda>c. c = CHR ''/'') (rev path);
               base = rev (takeWhile (\<lambda>c. c \<noteq> CHR ''/'') trimmed) in
        if base = [] then ''/'' else base)"

section \<open>Skills\<close>

definition maxSkillBytes :: nat where "maxSkillBytes = 2 ^ 20"

record skill_resource =
  sr_Name :: bytes
  sr_Size :: int

text \<open>\<open>sourceInfo\<close> only serves to recognise the directory again and is left out.\<close>

record skill =
  sk_Name :: bytes
  sk_Description :: bytes
  sk_License :: bytes
  sk_Compatibility :: bytes
  sk_Metadata :: string_map
  sk_AllowedTools :: "bytes list"
  sk_Body :: bytes
  sk_SourcePath :: bytes
  sk_SourceDir :: bytes
  sk_Resources :: "skill_resource list"

definition validation_error :: "bytes \<Rightarrow> bytes \<Rightarrow> go_err" where
  "validation_error fld reason = new_err (''skill: invalid SKILL.md: '' @ fld @ '': '' @ reason)"

definition name_char :: "char \<Rightarrow> bool" where
  "name_char c \<longleftrightarrow> CHR ''a'' \<le> c \<and> c \<le> CHR ''z'' \<or> CHR ''0'' \<le> c \<and> c \<le> CHR ''9'' \<or> c = CHR ''-''"

definition validateName :: "bytes \<Rightarrow> go_err option" where
  "validateName name =
     (if name = [] then Some (validation_error ''name'' ''is required'')
      else if 64 < rune_count name then Some (validation_error ''name'' ''must be at most 64 characters'')
      else if prefix ''-'' name \<or> suffix ''-'' name \<or> sublist ''--'' name
        then Some (validation_error ''name'' ''must use single interior hyphens only'')
      else if list_all name_char name then None
      else Some (validation_error ''name'' ''must contain only lowercase ASCII letters, digits, and hyphens''))"

definition validateSkill :: "skill \<Rightarrow> bool \<Rightarrow> go_err option" where
  "validateSkill s checkPath =
     (case validateName (sk_Name s) of Some e \<Rightarrow> Some e | None \<Rightarrow>
        if trim_space (sk_Description s) = [] then Some (validation_error ''description'' ''is required'')
        else if 1024 < rune_count (sk_Description s)
          then Some (validation_error ''description'' ''must be at most 1024 characters'')
        else if 500 < rune_count (sk_Compatibility s)
          then Some (validation_error ''compatibility'' ''must be at most 500 characters'')
        else if checkPath \<and> sk_SourcePath s \<noteq> []
          then let base = path_Base (path_Dir (sk_SourcePath s)) in
            if base \<noteq> [] \<and> base \<noteq> ''.'' \<and> base \<noteq> ''/'' \<and> base \<noteq> sk_Name s
              then Some (validation_error ''name'' (''must match parent directory '' @ base)) else None
        else None)"

section \<open>Documents\<close>

text \<open>\<open>ReplaceAll\<close> of CRLF, then of CR, by LF.\<close>

fun replace_crlf :: "bytes \<Rightarrow> bytes" where
  "replace_crlf (c # d # s) = (if c = CHR 0x0D \<and> d = CHR 0x0A then CHR 0x0A # replace_crlf s
     else c # replace_crlf (d # s))"
| "replace_crlf s = s"

definition normalize_newlines :: "bytes \<Rightarrow> bytes" where
  "normalize_newlines s = map (\<lambda>c. if c = CHR 0x0D then CHR 0x0A else c) (replace_crlf s)"

definition splitFrontmatter :: "bytes \<Rightarrow> go_err + bytes \<times> bytes" where
  "splitFrontmatter content =
     (let txt = normalize_newlines content in
      if \<not> prefix (''---'' @ nl) txt
        then Inl (validation_error ''frontmatter'' ''missing opening delimiter'')
      else let lines = split_on CHR 0x0A (drop 4 txt); i = length (takeWhile (\<lambda>l. l \<noteq> ''---'') lines) in
        if i = length lines then Inl (validation_error ''frontmatter'' ''missing closing delimiter'')
        else let body = join_with nl (drop (Suc i) lines) in
          Inr (join_with nl (take i lines), if prefix nl body then drop 1 body else body))"

text \<open>
  The nodes of \<open>yaml.v3\<close>.  A mapping node of the library holds its keys and values in turn; a key
  without a value, which it never builds, is dropped by \<open>node_pairs\<close>.
\<close>

datatype yaml_kind = ZeroNode | DocumentNode | SequenceNode | MappingNode | ScalarNode | AliasNode

datatype yaml_node = YamlNode
  (y_Kind: yaml_kind) (y_Tag: bytes) (y_Value: bytes) (y_Content: "yaml_node list")

fun node_pairs :: "yaml_node list \<Rightarrow> (yaml_node \<times> yaml_node) list" where
  "node_pairs (k # v # ns) = (k, v) # node_pairs ns"
| "node_pairs ns = []"

definition is_string :: "yaml_node \<Rightarrow> bool" where
  "is_string n \<longleftrightarrow> y_Kind n = ScalarNode \<and> y_Tag n = ''!!str''"

definition yamlString :: "bytes \<Rightarrow> yaml_node \<Rightarrow> go_err + bytes" where
  "yamlString fld n = (if is_string n then Inr (y_Value n) else Inl (validation_error fld ''must be a string''))"

fun string_pairs :: "(yaml_node \<times> yaml_node) list \<Rightarrow> string_map \<Rightarrow> go_err + string_map" where
  "string_pairs [] m = Inr m"
| "string_pairs ((k, v) # ps) m =
     (if \<not> is_string k then Inl (validation_error ''metadata'' ''keys must be strings'')
      else if \<not> is_string v then Inl (validation_error ''metadata'' ''values must be strings'')
      else string_pairs ps (AList.update (y_Value k) (y_Value v) m))"

definition yamlStringMap :: "yaml_node \<Rightarrow> go_err + string_map" where
  "yamlStringMap n = (if y_Kind n \<noteq> MappingNode then Inl (validation_error ''metadata'' ''must be a string map'')
     else string_pairs (node_pairs (y_Content n)) [])"

text \<open>
  \<open>splitAllowedTools\<close>: the loop over the runes, with the tool read so far (reversed) and the depth
  of the parentheses.
\<close>

definition flushToken :: "bytes \<Rightarrow> bytes list" where
  "flushToken cur = (if cur = [] then [] else [rev cur])"

definition nextToolDepth :: "nat \<Rightarrow> char \<Rightarrow> nat" where
  "nextToolDepth depth c = (if c = CHR ''('' then Suc depth
     else if c = CHR '')'' \<and> 0 < depth then depth - 1 else depth)"

fun split_tools :: "nat \<Rightarrow> bytes \<Rightarrow> bytes \<Rightarrow> bytes list" where
  "split_tools depth cur [] = flushToken cur"
| "split_tools depth cur (c # s) =
     (if depth = 0 \<and> ascii_space c then flushToken cur @ split_tools 0 [] s
      else case s of
          d # e # r \<Rightarrow>
            if depth = 0 \<and> space2 c d then flushToken cur @ split_tools 0 [] (e # r)
            else if depth = 0 \<and> space3 c d e then flushToken cur @ split_tools 0 [] r
            else split_tools (nextToolDepth depth c) (c # cur) s
        | [d] \<Rightarrow> if depth = 0 \<and> space2 c d then flushToken cur else split_tools (nextToolDepth depth c) (c # cur) s
        | [] \<Rightarrow> split_tools (nextToolDepth depth c) (c # cur) s)"

definition splitAllowedTools :: "bytes \<Rightarrow> bytes list" where
  "splitAllowedTools = split_tools 0 []"

definition yamlAllowedTools :: "yaml_node \<Rightarrow> go_err + bytes list" where
  "yamlAllowedTools n =
     (if y_Kind n = ScalarNode
        then (if y_Tag n \<noteq> ''!!str'' then Inl (validation_error ''allowed-tools'' ''must be a string or string list'')
              else Inr (splitAllowedTools (y_Value n)))
      else if y_Kind n = SequenceNode
        then (if \<not> list_all is_string (y_Content n)
                then Inl (validation_error ''allowed-tools'' ''list entries must be strings'')
              else Inr (filter (\<lambda>t. t \<noteq> []) (map (\<lambda>item. trim_space (y_Value item)) (y_Content n))))
      else Inl (validation_error ''allowed-tools'' ''must be a string or string list''))"

text \<open>\<open>frontmatterFields\<close> is the skill read so far and \<open>compatibilitySet\<close>.\<close>

record frontmatter =
  fm_Name :: bytes
  fm_Description :: bytes
  fm_License :: bytes
  fm_Compatibility :: bytes
  fm_Metadata :: string_map
  fm_AllowedTools :: "bytes list"
  fm_compatibilitySet :: bool

definition no_fields :: frontmatter where
  "no_fields = \<lparr>fm_Name = [], fm_Description = [], fm_License = [], fm_Compatibility = [], fm_Metadata = [],
     fm_AllowedTools = [], fm_compatibilitySet = False\<rparr>"

definition applyFrontmatterField :: "frontmatter \<Rightarrow> bytes \<Rightarrow> yaml_node \<Rightarrow> go_err + frontmatter" where
  "applyFrontmatterField f key v =
     (if key = ''name'' then map_sum id (\<lambda>x. f\<lparr>fm_Name := x\<rparr>) (yamlString key v)
      else if key = ''description'' then map_sum id (\<lambda>x. f\<lparr>fm_Description := x\<rparr>) (yamlString key v)
      else if key = ''license'' then map_sum id (\<lambda>x. f\<lparr>fm_License := x\<rparr>) (yamlString key v)
      else if key = ''compatibility''
        then map_sum id (\<lambda>x. f\<lparr>fm_Compatibility := x, fm_compatibilitySet := True\<rparr>) (yamlString key v)
      else if key = ''metadata'' then map_sum id (\<lambda>x. f\<lparr>fm_Metadata := x\<rparr>) (yamlStringMap v)
      else if key = ''allowed-tools'' then map_sum id (\<lambda>x. f\<lparr>fm_AllowedTools := x\<rparr>) (yamlAllowedTools v)
      else Inr f)"

fun apply_fields :: "frontmatter \<Rightarrow> (yaml_node \<times> yaml_node) list \<Rightarrow> go_err + frontmatter" where
  "apply_fields f [] = Inr f"
| "apply_fields f ((k, v) # ps) = (case applyFrontmatterField f (y_Value k) v of
     Inl e \<Rightarrow> Inl e | Inr f' \<Rightarrow> apply_fields f' ps)"

definition rejectMappingDuplicates :: "yaml_node \<Rightarrow> go_err option" where
  "rejectMappingDuplicates n =
     (if distinct (map (\<lambda>(k, v). y_Value k) (node_pairs (y_Content n))) then None
      else Some (validation_error ''frontmatter'' ''duplicate key''))"

lemma size_list_rev: "size_list f (rev xs) = size_list f xs"
  by (induction xs) auto

lemma size_list_append: "size_list f (xs @ ys) = size_list f xs + size_list f ys"
  by (induction xs) auto

lemma yaml_size: "size_list size (y_Content n) < size n"
  by (cases n) auto

text \<open>\<open>rejectDuplicateKeys\<close>: the top of the stack is the head of the list.\<close>

function reject_pending :: "yaml_node list \<Rightarrow> go_err option" where
  "reject_pending [] = None"
| "reject_pending (n # pending) =
     (case (if y_Kind n = MappingNode then rejectMappingDuplicates n else None) of
        Some e \<Rightarrow> Some e
      | None \<Rightarrow> reject_pending (rev (y_Content n) @ pending))"
  by pat_completeness auto

termination
proof (relation "measure (size_list size)")
  fix n pending
  show "(rev (y_Content n) @ pending, n # pending) \<in> measure (size_list size)"
    using yaml_size [of n] by (simp add: size_list_append size_list_rev)
qed simp

definition decodeFrontmatterNode ::
  "(bytes \<Rightarrow> go_err + yaml_node) \<Rightarrow> bytes \<Rightarrow> go_err + yaml_node option" where
  "decodeFrontmatterNode unmarshal content =
     (if trim_space content = [] then Inr None
      else case unmarshal content of
        Inl e \<Rightarrow> Inl (validation_error ''frontmatter'' ''invalid YAML'')
      | Inr root \<Rightarrow> (case y_Content root of
            [] \<Rightarrow> Inr None
          | n # ns \<Rightarrow>
              if y_Kind n = ZeroNode then Inr None
              else if y_Kind n \<noteq> MappingNode then Inl (validation_error ''frontmatter'' ''must be a mapping'')
              else (case reject_pending [n] of Some e \<Rightarrow> Inl e | None \<Rightarrow> Inr (Some n))))"

definition parseFrontmatter ::
  "(bytes \<Rightarrow> go_err + yaml_node) \<Rightarrow> bytes \<Rightarrow> go_err + frontmatter" where
  "parseFrontmatter unmarshal content = (case decodeFrontmatterNode unmarshal content of
       Inl e \<Rightarrow> Inl e
     | Inr None \<Rightarrow> Inr no_fields
     | Inr (Some n) \<Rightarrow> (case apply_fields no_fields (node_pairs (y_Content n)) of
           Inl e \<Rightarrow> Inl e
         | Inr f \<Rightarrow> if fm_compatibilitySet f \<and> trim_space (fm_Compatibility f) = []
             then Inl (validation_error ''compatibility'' ''must not be empty when provided'') else Inr f))"

definition Parse ::
  "(bytes \<Rightarrow> go_err + yaml_node) \<Rightarrow> bytes \<Rightarrow> bytes \<Rightarrow> go_err + skill" where
  "Parse unmarshal path content =
     (if maxSkillBytes < length content then Inl (validation_error ''file'' ''must be at most 1 MiB'')
      else case splitFrontmatter content of Inl e \<Rightarrow> Inl e | Inr (frontmatter, body) \<Rightarrow>
        (case parseFrontmatter unmarshal frontmatter of Inl e \<Rightarrow> Inl e | Inr f \<Rightarrow>
          let source = (if path \<noteq> [] then path_Clean path else []);
              s = \<lparr>sk_Name = fm_Name f, sk_Description = fm_Description f, sk_License = fm_License f,
                sk_Compatibility = fm_Compatibility f, sk_Metadata = fm_Metadata f,
                sk_AllowedTools = fm_AllowedTools f, sk_Body = body, sk_SourcePath = source,
                sk_SourceDir = (if path \<noteq> [] then path_Dir source else []), sk_Resources = []\<rparr>
          in case validateSkill s True of Some e \<Rightarrow> Inl e | None \<Rightarrow> Inr s))"

section \<open>The registry\<close>

text \<open>A registry is its map; \<open>None\<close> is the nil pointer.\<close>

type_synonym skill_registry = "(bytes \<times> skill) list"

definition Register_skill :: "skill \<Rightarrow> skill_registry \<Rightarrow> skill_registry \<times> go_err option" where
  "Register_skill s r =
     (case validateSkill s False of Some e \<Rightarrow> (r, Some e)
      | None \<Rightarrow> (case map_of r (sk_Name s) of
            Some old \<Rightarrow> (r, Some (new_err (''skill: skill already registered: '' @ sk_Name s)))
          | None \<Rightarrow> (AList.update (sk_Name s) s r, None)))"

definition Deregister :: "bytes \<Rightarrow> skill_registry \<Rightarrow> skill_registry \<times> bool" where
  "Deregister name r = (case map_of r name of None \<Rightarrow> (r, False) | Some old \<Rightarrow> (AList.delete name r, True))"

definition Get_skill :: "skill_registry option \<Rightarrow> bytes \<Rightarrow> skill option" where
  "Get_skill r name = (case r of None \<Rightarrow> None | Some m \<Rightarrow> map_of m name)"

definition List_skills :: "skill_registry option \<Rightarrow> skill list" where
  "List_skills r = (case r of None \<Rightarrow> [] | Some m \<Rightarrow> sort_key sk_Name (map snd m))"

definition skill_not_found :: "bytes \<Rightarrow> go_err" where
  "skill_not_found name = GoErr ErrSkillNotFound [new_err (''skill: skill not registered: '' @ name)]"

fun resolve_loop :: "skill_registry option \<Rightarrow> bytes list \<Rightarrow> skill list \<Rightarrow> bytes list \<Rightarrow> go_err + skill list" where
  "resolve_loop r seen out [] = Inr out"
| "resolve_loop r seen out (name # names) =
     (if name \<in> set seen then resolve_loop r seen out names
      else case Get_skill r name of
          None \<Rightarrow> Inl (skill_not_found name)
        | Some s \<Rightarrow> resolve_loop r (name # seen) (out @ [s]) names)"

definition Resolve_skills :: "skill_registry option \<Rightarrow> bytes list \<Rightarrow> go_err + skill list" where
  "Resolve_skills r names = (if r = None then Inl (new_err ''skill: registry is nil'') else resolve_loop r [] [] names)"

section \<open>Rendering\<close>

definition render_skill :: "skill \<Rightarrow> bytes" where
  "render_skill s = ''--- skill: '' @ sk_Name s @ '' ---'' @ nl @
     ''Description: '' @ sk_Description s @ nl @ ''Source directory: '' @ sk_SourceDir s @ nl @
     (if sk_Compatibility s \<noteq> [] then ''Compatibility: '' @ sk_Compatibility s @ nl else []) @
     (if sk_Resources s \<noteq> [] then ''Resources (load only when needed):'' @ nl @
        concat (map (\<lambda>r. ''- '' @ sr_Name r @ nl) (sk_Resources s)) else []) @
     nl @ sk_Body s @ (if sk_Body s \<noteq> [] \<and> \<not> suffix nl (sk_Body s) then nl else []) @
     ''--- end skill: '' @ sk_Name s @ '' ---''"

definition RenderSystemSection :: "skill list \<Rightarrow> bytes" where
  "RenderSystemSection skills =
     (if skills = [] then []
      else ''Active Venat skills:'' @ nl @
        ''Use these reusable instructions when they apply to the task. Skills do not grant tool permission; available tools and policy still come from the agent configuration.'' @
        nl @ nl @ join_with (nl @ nl) (map render_skill skills))"

definition Activate :: "skill \<Rightarrow> bytes" where
  "Activate s = RenderSystemSection [s]"

text \<open>
  \<open>ReadResource\<close>: only a file of the manifest is read; \<open>reader\<close> is the access to the file system
  (\<open>readVerifiedResource\<close> below the directory the skill was loaded from).
\<close>

definition hasResource :: "skill_resource list \<Rightarrow> bytes \<Rightarrow> bool" where
  "hasResource resources name \<longleftrightarrow> list_ex (\<lambda>r. sr_Name r = name) resources"

definition ReadResource :: "(skill \<Rightarrow> bytes \<Rightarrow> 'w \<Rightarrow> 'w \<times> (go_err + bytes)) \<Rightarrow> skill \<Rightarrow> bytes \<Rightarrow> 'w \<Rightarrow> 'w \<times> (go_err + bytes)" where
  "ReadResource reader s name w =
     (if \<not> hasResource (sk_Resources s) name then (w, Inl (wrap_err name (new_err ''skill: resource not found'')))
      else reader s name w)"

section \<open>Valid names and skills\<close>

definition valid_name :: "bytes \<Rightarrow> bool" where
  "valid_name name \<longleftrightarrow> name \<noteq> [] \<and> length name \<le> 64 \<and> list_all name_char name \<and>
     \<not> prefix ''-'' name \<and> \<not> suffix ''-'' name \<and> \<not> sublist ''--'' name"

lemma name_char_ascii: "name_char c \<Longrightarrow> (of_char c :: nat) < 0x80"
  unfolding name_char_def less_eq_char_def by auto

lemma ascii_rune_width:
  assumes "list_all name_char s" "s \<noteq> []"
  shows "rune_width s = 1"
proof -
  obtain a r where s: "s = a # r" "(of_char a :: nat) < 0x80"
    using assms name_char_ascii by (cases s) auto
  then show ?thesis
    by (simp add: rune_width_def rune2_def rune3_def rune4_def cont_def split: list.split)
qed

lemma ascii_rune_count: "list_all name_char s \<Longrightarrow> rune_count s = length s"
proof (induction s)
  case (Cons a s)
  then show ?case
    using ascii_rune_width [of "a # s"] by (subst rune_count.simps) simp
qed (simp add: rune_count.simps)

lemma validateName_spec: "validateName name = None \<longleftrightarrow> valid_name name"
  by (auto simp: validateName_def valid_name_def ascii_rune_count)

lemma validateSkill_path: "validateSkill s True = None \<Longrightarrow> validateSkill s False = None"
  by (auto simp: validateSkill_def Let_def split: option.splits if_splits)

lemma Parse_valid:
  assumes "Parse unmarshal path content = Inr s"
  shows "validateSkill s True = None"
  using assms by (auto simp: Parse_def Let_def split: if_splits sum.splits prod.splits option.splits)

section \<open>Frontmatter\<close>

lemma split_on_not_Nil [simp]: "split_on c s \<noteq> []"
  by (induction s) (auto split: list.split)

lemma split_on_line: "c \<notin> set l \<Longrightarrow> split_on c l = [l]"
  by (induction l) auto

lemma split_on_append: "c \<notin> set l \<Longrightarrow> split_on c (l @ c # s) = l # split_on c s"
  by (induction l) auto

lemma split_join:
  assumes "\<forall>l \<in> set ls. c \<notin> set l" "ls \<noteq> []"
  shows "split_on c (join_with [c] ls) = ls"
  using assms
proof (induction "[c]" ls rule: join_with.induct)
  case (3 s t ss)
  then show ?case
    by (simp add: split_on_append del: split_on.simps)
qed (simp_all add: split_on_line)

lemma join_split: "join_with [c] (split_on c s) = s"
proof (induction s)
  case (Cons d s)
  obtain x xs where x: "split_on c s = x # xs"
    by (cases "split_on c s") auto
  then show ?case
    using Cons by (cases xs) auto
qed simp

lemma join_append: "xs \<noteq> [] \<Longrightarrow> ys \<noteq> [] \<Longrightarrow> join_with sep (xs @ ys) = join_with sep xs @ sep @ join_with sep ys"
proof (induction sep xs rule: join_with.induct)
  case (2 sep s)
  then show ?case
    by (cases ys) auto
qed auto

lemma replace_crlf_id: "CHR 0x0D \<notin> set s \<Longrightarrow> replace_crlf s = s"
  by (induction s rule: replace_crlf.induct) auto

lemma normalize_newlines_id: "CHR 0x0D \<notin> set s \<Longrightarrow> normalize_newlines s = s"
  by (auto simp: normalize_newlines_def replace_crlf_id intro: map_idI)

text \<open>A document of lines without carriage returns gives them back.\<close>

definition document :: "bytes list \<Rightarrow> bytes \<Rightarrow> bytes" where
  "document front body = join_with nl (''---'' # front @ [''---'', body])"

lemma splitFrontmatter_document:
  assumes "\<forall>l \<in> set front. CHR 0x0A \<notin> set l \<and> CHR 0x0D \<notin> set l \<and> l \<noteq> ''---''"
    and "CHR 0x0D \<notin> set body" "\<not> prefix nl body"
  shows "splitFrontmatter (document front body) = Inr (join_with nl front, body)"
proof -
  let ?lines = "front @ ''---'' # split_on CHR 0x0A body"
  have join: "set (join_with nl ls) \<subseteq> insert (CHR 0x0A) (\<Union> (set ` set ls))" for ls
    by (induction nl ls rule: join_with.induct) (auto simp: nl_def)
  have "CHR 0x0D \<notin> set (document front body)"
    using join [of "''---'' # front @ [''---'', body]"] assms(1,2) unfolding document_def by fastforce
  then have plain: "normalize_newlines (document front body) = document front body"
    by (rule normalize_newlines_id)
  have doc: "document front body = ''---'' @ nl @ join_with nl (front @ [''---'', body])"
    unfolding document_def by (cases front) auto
  have rest: "drop 4 (document front body) = join_with nl (front @ [''---'', body])"
    by (simp add: doc nl_def)
  have body: "join_with nl (split_on CHR 0x0A body) = body"
    using join_split by (simp add: nl_def)
  have "join_with nl (front @ [''---'', body]) = join_with nl ?lines"
    using join_append [of front "[''---'', body]" nl] join_append [of "front @ [''---'']" "split_on CHR 0x0A body" nl]
      join_append [of front "[''---'']" nl] body
    by (cases "front = []") auto
  moreover have "\<forall>l \<in> set ?lines. CHR 0x0A \<notin> set l"
  proof -
    have "CHR 0x0A \<notin> set l" if "l \<in> set (split_on CHR 0x0A s)" for l s
      using that by (induction s arbitrary: l) (auto split: if_splits list.splits)
    then show ?thesis
      using assms(1) by auto
  qed
  ultimately have lines: "split_on CHR 0x0A (drop 4 (document front body)) = ?lines"
    using split_join [of ?lines "CHR 0x0A"] rest by (simp add: nl_def)
  have before: "takeWhile (\<lambda>l. l \<noteq> ''---'') ?lines = front"
    using assms(1) by (subst takeWhile_append2) auto
  have "prefix (''---'' @ nl) (document front body)"
    by (simp add: doc nl_def)
  then show ?thesis
    using assms(3) body
    by (simp add: splitFrontmatter_def Let_def plain lines before)
qed

section \<open>The contract of the registry\<close>

interpretation skill_registry: registry Register_skill "\<lambda>r. map_of r" sk_Name
proof
  fix e s t n
  assume "Register_skill e s = (t, None)"
  then show "map_of s (sk_Name e) = None \<and> map_of t n = (if n = sk_Name e then Some e else map_of s n)"
    by (auto simp: Register_skill_def update_conv' split: option.splits)
qed

lemma resolve_loop_all:
  assumes "\<forall>s \<in> set ss. Get_skill r (sk_Name s) = Some s" "distinct (map sk_Name ss)"
    and "sk_Name ` set ss \<inter> set seen = {}"
  shows "resolve_loop r seen out (map sk_Name ss) = Inr (out @ ss)"
  using assms by (induction ss arbitrary: seen out) auto

lemma registered_resolve:
  assumes "accepted Register_skill [] ss r"
  shows "Resolve_skills (Some r) (map sk_Name ss) = Inr ss"
  using skill_registry.accepted_find [OF assms] resolve_loop_all [of ss "Some r" "[]" "[]"]
  by (simp add: Resolve_skills_def Get_skill_def)

section \<open>Properties\<close>

text \<open>
  The frontmatter and the body of a document made of them are found again: any lines without
  line breaks, none of them a delimiter, and any body without carriage returns that does not begin
  with a line break.
\<close>

theorem frontmatter_round_trip:
  assumes "\<forall>l \<in> set front. CHR 0x0A \<notin> set l \<and> CHR 0x0D \<notin> set l \<and> l \<noteq> ''---''"
    and "CHR 0x0D \<notin> set body" "\<not> prefix nl body"
  shows "splitFrontmatter (document front body) = Inr (join_with nl front, body)"
  using assms by (rule splitFrontmatter_document)

theorem frontmatter_round_trip_witness:
  "splitFrontmatter (document [''name: pdf''] (''Use it.'' @ nl)) = Inr (''name: pdf'', ''Use it.'' @ nl)"
  using frontmatter_round_trip [of "[''name: pdf'']" "''Use it.'' @ nl"] by (simp add: nl_def)

end
