(* ===== verification/SkillRuntime.thy ===== *)
theory SkillRuntime
  imports SkillBundles
begin

text \<open>
  Skills of an execution: \<open>src/agent/skill_tools.go\<close> and the skill messages of
  \<open>src/agent/engine.go\<close>.  The runtime of an execution is a part of the world (\<open>ss_get\<close>, \<open>ss_put\<close>);
  the model activates a skill and reads its resources through two tools.  JSON, the texts of errors
  and the file system are parameters.  The lemmas show that only active skills give out resources,
  that the activations of an execution are found again by the runtime of a resumed one if their
  results are in the transcript as the tool returned them (and are lost if they were changed), that
  they are not repeated after a compaction, and that injecting the skill messages keeps everything
  else.
\<close>

section \<open>The runtime\<close>

definition SkillActivationToolName :: bytes where "SkillActivationToolName = ''hydaelyn_activate_skill''"
definition SkillResourceToolName :: bytes where "SkillResourceToolName = ''hydaelyn_read_skill_resource''"
definition skillContextMetadataKey :: bytes where "skillContextMetadataKey = ''hydaelyn.skill.context''"

record skill_runtime =
  kr_all :: "(bytes \<times> skill) list"
  kr_available :: "(bytes \<times> skill) list"
  kr_active :: "bytes list"
  kr_eager :: "bytes list"
  kr_order :: "bytes list"

text \<open>The two loops of \<open>newSkillRuntime\<close>.  Sets are lists without repetition.\<close>

definition seed_active :: "skill \<Rightarrow> skill_runtime \<Rightarrow> skill_runtime" where
  "seed_active s r = r\<lparr>kr_all := AList.update (sk_Name s) s (kr_all r),
     kr_active := List.insert (sk_Name s) (kr_active r), kr_eager := List.insert (sk_Name s) (kr_eager r),
     kr_order := kr_order r @ [sk_Name s]\<rparr>"

fun seed_available :: "skill list \<Rightarrow> bytes list \<Rightarrow> skill_runtime \<Rightarrow> skill_runtime" where
  "seed_available [] names r = r\<lparr>kr_order := kr_order r @ sort names\<rparr>"
| "seed_available (s # ss) names r =
     (if map_of (kr_all r) (sk_Name s) \<noteq> None then seed_available ss names r
      else seed_available ss (names @ [sk_Name s])
        (r\<lparr>kr_all := AList.update (sk_Name s) s (kr_all r),
           kr_available := AList.update (sk_Name s) s (kr_available r)\<rparr>))"

definition newSkillRuntime :: "skill list \<Rightarrow> skill list \<Rightarrow> skill_runtime" where
  "newSkillRuntime active available = seed_available available []
     (fold seed_active active \<lparr>kr_all = [], kr_available = [], kr_active = [], kr_eager = [], kr_order = []\<rparr>)"

definition hasResources :: "skill_runtime \<Rightarrow> bool" where
  "hasResources r \<longleftrightarrow> list_ex (\<lambda>(name, s). sk_Resources s \<noteq> []) (kr_all r)"

definition activate :: "bytes \<Rightarrow> skill_runtime \<Rightarrow> skill_runtime \<times> (go_err + skill \<times> bool)" where
  "activate name r = (case map_of (kr_all r) name of
       None \<Rightarrow> (r, Inl (skill_not_found name))
     | Some s \<Rightarrow> if name \<in> set (kr_active r) then (r, Inr (s, False))
         else (r\<lparr>kr_active := List.insert name (kr_active r)\<rparr>, Inr (s, True)))"

definition activeSkill :: "skill_runtime \<Rightarrow> bytes \<Rightarrow> skill option" where
  "activeSkill r name = (if name \<notin> set (kr_active r) then None else map_of (kr_all r) name)"

definition activeSkills :: "skill_runtime \<Rightarrow> skill list" where
  "activeSkills r = List.map_filter (activeSkill r) (kr_order r)"

definition availableSkills :: "skill_runtime \<Rightarrow> skill list" where
  "availableSkills r = map (\<lambda>name. the (map_of (kr_available r) name)) (sort (map fst (kr_available r)))"

section \<open>Activations in a transcript\<close>

text \<open>
  \<open>si_activated\<close> decodes the name of an activation from a structured result, \<open>si_structured\<close> encodes
  it; the two argument decoders are \<open>decodeSkillToolArguments\<close>.
\<close>

record 'w skill_io =
  si_activated :: "bytes \<Rightarrow> bytes option"
  si_structured :: "skill \<Rightarrow> bytes"
  si_name_argument :: "bytes \<Rightarrow> go_err + bytes"
  si_resource_arguments :: "bytes \<Rightarrow> go_err + bytes \<times> bytes"
  si_reader :: "skill \<Rightarrow> bytes \<Rightarrow> 'w \<Rightarrow> 'w \<times> (go_err + bytes)"
  si_error_text :: "go_err \<Rightarrow> bytes"

definition activation :: "(bytes \<Rightarrow> bytes option) \<Rightarrow> message \<Rightarrow> (bytes \<times> bytes) option" where
  "activation activated m = (case m_ToolResult m of
       None \<Rightarrow> None
     | Some res \<Rightarrow>
         if tr_Name res \<noteq> SkillActivationToolName \<or> tr_IsError res then None
         else (case activated (tr_Structured res) of
             None \<Rightarrow> None
           | Some name \<Rightarrow> if name = [] then None else Some (name, tr_Content res)))"

definition activationResults :: "(bytes \<Rightarrow> bytes option) \<Rightarrow> message list \<Rightarrow> (bytes \<times> bytes) list" where
  "activationResults activated messages =
     fold (\<lambda>m found. case activation activated m of None \<Rightarrow> found
       | Some (name, content) \<Rightarrow> AList.update name content found) messages []"

definition restore_one :: "bytes \<times> bytes \<Rightarrow> skill_runtime \<Rightarrow> skill_runtime" where
  "restore_one = (\<lambda>(name, content) r. case map_of (kr_all r) name of
       None \<Rightarrow> r
     | Some s \<Rightarrow> if content = Activate s then r\<lparr>kr_active := List.insert name (kr_active r)\<rparr> else r)"

definition restoreActivations ::
  "(bytes \<Rightarrow> bytes option) \<Rightarrow> message list \<Rightarrow> skill_runtime \<Rightarrow> skill_runtime" where
  "restoreActivations activated messages = fold restore_one (activationResults activated messages)"

definition shouldRestoreSkill :: "bytes \<Rightarrow> skill \<Rightarrow> (bytes \<times> bytes) list \<Rightarrow> bytes list \<Rightarrow> bool" where
  "shouldRestoreSkill name s found eager \<longleftrightarrow> name \<in> set eager \<or>
     (case map_of found name of None \<Rightarrow> True | Some content \<Rightarrow> content \<noteq> Activate s)"

definition skillsForCompaction ::
  "(bytes \<Rightarrow> bytes option) \<Rightarrow> message list \<Rightarrow> skill_runtime \<Rightarrow> skill list" where
  "skillsForCompaction activated messages r =
     (let found = activationResults activated messages in
      List.map_filter (\<lambda>name. case activeSkill r name of
          None \<Rightarrow> None
        | Some s \<Rightarrow> if shouldRestoreSkill name s found (kr_eager r) then Some s else None) (kr_order r))"

section \<open>The tools\<close>

record 'w skill_state =
  ss_get :: "'w \<Rightarrow> skill_runtime"
  ss_put :: "skill_runtime \<Rightarrow> 'w \<Rightarrow> 'w"

definition skillToolErrorResult :: "'w skill_io \<Rightarrow> tool_call \<Rightarrow> go_err \<Rightarrow> tool_result" where
  "skillToolErrorResult sio call e = zero_result\<lparr>tr_ToolCallID := tc_ID call,
     tr_Name := (if tc_Name call = [] then SkillResourceToolName else tc_Name call),
     tr_Content := si_error_text sio e, tr_IsError := True\<rparr>"

definition activation_result :: "'w skill_io \<Rightarrow> tool_call \<Rightarrow> go_err + skill \<times> bool \<Rightarrow> tool_result" where
  "activation_result sio call x = (case x of
       Inl e \<Rightarrow> skillToolErrorResult sio call e
     | Inr (s, activated) \<Rightarrow>
         if \<not> activated then zero_result\<lparr>tr_ToolCallID := tc_ID call, tr_Name := tc_Name call,
           tr_Content := ''Skill already active: '' @ sk_Name s\<rparr>
         else zero_result\<lparr>tr_ToolCallID := tc_ID call, tr_Name := tc_Name call,
           tr_Content := Activate s, tr_Structured := si_structured sio s\<rparr>)"

definition execute_activation :: "'w skill_io \<Rightarrow> 'w skill_state \<Rightarrow> 'w driver" where
  "execute_activation sio st call = (case si_name_argument sio (tc_Arguments call) of
       Inl e \<Rightarrow> Ret (skillToolErrorResult sio call e, None)
     | Inr name \<Rightarrow> Do (\<lambda>w. case activate name (ss_get st w) of (r, x) \<Rightarrow>
         (ss_put st r w, Ret (activation_result sio call x, None))))"

definition execute_resource :: "'w skill_io \<Rightarrow> 'w skill_state \<Rightarrow> 'w driver" where
  "execute_resource sio st call = (case si_resource_arguments sio (tc_Arguments call) of
       Inl e \<Rightarrow> Ret (skillToolErrorResult sio call e, None)
     | Inr (name, path) \<Rightarrow> Do (\<lambda>w. case activeSkill (ss_get st w) name of
         None \<Rightarrow> (w, Ret (skillToolErrorResult sio call (new_err ''agent: skill is not active''), None))
       | Some s \<Rightarrow> (case ReadResource (si_reader sio) s path w of
             (w', Inl e) \<Rightarrow> (w', Ret (skillToolErrorResult sio call e, None))
           | (w', Inr content) \<Rightarrow> (w', Ret (zero_result\<lparr>tr_ToolCallID := tc_ID call,
               tr_Name := tc_Name call, tr_Content := content\<rparr>, None)))))"

definition plain_schema :: "bytes \<Rightarrow> bytes list \<Rightarrow> json_schema" where
  "plain_schema ty enum = JSONSchema ty [] [] [] None enum None"

definition skill_definition :: "bytes \<Rightarrow> bytes \<Rightarrow> (bytes \<times> json_schema) list \<Rightarrow> tool_definition" where
  "skill_definition name description properties = \<lparr>td_Name = name, td_Description = description,
     td_InputSchema = JSONSchema ''object'' [] properties (map fst properties) None [] (Some False),
     td_Terminal = False, td_Timeout = 0, td_Concurrency = ConcurrencySequential,
     td_ConcurrencyGroup = ''skills'', td_MaxConcurrency = 0\<rparr>"

definition skill_names :: "skill_runtime \<Rightarrow> bytes list" where
  "skill_names r = sort (map fst (kr_all r))"

definition activation_tool :: "'w skill_io \<Rightarrow> 'w skill_state \<Rightarrow> skill_runtime \<Rightarrow> 'w tool" where
  "activation_tool sio st r = \<lparr>tl_Definition = skill_definition SkillActivationToolName
       ''Load one available Agent Skill before following its instructions.''
       [(''name'', plain_schema ''string'' (skill_names r))],
     tl_Execute = execute_activation sio st\<rparr>"

definition resource_tool :: "'w skill_io \<Rightarrow> 'w skill_state \<Rightarrow> skill_runtime \<Rightarrow> 'w tool" where
  "resource_tool sio st r = \<lparr>tl_Definition = skill_definition SkillResourceToolName
       ''Read one declared resource from an active Agent Skill.''
       [(''skill'', plain_schema ''string'' (skill_names r)), (''path'', plain_schema ''string'' [])],
     tl_Execute = execute_resource sio st\<rparr>"

text \<open>
  \<open>attachTools\<close>; the set of all skills never changes after the start, so the definitions of the
  tools are those of the initial runtime.
\<close>

definition skill_attach ::
  "(tool_definition \<Rightarrow> argument_validation) \<Rightarrow> 'w skill_io \<Rightarrow> 'w skill_state \<Rightarrow> skill_runtime
     \<Rightarrow> 'w bus option \<Rightarrow> go_err + 'w bus option" where
  "skill_attach compile sio st r bus =
     (if kr_all r = [] then Inr bus
      else case (case bus of None \<Rightarrow> None | Some b \<Rightarrow> bus_err b) of Some e \<Rightarrow> Inl e | None \<Rightarrow>
        let cloned = (case bus of None \<Rightarrow> empty_bus | Some b \<Rightarrow> b) in
        if Bus_Driver cloned SkillActivationToolName \<noteq> None
          then Inl (wrap_err SkillActivationToolName (sentinel ErrSkillToolConflict))
        else if Bus_Driver cloned SkillResourceToolName \<noteq> None
          then Inl (wrap_err SkillResourceToolName (sentinel ErrSkillToolConflict))
        else case Register compile (Some (activation_tool sio st r)) cloned of
            (b1, Some e) \<Rightarrow> Inl e
          | (b1, None) \<Rightarrow>
              if \<not> hasResources r then Inr (Some b1)
              else (case Register compile (Some (resource_tool sio st r)) b1 of
                  (b2, Some e) \<Rightarrow> Inl e
                | (b2, None) \<Rightarrow> Inr (Some b2)))"

section \<open>Skill messages\<close>

definition renderSkillCatalog :: "skill list \<Rightarrow> bytes" where
  "renderSkillCatalog skills =
     (if skills = [] then []
      else ''Available Venat skills:'' @ nl @ ''When a task matches a description, call '' @
        SkillActivationToolName @
        '' before proceeding. Skill resources remain unavailable until activation.'' @ nl @
        join_with nl (map (\<lambda>s. ''- '' @ sk_Name s @ '': '' @ sk_Description s) (sort_key sk_Name skills)))"

text \<open>\<open>current.Metadata[skillContextMetadataKey]\<close>; empty when it is absent.\<close>

definition skill_context :: "message \<Rightarrow> bytes" where
  "skill_context m = (case map_of (m_Metadata m) skillContextMetadataKey of None \<Rightarrow> [] | Some kind \<Rightarrow> kind)"

definition removeSkillContextMessages :: "message list \<Rightarrow> message list" where
  "removeSkillContextMessages messages = filter (\<lambda>m. skill_context m = []) messages"

definition skill_message :: "bytes \<Rightarrow> bytes \<Rightarrow> message list" where
  "skill_message kind content = (if content = [] then []
     else [(NewText RoleSystem content)\<lparr>m_Metadata := [(skillContextMetadataKey, kind)]\<rparr>])"

definition injectSkillMessages :: "message list \<Rightarrow> skill list \<Rightarrow> skill list \<Rightarrow> message list" where
  "injectSkillMessages messages active available =
     (if active = [] \<and> available = [] then messages
      else let kept = removeSkillContextMessages messages;
               system = takeWhile (\<lambda>m. m_Role m = RoleSystem) kept in
        system @ skill_message ''active'' (RenderSystemSection active) @
          skill_message ''catalog'' (renderSkillCatalog available) @ drop (length system) kept)"

text \<open>\<open>validateSkillContextPreserved\<close>: the map of required texts, then what is left of it.\<close>

definition required_context :: "message list \<Rightarrow> (bytes \<times> bytes) list" where
  "required_context before = fold (\<lambda>m required. if skill_context m \<noteq> []
     then AList.update (skill_context m) (m_Text m) required else required) before []"

definition drop_found :: "message \<Rightarrow> (bytes \<times> bytes) list \<Rightarrow> (bytes \<times> bytes) list" where
  "drop_found m required = (if (case map_of required (skill_context m) of None \<Rightarrow> [] | Some t \<Rightarrow> t) = m_Text m
     then AList.delete (skill_context m) required else required)"

definition validateSkillContextPreserved :: "message list \<Rightarrow> message list \<Rightarrow> go_err option" where
  "validateSkillContextPreserved before after =
     (if fold drop_found after (required_context before) = [] then None
      else Some (new_err ''agent: targeted context compaction removed framework skill context''))"

section \<open>The invariant of the runtime\<close>

definition runtime_ok :: "skill_runtime \<Rightarrow> bool" where
  "runtime_ok r \<longleftrightarrow> (\<forall>n s. map_of (kr_all r) n = Some s \<longrightarrow> sk_Name s = n) \<and>
     set (kr_active r) \<subseteq> fst ` set (kr_all r) \<and> set (kr_eager r) \<subseteq> set (kr_active r) \<and>
     fst ` set (kr_available r) \<subseteq> fst ` set (kr_all r) - set (kr_eager r)"

lemma fst_update: "fst ` set (AList.update k v m) = insert k (fst ` set m)"
  using AList.dom_update [of k v m] by simp

lemma seed_active_ok: "runtime_ok r \<Longrightarrow> kr_available r = [] \<Longrightarrow> runtime_ok (seed_active s r)"
  by (auto simp: runtime_ok_def seed_active_def update_conv' fst_update)

lemma seed_available_ok: "runtime_ok r \<Longrightarrow> runtime_ok (seed_available ss names r)"
proof (induction ss names r rule: seed_available.induct)
  case (2 s ss names r)
  show ?case
  proof (cases "map_of (kr_all r) (sk_Name s) = None")
    case True
    then have "sk_Name s \<notin> fst ` set (kr_all r)"
      by (simp add: map_of_eq_None_iff)
    then have "runtime_ok (r\<lparr>kr_all := AList.update (sk_Name s) s (kr_all r),
        kr_available := AList.update (sk_Name s) s (kr_available r)\<rparr>)"
      using 2(3) by (auto simp: runtime_ok_def update_conv' fst_update)
    then show ?thesis
      using True 2(2) by simp
  qed (use 2 in simp)
qed (auto simp: runtime_ok_def)

lemma fold_seed_ok:
  "runtime_ok r \<Longrightarrow> kr_available r = [] \<Longrightarrow> runtime_ok (fold seed_active ss r)"
proof (induction ss arbitrary: r)
  case (Cons s ss)
  have "kr_available (seed_active s r) = []"
    using Cons.prems by (simp add: seed_active_def)
  then show ?case
    using Cons seed_active_ok by simp
qed simp

lemma newSkillRuntime_ok: "runtime_ok (newSkillRuntime active available)"
  unfolding newSkillRuntime_def
  by (intro seed_available_ok fold_seed_ok) (simp_all add: runtime_ok_def)

lemma activate_spec:
  assumes "activate name r = (r', x)"
  shows "kr_all r' = kr_all r" "kr_eager r' = kr_eager r" "kr_order r' = kr_order r" "kr_available r' = kr_available r"
    "set (kr_active r') = set (kr_active r) \<union> (if map_of (kr_all r) name = None then {} else {name})"
  using assms by (auto simp: activate_def split: option.splits if_splits)

lemma activate_ok: "runtime_ok r \<Longrightarrow> activate name r = (r', x) \<Longrightarrow> runtime_ok r'"
  using activate_spec [of name r r' x] map_of_eq_None_iff [of "kr_all r" name]
  by (auto simp: runtime_ok_def split: if_splits)

section \<open>Restoring activations\<close>

lemma restore_one_same [simp]: "kr_all (restore_one p r) = kr_all r"
  by (cases p) (simp add: restore_one_def split: option.split)

lemma restore_one_active:
  "set (kr_active (restore_one (n, c) r)) = set (kr_active r) \<union>
     {n' . n' = n \<and> (\<exists>s. map_of (kr_all r) n = Some s \<and> c = Activate s)}"
  by (auto simp: restore_one_def split: option.split)

lemma fold_restore:
  "kr_all (fold restore_one ps r) = kr_all r"
  "set (kr_active (fold restore_one ps r)) = set (kr_active r) \<union>
     {n. \<exists>s. map_of (kr_all r) n = Some s \<and> (n, Activate s) \<in> set ps}"
proof (induction ps arbitrary: r)
  case (Cons p ps)
  case 1
  show ?case
    using Cons by simp
  case 2
  show ?case
    using Cons restore_one_active [of "fst p" "snd p" r] by (cases p) auto
qed simp_all

lemma distinct_results: "distinct (map fst (activationResults activated ms))"
proof -
  have "distinct (map fst found) \<Longrightarrow> distinct (map fst (fold (\<lambda>m found. case activation activated m of None \<Rightarrow> found
       | Some (name, content) \<Rightarrow> AList.update name content found) ms found))" for found
    by (induction ms arbitrary: found) (auto simp: distinct_update split: option.split)
  then show ?thesis
    by (simp add: activationResults_def)
qed

lemma results_iff: "(n, c) \<in> set (activationResults activated ms) \<longleftrightarrow> map_of (activationResults activated ms) n = Some c"
  using distinct_results [of activated ms] by (auto dest: map_of_SomeD intro: map_of_is_SomeI)

text \<open>Exactly the skills whose activation the transcript holds unchanged become active again.\<close>

lemma restoreActivations_spec:
  "set (kr_active (restoreActivations activated ms r)) = set (kr_active r) \<union>
     {n. \<exists>s. map_of (kr_all r) n = Some s \<and> map_of (activationResults activated ms) n = Some (Activate s)}"
  by (simp add: restoreActivations_def fold_restore results_iff)

lemma activationResults_snoc:
  "map_of (activationResults activated (ms @ [m])) = (case activation activated m of
     None \<Rightarrow> map_of (activationResults activated ms)
   | Some (n, c) \<Rightarrow> (map_of (activationResults activated ms))(n \<mapsto> c))"
  by (auto simp: activationResults_def update_conv' split: option.split prod.split)

text \<open>
  What goes on in an execution, seen from its skills: calls of the activation tool, whose results go
  into the transcript as the tool returned them, and everything else, which adds a message and
  changes the world.
\<close>

datatype 'w skill_event = ActivationCall tool_call | OtherMessage message "'w \<Rightarrow> 'w"

fun run_activations ::
  "'w sink \<Rightarrow> 'w skill_io \<Rightarrow> 'w skill_state \<Rightarrow> 'w skill_event list
     \<Rightarrow> 'w \<Rightarrow> message list \<Rightarrow> 'w \<times> message list" where
  "run_activations sink sio st [] w ms = (w, ms)"
| "run_activations sink sio st (OtherMessage m f # es) w ms = run_activations sink sio st es (f w) (ms @ [m])"
| "run_activations sink sio st (ActivationCall call # es) w ms =
     (case run_prog sink (execute_activation sio st call) w of
        (w', Returned (res, err)) \<Rightarrow> run_activations sink sio st es w' (ms @ [NewToolResult res])
      | (w', Panicked b) \<Rightarrow> (w', ms))"

text \<open>
  The part of the world that holds the runtime; calls carry the name of the tool, and the rest neither
  records an activation nor touches the runtime.
\<close>

definition lawful_state :: "'w skill_state \<Rightarrow> bool" where
  "lawful_state st \<longleftrightarrow> (\<forall>r w. ss_get st (ss_put st r w) = r)"

fun ordinary_event :: "'w skill_io \<Rightarrow> 'w skill_state \<Rightarrow> 'w skill_event \<Rightarrow> bool" where
  "ordinary_event sio st (ActivationCall call) \<longleftrightarrow> tc_Name call = SkillActivationToolName"
| "ordinary_event sio st (OtherMessage m f) \<longleftrightarrow>
     activation (si_activated sio) m = None \<and> (\<forall>w. ss_get st (f w) = ss_get st w)"

definition faithful_io :: "'w skill_io \<Rightarrow> bool" where
  "faithful_io sio \<longleftrightarrow> si_activated sio [] = None \<and> (\<forall>s. si_activated sio (si_structured sio s) = Some (sk_Name s))"

lemma activation_plain:
  assumes "tr_Parts res = []"
  shows "activation a (NewToolResult res) =
    (if tr_Name res \<noteq> SkillActivationToolName \<or> tr_IsError res then None
     else case a (tr_Structured res) of None \<Rightarrow> None
       | Some name \<Rightarrow> if name = [] then None else Some (name, tr_Content res))"
  using assms by (auto simp: activation_def result_SyncLegacyContent_def split: option.split)

lemma activation_error: "activation a (NewToolResult (skillToolErrorResult sio call e)) = None"
  by (simp add: activation_plain skillToolErrorResult_def zero_result_def)

lemma activation_recorded:
  assumes "faithful_io sio" "runtime_ok r" "activate name r = (r', x)"
  shows "activation (si_activated sio) (NewToolResult (activation_result sio call x)) =
    (if tc_Name call = SkillActivationToolName \<and> name \<notin> set (kr_active r) \<and> name \<noteq> [] then
       map_option (\<lambda>s. (name, Activate s)) (map_of (kr_all r) name) else None)"
proof (cases "map_of (kr_all r) name")
  case None
  then show ?thesis
    using assms(3) by (auto simp: activate_def activation_result_def activation_error)
next
  case (Some s)
  then have "sk_Name s = name"
    using assms(2) by (simp add: runtime_ok_def)
  then show ?thesis
    using Some assms(1,3)
    by (auto simp: activate_def activation_result_def activation_plain zero_result_def faithful_io_def split: if_splits)
qed

text \<open>One call of the tool: the runtime it leaves, and its result.\<close>

lemma run_activation:
  assumes "lawful_state st"
  shows "\<exists>w' res. run_prog sink (execute_activation sio st call) w = (w', Returned (res, None)) \<and>
    (case si_name_argument sio (tc_Arguments call) of
       Inl e \<Rightarrow> w' = w \<and> res = skillToolErrorResult sio call e
     | Inr name \<Rightarrow> ss_get st w' = fst (activate name (ss_get st w)) \<and>
         res = activation_result sio call (snd (activate name (ss_get st w))))"
  using assms by (auto simp: execute_activation_def lawful_state_def split: sum.split prod.split)

lemma run_activations_active:
  assumes "faithful_io sio" "lawful_state st"
    and "list_all (ordinary_event sio st) es"
    and "[] \<notin> fst ` set (kr_all r0)" "kr_all (ss_get st w) = kr_all r0" "runtime_ok (ss_get st w)"
    and "set (kr_active r0) \<subseteq> set (kr_active (ss_get st w))"
    and "\<forall>n. n \<in> set (kr_active (ss_get st w)) - set (kr_active r0) \<longrightarrow>
      (\<exists>s. map_of (kr_all r0) n = Some s \<and> map_of (activationResults (si_activated sio) ms) n = Some (Activate s))"
    and "\<forall>n c. map_of (activationResults (si_activated sio) ms) n = Some c \<longrightarrow>
      n \<in> set (kr_active (ss_get st w)) - set (kr_active r0)"
    and "run_activations sink sio st es w ms = (w', ms')"
  shows "set (kr_active (restoreActivations (si_activated sio) ms' r0)) = set (kr_active (ss_get st w'))"
  using assms(3-)
proof (induction es arbitrary: w ms)
  case Nil
  then show ?case
    by (auto simp: restoreActivations_spec)
next
  case (Cons e es)
  show ?case
  proof (cases e)
    case (OtherMessage m f)
    then have "map_of (activationResults (si_activated sio) (ms @ [m])) = map_of (activationResults (si_activated sio) ms)"
      "ss_get st (f w) = ss_get st w"
      using Cons.prems(1) by (simp_all add: activationResults_snoc)
    then show ?thesis
      using Cons.prems OtherMessage by (intro Cons.IH [of "f w" "ms @ [m]"]) auto
  next
    case (ActivationCall call)
    obtain w1 res where run: "run_prog sink (execute_activation sio st call) w = (w1, Returned (res, None))"
      and after: "case si_name_argument sio (tc_Arguments call) of
         Inl e \<Rightarrow> w1 = w \<and> res = skillToolErrorResult sio call e
       | Inr name \<Rightarrow> ss_get st w1 = fst (activate name (ss_get st w)) \<and>
           res = activation_result sio call (snd (activate name (ss_get st w)))"
      using run_activation [OF assms(2)] by blast
    have onward: "run_activations sink sio st es w1 (ms @ [NewToolResult res]) = (w', ms')"
      using Cons.prems(8) ActivationCall run by simp
    show ?thesis
    proof (cases "si_name_argument sio (tc_Arguments call)")
      case (Inl e)
      have "map_of (activationResults (si_activated sio) (ms @ [NewToolResult (skillToolErrorResult sio call e)])) =
          map_of (activationResults (si_activated sio) ms)"
        by (simp add: activationResults_snoc activation_error)
      then show ?thesis
        using Cons.prems Inl onward after by (intro Cons.IH [of w1 "ms @ [NewToolResult res]"]) auto
    next
      case (Inr name)
      obtain r1 x where a: "activate name (ss_get st w) = (r1, x)"
        by fastforce
      have now: "ss_get st w1 = r1" "res = activation_result sio call x"
        using after a Inr by simp_all
      note same = activate_spec [OF a]
      have named: "tc_Name call = SkillActivationToolName"
        using Cons.prems(1) ActivationCall by simp
      have rec: "activation (si_activated sio) (NewToolResult res) =
          (if name \<notin> set (kr_active (ss_get st w)) \<and> name \<noteq> []
           then map_option (\<lambda>s. (name, Activate s)) (map_of (kr_all (ss_get st w)) name) else None)"
        using activation_recorded [OF assms(1) Cons.prems(4) a] named by (simp add: now)
      have nonempty: "map_of (kr_all (ss_get st w)) name \<noteq> None \<Longrightarrow> name \<noteq> []"
        using Cons.prems(2,3) map_of_eq_None_iff [of "kr_all (ss_get st w)" name] by auto
      show ?thesis
        using Cons.prems(1-7) onward same rec nonempty activate_ok [OF Cons.prems(4) a]
        by (intro Cons.IH [of w1 "ms @ [NewToolResult res]"])
          (auto simp: now(1) activationResults_snoc split: option.splits if_splits)
    qed
  qed
qed

text \<open>
  A result that something between the tool and the transcript has changed is not found again: the
  content of the last one recorded for the skill has to be the skill's instructions.
\<close>

lemma changed_activation_is_lost:
  assumes "map_of (activationResults activated ms) name = Some content"
    and "map_of (kr_all r) name = Some s" "content \<noteq> Activate s" "name \<notin> set (kr_active r)"
  shows "name \<notin> set (kr_active (restoreActivations activated ms r))"
  using assms by (simp add: restoreActivations_spec)

lemma seed_names:
  "fst ` set (kr_all (fold seed_active ss r)) = fst ` set (kr_all r) \<union> sk_Name ` set ss"
  "fst ` set (kr_all (seed_available ss names r)) = fst ` set (kr_all r) \<union> sk_Name ` set ss"
proof -
  show "fst ` set (kr_all (fold seed_active ss r)) = fst ` set (kr_all r) \<union> sk_Name ` set ss"
    by (induction ss arbitrary: r) (simp_all add: seed_active_def fst_update)
  show "fst ` set (kr_all (seed_available ss names r)) = fst ` set (kr_all r) \<union> sk_Name ` set ss"
  proof (induction ss names r rule: seed_available.induct)
    case (2 s ss names r)
    then show ?case
      using map_of_eq_None_iff [of "kr_all r" "sk_Name s"] by (auto simp: fst_update)
  qed simp
qed

lemma newSkillRuntime_names:
  "fst ` set (kr_all (newSkillRuntime active available)) = sk_Name ` set active \<union> sk_Name ` set available"
  by (simp add: newSkillRuntime_def seed_names)

section \<open>Compaction\<close>

lemma map_filter_set: "set (List.map_filter f xs) = {y. \<exists>x \<in> set xs. f x = Some y}"
  by (auto simp: List.map_filter_def image_iff) force

text \<open>An active skill is injected again, or its instructions are in the compacted history.\<close>

lemma compaction_keeps_skill:
  assumes "name \<in> set (kr_order r)" "activeSkill r name = Some s"
  shows "s \<in> set (skillsForCompaction activated ms r) \<or>
    map_of (activationResults activated ms) name = Some (Activate s)"
proof (cases "shouldRestoreSkill name s (activationResults activated ms) (kr_eager r)")
  case True
  then show ?thesis
    using assms by (auto simp: skillsForCompaction_def Let_def map_filter_set intro!: bexI [of _ name])
next
  case False
  then show ?thesis
    by (auto simp: shouldRestoreSkill_def split: option.splits)
qed

section \<open>Skill messages\<close>

lemma skill_message_view:
  "m \<in> set (skill_message kind content) \<longleftrightarrow> content \<noteq> [] \<and>
     m = (NewText RoleSystem content)\<lparr>m_Metadata := [(skillContextMetadataKey, kind)]\<rparr>"
  by (auto simp: skill_message_def)

lemma skill_message_removed: "kind \<noteq> [] \<Longrightarrow> removeSkillContextMessages (skill_message kind content) = []"
  by (auto simp: removeSkillContextMessages_def skill_message_def skill_context_def)

lemma remove_append: "removeSkillContextMessages (xs @ ys) = removeSkillContextMessages xs @ removeSkillContextMessages ys"
  by (simp add: removeSkillContextMessages_def)

lemma remove_removed: "removeSkillContextMessages (removeSkillContextMessages xs) = removeSkillContextMessages xs"
  by (simp add: removeSkillContextMessages_def)

lemma remove_inject:
  "removeSkillContextMessages (injectSkillMessages ms active available) = removeSkillContextMessages ms"
proof (cases "active = [] \<and> available = []")
  case False
  define kept where "kept = removeSkillContextMessages ms"
  define sys where "sys = takeWhile (\<lambda>m. m_Role m = RoleSystem) kept"
  have split: "sys @ drop (length sys) kept = kept"
    unfolding sys_def by (metis takeWhile_eq_take append_take_drop_id)
  have "removeSkillContextMessages sys @ removeSkillContextMessages (drop (length sys) kept) = kept"
    unfolding remove_append [symmetric] split unfolding kept_def remove_removed ..
  moreover have "injectSkillMessages ms active available =
      sys @ skill_message ''active'' (RenderSystemSection active) @
        skill_message ''catalog'' (renderSkillCatalog available) @ drop (length sys) kept"
    unfolding injectSkillMessages_def Let_def kept_def sys_def using False by (simp only: if_False)
  ultimately show ?thesis
    by (simp add: remove_append skill_message_removed kept_def)
qed (simp add: injectSkillMessages_def)

lemma inject_idempotent:
  "injectSkillMessages (injectSkillMessages ms active available) active available = injectSkillMessages ms active available"
proof (cases "active = [] \<and> available = []")
  case False
  have "removeSkillContextMessages xs = removeSkillContextMessages ys \<Longrightarrow>
      injectSkillMessages xs active available = injectSkillMessages ys active available" for xs ys
    unfolding injectSkillMessages_def using False by (simp only: if_False)
  then show ?thesis
    using remove_inject by blast
qed (simp add: injectSkillMessages_def)

text \<open>What \<open>validateSkillContextPreserved\<close> accepts.\<close>

lemma distinct_required: "distinct (map fst (required_context before))"
proof -
  have "distinct (map fst required) \<Longrightarrow> distinct (map fst (fold (\<lambda>m required. if skill_context m \<noteq> []
     then AList.update (skill_context m) (m_Text m) required else required) before required))" for required
    by (induction before arbitrary: required) (auto simp: distinct_update)
  then show ?thesis
    by (simp add: required_context_def)
qed

lemma required_nonempty: "[] \<notin> fst ` set (required_context before)"
proof -
  have "[] \<notin> fst ` set required \<Longrightarrow> [] \<notin> fst ` set (fold (\<lambda>m required. if skill_context m \<noteq> []
     then AList.update (skill_context m) (m_Text m) required else required) before required)" for required
    by (induction before arbitrary: required) (auto simp: fst_update)
  then show ?thesis
    by (simp add: required_context_def)
qed

lemma drop_found_map:
  assumes "[] \<notin> fst ` set required"
  shows "map_of (drop_found m required) = (\<lambda>k. if k = skill_context m \<and> map_of required k = Some (m_Text m)
    then None else map_of required k)"
proof -
  have "map_of required [] = None"
    using assms by (simp add: map_of_eq_None_iff)
  then show ?thesis
    by (auto simp: drop_found_def delete_conv' split: option.splits)
qed

lemma drop_found_nonempty: "[] \<notin> fst ` set required \<Longrightarrow> [] \<notin> fst ` set (drop_found m required)"
  using AList.dom_delete_subset [of "skill_context m" required] by (auto simp: drop_found_def)

lemma fold_drop_found:
  assumes "[] \<notin> fst ` set required"
  shows "map_of (fold drop_found after required) k = (case map_of required k of None \<Rightarrow> None
    | Some t \<Rightarrow> if \<exists>m \<in> set after. skill_context m = k \<and> m_Text m = t then None else Some t)"
  using assms
proof (induction after arbitrary: required)
  case (Cons m after)
  have "map_of (fold drop_found after (drop_found m required)) k =
      (case map_of (drop_found m required) k of None \<Rightarrow> None
       | Some t \<Rightarrow> if \<exists>m \<in> set after. skill_context m = k \<and> m_Text m = t then None else Some t)"
    using Cons.prems by (intro Cons.IH drop_found_nonempty)
  then show ?case
    using drop_found_map [OF Cons.prems, of m] by (auto split: option.split)
qed (auto split: option.split)

lemma validateSkillContextPreserved_spec:
  "validateSkillContextPreserved before after = None \<longleftrightarrow>
     (\<forall>kind t. map_of (required_context before) kind = Some t \<longrightarrow>
        (\<exists>m \<in> set after. skill_context m = kind \<and> m_Text m = t))"
proof -
  have "fold drop_found after (required_context before) = [] \<longleftrightarrow>
      map_of (fold drop_found after (required_context before)) = Map.empty"
    by simp
  also have "\<dots> \<longleftrightarrow> (\<forall>kind t. map_of (required_context before) kind = Some t \<longrightarrow>
        (\<exists>m \<in> set after. skill_context m = kind \<and> m_Text m = t))"
    unfolding fun_eq_iff fold_drop_found [OF required_nonempty] by (auto split: option.splits if_splits)
  finally show ?thesis
    by (simp add: validateSkillContextPreserved_def)
qed

text \<open>What the resource tool answers without an error.\<close>

lemma run_resource:
  assumes "run_prog sink (execute_resource sio st call) w = (w', Returned (res, err))" "\<not> tr_IsError res"
  obtains name path s where "si_resource_arguments sio (tc_Arguments call) = Inr (name, path)"
    "activeSkill (ss_get st w) name = Some s" "hasResource (sk_Resources s) path"
    "si_reader sio s path w = (w', Inr (tr_Content res))"
proof (cases "si_resource_arguments sio (tc_Arguments call)")
  case (Inr p)
  obtain name path where p: "p = (name, path)"
    by fastforce
  show ?thesis
    using assms Inr p that [of name path]
    by (auto simp: execute_resource_def skillToolErrorResult_def ReadResource_def split: option.splits prod.splits sum.splits if_splits)
qed (use assms in \<open>auto simp: execute_resource_def skillToolErrorResult_def\<close>)

section \<open>Samples\<close>

definition sample_skill :: "bytes \<Rightarrow> skill" where
  "sample_skill name = \<lparr>sk_Name = name, sk_Description = ''reads'', sk_License = [], sk_Compatibility = [],
     sk_Metadata = [], sk_AllowedTools = [], sk_Body = ''body'', sk_SourcePath = [], sk_SourceDir = [],
     sk_Resources = [\<lparr>sr_Name = ''a.txt'', sr_Size = 1\<rparr>]\<rparr>"

definition sample_io :: "skill_runtime skill_io" where
  "sample_io = \<lparr>si_activated = (\<lambda>b. case b of [] \<Rightarrow> None | c # name \<Rightarrow> Some name),
     si_structured = (\<lambda>s. CHR ''!'' # sk_Name s), si_name_argument = Inr,
     si_resource_arguments = (\<lambda>b. Inr (b, ''a.txt'')), si_reader = (\<lambda>s name w. (w, Inr ''content'')),
     si_error_text = (\<lambda>e. ''error'')\<rparr>"

definition sample_state :: "skill_runtime skill_state" where
  "sample_state = \<lparr>ss_get = (\<lambda>w. w), ss_put = (\<lambda>r w. r)\<rparr>"

definition sample_skill_call :: "bytes \<Rightarrow> bytes \<Rightarrow> tool_call" where
  "sample_skill_call tool name = \<lparr>tc_ID = ''c'', tc_Name = tool, tc_Arguments = name, tc_OperationID = []\<rparr>"

definition sample_activity :: "skill_runtime skill_event list" where
  "sample_activity = [OtherMessage (NewText RoleUser ''hi'') (\<lambda>w. w),
     ActivationCall (sample_skill_call SkillActivationToolName ''pdf''),
     ActivationCall (sample_skill_call SkillActivationToolName ''nope''),
     ActivationCall (sample_skill_call SkillActivationToolName ''pdf'')]"

lemma sample_faithful: "faithful_io sample_io"
  by (simp add: faithful_io_def sample_io_def)

section \<open>Properties\<close>

text \<open>
  C22.  An execution resumed from its transcript has exactly the active skills of the execution that
  wrote it: however the model called the activation tool, the runtime built anew from the same skills,
  after \<open>restoreActivations\<close>, agrees with the runtime those calls had reached.  The results of the
  tool must be in the transcript as it returned them: an output store that replaces an oversized
  result, or a compaction that removes it, loses the activation (\<open>changed_activation_is_lost\<close>).  The
  encoding of a structured result is only assumed to be decoded to the name it was made from.
\<close>

theorem activations_survive_resume:
  assumes "faithful_io sio" "lawful_state st" "\<forall>s \<in> set active \<union> set available. sk_Name s \<noteq> []"
    and "list_all (ordinary_event sio st) es" "ss_get st w = newSkillRuntime active available"
    and "run_activations sink sio st es w [] = (w', ms)"
  shows "set (kr_active (restoreActivations (si_activated sio) ms (newSkillRuntime active available))) =
    set (kr_active (ss_get st w'))"
proof (rule run_activations_active [OF assms(1,2,4) _ _ _ _ _ _ assms(6)])
  show "[] \<notin> fst ` set (kr_all (newSkillRuntime active available))"
    unfolding newSkillRuntime_names using assms(3) by (metis (no_types, lifting) UnE UnI1 UnI2 imageE)
qed (simp_all add: activationResults_def assms(5) newSkillRuntime_ok)

theorem activations_survive_resume_witness:
  "\<exists>w ms. run_activations (\<lambda>u w. (w, Returned None)) sample_io sample_state sample_activity
       (newSkillRuntime [] [sample_skill ''pdf'']) [] = (w, ms) \<and> kr_active w = [''pdf''] \<and>
     set (kr_active (restoreActivations (si_activated sample_io) ms (newSkillRuntime [] [sample_skill ''pdf'']))) = {''pdf''}"
proof -
  let ?start = "newSkillRuntime [] [sample_skill ''pdf'']"
  obtain w ms where run: "run_activations (\<lambda>u w. (w, Returned None)) sample_io sample_state sample_activity ?start [] = (w, ms)"
    by fastforce
  have active: "kr_active w = [''pdf'']"
    using run by (auto simp: sample_activity_def newSkillRuntime_def sample_io_def sample_state_def sample_skill_call_def
        sample_skill_def activate_def execute_activation_def)
  have "set (kr_active (restoreActivations (si_activated sample_io) ms ?start)) = set (kr_active (ss_get sample_state w))"
    by (rule activations_survive_resume [OF sample_faithful _ _ _ _ run])
      (auto simp: sample_skill_def sample_activity_def sample_skill_call_def activation_def NewText_def zero_message_def
        sample_state_def lawful_state_def)
  then show ?thesis
    using run active by (auto simp: sample_state_def)
qed

text \<open>
  The resource tool gives out a file only when its skill is active and the file is in the
  skill's manifest; its content is what the file system returned.
\<close>

theorem resource_needs_activation:
  assumes "run_prog sink (execute_resource sio st call) w = (w', Returned (res, err))" "\<not> tr_IsError res"
  shows "\<exists>name path s. si_resource_arguments sio (tc_Arguments call) = Inr (name, path) \<and>
    name \<in> set (kr_active (ss_get st w)) \<and> map_of (kr_all (ss_get st w)) name = Some s \<and>
    hasResource (sk_Resources s) path \<and> si_reader sio s path w = (w', Inr (tr_Content res))"
  using assms by (rule run_resource) (auto simp: activeSkill_def split: if_splits)

theorem resource_needs_activation_witness:
  "\<exists>res. run_prog (\<lambda>u w. (w, Returned None)) (execute_resource sample_io sample_state
       (sample_skill_call SkillResourceToolName ''pdf'')) (newSkillRuntime [sample_skill ''pdf''] []) =
       (newSkillRuntime [sample_skill ''pdf''] [], Returned (res, None)) \<and> tr_Content res = ''content'' \<and>
     ''pdf'' \<in> set (kr_active (newSkillRuntime [sample_skill ''pdf''] []))"
proof -
  let ?w = "newSkillRuntime [sample_skill ''pdf''] []"
  obtain res where run: "run_prog (\<lambda>u w. (w, Returned None)) (execute_resource sample_io sample_state
       (sample_skill_call SkillResourceToolName ''pdf'')) ?w = (?w, Returned (res, None))"
    "tr_Content res = ''content'' \<and> \<not> tr_IsError res"
    by (simp add: execute_resource_def sample_io_def sample_state_def sample_skill_call_def newSkillRuntime_def seed_active_def
        activeSkill_def ReadResource_def hasResource_def sample_skill_def zero_result_def)
  show ?thesis
    using resource_needs_activation [OF run(1)] run by (auto simp: sample_io_def sample_skill_call_def sample_state_def)
qed

end
