(* ===== verification/EngineRun.thy ===== *)
theory EngineRun
  imports AgentLoop SkillRuntime Requests
begin

text \<open>
  One execution of a request: \<open>Engine.Run\<close> of \<open>src/agent/engine.go\<close>, with the failures of
  \<open>src/agent/failure.go\<close> and the result of \<open>src/agent/result.go\<close>.  \<open>run\<close> validates the request and
  the policy, starts the control and the deadline, attaches the skills, builds the context, drives
  \<open>RunMessages\<close> and repairs a structured output that does not satisfy its schema.  \<open>agent\<close> is the
  part of the Go \<open>Engine\<close> that \<open>RunMessages\<close> does not read; \<open>ag_Engine\<close> is the rest.  The lemmas
  show that a result without failure satisfies the requested schema, that repairs are bounded and
  end, that the counter of tool calls covers the recorded calls of first run and repairs and stays
  within the budget, and that only a panic of the context builder leaves an execution.
\<close>

section \<open>Policies\<close>

record loop_policy =
  lp_MaxIterations :: int
  lp_UnlimitedIterations :: bool
  lp_Budget :: "budget option"
  lp_SessionBudget :: "session_budget option"
  lp_ModelTimeouts :: "timeout_policy option"
  lp_ContextTokenTarget :: int

text \<open>
  A context manager.  \<open>cm_Compact\<close> is \<open>None\<close> for the builders whose compaction passes the history
  through (\<open>compactor\<close> tests for their types), \<open>cm_CompactTo\<close> for managers without it.
\<close>

record 'x context_manager =
  cm_Build :: "request \<Rightarrow> ('x world, go_err + message list) act"
  cm_Compact :: "'x compactor option"
  cm_CompactTo :: "(int \<Rightarrow> 'x compactor) option"

record 'x agent =
  ag_Engine :: "'x engine"
  ag_Model :: bytes
  ag_Options :: model_options
  ag_ModelMaxTokens :: int
  ag_ToolMode :: mode
  ag_LoopPolicy :: loop_policy
  ag_ContextBuilder :: "'x context_manager option"
  ag_WorkingMemory :: "'x context_manager option"
  ag_OperationTurn :: int
  ag_Skills :: "skill list"
  ag_AvailableSkills :: "skill list"
  ag_SafeStreamingTools :: "bytes list"
  ag_ResponseContinuation :: bytes
  ag_OutputGuardrails :: "'x guardrail option list"
  ag_OutputObserver :: "(guardrail_decision \<Rightarrow> ('x world, unit) act) option"
  ag_StepDecider :: "(step list \<Rightarrow> ('x world, go_err + step_decision) act) option"
  ag_StepObserver :: "(step \<Rightarrow> ('x world, go_err option) act) option"
  ag_Control :: bool
  ag_skill_io :: "'x world skill_io"
  ag_skill_state :: "'x world skill_state"

definition sessionBudget :: "'x agent \<Rightarrow> request \<Rightarrow> session_budget option" where
  "sessionBudget ag request = (case r_SessionBudget request of
     Some b \<Rightarrow> Some b | None \<Rightarrow> lp_SessionBudget (ag_LoopPolicy ag))"

definition run_budget :: "'x agent \<Rightarrow> request \<Rightarrow> budget option" where
  "run_budget ag request = (case r_Budget request of Some b \<Rightarrow> Some b | None \<Rightarrow> lp_Budget (ag_LoopPolicy ag))"

definition maxWallClock :: "'x agent \<Rightarrow> request \<Rightarrow> int" where
  "maxWallClock ag request =
     (let own = (case run_budget ag request of None \<Rightarrow> 0 | Some b \<Rightarrow> b_MaxWallClock b) in
      case sessionBudget ag request of
        None \<Rightarrow> own
      | Some s \<Rightarrow> if sb_MaxWallClock s \<le> 0 then own
          else if own \<le> 0 \<or> sb_MaxWallClock s < own then sb_MaxWallClock s else own)"

text \<open>The limits on tokens, tool calls and steps.\<close>

definition budgetLimits :: "'x agent \<Rightarrow> request \<Rightarrow> int \<times> int \<times> int" where
  "budgetLimits ag request =
     (let (tokens, calls, steps) = (case run_budget ag request of None \<Rightarrow> (0, 0, 0)
            | Some b \<Rightarrow> (b_MaxTokens b, b_MaxToolCalls b, b_MaxSteps b)) in
      (case sessionBudget ag request of
         None \<Rightarrow> tokens
       | Some s \<Rightarrow> if 0 < sb_MaxTokens s \<and> (tokens \<le> 0 \<or> sb_MaxTokens s < tokens) then sb_MaxTokens s else tokens,
       calls, steps))"

definition no_timeouts :: timeout_policy where
  "no_timeouts = \<lparr>tp_ConnectTimeout = 0, tp_RequestTimeout = 0, tp_StreamIdleTimeout = 0, tp_DisableDefaults = False\<rparr>"

definition modelTimeouts :: "'x agent \<Rightarrow> request \<Rightarrow> timeout_policy" where
  "modelTimeouts ag request = (case r_ModelTimeouts request of
       Some p \<Rightarrow> resolved p
     | None \<Rightarrow> (case lp_ModelTimeouts (ag_LoopPolicy ag) of Some p \<Rightarrow> resolved p | None \<Rightarrow> resolved no_timeouts))"

text \<open>The request with the engine's defaults.\<close>

definition default_request :: "'x agent \<Rightarrow> request \<Rightarrow> request" where
  "default_request ag request = request\<lparr>
     r_SessionBudget := (case r_SessionBudget request of
       None \<Rightarrow> lp_SessionBudget (ag_LoopPolicy ag) | Some b \<Rightarrow> Some b),
     r_ModelTimeouts := (case r_ModelTimeouts request of
       None \<Rightarrow> Some (modelTimeouts ag request) | Some p \<Rightarrow> Some p)\<rparr>"

section \<open>Results\<close>

datatype failure_kind =
    FailureKindBudgetExhausted | FailureKindToolUnavailable | FailureKindSchemaInvalid
  | FailureKindRepairFailed | FailureKindOutputBlocked | FailureKindContextBuildFailed
  | FailureKindEngineError | FailureKindStepAborted

record agent_failure =
  af_Kind :: failure_kind
  af_Reason :: bytes
  af_cause :: "go_err option"

record result =
  re_Text :: bytes
  re_Structured :: bytes
  re_Valid :: bool
  re_RepairCount :: int
  re_Failure :: "agent_failure option"
  re_Steps :: "step list"
  re_Usage :: usage
  re_ToolCallsUsed :: int
  re_StopReason :: stop_reason
  re_Messages :: "message list"
  re_Thinking :: bytes

definition zero_run_result :: result where
  "zero_run_result = \<lparr>re_Text = [], re_Structured = [], re_Valid = False, re_RepairCount = 0, re_Failure = None,
     re_Steps = [], re_Usage = zero_usage, re_ToolCallsUsed = 0, re_StopReason = StopReasonOther [],
     re_Messages = [], re_Thinking = []\<rparr>"

definition error_text :: "'x system \<Rightarrow> go_err \<Rightarrow> bytes" where
  "error_text sys = te_error_text (sy_tool_env sys)"

definition caused_failure :: "'x system \<Rightarrow> failure_kind \<Rightarrow> go_err \<Rightarrow> agent_failure" where
  "caused_failure sys kind e = \<lparr>af_Kind = kind, af_Reason = error_text sys e, af_cause = Some e\<rparr>"

definition schemaInvalidFailure :: "'x system \<Rightarrow> go_err \<Rightarrow> agent_failure" where
  "schemaInvalidFailure sys e = \<lparr>af_Kind = FailureKindSchemaInvalid, af_Reason = error_text sys e, af_cause = None\<rparr>"

text \<open>The cases of \<open>loopErrorFailure\<close>, in their order; \<open>expired\<close> is the test of the deadline.\<close>

definition failure_kind_of :: "go_err \<Rightarrow> bool \<Rightarrow> failure_kind" where
  "failure_kind_of e expired =
     (if errors_is ErrIncompleteResponse e then FailureKindRepairFailed
      else if errors_is ErrContextLimit e \<or> IsContextOverflow e then FailureKindContextBuildFailed
      else if errors_is ErrBudgetExhausted e then FailureKindBudgetExhausted
      else if expired \<and> errors_is CtxDeadlineExceeded e then FailureKindBudgetExhausted
      else if errors_is ErrToolBusMissing e \<or> errors_is ErrToolNotFound e then FailureKindToolUnavailable
      else if errors_is ErrOutputGuardrailTripwire e \<or> errors_is ErrOutputGuardrailRetryLimit e
        then FailureKindOutputBlocked
      else if errors_is ErrStepAborted e then FailureKindStepAborted
      else FailureKindEngineError)"

definition deadline_expired :: "'x agent \<Rightarrow> bool \<Rightarrow> 'x world \<Rightarrow> bool" where
  "deadline_expired ag budgetDriven w \<longleftrightarrow> budgetDriven \<and>
     (case ctx_err (ag_Control ag) w of None \<Rightarrow> False | Some e \<Rightarrow> errors_is CtxDeadlineExceeded e)"

definition loopErrorFailure :: "'x system \<Rightarrow> 'x agent \<Rightarrow> go_err \<Rightarrow> bool \<Rightarrow> ('x world, agent_failure) act" where
  "loopErrorFailure sys ag e budgetDriven = bnd (alter (sy_others sys)) (\<lambda>_.
     peek (\<lambda>w. caused_failure sys (failure_kind_of e (deadline_expired ag budgetDriven w)) e))"

fun last_answer :: "message list \<Rightarrow> bytes" where
  "last_answer [] = []"
| "last_answer (m # ms) = (if m_Role m = RoleAssistant \<and> trim_space (m_Text m) \<noteq> [] then m_Text m
     else last_answer ms)"

definition finalAssistantTextFromMessages :: "message list \<Rightarrow> bytes" where
  "finalAssistantTextFromMessages messages = last_answer (rev messages)"

definition resultFromLoopOutput :: "loop_output \<Rightarrow> int \<Rightarrow> result" where
  "resultFromLoopOutput out repairCount = \<lparr>re_Text = finalAssistantTextFromMessages (lo_Messages out),
     re_Structured = [], re_Valid = True, re_RepairCount = repairCount, re_Failure = None,
     re_Steps = lo_Steps out, re_Usage = lo_Usage out, re_ToolCallsUsed = lo_ToolCallsUsed out,
     re_StopReason = lo_StopReason out, re_Messages = lo_Messages out, re_Thinking = lo_Thinking out\<rparr>"

text \<open>The result of a run that failed: no text, and the repair count of the output.\<close>

definition failed_result :: "loop_output \<Rightarrow> agent_failure \<Rightarrow> result" where
  "failed_result out failure = zero_run_result\<lparr>re_Messages := lo_Messages out, re_Usage := lo_Usage out,
     re_StopReason := lo_StopReason out, re_Thinking := lo_Thinking out, re_ToolCallsUsed := lo_ToolCallsUsed out,
     re_RepairCount := lo_RepairCount out, re_Steps := lo_Steps out, re_Failure := Some failure\<rparr>"

section \<open>Structured output\<close>

definition validateResultStructuredOutput ::
  "json_reader \<Rightarrow> output_schema \<Rightarrow> result \<Rightarrow> result \<times> go_err option" where
  "validateResultStructuredOutput jr schema result =
     (case validateStructuredOutputAgainstSchema jr schema (re_Text result) of
        Inl e \<Rightarrow> (result\<lparr>re_Valid := False, re_Structured := []\<rparr>, Some e)
      | Inr structured \<Rightarrow> (result\<lparr>re_Valid := True, re_Structured := structured, re_Failure := None\<rparr>, None))"

definition repairInstructionMessage :: "'x system \<Rightarrow> bytes \<Rightarrow> go_err \<Rightarrow> message" where
  "repairInstructionMessage sys schema e = NewText RoleUser
     (''Repair the previous JSON output so it satisfies the required JSON Schema. Return only the corrected JSON, with no prose.'' @
      nl @ nl @ ''Validation error: '' @ error_text sys e @ nl @ nl @ ''JSON Schema:'' @ nl @ schema)"

definition repair_failed :: "'x system \<Rightarrow> int \<Rightarrow> go_err \<Rightarrow> agent_failure" where
  "repair_failed sys attempts e = \<lparr>af_Kind = FailureKindRepairFailed,
     af_Reason = ''structured output repair failed after '' @ print_int attempts @ '' attempt(s): '' @ error_text sys e,
     af_cause = None\<rparr>"

text \<open>Before a repair: a budget without room ends the execution.\<close>

definition repair_refused :: "'x loop_input \<Rightarrow> loop_output \<Rightarrow> result \<Rightarrow> int \<Rightarrow> result option" where
  "repair_refused inp out result repairCount =
     (case snd (budgetRemaining inp (lo_Usage out) (lo_ToolCallsUsed out) (int (length (lo_Steps out)))) of
        None \<Rightarrow> None
      | Some d \<Rightarrow> Some (result\<lparr>re_Usage := lo_Usage out, re_Steps := lo_Steps out, re_Messages := lo_Messages out,
          re_ToolCallsUsed := lo_ToolCallsUsed out, re_RepairCount := repairCount - 1,
          re_Failure := Some \<lparr>af_Kind = FailureKindBudgetExhausted,
            af_Reason = ''loop budget exhausted before repair attempt '' @ print_int repairCount @ '': '' @ dimension_name d,
            af_cause = None\<rparr>\<rparr>))"

definition repair_input ::
  "'x system \<Rightarrow> bytes \<Rightarrow> 'x loop_input \<Rightarrow> loop_output \<Rightarrow> go_err \<Rightarrow> int \<Rightarrow> int \<Rightarrow> 'x loop_input" where
  "repair_input sys schema inp out e repairCount now = inp\<lparr>
     li_Messages := lo_Messages out @ [repairInstructionMessage sys schema e],
     li_OperationTurn := lo_NextOperationTurn out, li_initialUsage := lo_Usage out,
     li_initialContextUsage := lo_contextUsage out,
     li_initialSteps := decide StepDecisionContinue (lo_Steps out),
     li_initialToolCallsUsed := lo_ToolCallsUsed out, li_activeElapsed := lo_ActiveElapsed out,
     li_segmentStarted := Some now, li_repairCount := repairCount\<rparr>"

text \<open>
  The repair loop.  \<open>None\<close> is the fuel of \<open>RunMessages\<close>; the loop itself ends because the number of
  the attempt grows to the policy's limit.
\<close>

function repair_loop ::
  "nat \<Rightarrow> 'x system \<Rightarrow> 'x agent \<Rightarrow> 'x engine \<Rightarrow> 'x loop_input \<Rightarrow> output_policy \<Rightarrow> output_schema \<Rightarrow> bool
     \<Rightarrow> loop_output \<Rightarrow> go_err \<Rightarrow> result \<Rightarrow> int \<Rightarrow> ('x world, result option) act" where
  "repair_loop fuel sys ag en inp policy schema budgetDriven out e result repairCount =
     (if op_MaxRepairAttempts policy < repairCount
        then give (Some (result\<lparr>re_Failure := Some (repair_failed sys (op_MaxRepairAttempts policy) e)\<rparr>))
      else case repair_refused inp out result repairCount of
        Some ended \<Rightarrow> give (Some ended)
      | None \<Rightarrow> bnd (peek (sy_now sys)) (\<lambda>now.
          bnd (RunMessages fuel sys (repair_input sys (op_Schema policy) inp out e repairCount now) en) (\<lambda>x. case x of
              None \<Rightarrow> give None
            | Some (out', Some err) \<Rightarrow> bnd (loopErrorFailure sys ag err budgetDriven) (\<lambda>failure.
                give (Some ((resultFromLoopOutput out' repairCount)\<lparr>re_Failure := Some failure\<rparr>)))
            | Some (out', None) \<Rightarrow>
                (case validateResultStructuredOutput (sy_json sys) schema (resultFromLoopOutput out' repairCount) of
                   (result', None) \<Rightarrow> give (Some result')
                 | (result', Some e') \<Rightarrow>
                     repair_loop fuel sys ag en inp policy schema budgetDriven out' e' result' (repairCount + 1)))))"
  by pat_completeness auto
termination
  by (relation "measure (\<lambda>(fuel, sys, ag, en, inp, policy, schema, b, out, e, result, n).
      nat (op_MaxRepairAttempts policy + 1 - n))") auto

declare repair_loop.simps [simp del]

definition validateAndRepairStructuredOutput ::
  "nat \<Rightarrow> 'x system \<Rightarrow> 'x agent \<Rightarrow> 'x engine \<Rightarrow> 'x loop_input \<Rightarrow> output_policy \<Rightarrow> bool \<Rightarrow> loop_output \<Rightarrow> result
     \<Rightarrow> ('x world, result option) act" where
  "validateAndRepairStructuredOutput fuel sys ag en inp policy budgetDriven out result =
     (case parseOutputPolicySchema (sy_json sys) (op_Schema policy) of
        Inl e \<Rightarrow> give (Some (result\<lparr>re_Valid := False, re_Structured := [],
          re_Failure := Some (schemaInvalidFailure sys e)\<rparr>))
      | Inr schema \<Rightarrow>
          (case validateResultStructuredOutput (sy_json sys) schema result of
             (result', None) \<Rightarrow> give (Some result')
           | (result', Some e) \<Rightarrow>
               if \<not> op_Repair policy \<or> op_MaxRepairAttempts policy \<le> lo_RepairCount out
                 then give (Some (result'\<lparr>re_Failure := Some (
                   if op_Repair policy \<and> 0 < op_MaxRepairAttempts policy then repair_failed sys (lo_RepairCount out) e
                   else schemaInvalidFailure sys e)\<rparr>))
               else repair_loop fuel sys ag en inp policy schema budgetDriven out e result' (lo_RepairCount out + 1)))"

section \<open>Contexts\<close>

text \<open>
  \<open>runContextWithElapsed\<close>: whether the run has a deadline of its own, earlier than its caller's.  Later
  expiry is up to \<open>sy_others\<close>.
\<close>

definition runContextWithElapsed :: "'x system \<Rightarrow> 'x agent \<Rightarrow> request \<Rightarrow> int \<Rightarrow> ('x world, bool) act" where
  "runContextWithElapsed sys ag request elapsed =
     (if maxWallClock ag request \<le> 0 then give False
      else let remaining = max 0 (maxWallClock ag request - elapsed) in
        bnd (peek (\<lambda>w. (sy_now sys w + remaining, sy_deadline sys w))) (\<lambda>(deadline, parent).
          if (case parent of None \<Rightarrow> False | Some p \<Rightarrow> p \<le> deadline) then give False
          else bnd (alter (\<lambda>w. if remaining = 0 \<and> ctx_err (ag_Control ag) w = None
                 then w\<lparr>w_deadline_err := Some (sentinel CtxDeadlineExceeded)\<rparr> else w)) (\<lambda>_. give True)))"

definition cancel_run :: "'x world \<Rightarrow> 'x world" where
  "cancel_run w = w\<lparr>w_deadline_err := None\<rparr>"

text \<open>A deferred function.\<close>

definition deferring :: "('s, 'a) act \<Rightarrow> ('s \<Rightarrow> 's) \<Rightarrow> ('s, 'a) act" where
  "deferring m cleanup = (\<lambda>w. case m w of (w', x) \<Rightarrow> (cleanup w', x))"

definition contextManager :: "'x agent \<Rightarrow> 'x context_manager option" where
  "contextManager ag = (case ag_ContextBuilder ag of Some m \<Rightarrow> Some m | None \<Rightarrow> ag_WorkingMemory ag)"

definition default_build :: "request \<Rightarrow> go_err + message list" where
  "default_build request = map_sum id (\<lambda>input. [NewText RoleSystem ''You are a Venat agent.'', input])
     (requestMessage request)"

definition buildContext ::
  "'x agent \<Rightarrow> skill list \<Rightarrow> request \<Rightarrow> ('x world, go_err + message list) act" where
  "buildContext ag available request =
     bnd (case contextManager ag of None \<Rightarrow> give (default_build request) | Some m \<Rightarrow> cm_Build m request)
       (\<lambda>x. give (map_sum id (\<lambda>messages. injectSkillMessages messages (ag_Skills ag) available) x))"

definition skills_now :: "'x agent \<Rightarrow> message list \<Rightarrow> 'x world \<Rightarrow> skill list \<times> skill list" where
  "skills_now ag history w = (let r = ss_get (ag_skill_state ag) w in
     (skillsForCompaction (si_activated (ag_skill_io ag)) history r, availableSkills r))"

definition compactor :: "'x agent \<Rightarrow> 'x compactor option" where
  "compactor ag = (case contextManager ag of None \<Rightarrow> None | Some m \<Rightarrow>
     map_option (\<lambda>compact fresh history. bnd (compact fresh history) (\<lambda>x. case x of
         Inl e \<Rightarrow> give (Inl e)
       | Inr compacted \<Rightarrow> bnd (peek (skills_now ag compacted)) (\<lambda>(active, available).
           give (Inr (injectSkillMessages compacted active available))))) (cm_Compact m))"

definition target_compactor :: "'x agent \<Rightarrow> (int \<Rightarrow> 'x compactor) option" where
  "target_compactor ag = (case contextManager ag of None \<Rightarrow> None | Some m \<Rightarrow>
     map_option (\<lambda>compactTo target fresh history.
       bnd (peek (skills_now ag history)) (\<lambda>(active, available).
       let prepared = injectSkillMessages history active available in
       bnd (compactTo target fresh prepared) (\<lambda>x. give (case x of
           Inl e \<Rightarrow> Inl e
         | Inr compacted \<Rightarrow> (case validateSkillContextPreserved prepared compacted of
               Some e \<Rightarrow> Inl e | None \<Rightarrow> Inr compacted))))) (cm_CompactTo m))"

section \<open>The execution\<close>

definition response_format_of :: "bytes \<times> bytes \<times> bytes \<Rightarrow> response_format" where
  "response_format_of = (\<lambda>(ty, name, raw). \<lparr>rf_Type = ty, rf_Name = name, rf_Strict = False, rf_Schema = None,
     rf_RawSchema = raw\<rparr>)"

text \<open>The \<open>LoopInput\<close> of a run; a resumed run changes some of its fields.\<close>

definition new_input ::
  "'x agent \<Rightarrow> request \<Rightarrow> output_policy \<Rightarrow> response_format option \<Rightarrow> 'x frame_sink option \<Rightarrow> message list
     \<Rightarrow> int \<Rightarrow> 'x loop_input" where
  "new_input ag request policy format sink messages now =
     (case budgetLimits ag request of (maxTokens, maxToolCalls, maxSteps) \<Rightarrow> \<lparr>
       li_Model = ag_Model ag, li_Messages = messages,
       li_Options = (ag_Options ag)\<lparr>mo_ResponseFormat := format\<rparr>,
       li_ModelMaxTokens = ag_ModelMaxTokens ag, li_Metadata = [], li_ToolMode = ag_ToolMode ag,
       li_MaxIterations = lp_MaxIterations (ag_LoopPolicy ag),
       li_UnlimitedIterations = lp_UnlimitedIterations (ag_LoopPolicy ag),
       li_OperationTurn = ag_OperationTurn ag, li_SafeStreamingTools = ag_SafeStreamingTools ag,
       li_OnEvent = None, li_Sink = sink, li_Control = ag_Control ag,
       li_OutputGuardrails = ag_OutputGuardrails ag, li_OutputObserver = ag_OutputObserver ag,
       li_ResponseContinuation = ag_ResponseContinuation ag,
       li_MaxTokens = maxTokens, li_MaxToolCalls = maxToolCalls, li_MaxSteps = maxSteps,
       li_ModelTimeouts = modelTimeouts ag request,
       li_ContextTokenTarget = lp_ContextTokenTarget (ag_LoopPolicy ag),
       li_StepDecider = ag_StepDecider ag, li_StepObserver = ag_StepObserver ag,
       li_Compact = compactor ag, li_CompactTo = target_compactor ag,
       li_continuationRequest = request, li_continuationPolicy = policy, li_controlBound = True,
       li_repairCount = 0, li_activeElapsed = 0, li_segmentStarted = Some now,
       li_initialUsage = zero_usage, li_initialContextUsage = zero_usage, li_initialSteps = [],
       li_initialToolCallsUsed = 0\<rparr>)"

definition failure_only :: "agent_failure \<Rightarrow> result" where
  "failure_only failure = zero_run_result\<lparr>re_Failure := Some failure\<rparr>"

text \<open>The runtime of the skills is created, and the tools of the engine are extended.\<close>

definition attach_skills :: "'x system \<Rightarrow> 'x agent \<Rightarrow> ('x world, go_err + 'x engine \<times> skill list) act" where
  "attach_skills sys ag =
     (let runtime = newSkillRuntime (ag_Skills ag) (ag_AvailableSkills ag); en = ag_Engine ag in
      bnd (alter (ss_put (ag_skill_state ag) runtime)) (\<lambda>_. give (
        map_sum id (\<lambda>tools. (en\<lparr>en_Tools := tools\<rparr>, availableSkills runtime))
          (skill_attach (sy_compile sys) (ag_skill_io ag) (ag_skill_state ag) runtime (en_Tools en)))))"

definition restore_skills :: "'x agent \<Rightarrow> message list \<Rightarrow> ('x world, unit) act" where
  "restore_skills ag messages = alter (\<lambda>w. ss_put (ag_skill_state ag)
     (restoreActivations (si_activated (ag_skill_io ag)) messages (ss_get (ag_skill_state ag) w)) w)"

text \<open>After \<open>RunMessages\<close>.\<close>

definition conclude_run ::
  "nat \<Rightarrow> 'x system \<Rightarrow> 'x agent \<Rightarrow> 'x engine \<Rightarrow> 'x loop_input \<Rightarrow> output_policy \<Rightarrow> bool \<Rightarrow> run_result option
     \<Rightarrow> ('x world, result option) act" where
  "conclude_run fuel sys ag en inp policy budgetDriven x = (case x of
       None \<Rightarrow> give None
     | Some (out, Some e) \<Rightarrow> bnd (loopErrorFailure sys ag e budgetDriven) (\<lambda>failure.
         give (Some (failed_result out failure)))
     | Some (out, None) \<Rightarrow>
         (let result = resultFromLoopOutput out 0 in
          if \<not> op_Validate policy \<or> op_Schema policy = [] then give (Some result)
          else validateAndRepairStructuredOutput fuel sys ag en inp policy budgetDriven out result))"

text \<open>Between the deferred functions.\<close>

definition run_started ::
  "nat \<Rightarrow> 'x system \<Rightarrow> 'x agent \<Rightarrow> request \<Rightarrow> output_policy \<Rightarrow> response_format option \<Rightarrow> 'x frame_sink option
     \<Rightarrow> int \<Rightarrow> bool \<Rightarrow> ('x world, result option) act" where
  "run_started fuel sys ag request policy format sink now budgetDriven =
     bnd (attach_skills sys ag) (\<lambda>x. case x of
         Inl e \<Rightarrow> give (Some (failure_only (caused_failure sys FailureKindEngineError e)))
       | Inr (en, available) \<Rightarrow>
     bnd (buildContext ag available request) (\<lambda>y. case y of
         Inl e \<Rightarrow> bnd (alter (sy_others sys)) (\<lambda>_. peek (\<lambda>w. Some (failure_only (caused_failure sys
           (if errors_is CtxDeadlineExceeded e \<and> deadline_expired ag budgetDriven w then FailureKindBudgetExhausted
            else FailureKindContextBuildFailed) e))))
       | Inr messages \<Rightarrow>
     bnd (restore_skills ag messages) (\<lambda>_.
       let inp = new_input ag request policy format sink messages now in
     bnd (RunMessages fuel sys inp en) (conclude_run fuel sys ag en inp policy budgetDriven))))"

definition finish_run :: "'x system \<Rightarrow> 'x agent \<Rightarrow> 'x world \<Rightarrow> 'x world" where
  "finish_run sys ag w = fst (on_control (ag_Control ag) () (\<lambda>c. (finish_control c, ())) (sy_others sys w))"

definition start_execution :: "'x system \<Rightarrow> 'x agent \<Rightarrow> ('x world, go_err option) act" where
  "start_execution sys ag = bnd (alter (sy_others sys)) (\<lambda>_. bnd (peek w_parent_err) (\<lambda>parent.
     on_control (ag_Control ag) None (start_control parent)))"

definition Engine_run ::
  "nat \<Rightarrow> 'x system \<Rightarrow> 'x agent \<Rightarrow> request \<Rightarrow> output_policy \<Rightarrow> 'x frame_sink option \<Rightarrow> ('x world, result option) act" where
  "Engine_run fuel sys ag request0 policy sink =
     (case prepareOutputPolicy (sy_json sys) policy of
        Inl e \<Rightarrow> give (Some (failure_only (schemaInvalidFailure sys e)))
      | Inr format \<Rightarrow>
     (let request = default_request ag request0 in
      case Request_Validate request of
        Some e \<Rightarrow> give (Some (failure_only (caused_failure sys FailureKindContextBuildFailed e)))
      | None \<Rightarrow>
     bnd (start_execution sys ag) (\<lambda>startErr. case startErr of
         Some e \<Rightarrow> bnd (loopErrorFailure sys ag e False) (\<lambda>failure. give (Some (failure_only failure)))
       | None \<Rightarrow> deferring (
           bnd (peek (sy_now sys)) (\<lambda>now.
           bnd (runContextWithElapsed sys ag request 0) (\<lambda>budgetDriven.
           deferring (run_started fuel sys ag request policy (map_option response_format_of format) sink now budgetDriven)
             cancel_run)))
         (finish_run sys ag))))"

section \<open>Runs\<close>

lemma yields_deferring: "yields m Q \<Longrightarrow> yields (deferring m cleanup) Q"
  by (auto simp: keeps_def deferring_def split: prod.splits outcome.splits)

lemma returns_deferring: "returns m \<Longrightarrow> returns (deferring m cleanup)"
  unfolding returns_def deferring_def by (metis (mono_tags, lifting) case_prod_conv)

text \<open>The repair count of an output is that of the input, or zero when the run did not start.\<close>

definition counts_repairs :: "int \<Rightarrow> run_result option \<Rightarrow> bool" where
  "counts_repairs n x \<longleftrightarrow> (case x of None \<Rightarrow> True | Some (out, err) \<Rightarrow> lo_RepairCount out = n \<or> lo_RepairCount out = 0)"

lemma run_messages_repairs: "yields (run_messages fuel sys inp en) (counts_repairs (li_repairCount inp))"
proof -
  have "li_repairCount (run_input t inp) = li_repairCount inp" for t
    by (simp add: run_input_def normalizeIterationPolicy_def)
  then have "counts_repairs (li_repairCount inp) (map_option (complete_output sys (run_input t inp) r) x)" for t r x
    by (auto simp: counts_repairs_def complete_output_def split: option.split prod.split)
  then show ?thesis
    by (intro keepsI) (auto simp: run_messages_def Let_def split: prod.splits outcome.splits)
qed

lemma RunMessages_repairs: "yields (RunMessages fuel sys inp en) (counts_repairs (li_repairCount inp))"
proof -
  note run = run_messages_repairs
  have none: "counts_repairs n (Some (zero_output, e))" for n e
    by (simp add: counts_repairs_def zero_output_def)
  show ?thesis
    unfolding RunMessages_def Let_def
    by (auto intro!: yields_after run yields_both [OF run] none keeps_give split: prod.split option.split)
qed

section \<open>The repair loop\<close>

text \<open>
  What the loop returns: \<open>I\<close> holds of the last output, its result and the number of the next attempt,
  \<open>R n\<close> of what the run of attempt \<open>n\<close> returns.
\<close>

lemma repair_loop_yields:
  assumes "\<And>out r n f. I out r n \<Longrightarrow> op_MaxRepairAttempts policy < n \<Longrightarrow> Q (Some (r\<lparr>re_Failure := Some f\<rparr>))"
    and "\<And>out r n r'. I out r n \<Longrightarrow> n \<le> op_MaxRepairAttempts policy \<Longrightarrow> repair_refused inp out r n = Some r' \<Longrightarrow> Q (Some r')"
    and run: "\<And>out r n e t. I out r n \<Longrightarrow> n \<le> op_MaxRepairAttempts policy \<Longrightarrow> repair_refused inp out r n = None \<Longrightarrow>
      yields (RunMessages fuel sys (repair_input sys (op_Schema policy) inp out e n t) en) (R n)"
    and "\<And>n. R n None \<Longrightarrow> Q None"
    and "\<And>n out err f. R n (Some (out, Some err)) \<Longrightarrow> Q (Some ((resultFromLoopOutput out n)\<lparr>re_Failure := Some f\<rparr>))"
    and "\<And>n out r'. R n (Some (out, None)) \<Longrightarrow>
      validateResultStructuredOutput (sy_json sys) schema (resultFromLoopOutput out n) = (r', None) \<Longrightarrow> Q (Some r')"
    and onward: "\<And>n out r' e. R n (Some (out, None)) \<Longrightarrow> n \<le> op_MaxRepairAttempts policy \<Longrightarrow>
      validateResultStructuredOutput (sy_json sys) schema (resultFromLoopOutput out n) = (r', Some e) \<Longrightarrow> I out r' (n + 1)"
    and "I out r n"
  shows "yields (repair_loop fuel sys ag en inp policy schema b out e r n) Q"
  using assms(8)
proof (induction "nat (op_MaxRepairAttempts policy + 1 - n)" arbitrary: out e r n rule: less_induct)
  case less
  show ?case
  proof (cases "op_MaxRepairAttempts policy < n")
    case True
    then show ?thesis
      using assms(1) [OF less(2)]
      by (auto simp: repair_loop.simps [of fuel sys ag en inp policy schema b out e r n] intro!: keeps_give)
  next
    case False
    have again: "yields (repair_loop fuel sys ag en inp policy schema b out' e' r' (n + 1)) Q"
      if "R n (Some (out', None))"
        "validateResultStructuredOutput (sy_json sys) schema (resultFromLoopOutput out' n) = (r', Some e')" for out' e' r'
      using False that by (intro less(1) onward) auto
    have after: "yields (case x of None \<Rightarrow> give None
          | Some (out', Some err) \<Rightarrow> bnd (loopErrorFailure sys ag err b) (\<lambda>failure.
              give (Some ((resultFromLoopOutput out' n)\<lparr>re_Failure := Some failure\<rparr>)))
          | Some (out', None) \<Rightarrow>
              (case validateResultStructuredOutput (sy_json sys) schema (resultFromLoopOutput out' n) of
                 (result', None) \<Rightarrow> give (Some result')
               | (result', Some e') \<Rightarrow>
                   repair_loop fuel sys ag en inp policy schema b out' e' result' (n + 1))) Q" if "R n x" for x
      using that assms(4,5,6) again
      by (auto intro!: yields_after yields_give split: option.split prod.split)
    note unfold = repair_loop.simps [of fuel sys ag en inp policy schema b out e r n]
    show ?thesis
    proof (cases "repair_refused inp out r n")
      case None
      have "n \<le> op_MaxRepairAttempts policy"
        using False by simp
      then show ?thesis
        using False None unfolding unfold
        by (simp only: if_False option.case) (rule yields_after, rule yields_both [OF run [OF less(2) _ None] after])
    next
      case (Some r')
      then show ?thesis
        using False assms(2) [OF less(2) _ Some] unfolding unfold by (auto intro!: yields_give)
    qed
  qed
qed

section \<open>A result without failure satisfies the schema\<close>

definition conforming :: "json_reader \<Rightarrow> output_policy \<Rightarrow> result \<Rightarrow> bool" where
  "conforming jr policy r \<longleftrightarrow> (\<exists>schema v. parseOutputPolicySchema jr (op_Schema policy) = Inr schema \<and>
     jr_decode jr (re_Text r) = Inr v \<and> conforms jr schema v \<and> re_Structured r = re_Text r \<and> re_Valid r)"

definition checked :: "json_reader \<Rightarrow> output_policy \<Rightarrow> result option \<Rightarrow> bool" where
  "checked jr policy x \<longleftrightarrow> (case x of None \<Rightarrow> True
     | Some r \<Rightarrow> re_Failure r = None \<and> op_Validate policy \<and> op_Schema policy \<noteq> [] \<longrightarrow> conforming jr policy r)"

lemma checked_simps [simp]:
  "checked jr policy None" "checked jr policy (Some (r\<lparr>re_Failure := Some f\<rparr>))"
  "checked jr policy (Some (failure_only f))" "checked jr policy (Some (failed_result out f))"
  by (simp_all add: checked_def failure_only_def failed_result_def)

lemma checked_unvalidated: "\<not> op_Validate policy \<or> op_Schema policy = [] \<Longrightarrow> checked jr policy x"
  by (cases x) (auto simp: checked_def)

lemma validateResult_conforming:
  assumes "validateResultStructuredOutput jr schema r = (r', None)"
    and "parseOutputPolicySchema jr (op_Schema policy) = Inr schema"
  shows "checked jr policy (Some r')"
proof -
  have "\<exists>v. jr_decode jr (re_Text r) = Inr v \<and> conforms jr schema v \<and> re_Structured r' = re_Text r \<and> re_Valid r' \<and>
      re_Text r' = re_Text r"
    using assms(1)
    by (auto simp: validateResultStructuredOutput_def validateStructuredOutputAgainstSchema_def validate_spec
        split: sum.splits option.splits)
  then show ?thesis
    using assms(2) by (auto simp: checked_def conforming_def)
qed

lemma repair_refused_checked: "repair_refused inp out r n = Some r' \<Longrightarrow> checked jr policy (Some r')"
  by (auto simp: repair_refused_def checked_def split: option.splits)

lemma repair_loop_checked:
  assumes "parseOutputPolicySchema (sy_json sys) (op_Schema policy) = Inr schema"
  shows "yields (repair_loop fuel sys ag en inp policy schema b out e r n) (checked (sy_json sys) policy)"
  by (rule repair_loop_yields [where I = "\<lambda>_ _ _. True" and R = "\<lambda>_ _. True"])
    (simp_all add: repair_refused_checked validateResult_conforming [OF _ assms])

lemma validateAndRepair_checked:
  "yields (validateAndRepairStructuredOutput fuel sys ag en inp policy b out r) (checked (sy_json sys) policy)"
  unfolding validateAndRepairStructuredOutput_def
  by (auto intro!: yields_give repair_loop_checked validateResult_conforming split: sum.split option.split prod.split)

lemma conclude_run_checked: "yields (conclude_run fuel sys ag en inp policy b x) (checked (sy_json sys) policy)"
proof (cases "op_Validate policy \<and> op_Schema policy \<noteq> []")
  case True
  then show ?thesis
    unfolding conclude_run_def Let_def
    by (auto intro!: yields_give yields_after validateAndRepair_checked split: option.split prod.split)
next
  case False
  then show ?thesis
    by (auto simp: keeps_def checked_unvalidated split: prod.splits outcome.splits)
qed

lemma Engine_run_checked: "yields (Engine_run fuel sys ag request policy sink) (checked (sy_json sys) policy)"
  unfolding Engine_run_def run_started_def Let_def
  by (auto intro!: yields_give yields_after yields_deferring conclude_run_checked split: sum.split option.split prod.split)

section \<open>Limits across repairs\<close>

lemma yields_conj: "yields m P \<Longrightarrow> yields m Q \<Longrightarrow> yields m (\<lambda>a. P a \<and> Q a)"
  by (auto simp: keeps_def split: prod.splits outcome.splits)

lemma yields_mono: "yields m P \<Longrightarrow> (\<And>a. P a \<Longrightarrow> Q a) \<Longrightarrow> yields m Q"
  by (auto simp: keeps_def split: prod.splits outcome.splits)

text \<open>
  What a run within the limits returns: its account is in order (\<open>accounted\<close>), where \<open>k\<close> is the number
  of tool calls the execution started with.
\<close>

definition calls_within :: "int \<Rightarrow> int \<Rightarrow> loop_output \<Rightarrow> bool" where
  "calls_within limit k out \<longleftrightarrow> accounted limit k (lo_ToolCallsUsed out, recorded_calls (lo_Steps out))"

definition run_within :: "int \<Rightarrow> int \<Rightarrow> int \<Rightarrow> run_result option \<Rightarrow> bool" where
  "run_within limit k repairs x \<longleftrightarrow> (case x of None \<Rightarrow> True
     | Some (out, err) \<Rightarrow> calls_within limit k out \<and> lo_RepairCount out \<le> repairs)"

definition result_within :: "int \<Rightarrow> int \<Rightarrow> int \<Rightarrow> result option \<Rightarrow> bool" where
  "result_within limit k repairs x \<longleftrightarrow> (case x of None \<Rightarrow> True
     | Some r \<Rightarrow> accounted limit k (re_ToolCallsUsed r, recorded_calls (re_Steps r)) \<and> re_RepairCount r \<le> repairs)"

lemma RunMessages_limits:
  assumes "accounted (li_MaxToolCalls inp) k (li_initialToolCallsUsed inp, recorded_calls (li_initialSteps inp))"
    and "0 \<le> k" "li_repairCount inp \<le> n" "0 \<le> n"
  shows "yields (RunMessages fuel sys inp en) (run_within (li_MaxToolCalls inp) k n)"
  by (rule yields_mono [OF yields_conj [OF RunMessages_repairs RunMessages_within [OF assms(1,2)]]])
    (use assms(3,4) in \<open>auto simp: run_within_def calls_within_def stops_within_def counts_repairs_def split: option.splits\<close>)

lemma validateResult_same:
  "validateResultStructuredOutput jr schema r = (r', x) \<Longrightarrow>
     re_ToolCallsUsed r' = re_ToolCallsUsed r \<and> re_RepairCount r' = re_RepairCount r \<and> re_Steps r' = re_Steps r"
  by (auto simp: validateResultStructuredOutput_def split: sum.splits)

lemma result_of_output [simp]:
  "re_ToolCallsUsed (resultFromLoopOutput out n) = lo_ToolCallsUsed out"
  "re_RepairCount (resultFromLoopOutput out n) = n" "re_Steps (resultFromLoopOutput out n) = lo_Steps out"
  by (simp_all add: resultFromLoopOutput_def)

lemma repair_input_account [simp]:
  "li_MaxToolCalls (repair_input sys schema inp out e n t) = li_MaxToolCalls inp"
  "li_repairCount (repair_input sys schema inp out e n t) = n"
  "(li_initialToolCallsUsed (repair_input sys schema inp out e n t),
    recorded_calls (li_initialSteps (repair_input sys schema inp out e n t))) =
     (lo_ToolCallsUsed out, recorded_calls (lo_Steps out))"
  by (simp_all add: repair_input_def)

lemma repair_loop_limits:
  assumes "calls_within (li_MaxToolCalls inp) k out" "result_within (li_MaxToolCalls inp) k limit (Some r)"
    and "0 \<le> k" "1 \<le> n" "op_MaxRepairAttempts policy \<le> limit"
  shows "yields (repair_loop fuel sys ag en inp policy schema b out e r n) (result_within (li_MaxToolCalls inp) k limit)"
proof (rule repair_loop_yields [where
      R = "\<lambda>n x. run_within (li_MaxToolCalls inp) k n x \<and> 1 \<le> n \<and> n \<le> limit" and
      I = "\<lambda>out r n. calls_within (li_MaxToolCalls inp) k out \<and> result_within (li_MaxToolCalls inp) k limit (Some r) \<and> 1 \<le> n"])
  fix out r r' and n :: int
  assume "calls_within (li_MaxToolCalls inp) k out \<and> result_within (li_MaxToolCalls inp) k limit (Some r) \<and> 1 \<le> n"
    "n \<le> op_MaxRepairAttempts policy" "repair_refused inp out r n = Some r'"
  then show "result_within (li_MaxToolCalls inp) k limit (Some r')"
    using assms(5) by (auto simp: repair_refused_def calls_within_def result_within_def split: option.splits)
next
  fix out r e t and n :: int
  assume "calls_within (li_MaxToolCalls inp) k out \<and> result_within (li_MaxToolCalls inp) k limit (Some r) \<and> 1 \<le> n"
    "n \<le> op_MaxRepairAttempts policy"
  then show "yields (RunMessages fuel sys (repair_input sys (op_Schema policy) inp out e n t) en)
      (\<lambda>x. run_within (li_MaxToolCalls inp) k n x \<and> 1 \<le> n \<and> n \<le> limit)"
    using RunMessages_limits [of "repair_input sys (op_Schema policy) inp out e n t" k n fuel sys en] assms(3,5)
    by (simp only: repair_input_account calls_within_def) simp
qed (use assms in \<open>auto simp: run_within_def result_within_def calls_within_def dest!: validateResult_same\<close>)

lemma validateAndRepair_limits:
  assumes "calls_within (li_MaxToolCalls inp) k out" "result_within (li_MaxToolCalls inp) k limit (Some r)"
    and "0 \<le> k" "0 \<le> lo_RepairCount out" "op_MaxRepairAttempts policy \<le> limit"
  shows "yields (validateAndRepairStructuredOutput fuel sys ag en inp policy b out r)
    (result_within (li_MaxToolCalls inp) k limit)"
proof -
  have same: "result_within (li_MaxToolCalls inp) k limit (Some r')"
    if "validateResultStructuredOutput (sy_json sys) schema r = (r', x)" for schema r' x
    using validateResult_same [OF that] assms(2) by (simp add: result_within_def)
  have failed: "result_within m k l (Some (q\<lparr>re_Valid := v, re_Structured := t, re_Failure := f\<rparr>)) =
      result_within m k l (Some q)" "result_within m k l (Some (q\<lparr>re_Failure := f\<rparr>)) = result_within m k l (Some q)"
      "result_within m k l (Some (q\<lparr>re_Valid := v, re_Structured := t\<rparr>)) = result_within m k l (Some q)"
    for m l q v t f
    by (simp_all add: result_within_def)
  show ?thesis
    unfolding validateAndRepairStructuredOutput_def
    by (auto intro!: yields_give repair_loop_limits intro: same simp: failed assms split: sum.split option.split prod.split)
qed

lemma result_within_simps [simp]:
  "result_within m k l None" "0 \<le> k \<Longrightarrow> 0 \<le> l \<Longrightarrow> result_within m k l (Some (failure_only f))"
  by (auto simp: result_within_def failure_only_def zero_run_result_def accounted_def)

lemma conclude_run_limits:
  assumes "run_within (li_MaxToolCalls inp) k 0 x" "counts_repairs 0 x" "0 \<le> k" "0 \<le> limit" "op_MaxRepairAttempts policy \<le> limit"
  shows "yields (conclude_run fuel sys ag en inp policy b x) (result_within (li_MaxToolCalls inp) k limit)"
proof -
  have failed: "result_within (li_MaxToolCalls inp) k limit (Some (failed_result out f))"
    if "calls_within (li_MaxToolCalls inp) k out" "lo_RepairCount out \<le> 0" for out f
    using that assms(4) by (simp add: result_within_def failed_result_def zero_run_result_def calls_within_def)
  have plain: "result_within (li_MaxToolCalls inp) k limit (Some (resultFromLoopOutput out 0))"
    if "calls_within (li_MaxToolCalls inp) k out" for out
    using that assms(4) by (simp add: result_within_def calls_within_def)
  show ?thesis
    using assms(1,2) unfolding conclude_run_def Let_def run_within_def counts_repairs_def
    by (auto intro!: yields_give yields_after validateAndRepair_limits failed plain assms(3,5) split: option.split prod.split)
qed

lemma new_input_limits [simp]:
  "li_MaxToolCalls (new_input ag request policy format sink messages now) = fst (snd (budgetLimits ag request))"
  "li_repairCount (new_input ag request policy format sink messages now) = 0"
  "li_initialToolCallsUsed (new_input ag request policy format sink messages now) = 0"
  "li_initialSteps (new_input ag request policy format sink messages now) = []"
  "li_Control (new_input ag request policy format sink messages now) = ag_Control ag"
  "li_UnlimitedIterations (new_input ag request policy format sink messages now) = lp_UnlimitedIterations (ag_LoopPolicy ag)"
  "li_MaxIterations (new_input ag request policy format sink messages now) = lp_MaxIterations (ag_LoopPolicy ag)"
  by (simp_all add: new_input_def split: prod.split)

lemma default_request_calls [simp]:
  "fst (snd (budgetLimits ag (default_request ag request))) = fst (snd (budgetLimits ag request))"
  by (simp add: budgetLimits_def run_budget_def default_request_def split: option.split prod.split)

lemma run_started_limits:
  assumes "0 \<le> limit" "op_MaxRepairAttempts policy \<le> limit"
  shows "yields (run_started fuel sys ag request policy format sink now b)
    (result_within (fst (snd (budgetLimits ag request))) 0 limit)"
proof -
  have "accounted m 0 (0, recorded_calls [])" for m
    by (simp add: accounted_def)
  then have "yields (RunMessages fuel sys (new_input ag request policy format sink messages now) en)
      (\<lambda>x. run_within (fst (snd (budgetLimits ag request))) 0 0 x \<and> counts_repairs 0 x)" for messages en
    using RunMessages_limits [of "new_input ag request policy format sink messages now" 0 0 fuel sys en]
      RunMessages_repairs [of fuel sys "new_input ag request policy format sink messages now" en]
    by (intro yields_conj) simp_all
  then have run: "yields (bnd (RunMessages fuel sys (new_input ag request policy format sink messages now) en)
        (conclude_run fuel sys ag en (new_input ag request policy format sink messages now) policy b))
      (result_within (fst (snd (budgetLimits ag request))) 0 limit)" for messages en
    by (rule yields_both)
      (use conclude_run_limits [of "new_input ag request policy format sink messages now" 0] assms in auto)
  show ?thesis
    unfolding run_started_def Let_def
    by (auto intro!: yields_give yields_after run simp: assms(1) split: sum.split prod.split)
qed

lemma Engine_run_limits:
  "yields (Engine_run fuel sys ag request policy sink)
    (result_within (fst (snd (budgetLimits ag request))) 0 (max 0 (op_MaxRepairAttempts policy)))"
proof -
  have "yields (run_started fuel sys ag (default_request ag request) policy format sink now b)
      (result_within (fst (snd (budgetLimits ag request))) 0 (max 0 (op_MaxRepairAttempts policy)))" for format now b
    using run_started_limits [of "max 0 (op_MaxRepairAttempts policy)" policy fuel sys ag "default_request ag request"]
    by simp
  then show ?thesis
    unfolding Engine_run_def Let_def
    by (auto intro!: yields_give yields_after yields_deferring split: sum.split option.split prod.split)
qed

section \<open>The execution returns\<close>

definition builder_returns :: "'x agent \<Rightarrow> bool" where
  "builder_returns ag \<longleftrightarrow> (case contextManager ag of None \<Rightarrow> True | Some m \<Rightarrow> \<forall>request. returns (cm_Build m request))"

lemma returns_repair_loop: "returns (repair_loop fuel sys ag en inp policy schema b out e r n)"
proof (induction "nat (op_MaxRepairAttempts policy + 1 - n)" arbitrary: out e r n rule: less_induct)
  case less
  have "returns (repair_loop fuel sys ag en inp policy schema b out' e' r' (n + 1))"
    if "\<not> op_MaxRepairAttempts policy < n" for out' e' r'
    using that by (intro less) auto
  then show ?case
    unfolding repair_loop.simps [of fuel sys ag en inp policy schema b out e r n] loopErrorFailure_def
    by (auto intro!: returns_bnd returns_RunMessages split: option.split prod.split)
qed

lemma returns_Engine_run:
  assumes "builder_returns ag"
  shows "returns (Engine_run fuel sys ag request policy sink)"
proof -
  have build: "returns (case contextManager ag of None \<Rightarrow> give (default_build r) | Some m \<Rightarrow> cm_Build m r)" for r
    using assms by (auto simp: builder_returns_def split: option.splits)
  have conclude: "returns (conclude_run fuel sys ag en inp policy b x)" for en inp b x
    unfolding conclude_run_def validateAndRepairStructuredOutput_def loopErrorFailure_def Let_def
    by (auto intro!: returns_bnd returns_repair_loop split: option.split prod.split sum.split)
  have started: "returns (run_started fuel sys ag r policy format sink now b)" for r format now b
    unfolding run_started_def attach_skills_def buildContext_def restore_skills_def Let_def
    by (auto intro!: returns_bnd build conclude returns_RunMessages split: sum.split prod.split)
  have deadline: "returns (runContextWithElapsed sys ag r t)" for r t
    unfolding runContextWithElapsed_def Let_def by (auto intro!: returns_bnd split: prod.split)
  show ?thesis
    unfolding Engine_run_def start_execution_def loopErrorFailure_def Let_def
    by (auto intro!: returns_bnd returns_deferring started deadline returns_on_control split: sum.split option.split)
qed

lemma RunMessages_in_fuel:
  assumes "\<not> li_Control inp" "\<not> li_UnlimitedIterations inp" "nat (li_MaxIterations (normalizeIterationPolicy inp)) \<le> fuel"
  shows "yields (RunMessages fuel sys inp en) in_fuel"
proof (rule keepsI)
  fix w w' x
  assume "RunMessages fuel sys inp en w = (w', Returned x)"
  then show "in_fuel x"
    using RunMessages_enough [OF assms, of sys en w] by auto
qed simp

lemma repair_loop_enough:
  assumes "\<not> li_Control inp" "\<not> li_UnlimitedIterations inp" "nat (li_MaxIterations (normalizeIterationPolicy inp)) \<le> fuel"
  shows "yields (repair_loop fuel sys ag en inp policy schema b out e r n) in_fuel"
proof (rule repair_loop_yields [where R = "\<lambda>_. in_fuel" and I = "\<lambda>_ _ _. True"])
  fix out r e t and n :: int
  let ?inp = "repair_input sys (op_Schema policy) inp out e n t"
  have same: "li_Control ?inp = li_Control inp" "li_UnlimitedIterations ?inp = li_UnlimitedIterations inp"
    "li_MaxIterations (normalizeIterationPolicy ?inp) = li_MaxIterations (normalizeIterationPolicy inp)"
    by (simp_all add: repair_input_def normalizeIterationPolicy_def)
  show "yields (RunMessages fuel sys ?inp en) in_fuel"
    using assms by (intro RunMessages_in_fuel) (simp_all only: same not_False_eq_True)
qed simp_all

definition enough_fuel :: "'x agent \<Rightarrow> nat \<Rightarrow> bool" where
  "enough_fuel ag fuel \<longleftrightarrow> \<not> ag_Control ag \<and> \<not> lp_UnlimitedIterations (ag_LoopPolicy ag) \<and>
     (if lp_MaxIterations (ag_LoopPolicy ag) \<le> 0 then 12 else nat (lp_MaxIterations (ag_LoopPolicy ag))) \<le> fuel"

lemma run_started_enough:
  assumes "enough_fuel ag fuel"
  shows "yields (run_started fuel sys ag request policy format sink now b) in_fuel"
proof -
  define inp where "inp = new_input ag request policy format sink"
  have inp: "\<not> li_Control (inp messages now)" "\<not> li_UnlimitedIterations (inp messages now)"
    "nat (li_MaxIterations (normalizeIterationPolicy (inp messages now))) \<le> fuel" for messages now
    using assms by (auto simp: inp_def enough_fuel_def normalizeIterationPolicy_def split: if_splits)
  have conclude: "yields (conclude_run fuel sys ag en (inp messages now) policy b x) in_fuel" if fuelled: "in_fuel x" for en messages now x
  proof -
    obtain out err where "x = Some (out, err)"
      using fuelled by (cases x) auto
    then show ?thesis
      unfolding conclude_run_def validateAndRepairStructuredOutput_def Let_def
      by (auto intro!: yields_give yields_after repair_loop_enough inp split: option.split prod.split sum.split)
  qed
  have run: "yields (bnd (RunMessages fuel sys (inp messages now) en) (conclude_run fuel sys ag en (inp messages now) policy b)) in_fuel"
    for en messages now
    by (rule yields_both [OF RunMessages_in_fuel [OF inp] conclude])
  show ?thesis
    unfolding run_started_def Let_def
    by (auto intro!: yields_give yields_after run [unfolded inp_def] split: sum.split prod.split)
qed

lemma Engine_run_enough:
  assumes "enough_fuel ag fuel"
  shows "yields (Engine_run fuel sys ag request policy sink) in_fuel"
  unfolding Engine_run_def Let_def
  by (auto intro!: yields_give yields_after yields_deferring run_started_enough [OF assms] split: sum.split option.split)

text \<open>Nothing recovers a panic of the caller's context builder.\<close>

lemma builder_panic_escapes:
  assumes "contextManager ag = Some m" "\<And>request w. snd (cm_Build m request w) = Panicked b"
    and "attach_skills sys ag w = (w1, Returned (Inr x))"
  shows "\<exists>w'. run_started fuel sys ag request policy format sink now budgetDriven w = (w', Panicked b)"
proof (cases x)
  case (Pair en available)
  obtain w2 where "cm_Build m request w1 = (w2, Panicked b)"
    using assms(2) [of request w1] by (cases "cm_Build m request w1") simp
  then show ?thesis
    using assms(1,3) Pair by (simp add: run_started_def buildContext_def bnd_def)
qed

section \<open>Samples\<close>

definition tape_policy :: loop_policy where
  "tape_policy = \<lparr>lp_MaxIterations = 2, lp_UnlimitedIterations = False, lp_Budget = None,
     lp_SessionBudget = None, lp_ModelTimeouts = None, lp_ContextTokenTarget = 0\<rparr>"

definition tape_agent :: "tape agent" where
  "tape_agent = \<lparr>ag_Engine = tape_engine, ag_Model = ''m'', ag_Options = tape_options, ag_ModelMaxTokens = 0,
     ag_ToolMode = ModeSequential, ag_LoopPolicy = tape_policy, ag_ContextBuilder = None, ag_WorkingMemory = None,
     ag_OperationTurn = 0, ag_Skills = [], ag_AvailableSkills = [], ag_SafeStreamingTools = [],
     ag_ResponseContinuation = [], ag_OutputGuardrails = [], ag_OutputObserver = None, ag_StepDecider = None,
     ag_StepObserver = None, ag_Control = False,
     ag_skill_io = \<lparr>si_activated = (\<lambda>b. None), si_structured = (\<lambda>s. []), si_name_argument = Inr,
       si_resource_arguments = (\<lambda>b. Inr (b, [])), si_reader = (\<lambda>s name w. (w, Inr [])), si_error_text = (\<lambda>e. [])\<rparr>,
     ag_skill_state = \<lparr>ss_get = (\<lambda>w. newSkillRuntime [] []), ss_put = (\<lambda>r w. w)\<rparr>\<rparr>"

definition tape_request :: request where
  "tape_request = \<lparr>r_Prompt = ''go'', r_Budget = Some \<lparr>b_MaxTokens = 0, b_MaxToolCalls = 3, b_MaxSteps = 0,
     b_MaxWallClock = 0\<rparr>, r_SessionBudget = None, r_ModelTimeouts = None, r_Content = []\<rparr>"

definition tape_output_policy :: output_policy where
  "tape_output_policy = \<lparr>op_Schema = [], op_Validate = True, op_Repair = True, op_MaxRepairAttempts = 2,
     op_Native = False\<rparr>"

lemma tape_returns:
  obtains w' r where "Engine_run 2 tape_system tape_agent tape_request tape_output_policy None (tape_world early_events) =
    (w', Returned (Some r))"
proof -
  have "enough_fuel tape_agent 2" "builder_returns tape_agent"
    by (simp_all add: enough_fuel_def tape_agent_def tape_policy_def builder_returns_def contextManager_def)
  then show ?thesis
    using keepsD(1) [OF Engine_run_enough, of tape_agent 2] that
    by (metis in_fuel_def not_None_eq returnsE [OF returns_Engine_run])
qed

section \<open>Properties\<close>

text \<open>
  C23.  Structured output: whatever the provider, the tools and the caller's extensions do, a result
  of an execution reports a failure, or its policy asked for no validation, or its text is a JSON
  document that conforms to the policy's schema and is the structured value of the result.
\<close>

theorem execution_output_conforms:
  "case Engine_run fuel sys ag request policy sink w of
     (w', Returned (Some r)) \<Rightarrow>
       (\<exists>failure. re_Failure r = Some failure) \<or> op_Validate policy = False \<or> op_Schema policy = [] \<or>
       (\<exists>schema v. parseOutputPolicySchema (sy_json sys) (op_Schema policy) = Inr schema \<and>
          jr_decode (sy_json sys) (re_Text r) = Inr v \<and> conforms (sy_json sys) schema v \<and>
          re_Structured r = re_Text r \<and> re_Valid r)
   | _ \<Rightarrow> True"
  using keepsD(1) [OF Engine_run_checked TrueI]
  by (fastforce simp: checked_def conforming_def split: prod.split outcome.split option.splits)



text \<open>
  C25.  The limits of an execution hold for the whole of it, however it ends.  The counter of tool calls
  its result reports is at least the number of calls recorded in its steps, so the repairs go on
  counting where the first run stopped; it never exceeds a positive tool-call limit of the request's
  budget; and there are never more repairs than the policy allows, whatever the budget.
\<close>

theorem execution_respects_limits:
  assumes "Engine_run fuel sys ag request policy sink w = (w', Returned (Some r))"
  shows "int (recorded_calls (re_Steps r)) \<le> re_ToolCallsUsed r \<and>
    (fst (snd (budgetLimits ag request)) \<le> 0 \<or> re_ToolCallsUsed r \<le> fst (snd (budgetLimits ag request))) \<and>
    re_RepairCount r \<le> max 0 (op_MaxRepairAttempts policy)"
  using keepsD(1) [OF Engine_run_limits TrueI assms(1)]
  by (auto simp: result_within_def accounted_def)

theorem execution_respects_limits_witness:
  "\<exists>w' r. Engine_run 2 tape_system tape_agent tape_request tape_output_policy None (tape_world early_events) =
     (w', Returned (Some r)) \<and> int (recorded_calls (re_Steps r)) \<le> re_ToolCallsUsed r \<and>
     re_ToolCallsUsed r \<le> 3 \<and> re_RepairCount r \<le> 2"
proof -
  obtain w' r where run: "Engine_run 2 tape_system tape_agent tape_request tape_output_policy None
      (tape_world early_events) = (w', Returned (Some r))"
    by (rule tape_returns)
  have "fst (snd (budgetLimits tape_agent tape_request)) = 3"
    by (simp add: budgetLimits_def run_budget_def tape_request_def split: option.split)
  then show ?thesis
    using run execution_respects_limits [OF run] by (simp add: tape_output_policy_def)
qed

end
