(* ===== verification/Resume.thy ===== *)
theory Resume
  imports EngineRun
begin

text \<open>
  \<open>src/agent/resume.go\<close>: continuing an execution from a continuation.  A continuation is validated,
  and the run goes on from its phase: at a ready boundary with \<open>RunMessages\<close>, after a model turn with
  the tool step of that turn, after tools according to the decision of the last step, and after a
  final answer with its validation.  The tool step and the validation of the last two run outside
  the recovery of \<open>RunMessages\<close>, so a panic leaves \<open>resume\<close>; the resumed tool step also has no
  observer of working-memory summaries.  The lemmas show that a resumed run starts in the state its
  continuation was taken in, that an interrupted tool step is taken up as it was begun, that the results satisfy
  the schema and the limits, and that a partly answered tool turn makes \<open>resume\<close> panic.
\<close>

section \<open>Results of a continuation\<close>

definition currentContinuation :: "continuation \<Rightarrow> continuation" where
  "currentContinuation k = k\<lparr>k_SchemaVersion := ContinuationSchemaVersion\<rparr>"

definition continuationStopReason :: "continuation \<Rightarrow> stop_reason" where
  "continuationStopReason k =
     (if k_Steps k = [] then StopReasonOther []
      else let latest = last (k_Steps k);
               recorded = (case st_ModelCall latest of None \<Rightarrow> StopReasonOther [] | Some mc \<Rightarrow> mc_StopReason mc) in
        if k_Phase k = ContinuationToolsComplete
          then (if st_Decision latest = StepDecisionFinish then StopReasonComplete
                else if st_Decision latest = StepDecisionFail then StopReasonError else recorded)
        else recorded)"

fun last_thinking :: "message list \<Rightarrow> bytes" where
  "last_thinking [] = []"
| "last_thinking (m # ms) = (if m_Role m = RoleAssistant then m_Thinking m else last_thinking ms)"

definition continuationThinking :: "message list \<Rightarrow> bytes" where
  "continuationThinking messages = last_thinking (rev messages)"

definition continuationOutput :: "continuation \<Rightarrow> loop_output" where
  "continuationOutput k = \<lparr>lo_Messages = k_Messages k, lo_Usage = k_Usage k,
     lo_StopReason = continuationStopReason k, lo_Iterations = int (length (k_Steps k)),
     lo_Thinking = continuationThinking (k_Messages k), lo_Steps = k_Steps k,
     lo_ToolCallsUsed = k_ToolCallsUsed k, lo_RepairCount = k_RepairCount k,
     lo_ActiveElapsed = k_ActiveElapsed k, lo_NextOperationTurn = k_NextOperationTurn k,
     lo_contextUsage = k_ContextUsage k\<rparr>"

definition continuationResult :: "continuation \<Rightarrow> result" where
  "continuationResult k = resultFromLoopOutput (continuationOutput k) (k_RepairCount k)"

text \<open>The last argument is what \<open>input.contextUsage\<close> points to.\<close>

definition decorateResumedOutput ::
  "'x system \<Rightarrow> 'x loop_input \<Rightarrow> usage \<Rightarrow> 'x world \<Rightarrow> loop_output \<Rightarrow> loop_output" where
  "decorateResumedOutput sys inp spent w out = out\<lparr>lo_NextOperationTurn := li_OperationTurn inp,
     lo_RepairCount := li_repairCount inp, lo_ActiveElapsed := li_activeElapsed inp + since_start sys inp w,
     lo_contextUsage := spent\<rparr>"

definition ended_output ::
  "'x system \<Rightarrow> 'x loop_input \<Rightarrow> continuation \<Rightarrow> loop_output \<Rightarrow> go_err option \<Rightarrow> ('x world, run_result option) act" where
  "ended_output sys inp k out err =
     peek (\<lambda>w. Some (decorateResumedOutput sys inp (k_ContextUsage k) w out, err))"

section \<open>The phases\<close>

text \<open>
  The loop's variables when the pending turn is taken off again, and the input of the run that
  follows a phase.  \<open>resume\<close> installs no context observer for the tool step it takes up.
\<close>

definition resumed_state :: "'x loop_input \<Rightarrow> continuation \<Rightarrow> 'x world \<Rightarrow> 'x run" where
  "resumed_state inp k w = \<lparr>rn_world = w, rn_operationTurn = li_OperationTurn inp, rn_overlap = None,
     rn_current = butlast (k_Messages k), rn_usage = k_Usage k, rn_contextUsage = k_ContextUsage k,
     rn_steps = butlast (k_Steps k), rn_lastModelCall = None, rn_recorded = False,
     rn_turnsRun = int (length (k_Steps k)), rn_toolCallsUsed = k_ToolCallsUsed k, rn_observed = False\<rparr>"

definition next_input ::
  "'x loop_input \<Rightarrow> message list \<Rightarrow> usage \<Rightarrow> usage \<Rightarrow> step list \<Rightarrow> int \<Rightarrow> 'x loop_input" where
  "next_input inp messages billed spent steps toolCallsUsed = inp\<lparr>li_Messages := messages,
     li_initialUsage := billed, li_initialContextUsage := spent, li_initialSteps := steps,
     li_initialToolCallsUsed := toolCallsUsed\<rparr>"

definition index_panic :: bytes where
  "index_panic = ''runtime error: index out of range''"

text \<open>After the tool step of the pending turn: the run has ended, or goes on.\<close>

definition after_tool_step ::
  "nat \<Rightarrow> 'x system \<Rightarrow> 'x loop_input \<Rightarrow> 'x engine \<Rightarrow> 'x run \<times> run_result option outcome
     \<Rightarrow> 'x world \<times> run_result option outcome" where
  "after_tool_step fuel sys inp en x = (case x of
       (r, Panicked b) \<Rightarrow> (rn_world r, Panicked b)
     | (r, Returned (Some (out, err))) \<Rightarrow>
         (rn_world r, Returned (Some (decorateResumedOutput sys inp (rn_contextUsage r) (rn_world r) out, err)))
     | (r, Returned None) \<Rightarrow>
         RunMessages fuel sys (next_input inp (rn_current r) (rn_usage r) (rn_contextUsage r) (rn_steps r)
           (rn_toolCallsUsed r)) en (rn_world r))"

text \<open>
  A nil model call would be dereferenced; \<open>ValidateContinuation\<close> excludes it, as it does a scan of
  the operation id that fails half-way.
\<close>

definition resumeModelComplete ::
  "nat \<Rightarrow> 'x system \<Rightarrow> 'x engine \<Rightarrow> 'x loop_input \<Rightarrow> continuation \<Rightarrow> ('x world, run_result option) act" where
  "resumeModelComplete fuel sys en inp k w =
     (if k_Messages k = [] \<or> k_Steps k = [] then (w, Panicked index_panic)
      else let assistant = last (k_Messages k); latest = last (k_Steps k) in
        case m_ToolCalls assistant of [] \<Rightarrow> (w, Panicked index_panic)
        | call # calls \<Rightarrow>
        (case st_ModelCall latest of None \<Rightarrow> (w, Panicked ''runtime error: nil pointer dereference'')
         | Some mc \<Rightarrow>
         let operationTurn = (case scan_operation_id (tc_OperationID call) of None \<Rightarrow> 0 | Some (turn, slot) \<Rightarrow> turn) in
         after_tool_step fuel sys inp en
           (runToolStep sys inp en assistant mc (st_Index latest) operationTurn (resumed_state inp k w))))"

definition resumeToolsComplete ::
  "nat \<Rightarrow> 'x system \<Rightarrow> 'x engine \<Rightarrow> 'x loop_input \<Rightarrow> continuation \<Rightarrow> ('x world, run_result option) act" where
  "resumeToolsComplete fuel sys en inp k =
     (if k_Steps k = [] then (\<lambda>w. (w, Panicked index_panic))
      else case st_Decision (last (k_Steps k)) of
          StepDecisionContinue \<Rightarrow> RunMessages fuel sys inp en
        | StepDecisionFinish \<Rightarrow> ended_output sys inp k (continuationOutput k) None
        | StepDecisionFail \<Rightarrow> ended_output sys inp k (continuationOutput k)
            (Some (wrap_err ''resumed failed tool step'' (sentinel ErrStepAborted)))
        | StepDecisionOther d \<Rightarrow>
            if d = [] then RunMessages fuel sys inp en
            else ended_output sys inp k (continuationOutput k)
              (Some (continuation_error (''tools_complete phase has decision '' @ d))))"

definition resumeValidatingOutput ::
  "nat \<Rightarrow> 'x system \<Rightarrow> 'x engine \<Rightarrow> 'x loop_input \<Rightarrow> continuation \<Rightarrow> ('x world, run_result option) act" where
  "resumeValidatingOutput fuel sys en inp k w =
     (if k_Messages k = [] \<or> k_Steps k = [] then (w, Panicked index_panic)
      else let latest = last (k_Steps k) in
        case st_ModelCall latest of None \<Rightarrow> (w, Panicked ''runtime error: nil pointer dereference'')
        | Some mc \<Rightarrow>
        bnd (finalizeNoToolStep sys inp en \<lparr>tf_usage = k_Usage k, tf_contextUsage = k_ContextUsage k,
               tf_iteration = st_Index latest, tf_toolCallsUsed = k_ToolCallsUsed k,
               tf_operationTurn = li_OperationTurn inp\<rparr>
             (butlast (k_Messages k)) (last (k_Messages k)) mc (butlast (k_Steps k)) (mc_StopReason mc)) (\<lambda>x. case x of
            EndStep current steps out err \<Rightarrow> ended_output sys inp k out err
          | RetryStep current steps \<Rightarrow>
              RunMessages fuel sys (next_input inp current (k_Usage k) (k_ContextUsage k) steps (k_ToolCallsUsed k)) en) w)"

definition resumeLoop ::
  "nat \<Rightarrow> 'x system \<Rightarrow> 'x engine \<Rightarrow> 'x loop_input \<Rightarrow> continuation \<Rightarrow> ('x world, run_result option) act" where
  "resumeLoop fuel sys en inp k = (case k_Phase k of
       ContinuationReady \<Rightarrow> RunMessages fuel sys inp en
     | ContinuationModelComplete \<Rightarrow> resumeModelComplete fuel sys en inp k
     | ContinuationToolsComplete \<Rightarrow> resumeToolsComplete fuel sys en inp k
     | ContinuationValidatingOutput \<Rightarrow> resumeValidatingOutput fuel sys en inp k
     | ContinuationOther p \<Rightarrow> ended_output sys inp k (continuationOutput k)
         (Some (continuation_error (''unknown phase '' @ p))))"

section \<open>The resumed execution\<close>

definition resume_input ::
  "'x agent \<Rightarrow> continuation \<Rightarrow> response_format option \<Rightarrow> 'x frame_sink option \<Rightarrow> int \<Rightarrow> 'x loop_input" where
  "resume_input ag k format sink now =
     (new_input ag (k_Request k) (k_OutputPolicy k) format sink (k_Messages k) now)\<lparr>
       li_OperationTurn := k_NextOperationTurn k, li_repairCount := k_RepairCount k,
       li_activeElapsed := k_ActiveElapsed k, li_initialUsage := k_Usage k,
       li_initialContextUsage := k_ContextUsage k, li_initialSteps := k_Steps k,
       li_initialToolCallsUsed := k_ToolCallsUsed k\<rparr>"

definition resultWithFailure ::
  "'x system \<Rightarrow> 'x agent \<Rightarrow> result \<Rightarrow> go_err \<Rightarrow> bool \<Rightarrow> ('x world, result option) act" where
  "resultWithFailure sys ag r e budgetDriven = bnd (loopErrorFailure sys ag e budgetDriven)
     (\<lambda>failure. give (Some (r\<lparr>re_Failure := Some failure\<rparr>)))"

definition conclude_resume ::
  "nat \<Rightarrow> 'x system \<Rightarrow> 'x agent \<Rightarrow> 'x engine \<Rightarrow> 'x loop_input \<Rightarrow> output_policy \<Rightarrow> bool \<Rightarrow> run_result option
     \<Rightarrow> ('x world, result option) act" where
  "conclude_resume fuel sys ag en inp policy budgetDriven x = (case x of
       None \<Rightarrow> give None
     | Some (out, err) \<Rightarrow>
         (let r = resultFromLoopOutput out (lo_RepairCount out) in case err of
            Some e \<Rightarrow> resultWithFailure sys ag r e budgetDriven
          | None \<Rightarrow> if \<not> op_Validate policy \<or> op_Schema policy = [] then give (Some r)
              else validateAndRepairStructuredOutput fuel sys ag en inp policy budgetDriven out r))"

definition attach_store :: "'x system \<Rightarrow> 'x engine \<Rightarrow> go_err + 'x engine" where
  "attach_store sys en = (case en_OutputStore en of
       None \<Rightarrow> Inr en
     | Some store \<Rightarrow> (case attachOutputStoreTools sys (en_Tools en) (Some store) of
           (tools, Some e) \<Rightarrow> Inl e
         | (tools, None) \<Rightarrow> Inr (en\<lparr>en_Tools := tools\<rparr>)))"

definition resume_started ::
  "nat \<Rightarrow> 'x system \<Rightarrow> 'x agent \<Rightarrow> continuation \<Rightarrow> response_format option \<Rightarrow> 'x frame_sink option \<Rightarrow> int \<Rightarrow> bool
     \<Rightarrow> ('x world, result option) act" where
  "resume_started fuel sys ag k format sink now budgetDriven =
     bnd (attach_skills sys ag) (\<lambda>x.
       case (case x of Inl e \<Rightarrow> Inl e | Inr (en, available) \<Rightarrow> attach_store sys en) of
         Inl e \<Rightarrow> resultWithFailure sys ag (continuationResult k) e budgetDriven
       | Inr en \<Rightarrow>
     bnd (restore_skills ag (k_Messages k)) (\<lambda>_.
     bnd (alter (sy_others sys)) (\<lambda>_.
     bnd (peek (ctx_err (ag_Control ag))) (\<lambda>ended. case ended of
         Some e \<Rightarrow> resultWithFailure sys ag (continuationResult k) e budgetDriven
       | None \<Rightarrow> let inp = resume_input ag k format sink now in
     bnd (resumeLoop fuel sys en inp k)
       (conclude_resume fuel sys ag en inp (k_OutputPolicy k) budgetDriven)))))"

definition Engine_resume ::
  "nat \<Rightarrow> 'x system \<Rightarrow> 'x agent \<Rightarrow> continuation \<Rightarrow> 'x frame_sink option \<Rightarrow> ('x world, result option) act" where
  "Engine_resume fuel sys ag k0 sink =
     (case ValidateContinuation (sy_json_valid sys) k0 of
        Some e \<Rightarrow> give (Some (failure_only (caused_failure sys FailureKindEngineError e)))
      | None \<Rightarrow>
     (let k1 = currentContinuation k0; k = k1\<lparr>k_Request := default_request ag (k_Request k1)\<rparr> in
      case Request_Validate (k_Request k) of
        Some e \<Rightarrow> give (Some ((continuationResult k)\<lparr>re_Failure := Some (caused_failure sys FailureKindEngineError e)\<rparr>))
      | None \<Rightarrow>
     (case prepareOutputPolicy (sy_json sys) (k_OutputPolicy k) of
        Inl e \<Rightarrow> give (Some ((continuationResult k)\<lparr>re_Failure := Some (schemaInvalidFailure sys e)\<rparr>))
      | Inr format \<Rightarrow>
     bnd (start_execution sys ag) (\<lambda>startErr. case startErr of
         Some e \<Rightarrow> resultWithFailure sys ag (continuationResult k) e False
       | None \<Rightarrow> deferring (
           bnd (peek (sy_now sys)) (\<lambda>now.
           bnd (runContextWithElapsed sys ag (k_Request k) (k_ActiveElapsed k)) (\<lambda>budgetDriven.
           deferring (resume_started fuel sys ag k (map_option response_format_of format) sink now budgetDriven)
             cancel_run)))
         (finish_run sys ag)))))"

section \<open>Results of a resumed run\<close>

lemma ended_output_yields:
  "(\<And>w. Q (Some (decorateResumedOutput sys inp (k_ContextUsage k) w out, err))) \<Longrightarrow> yields (ended_output sys inp k out err) Q"
  by (simp add: ended_output_def)

lemma decorated [simp]:
  "lo_ToolCallsUsed (decorateResumedOutput sys inp spent w out) = lo_ToolCallsUsed out"
  "lo_RepairCount (decorateResumedOutput sys inp spent w out) = li_repairCount inp"
  "lo_Messages (decorateResumedOutput sys inp spent w out) = lo_Messages out"
  "lo_Steps (decorateResumedOutput sys inp spent w out) = lo_Steps out"
  by (simp_all add: decorateResumedOutput_def)

lemma next_input_simps [simp]:
  "li_MaxToolCalls (next_input inp ms u s steps n) = li_MaxToolCalls inp"
  "li_initialToolCallsUsed (next_input inp ms u s steps n) = n"
  "li_initialSteps (next_input inp ms u s steps n) = steps"
  "li_repairCount (next_input inp ms u s steps n) = li_repairCount inp"
  by (simp_all add: next_input_def)

lemma continuationOutput_simps [simp]:
  "lo_ToolCallsUsed (continuationOutput k) = k_ToolCallsUsed k"
  "lo_RepairCount (continuationOutput k) = k_RepairCount k"
  "lo_Steps (continuationOutput k) = k_Steps k"
  by (simp_all add: continuationOutput_def)

lemma conclude_resume_checked:
  "yields (conclude_resume fuel sys ag en inp policy b x) (checked (sy_json sys) policy)"
proof (cases "op_Validate policy \<and> op_Schema policy \<noteq> []")
  case True
  then show ?thesis
    unfolding conclude_resume_def resultWithFailure_def Let_def
    by (auto intro!: yields_give yields_after validateAndRepair_checked split: option.split prod.split)
next
  case False
  then show ?thesis
    by (auto simp: keeps_def checked_unvalidated split: prod.splits outcome.splits)
qed

lemma Engine_resume_checked:
  "yields (Engine_resume fuel sys ag k sink) (checked (sy_json sys) (k_OutputPolicy k))"
proof -
  have "k_OutputPolicy (currentContinuation k) = k_OutputPolicy k"
    by (simp add: currentContinuation_def)
  then show ?thesis
    unfolding Engine_resume_def resume_started_def resultWithFailure_def Let_def
    using conclude_resume_checked [where policy = "k_OutputPolicy k"]
    by (auto intro!: yields_give yields_after yields_deferring split: sum.split option.split prod.split)
qed

section \<open>Limits of a resumed run\<close>

lemma runToolStep_limits:
  assumes "accounted (li_MaxToolCalls inp) n (tally r)"
    and "runToolStep sys inp en assistant mc iteration turn r = (r', Returned x)"
  shows "accounted (li_MaxToolCalls inp) n (tally r') \<and>
    (case x of None \<Rightarrow> True | Some (out, err) \<Rightarrow> calls_within (li_MaxToolCalls inp) n out)"
proof -
  have "capped (tally r) (accounted (li_MaxToolCalls inp) n) (runToolStep sys inp en assistant mc iteration turn)
      (stops_within (accounted (li_MaxToolCalls inp) n))"
    using assms(1) by (rule capped_tool_step)
  from keepsD(1) [OF this [unfolded capped_def] refl assms(2)] show ?thesis
    by (auto simp: stops_within_def calls_within_def split: option.splits)
qed

text \<open>What a resumed run returns; \<open>n\<close> is the number of calls the continuation counts.\<close>

definition resumed_within :: "int \<Rightarrow> int \<Rightarrow> int \<Rightarrow> run_result option \<Rightarrow> bool" where
  "resumed_within limit n repairs x \<longleftrightarrow> (case x of None \<Rightarrow> True
     | Some (out, err) \<Rightarrow> calls_within limit n out \<and> lo_RepairCount out \<in> {0, repairs})"

lemma resumed_within_simps [simp]:
  "resumed_within m n p None"
  "resumed_within m n p (Some (out, err)) \<longleftrightarrow> calls_within m n out \<and> (lo_RepairCount out = 0 \<or> lo_RepairCount out = p)"
  by (simp_all add: resumed_within_def)

lemma RunMessages_resumed:
  assumes "accounted (li_MaxToolCalls inp) n (li_initialToolCallsUsed inp, recorded_calls (li_initialSteps inp))"
    and "0 \<le> n" "0 \<le> li_repairCount inp"
  shows "yields (RunMessages fuel sys inp en) (resumed_within (li_MaxToolCalls inp) n (li_repairCount inp))"
  by (rule yields_mono [OF yields_conj [OF RunMessages_limits [OF assms(1,2) order_refl assms(3)] RunMessages_repairs]])
     (auto simp: resumed_within_def run_within_def counts_repairs_def split: option.splits)

text \<open>The account of a continuation: it counts the calls its steps record.\<close>

definition counts_steps :: "continuation \<Rightarrow> bool" where
  "counts_steps k \<longleftrightarrow> int (recorded_calls (k_Steps k)) \<le> k_ToolCallsUsed k"

lemma counts_steps_account:
  assumes "counts_steps k"
  shows "accounted m (k_ToolCallsUsed k) (k_ToolCallsUsed k, recorded_calls (k_Steps k))"
    and "accounted m (k_ToolCallsUsed k) (k_ToolCallsUsed k, recorded_calls (butlast (k_Steps k)))"
    and "0 \<le> k_ToolCallsUsed k"
proof -
  have "recorded_calls (butlast (k_Steps k)) \<le> recorded_calls (k_Steps k)"
    by (cases "k_Steps k" rule: rev_cases) simp_all
  then show "accounted m (k_ToolCallsUsed k) (k_ToolCallsUsed k, recorded_calls (butlast (k_Steps k)))"
    using assms by (simp add: counts_steps_def accounted_def)
qed (use assms in \<open>simp_all add: counts_steps_def accounted_def\<close>)

lemma step_traces_counted:
  assumes "validateContinuationStep phase is_last previous index s assistant turn completed cumulative ctx = Inr (completed', u)"
  shows "completed + int (length (st_ToolCalls s)) = completed'"
  using assms
  by (auto simp: validateContinuationStep_def validateStepToolCalls_def Let_def split: if_splits option.splits)

lemma steps_traces_counted:
  "validate_steps phase firstTurn previous index steps assistants completed cumulative ctx = Inr (completed', u) \<Longrightarrow>
     length steps = length assistants \<Longrightarrow> completed + int (recorded_calls steps) = completed'"
proof (induction steps arbitrary: assistants previous index completed cumulative ctx)
  case (Cons s steps)
  then obtain m ms c v where m: "assistants = m # ms" "length steps = length ms"
    and step: "validateContinuationStep phase (steps = []) previous index s m (wrap64 (firstTurn + int index))
      completed cumulative ctx = Inr (c, v)"
    and rest: "validate_steps phase firstTurn (Some (bu_Tokens (st_BudgetUsed s))) (Suc index) steps ms c v
      (st_ContextUsage s) = Inr (completed', u)"
    by (cases assistants) (auto split: sum.splits prod.splits)
  show ?case
    using step_traces_counted [OF step] Cons.IH [OF rest m(2)] by simp
qed simp

lemma accepted_counts_steps:
  assumes "ValidateContinuation jv k = None"
  shows "counts_steps k"
proof -
  obtain a completed cumulative where a: "analyzeTranscript (k_Messages k) = Inr a"
    and steps: "validateContinuationSteps k a = Inr (completed, cumulative)"
    and totals: "validateContinuationTotals k a completed cumulative = None"
    using assms by (rule ValidateContinuation_accepted)
  note turns = generated_step_turns [OF a]
  have len: "length (k_Steps k) \<le> length (filter is_assistant (k_Messages k))"
    and run: "validate_steps (k_Phase k) (k_NextOperationTurn k - int (length (k_Steps k))) None 0
      (k_Steps k) (step_turns k) 0 zero_usage zero_usage = Inr (completed, cumulative)"
    using steps turns by (auto simp: validateContinuationSteps_def split: if_splits)
  have "length (k_Steps k) = length (step_turns k)"
    using len by (simp add: step_turns_def Let_def)
  moreover have "k_ToolCallsUsed k = completed"
    using totals by (auto simp: validateContinuationTotals_def split: if_splits)
  ultimately show ?thesis
    using steps_traces_counted [OF run] by (simp add: counts_steps_def)
qed

lemma resumeModelComplete_limits:
  assumes "counts_steps k" "0 \<le> li_repairCount inp"
  shows "yields (resumeModelComplete fuel sys en inp k)
    (resumed_within (li_MaxToolCalls inp) (k_ToolCallsUsed k) (li_repairCount inp))"
proof -
  let ?m = "li_MaxToolCalls inp" and ?n = "k_ToolCallsUsed k"
  have start: "accounted ?m ?n (tally (resumed_state inp k w))" for w
    using counts_steps_account(2) [OF assms(1)] by (simp add: resumed_state_def tally_def)
  have run: "resumed_within ?m ?n (li_repairCount inp) x"
    if step: "runToolStep sys inp en assistant mc iteration turn (resumed_state inp k w) = (r, Returned None)"
      and go: "RunMessages fuel sys (next_input inp (rn_current r) (rn_usage r) (rn_contextUsage r) (rn_steps r)
                (rn_toolCallsUsed r)) en (rn_world r) = (w', Returned x)"
    for assistant mc iteration turn w r w' x
  proof -
    have "accounted ?m ?n (rn_toolCallsUsed r, recorded_calls (rn_steps r))"
      using runToolStep_limits [OF start step] by (simp add: tally_def)
    then show ?thesis
      using keepsD(1) [OF RunMessages_resumed TrueI go] counts_steps_account(3) [OF assms(1)] assms(2) by simp
  qed
  have stop: "calls_within ?m ?n out"
    if "runToolStep sys inp en assistant mc iteration turn (resumed_state inp k w) = (r, Returned (Some (out, err)))"
    for assistant mc iteration turn w r out err
    using runToolStep_limits [OF start that] by simp
  have decorated: "calls_within ?m ?n (decorateResumedOutput sys inp spent w out) = calls_within ?m ?n out" for spent w out
    by (simp add: calls_within_def)
  show ?thesis
    by (rule keepsI)
       (auto simp: resumeModelComplete_def after_tool_step_def Let_def decorated split: if_splits list.splits option.splits prod.splits
          outcome.splits dest!: run stop)
qed

lemma finalize_calls:
  "yields (finalizeNoToolStep sys inp en fr base assistant mc steps stop) (\<lambda>x. case x of
     EndStep current steps' out err \<Rightarrow> lo_ToolCallsUsed out = tf_toolCallsUsed fr \<and> recorded_calls (lo_Steps out) = recorded_calls steps
   | RetryStep current steps' \<Rightarrow> recorded_calls steps' = recorded_calls steps)"
  by (rule yields_mono [OF finalizeNoToolStep_reports])
     (auto simp: reports_def split: step_end.splits)

lemma resumeValidatingOutput_limits:
  assumes "counts_steps k" "0 \<le> li_repairCount inp"
  shows "yields (resumeValidatingOutput fuel sys en inp k)
    (resumed_within (li_MaxToolCalls inp) (k_ToolCallsUsed k) (li_repairCount inp))"
proof -
  let ?m = "li_MaxToolCalls inp" and ?n = "k_ToolCallsUsed k" and ?steps = "butlast (k_Steps k)"
  define Q where "Q = resumed_within ?m ?n (li_repairCount inp)"
  note account = counts_steps_account(2,3) [OF assms(1)]
  have again: "yields (RunMessages fuel sys (next_input inp current u s steps ?n) en) Q"
    if "recorded_calls steps = recorded_calls ?steps" for current u s steps
    using RunMessages_resumed [of "next_input inp current u s steps ?n" ?n] assms(2) account that
    by (simp add: Q_def)
  have ended: "yields (ended_output sys inp k out err) Q"
    if "lo_ToolCallsUsed out = ?n" "recorded_calls (lo_Steps out) = recorded_calls ?steps" for out err
    using that account by (intro ended_output_yields) (auto simp: Q_def calls_within_def)
  have step: "yields (bnd (finalizeNoToolStep sys inp en fr base assistant mc ?steps stop) (\<lambda>x. case x of
        EndStep current steps out err \<Rightarrow> ended_output sys inp k out err
      | RetryStep current steps \<Rightarrow>
          RunMessages fuel sys (next_input inp current (k_Usage k) (k_ContextUsage k) steps ?n) en)) Q"
    if "tf_toolCallsUsed fr = ?n" for fr base assistant mc stop
    by (rule yields_both [OF finalize_calls]) (auto split: step_end.splits simp: that intro: ended again)
  show ?thesis
    unfolding Q_def [symmetric]
    by (rule keepsI)
       (auto simp: resumeValidatingOutput_def Let_def split: if_splits option.splits dest!: keepsD(1) [OF step TrueI, rotated])
qed

lemma ended_continuation_within:
  assumes "counts_steps k"
  shows "yields (ended_output sys inp k (continuationOutput k) err) (resumed_within m (k_ToolCallsUsed k) (li_repairCount inp))"
  using counts_steps_account(1) [OF assms] by (intro ended_output_yields) (auto simp: calls_within_def)

text \<open>The input of a resumption starts with the account of its continuation.\<close>

definition carries :: "'x loop_input \<Rightarrow> continuation \<Rightarrow> bool" where
  "carries inp k \<longleftrightarrow> li_initialToolCallsUsed inp = k_ToolCallsUsed k \<and> li_initialSteps inp = k_Steps k"

lemma RunMessages_carried:
  assumes "counts_steps k" "0 \<le> li_repairCount inp" "carries inp k"
  shows "yields (RunMessages fuel sys inp en) (resumed_within (li_MaxToolCalls inp) (k_ToolCallsUsed k) (li_repairCount inp))"
  using counts_steps_account [OF assms(1)] assms(2,3) by (intro RunMessages_resumed) (simp_all add: carries_def)

lemma resumeToolsComplete_limits:
  assumes "counts_steps k" "0 \<le> li_repairCount inp" "carries inp k"
  shows "yields (resumeToolsComplete fuel sys en inp k)
    (resumed_within (li_MaxToolCalls inp) (k_ToolCallsUsed k) (li_repairCount inp))"
  unfolding resumeToolsComplete_def
  by (auto intro: RunMessages_carried [OF assms] ended_continuation_within [OF assms(1)]
      simp: keeps_def [of _ "\<lambda>w. (w, Panicked _)"] split: step_decision.split)

lemma resumeLoop_limits:
  assumes "counts_steps k" "0 \<le> li_repairCount inp" "carries inp k"
  shows "yields (resumeLoop fuel sys en inp k)
    (resumed_within (li_MaxToolCalls inp) (k_ToolCallsUsed k) (li_repairCount inp))"
  unfolding resumeLoop_def
  using RunMessages_carried [OF assms] ended_continuation_within [OF assms(1)] resumeModelComplete_limits [OF assms(1,2)]
    resumeToolsComplete_limits [OF assms] resumeValidatingOutput_limits [OF assms(1,2)]
  by (auto split: continuation_phase.split)

lemma conclude_resume_limits:
  assumes "resumed_within (li_MaxToolCalls inp) k n x" "0 \<le> k" "0 \<le> n" "n \<le> limit" "op_MaxRepairAttempts policy \<le> limit"
  shows "yields (conclude_resume fuel sys ag en inp policy b x) (result_within (li_MaxToolCalls inp) k limit)"
proof -
  have plain: "result_within (li_MaxToolCalls inp) k limit (Some (resultFromLoopOutput out (lo_RepairCount out)))"
    "result_within (li_MaxToolCalls inp) k limit (Some ((resultFromLoopOutput out (lo_RepairCount out))\<lparr>re_Failure := f\<rparr>))"
    if "x = Some (out, err)" for out err f
    using that assms by (auto simp: result_within_def calls_within_def)
  show ?thesis
    using assms(1,3) unfolding conclude_resume_def resultWithFailure_def Let_def
    by (auto intro!: yields_give yields_after validateAndRepair_limits plain assms(2,5) split: option.split prod.split)
qed

section \<open>Restoring a run\<close>

lemma resume_input_simps [simp]:
  "li_MaxToolCalls (resume_input ag k format sink now) = fst (snd (budgetLimits ag (k_Request k)))"
  "li_repairCount (resume_input ag k format sink now) = k_RepairCount k"
  "li_initialToolCallsUsed (resume_input ag k format sink now) = k_ToolCallsUsed k"
  "li_Messages (resume_input ag k format sink now) = k_Messages k"
  "li_OperationTurn (resume_input ag k format sink now) = k_NextOperationTurn k"
  "li_initialUsage (resume_input ag k format sink now) = k_Usage k"
  "li_initialContextUsage (resume_input ag k format sink now) = k_ContextUsage k"
  "li_initialSteps (resume_input ag k format sink now) = k_Steps k"
  "li_activeElapsed (resume_input ag k format sink now) = k_ActiveElapsed k"
  "li_continuationRequest (resume_input ag k format sink now) = k_Request k"
  "li_continuationPolicy (resume_input ag k format sink now) = k_OutputPolicy k"
  "li_segmentStarted (resume_input ag k format sink now) = Some now"
  by (simp_all add: resume_input_def new_input_def split: prod.split)

lemma continuationResult_within:
  assumes "counts_steps k" "k_RepairCount k \<le> limit"
  shows "result_within m (k_ToolCallsUsed k) limit (Some ((continuationResult k)\<lparr>re_Failure := f\<rparr>))"
  using counts_steps_account(1) [OF assms(1)] assms(2) by (simp add: result_within_def continuationResult_def)

lemma resume_started_limits:
  assumes "counts_steps k" "0 \<le> k_RepairCount k" "k_RepairCount k \<le> limit" "op_MaxRepairAttempts (k_OutputPolicy k) \<le> limit"
  shows "yields (resume_started fuel sys ag k format sink now b)
    (result_within (fst (snd (budgetLimits ag (k_Request k)))) (k_ToolCallsUsed k) limit)"
proof -
  let ?m = "fst (snd (budgetLimits ag (k_Request k)))" and ?n = "k_ToolCallsUsed k"
  have failed: "yields (resultWithFailure sys ag (continuationResult k) e b) (result_within ?m ?n limit)" for e
    unfolding resultWithFailure_def
    by (auto intro!: yields_after yields_give continuationResult_within assms)
  let ?inp = "resume_input ag k format sink now"
  have loop: "yields (resumeLoop fuel sys en ?inp k) (resumed_within ?m ?n (k_RepairCount k))" for en
    using resumeLoop_limits [OF assms(1), of ?inp fuel sys en] assms(2) by (simp add: carries_def)
  have conclude: "yields (conclude_resume fuel sys ag en ?inp (k_OutputPolicy k) b x) (result_within ?m ?n limit)"
    if "resumed_within ?m ?n (k_RepairCount k) x" for en x
    using conclude_resume_limits [of ?inp ?n "k_RepairCount k" x limit "k_OutputPolicy k"] that assms
      counts_steps_account(3) [OF assms(1)] by simp
  show ?thesis
    unfolding resume_started_def Let_def
    by (auto intro!: yields_after failed yields_both [OF loop] conclude split: sum.split option.split)
qed

lemma accepted_counts:
  assumes "ValidateContinuation jv k = None"
  shows "0 \<le> k_RepairCount k \<and> 0 \<le> k_ToolCallsUsed k \<and> 0 \<le> op_MaxRepairAttempts (k_OutputPolicy k)"
  using assms
  by (auto simp: ValidateContinuation_def validateContinuationScalars_def validateContinuationOutputPolicy_def
      split: if_splits option.splits sum.splits)

lemma Engine_resume_limits:
  assumes "ValidateContinuation (sy_json_valid sys) k = None"
  shows "yields (Engine_resume fuel sys ag k sink)
    (result_within (fst (snd (budgetLimits ag (k_Request k)))) (k_ToolCallsUsed k)
      (max 0 (max (k_RepairCount k) (op_MaxRepairAttempts (k_OutputPolicy k)))))"
proof -
  let ?k = "(currentContinuation k)\<lparr>k_Request := default_request ag (k_Request (currentContinuation k))\<rparr>"
  let ?m = "fst (snd (budgetLimits ag (k_Request k)))" and ?n = "k_ToolCallsUsed k"
  let ?p = "max 0 (max (k_RepairCount k) (op_MaxRepairAttempts (k_OutputPolicy k)))"
  have same: "fst (snd (budgetLimits ag (k_Request ?k))) = ?m" "k_ToolCallsUsed ?k = k_ToolCallsUsed k"
    "k_RepairCount ?k = k_RepairCount k" "k_OutputPolicy ?k = k_OutputPolicy k" "counts_steps ?k = counts_steps k"
    by (simp_all add: currentContinuation_def counts_steps_def)
  have counts: "counts_steps ?k"
    using accepted_counts_steps [OF assms] by (simp only: same)
  have started: "yields (resume_started fuel sys ag ?k format sink now b) (result_within ?m ?n ?p)" for format now b
    using resume_started_limits [OF counts, of ?p fuel sys ag format sink now b] accepted_counts [OF assms]
    by (simp only: same)
  have failed: "result_within ?m ?n ?p (Some ((continuationResult ?k)\<lparr>re_Failure := f\<rparr>))" for f
    using continuationResult_within [OF counts, of ?p ?m f] by (simp only: same)
  show ?thesis
    using assms started failed unfolding Engine_resume_def resultWithFailure_def Let_def
    by (auto intro!: yields_give yields_after yields_deferring split: sum.split option.split)
qed

lemma next_turn_calls_le:
  assumes "\<forall>c \<in> set calls. \<forall>t i. scan_operation_id (tc_OperationID c) = Some (t, i) \<longrightarrow> t < limit"
    and "0 \<le> n" "n \<le> limit" "int64 limit"
  shows "0 \<le> next_turn_calls n calls \<and> next_turn_calls n calls \<le> limit"
  using assms
proof (induction calls arbitrary: n)
  case (Cons c cs)
  then have "wrap64 (t + 1) = t + 1" if "scan_operation_id (tc_OperationID c) = Some (t, i)" "n \<le> t" for t i
    using that by (intro wrap64_id) (fastforce simp: int64_def min_int_def)
  then show ?case
    using Cons by (fastforce split: option.split)
qed simp

lemma next_turn_from_le:
  assumes "\<forall>m \<in> set ms. turns_below (limit - 1) m" "0 \<le> n" "n \<le> limit" "int64 limit"
  shows "next_turn_from n ms \<le> limit"
  using assms
proof (induction ms arbitrary: n)
  case (Cons m ms)
  have "0 \<le> next_turn_calls n (m_ToolCalls m) \<and> next_turn_calls n (m_ToolCalls m) \<le> limit"
    using Cons.prems by (intro next_turn_calls_le) (fastforce simp: turns_below_def)+
  then show ?case
    using Cons by simp
qed simp

text \<open>The next operation turn of an accepted continuation is past every one of its transcript.\<close>

lemma accepted_next_turn:
  assumes "ValidateContinuation jv k = None" "\<forall>m \<in> set (k_Messages k). m_ToolCalls m \<noteq> [] \<longrightarrow> m_Role m = RoleAssistant"
    and "int64 (k_NextOperationTurn k)"
  shows "nextToolOperationTurn (k_Messages k) \<le> k_NextOperationTurn k"
proof -
  obtain a completed cumulative where a: "analyzeTranscript (k_Messages k) = Inr a"
    "validateContinuationTotals k a completed cumulative = None" "0 \<le> k_NextOperationTurn k"
    using assms(1) by (auto simp: ValidateContinuation_def validateContinuationScalars_def split: if_splits option.splits sum.splits)
  then have "list_all (turns_below (k_NextOperationTurn k - 1)) (filter is_assistant (k_Messages k))"
    using analyze_loop_max [OF a(1) [unfolded analyzeTranscript_def]] turns_below_mono
    by (fastforce simp: validateContinuationTotals_def list_all_iff split: if_splits)
  then have "\<forall>m \<in> set (k_Messages k). turns_below (k_NextOperationTurn k - 1) m"
    using assms(2) turns_below_no_calls by (auto simp: list_all_iff is_assistant_def)
  then show ?thesis
    using a(3) assms(3) by (simp add: nextToolOperationTurn_def next_turn_from_le)
qed

lemma number_calls_again [simp]: "number_calls turn (number_calls turn calls) = number_calls turn calls"
  by (rule nth_equalityI) (simp_all add: number_calls_def nth_enumerate_eq)

lemma runToolStep_numbered:
  "runToolStep sys inp en (a\<lparr>m_ToolCalls := number_calls turn (m_ToolCalls a)\<rparr>) mc iteration turn =
     runToolStep sys inp en a mc iteration turn"
  by (simp add: runToolStep_def)


lemma run_input_start:
  "start_run (run_input t inp) = start_run inp" "li_repairCount (run_input t inp) = li_repairCount inp"
  "li_activeElapsed (run_input t inp) = li_activeElapsed inp"
  by (simp_all add: fun_eq_iff start_run_def run_input_def normalizeIterationPolicy_def)

section \<open>Samples\<close>

definition sample_run :: "tape world \<Rightarrow> tape run" where
  "sample_run w = \<lparr>rn_world = w, rn_operationTurn = 5, rn_overlap = None, rn_current = sample_turn_messages,
     rn_usage = sample_call_usage, rn_contextUsage = zero_usage, rn_steps = k_Steps sample_continuation,
     rn_lastModelCall = None, rn_recorded = True, rn_turnsRun = 1, rn_toolCallsUsed = 1,
     rn_observed = True\<rparr>"

definition sample_input :: "tape loop_input" where
  "sample_input = tape_input\<lparr>li_continuationRequest := k_Request sample_continuation,
     li_continuationPolicy := k_OutputPolicy sample_continuation\<rparr>"

lemma sample_boundary:
  "boundary_continuation tape_system sample_input (frame_of 0 (sample_run w)) (rn_current (sample_run w))
     (rn_steps (sample_run w)) ContinuationToolsComplete w = sample_continuation"
  by (simp add: boundary_continuation_def sample_run_def sample_input_def frame_of_def sample_continuation_def
      ContinuationSchemaVersion_def since_start_def tape_input_def tape_system_def)

text \<open>
  A tool turn of two calls of which one is answered, at the phase after the model turn.
\<close>

definition partly_answered :: continuation where
  "partly_answered = sample_continuation\<lparr>
     k_Messages := [zero_message\<lparr>m_Role := RoleUser, m_Text := ''go''\<rparr>,
       zero_message\<lparr>m_Role := RoleAssistant, m_ToolCalls :=
         [\<lparr>tc_ID = ''a'', tc_Name = ''echo'', tc_Arguments = [], tc_OperationID = ''turn:4:call:0''\<rparr>,
          \<lparr>tc_ID = ''b'', tc_Name = ''echo'', tc_Arguments = [], tc_OperationID = ''turn:4:call:1''\<rparr>]\<rparr>,
       zero_message\<lparr>m_Role := RoleTool, m_ToolResult :=
         Some \<lparr>tr_ToolCallID = ''a'', tr_Name = ''echo'', tr_Content = ''ok'', tr_Parts = [],
               tr_Structured = [], tr_IsError = False\<rparr>\<rparr>],
     k_Steps := [(hd (k_Steps sample_continuation))\<lparr>st_ToolCalls := [],
       st_BudgetUsed := \<lparr>bu_Tokens = 3, bu_ToolCalls = 0, bu_WallClock = 0\<rparr>\<rparr>],
     k_ToolCallsUsed := 0, k_Phase := ContinuationModelComplete\<rparr>"

definition partly_answered_scan :: transcript_analysis where
  "partly_answered_scan = \<lparr>ta_pending = True, ta_endsWithToolResults = True,
     ta_pendingCalls = m_ToolCalls (k_Messages partly_answered ! 1), ta_assistantIndices = [1], ta_maxOperationTurn = 4\<rparr>"

lemma partly_answered_transcript: "analyzeTranscript (k_Messages partly_answered) = Inr partly_answered_scan"
  by code_simp

lemma partly_answered_valid: "ValidateContinuation (\<lambda>_. True) partly_answered = None"
proof -
  have "Request_Validate (k_Request partly_answered) = None"
    "validateContinuationScalars (\<lambda>_. True) partly_answered = None"
    "validateContinuationPhaseTranscript partly_answered partly_answered_scan = None"
    "validateContinuationSteps partly_answered partly_answered_scan = Inr (0, sample_call_usage)"
    "validateContinuationTotals partly_answered partly_answered_scan 0 sample_call_usage = None"
    "validateContinuationPhaseSteps partly_answered partly_answered_scan = None"
    "k_SchemaVersion partly_answered = ContinuationSchemaVersion" "k_SchemaVersion partly_answered \<noteq> 1"
    by code_simp+
  then show ?thesis
    using partly_answered_transcript by (simp add: ValidateContinuation_def)
qed


text \<open>An agent without skills, store, handle and deadline: a resumption up to its loop.\<close>

definition tape_loop ::
  "nat \<Rightarrow> continuation \<Rightarrow> tape frame_sink option \<Rightarrow> (tape world, result option) act" where
  "tape_loop fuel k sink = (let inp = resume_input tape_agent k None sink 0 in
     bnd (resumeLoop fuel tape_system tape_engine inp k)
       (conclude_resume fuel tape_system tape_agent tape_engine inp (k_OutputPolicy k) False))"

lemma tape_started:
  "resume_started fuel tape_system tape_agent k None sink 0 False (tape_world events) = tape_loop fuel k sink (tape_world events)"
proof -
  have "attach_skills tape_system tape_agent (tape_world events) =
      (tape_world events, Returned (Inr (tape_engine, [])))"
    by (simp add: attach_skills_def skill_attach_def tape_agent_def newSkillRuntime_def availableSkills_def
        hasResources_def seed_active_def Let_def bnd_def tape_engine_def)
  moreover have "attach_store tape_system tape_engine = Inr tape_engine"
    by (simp add: attach_store_def tape_engine_def)
  moreover have "restore_skills tape_agent ms w = (w, Returned ())" for ms w
    by (simp add: restore_skills_def tape_agent_def alter_def)
  moreover have "sy_others tape_system w = w" "ctx_err (ag_Control tape_agent) (tape_world events) = None" for w
    by (simp_all add: tape_system_def tape_agent_def ctx_err_def tape_world_def)
  ultimately show ?thesis
    by (simp add: resume_started_def tape_loop_def bnd_def Let_def)
qed

lemma tape_resume:
  assumes "ValidateContinuation (sy_json_valid tape_system) k = None"
    and "now = (currentContinuation k)\<lparr>k_Request := default_request tape_agent (k_Request (currentContinuation k))\<rparr>"
    and "Request_Validate (k_Request now) = None" "maxWallClock tape_agent (k_Request now) \<le> 0"
    and "prepareOutputPolicy (sy_json tape_system) (k_OutputPolicy now) = Inr None"
    and "tape_loop fuel now sink (tape_world events) = (w, x)"
  shows "\<exists>w'. Engine_resume fuel tape_system tape_agent k sink (tape_world events) = (w', x)"
proof -
  have "start_execution tape_system tape_agent w = (w, Returned None)" "sy_now tape_system w = 0" for w
    by (simp_all add: start_execution_def bnd_def alter_def tape_system_def tape_agent_def on_control_def)
  moreover have "runContextWithElapsed tape_system tape_agent (k_Request now) t = give False" for t
    using assms(4) by (simp add: runContextWithElapsed_def)
  ultimately show ?thesis
    using assms(1,3,5,6)
    by (simp only: Engine_resume_def Let_def assms(2) [symmetric] option.case sum.case)
       (simp add: bnd_def deferring_def tape_started)
qed

definition partly_answered_now :: continuation where
  "partly_answered_now = (currentContinuation partly_answered)
     \<lparr>k_Request := default_request tape_agent (k_Request (currentContinuation partly_answered))\<rparr>"

lemma partly_answered_accepted:
  "Request_Validate (k_Request partly_answered_now) = None"
  "maxWallClock tape_agent (k_Request partly_answered_now) \<le> 0"
  "prepareOutputPolicy (sy_json tape_system) (k_OutputPolicy partly_answered_now) = Inr None"
  by code_simp+

lemma partly_answered_loop:
  "tape_loop fuel partly_answered_now sink w = (w, Panicked index_panic)"
proof -
  have "resumeLoop fuel tape_system en inp partly_answered_now w = (w, Panicked index_panic)" for en inp
    by (simp add: resumeLoop_def resumeModelComplete_def partly_answered_now_def currentContinuation_def
        partly_answered_def zero_message_def sample_continuation_def)
  then show ?thesis
    by (simp add: tape_loop_def bnd_def Let_def)
qed

text \<open>
  A continuation after one tool call, under a limit of three: the resumed execution goes on with the
  next model turn.
\<close>

definition continuing :: continuation where
  "continuing = sample_continuation\<lparr>k_Request := tape_request\<rparr>"

definition continuing_now :: continuation where
  "continuing_now = (currentContinuation continuing)
     \<lparr>k_Request := default_request tape_agent (k_Request (currentContinuation continuing))\<rparr>"

lemma continuing_accepted:
  "ValidateContinuation (sy_json_valid tape_system) continuing = None"
  "Request_Validate (k_Request continuing_now) = None"
  "maxWallClock tape_agent (k_Request continuing_now) \<le> 0"
  "prepareOutputPolicy (sy_json tape_system) (k_OutputPolicy continuing_now) = Inr None"
  by code_simp+

lemma continuing_resumes:
  "resumeLoop fuel sys en inp continuing_now = RunMessages fuel sys inp en"
  by (simp add: resumeLoop_def resumeToolsComplete_def continuing_now_def currentContinuation_def continuing_def
      sample_continuation_def)

lemma continuing_loop: "\<exists>w' r. tape_loop 2 continuing_now None (tape_world events) = (w', Returned (Some r))"
proof -
  let ?inp = "resume_input tape_agent continuing_now None None 0"
  have "\<not> li_Control ?inp" "\<not> li_UnlimitedIterations ?inp" "nat (li_MaxIterations (normalizeIterationPolicy ?inp)) \<le> 2"
    by (simp_all add: resume_input_def normalizeIterationPolicy_def tape_agent_def tape_policy_def)
  then obtain w' out err where "RunMessages 2 tape_system ?inp tape_engine (tape_world events) = (w', Returned (Some (out, err)))"
    using RunMessages_enough by blast
  moreover have "\<not> op_Validate (k_OutputPolicy continuing_now)"
    by (simp add: continuing_now_def currentContinuation_def continuing_def sample_continuation_def)
  ultimately show ?thesis
    by (cases err) (simp_all add: tape_loop_def continuing_resumes bnd_def conclude_resume_def
        resultWithFailure_def loopErrorFailure_def alter_def peek_def Let_def)
qed

text \<open>A run before the tool step of its first turn, and the boundary after the model answered.\<close>

definition asking_run :: "tape world \<Rightarrow> tape run" where
  "asking_run w = (sample_run w)\<lparr>rn_current := [NewText RoleUser ''go''], rn_steps := [], rn_toolCallsUsed := 0\<rparr>"

definition asking_turn :: message where
  "asking_turn = zero_message\<lparr>m_Role := RoleAssistant,
     m_ToolCalls := [\<lparr>tc_ID = ''a'', tc_Name = ''echo'', tc_Arguments = [], tc_OperationID = []\<rparr>]\<rparr>"

definition asking_call :: model_call where
  "asking_call = \<lparr>mc_Provider = ''p'', mc_Model = ''m'', mc_Usage = sample_call_usage, mc_StopReason = StopReasonToolUse\<rparr>"

definition asking_step :: step where
  "asking_step = new_step (frame_of 0 (asking_run (tape_world []))) asking_call StepDecisionContinue"

definition asking_boundary :: continuation where
  "asking_boundary = boundary_continuation tape_system sample_input (frame_of 0 (asking_run (tape_world [])))
     (rn_current (asking_run (tape_world [])) @ [asking_turn\<lparr>m_ToolCalls := number_calls 4 (m_ToolCalls asking_turn)\<rparr>])
     (rn_steps (asking_run (tape_world [])) @ [asking_step]) ContinuationModelComplete (tape_world [])"

section \<open>Properties\<close>

text \<open>
  C26.  A run started again from the continuation of a boundary starts in the state the boundary was
  in: the transcript, both usages, the steps, the counters, the turn of the next operation ids, the
  repairs and the elapsed time are those of the interrupted run.
\<close>

theorem resumed_run_restores_state:
  assumes "k = boundary_continuation sys inp (frame_of iteration r) (rn_current r) (rn_steps r) phase w"
    and "ValidateContinuation (sy_json_valid sys) k = None"
    and "\<forall>m \<in> set (rn_current r). m_ToolCalls m \<noteq> [] \<longrightarrow> m_Role m = RoleAssistant" "int64 (rn_operationTurn r)"
  shows "start_run (run_input t (resume_input ag k format sink now)) w' =
      r\<lparr>rn_world := w'\<lparr>w_summaries := []\<rparr>, rn_overlap := None, rn_lastModelCall := None, rn_recorded := False,
        rn_turnsRun := int (length (rn_steps r)), rn_observed := True\<rparr> \<and>
    li_repairCount (run_input t (resume_input ag k format sink now)) = li_repairCount inp \<and>
    li_activeElapsed (run_input t (resume_input ag k format sink now)) = li_activeElapsed inp + since_start sys inp w"
proof -
  have k: "k_Messages k = rn_current r" "k_NextOperationTurn k = rn_operationTurn r" "k_Usage k = rn_usage r"
    "k_ContextUsage k = rn_contextUsage r" "k_Steps k = rn_steps r" "k_ToolCallsUsed k = rn_toolCallsUsed r"
    "k_RepairCount k = li_repairCount inp" "k_ActiveElapsed k = li_activeElapsed inp + since_start sys inp w"
    by (simp_all add: assms(1) boundary_continuation_def frame_of_def)
  have "nextToolOperationTurn (rn_current r) \<le> rn_operationTurn r"
    using accepted_next_turn [OF assms(2)] assms(3,4) by (simp add: k)
  then show ?thesis
    by (simp add: run_input_start start_run_def k max_absorb1)
qed

theorem resumed_run_restores_state_witness:
  "start_run (run_input 0 (resume_input tape_agent sample_continuation None None 0)) (tape_world []) =
     (sample_run (tape_world []))\<lparr>rn_recorded := False\<rparr>"
proof -
  have "rn_current (sample_run (tape_world [])) = sample_turn_messages"
    "int64 (rn_operationTurn (sample_run (tape_world [])))"
    by (simp_all add: sample_run_def int64_def min_int_def max_int_def)
  moreover have "\<forall>m \<in> set sample_turn_messages. m_ToolCalls m \<noteq> [] \<longrightarrow> m_Role m = RoleAssistant"
    by (simp add: sample_turn_messages_def zero_message_def)
  moreover have "ValidateContinuation (sy_json_valid tape_system) sample_continuation = None"
    using sample_continuation_valid by (simp add: tape_system_def)
  moreover have "(tape_world [])\<lparr>w_summaries := []\<rparr> = tape_world []"
    by (simp add: tape_world_def)
  ultimately show ?thesis
    using resumed_run_restores_state [OF sample_boundary [of "tape_world []", symmetric], of 0 tape_agent None None 0 "tape_world []"]
    by (simp add: sample_run_def sample_continuation_def)
qed

text \<open>
  C27.  The tool step of a turn interrupted after the model answered is taken up as it was begun: the
  same assistant turn, with the same operation ids, the same model call and the same counters.
\<close>

theorem pending_tool_step_is_taken_up:
  assumes "k = boundary_continuation sys inp (frame_of iteration r) (rn_current r @ [a\<lparr>m_ToolCalls := number_calls turn (m_ToolCalls a)\<rparr>])
      (rn_steps r @ [s]) ContinuationModelComplete w"
    and "m_ToolCalls a \<noteq> []" "0 \<le> turn" "int64 turn" "st_ModelCall s = Some mc" "st_Index s = iteration"
  shows "resumeModelComplete fuel sys' en (resume_input ag k format sink now) k w' =
    after_tool_step fuel sys' (resume_input ag k format sink now) en
      (runToolStep sys' (resume_input ag k format sink now) en a mc iteration turn
        (r\<lparr>rn_world := w', rn_overlap := None, rn_lastModelCall := None, rn_recorded := False,
           rn_turnsRun := int (length (rn_steps r)) + 1, rn_observed := False\<rparr>))"
proof -
  let ?a = "a\<lparr>m_ToolCalls := number_calls turn (m_ToolCalls a)\<rparr>"
  obtain c cs where calls: "m_ToolCalls a = c # cs"
    using assms(2) by (cases "m_ToolCalls a") auto
  have scan: "scan_operation_id (operation_id turn 0) = Some (turn, 0)"
    using assms(3,4) by (intro scan_operation_id_roundtrip) (simp_all add: int64_def min_int_def max_int_def)
  have k: "k_Messages k = rn_current r @ [?a]" "k_Steps k = rn_steps r @ [s]"
    by (simp_all add: assms(1) boundary_continuation_def)
  have state: "resumed_state (resume_input ag k format sink now) k w' =
      r\<lparr>rn_world := w', rn_overlap := None, rn_lastModelCall := None, rn_recorded := False,
        rn_turnsRun := int (length (rn_steps r)) + 1, rn_observed := False\<rparr>"
    unfolding resumed_state_def resume_input_simps
    by (simp add: assms(1) boundary_continuation_def frame_of_def)
  have "resumeModelComplete fuel sys' en (resume_input ag k format sink now) k w' =
      after_tool_step fuel sys' (resume_input ag k format sink now) en
        (runToolStep sys' (resume_input ag k format sink now) en ?a mc iteration turn (resumed_state (resume_input ag k format sink now) k w'))"
    by (simp add: resumeModelComplete_def k calls number_calls_def scan assms(5,6))
  then show ?thesis
    by (simp only: runToolStep_numbered state)
qed


theorem pending_tool_step_is_taken_up_witness:
  "resumeModelComplete 3 tape_system tape_engine (resume_input tape_agent asking_boundary None None 0) asking_boundary (tape_world []) =
    after_tool_step 3 tape_system (resume_input tape_agent asking_boundary None None 0) tape_engine
      (runToolStep tape_system (resume_input tape_agent asking_boundary None None 0) tape_engine asking_turn asking_call 0 4
        ((asking_run (tape_world []))\<lparr>rn_recorded := False, rn_observed := False\<rparr>))"
proof -
  have "(asking_run (tape_world []))\<lparr>rn_world := tape_world [], rn_overlap := None, rn_lastModelCall := None, rn_recorded := False,
      rn_turnsRun := int (length (rn_steps (asking_run (tape_world [])))) + 1, rn_observed := False\<rparr> =
      (asking_run (tape_world []))\<lparr>rn_recorded := False, rn_observed := False\<rparr>"
    by (simp add: asking_run_def sample_run_def)
  moreover have "m_ToolCalls asking_turn \<noteq> []" "int64 4" "st_ModelCall asking_step = Some asking_call" "st_Index asking_step = 0"
    by (simp_all add: asking_turn_def asking_step_def new_step_def frame_of_def int64_def min_int_def max_int_def)
  ultimately show ?thesis
    using pending_tool_step_is_taken_up [OF asking_boundary_def, of asking_call 3 tape_system tape_engine tape_agent None None 0 "tape_world []"]
    by simp
qed

text \<open>
  C29.  A continuation that \<open>ValidateContinuation\<close> accepts, of a tool turn with one of two calls
  answered, makes \<open>resume\<close> panic: it takes the first tool call of the last message, a tool result.
\<close>

theorem partly_answered_turn_panics:
  "ValidateContinuation (sy_json_valid tape_system) partly_answered = None \<and>
   (\<exists>w'. Engine_resume fuel tape_system tape_agent partly_answered sink (tape_world events) = (w', Panicked index_panic))"
proof -
  have valid: "ValidateContinuation (sy_json_valid tape_system) partly_answered = None"
    using partly_answered_valid by (simp add: tape_system_def)
  then show ?thesis
    using tape_resume [OF valid partly_answered_now_def partly_answered_accepted partly_answered_loop] by blast
qed

text \<open>
  Structured output of a resumed execution: its result reports a failure, or the policy of the
  continuation asked for no validation, or the text is a JSON document of the policy's schema.
\<close>

theorem resumed_output_conforms:
  "case Engine_resume fuel sys ag k sink w of
     (w', Returned (Some r)) \<Rightarrow>
       (\<exists>failure. re_Failure r = Some failure) \<or> op_Validate (k_OutputPolicy k) = False \<or> op_Schema (k_OutputPolicy k) = [] \<or>
       (\<exists>schema v. parseOutputPolicySchema (sy_json sys) (op_Schema (k_OutputPolicy k)) = Inr schema \<and>
          jr_decode (sy_json sys) (re_Text r) = Inr v \<and> conforms (sy_json sys) schema v \<and>
          re_Structured r = re_Text r \<and> re_Valid r)
   | _ \<Rightarrow> True"
  using keepsD(1) [OF Engine_resume_checked TrueI]
  by (fastforce simp: checked_def conforming_def split: prod.split outcome.split option.splits)

text \<open>
  C28.  The budget of a request covers an execution and its resumptions: the result of a resumed
  execution counts at least the calls recorded in its steps, those of the continuation included, and
  its counter stays within a positive tool-call limit, unless the continuation itself was over it.
  The repairs stay within the policy, or at the number the continuation came with.
\<close>

theorem resumed_execution_respects_limits:
  assumes "Engine_resume fuel sys ag k sink w = (w', Returned (Some r))"
  shows "int (recorded_calls (re_Steps r)) \<le> re_ToolCallsUsed r \<and>
    (fst (snd (budgetLimits ag (k_Request k))) \<le> 0 \<or>
       re_ToolCallsUsed r \<le> max (fst (snd (budgetLimits ag (k_Request k)))) (k_ToolCallsUsed k)) \<and>
    re_RepairCount r \<le> max 0 (max (k_RepairCount k) (op_MaxRepairAttempts (k_OutputPolicy k)))"
proof (cases "ValidateContinuation (sy_json_valid sys) k")
  case None
  then show ?thesis
    using keepsD(1) [OF Engine_resume_limits [OF None] TrueI assms(1)]
    by (auto simp: result_within_def accounted_def)
next
  case (Some e)
  then show ?thesis
    using assms by (auto simp: Engine_resume_def failure_only_def zero_run_result_def)
qed

theorem resumed_execution_respects_limits_witness:
  "\<exists>w' r. Engine_resume 2 tape_system tape_agent continuing None (tape_world early_events) = (w', Returned (Some r)) \<and>
     int (recorded_calls (re_Steps r)) \<le> re_ToolCallsUsed r \<and> re_ToolCallsUsed r \<le> 3 \<and> re_RepairCount r \<le> 0"
proof -
  obtain w1 r where "tape_loop 2 continuing_now None (tape_world early_events) = (w1, Returned (Some r))"
    using continuing_loop by blast
  then obtain w' where run: "Engine_resume 2 tape_system tape_agent continuing None (tape_world early_events) = (w', Returned (Some r))"
    using tape_resume [OF continuing_accepted(1) continuing_now_def continuing_accepted(2-4)] by blast
  have "fst (snd (budgetLimits tape_agent (k_Request continuing))) = 3" "k_ToolCallsUsed continuing = 1"
    "k_RepairCount continuing = 0" "op_MaxRepairAttempts (k_OutputPolicy continuing) = 0"
    by (simp_all add: budgetLimits_def run_budget_def tape_request_def continuing_def sample_continuation_def
        split: option.split)
  then show ?thesis
    using run resumed_execution_respects_limits [OF run] by auto
qed

end
