(* ===== verification/Routing.thy ===== *)
theory Routing
  imports Loop
begin

text \<open>
  Choosing a provider: \<open>src/provider/resolver.go\<close> and \<open>src/provider/failover.go\<close>.  A driver is its
  metadata and the action that opens a stream; the context of an opening is the function that
  reads its error.  A nil driver is \<open>None\<close>, and a driver that returns neither a stream nor an error
  is not represented.  The lemmas show which driver a registry gives for a model, that a failover
  opens its drivers in order and stops at the first stream, and what its error contains.
\<close>

section \<open>Drivers\<close>

text \<open>\<open>Metadata()\<close> is read more than once by the code and is taken as constant.\<close>

record 'x provider_driver =
  pd_Name :: bytes
  pd_Models :: "bytes list"
  pd_Version :: bytes
  pd_Stream :: "provider_request \<Rightarrow> ('x world, go_err + 'x stream) act"

type_synonym 'x ctx = "'x world \<Rightarrow> go_err option"

definition identifyStream :: "stream_identity \<Rightarrow> 'x stream \<Rightarrow> 'x world \<Rightarrow> 'x stream" where
  "identifyStream identity sm w =
     (if (case sm_Identity sm of None \<Rightarrow> False | Some current \<Rightarrow>
            si_Provider (current w) \<noteq> [] \<or> si_Model (current w) \<noteq> [])
        then sm else sm\<lparr>sm_Identity := Some (\<lambda>_. identity)\<rparr>)"

section \<open>Failover\<close>

definition failed_driver :: "'x provider_driver \<Rightarrow> go_err \<Rightarrow> go_err" where
  "failed_driver d e = wrap_err (pd_Name d) e"

definition every_failed :: "go_err list \<Rightarrow> go_err" where
  "every_failed errs = (case errors_join (map Some errs) of
       None \<Rightarrow> new_err ''provider: fallback chain holds no drivers''
     | Some e \<Rightarrow> wrap_err ''provider: every fallback driver failed'' e)"

text \<open>The loop of \<open>fallbackDriver.Stream\<close> over the drivers that are not nil; \<open>errs\<close> are the errors so far.\<close>

fun fallback_loop ::
  "'x ctx \<Rightarrow> provider_request \<Rightarrow> go_err list \<Rightarrow> 'x provider_driver option list
     \<Rightarrow> ('x world, go_err + 'x stream) act" where
  "fallback_loop ctx request errs [] = give (Inl (every_failed errs))"
| "fallback_loop ctx request errs (None # drivers) = fallback_loop ctx request errs drivers"
| "fallback_loop ctx request errs (Some d # drivers) =
     bnd (peek ctx) (\<lambda>ended. case ended of
         Some e \<Rightarrow> give (Inl (every_failed (errs @ [e])))
       | None \<Rightarrow> bnd (pd_Stream d request) (\<lambda>x. case x of
           Inr sm \<Rightarrow> peek (\<lambda>w. Inr (identifyStream \<lparr>si_Provider = pd_Name d, si_Model = rq_Model request\<rparr> sm w))
         | Inl e \<Rightarrow> fallback_loop ctx request (errs @ [failed_driver d e]) drivers))"

definition fallbackDriver_Stream ::
  "'x ctx \<Rightarrow> 'x provider_driver option list \<Rightarrow> provider_request \<Rightarrow> ('x world, go_err + 'x stream) act" where
  "fallbackDriver_Stream ctx drivers request = fallback_loop ctx request [] drivers"

fun first_driver :: "'x provider_driver option list \<Rightarrow> 'x provider_driver option" where
  "first_driver [] = None"
| "first_driver (None # ds) = first_driver ds"
| "first_driver (Some d # ds) = Some d"

text \<open>\<open>Fallback\<close> with the metadata of its first driver.\<close>

definition Fallback ::
  "'x ctx \<Rightarrow> 'x provider_driver option \<Rightarrow> 'x provider_driver option list \<Rightarrow> 'x provider_driver" where
  "Fallback ctx primary fallbacks = (case first_driver (primary # fallbacks) of
       None \<Rightarrow> \<lparr>pd_Name = [], pd_Models = [], pd_Version = [],
         pd_Stream = fallbackDriver_Stream ctx (primary # fallbacks)\<rparr>
     | Some d \<Rightarrow> d\<lparr>pd_Stream := fallbackDriver_Stream ctx (primary # fallbacks)\<rparr>)"

definition modelFallback_Stream ::
  "'x ctx \<Rightarrow> 'x provider_driver option \<Rightarrow> 'x provider_driver option \<Rightarrow> bytes \<Rightarrow> provider_request
     \<Rightarrow> ('x world, go_err + 'x stream) act" where
  "modelFallback_Stream ctx primary fallback fallbackModel request = (case (primary, fallback) of
       (Some p, Some f) \<Rightarrow>
         if fallbackModel = [] then give (Inl (new_err ''provider: model fallback is incomplete''))
         else bnd (pd_Stream p request) (\<lambda>x. case x of
             Inr sm \<Rightarrow> peek (\<lambda>w. Inr (identifyStream \<lparr>si_Provider = pd_Name p, si_Model = rq_Model request\<rparr> sm w))
           | Inl primaryErr \<Rightarrow> bnd (peek ctx) (\<lambda>ended. case ended of
               Some e \<Rightarrow> give (Inl (GoErr (ErrText []) [primaryErr, e]))
             | None \<Rightarrow> bnd (pd_Stream f (request\<lparr>rq_Model := fallbackModel\<rparr>)) (\<lambda>y. case y of
                 Inr sm \<Rightarrow> peek (\<lambda>w. Inr (identifyStream \<lparr>si_Provider = pd_Name f, si_Model = fallbackModel\<rparr> sm w))
               | Inl fallbackErr \<Rightarrow> give (Inl (wrap_err ''provider: primary model and fallback model failed''
                   (GoErr (ErrText []) [primaryErr, fallbackErr]))))))
     | _ \<Rightarrow> give (Inl (new_err ''provider: model fallback is incomplete'')))"

definition ModelFallback ::
  "'x ctx \<Rightarrow> 'x provider_driver option \<Rightarrow> 'x provider_driver option \<Rightarrow> bytes \<Rightarrow> 'x provider_driver" where
  "ModelFallback ctx primary fallback fallbackModel = (case primary of
       None \<Rightarrow> \<lparr>pd_Name = [], pd_Models = [], pd_Version = [],
         pd_Stream = modelFallback_Stream ctx primary fallback fallbackModel\<rparr>
     | Some p \<Rightarrow> p\<lparr>pd_Stream := modelFallback_Stream ctx primary fallback fallbackModel\<rparr>)"

section \<open>Resolvers\<close>

text \<open>\<open>rs_DriverFor\<close> is there for a \<open>NamedResolver\<close>.\<close>

record 'x resolver =
  rs_Driver :: "bytes \<Rightarrow> go_err + 'x provider_driver"
  rs_DriverFor :: "(bytes \<Rightarrow> bytes \<Rightarrow> go_err + 'x provider_driver) option"

definition no_driver :: "bytes \<Rightarrow> go_err" where
  "no_driver what = wrap_err what (sentinel ErrNoDriverForModel)"

definition Resolve_driver ::
  "'x resolver option \<Rightarrow> bytes \<Rightarrow> bytes \<Rightarrow> go_err + 'x provider_driver" where
  "Resolve_driver resolver providerName model = (case resolver of
       None \<Rightarrow> Inl (no_driver ''nil resolver'')
     | Some r \<Rightarrow>
         if providerName = [] then rs_Driver r model
         else (case rs_DriverFor r of
             Some driverFor \<Rightarrow> driverFor providerName model
           | None \<Rightarrow> (case rs_Driver r model of
                 Inl e \<Rightarrow> Inl e
               | Inr d \<Rightarrow> if pd_Name d \<noteq> providerName then Inl (no_driver providerName) else Inr d)))"

definition Single :: "'x provider_driver option \<Rightarrow> 'x resolver" where
  "Single driver = \<lparr>rs_Driver = (\<lambda>_. case driver of
       None \<Rightarrow> Inl (no_driver ''single resolver holds a nil driver'') | Some d \<Rightarrow> Inr d),
     rs_DriverFor = None\<rparr>"

record 'x provider_registry =
  pr_byModel :: "(bytes \<times> 'x provider_driver) list"
  pr_byProviderModel :: "(bytes \<times> 'x provider_driver) list"

definition providerModelKey :: "bytes \<Rightarrow> bytes \<Rightarrow> bytes" where
  "providerModelKey providerName model = providerName @ [CHR 0x00] @ model"

text \<open>The loop of \<open>Register\<close> over the models of a driver.\<close>

fun index_models ::
  "'x provider_driver \<Rightarrow> bytes list \<Rightarrow> 'x provider_registry \<Rightarrow> 'x provider_registry" where
  "index_models d [] r = r"
| "index_models d (model # models) r = index_models d models
     (r\<lparr>pr_byModel := AList.update model d (pr_byModel r),
        pr_byProviderModel := (if pd_Name d = [] then pr_byProviderModel r
          else AList.update (providerModelKey (pd_Name d) model) d (pr_byProviderModel r))\<rparr>)"

definition Register_provider ::
  "'x provider_driver option \<Rightarrow> 'x provider_registry \<Rightarrow> 'x provider_registry" where
  "Register_provider driver r = (case driver of None \<Rightarrow> r | Some d \<Rightarrow> index_models d (pd_Models d) r)"

definition NewRegistry :: "'x provider_driver option list \<Rightarrow> 'x provider_registry" where
  "NewRegistry drivers = fold Register_provider drivers \<lparr>pr_byModel = [], pr_byProviderModel = []\<rparr>"

definition Registry_Driver :: "'x provider_registry \<Rightarrow> bytes \<Rightarrow> go_err + 'x provider_driver" where
  "Registry_Driver r model = (case map_of (pr_byModel r) model of
     Some d \<Rightarrow> Inr d | None \<Rightarrow> Inl (no_driver model))"

definition Registry_DriverFor :: "'x provider_registry \<Rightarrow> bytes \<Rightarrow> bytes \<Rightarrow> go_err + 'x provider_driver" where
  "Registry_DriverFor r providerName model =
     (case map_of (pr_byProviderModel r) (providerModelKey providerName model) of
        Some d \<Rightarrow> Inr d | None \<Rightarrow> Inl (no_driver providerName))"

definition registry_resolver :: "'x provider_registry \<Rightarrow> 'x resolver" where
  "registry_resolver r = \<lparr>rs_Driver = Registry_Driver r, rs_DriverFor = Some (Registry_DriverFor r)\<rparr>"

section \<open>What a registry finds\<close>

lemma byModel_index [simp]:
  "map_of (pr_byModel (index_models d models r)) m = (if m \<in> set models then Some d else map_of (pr_byModel r) m)"
  by (induction models arbitrary: r) (auto simp: update_conv')

lemma byProviderModel_index [simp]:
  "map_of (pr_byProviderModel (index_models d models r)) k =
     (if pd_Name d \<noteq> [] \<and> k \<in> providerModelKey (pd_Name d) ` set models then Some d
      else map_of (pr_byProviderModel r) k)"
  by (induction models arbitrary: r) (auto simp: update_conv')

lemma providerModelKey_inj:
  assumes "CHR 0x00 \<notin> set p" "CHR 0x00 \<notin> set q"
  shows "providerModelKey p m = providerModelKey q n \<longleftrightarrow> p = q \<and> m = n"
proof
  assume eq: "providerModelKey p m = providerModelKey q n"
  have "takeWhile (\<lambda>c. c \<noteq> CHR 0x00) (providerModelKey p m) = p"
    "takeWhile (\<lambda>c. c \<noteq> CHR 0x00) (providerModelKey q n) = q"
    using assms unfolding providerModelKey_def by (subst takeWhile_append2; auto)+
  then show "p = q \<and> m = n"
    using eq by (auto simp: providerModelKey_def)
qed simp

text \<open>The drivers of a list that declare a model, and those among them of a provider.\<close>

definition serving :: "bytes \<Rightarrow> 'x provider_driver option list \<Rightarrow> 'x provider_driver list" where
  "serving model drivers = filter (\<lambda>d. model \<in> set (pd_Models d)) (present drivers)"

lemma serving_simps [simp]:
  "serving m [] = []" "serving m (None # ds) = serving m ds"
  "serving m (Some d # ds) = (if m \<in> set (pd_Models d) then [d] else []) @ serving m ds"
  by (simp_all add: serving_def)

definition last_of :: "'a list \<Rightarrow> 'a option" where
  "last_of xs = (if xs = [] then None else Some (last xs))"

lemma last_of_append: "last_of (xs @ ys) = (case last_of ys of None \<Rightarrow> last_of xs | Some y \<Rightarrow> Some y)"
  by (simp add: last_of_def)

lemma byModel_fold:
  "map_of (pr_byModel (fold Register_provider ds r)) m =
     (case last_of (serving m ds) of Some d \<Rightarrow> Some d | None \<Rightarrow> map_of (pr_byModel r) m)"
proof (induction ds arbitrary: r)
  case (Cons d ds)
  then show ?case
    by (cases d) (simp_all add: Register_provider_def last_of_append [of "[_]"] last_of_def)
qed (simp add: last_of_def)

lemma byProviderModel_fold:
  assumes "CHR 0x00 \<notin> set p" "p \<noteq> []" "\<forall>d \<in> set (present ds). CHR 0x00 \<notin> set (pd_Name d)"
  shows "map_of (pr_byProviderModel (fold Register_provider ds r)) (providerModelKey p m) =
     (case last_of (filter (\<lambda>d. pd_Name d = p) (serving m ds)) of
        Some d \<Rightarrow> Some d | None \<Rightarrow> map_of (pr_byProviderModel r) (providerModelKey p m))"
  using assms(3)
proof (induction ds arbitrary: r)
  case (Cons d ds)
  show ?case
  proof (cases d)
    case (Some e)
    have "providerModelKey p m \<in> providerModelKey (pd_Name e) ` set (pd_Models e) \<longleftrightarrow>
        pd_Name e = p \<and> m \<in> set (pd_Models e)"
      using Cons.prems Some providerModelKey_inj [OF assms(1), of "pd_Name e" m] by (auto simp: image_iff)
    then show ?thesis
      using Cons Some assms(2) by (auto simp: Register_provider_def last_of_append [of "[_]"] last_of_def)
  qed (use Cons in \<open>simp add: Register_provider_def\<close>)
qed (simp add: last_of_def)

section \<open>What a failover does\<close>

text \<open>
  The drivers that were opened in vain, with the errors recorded for them, from one world to
  another; before each of them the context had not ended.
\<close>

inductive declined ::
  "'x ctx \<Rightarrow> provider_request \<Rightarrow> 'x provider_driver list \<Rightarrow> go_err list \<Rightarrow> 'x world \<Rightarrow> 'x world \<Rightarrow> bool"
  for ctx request where
  declined_Nil: "declined ctx request [] [] w w"
| declined_Cons: "ctx w = None \<Longrightarrow> pd_Stream d request w = (w1, Returned (Inl e)) \<Longrightarrow>
    declined ctx request ds es w1 w2 \<Longrightarrow> declined ctx request (d # ds) (failed_driver d e # es) w w2"

inductive_cases declined_ConsE: "declined ctx request (d # ds) es w w'"

lemma declined_length: "declined ctx request ds es w w' \<Longrightarrow> length es = length ds"
  by (induction rule: declined.induct) simp_all

text \<open>How a failover ends over the drivers \<open>ds\<close>; \<open>errs\<close> are the errors before them.\<close>

definition failover_end ::
  "'x ctx \<Rightarrow> provider_request \<Rightarrow> go_err list \<Rightarrow> 'x provider_driver list \<Rightarrow> 'x world \<Rightarrow> 'x world
     \<Rightarrow> (go_err + 'x stream) outcome \<Rightarrow> bool" where
  "failover_end ctx request errs ds w w' x \<longleftrightarrow> (\<exists>before after es w1.
     ds = before @ after \<and> declined ctx request before es w w1 \<and>
     (case x of
        Returned (Inr sm) \<Rightarrow> \<exists>d later sm0. after = d # later \<and> ctx w1 = None \<and>
          pd_Stream d request w1 = (w', Returned (Inr sm0)) \<and>
          sm = identifyStream \<lparr>si_Provider = pd_Name d, si_Model = rq_Model request\<rparr> sm0 w'
      | Returned (Inl e) \<Rightarrow> w' = w1 \<and> (after = [] \<and> e = every_failed (errs @ es) \<or>
          after \<noteq> [] \<and> (\<exists>ended. ctx w1 = Some ended \<and> e = every_failed (errs @ es @ [ended])))
      | Panicked b \<Rightarrow> \<exists>d later. after = d # later \<and> ctx w1 = None \<and> pd_Stream d request w1 = (w', Panicked b)))"

lemma failover_end_step:
  assumes "ctx w = None" "pd_Stream d request w = (w1, Returned (Inl e))"
    and "failover_end ctx request (errs @ [failed_driver d e]) ds w1 w' x"
  shows "failover_end ctx request errs (d # ds) w w' x"
proof -
  obtain before after es w2 where "ds = before @ after" "declined ctx request before es w1 w2"
    and x: "case x of
        Returned (Inr sm) \<Rightarrow> \<exists>d later sm0. after = d # later \<and> ctx w2 = None \<and>
          pd_Stream d request w2 = (w', Returned (Inr sm0)) \<and>
          sm = identifyStream \<lparr>si_Provider = pd_Name d, si_Model = rq_Model request\<rparr> sm0 w'
      | Returned (Inl e') \<Rightarrow> w' = w2 \<and> (after = [] \<and> e' = every_failed ((errs @ [failed_driver d e]) @ es) \<or>
          after \<noteq> [] \<and> (\<exists>ended. ctx w2 = Some ended \<and> e' = every_failed ((errs @ [failed_driver d e]) @ es @ [ended])))
      | Panicked b \<Rightarrow> \<exists>d later. after = d # later \<and> ctx w2 = None \<and> pd_Stream d request w2 = (w', Panicked b)"
    using assms(3) unfolding failover_end_def by blast
  moreover from this have "declined ctx request (d # before) (failed_driver d e # es) w w2"
    using assms(1,2) declined_Cons by blast
  ultimately show ?thesis
    unfolding failover_end_def
    by (intro exI [of _ "d # before"] exI [of _ after] exI [of _ "failed_driver d e # es"] exI [of _ w2])
       (auto split: outcome.splits sum.splits)
qed

lemma fallback_loop_end:
  "fallback_loop ctx request errs ds w = (w', x) \<Longrightarrow> failover_end ctx request errs (present ds) w w' x"
proof (induction ctx request errs ds arbitrary: w rule: fallback_loop.induct)
  case (1 ctx request errs)
  then show ?case
    by (auto simp: failover_end_def intro!: declined_Nil exI [of _ "[]"])
next
  case (3 ctx request errs d ds)
  show ?case
  proof (cases "ctx w")
    case (Some e)
    then have "w' = w" "x = Returned (Inl (every_failed (errs @ [e])))"
      using 3(2) by (auto simp: bnd_def)
    then show ?thesis
      unfolding failover_end_def using Some
      by (intro exI [of _ "[]"] exI [of _ "d # present ds"] exI [of _ w]) (auto intro: declined_Nil)
  next
    case None
    obtain w1 y where y: "pd_Stream d request w = (w1, y)"
      by force
    have now: "failover_end ctx request errs (d # present ds) w w' x"
      if "case x of Returned (Inr sm) \<Rightarrow> \<exists>sm0. y = Returned (Inr sm0) \<and> w' = w1 \<and>
            sm = identifyStream \<lparr>si_Provider = pd_Name d, si_Model = rq_Model request\<rparr> sm0 w'
          | Returned (Inl e) \<Rightarrow> False | Panicked b \<Rightarrow> y = Panicked b \<and> w' = w1"
      unfolding failover_end_def using that None y
      by (intro exI [of _ "[]"] exI [of _ "d # present ds"] exI [of _ w])
         (auto intro: declined_Nil split: outcome.splits sum.splits)
    show ?thesis
    proof (cases y)
      case (Returned r)
      show ?thesis
      proof (cases r)
        case (Inl e)
        have "fallback_loop ctx request (errs @ [failed_driver d e]) ds w1 = (w', x)"
          using 3(2) None y Returned Inl by (simp add: bnd_def)
        then have "failover_end ctx request (errs @ [failed_driver d e]) (present ds) w1 w' x"
          by (rule 3(1))
        then show ?thesis
          using failover_end_step [of ctx w d request w1 e] None y Returned Inl by simp
      next
        case (Inr sm)
        then show ?thesis
          using 3(2) None y Returned now by (auto simp: bnd_def)
      qed
    next
      case (Panicked b)
      then show ?thesis
        using 3(2) None y now by (auto simp: bnd_def)
    qed
  qed
qed simp_all

lemma every_failed_is:
  assumes "e \<in> set errs" "errors_is t e"
  shows "errors_is t (every_failed errs)"
proof -
  have "e \<in> set (some_errs (map Some errs))"
    using assms(1) by simp
  then obtain x xs where "some_errs (map Some errs) = x # xs" "e \<in> set (x # xs)"
    by (cases "some_errs (map Some errs)") auto
  then show ?thesis
    using assms(2) by (auto simp: every_failed_def errors_join_def)
qed

section \<open>Samples\<close>

definition tape_driver :: "bytes \<Rightarrow> go_err + unit stream \<Rightarrow> unit provider_driver" where
  "tape_driver name x = \<lparr>pd_Name = name, pd_Models = [''m''], pd_Version = [], pd_Stream = (\<lambda>rq. give x)\<rparr>"

definition quiet_stream :: "unit stream" where
  "quiet_stream = \<lparr>sm_Recv = (\<lambda>w. (w, Inl (sentinel IoEOF))), sm_Close = (\<lambda>w. w), sm_Identity = None\<rparr>"

definition quiet_request :: provider_request where
  "quiet_request = \<lparr>rq_Model = ''m'', rq_OperationID = [], rq_Messages = [], rq_MaxTokens = 0, rq_Tools = [],
     rq_Metadata = [], rq_CompleteToolCalls = False, rq_Options = \<lparr>mo_Temperature = 0, mo_TopP = 0,
       mo_StopSequences = [], mo_ThinkingBudget = 0, mo_ResponseFormat = None, mo_PromptCacheKey = [],
       mo_ServiceTier = [], mo_ParallelToolCalls = None, mo_ContextUsage = None, mo_ExtraBody = None\<rparr>\<rparr>"

section \<open>Properties\<close>

text \<open>
  A registry gives for a model the driver registered last among those that declare it, and for
  a provider and a model the last of that provider, as long as provider names have no NUL byte.
\<close>

theorem registry_finds_last_registered:
  assumes "CHR 0x00 \<notin> set p" "p \<noteq> []" "\<forall>d \<in> set (present drivers). CHR 0x00 \<notin> set (pd_Name d)"
  shows "Registry_Driver (NewRegistry drivers) m =
      (case last_of (serving m drivers) of Some d \<Rightarrow> Inr d | None \<Rightarrow> Inl (no_driver m)) \<and>
    Registry_DriverFor (NewRegistry drivers) p m =
      (case last_of (filter (\<lambda>d. pd_Name d = p) (serving m drivers)) of Some d \<Rightarrow> Inr d | None \<Rightarrow> Inl (no_driver p))"
  using byProviderModel_fold [OF assms]
  by (simp add: Registry_Driver_def Registry_DriverFor_def NewRegistry_def byModel_fold split: option.split)

text \<open>
  A failover opens its drivers in order, each once and only while the context lasts, and stops
  at the first stream, which it identifies as that driver's; when none opens, the error contains
  the error of each driver.
\<close>

theorem failover_stops_at_first_stream:
  assumes "fallbackDriver_Stream ctx drivers request w = (w', x)"
  shows "failover_end ctx request [] (present drivers) w w' x \<and>
    (\<forall>errs c t. c \<in> set errs \<and> errors_is t c \<longrightarrow> errors_is t (every_failed errs))"
  using assms fallback_loop_end [of ctx request "[]" drivers w w' x] every_failed_is
  by (auto simp: fallbackDriver_Stream_def)


theorem registry_finds_last_registered_witness:
  "Registry_DriverFor (NewRegistry [None, Some (tape_driver ''a'' (Inl (sentinel IoEOF))), Some (tape_driver ''b'' (Inl (sentinel IoEOF)))]) ''a'' ''m'' =
     Inr (tape_driver ''a'' (Inl (sentinel IoEOF)))"
  using registry_finds_last_registered [of "''a''" "[None, Some (tape_driver ''a'' (Inl (sentinel IoEOF))), Some (tape_driver ''b'' (Inl (sentinel IoEOF)))]" "''m''"]
  by (simp add: tape_driver_def last_of_def)

text \<open>The second driver serves the stream the first could not open.\<close>

theorem failover_stops_at_first_stream_witness:
  "\<forall>w. \<exists>w' x. fallbackDriver_Stream (\<lambda>w. None) [Some (tape_driver ''a'' (Inl (sentinel IoEOF))), Some (tape_driver ''b'' (Inr quiet_stream))]
       quiet_request w = (w', x) \<and>
     failover_end (\<lambda>w. None) quiet_request [] [tape_driver ''a'' (Inl (sentinel IoEOF)), tape_driver ''b'' (Inr quiet_stream)] w w' x"
proof
  fix w
  show "\<exists>w' x. fallbackDriver_Stream (\<lambda>w. None) [Some (tape_driver ''a'' (Inl (sentinel IoEOF))), Some (tape_driver ''b'' (Inr quiet_stream))]
       quiet_request w = (w', x) \<and>
     failover_end (\<lambda>w. None) quiet_request [] [tape_driver ''a'' (Inl (sentinel IoEOF)), tape_driver ''b'' (Inr quiet_stream)] w w' x"
  proof -
    obtain w' x where run: "fallbackDriver_Stream (\<lambda>w. None) [Some (tape_driver ''a'' (Inl (sentinel IoEOF))),
        Some (tape_driver ''b'' (Inr quiet_stream))] quiet_request w = (w', x)"
      by force
    then show ?thesis
      using failover_stops_at_first_stream [OF run] by simp
  qed
qed

end
