(* ===== verification/Build.thy ===== *)
theory Build
  imports EngineRun Routing
begin

text \<open>
  Materialising an agent: \<open>src/agent/spec.go\<close>.  A specification names a model, tools and skills;
  \<open>Build\<close> looks each of them up in the registries of the deployment and fails when one is missing.
  The select_context tool of package kit comes in as the result of its constructor, the context of
  a stream opening as the function that reads its error.  The lemmas show that a built agent can
  call exactly the tools its specification names, and has exactly the skills.
\<close>

section \<open>Specifications\<close>

record spec =
  sp_Instructions :: bytes
  sp_Skills :: "bytes list"
  sp_AvailableSkills :: "bytes list"
  sp_Provider :: bytes
  sp_Model :: bytes
  sp_FallbackModel :: bytes
  sp_Temperature :: float_bits
  sp_TopP :: float_bits
  sp_MaxTokens :: int
  sp_Tools :: "bytes list"
  sp_LoopPolicy :: loop_policy
  sp_ThinkingBudget :: int
  sp_StopSequences :: "bytes list"
  sp_ExtraBody :: "(bytes \<times> reflected) list option"

record 'x build_deps =
  bd_Providers :: "'x resolver option"
  bd_Tools :: "'x world bus option"
  bd_ContextSelection :: "(go_err + 'x world tool) option"
  bd_Skills :: "skill_registry option"
  bd_Hooks :: "'x hook_chain"
  bd_ContextManager :: "'x context_manager option"

section \<open>Tools and skills\<close>

text \<open>\<open>Bus.Clone\<close>: a nil bus gives an empty one.\<close>

definition Clone_bus :: "'w bus option \<Rightarrow> 'w bus" where
  "Clone_bus b = (case b of None \<Rightarrow> empty_bus | Some b \<Rightarrow> b)"

definition resolveBuildTools :: "bytes list \<Rightarrow> 'w bus option \<Rightarrow> go_err + 'w bus option" where
  "resolveBuildTools names master =
     (if names = [] then Inr None
      else case master of
        None \<Rightarrow> Inl (new_err ''agent: spec lists tools but build deps carry no tool bus'')
      | Some b \<Rightarrow> (case bus_err b of
            Some e \<Rightarrow> Inl (wrap_err ''agent: invalid tool master'' e)
          | None \<Rightarrow> (case filter (\<lambda>name. Bus_Driver b name = None) names of
                name # missing \<Rightarrow> Inl (new_err (''agent: tool named by spec is not registered in build deps: '' @ name))
              | [] \<Rightarrow> (case bus_err (Subset names b) of
                    Some e \<Rightarrow> Inl (wrap_err ''agent: invalid tool subset'' e)
                  | None \<Rightarrow> Inr (Some (Subset names b))))))"

definition wrapSkillResolveError :: "go_err \<Rightarrow> go_err" where
  "wrapSkillResolveError e = wrap_err
     (if errors_is ErrSkillNotFound e then ''agent: resolve skill'' else ''agent: resolve skills'') e"

definition resolveBuildSkills ::
  "bytes list \<Rightarrow> bytes list \<Rightarrow> skill_registry option \<Rightarrow> go_err + skill list \<times> skill list" where
  "resolveBuildSkills activeNames availableNames master =
     (if activeNames = [] \<and> availableNames = [] then Inr ([], [])
      else case master of
        None \<Rightarrow> Inl (wrap_err ''spec lists skills'' (sentinel ErrSkillRegistryMissing))
      | Some r \<Rightarrow> (case Resolve_skills (Some r) activeNames of
            Inl e \<Rightarrow> Inl (wrapSkillResolveError e)
          | Inr active \<Rightarrow> (case Resolve_skills (Some r) availableNames of
                Inl e \<Rightarrow> Inl (wrapSkillResolveError e)
              | Inr available \<Rightarrow> Inr (active,
                  filter (\<lambda>s. sk_Name s \<notin> sk_Name ` set active) available))))"

section \<open>Build\<close>

text \<open>\<open>instructionsContext\<close>: its \<open>Compact\<close> passes the history through, and the engine leaves it out.\<close>

definition instructions_build :: "bytes \<Rightarrow> request \<Rightarrow> go_err + message list" where
  "instructions_build instructions request =
     map_sum id (\<lambda>input. [NewText RoleSystem
         (if trim_space instructions = [] then ''You are a Venat agent.'' else trim_space instructions), input])
       (requestMessage request)"

definition instructionsContext :: "bytes \<Rightarrow> 'x context_manager" where
  "instructionsContext instructions = \<lparr>cm_Build = (\<lambda>request. give (instructions_build instructions request)),
     cm_Compact = None, cm_CompactTo = None\<rparr>"

definition build_driver :: "'x ctx \<Rightarrow> spec \<Rightarrow> 'x resolver option \<Rightarrow> go_err + 'x provider_driver" where
  "build_driver ctx sp providers = (case providers of
       None \<Rightarrow> Inl (sentinel ErrProviderResolverMissing)
     | Some r \<Rightarrow> (case Resolve_driver (Some r) (sp_Provider sp) (sp_Model sp) of
           Inl e \<Rightarrow> Inl (wrap_err ''agent: resolve provider for model'' e)
         | Inr driver \<Rightarrow>
             if sp_FallbackModel sp = [] then Inr driver
             else (case Resolve_driver (Some r) [] (sp_FallbackModel sp) of
                 Inl e \<Rightarrow> Inl (wrap_err ''agent: resolve fallback model'' e)
               | Inr fallback \<Rightarrow> Inr (ModelFallback ctx (Some driver) (Some fallback) (sp_FallbackModel sp)))))"

definition build_registry ::
  "(tool_definition \<Rightarrow> argument_validation) \<Rightarrow> spec \<Rightarrow> 'x build_deps \<Rightarrow> go_err + 'x world bus option" where
  "build_registry compile sp deps =
     (case (if ''select_context'' \<in> set (sp_Tools sp) then bd_ContextSelection deps else None) of
        None \<Rightarrow> Inr (bd_Tools deps)
      | Some (Inl e) \<Rightarrow> Inl e
      | Some (Inr selection) \<Rightarrow> (case Register compile (Some selection) (Clone_bus (bd_Tools deps)) of
            (b, Some e) \<Rightarrow> Inl e
          | (b, None) \<Rightarrow> Inr (Some b)))"

text \<open>The engine; the last two arguments are what the skill runtime needs of its surroundings.\<close>

definition built_agent ::
  "spec \<Rightarrow> 'x build_deps \<Rightarrow> 'x provider_driver \<Rightarrow> 'x world bus option \<Rightarrow> skill list \<Rightarrow> skill list
     \<Rightarrow> 'x world skill_io \<Rightarrow> 'x world skill_state \<Rightarrow> 'x agent" where
  "built_agent sp deps driver tools active available sio st = \<lparr>
     ag_Engine = \<lparr>en_Stream = pd_Stream driver, en_ProviderName = pd_Name driver, en_Tools = tools,
       en_OutputStore = None, en_Hooks = bd_Hooks deps, en_ToolInterceptor = None, en_Boundaries = None\<rparr>,
     ag_Model = sp_Model sp,
     ag_Options = \<lparr>mo_Temperature = sp_Temperature sp, mo_TopP = sp_TopP sp,
       mo_StopSequences = sp_StopSequences sp, mo_ThinkingBudget = sp_ThinkingBudget sp,
       mo_ResponseFormat = None, mo_PromptCacheKey = [], mo_ServiceTier = [], mo_ParallelToolCalls = None,
       mo_ContextUsage = None, mo_ExtraBody = sp_ExtraBody sp\<rparr>,
     ag_ModelMaxTokens = sp_MaxTokens sp, ag_ToolMode = ModeOther [], ag_LoopPolicy = sp_LoopPolicy sp,
     ag_ContextBuilder = Some (case bd_ContextManager deps of
         None \<Rightarrow> instructionsContext (sp_Instructions sp) | Some m \<Rightarrow> m),
     ag_WorkingMemory = None, ag_OperationTurn = 0, ag_Skills = active, ag_AvailableSkills = available,
     ag_SafeStreamingTools = [], ag_ResponseContinuation = [], ag_OutputGuardrails = [],
     ag_OutputObserver = None, ag_StepDecider = None, ag_StepObserver = None, ag_Control = False,
     ag_skill_io = sio, ag_skill_state = st\<rparr>"

definition Build_agent ::
  "(tool_definition \<Rightarrow> argument_validation) \<Rightarrow> 'x ctx \<Rightarrow> 'x world skill_io \<Rightarrow> 'x world skill_state
     \<Rightarrow> spec \<Rightarrow> 'x build_deps \<Rightarrow> go_err + 'x agent" where
  "Build_agent compile ctx sio st sp deps =
     (case build_driver ctx sp (bd_Providers deps) of Inl e \<Rightarrow> Inl e | Inr driver \<Rightarrow>
      case build_registry compile sp deps of Inl e \<Rightarrow> Inl e | Inr master \<Rightarrow>
      case resolveBuildTools (sp_Tools sp) master of Inl e \<Rightarrow> Inl e | Inr tools \<Rightarrow>
      case resolveBuildSkills (sp_Skills sp) (sp_AvailableSkills sp) (bd_Skills deps) of
        Inl e \<Rightarrow> Inl e
      | Inr (active, available) \<Rightarrow> Inr (built_agent sp deps driver tools active available sio st))"

section \<open>Lemmas\<close>

lemma subset_err: "bus_err c \<noteq> None \<Longrightarrow> bus_err (subset_loop b seen names c) \<noteq> None"
proof (induction b seen names c rule: subset_loop.induct)
  case (2 b seen name names c)
  have "errors_join [bus_err c, Some e] \<noteq> None" for e
    by simp
  then show ?case
    using 2 by (auto split: option.split)
qed simp

lemma subset_distinct:
  "bus_err (subset_loop b seen names c) = None \<Longrightarrow> distinct names \<and> set names \<inter> set seen = {}"
proof (induction b seen names c rule: subset_loop.induct)
  case (2 b seen name names c)
  have "name \<notin> set seen"
    using 2(4) subset_err [of "c\<lparr>bus_err := errors_join [bus_err c, Some (wrap_err name (sentinel ErrDuplicateToolName))]\<rparr>" b seen names]
    by (auto split: if_splits)
  then show ?case
    using 2 by (auto split: option.splits)
qed simp

lemma resolveBuildTools_spec:
  assumes "resolveBuildTools names master = Inr tools" "\<And>b. master = Some b \<Longrightarrow> bus_ok b"
  shows "distinct names \<and> (names = [] \<longleftrightarrow> tools = None) \<and> (\<forall>sub. tools = Some sub \<longrightarrow>
     bus_ok sub \<and> bus_err sub = None \<and> (\<exists>b. master = Some b \<and> (\<forall>name.
       Bus_Driver sub name = (if name \<in> set names then Bus_Driver b name else None) \<and>
       (name \<in> set names \<longrightarrow> Bus_Driver b name \<noteq> None))))"
proof (cases "names = []")
  case False
  then obtain b where b: "master = Some b" "\<forall>name \<in> set names. Bus_Driver b name \<noteq> None"
    "bus_err (Subset names b) = None" "tools = Some (Subset names b)"
    using assms(1)
    by (auto simp: resolveBuildTools_def filter_empty_conv split: option.splits list.splits)
  then have "distinct names"
    using False subset_distinct by (fastforce simp: Subset_def)
  moreover have "bus_ok b"
    using assms(2) b(1) by simp
  ultimately show ?thesis
    using b False Subset_ok [of b names] by (auto simp: Bus_Driver_def)
qed (use assms in \<open>simp add: resolveBuildTools_def\<close>)


text \<open>A skill registry keeps each skill under its own name.\<close>

definition skills_ok :: "skill_registry option \<Rightarrow> bool" where
  "skills_ok r \<longleftrightarrow> (\<forall>name s. Get_skill r name = Some s \<longrightarrow> sk_Name s = name)"

lemma skills_ok_Register: "skills_ok (Some r) \<Longrightarrow> skills_ok (Some (fst (Register_skill s r)))"
  by (auto simp: skills_ok_def Get_skill_def Register_skill_def update_conv' split: option.splits if_splits)

lemma skills_ok_Deregister: "skills_ok (Some r) \<Longrightarrow> skills_ok (Some (fst (Deregister name r)))"
  by (auto simp: skills_ok_def Get_skill_def Deregister_def delete_conv' split: option.splits if_splits)

lemma resolve_loop_names:
  assumes "resolve_loop r seen out names = Inr ss" "skills_ok r"
  shows "sk_Name ` set ss = sk_Name ` set out \<union> (set names - set seen) \<and>
    (\<forall>s \<in> set ss - set out. Get_skill r (sk_Name s) = Some s)"
  using assms
proof (induction r seen out names rule: resolve_loop.induct)
  case (2 r seen out name names)
  show ?case
  proof (cases "name \<in> set seen")
    case False
    then obtain s where s: "Get_skill r name = Some s"
      using 2(3) by (auto split: option.splits)
    then have "sk_Name s = name"
      using 2(4) by (simp add: skills_ok_def)
    then show ?thesis
      using 2(2) [OF False s] 2(3,4) False s by auto
  qed (use 2 in auto)
qed simp

lemma resolveBuildSkills_names:
  assumes "resolveBuildSkills activeNames availableNames r = Inr (active, available)" "skills_ok r"
  shows "sk_Name ` set active = set activeNames \<and> sk_Name ` set available = set availableNames - set activeNames \<and>
    (\<forall>s \<in> set (active @ available). Get_skill r (sk_Name s) = Some s)"
proof (cases "activeNames = [] \<and> availableNames = []")
  case False
  then obtain all where all: "r \<noteq> None" "resolve_loop r [] [] activeNames = Inr active"
    "resolve_loop r [] [] availableNames = Inr all" "available = filter (\<lambda>s. sk_Name s \<notin> sk_Name ` set active) all"
    using assms(1) by (auto simp: resolveBuildSkills_def Resolve_skills_def split: option.splits sum.splits)
  then show ?thesis
    using resolve_loop_names [OF all(2) assms(2)] resolve_loop_names [OF all(3) assms(2)] by auto
qed (use assms in \<open>simp add: resolveBuildSkills_def\<close>)

lemma build_registry_ok:
  assumes "build_registry compile sp deps = Inr (Some b)" "\<And>b. bd_Tools deps = Some b \<Longrightarrow> bus_ok b"
  shows "bus_ok b"
proof -
  have clone: "bus_ok (Clone_bus (bd_Tools deps))"
    using assms(2) by (simp add: Clone_bus_def split: option.split)
  have "bus_ok c" if "Register compile (Some t) (Clone_bus (bd_Tools deps)) = (c, x)" for c t x
    using bus_ok_Register [OF clone, of compile "Some t"] that by simp
  then show ?thesis
    using assms by (auto simp: build_registry_def split: option.splits sum.splits if_splits prod.splits)
qed

section \<open>Samples\<close>

definition sample_spec :: spec where
  "sample_spec = \<lparr>sp_Instructions = ''help'', sp_Skills = [], sp_AvailableSkills = [], sp_Provider = [], sp_Model = ''m'',
     sp_FallbackModel = ''n'', sp_Temperature = 0, sp_TopP = 0, sp_MaxTokens = 0, sp_Tools = [''look''],
     sp_LoopPolicy = tape_policy, sp_ThinkingBudget = 0, sp_StopSequences = [], sp_ExtraBody = None\<rparr>"

definition sample_driver_for :: "tape provider_driver" where
  "sample_driver_for = \<lparr>pd_Name = ''tape'', pd_Models = [''m'', ''n''], pd_Version = [],
     pd_Stream = (\<lambda>rq. give (Inr tape_stream))\<rparr>"

definition sample_deps :: "tape build_deps" where
  "sample_deps = \<lparr>bd_Providers = Some (Single (Some sample_driver_for)), bd_Tools = Some tape_bus,
     bd_ContextSelection = None, bd_Skills = None, bd_Hooks = [], bd_ContextManager = None\<rparr>"

lemma sample_build:
  "\<exists>ag. Build_agent (\<lambda>d. \<lparr>av_schema = (\<lambda>_. None), av_err = None\<rparr>) (\<lambda>w. None) (ag_skill_io tape_agent)
     (ag_skill_state tape_agent) sample_spec sample_deps = Inr ag"
  by (simp add: Build_agent_def build_driver_def Resolve_driver_def sample_deps_def sample_spec_def Single_def
      build_registry_def resolveBuildTools_def Bus_Driver_def tape_bus_def Subset_def resolveBuildSkills_def)

lemma tape_bus_ok: "bus_ok tape_bus"
  by (simp add: bus_ok_def tape_bus_def tape_tool_def definition_ok_def concurrencySpec_def limiters_ok_def
      MaxToolNameBytes_def)

section \<open>Properties\<close>

text \<open>
  C30.  A built agent can call exactly the tools its specification names, all of them distinct and
  registered, and has exactly the skills named, none of them both active and only available.
\<close>

theorem built_agent_has_named_capabilities:
  assumes "Build_agent compile ctx sio st sp deps = Inr ag"
    and "\<forall>b. bd_Tools deps = Some b \<longrightarrow> bus_ok b" "skills_ok (bd_Skills deps)"
  shows "distinct (sp_Tools sp) \<and>
    (\<forall>name. (case en_Tools (ag_Engine ag) of None \<Rightarrow> False | Some b \<Rightarrow> Bus_Driver b name \<noteq> None) = (name \<in> set (sp_Tools sp))) \<and>
    sk_Name ` set (ag_Skills ag) = set (sp_Skills sp) \<and>
    sk_Name ` set (ag_AvailableSkills ag) = set (sp_AvailableSkills sp) - set (sp_Skills sp)"
proof -
  obtain master driver tools active available where
    b: "build_registry compile sp deps = Inr master" "resolveBuildTools (sp_Tools sp) master = Inr tools"
      "resolveBuildSkills (sp_Skills sp) (sp_AvailableSkills sp) (bd_Skills deps) = Inr (active, available)"
      "ag = built_agent sp deps driver tools active available sio st"
    using assms(1) by (auto simp: Build_agent_def split: sum.splits)
  have ok: "bus_ok x" if "master = Some x" for x
    using build_registry_ok [of compile sp deps x] b(1) that assms(2) by blast
  show ?thesis
    using resolveBuildTools_spec [OF b(2) ok] resolveBuildSkills_names [OF b(3) assms(3)]
    by (cases tools) (auto simp: b(4) built_agent_def split: if_splits)
qed

theorem built_agent_has_named_capabilities_witness:
  "\<exists>ag. Build_agent (\<lambda>d. \<lparr>av_schema = (\<lambda>_. None), av_err = None\<rparr>) (\<lambda>w. None) (ag_skill_io tape_agent)
     (ag_skill_state tape_agent) sample_spec sample_deps = Inr ag \<and>
     (\<forall>name. (case en_Tools (ag_Engine ag) of None \<Rightarrow> False | Some b \<Rightarrow> Bus_Driver b name \<noteq> None) = (name = ''look''))"
proof -
  obtain ag where ag: "Build_agent (\<lambda>d. \<lparr>av_schema = (\<lambda>_. None), av_err = None\<rparr>) (\<lambda>w. None) (ag_skill_io tape_agent)
     (ag_skill_state tape_agent) sample_spec sample_deps = Inr ag"
    using sample_build by blast
  have "\<forall>b. bd_Tools sample_deps = Some b \<longrightarrow> bus_ok b" "skills_ok (bd_Skills sample_deps)"
    by (simp_all add: sample_deps_def tape_bus_ok skills_ok_def Get_skill_def)
  from built_agent_has_named_capabilities [OF ag this] ag show ?thesis
    by (auto simp: sample_spec_def)
qed

end
