(* ===== verification/StreamInterceptors.thy ===== *)
theory StreamInterceptors
  imports Routing
begin

text \<open>
  Stream interceptors: \<open>src/provider/interceptor.go\<close>.  An interceptor is a tree of steps on the world
  that can also call the next driver (\<open>SNext\<close>) and sees how that call ended.  The guard around it
  counts the calls, compares the request with the one it was given, recovers a panic and reports
  violations.  \<open>json.Marshal\<close> of a request is the argument \<open>fingerprint\<close>.  The lemmas show that the
  provider is opened at most once and only with the request of the agent, that an interceptor that
  passes on is invisible, and that a violation after an opening leaves the stream open.  A run of a
  tree ends when the interceptor returns, so the branch for a call of a kept \<open>next\<close> after that return
  (\<open>sg_closed\<close>) is written out but taken by no run here; it never opens the provider, and the bound on
  the openings rests on the counter alone.
\<close>

section \<open>Interceptor trees\<close>

datatype 'x sprog =
    SRet "go_err + 'x stream"
  | SCrash bytes
  | SDo "'x world \<Rightarrow> 'x world \<times> 'x sprog"
  | SNext provider_request "(go_err + 'x stream) outcome \<Rightarrow> 'x sprog"

type_synonym 'x stream_interceptor = "provider_request \<Rightarrow> 'x sprog"
type_synonym 'x opener = "provider_request \<Rightarrow> ('x world, go_err + 'x stream) act"
type_synonym request_fingerprint = "provider_request \<Rightarrow> go_err + bytes"

section \<open>The guard\<close>

record stream_guard =
  sg_calls :: nat
  sg_closed :: bool
  sg_violation :: "go_err option"

definition new_stream_guard :: stream_guard where
  "new_stream_guard = \<lparr>sg_calls = 0, sg_closed = False, sg_violation = None\<rparr>"

definition stream_protocol_error :: "nat \<Rightarrow> go_err \<Rightarrow> go_err" where
  "stream_protocol_error index e =
     GoErr (ErrText (''provider stream interceptor '' @ decimal index)) [sentinel ErrStreamInterceptorProtocol, e]"

definition not_started :: "go_err \<Rightarrow> go_err" where
  "not_started e = join2 (sentinel ErrNotStarted) e"

text \<open>An observer is compared by its identity, which \<open>mo_ContextUsage\<close> is.\<close>

definition sameContextUsage :: "nat option \<Rightarrow> nat option \<Rightarrow> bool" where
  "sameContextUsage left right = (left = right)"

definition context_observer :: "provider_request \<Rightarrow> nat option" where
  "context_observer request = mo_ContextUsage (rq_Options request)"

text \<open>A call of the guarded driver: refused, or the request that goes on.\<close>

definition guard_stream ::
  "request_fingerprint \<Rightarrow> nat \<Rightarrow> provider_request \<Rightarrow> bytes \<Rightarrow> stream_guard \<Rightarrow> provider_request
     \<Rightarrow> stream_guard \<times> (go_err + provider_request)" where
  "guard_stream fingerprint index request expected g candidate =
     (if sg_closed g
        then (g, Inl (not_started (stream_protocol_error index (new_err ''next called after interceptor returned''))))
      else let g1 = g\<lparr>sg_calls := sg_calls g + 1\<rparr> in
      if 1 < sg_calls g1
        then let failure = stream_protocol_error index (new_err ''next called more than once'')
             in (g1\<lparr>sg_violation := Some failure\<rparr>, Inl failure)
      else if (case fingerprint candidate of Inl e \<Rightarrow> True | Inr f \<Rightarrow> f \<noteq> expected) \<or>
              rq_OperationID candidate \<noteq> rq_OperationID request \<or>
              \<not> sameContextUsage (context_observer candidate) (context_observer request)
        then let cause = (case fingerprint candidate of Inl e \<Rightarrow> e
                 | Inr f \<Rightarrow> new_err ''request or operation ID was modified'');
                 failure = not_started (stream_protocol_error index cause)
             in (g1\<lparr>sg_violation := Some failure\<rparr>, Inl failure)
      else (g1, Inr (candidate\<lparr>rq_Options := (rq_Options candidate)\<lparr>mo_ContextUsage := context_observer request\<rparr>\<rparr>)))"

primrec run_sprog ::
  "'x opener \<Rightarrow> (stream_guard \<Rightarrow> provider_request \<Rightarrow> stream_guard \<times> (go_err + provider_request)) \<Rightarrow> 'x sprog
     \<Rightarrow> stream_guard \<Rightarrow> 'x world \<Rightarrow> 'x world \<times> stream_guard \<times> (go_err + 'x stream) outcome" where
  "run_sprog d check (SRet r) = (\<lambda>g w. (w, g, Returned r))"
| "run_sprog d check (SCrash b) = (\<lambda>g w. (w, g, Panicked b))"
| "run_sprog d check (SDo f) = (\<lambda>g w. case map_prod id (run_sprog d check) (f w) of (w', k) \<Rightarrow> k g w')"
| "run_sprog d check (SNext candidate k) = (\<lambda>g w. case check g candidate of
       (g', Inl e) \<Rightarrow> run_sprog d check (k (Returned (Inl e))) g' w
     | (g', Inr c) \<Rightarrow> (case d c w of (w', x) \<Rightarrow> run_sprog d check (k x) g' w'))"

text \<open>The deferred function.\<close>

definition close_stream_guard ::
  "nat \<Rightarrow> stream_guard \<Rightarrow> (go_err + 'x stream) outcome \<Rightarrow> go_err + 'x stream" where
  "close_stream_guard index g x = (case x of
       Panicked b \<Rightarrow> Inl (stream_protocol_error index
         (if sg_calls g = 0 then not_started (new_err (''panic: '' @ b)) else new_err (''panic: '' @ b)))
     | Returned r \<Rightarrow> (case sg_violation g of
           Some violation \<Rightarrow> Inl (case r of Inl e \<Rightarrow> join2 e violation | Inr sm \<Rightarrow> GoErr (ErrText []) [violation])
         | None \<Rightarrow> (case r of
               Inl e \<Rightarrow> Inl (if sg_calls g = 0 \<and> \<not> errors_is ErrNotStarted e then not_started e else e)
             | Inr sm \<Rightarrow> Inr sm)))"

definition wrapStreamInterceptor ::
  "request_fingerprint \<Rightarrow> nat \<Rightarrow> 'x stream_interceptor \<Rightarrow> 'x opener \<Rightarrow> 'x opener" where
  "wrapStreamInterceptor fingerprint index interceptor d request = (case fingerprint request of
       Inl e \<Rightarrow> give (Inl (stream_protocol_error index e))
     | Inr expected \<Rightarrow> (\<lambda>w.
         case run_sprog d (guard_stream fingerprint index request expected) (interceptor request) new_stream_guard w of
           (w', g, x) \<Rightarrow> (w', Returned (close_stream_guard index g x))))"

fun stream_chain ::
  "request_fingerprint \<Rightarrow> nat \<Rightarrow> 'x stream_interceptor list \<Rightarrow> 'x opener \<Rightarrow> 'x opener" where
  "stream_chain fingerprint index [] d = d"
| "stream_chain fingerprint index (i # is) d =
     wrapStreamInterceptor fingerprint index i (stream_chain fingerprint (Suc index) is d)"

text \<open>\<open>ChainStreamInterceptors\<close> around a driver, which keeps its metadata.\<close>

definition ChainStreamInterceptors ::
  "request_fingerprint \<Rightarrow> 'x stream_interceptor option list \<Rightarrow> ('x provider_driver \<Rightarrow> 'x provider_driver) option" where
  "ChainStreamInterceptors fingerprint is =
     (if present is = [] then None
      else Some (\<lambda>d. d\<lparr>pd_Stream := stream_chain fingerprint 0 (present is) (pd_Stream d)\<rparr>))"

section \<open>How often the provider is opened\<close>

lemma sprog_induct [case_names SRet SCrash SDo SNext]:
  assumes "\<And>r. P (SRet r)" "\<And>b. P (SCrash b)"
    and "\<And>f. (\<And>w w' p. f w = (w', p) \<Longrightarrow> P p) \<Longrightarrow> P (SDo f)"
    and "\<And>c k. (\<And>x. P (k x)) \<Longrightarrow> P (SNext c k)"
  shows "P p"
proof (induction p)
  case (SDo f)
  have "P q" if "f w = (w', q)" for w w' q
    by (rule SDo [of "(w', q)"]) (use that in \<open>auto intro: range_eqI [of _ _ w]\<close>)
  then show ?case
    by (rule assms(3))
qed (use assms in auto)

lemma run_SDo [simp]: "run_sprog d check (SDo f) g w = run_sprog d check (snd (f w)) g (fst (f w))"
  by (simp add: map_prod_def case_prod_unfold)

declare run_sprog.simps(3) [simp del]

text \<open>
  A log of openings is read off the world.  A driver that keeps it writes every request it opens;
  an interceptor is silent when its own steps leave the log alone.
\<close>

inductive silent :: "('x world \<Rightarrow> provider_request list) \<Rightarrow> 'x sprog \<Rightarrow> bool" for log where
  silent_SRet: "silent log (SRet r)"
| silent_SCrash: "silent log (SCrash b)"
| silent_SDo: "(\<And>w. log (fst (f w)) = log w \<and> silent log (snd (f w))) \<Longrightarrow> silent log (SDo f)"
| silent_SNext: "(\<And>x. silent log (k x)) \<Longrightarrow> silent log (SNext c k)"

text \<open>The requests that are as good as the one of the agent.\<close>

definition same_request :: "request_fingerprint \<Rightarrow> provider_request \<Rightarrow> provider_request set" where
  "same_request fingerprint request =
     {c. fingerprint c = fingerprint request \<and> rq_OperationID c = rq_OperationID request \<and>
        context_observer c = context_observer request}"

definition opens_once ::
  "('x world \<Rightarrow> provider_request list) \<Rightarrow> request_fingerprint \<Rightarrow> 'x opener \<Rightarrow> bool" where
  "opens_once log fingerprint d \<longleftrightarrow> (\<forall>request w. \<exists>opened.
     log (fst (d request w)) = log w @ opened \<and> length opened \<le> 1 \<and> set opened \<subseteq> same_request fingerprint request)"

lemma guard_stream_cases:
  assumes "guard_stream fingerprint index request expected g c = (g', r)" "fingerprint request = Inr expected"
  shows "(\<exists>e. r = Inl e) \<and> (sg_calls g' = 0 \<longrightarrow> sg_calls g = 0) \<or>
    r = Inr c \<and> sg_calls g = 0 \<and> sg_calls g' = 1 \<and> c \<in> same_request fingerprint request"
  using assms
  by (auto simp: guard_stream_def same_request_def sameContextUsage_def context_observer_def Let_def
      split: if_splits sum.splits)

lemma run_sprog_opens:
  assumes "silent log p" "opens_once log fingerprint d" "fingerprint request = Inr expected"
  shows "\<exists>opened. log (fst (run_sprog d (guard_stream fingerprint index request expected) p g w)) = log w @ opened \<and>
    length opened \<le> (if sg_calls g = 0 then 1 else 0) \<and> set opened \<subseteq> same_request fingerprint request"
  using assms(1)
proof (induction arbitrary: g w rule: silent.induct)
  case (silent_SDo f)
  have "log (fst (f w)) = log w"
    using silent_SDo [of w] by simp
  with conjunct2 [OF silent_SDo [of w], THEN conjunct2, rule_format, of g "fst (f w)"] show ?case
    by simp
next
  case (silent_SNext k c)
  obtain g' r where r: "guard_stream fingerprint index request expected g c = (g', r)"
    by force
  show ?case
  proof (cases r)
    case (Inl e)
    then show ?thesis
      using guard_stream_cases [OF r assms(3)] silent_SNext(2) [of "Returned (Inl e)" g' w] r
      by (force split: if_splits)
  next
    case (Inr c')
    then have c: "c' = c" "sg_calls g = 0" "sg_calls g' = 1" "c \<in> same_request fingerprint request"
      using guard_stream_cases [OF r assms(3)] by auto
    obtain w' x where x: "d c w = (w', x)"
      by force
    obtain opened where opened: "log w' = log w @ opened" "length opened \<le> 1" "set opened \<subseteq> same_request fingerprint c"
      using assms(2) x unfolding opens_once_def by (metis fst_conv)
    have "same_request fingerprint c = same_request fingerprint request"
      using c(4) by (auto simp: same_request_def)
    then show ?thesis
      using silent_SNext(2) [of x g' w'] opened c r Inr x by auto
  qed
qed auto

lemma opens_once_wrap:
  assumes "\<And>rq. silent log (i rq)" "opens_once log fingerprint d"
  shows "opens_once log fingerprint (wrapStreamInterceptor fingerprint index i d)"
  unfolding opens_once_def
proof (intro allI)
  fix request w
  show "\<exists>opened. log (fst (wrapStreamInterceptor fingerprint index i d request w)) = log w @ opened \<and>
      length opened \<le> 1 \<and> set opened \<subseteq> same_request fingerprint request"
  proof (cases "fingerprint request")
    case (Inr expected)
    show ?thesis
      using run_sprog_opens [OF assms(1) [of request] assms(2) Inr, where index = index and g = new_stream_guard and w = w] Inr
      by (auto simp: wrapStreamInterceptor_def new_stream_guard_def split: prod.split)
  qed (auto simp: wrapStreamInterceptor_def)
qed

lemma opens_once_chain:
  "\<forall>i \<in> set is. \<forall>rq. silent log (i rq) \<Longrightarrow> opens_once log fingerprint d \<Longrightarrow>
     opens_once log fingerprint (stream_chain fingerprint index is d)"
  by (induction "is" arbitrary: index) (auto intro: opens_once_wrap)

text \<open>An interceptor that only passes on changes nothing.\<close>

definition pass_stream :: "'x stream_interceptor" where
  "pass_stream request = SNext request (\<lambda>x. case x of Panicked b \<Rightarrow> SCrash b | Returned r \<Rightarrow> SRet r)"

lemma pass_stream_wrap:
  assumes "fingerprint request = Inr f" "d request w = (w', Returned r)"
  shows "wrapStreamInterceptor fingerprint index pass_stream d request w = (w', Returned r)"
  using assms
  by (auto simp: wrapStreamInterceptor_def pass_stream_def guard_stream_def new_stream_guard_def sameContextUsage_def
      context_observer_def close_stream_guard_def split: sum.split)

lemma pass_stream_chain:
  assumes "fingerprint request = Inr f" "d request w = (w', Returned r)"
  shows "stream_chain fingerprint index (replicate n pass_stream) d request w = (w', Returned r)"
  using assms by (induction n arbitrary: index) (auto intro: pass_stream_wrap)

text \<open>
  An interceptor that tries again after the provider opened a stream gets the violation and the
  stream it holds is dropped: nothing but the opening happened to the world, so nothing closed it.
\<close>

definition retrying_interceptor :: "'x stream_interceptor" where
  "retrying_interceptor request = SNext request (\<lambda>first. SNext request
     (\<lambda>second. case second of Panicked b \<Rightarrow> SCrash b | Returned r \<Rightarrow> SRet r))"

lemma violation_leaves_stream_open:
  assumes "fingerprint request = Inr f" "d request w = (w', Returned (Inr sm))"
  shows "\<exists>e. wrapStreamInterceptor fingerprint index retrying_interceptor d request w = (w', Returned (Inl e))"
  using assms
  by (auto simp: wrapStreamInterceptor_def retrying_interceptor_def guard_stream_def new_stream_guard_def
      sameContextUsage_def context_observer_def close_stream_guard_def Let_def)

section \<open>Properties\<close>

text \<open>
  C31.  However many stream interceptors are chained and however they are written, one request opens
  the provider at most once, with a request of the same encoding, operation id and observer.
\<close>

theorem interceptors_open_provider_at_most_once:
  assumes "\<forall>i \<in> set is. \<forall>rq. silent log (i rq)"
    and "\<forall>rq w. log (fst (pd_Stream d rq w)) = log w @ [rq]"
  shows "\<exists>opened. log (fst (stream_chain fingerprint 0 is (pd_Stream d) request w)) = log w @ opened \<and>
    length opened \<le> 1 \<and> (\<forall>c \<in> set opened. fingerprint c = fingerprint request \<and>
      rq_OperationID c = rq_OperationID request \<and> context_observer c = context_observer request)"
proof -
  have "opens_once log fingerprint (pd_Stream d)"
    using assms(2) by (auto simp: opens_once_def same_request_def)
  then have "opens_once log fingerprint (stream_chain fingerprint 0 is (pd_Stream d))"
    by (rule opens_once_chain [OF assms(1)])
  then show ?thesis
    unfolding opens_once_def same_request_def by blast
qed

text \<open>An interceptor that tries twice, on a provider that keeps a log of its openings.\<close>

definition log_request :: "provider_request list opener" where
  "log_request request w = (w\<lparr>w_ext := w_ext w @ [request]\<rparr>, Returned (Inl (sentinel IoEOF)))"

definition log_world :: "provider_request list world" where
  "log_world = \<lparr>w_control = new_control, w_parent_err = None, w_deadline_err = None, w_collector = zero_usage,
     w_summaries = [], w_stream_closed = False, w_ext = []\<rparr>"

lemma silent_retrying: "silent log (retrying_interceptor rq)"
  unfolding retrying_interceptor_def
  by (intro silent_SNext) (auto split: outcome.split intro: silent_SRet silent_SCrash)

theorem interceptors_open_provider_at_most_once_witness:
  "\<exists>opened. w_ext (fst (stream_chain (\<lambda>c. Inr (rq_Model c)) 0 [retrying_interceptor, retrying_interceptor]
      (pd_Stream \<lparr>pd_Name = [], pd_Models = [], pd_Version = [], pd_Stream = log_request\<rparr>)
      quiet_request log_world)) = w_ext log_world @ opened \<and>
    length opened \<le> 1 \<and> (\<forall>c \<in> set opened. Inr (rq_Model c) = (Inr (rq_Model quiet_request) :: go_err + bytes) \<and>
      rq_OperationID c = rq_OperationID quiet_request \<and> context_observer c = context_observer quiet_request)"
  by (rule interceptors_open_provider_at_most_once) (simp_all add: silent_retrying log_request_def)

end
