(* ===== verification/ByteSearch.thy ===== *)
theory ByteSearch
  imports Prelude
begin

text \<open>
  Searching byte strings: \<open>bytes.Index\<close> and \<open>strings.Index\<close>, which the output store and the stream
  adapters use.
\<close>

text \<open>The first occurrence of \<open>query\<close>.\<close>

fun bytes_index :: "bytes \<Rightarrow> bytes \<Rightarrow> nat option" where
  "bytes_index query s = (if take (length query) s = query then Some 0
     else case s of [] \<Rightarrow> None | c # cs \<Rightarrow> map_option Suc (bytes_index query cs))"

declare bytes_index.simps [simp del]

definition occurs :: "bytes \<Rightarrow> bytes \<Rightarrow> nat \<Rightarrow> bool" where
  "occurs query s i \<longleftrightarrow> take (length query) (drop i s) = query"

lemma occurs_bound: "occurs query s i \<Longrightarrow> query \<noteq> [] \<Longrightarrow> i + length query \<le> length s"
proof -
  assume o: "occurs query s i" "query \<noteq> []"
  then have "length query \<le> length s - i"
    unfolding occurs_def by (metis length_drop length_take min.absorb_iff2 min.commute)
  then show ?thesis
    using o(2) by (cases "length s \<le> i") auto
qed

lemma occurs_drop: "occurs query (drop b s) i = occurs query s (b + i)"
  by (simp add: occurs_def add.commute)

lemma occurs_append: "i + length query \<le> length s \<Longrightarrow> occurs query (s @ t) i = occurs query s i"
  by (simp add: occurs_def)

lemma bytes_index_simps:
  "take (length query) s = query \<Longrightarrow> bytes_index query s = Some 0"
  "query \<noteq> [] \<Longrightarrow> bytes_index query [] = None"
  "take (length query) (c # cs) \<noteq> query \<Longrightarrow> bytes_index query (c # cs) = map_option Suc (bytes_index query cs)"
  by (subst bytes_index.simps; simp)+

lemma bytes_index_Some:
  "bytes_index query s = Some i \<Longrightarrow> occurs query s i \<and> (\<forall>j < i. \<not> occurs query s j)"
proof (induction query s arbitrary: i rule: bytes_index.induct)
  case (1 query s)
  show ?case
  proof (cases "occurs query s 0")
    case True
    then show ?thesis
      using 1(2) by (simp add: bytes_index_simps(1) occurs_def)
  next
    case False
    then have "take (length query) s \<noteq> query"
      by (simp add: occurs_def)
    then obtain c cs k where k: "s = c # cs" "bytes_index query cs = Some k" "i = Suc k"
      using 1(2) by (cases s) (auto simp: bytes_index_simps(2,3))
    then have "occurs query cs k \<and> (\<forall>j < k. \<not> occurs query cs j)"
      using 1(1) \<open>take (length query) s \<noteq> query\<close> by blast
    then show ?thesis
      using k False occurs_drop [of query 1 s] by (auto simp: less_Suc_eq_0_disj)
  qed
qed

lemma bytes_index_None: "bytes_index query s = None \<Longrightarrow> \<not> occurs query s i"
proof (induction query s arbitrary: i rule: bytes_index.induct)
  case (1 query s)
  then have zero: "take (length query) s \<noteq> query"
    using bytes_index_simps(1) by fastforce
  show ?case
  proof (cases s)
    case Nil
    then show ?thesis
      using zero by (simp add: occurs_def)
  next
    case (Cons c cs)
    then have "bytes_index query cs = None"
      using 1(2) zero by (simp add: bytes_index_simps(3))
    then have "\<not> occurs query cs j" for j
      using 1(1) zero Cons by blast
    then show ?thesis
      using zero Cons occurs_drop [of query 1 s] by (cases i) (auto simp: occurs_def)
  qed
qed

lemma bytes_indexI: "occurs query s i \<Longrightarrow> (\<And>j. j < i \<Longrightarrow> \<not> occurs query s j) \<Longrightarrow> bytes_index query s = Some i"
  using bytes_index_None [of query s i] bytes_index_Some [of query s]
  by (cases "bytes_index query s") (auto, metis linorder_neqE_nat)

text \<open>Where nothing occurs before \<open>n\<close>, the search may start there.\<close>

lemma bytes_index_skip:
  assumes "\<And>j. j < n \<Longrightarrow> \<not> occurs query s j"
  shows "bytes_index query s = map_option (\<lambda>i. n + i) (bytes_index query (drop n s))"
proof (cases "bytes_index query (drop n s)")
  case None
  have "\<not> occurs query s j" for j
    using assms bytes_index_None [OF None, of "j - n"] by (cases "j < n") (simp_all add: occurs_drop)
  then show ?thesis
    using None bytes_index_Some [of query s] by (cases "bytes_index query s") auto
next
  case (Some i)
  have "\<not> occurs query s j" if "j < n + i" for j
    using assms bytes_index_Some [OF Some] that
    by (cases "j < n") (auto simp: occurs_drop dest!: spec [of _ "j - n"])
  then have "bytes_index query s = Some (n + i)"
    using bytes_index_Some [OF Some] by (intro bytes_indexI) (auto simp: occurs_drop)
  then show ?thesis
    using Some by simp
qed

text \<open>A first occurrence stays the first when more bytes follow.\<close>

lemma bytes_index_append:
  assumes "bytes_index query s = Some i" "query \<noteq> []"
  shows "bytes_index query (s @ t) = Some i"
proof (rule bytes_indexI)
  have i: "occurs query s i" "\<And>j. j < i \<Longrightarrow> \<not> occurs query s j"
    using bytes_index_Some [OF assms(1)] by auto
  have le: "i + length query \<le> length s"
    using occurs_bound [OF i(1) assms(2)] .
  show "occurs query (s @ t) i"
    using i(1) le by (simp add: occurs_append)
  show "\<not> occurs query (s @ t) j" if "j < i" for j
    using i(2) [OF that] le that by (simp add: occurs_append)
qed

end
