(* ===== verification/OutputStore.thy ===== *)
theory OutputStore
  imports Loop SkillBundles ByteSearch
begin

text \<open>
  Oversized tool output: \<open>src/tool/output_store.go\<close>.  The private directory of a store is a map
  from names to files; sha256 in hexadecimal is the argument \<open>sha\<close>.  What the operating system
  answers to the calls of one operation (which may fail at every point) is a record, so every
  failure is a value of it.  The lemmas show that a reference handed out reads back the body it
  stands for, that a published artifact never changes whatever fails, how long a preview is and
  that it stays valid UTF-8, and that a search, which scans a file in pieces, reports the
  occurrences of the query in the whole file.
\<close>

section \<open>Stores\<close>

datatype store_file = RegularFile bytes | SymbolicLink | SpecialFile

record store =
  st_files :: "(bytes \<times> store_file) list"
  st_previewThreshold :: int
  st_readLimit :: int
  st_searchLimit :: int

definition maxOutputArtifactBytes :: nat where
  "maxOutputArtifactBytes = 67108864"

definition artifactScheme :: bytes where
  "artifactScheme = ''artifact://''"

text \<open>What \<open>NewOutputStore\<close> learns of its root: the mode as directory, link and permission bits.\<close>

record root_probe =
  rp_mkdir :: "go_err option"
  rp_lstat :: "go_err + bool \<times> bool \<times> nat"
  rp_resolve :: "go_err option"
  rp_open :: "go_err option"
  rp_files :: "(bytes \<times> store_file) list"

definition NewOutputStore ::
  "bytes \<Rightarrow> root_probe \<Rightarrow> (store \<Rightarrow> store) option list \<Rightarrow> go_err + store" where
  "NewOutputStore root p options =
     (if trim_space root = [] then Inl (new_err ''output store root is empty'') else
      case rp_mkdir p of Some e \<Rightarrow> Inl (wrap_err ''create output store'' e) | None \<Rightarrow>
      case rp_lstat p of Inl e \<Rightarrow> Inl (wrap_err ''inspect output store'' e) | Inr (dir, link, perm) \<Rightarrow>
      if \<not> dir \<or> link then Inl (new_err ''output store root is not a directory'')
      else if perm mod 64 \<noteq> 0 then Inl (new_err ''output store root must be private'') else
      case rp_resolve p of Some e \<Rightarrow> Inl (wrap_err ''resolve output store'' e) | None \<Rightarrow>
      case rp_open p of Some e \<Rightarrow> Inl (wrap_err ''open output store'' e) | None \<Rightarrow>
      let st = fold (\<lambda>option st. case option of None \<Rightarrow> st | Some f \<Rightarrow> f st) options
        \<lparr>st_files = rp_files p, st_previewThreshold = 4096, st_readLimit = 32 * 1024, st_searchLimit = 64 * 1024\<rparr>
      in if st_previewThreshold st < 1 \<or> st_readLimit st < 1 \<or> st_searchLimit st < 1 \<or>
            2 ^ 20 < st_readLimit st \<or> 2 ^ 20 < st_searchLimit st
        then Inl (new_err ''output store limits are outside safe bounds'') else Inr st)"

definition WithPreviewThreshold :: "int \<Rightarrow> store \<Rightarrow> store" where
  "WithPreviewThreshold n st = st\<lparr>st_previewThreshold := n\<rparr>"

definition WithReadLimit :: "int \<Rightarrow> store \<Rightarrow> store" where
  "WithReadLimit n st = st\<lparr>st_readLimit := n\<rparr>"

definition WithSearchLimit :: "int \<Rightarrow> store \<Rightarrow> store" where
  "WithSearchLimit n st = st\<lparr>st_searchLimit := n\<rparr>"

section \<open>References\<close>

definition store_reference :: "(bytes \<Rightarrow> bytes) \<Rightarrow> bytes \<Rightarrow> bytes" where
  "store_reference sha data = artifactScheme @ sha data"

definition hex_digit :: "char \<Rightarrow> bool" where
  "hex_digit c \<longleftrightarrow> CHR ''0'' \<le> c \<and> c \<le> CHR ''9'' \<or> CHR ''a'' \<le> c \<and> c \<le> CHR ''f''"

text \<open>\<open>artifactReferencePattern\<close>.\<close>

definition artifact_pattern :: "bytes \<Rightarrow> bool" where
  "artifact_pattern reference \<longleftrightarrow> take (length artifactScheme) reference = artifactScheme \<and>
     length reference = length artifactScheme + 64 \<and> (\<forall>c \<in> set (drop (length artifactScheme) reference). hex_digit c)"

definition pathFor :: "bytes \<Rightarrow> go_err + bytes" where
  "pathFor reference =
     (if \<not> artifact_pattern reference then Inl (new_err ''invalid artifact reference'')
      else let name = drop (length artifactScheme) reference
      in if name = [] \<or> name = ''.'' \<or> CHR ''/'' \<in> set name
        then Inl (new_err ''artifact reference escapes store'') else Inr name)"

section \<open>Saving\<close>

text \<open>The answers to \<open>Lstat\<close>, \<open>Open\<close> and the hashing of an existing artifact.\<close>

record file_probe =
  fp_lstat :: "go_err option"
  fp_open :: "go_err option"
  fp_read :: "go_err option"

definition mismatch :: go_err where
  "mismatch = new_err ''existing artifact content does not match reference''"

definition matchesExisting ::
  "(bytes \<Rightarrow> bytes) \<Rightarrow> file_probe \<Rightarrow> bytes \<Rightarrow> bytes \<Rightarrow> store \<Rightarrow> go_err + bool" where
  "matchesExisting sha p name data st =
     (case fp_lstat p of Some e \<Rightarrow> Inl (wrap_err ''inspect artifact'' e) | None \<Rightarrow>
      case map_of (st_files st) name of
        None \<Rightarrow> Inr False
      | Some (RegularFile content) \<Rightarrow>
          if length content \<noteq> length data then Inl mismatch else
          (case fp_open p of Some e \<Rightarrow> Inl (wrap_err ''open existing artifact'' e) | None \<Rightarrow>
           case fp_read p of Some e \<Rightarrow> Inl (wrap_err ''hash existing artifact'' e) | None \<Rightarrow>
           if sha (take (length data + 1) content) \<noteq> name then Inl mismatch else Inr True)
      | Some _ \<Rightarrow> Inl mismatch)"

text \<open>
  The answers to the calls of one \<open>save\<close>: \<open>sr_ctx\<close> and \<open>sr_ctx_late\<close> are the two looks at the
  context, \<open>sr_written\<close> the bytes that reached the temporary file, \<open>sr_removed\<close> whether \<open>Remove\<close> works.
\<close>

record save_run =
  sr_ctx :: "go_err option"
  sr_before :: file_probe
  sr_stamp :: bytes
  sr_create :: "go_err option"
  sr_written :: nat
  sr_write :: "go_err option"
  sr_close :: "go_err option"
  sr_ctx_late :: "go_err option"
  sr_rename :: "go_err option"
  sr_removed :: bool
  sr_after :: file_probe

definition temp_name :: "(bytes \<Rightarrow> bytes) \<Rightarrow> bytes \<Rightarrow> bytes \<Rightarrow> bytes" where
  "temp_name sha data stamp = ''.tmp-'' @ sha data @ ''-'' @ stamp"

definition remove_file :: "bool \<Rightarrow> bytes \<Rightarrow> store \<Rightarrow> store" where
  "remove_file works name st = (if works then st\<lparr>st_files := AList.delete name (st_files st)\<rparr> else st)"

definition write_file :: "bytes \<Rightarrow> bytes \<Rightarrow> store \<Rightarrow> store" where
  "write_file name content st = st\<lparr>st_files := AList.update name (RegularFile content) (st_files st)\<rparr>"

definition publish :: "bytes \<Rightarrow> bytes \<Rightarrow> bytes \<Rightarrow> store \<Rightarrow> store" where
  "publish temp name content st =
     st\<lparr>st_files := AList.update name (RegularFile content) (AList.delete temp (st_files st))\<rparr>"

text \<open>The part of \<open>save\<close> under the lock, after the artifact was found missing.\<close>

definition save_new ::
  "(bytes \<Rightarrow> bytes) \<Rightarrow> save_run \<Rightarrow> bytes \<Rightarrow> bytes \<Rightarrow> bytes \<Rightarrow> store \<Rightarrow> store \<times> (go_err + bytes)" where
  "save_new sha r ref name data st =
     (let temp = temp_name sha data (sr_stamp r) in
      case (if map_of (st_files st) temp \<noteq> None then Some (new_err ''file exists'') else sr_create r) of
        Some e \<Rightarrow> (st, Inl (wrap_err ''create artifact'' e))
      | None \<Rightarrow>
      let written = take (sr_written r) data; st1 = write_file temp written st; st2 = remove_file (sr_removed r) temp st1 in
      case sr_write r of Some e \<Rightarrow> (st2, Inl (wrap_err ''write artifact'' e)) | None \<Rightarrow>
      case sr_close r of Some e \<Rightarrow> (st2, Inl (wrap_err ''close artifact'' e)) | None \<Rightarrow>
      if sr_written r \<noteq> length data then (st2, Inl (new_err ''short write'')) else
      case sr_ctx_late r of Some e \<Rightarrow> (st2, Inl e) | None \<Rightarrow>
      case sr_rename r of
        Some e \<Rightarrow> (case matchesExisting sha (sr_after r) name data st2 of
            Inr True \<Rightarrow> (st2, Inr ref)
          | _ \<Rightarrow> (st2, Inl (wrap_err ''publish artifact'' e)))
      | None \<Rightarrow> (publish temp name written st1, Inr ref))"

definition store_save :: "(bytes \<Rightarrow> bytes) \<Rightarrow> save_run \<Rightarrow> bytes \<Rightarrow> store \<Rightarrow> store \<times> (go_err + bytes)" where
  "store_save sha r data st =
     (if maxOutputArtifactBytes < length data then (st, Inl (new_err ''tool output exceeds artifact limit'')) else
      case sr_ctx r of Some e \<Rightarrow> (st, Inl e) | None \<Rightarrow>
      let ref = store_reference sha data in
      case pathFor ref of Inl e \<Rightarrow> (st, Inl e) | Inr name \<Rightarrow>
      case matchesExisting sha (sr_before r) name data st of
        Inl e \<Rightarrow> (st, Inl e)
      | Inr True \<Rightarrow> (st, Inr ref)
      | Inr False \<Rightarrow> save_new sha r ref name data st)"

section \<open>Previews\<close>

definition RuneStart :: "char \<Rightarrow> bool" where
  "RuneStart b \<longleftrightarrow> \<not> cont 0x80 0xBF b"

fun utf8PrefixBoundary :: "bytes \<Rightarrow> nat \<Rightarrow> nat" where
  "utf8PrefixBoundary data 0 = 0"
| "utf8PrefixBoundary data (Suc n) =
     (if Suc n < length data \<and> \<not> RuneStart (data ! Suc n) then utf8PrefixBoundary data n else Suc n)"

function utf8SuffixBoundary :: "bytes \<Rightarrow> nat \<Rightarrow> nat" where
  "utf8SuffixBoundary data start =
     (if start < length data \<and> 0 < start \<and> \<not> RuneStart (data ! start)
        then utf8SuffixBoundary data (Suc start) else start)"
  by auto
termination
  by (relation "measure (\<lambda>(data, start). length data - start)") auto

definition ellipsis :: bytes where
  "ellipsis = [CHR 0xE2, CHR 0x80, CHR 0xA6]"

definition omitted_mark :: bytes where
  "omitted_mark = CHR 0x0A # ''['' @ ellipsis @ '' omitted '' @ ellipsis @ '']'' @ [CHR 0x0A]"

definition stored_marker :: "bytes \<Rightarrow> bytes" where
  "stored_marker ref = ''[stored: '' @ ref @ '']''"

text \<open>The head and the tail kept of a body too long for its budget.\<close>

definition cut_ends :: "bytes \<Rightarrow> nat \<Rightarrow> bytes \<times> bytes" where
  "cut_ends data budget =
     (let headLen = utf8PrefixBoundary data (budget div 2);
          tailStart = utf8SuffixBoundary data (length data - (budget - budget div 2))
      in (take headLen data, drop (max headLen tailStart) data))"

definition store_preview :: "store \<Rightarrow> bytes \<Rightarrow> bytes \<Rightarrow> bytes" where
  "store_preview st data ref =
     (let marker = stored_marker ref;
          budget = st_previewThreshold st - int (length marker) - int (length omitted_mark)
      in if data = [] \<or> budget < 1 then marker
         else if int (length data) \<le> budget then data @ [CHR 0x0A] @ marker
         else (case cut_ends data (nat budget) of
             (front, rear) \<Rightarrow> front @ omitted_mark @ rear @ [CHR 0x0A] @ marker))"

section \<open>Processing a result\<close>

definition isTextPart :: "content_part \<Rightarrow> bool" where
  "isTextPart p \<longleftrightarrow> cp_Kind p \<in> {ContentText, ContentCommentary, ContentFinalAnswer}"

definition text_body :: "content_part list \<Rightarrow> bytes" where
  "text_body parts = concat (map cp_Text (filter isTextPart parts))"

text \<open>The loop that puts the preview in the place of the first text part.\<close>

fun replace_text :: "bytes \<Rightarrow> bool \<Rightarrow> content_part list \<Rightarrow> content_part list" where
  "replace_text preview inserted [] = []"
| "replace_text preview inserted (p # ps) =
     (if isTextPart p then (if inserted then [] else [TextPart preview]) @ replace_text preview True ps
      else p # replace_text preview inserted ps)"

definition processContent ::
  "(bytes \<Rightarrow> bytes) \<Rightarrow> save_run \<Rightarrow> store \<Rightarrow> tool_result \<Rightarrow> store \<times> (go_err + bool \<times> tool_result)" where
  "processContent sha r st result =
     (if int (length (tr_Content result)) \<le> st_previewThreshold st then (st, Inr (False, result))
      else case store_save sha r (tr_Content result) st of
          (st', Inl e) \<Rightarrow> (st', Inl e)
        | (st', Inr ref) \<Rightarrow>
            let marker = store_preview st (tr_Content result) ref;
                result' = (if tr_Parts result \<noteq> []
                  then let grown = result\<lparr>tr_Parts := tr_Parts result @ [TextPart marker]\<rparr>
                       in grown\<lparr>tr_Content := result_TextContent grown\<rparr>
                  else result\<lparr>tr_Content := marker\<rparr>)
            in (st', Inr (True, result')))"

definition processText ::
  "(bytes \<Rightarrow> bytes) \<Rightarrow> save_run \<Rightarrow> store \<Rightarrow> tool_result \<Rightarrow> store \<times> (go_err + bool \<times> tool_result)" where
  "processText sha r st result =
     (let body = text_body (tr_Parts result) in
      if tr_Parts result = [] then processContent sha r st result
      else if st_previewThreshold st < int (length body)
        then (case store_save sha r body st of
            (st', Inl e) \<Rightarrow> (st', Inl e)
          | (st', Inr ref) \<Rightarrow>
              let parts = replace_text (store_preview st body ref) False (tr_Parts result)
              in (st', Inr (True, result\<lparr>tr_Parts := parts,
                    tr_Content := result_TextContent (zero_result\<lparr>tr_Parts := parts\<rparr>)\<rparr>)))
      else if st_previewThreshold st < int (length (tr_Content result)) \<and> tr_Content result \<noteq> result_TextContent result
        then processContent sha r st result
      else (st, Inr (False, result)))"

definition processStructured ::
  "(bytes \<Rightarrow> bytes) \<Rightarrow> save_run \<Rightarrow> store \<Rightarrow> tool_result \<Rightarrow> store \<times> (go_err + bool \<times> tool_result)" where
  "processStructured sha r st result =
     (if int (length (tr_Structured result)) \<le> st_previewThreshold st then (st, Inr (False, result))
      else case store_save sha r (tr_Structured result) st of
          (st', Inl e) \<Rightarrow> (st', Inl e)
        | (st', Inr ref) \<Rightarrow>
            let marker = store_preview st [] ref; bare = result\<lparr>tr_Structured := []\<rparr>;
                result' = (if tr_Parts bare \<noteq> []
                  then let grown = bare\<lparr>tr_Parts := tr_Parts bare @ [TextPart marker]\<rparr>
                       in grown\<lparr>tr_Content := result_TextContent grown\<rparr>
                  else bare\<lparr>tr_Content := (if tr_Content bare = [] then marker
                    else tr_Content bare @ [CHR 0x0A] @ marker)\<rparr>)
            in (st', Inr (True, result')))"

text \<open>\<open>Process\<close>, with the answers to the two saves; the result that comes with an error is the input.\<close>

definition store_Process ::
  "(bytes \<Rightarrow> bytes) \<Rightarrow> go_err option \<Rightarrow> save_run \<Rightarrow> save_run \<Rightarrow> tool_result \<Rightarrow> store
     \<Rightarrow> store \<times> tool_result \<times> go_err option" where
  "store_Process sha ended r1 r2 input st =
     (case ended of Some e \<Rightarrow> (st, input, Some e) | None \<Rightarrow>
      case processText sha r1 st input of
        (st1, Inl e) \<Rightarrow> (st1, input, Some e)
      | (st1, Inr (changed, result)) \<Rightarrow>
      (case processStructured sha r2 st1 result of
        (st2, Inl e) \<Rightarrow> (st2, input, Some e)
      | (st2, Inr (structuredChanged, result')) \<Rightarrow>
          (st2, (if (changed \<or> structuredChanged) \<and> tr_Parts result' = []
             then result'\<lparr>tr_Parts := [TextPart (tr_Content result')]\<rparr> else result'), None)))"

section \<open>Reading\<close>

record read_run =
  rr_lstat :: "go_err option"
  rr_open :: "go_err option"
  rr_seek :: "go_err option"
  rr_read :: "go_err option"

definition openArtifact :: "read_run \<Rightarrow> bytes \<Rightarrow> store \<Rightarrow> go_err + bytes" where
  "openArtifact r name st =
     (case rr_lstat r of Some e \<Rightarrow> Inl (wrap_err ''artifact unavailable'' e) | None \<Rightarrow>
      case map_of (st_files st) name of
        None \<Rightarrow> Inl (new_err ''artifact unavailable'')
      | Some SymbolicLink \<Rightarrow> Inl (new_err ''artifact is a symlink'')
      | Some file \<Rightarrow> (case rr_open r of Some e \<Rightarrow> Inl (wrap_err ''artifact unavailable'' e) | None \<Rightarrow>
          case file of
            RegularFile content \<Rightarrow>
              if maxOutputArtifactBytes < length content then Inl (new_err ''artifact is not a safe regular file'')
              else Inr content
          | _ \<Rightarrow> Inl (new_err ''artifact is not a safe regular file'')))"

definition store_read ::
  "read_run \<Rightarrow> bytes \<Rightarrow> int \<Rightarrow> int \<Rightarrow> store \<Rightarrow> go_err + bytes \<times> nat" where
  "store_read r reference offset limit st =
     (case pathFor reference of Inl e \<Rightarrow> Inl e | Inr name \<Rightarrow>
      if offset < 0 \<or> limit < 1 \<or> st_readLimit st < limit
        then Inl (new_err ''offset must be nonnegative and limit must be 1..readLimit'') else
      case openArtifact r name st of Inl e \<Rightarrow> Inl e | Inr content \<Rightarrow>
      case rr_seek r of Some e \<Rightarrow> Inl (wrap_err ''seek artifact'' e) | None \<Rightarrow>
      case rr_read r of Some e \<Rightarrow> Inl (wrap_err ''read artifact'' e) | None \<Rightarrow>
      Inr (take (nat limit) (drop (nat offset) content), length content))"

section \<open>Searching\<close>

definition validateSearchRequest :: "bytes \<Rightarrow> int \<Rightarrow> int \<Rightarrow> int \<Rightarrow> go_err option" where
  "validateSearchRequest query maxMatches contextBytes responseLimit =
     (if trim_space query = [] then Some (new_err ''query is required'')
      else if maxMatches < 1 \<or> 100 < maxMatches \<or> contextBytes < 0 \<or> responseLimit div 2 < contextBytes
        then Some (new_err ''maxMatches must be 1..100 and context must be 0..responseLimit/2'')
      else None)"

definition formatSearchMatch :: "nat \<Rightarrow> bytes \<Rightarrow> nat \<Rightarrow> nat \<Rightarrow> nat \<Rightarrow> bytes" where
  "formatSearchMatch offset data position queryLength contextBytes =
     (let start = utf8SuffixBoundary data (position - contextBytes);
          stop = utf8PrefixBoundary data (min (length data) (position + queryLength + contextBytes));
          stop = (if stop < position + queryLength then position + queryLength else stop);
          start = (if position < start then position else start);
          snippet = drop start (take stop data);
          snippet = (if 0 < start then ellipsis @ snippet else snippet);
          snippet = (if stop < length data then snippet @ ellipsis else snippet)
      in ''offset='' @ decimal offset @ '': '' @ snippet @ [CHR 0x0A])"

text \<open>What a scan keeps from one piece to the next; \<open>sc_last\<close> is -1 before the first match.\<close>

record scan =
  sc_output :: bytes
  sc_matches :: nat
  sc_last :: int

definition too_small :: go_err where
  "too_small = new_err ''search response limit is too small to report a match''"

text \<open>
  The inner loop over one piece with what was carried over; \<open>Inl\<close> is the answer of a scan that stops
  because the response is full.
\<close>

function scan_piece ::
  "bytes \<Rightarrow> nat \<Rightarrow> nat \<Rightarrow> nat \<Rightarrow> bytes \<Rightarrow> nat \<Rightarrow> nat \<Rightarrow> nat \<Rightarrow> scan \<Rightarrow> (go_err + bytes) + scan" where
  "scan_piece query maxMatches contextBytes responseLimit data base offset position sc =
     (if length data < position + length query \<or> maxMatches \<le> sc_matches sc then Inr sc
      else case bytes_index query (drop position data) of
          None \<Rightarrow> Inr sc
        | Some relative \<Rightarrow>
            let position = position + relative; absolute = base + position in
            if absolute + length query \<le> offset
              then scan_piece query maxMatches contextBytes responseLimit data base offset (position + 1) sc
            else if int absolute \<noteq> sc_last sc
              then let entry = formatSearchMatch absolute data position (length query) contextBytes in
                if responseLimit < length (sc_output sc) + length entry
                  then Inl (if sc_output sc = [] then Inl too_small else Inr (sc_output sc))
                else scan_piece query maxMatches contextBytes responseLimit data base offset (position + 1)
                  \<lparr>sc_output = sc_output sc @ entry, sc_matches = sc_matches sc + 1, sc_last = int absolute\<rparr>
            else scan_piece query maxMatches contextBytes responseLimit data base offset (position + 1) sc)"
  by pat_completeness auto
termination
  by (relation "measure (\<lambda>(query, maxMatches, contextBytes, responseLimit, data, base, offset, position, sc).
      Suc (length data) - position)") auto

declare scan_piece.simps [simp del]

definition outputOrNoMatches :: "bytes \<Rightarrow> bytes" where
  "outputOrNoMatches output = (if output = [] then ''no matches'' else output)"

text \<open>
  How the pieces of a file end: \<open>Read\<close> returns its last bytes with \<open>io.EOF\<close> (none, as a rule) or with
  another error, or the context ends before the next \<open>Read\<close>.
\<close>

datatype file_end = EndOfFile bytes | ReadFailed bytes go_err | ScanEnded go_err

definition scan_overlap :: "bytes \<Rightarrow> nat \<Rightarrow> nat" where
  "scan_overlap query contextBytes = max (length query - 1) contextBytes"

definition next_carry :: "nat \<Rightarrow> bytes \<Rightarrow> bytes" where
  "next_carry overlap data = drop (length data - min overlap (length data)) data"

primrec scan_file ::
  "bytes \<Rightarrow> nat \<Rightarrow> nat \<Rightarrow> nat \<Rightarrow> file_end \<Rightarrow> bytes list \<Rightarrow> bytes \<Rightarrow> nat \<Rightarrow> scan \<Rightarrow> go_err + bytes" where
  "scan_file query maxMatches contextBytes responseLimit stop [] carry offset sc =
     (let piece = (\<lambda>chunk. scan_piece query maxMatches contextBytes responseLimit (carry @ chunk)
            (offset - length carry) offset 0 sc)
      in case stop of
          ScanEnded e \<Rightarrow> Inl e
        | ReadFailed chunk e \<Rightarrow> (case piece chunk of
              Inl answer \<Rightarrow> answer | Inr sc' \<Rightarrow> Inl (wrap_err ''search artifact'' e))
        | EndOfFile chunk \<Rightarrow> (case piece chunk of
              Inl answer \<Rightarrow> answer | Inr sc' \<Rightarrow> Inr (outputOrNoMatches (sc_output sc'))))"
| "scan_file query maxMatches contextBytes responseLimit stop (chunk # chunks) carry offset sc =
     (case scan_piece query maxMatches contextBytes responseLimit (carry @ chunk)
          (offset - length carry) offset 0 sc of
        Inl answer \<Rightarrow> answer
      | Inr sc' \<Rightarrow> scan_file query maxMatches contextBytes responseLimit stop chunks
          (next_carry (scan_overlap query contextBytes) (carry @ chunk)) (offset + length chunk) sc')"

definition scanSearch :: "bytes \<Rightarrow> nat \<Rightarrow> nat \<Rightarrow> nat \<Rightarrow> bytes list \<Rightarrow> file_end \<Rightarrow> go_err + bytes" where
  "scanSearch query maxMatches contextBytes responseLimit chunks stop =
     scan_file query maxMatches contextBytes responseLimit stop chunks [] 0
       \<lparr>sc_output = [], sc_matches = 0, sc_last = -1\<rparr>"

text \<open>How the operating system cuts a file into pieces is the argument \<open>pieces\<close>.\<close>

definition store_search ::
  "read_run \<Rightarrow> (bytes \<Rightarrow> bytes list \<times> file_end) \<Rightarrow> bytes \<Rightarrow> bytes \<Rightarrow> int \<Rightarrow> int \<Rightarrow> store \<Rightarrow> go_err + bytes" where
  "store_search r pieces reference query maxMatches contextBytes st =
     (case validateSearchRequest query maxMatches contextBytes (st_searchLimit st) of Some e \<Rightarrow> Inl e | None \<Rightarrow>
      case pathFor reference of Inl e \<Rightarrow> Inl e | Inr name \<Rightarrow>
      case openArtifact r name st of Inl e \<Rightarrow> Inl e | Inr content \<Rightarrow>
      (case pieces content of (chunks, stop) \<Rightarrow>
         scanSearch query (nat maxMatches) (nat contextBytes) (nat (st_searchLimit st)) chunks stop))"

section \<open>The tools of a store\<close>

definition definitionSchema :: "(bytes \<times> json_schema) list \<Rightarrow> bytes list \<Rightarrow> json_schema" where
  "definitionSchema properties required = JSONSchema ''object'' [] properties required None [] (Some False)"

text \<open>Arguments are decoded by \<open>encoding/json\<close>: the arguments \<open>decode_read\<close> and \<open>decode_search\<close>.\<close>

definition failed_answer :: "(go_err \<Rightarrow> bytes) \<Rightarrow> go_err \<Rightarrow> tool_result" where
  "failed_answer error_text e = zero_result\<lparr>tr_Content := error_text e, tr_IsError := True\<rparr>"

definition artifactRead_Execute ::
  "(go_err \<Rightarrow> bytes) \<Rightarrow> (bytes \<Rightarrow> go_err + bytes \<times> int \<times> int) \<Rightarrow> go_err option \<Rightarrow> read_run
     \<Rightarrow> tool_call \<Rightarrow> store \<Rightarrow> go_err + tool_result" where
  "artifactRead_Execute error_text decode_read ended r call st =
     (case decode_read (tc_Arguments call) of Inl e \<Rightarrow> Inl e | Inr (reference, offset, limit) \<Rightarrow>
      case ended of Some e \<Rightarrow> Inl e | None \<Rightarrow>
      case store_read r reference offset limit st of
        Inl e \<Rightarrow> Inr (failed_answer error_text e)
      | Inr (data, extent) \<Rightarrow> Inr (zero_result\<lparr>tr_Content :=
          ''offset='' @ decimal (nat offset) @ '' size='' @ decimal extent @ [CHR 0x0A] @ data\<rparr>))"

definition artifactSearch_Execute ::
  "(go_err \<Rightarrow> bytes) \<Rightarrow> (bytes \<Rightarrow> go_err + bytes \<times> bytes \<times> int \<times> int) \<Rightarrow> go_err option \<Rightarrow> read_run
     \<Rightarrow> (bytes \<Rightarrow> bytes list \<times> file_end) \<Rightarrow> tool_call \<Rightarrow> store \<Rightarrow> go_err + tool_result" where
  "artifactSearch_Execute error_text decode_search ended r pieces call st =
     (case decode_search (tc_Arguments call) of Inl e \<Rightarrow> Inl e | Inr (reference, query, maxMatches, contextBytes) \<Rightarrow>
      let maxMatches = (if maxMatches = 0 then 20 else maxMatches) in
      case ended of Some e \<Rightarrow> Inl e | None \<Rightarrow>
      case store_search r pieces reference query maxMatches contextBytes st of
        Inl e \<Rightarrow> Inr (failed_answer error_text e)
      | Inr content \<Rightarrow> Inr (zero_result\<lparr>tr_Content := content\<rparr>))"

definition artifact_definition :: "bytes \<Rightarrow> bytes \<Rightarrow> json_schema \<Rightarrow> tool_definition" where
  "artifact_definition name description schema = \<lparr>td_Name = name, td_Description = description,
     td_InputSchema = schema, td_Terminal = False, td_Timeout = 0, td_Concurrency = ConcurrencyOther [],
     td_ConcurrencyGroup = [], td_MaxConcurrency = 0\<rparr>"

definition typed :: "bytes \<Rightarrow> json_schema" where
  "typed ty = JSONSchema ty [] [] [] None [] None"

definition artifactRead_Definition :: tool_definition where
  "artifactRead_Definition = artifact_definition ''tool_output_read''
     ''Read a bounded byte range from a stored tool output. Use the exact artifact:// reference from the tool result.''
     (definitionSchema [(''reference'', typed ''string''), (''offset'', typed ''integer''), (''limit'', typed ''integer'')]
       [''reference'', ''offset'', ''limit''])"

definition artifactSearch_Definition :: tool_definition where
  "artifactSearch_Definition = artifact_definition ''tool_output_search''
     ''Search a stored tool output for a query and return bounded matching lines.''
     (definitionSchema [(''reference'', typed ''string''), (''query'', typed ''string''),
       (''maxMatches'', typed ''integer''), (''context'', typed ''integer'')] [''reference'', ''query''])"

text \<open>
  A store as the engine sees it: it lives in the world, and the answers of the operating system and
  of the decoders are read off the world.
\<close>

record 'x store_io =
  si_get :: "'x world \<Rightarrow> store"
  si_put :: "store \<Rightarrow> 'x world \<Rightarrow> 'x world"
  si_sha :: "bytes \<Rightarrow> bytes"
  si_ctx :: "'x world \<Rightarrow> go_err option"
  si_saves :: "'x world \<Rightarrow> save_run \<times> save_run"
  si_read :: "'x world \<Rightarrow> read_run"
  si_pieces :: "bytes \<Rightarrow> bytes list \<times> file_end"
  si_decode_read :: "bytes \<Rightarrow> go_err + bytes \<times> int \<times> int"
  si_decode_search :: "bytes \<Rightarrow> go_err + bytes \<times> bytes \<times> int \<times> int"
  si_error_text :: "go_err \<Rightarrow> bytes"

definition answered :: "go_err + tool_result \<Rightarrow> ('w, tool_result \<times> go_err option) prog" where
  "answered x = Ret (case x of Inl e \<Rightarrow> (zero_result, Some e) | Inr r \<Rightarrow> (r, None))"

definition store_Tools :: "'x store_io \<Rightarrow> 'x world tool list" where
  "store_Tools io =
     [\<lparr>tl_Definition = artifactRead_Definition, tl_Execute = (\<lambda>call. Do (\<lambda>w. (w, answered
        (artifactRead_Execute (si_error_text io) (si_decode_read io) (si_ctx io w) (si_read io w) call (si_get io w)))))\<rparr>,
      \<lparr>tl_Definition = artifactSearch_Definition, tl_Execute = (\<lambda>call. Do (\<lambda>w. (w, answered
        (artifactSearch_Execute (si_error_text io) (si_decode_search io) (si_ctx io w) (si_read io w) (si_pieces io)
           call (si_get io w)))))\<rparr>]"

definition engine_store :: "'x store_io \<Rightarrow> 'x output_store" where
  "engine_store io = \<lparr>os_Tools = store_Tools io,
     os_Process = (\<lambda>input w. case si_saves io w of (r1, r2) \<Rightarrow>
       (case store_Process (si_sha io) (si_ctx io w) r1 r2 input (si_get io w) of
          (st, result, None) \<Rightarrow> (si_put io st w, Returned (Inr result))
        | (st, result, Some e) \<Rightarrow> (si_put io st w, Returned (Inl e))))\<rparr>"

section \<open>Artifacts\<close>

definition artifact_name :: "bytes \<Rightarrow> bool" where
  "artifact_name name \<longleftrightarrow> length name = 64 \<and> (\<forall>c \<in> set name. hex_digit c)"

text \<open>A digest in hexadecimal, as sha256 gives.\<close>

definition hex_sha :: "(bytes \<Rightarrow> bytes) \<Rightarrow> bool" where
  "hex_sha sha \<longleftrightarrow> (\<forall>data. artifact_name (sha data))"

lemma not_hex [simp]: "\<not> hex_digit CHR ''.''" "\<not> hex_digit CHR ''/''"
  by (simp_all add: hex_digit_def less_eq_char_def)

lemma artifact_name_temp [simp]: "\<not> artifact_name (temp_name sha data stamp)"
  by (simp add: artifact_name_def temp_name_def)

lemma pathFor_reference:
  assumes "hex_sha sha"
  shows "pathFor (store_reference sha data) = Inr (sha data)"
proof -
  have hex: "length (sha data) = 64" "\<forall>c \<in> set (sha data). hex_digit c"
    using assms by (auto simp: hex_sha_def artifact_name_def)
  then have "CHR ''/'' \<notin> set (sha data)" "sha data \<noteq> []" "sha data \<noteq> ''.''"
    using not_hex(2) by auto
  then show ?thesis
    using hex by (simp add: pathFor_def artifact_pattern_def store_reference_def)
qed

text \<open>Every artifact has the content its name stands for; later states keep it.\<close>

definition intact :: "(bytes \<Rightarrow> bytes) \<Rightarrow> store \<Rightarrow> bool" where
  "intact sha st \<longleftrightarrow> (\<forall>name file. artifact_name name \<and> map_of (st_files st) name = Some file \<longrightarrow>
     (\<exists>content. file = RegularFile content \<and> sha content = name))"

definition keeps_artifacts :: "store \<Rightarrow> store \<Rightarrow> bool" where
  "keeps_artifacts st st' \<longleftrightarrow>
     (\<forall>name file. artifact_name name \<and> map_of (st_files st) name = Some file \<longrightarrow> map_of (st_files st') name = Some file) \<and>
     st_previewThreshold st' = st_previewThreshold st \<and> st_readLimit st' = st_readLimit st \<and>
     st_searchLimit st' = st_searchLimit st"

lemma keeps_artifacts_refl [simp]: "keeps_artifacts st st"
  by (simp add: keeps_artifacts_def)

lemma keeps_artifacts_trans: "keeps_artifacts a b \<Longrightarrow> keeps_artifacts b c \<Longrightarrow> keeps_artifacts a c"
  by (simp add: keeps_artifacts_def)

lemma scratch_file:
  assumes "\<not> artifact_name temp"
  shows "intact sha (write_file temp content st) = intact sha st" "keeps_artifacts st (write_file temp content st)"
    "intact sha st \<Longrightarrow> intact sha (remove_file works temp st)" "keeps_artifacts st (remove_file works temp st)"
    "map_of (st_files (remove_file works temp (write_file temp content st))) name =
       (if name = temp then (if works then None else Some (RegularFile content)) else map_of (st_files st) name)"
  using assms
  by (auto simp: intact_def keeps_artifacts_def write_file_def remove_file_def update_conv' delete_conv')

lemma publish_file:
  assumes "\<not> artifact_name temp" "map_of (st_files st) (sha content) = None"
  shows "intact sha st \<Longrightarrow> intact sha (publish temp (sha content) content st)"
    "keeps_artifacts st (publish temp (sha content) content st)"
    "map_of (st_files (publish temp (sha content) content st)) (sha content) = Some (RegularFile content)"
  using assms by (auto simp: intact_def keeps_artifacts_def publish_def update_conv' delete_conv')

lemma matchesExisting_True:
  "matchesExisting sha p name data st = Inr True \<Longrightarrow>
     \<exists>content. map_of (st_files st) name = Some (RegularFile content) \<and> length content = length data \<and> sha content = name"
  by (auto simp: matchesExisting_def split: option.splits store_file.splits if_splits)

lemma matchesExisting_False: "matchesExisting sha p name data st = Inr False \<Longrightarrow> map_of (st_files st) name = None"
  by (auto simp: matchesExisting_def split: option.splits store_file.splits if_splits)

definition saved :: "(bytes \<Rightarrow> bytes) \<Rightarrow> bytes \<Rightarrow> store \<Rightarrow> store \<Rightarrow> bool" where
  "saved sha data st st' \<longleftrightarrow> length data \<le> maxOutputArtifactBytes \<and>
     (\<exists>content. map_of (st_files st') (sha data) = Some (RegularFile content) \<and> length content = length data \<and>
        sha content = sha data \<and> (content = data \<or> map_of (st_files st) (sha data) = Some (RegularFile content)))"

lemma save_new_artifacts:
  assumes "hex_sha sha" "map_of (st_files st) (sha data) = None"
    and run: "save_new sha r ref (sha data) data st = (st', x)"
  shows "keeps_artifacts st st' \<and> (intact sha st \<longrightarrow> intact sha st') \<and>
    (\<forall>ref'. x = Inr ref' \<longrightarrow> ref' = ref \<and> (length data \<le> maxOutputArtifactBytes \<longrightarrow> saved sha data st st'))"
proof -
  let ?temp = "temp_name sha data (sr_stamp r)"
  let ?st1 = "write_file ?temp (take (sr_written r) data) st"
  let ?st2 = "remove_file (sr_removed r) ?temp ?st1"
  have temp: "\<not> artifact_name ?temp" "artifact_name (sha data)" "sha data \<noteq> ?temp"
    using assms(1) by (auto simp: hex_sha_def) (metis artifact_name_temp)
  have st2: "keeps_artifacts st ?st2" "intact sha st \<longrightarrow> intact sha ?st2"
    using scratch_file(2,4) [OF temp(1)] keeps_artifacts_trans scratch_file(1,3) [OF temp(1)] by blast+
  consider (same) "st' = st" "\<exists>e. x = Inl e"
    | (removed) "st' = ?st2" "(\<exists>e. x = Inl e) \<or> x = Inr ref \<and> matchesExisting sha (sr_after r) (sha data) data ?st2 = Inr True"
    | (published) "st' = publish ?temp (sha data) data ?st1" "x = Inr ref"
    using run by (auto simp: save_new_def Let_def split: option.splits if_splits sum.splits bool.splits)
  then show ?thesis
  proof cases
    case removed
    have "matchesExisting sha (sr_after r) (sha data) data ?st2 \<noteq> Inr True"
      using matchesExisting_True [of sha "sr_after r" "sha data" data ?st2] assms(2) temp(3)
      by (auto simp: scratch_file(5) [OF temp(1)])
    then show ?thesis
      using removed st2 by auto
  next
    case published
    have none: "map_of (st_files ?st1) (sha data) = None"
      using assms(2) temp(3) by (simp add: write_file_def update_conv')
    note publish = publish_file [where sha = sha and content = data, OF temp(1) none]
    have "keeps_artifacts st st'"
      using publish(2) scratch_file(2) [OF temp(1)] keeps_artifacts_trans unfolding published(1) by blast
    moreover have "intact sha st \<longrightarrow> intact sha st'"
      using publish(1) scratch_file(1) [OF temp(1)] unfolding published(1) by blast
    ultimately show ?thesis
      using publish(3) published by (simp add: saved_def)
  qed auto
qed

lemma store_save_artifacts:
  assumes "hex_sha sha" "store_save sha r data st = (st', x)"
  shows "keeps_artifacts st st' \<and> (intact sha st \<longrightarrow> intact sha st') \<and>
    (\<forall>ref. x = Inr ref \<longrightarrow> ref = store_reference sha data \<and> saved sha data st st')"
proof -
  consider (failed) "st' = st" "\<exists>e. x = Inl e"
    | (there) "st' = st" "x = Inr (store_reference sha data)" "length data \<le> maxOutputArtifactBytes"
        "matchesExisting sha (sr_before r) (sha data) data st = Inr True"
    | (fresh) "length data \<le> maxOutputArtifactBytes" "map_of (st_files st) (sha data) = None"
        "save_new sha r (store_reference sha data) (sha data) data st = (st', x)"
    using assms(2)
    by (auto simp: store_save_def Let_def pathFor_reference [OF assms(1)]
        split: option.splits if_splits sum.splits bool.splits dest: matchesExisting_False)
  then show ?thesis
  proof cases
    case there
    then show ?thesis
      using matchesExisting_True [OF there(4)] by (auto simp: saved_def)
  next
    case fresh
    then show ?thesis
      using save_new_artifacts [OF assms(1) fresh(2,3)] by auto
  qed auto
qed

text \<open>A save that succeeds touches no other published artifact.\<close>

lemma store_save_others:
  assumes "hex_sha sha" "store_save sha r data st = (st', Inr ref)" "sha data \<noteq> sha other"
  shows "map_of (st_files st') (sha other) = map_of (st_files st) (sha other)"
proof -
  let ?temp = "temp_name sha data (sr_stamp r)"
  have "sha other \<noteq> ?temp"
    using assms(1) artifact_name_temp by (metis hex_sha_def)
  then show ?thesis
    using assms(2,3)
    by (auto simp: store_save_def save_new_def Let_def pathFor_reference [OF assms(1)] write_file_def remove_file_def
        publish_def update_conv' delete_conv' split: option.splits if_splits sum.splits bool.splits)
qed

text \<open>What one of the three steps of \<open>Process\<close> does to the store.\<close>

lemma process_artifacts:
  assumes "hex_sha sha"
  shows "processContent sha r st result = (st', x) \<Longrightarrow> keeps_artifacts st st' \<and> (intact sha st \<longrightarrow> intact sha st')"
    and "processText sha r st result = (st', x) \<Longrightarrow> keeps_artifacts st st' \<and> (intact sha st \<longrightarrow> intact sha st')"
    and "processStructured sha r st result = (st', x) \<Longrightarrow> keeps_artifacts st st' \<and> (intact sha st \<longrightarrow> intact sha st')"
proof -
  show content: "keeps_artifacts st st' \<and> (intact sha st \<longrightarrow> intact sha st')"
    if "processContent sha r st result = (st', x)" for st' x
    using that store_save_artifacts [OF assms]
    by (auto simp: processContent_def Let_def split: if_splits prod.splits sum.splits)
  show "processText sha r st result = (st', x) \<Longrightarrow> keeps_artifacts st st' \<and> (intact sha st \<longrightarrow> intact sha st')"
    using content store_save_artifacts [OF assms]
    by (auto simp: processText_def Let_def split: if_splits prod.splits sum.splits)
  show "processStructured sha r st result = (st', x) \<Longrightarrow> keeps_artifacts st st' \<and> (intact sha st \<longrightarrow> intact sha st')"
    using store_save_artifacts [OF assms]
    by (auto simp: processStructured_def Let_def split: if_splits prod.splits sum.splits)
qed

section \<open>Previews stay readable\<close>

definition is_rune :: "bytes \<Rightarrow> bool" where
  "is_rune r \<longleftrightarrow> (case r of
       [a] \<Rightarrow> cont 0 0x7F a | [a, b] \<Rightarrow> rune2 a b | [a, b, c] \<Rightarrow> rune3 a b c | [a, b, c, d] \<Rightarrow> rune4 a b c d | _ \<Rightarrow> False)"

definition valid_utf8 :: "bytes \<Rightarrow> bool" where
  "valid_utf8 s \<longleftrightarrow> (\<exists>rs. s = concat rs \<and> (\<forall>r \<in> set rs. is_rune r))"

lemma valid_utf8_append: "valid_utf8 s \<Longrightarrow> valid_utf8 t \<Longrightarrow> valid_utf8 (s @ t)"
  unfolding valid_utf8_def by (metis Un_iff concat_append set_append)

lemma valid_utf8_Nil [simp]: "valid_utf8 []"
  unfolding valid_utf8_def by (rule exI [of _ "[]"]) simp

lemma valid_utf8_rune: "is_rune r \<Longrightarrow> valid_utf8 r"
  unfolding valid_utf8_def by (rule exI [of _ "[r]"]) simp

lemma valid_utf8_ascii: "\<forall>c \<in> set s. cont 0 0x7F c \<Longrightarrow> valid_utf8 s"
proof (induction s)
  case (Cons c s)
  then show ?case
    using valid_utf8_append [OF valid_utf8_rune [of "[c]"], of s] by (simp add: is_rune_def)
qed simp

lemma rune_tail:
  assumes "is_rune r" "0 < i" "i < length r"
  shows "\<not> RuneStart (r ! i)"
proof -
  have "cont 0x80 0xBF (r ! i)"
    using assms
    by (auto simp: is_rune_def rune2_def rune3_def rune4_def cont_def less_Suc_eq numeral_2_eq_2 numeral_3_eq_3
        split: list.splits)
  then show ?thesis
    by (simp add: RuneStart_def)
qed

definition rune_edge :: "bytes \<Rightarrow> nat \<Rightarrow> bool" where
  "rune_edge s i \<longleftrightarrow> i = 0 \<or> length s \<le> i \<or> RuneStart (s ! i)"

lemma valid_utf8_cut:
  assumes "valid_utf8 s" "rune_edge s i"
  shows "valid_utf8 (take i s) \<and> valid_utf8 (drop i s)"
proof -
  obtain rs where rs: "s = concat rs" "\<forall>r \<in> set rs. is_rune r"
    using assms(1) by (auto simp: valid_utf8_def)
  have "valid_utf8 (take i (concat rs)) \<and> valid_utf8 (drop i (concat rs))"
    using rs(2) assms(2) [unfolded rs(1)]
  proof (induction rs arbitrary: i)
    case (Cons r rs)
    have tail: "valid_utf8 (concat rs)"
      using Cons.prems(1) by (auto simp: valid_utf8_def)
    have r: "valid_utf8 r"
      using Cons.prems(1) valid_utf8_rune by simp
    show ?case
    proof (cases "i < length r")
      case True
      then have "i = 0"
        using Cons.prems rune_tail [of r i] by (auto simp: rune_edge_def nth_append)
      then show ?thesis
        using valid_utf8_append [OF r tail] by simp
    next
      case False
      have "rune_edge (concat rs) (i - length r)"
        using False Cons.prems(2) by (auto simp: rune_edge_def nth_append)
      then show ?thesis
        using Cons.IH [of "i - length r"] Cons.prems(1) valid_utf8_append [OF r] False by simp
    qed
  qed simp
  then show ?thesis
    by (simp add: rs(1))
qed

lemma prefix_boundary: "utf8PrefixBoundary data n \<le> n \<and> rune_edge data (utf8PrefixBoundary data n)"
  by (induction n) (auto simp: rune_edge_def)

lemma suffix_boundary: "n \<le> utf8SuffixBoundary data n \<and> rune_edge data (utf8SuffixBoundary data n)"
proof (induction data n rule: utf8SuffixBoundary.induct)
  case (1 data start)
  then show ?case
    by (subst (1 2) utf8SuffixBoundary.simps) (auto simp: rune_edge_def simp del: utf8SuffixBoundary.simps)
qed

declare utf8SuffixBoundary.simps [simp del]

lemma cut_ends_spec:
  assumes "cut_ends data budget = (front, rear)" "budget \<le> length data"
  shows "length front + length rear \<le> budget \<and> prefix front data \<and> suffix rear data \<and>
    (valid_utf8 data \<longrightarrow> valid_utf8 front \<and> valid_utf8 rear)"
proof -
  let ?h = "utf8PrefixBoundary data (budget div 2)" and ?n = "length data - (budget - budget div 2)"
  let ?t = "max ?h (utf8SuffixBoundary data ?n)"
  have eq: "front = take ?h data" "rear = drop ?t data"
    using assms(1) by (auto simp: cut_ends_def Let_def)
  have "rune_edge data ?t"
    using prefix_boundary suffix_boundary by (simp add: max_def)
  moreover have "?h \<le> budget div 2" "?n \<le> ?t"
    using prefix_boundary suffix_boundary le_max_iff_disj by blast+
  moreover have "length front \<le> ?h" "length rear \<le> length data - ?n"
    using \<open>?n \<le> ?t\<close> by (simp_all only: eq length_take length_drop) linarith+
  ultimately have "length front + length rear \<le> budget"
    using assms(2) by linarith
  then show ?thesis
    using \<open>rune_edge data ?t\<close> prefix_boundary [of data "budget div 2"] valid_utf8_cut
    by (simp add: eq take_is_prefix suffix_drop)
qed

lemma omitted_mark_length [simp]: "length omitted_mark = 19"
  by (simp add: omitted_mark_def ellipsis_def)

lemma preview_length:
  "int (length (store_preview st data ref)) \<le> max (st_previewThreshold st + 1) (int (length (stored_marker ref)))"
proof -
  have "length front + length rear \<le> budget" if "cut_ends data budget = (front, rear)" "budget < length data"
    for budget front rear
    using cut_ends_spec [OF that(1)] that(2) by simp
  then show ?thesis
    by (fastforce simp: store_preview_def Let_def split: prod.split)
qed

lemma stored_marker_suffix: "suffix (stored_marker ref) (store_preview st data ref)"
  by (auto simp: store_preview_def Let_def suffix_def split: prod.split)

section \<open>What is taken out of a result\<close>

text \<open>
  The bodies an oversized result gives away: the text of its parts, or its content when that is too
  long and says something the parts do not; and its structured value.
\<close>

definition text_out :: "store \<Rightarrow> tool_result \<Rightarrow> bytes list" where
  "text_out st input =
     (if tr_Parts input \<noteq> [] \<and> st_previewThreshold st < int (length (text_body (tr_Parts input)))
        then [text_body (tr_Parts input)]
      else if st_previewThreshold st < int (length (tr_Content input)) \<and>
              (tr_Parts input = [] \<or> tr_Content input \<noteq> text_body (tr_Parts input))
        then [tr_Content input]
      else [])"

definition taken_out :: "store \<Rightarrow> tool_result \<Rightarrow> bytes list" where
  "taken_out st input = text_out st input @
     (if st_previewThreshold st < int (length (tr_Structured input)) then [tr_Structured input] else [])"

text \<open>The model sees the marker, in the content and in the text of the parts.\<close>

definition marked :: "bytes \<Rightarrow> tool_result \<Rightarrow> bool" where
  "marked ref result \<longleftrightarrow> sublist (stored_marker ref) (tr_Content result) \<and>
     (tr_Parts result \<noteq> [] \<longrightarrow> sublist (stored_marker ref) (text_body (tr_Parts result)))"

lemma textForKinds_body: "textForKinds parts answer_kinds = text_body parts"
  by (induction parts) (auto simp: text_body_def isTextPart_def)

lemma text_content_body: "tr_Parts result \<noteq> [] \<Longrightarrow> result_TextContent result = text_body (tr_Parts result)"
  by (simp add: result_TextContent_def result_CanonicalContent_def textForKinds_body)

lemma text_body_simps [simp]:
  "text_body [] = []" "text_body (ps @ qs) = text_body ps @ text_body qs" "text_body [TextPart t] = t"
  by (simp_all add: text_body_def isTextPart_def TextPart_def)

lemma text_body_Cons: "text_body (p # ps) = (if isTextPart p then cp_Text p else []) @ text_body ps"
  by (simp add: text_body_def)

lemma isTextPart_TextPart [simp]: "isTextPart (TextPart t)" "cp_Text (TextPart t) = t"
  by (simp_all add: isTextPart_def TextPart_def)

lemma replace_text_body:
  "text_body (replace_text preview inserted ps) = (if inserted \<or> \<not> list_ex isTextPart ps then [] else preview)"
  by (induction preview inserted ps rule: replace_text.induct) (auto simp: text_body_Cons)

lemma text_body_part: "text_body ps \<noteq> [] \<Longrightarrow> list_ex isTextPart ps"
  by (induction ps) (auto simp: text_body_Cons split: if_splits)

lemma marker_in_preview: "sublist (stored_marker ref) (store_preview st data ref)"
  by (rule suffix_imp_sublist) (rule stored_marker_suffix)

lemma sublist_front: "sublist xs ys \<Longrightarrow> sublist xs (ys @ zs)"
  and sublist_rear: "sublist xs zs \<Longrightarrow> sublist xs (ys @ zs)"
  by (meson sublist_append_rightI sublist_append_leftI sublist_order.order_trans)+

text \<open>The two steps of \<open>Process\<close>, when they succeed.\<close>

lemma processContent_marks:
  assumes "hex_sha sha" "processContent sha r st input = (st', Inr (changed, result))"
    and "st_previewThreshold st < int (length (tr_Content input))"
  shows "changed \<and> store_save sha r (tr_Content input) st = (st', Inr (store_reference sha (tr_Content input))) \<and>
    marked (store_reference sha (tr_Content input)) result \<and> tr_Structured result = tr_Structured input"
proof -
  let ?ref = "store_reference sha (tr_Content input)"
  let ?grown = "input\<lparr>tr_Parts := tr_Parts input @ [TextPart (store_preview st (tr_Content input) ?ref)]\<rparr>"
  obtain ref where save: "store_save sha r (tr_Content input) st = (st', Inr ref)"
    using assms(2,3) by (auto simp: processContent_def Let_def split: prod.splits sum.splits)
  then have ref: "ref = ?ref"
    using store_save_artifacts [OF assms(1) save] by simp
  have "result_TextContent ?grown = text_body (tr_Parts ?grown)"
    by (rule text_content_body) simp
  then show ?thesis
    using assms(2,3) save ref marker_in_preview [of ?ref st "tr_Content input"]
    by (auto simp: processContent_def Let_def marked_def intro: sublist_rear)
qed

lemma processText_marks:
  assumes "hex_sha sha" "processText sha r st input = (st', Inr (changed, result))" "0 \<le> st_previewThreshold st"
  shows "(text_out st input = [] \<and> \<not> changed \<and> st' = st \<and> result = input) \<or>
    (\<exists>body. text_out st input = [body] \<and> changed \<and> store_save sha r body st = (st', Inr (store_reference sha body)) \<and>
       marked (store_reference sha body) result \<and> tr_Structured result = tr_Structured input)"
proof -
  let ?body = "text_body (tr_Parts input)" and ?thr = "st_previewThreshold st"
  consider (parts) "tr_Parts input \<noteq> []" "?thr < int (length ?body)"
    | (content) "\<not> (tr_Parts input \<noteq> [] \<and> ?thr < int (length ?body))" "?thr < int (length (tr_Content input))"
        "tr_Parts input = [] \<or> tr_Content input \<noteq> ?body"
    | (small) "\<not> (tr_Parts input \<noteq> [] \<and> ?thr < int (length ?body))"
        "\<not> (?thr < int (length (tr_Content input)) \<and> (tr_Parts input = [] \<or> tr_Content input \<noteq> ?body))"
    by blast
  then show ?thesis
  proof cases
    case parts
    let ?parts = "\<lambda>ref. replace_text (store_preview st ?body ref) False (tr_Parts input)"
    obtain ref where save: "store_save sha r ?body st = (st', Inr ref)"
      and result: "result = input\<lparr>tr_Parts := ?parts ref, tr_Content := result_TextContent (zero_result\<lparr>tr_Parts := ?parts ref\<rparr>)\<rparr>"
      and changed: changed
      using assms(2) parts by (auto simp: processText_def Let_def split: prod.splits sum.splits)
    have ref: "ref = store_reference sha ?body"
      using store_save_artifacts [OF assms(1) save] by simp
    have "?body \<noteq> []"
      using parts(2) assms(3) by auto
    then have body: "text_body (?parts ref) = store_preview st ?body ref"
      using text_body_part replace_text_body [of "store_preview st ?body ref" False] by simp
    have "store_preview st ?body ref \<noteq> []"
      using stored_marker_suffix [of ref st ?body] by (auto simp: stored_marker_def)
    then have "?parts ref \<noteq> []"
      using body by auto
    then have "tr_Content result = store_preview st ?body ref" "text_body (tr_Parts result) = store_preview st ?body ref"
      using body text_content_body [of "zero_result\<lparr>tr_Parts := ?parts ref\<rparr>"] by (simp_all add: result)
    then show ?thesis
      using parts save ref changed marker_in_preview [of ref st ?body] by (simp add: text_out_def marked_def result)
  next
    case content
    have "processContent sha r st input = (st', Inr (changed, result))"
      using assms(2) content by (cases "tr_Parts input = []") (simp_all add: processText_def Let_def text_content_body)
    from processContent_marks [OF assms(1) this content(2)] show ?thesis
      using content by (auto simp: text_out_def)
  next
    case small
    then have "text_out st input = [] \<and> \<not> changed \<and> st' = st \<and> result = input"
      using assms(2) by (cases "tr_Parts input = []") (auto simp: processText_def processContent_def text_out_def Let_def
          text_content_body split: if_splits)
    then show ?thesis
      by simp
  qed
qed

lemma processStructured_marks:
  assumes "hex_sha sha" "processStructured sha r st input = (st', Inr (changed, result))"
  shows "if st_previewThreshold st < int (length (tr_Structured input))
    then changed \<and> store_save sha r (tr_Structured input) st = (st', Inr (store_reference sha (tr_Structured input))) \<and>
      marked (store_reference sha (tr_Structured input)) result \<and> (\<forall>ref. marked ref input \<longrightarrow> marked ref result)
    else \<not> changed \<and> st' = st \<and> result = input"
proof (cases "st_previewThreshold st < int (length (tr_Structured input))")
  case True
  let ?ref = "store_reference sha (tr_Structured input)"
  let ?grown = "input\<lparr>tr_Structured := [], tr_Parts := tr_Parts input @ [TextPart (store_preview st [] ?ref)]\<rparr>"
  obtain ref where save: "store_save sha r (tr_Structured input) st = (st', Inr ref)"
    using assms(2) True by (auto simp: processStructured_def Let_def split: prod.splits sum.splits)
  then have ref: "ref = ?ref"
    using store_save_artifacts [OF assms(1) save] by simp
  have grown: "result_TextContent ?grown = text_body (tr_Parts ?grown)"
    by (rule text_content_body) simp
  have nonempty: "stored_marker ref' \<noteq> []" for ref'
    by (simp add: stored_marker_def)
  have mark: "sublist (stored_marker ?ref) (store_preview st [] ?ref)"
    by (rule marker_in_preview)
  show ?thesis
    using assms(2) True save ref grown mark nonempty
    by (auto simp: processStructured_def Let_def marked_def intro: sublist_rear sublist_front
        sublist_rear [where ys = "_ @ [CHR 0x0A]", simplified])
qed (use assms(2) in \<open>simp add: processStructured_def\<close>)

section \<open>A search sees the whole file\<close>

definition occurrences :: "bytes \<Rightarrow> bytes \<Rightarrow> nat list" where
  "occurrences query s = filter (occurs query s) [0..<length s + 1 - length query]"

text \<open>The reference: add the entries in order until there are enough or the response is full.\<close>

fun emit :: "nat \<Rightarrow> nat \<Rightarrow> (nat \<times> bytes) list \<Rightarrow> scan \<Rightarrow> (go_err + bytes) + scan" where
  "emit maxMatches limit [] sc = Inr sc"
| "emit maxMatches limit ((a, e) # xs) sc =
     (if maxMatches \<le> sc_matches sc then Inr sc
      else if limit < length (sc_output sc) + length e
        then Inl (if sc_output sc = [] then Inl too_small else Inr (sc_output sc))
      else emit maxMatches limit xs
        \<lparr>sc_output = sc_output sc @ e, sc_matches = sc_matches sc + 1, sc_last = int a\<rparr>)"

lemma emit_full [simp]: "maxMatches \<le> sc_matches sc \<Longrightarrow> emit maxMatches limit xs sc = Inr sc"
  by (cases xs) auto

lemma emit_append:
  "emit maxMatches limit (xs @ ys) sc = (case emit maxMatches limit xs sc of
     Inl answer \<Rightarrow> Inl answer | Inr sc' \<Rightarrow> emit maxMatches limit ys sc')"
  by (induction maxMatches limit xs sc rule: emit.induct) auto

lemma emit_last:
  "emit maxMatches limit xs sc = Inr sc' \<Longrightarrow> sc_last sc' = sc_last sc \<or> sc_last sc' \<in> int ` fst ` set xs"
proof (induction maxMatches limit xs sc rule: emit.induct)
  case (2 maxMatches limit a e xs sc)
  then show ?case
    by (fastforce split: if_splits)
qed simp

definition piece_matches :: "bytes \<Rightarrow> bytes \<Rightarrow> nat \<Rightarrow> nat \<Rightarrow> nat \<Rightarrow> nat list" where
  "piece_matches query data base offset position =
     filter (\<lambda>p. occurs query data p \<and> offset < base + p + length query) [position..<length data + 1 - length query]"

definition piece_entries ::
  "bytes \<Rightarrow> nat \<Rightarrow> bytes \<Rightarrow> nat \<Rightarrow> nat \<Rightarrow> nat \<Rightarrow> (nat \<times> bytes) list" where
  "piece_entries query contextBytes data base offset position =
     map (\<lambda>p. (base + p, formatSearchMatch (base + p) data p (length query) contextBytes))
       (piece_matches query data base offset position)"

lemma piece_matches_skip:
  assumes "\<forall>j. position \<le> j \<and> j < p \<longrightarrow> \<not> occurs query data j" "position \<le> p" "p + length query \<le> length data"
  shows "piece_matches query data base offset position =
     (if occurs query data p \<and> offset < base + p + length query then [p] else []) @
     piece_matches query data base offset (Suc p)"
proof -
  let ?n = "length data + 1 - length query"
  have "[position..<?n] = [position..<p] @ p # [Suc p..<?n]"
    using upt_add_eq_append [of position p "?n - p"] upt_conv_Cons [of p ?n] assms(2,3) by simp
  moreover have "filter (\<lambda>j. occurs query data j \<and> offset < base + j + length query) [position..<p] = []"
    using assms(1) by (simp add: filter_empty_conv)
  ultimately show ?thesis
    by (simp add: piece_matches_def)
qed

lemma piece_matches_none:
  "\<forall>p \<ge> position. \<not> occurs query data p \<Longrightarrow> piece_matches query data base offset position = []"
  by (auto simp: piece_matches_def filter_empty_conv)

text \<open>One piece: the loop emits the matches that end in the piece.\<close>

lemma scan_piece_emit:
  assumes "query \<noteq> []"
    and "sc_last sc + int (length query) \<le> int offset \<or> sc_last sc < int (base + position)"
  shows "scan_piece query maxMatches contextBytes limit data base offset position sc =
     emit maxMatches limit (piece_entries query contextBytes data base offset position) sc"
  using assms(2)
proof (induction "length data + 1 - position" arbitrary: position sc rule: less_induct)
  case less
  let ?entries = "piece_entries query contextBytes data base offset"
  note step = scan_piece.simps [of query maxMatches contextBytes limit data base offset position sc]
  consider (short) "length data < position + length query" | (full) "maxMatches \<le> sc_matches sc"
    | (none) "position + length query \<le> length data" "sc_matches sc < maxMatches" "bytes_index query (drop position data) = None"
    | (found) relative where "position + length query \<le> length data" "sc_matches sc < maxMatches"
        "bytes_index query (drop position data) = Some relative"
    by fastforce
  then show ?case
  proof cases
    case short
    then show ?thesis
      by (simp add: step piece_entries_def piece_matches_def)
  next
    case full
    then show ?thesis
      by (simp add: step)
  next
    case none
    have "\<not> occurs query data p" if "position \<le> p" for p
      using bytes_index_None [OF none(3), of "p - position"] that by (simp add: occurs_drop)
    then show ?thesis
      using none by (simp add: step piece_entries_def piece_matches_none)
  next
    case found
    define p where "p = position + relative"
    have occ: "occurs query data p" "\<forall>j. position \<le> j \<and> j < p \<longrightarrow> \<not> occurs query data j"
    proof -
      have "occurs query (drop position data) relative \<and> (\<forall>j < relative. \<not> occurs query (drop position data) j)"
        using bytes_index_Some [OF found(3)] .
      then have o: "occurs query data p" "\<And>j. j < relative \<Longrightarrow> \<not> occurs query data (position + j)"
        by (auto simp: occurs_drop p_def)
      have "\<not> occurs query data j" if "position \<le> j" "j < p" for j
        using o(2) [of "j - position"] that by (simp add: p_def)
      then show "occurs query data p" "\<forall>j. position \<le> j \<and> j < p \<longrightarrow> \<not> occurs query data j"
        using o(1) by auto
    qed
    have p: "position \<le> p" "p + length query \<le> length data"
      using occurs_bound [OF occ(1) assms(1)] by (simp_all add: p_def)
    note skip = piece_matches_skip [OF occ(2) p, of base offset]
    have IH: "scan_piece query maxMatches contextBytes limit data base offset (Suc p) sc' =
        emit maxMatches limit (?entries (Suc p)) sc'"
      if "sc_last sc' + int (length query) \<le> int offset \<or> sc_last sc' < int (base + Suc p)" for sc'
      by (rule less.hyps) (use p that in auto)
    show ?thesis
    proof (cases "base + p + length query \<le> offset")
      case True
      have "sc_last sc + int (length query) \<le> int offset \<or> sc_last sc < int (base + Suc p)"
        using less.prems p(1) by auto
      then show ?thesis
        using True found IH [of sc]
        by (simp add: step p_def [symmetric] piece_entries_def skip)
    next
      case False
      then have fresh: "int (base + p) \<noteq> sc_last sc"
        using less.prems p(1) by auto
      then show ?thesis
        using found False IH occ(1)
        by (simp add: step p_def [symmetric] Let_def piece_entries_def skip)
    qed
  qed
qed

text \<open>The pieces together have the matches of the file.\<close>

lemma sorted_filter_upt_eq:
  "(\<forall>i. (a \<le> i \<and> i < b \<and> P i) \<longleftrightarrow> (c \<le> i \<and> i < d \<and> Q i)) \<Longrightarrow> filter P [a..<b] = filter Q [c..<(d :: nat)]"
  by (rule sorted_distinct_set_unique) (auto simp: sorted_wrt_filter)

lemma piece_matches_occurrences:
  assumes "query \<noteq> []" "length query - 1 \<le> overlap"
    and carry: "carry = drop (length C - min overlap (length C)) C"
  shows "occurrences query (C @ chunk) = occurrences query C @
     map (\<lambda>p. length C - length carry + p) (piece_matches query (carry @ chunk) (length C - length carry) (length C) 0)"
proof -
  let ?s = "C @ chunk" and ?q = "length query" and ?base = "length C - length carry"
  let ?m = "length C + 1 - ?q" and ?n = "length ?s + 1 - ?q"
  have len: "length carry = min overlap (length C)" "?base = length C - min overlap (length C)"
    by (simp_all add: carry)
  have data: "carry @ chunk = drop ?base ?s"
    by (simp add: carry)
  have q: "0 < ?q"
    using assms(1) by simp
  have "?m + (?n - ?m) = ?n"
    by simp
  then have "[0..<?n] = [0..<?m] @ [?m..<?n]"
    using upt_add_eq_append [of 0 ?m "?n - ?m"] by (simp only: le0 simp_thms)
  then have "occurrences query ?s = filter (occurs query ?s) [0..<?m] @ filter (occurs query ?s) [?m..<?n]"
    by (simp only: occurrences_def filter_append)
  also have "filter (occurs query ?s) [0..<?m] = occurrences query C"
    unfolding occurrences_def using q by (intro filter_cong) (auto simp: occurs_append)
  also have "filter (occurs query ?s) [?m..<?n] =
      map (\<lambda>p. ?base + p) (piece_matches query (carry @ chunk) ?base (length C) 0)"
  proof (rule sorted_distinct_set_unique)
    show "set (filter (occurs query ?s) [?m..<?n]) =
        set (map (\<lambda>p. ?base + p) (piece_matches query (carry @ chunk) ?base (length C) 0))"
    proof (intro set_eqI iffI)
      fix i
      assume "i \<in> set (filter (occurs query ?s) [?m..<?n])"
      then have i: "occurs query ?s i" "?m \<le> i" "i + ?q \<le> length ?s"
        using occurs_bound [OF _ assms(1)] by auto
      then have "?base \<le> i" "length C < i + ?q"
        using q len assms(2) by auto
      moreover have "occurs query (carry @ chunk) (i - ?base)"
        using i(1) \<open>?base \<le> i\<close> by (simp only: data occurs_drop le_add_diff_inverse)
      moreover have "i - ?base < length (carry @ chunk) + 1 - ?q"
        using i \<open>?base \<le> i\<close> len by simp
      ultimately have "i - ?base \<in> set (piece_matches query (carry @ chunk) ?base (length C) 0)"
        using \<open>?base \<le> i\<close> by (simp add: piece_matches_def)
      then show "i \<in> set (map (\<lambda>p. ?base + p) (piece_matches query (carry @ chunk) ?base (length C) 0))"
        using \<open>?base \<le> i\<close> by (force simp: image_iff)
    next
      fix i
      assume "i \<in> set (map (\<lambda>p. ?base + p) (piece_matches query (carry @ chunk) ?base (length C) 0))"
      then obtain p where p: "i = ?base + p" "occurs query (carry @ chunk) p" "length C < ?base + p + ?q"
        by (auto simp: piece_matches_def)
      then have "occurs query ?s i"
        by (simp only: data occurs_drop)
      moreover have "i + ?q \<le> length ?s"
        using \<open>occurs query ?s i\<close> assms(1) by (rule occurs_bound)
      ultimately have "?m \<le> i" "i < ?n" "occurs query ?s i"
        using p(1,3) by linarith+
      then show "i \<in> set (filter (occurs query ?s) [?m..<?n])"
        by simp
    qed
  qed (auto simp: piece_matches_def sorted_wrt_map sorted_wrt_filter distinct_map inj_on_def)
  finally show ?thesis .
qed

text \<open>The entries of all pieces, the last one included.\<close>

fun file_entries :: "bytes \<Rightarrow> nat \<Rightarrow> bytes list \<Rightarrow> bytes \<Rightarrow> nat \<Rightarrow> (nat \<times> bytes) list" where
  "file_entries query contextBytes [] carry offset = []"
| "file_entries query contextBytes (chunk # chunks) carry offset =
     piece_entries query contextBytes (carry @ chunk) (offset - length carry) offset 0 @
     file_entries query contextBytes chunks (next_carry (scan_overlap query contextBytes) (carry @ chunk)) (offset + length chunk)"

definition carried :: "bytes \<Rightarrow> nat \<Rightarrow> bytes \<Rightarrow> bytes" where
  "carried query contextBytes C = next_carry (scan_overlap query contextBytes) C"

lemma carried_step:
  "next_carry (scan_overlap query contextBytes) (carried query contextBytes C @ chunk) = carried query contextBytes (C @ chunk)"
  by (simp add: carried_def next_carry_def min_def add.commute)

lemma length_carried: "length (carried query contextBytes C) \<le> length C"
  by (simp add: carried_def next_carry_def)

lemma file_entries_offsets:
  assumes "query \<noteq> []"
  shows "occurrences query (C @ concat chunks) = occurrences query C @
     map fst (file_entries query contextBytes chunks (carried query contextBytes C) (length C))"
proof (induction chunks arbitrary: C)
  case (Cons chunk chunks)
  have "occurrences query (C @ chunk) = occurrences query C @
      map fst (piece_entries query contextBytes (carried query contextBytes C @ chunk)
        (length C - length (carried query contextBytes C)) (length C) 0)"
    using piece_matches_occurrences [OF assms, of "scan_overlap query contextBytes" "carried query contextBytes C" C chunk]
    by (simp add: carried_def next_carry_def scan_overlap_def piece_entries_def comp_def)
  then show ?case
    using Cons.IH [of "C @ chunk"] by (simp add: carried_step)
qed simp

text \<open>The last look at the file reads no bytes, as a rule; its bytes count as a piece.\<close>

lemma scan_file_emit:
  assumes "query \<noteq> []" "sc_last sc = -1 \<or> sc_last sc + int (length query) \<le> int (length C)"
  shows "scan_file query maxMatches contextBytes limit (EndOfFile rest) chunks (carried query contextBytes C) (length C) sc =
     (case emit maxMatches limit
         (file_entries query contextBytes (chunks @ [rest]) (carried query contextBytes C) (length C)) sc of
        Inl answer \<Rightarrow> answer | Inr sc' \<Rightarrow> Inr (outputOrNoMatches (sc_output sc')))"
  using assms(2)
proof (induction chunks arbitrary: C sc)
  case Nil
  then show ?case
    using scan_piece_emit [OF assms(1), of sc "length C" _ 0] by (auto simp: Let_def)
next
  case (Cons chunk chunks)
  let ?data = "carried query contextBytes C @ chunk" and ?base = "length C - length (carried query contextBytes C)"
  let ?entries = "piece_entries query contextBytes ?data ?base (length C) 0"
  have piece: "scan_piece query maxMatches contextBytes limit ?data ?base (length C) 0 sc = emit maxMatches limit ?entries sc"
    using Cons.prems by (intro scan_piece_emit [OF assms(1)]) auto
  have "sc_last sc' = -1 \<or> sc_last sc' + int (length query) \<le> int (length (C @ chunk))"
    if e: "emit maxMatches limit ?entries sc = Inr sc'" for sc'
  proof -
    have "a + length query \<le> length (C @ chunk)" if "a \<in> fst ` set ?entries" for a
      using that occurs_bound [OF _ assms(1), of ?data] length_carried [of query contextBytes C]
      by (fastforce simp: piece_entries_def piece_matches_def)
    then show ?thesis
      using emit_last [OF e] Cons.prems by force
  qed
  then show ?case
    using Cons.IH [of _ "C @ chunk"] piece
    by (auto simp: carried_step emit_append split: sum.split)
qed

text \<open>What the reference reports, from an empty response.\<close>

lemma emit_spec:
  assumes "length (sc_output sc) \<le> limit"
  shows "\<exists>k \<le> min (maxMatches - sc_matches sc) (length xs).
     (let output = sc_output sc @ concat (map snd (take k xs)) in
      length output \<le> limit \<and>
      (if k < min (maxMatches - sc_matches sc) (length xs)
       then limit < length (sc_output sc @ concat (map snd (take (Suc k) xs))) \<and>
         emit maxMatches limit xs sc = Inl (if output = [] then Inl too_small else Inr output)
       else \<exists>sc'. emit maxMatches limit xs sc = Inr sc' \<and> sc_output sc' = output))"
  using assms
proof (induction maxMatches limit xs sc rule: emit.induct)
  case (2 maxMatches limit a e xs sc)
  consider "maxMatches \<le> sc_matches sc" | "sc_matches sc < maxMatches" "limit < length (sc_output sc) + length e"
    | (more) "sc_matches sc < maxMatches" "length (sc_output sc) + length e \<le> limit"
    by linarith
  then show ?case
  proof cases
    case more
    let ?sc = "\<lparr>sc_output = sc_output sc @ e, sc_matches = sc_matches sc + 1, sc_last = int a\<rparr>"
    obtain k where "k \<le> min (maxMatches - sc_matches ?sc) (length xs)"
      "(let output = sc_output ?sc @ concat (map snd (take k xs)) in length output \<le> limit \<and>
        (if k < min (maxMatches - sc_matches ?sc) (length xs)
         then limit < length (sc_output ?sc @ concat (map snd (take (Suc k) xs))) \<and>
           emit maxMatches limit xs ?sc = Inl (if output = [] then Inl too_small else Inr output)
         else \<exists>sc'. emit maxMatches limit xs ?sc = Inr sc' \<and> sc_output sc' = output))"
      using 2 more by auto
    then show ?thesis
      using more by (intro exI [of _ "Suc k"]) (auto simp: Let_def split: if_splits)
  qed (auto intro!: exI [of _ 0] simp: Let_def 2)
qed (auto simp: Let_def)

text \<open>An entry names its offset and quotes the query.\<close>

definition entry_head :: "nat \<Rightarrow> bytes" where
  "entry_head offset = ''offset='' @ decimal offset @ '': ''"

lemma entry_quotes:
  assumes "occurs query data p" "query \<noteq> []"
  shows "prefix (entry_head a) (formatSearchMatch a data p (length query) contextBytes) \<and>
    sublist query (formatSearchMatch a data p (length query) contextBytes)"
proof -
  let ?stop = "let stop = utf8PrefixBoundary data (min (length data) (p + length query + contextBytes))
    in if stop < p + length query then p + length query else stop"
  let ?start = "let start = utf8SuffixBoundary data (p - contextBytes) in if p < start then p else start"
  have "sublist query (drop s (take t data))" if "s \<le> p" "p + length query \<le> t" for s t
  proof -
    have q: "query = take (length query) (drop p data)"
      using assms(1) by (simp add: occurs_def)
    have "drop p (take t data) = take (t - p) (drop p data)"
      by (simp add: drop_take)
    moreover have "min (length query) (t - p) = length query"
      using that(2) by arith
    then have "take (length query) (take (t - p) (drop p data)) = query"
      using q by (simp only: take_take)
    ultimately have "prefix query (drop p (take t data))"
      by (metis take_is_prefix)
    moreover have "suffix (drop p (take t data)) (drop s (take t data))"
      using that(1) by (metis suffix_drop drop_drop le_add_diff_inverse2)
    ultimately show ?thesis
      by (meson prefix_imp_sublist suffix_imp_sublist sublist_order.order_trans)
  qed
  then have "sublist query (drop ?start (take ?stop data))"
    by (simp add: Let_def)
  then obtain ps ss where mid: "drop ?start (take ?stop data) = ps @ query @ ss"
    by (auto simp: sublist_def)
  moreover have "\<exists>before after. formatSearchMatch a data p (length query) contextBytes =
      entry_head a @ before @ drop ?start (take ?stop data) @ after"
    unfolding formatSearchMatch_def entry_head_def Let_def by (simp (no_asm)) fastforce
  ultimately obtain before after where
    eq: "formatSearchMatch a data p (length query) contextBytes = entry_head a @ before @ (ps @ query @ ss) @ after"
    by auto
  have "sublist query (entry_head a @ before @ (ps @ query @ ss) @ after)"
    unfolding sublist_def by (intro exI [of _ "entry_head a @ before @ ps"] exI [of _ "ss @ after"]) simp
  then show ?thesis
    unfolding eq by simp
qed

lemma file_entries_quote:
  "query \<noteq> [] \<Longrightarrow> (a, e) \<in> set (file_entries query contextBytes chunks carry offset) \<Longrightarrow>
     prefix (entry_head a) e \<and> sublist query e"
  by (induction query contextBytes chunks carry offset rule: file_entries.induct)
    (auto simp: piece_entries_def piece_matches_def entry_quotes)

section \<open>Properties\<close>

text \<open>
  C32.  Whatever fails at any point of processing a result, every artifact of the store still has the
  content its name is the digest of, and no published artifact has changed or gone.
\<close>

theorem artifacts_never_change:
  assumes "hex_sha sha" "intact sha st" "store_Process sha ended r1 r2 input st = (st', result, err)"
  shows "intact sha st' \<and> keeps_artifacts st st' \<and> (err \<noteq> None \<longrightarrow> result = input)"
proof (cases ended)
  case None
  obtain st1 x where one: "processText sha r1 st input = (st1, x)"
    by force
  note st1 = process_artifacts(2) [OF assms(1) one]
  show ?thesis
  proof (cases x)
    case (Inl e)
    then show ?thesis
      using st1 assms(2,3) by (simp add: store_Process_def None one)
  next
    case (Inr y)
    obtain st2 z where two: "processStructured sha r2 st1 (snd y) = (st2, z)"
      by force
    note st2 = process_artifacts(3) [OF assms(1) two]
    have "st' = st2 \<and> (err \<noteq> None \<longrightarrow> result = input)"
      using assms(3) Inr by (cases z) (simp_all add: store_Process_def None one two case_prod_unfold)
    then show ?thesis
      using st1 st2 assms(2) keeps_artifacts_trans by blast
  qed
qed (use assms in \<open>simp add: store_Process_def\<close>)

text \<open>A read in which every call of the operating system succeeds, and bodies whose digests do not collide.\<close>

definition clean_read :: read_run where
  "clean_read = \<lparr>rr_lstat = None, rr_open = None, rr_seek = None, rr_read = None\<rparr>"

definition collision_free :: "(bytes \<Rightarrow> bytes) \<Rightarrow> bytes list \<Rightarrow> store \<Rightarrow> bool" where
  "collision_free sha bodies st \<longleftrightarrow> inj_on sha (set bodies) \<and>
     (\<forall>body \<in> set bodies. \<forall>content. map_of (st_files st) (sha body) = Some (RegularFile content) \<longrightarrow> content = body)"

text \<open>One saved body, read back later.\<close>

lemma saved_reads_back:
  assumes "hex_sha sha" "map_of (st_files st) (sha body) = Some (RegularFile body)" "length body \<le> maxOutputArtifactBytes"
    and "keeps_artifacts st later" "0 \<le> offset" "1 \<le> limit" "limit \<le> st_readLimit st"
  shows "store_read clean_read (store_reference sha body) offset limit later =
    Inr (take (nat limit) (drop (nat offset) body), length body)"
proof -
  have "map_of (st_files later) (sha body) = Some (RegularFile body)" "st_readLimit later = st_readLimit st"
    using assms(1,2,4) by (auto simp: keeps_artifacts_def hex_sha_def)
  then show ?thesis
    using assms(3,5-7)
    by (simp add: store_read_def pathFor_reference [OF assms(1)] openArtifact_def clean_read_def)
qed

lemma process_saves:
  assumes "hex_sha sha" "0 \<le> st_previewThreshold st" "collision_free sha (taken_out st input) st"
    and "store_Process sha ended r1 r2 input st = (st', result, None)"
  shows "(\<forall>body \<in> set (taken_out st input). marked (store_reference sha body) result \<and>
       map_of (st_files st') (sha body) = Some (RegularFile body) \<and> length body \<le> maxOutputArtifactBytes) \<and>
    st_readLimit st' = st_readLimit st \<and> (taken_out st input = [] \<longrightarrow> result = input \<and> st' = st)"
proof -
  obtain st1 c1 result1 c2 result2 where one: "processText sha r1 st input = (st1, Inr (c1, result1))"
    and two: "processStructured sha r2 st1 result1 = (st', Inr (c2, result2))"
    and result: "result = (if (c1 \<or> c2) \<and> tr_Parts result2 = [] then result2\<lparr>tr_Parts := [TextPart (tr_Content result2)]\<rparr> else result2)"
    using assms(4) by (auto simp: store_Process_def split: option.splits prod.splits sum.splits)
  note keep = process_artifacts(2) [OF assms(1) one] process_artifacts(3) [OF assms(1) two]
  have same: "st_previewThreshold st1 = st_previewThreshold st" "st_readLimit st' = st_readLimit st"
    using keep by (simp_all add: keeps_artifacts_def)
  have final: "marked ref result2 \<Longrightarrow> marked ref result" for ref
    by (auto simp: result marked_def)
  have stored: "map_of (st_files st2) (sha body) = Some (RegularFile body) \<and> length body \<le> maxOutputArtifactBytes"
    if "store_save sha r body st1' = (st2, Inr ref)"
      "\<forall>content. map_of (st_files st1') (sha body) = Some (RegularFile content) \<longrightarrow> content = body" for r body st1' st2 ref
    using store_save_artifacts [OF assms(1) that(1)] that(2) by (auto simp: saved_def)
  have later: "map_of (st_files st') (sha body) = Some (RegularFile body)"
    if "map_of (st_files st1) (sha body) = Some (RegularFile body)" for body
    using that keep(2) assms(1) by (auto simp: keeps_artifacts_def hex_sha_def)
  have textual: "marked (store_reference sha body) result1 \<and> map_of (st_files st1) (sha body) = Some (RegularFile body) \<and>
      length body \<le> maxOutputArtifactBytes" if "body \<in> set (text_out st input)" for body
  proof -
    have "store_save sha r1 body st = (st1, Inr (store_reference sha body))" "marked (store_reference sha body) result1"
      using processText_marks [OF assms(1) one assms(2)] that by auto
    moreover have "\<forall>content. map_of (st_files st) (sha body) = Some (RegularFile content) \<longrightarrow> content = body"
      using assms(3) that unfolding collision_free_def taken_out_def by simp
    ultimately show ?thesis
      using stored by blast
  qed
  have untouched: "text_out st input = [] \<Longrightarrow> result1 = input \<and> st1 = st \<and> \<not> c1"
    using processText_marks [OF assms(1) one assms(2)] by auto
  have structured: "tr_Structured result1 = tr_Structured input"
    using processText_marks [OF assms(1) one assms(2)] by auto
  note marks = processStructured_marks [OF assms(1) two, unfolded same structured]
  show ?thesis
  proof (cases "st_previewThreshold st < int (length (tr_Structured input))")
    case False
    then show ?thesis
      using marks textual later final untouched same(2) by (auto simp: taken_out_def result)
  next
    case True
    have free: "content = tr_Structured input"
      if at: "map_of (st_files st1) (sha (tr_Structured input)) = Some (RegularFile content)" for content
    proof (cases "text_out st input")
      case Nil
      then show ?thesis
        using untouched assms(3) True at by (auto simp: collision_free_def taken_out_def)
    next
      case (Cons body bodies)
      show ?thesis
      proof (cases "body = tr_Structured input")
        case True
        then show ?thesis
          using textual [of body] Cons at by simp
      next
        case False
        then have differ: "sha body \<noteq> sha (tr_Structured input)"
          using assms(3) True Cons by (auto simp: collision_free_def taken_out_def inj_on_def)
        obtain r where "store_save sha r1 body st = (st1, Inr r)"
          using processText_marks [OF assms(1) one assms(2)] Cons by auto
        then have "map_of (st_files st) (sha (tr_Structured input)) = Some (RegularFile content)"
          using store_save_others [OF assms(1) _ differ] at by metis
        then show ?thesis
          using assms(3) True by (auto simp: collision_free_def taken_out_def)
      qed
    qed
    then have "map_of (st_files st') (sha (tr_Structured input)) = Some (RegularFile (tr_Structured input)) \<and>
        length (tr_Structured input) \<le> maxOutputArtifactBytes"
      using marks True stored [of r2 "tr_Structured input" st1 st'] by auto
    then show ?thesis
      using True marks textual later final same(2) by (auto simp: taken_out_def)
  qed
qed

text \<open>
  C33.  Whatever is taken out of an oversized result can be had again: for each body that \<open>Process\<close>
  takes out (the text of the parts or the content, and the structured value), the marker with its
  reference is in the text the model gets, and the reference reads back the body at every offset, in
  every later state of the store.  A result nothing is taken out of is returned as it was.  The store
  has a threshold that is not negative (\<open>NewOutputStore\<close> refuses others), and the digests of the bodies
  collide neither with one another nor with what is already stored.
\<close>

theorem stored_output_reads_back:
  assumes "hex_sha sha" "0 \<le> st_previewThreshold st" "collision_free sha (taken_out st input) st"
    and "store_Process sha ended r1 r2 input st = (st', result, None)" "keeps_artifacts st' later"
    and "0 \<le> offset" "1 \<le> limit" "limit \<le> st_readLimit st"
  shows "list_all (\<lambda>body. sublist (stored_marker (store_reference sha body)) (tr_Content result) \<and>
      store_read clean_read (store_reference sha body) offset limit later =
        Inr (take (nat limit) (drop (nat offset) body), length body)) (taken_out st input) \<and>
    (taken_out st input \<noteq> [] \<or> result = input)"
  using process_saves [OF assms(1-4)] saved_reads_back [OF assms(1) _ _ assms(5-7)] assms(8)
  by (auto simp: list_all_iff marked_def)

text \<open>
  C34.  A preview is at most one byte longer than the threshold (or the bare marker), ends with the
  marker of its reference, and is valid UTF-8 when the stored body is.
\<close>

theorem stored_preview_bounded:
  assumes "hex_sha sha"
  shows "int (length (store_preview st data (store_reference sha data)))
      \<le> max (st_previewThreshold st + 1) (int (length (stored_marker (store_reference sha data)))) \<and>
    suffix (stored_marker (store_reference sha data)) (store_preview st data (store_reference sha data)) \<and>
    (valid_utf8 data \<longrightarrow> valid_utf8 (store_preview st data (store_reference sha data)))"
proof -
  have hex: "cont 0 0x7F c" if "hex_digit c" for c
    using that by (auto simp: hex_digit_def cont_def less_eq_char_def)
  have marker: "valid_utf8 (stored_marker (store_reference sha data))"
    using assms
    by (intro valid_utf8_ascii) (auto simp: stored_marker_def store_reference_def artifactScheme_def hex_sha_def artifact_name_def
        intro: hex, simp_all add: cont_def)
  have ellipsis: "valid_utf8 ellipsis"
    by (rule valid_utf8_rune) (simp add: is_rune_def ellipsis_def rune3_def cont_def)
  have "omitted_mark = [CHR 0x0A, CHR ''[''] @ ellipsis @ '' omitted '' @ ellipsis @ [CHR '']'', CHR 0x0A]"
    by (simp add: omitted_mark_def)
  also have "valid_utf8 \<dots>"
    by (intro valid_utf8_append ellipsis) (rule valid_utf8_ascii, simp add: cont_def)+
  finally have omitted: "valid_utf8 omitted_mark" .
  have newline: "valid_utf8 [CHR 0x0A]"
    by (rule valid_utf8_ascii) (simp add: cont_def)
  have "valid_utf8 (store_preview st data (store_reference sha data))" if "valid_utf8 data"
  proof -
    let ?budget = "st_previewThreshold st - int (length (stored_marker (store_reference sha data))) - int (length omitted_mark)"
    obtain front rear where ends: "cut_ends data (nat ?budget) = (front, rear)"
      by force
    have "valid_utf8 (data @ [CHR 0x0A] @ stored_marker (store_reference sha data))"
      by (intro valid_utf8_append that newline marker)
    moreover have "valid_utf8 (front @ omitted_mark @ rear @ [CHR 0x0A] @ stored_marker (store_reference sha data))"
      if "\<not> int (length data) \<le> ?budget"
      using cut_ends_spec [OF ends] \<open>valid_utf8 data\<close> that
      by (intro valid_utf8_append omitted newline marker) auto
    ultimately show ?thesis
      using marker unfolding store_preview_def Let_def ends by (simp del: omitted_mark_length)
  qed
  then show ?thesis
    using preview_length stored_marker_suffix by blast
qed

text \<open>
  C35.  A search of a file, however it is cut into pieces, reports the literal occurrences of the query
  in the whole file: in order, none skipped and none twice, as many as asked for and as the response
  holds.  (The query is a byte string and not a pattern; the README calls the tool a regex search.)
\<close>

theorem search_reports_occurrences:
  assumes "query \<noteq> []"
  shows "\<exists>entries k. map fst entries = occurrences query (concat chunks @ rest) \<and>
    (\<forall>(offset, entry) \<in> set entries. prefix (entry_head offset) entry \<and> sublist query entry) \<and>
    k \<le> min maxMatches (length entries) \<and>
    (let output = concat (map snd (take k entries)) in length output \<le> responseLimit \<and>
     scanSearch query maxMatches contextBytes responseLimit chunks (EndOfFile rest) =
       (if k < min maxMatches (length entries) then (if output = [] then Inl too_small else Inr output)
        else Inr (outputOrNoMatches output)) \<and>
     (k < min maxMatches (length entries) \<longrightarrow> responseLimit < length (concat (map snd (take (Suc k) entries)))))"
proof -
  define entries where "entries = file_entries query contextBytes (chunks @ [rest]) [] 0"
  define start where "start = \<lparr>sc_output = [], sc_matches = 0, sc_last = -1\<rparr>"
  have carried: "carried query contextBytes [] = []"
    by (simp add: carried_def next_carry_def)
  have "occurrences query [] = []"
    using assms by (cases query) (simp_all add: occurrences_def)
  then have offsets: "map fst entries = occurrences query (concat chunks @ rest)"
    using file_entries_offsets [OF assms, of "[]" "chunks @ [rest]" contextBytes]
    by (simp add: carried entries_def)
  have scan: "scanSearch query maxMatches contextBytes responseLimit chunks (EndOfFile rest) =
      (case emit maxMatches responseLimit entries start of
        Inl answer \<Rightarrow> answer | Inr sc' \<Rightarrow> Inr (outputOrNoMatches (sc_output sc')))"
    using scan_file_emit [OF assms, of start "[]" maxMatches contextBytes responseLimit rest chunks]
    by (simp add: scanSearch_def carried start_def entries_def)
  have quote: "\<forall>(offset, entry) \<in> set entries. prefix (entry_head offset) entry \<and> sublist query entry"
    using file_entries_quote [OF assms] unfolding entries_def by fast
  obtain k where k: "k \<le> min (maxMatches - sc_matches start) (length entries)"
    "(let output = sc_output start @ concat (map snd (take k entries)) in length output \<le> responseLimit \<and>
      (if k < min (maxMatches - sc_matches start) (length entries)
       then responseLimit < length (sc_output start @ concat (map snd (take (Suc k) entries))) \<and>
         emit maxMatches responseLimit entries start = Inl (if output = [] then Inl too_small else Inr output)
       else \<exists>sc'. emit maxMatches responseLimit entries start = Inr sc' \<and> sc_output sc' = output))"
    using emit_spec [of start responseLimit maxMatches entries] by (auto simp: start_def)
  show ?thesis
    using k by (intro exI [of _ entries] exI [of _ k]) (auto simp: offsets quote scan Let_def start_def
      simp del: concat_eq_Nil_conv Nil_eq_concat_conv)
qed

text \<open>The bound of a preview is reached: a long ASCII body overruns the threshold by one byte.\<close>

lemma preview_exceeds_threshold:
  assumes "\<forall>c \<in> set data. cont 0 0x7F c" "0 < budget" "budget < length data"
    and "st_previewThreshold st = int (length (stored_marker ref)) + 19 + int budget"
  shows "int (length (store_preview st data ref)) = st_previewThreshold st + 1"
proof -
  have start: "RuneStart (data ! i)" if "i < length data" for i
    using assms(1) that nth_mem by (fastforce simp: RuneStart_def cont_def)
  have "utf8PrefixBoundary data n = n" if "n < length data" for n
    using start that by (cases n) auto
  moreover have "utf8SuffixBoundary data n = n" if "n < length data" for n
    using start that by (subst utf8SuffixBoundary.simps) simp
  ultimately have "cut_ends data budget = (take (budget div 2) data, drop (length data - (budget - budget div 2)) data)"
    using assms(2,3) by (auto simp: cut_ends_def Let_def max_def)
  then show ?thesis
    using assms by (auto simp: store_preview_def Let_def)
qed

section \<open>Witnesses\<close>

definition flat_sha :: "bytes \<Rightarrow> bytes" where
  "flat_sha data = replicate 64 CHR ''0''"

definition empty_store :: store where
  "empty_store = \<lparr>st_files = [], st_previewThreshold = 4, st_readLimit = 10, st_searchLimit = 100\<rparr>"

definition good_save :: save_run where
  "good_save = \<lparr>sr_ctx = None, sr_before = \<lparr>fp_lstat = None, fp_open = None, fp_read = None\<rparr>, sr_stamp = ''1'',
     sr_create = None, sr_written = 5, sr_write = None, sr_close = None, sr_ctx_late = None, sr_rename = None,
     sr_removed = True, sr_after = \<lparr>fp_lstat = None, fp_open = None, fp_read = None\<rparr>\<rparr>"

definition long_result :: tool_result where
  "long_result = zero_result\<lparr>tr_Content := ''hello''\<rparr>"

lemma hex_flat_sha: "hex_sha flat_sha"
  by (simp add: hex_sha_def flat_sha_def artifact_name_def hex_digit_def less_eq_char_def)

lemma process_sample:
  "\<exists>st' result. store_Process flat_sha None good_save good_save long_result empty_store = (st', result, None)"
  by (simp add: store_Process_def processText_def processContent_def processStructured_def long_result_def empty_store_def
      zero_result_def store_save_def maxOutputArtifactBytes_def good_save_def pathFor_reference [OF hex_flat_sha]
      matchesExisting_def save_new_def publish_def write_file_def Let_def)

theorem artifacts_never_change_witness:
  "\<exists>st' result. store_Process flat_sha None good_save good_save long_result empty_store = (st', result, None) \<and>
     intact flat_sha st' \<and> keeps_artifacts empty_store st'"
proof -
  obtain st' result where run: "store_Process flat_sha None good_save good_save long_result empty_store = (st', result, None)"
    using process_sample by blast
  have "intact flat_sha empty_store"
    by (simp add: intact_def empty_store_def)
  from artifacts_never_change [OF hex_flat_sha this run] run show ?thesis
    by blast
qed

text \<open>
  A result with both an oversized content and an oversized structured value, and a digest that tells
  the two bodies apart: two references, each with its own body behind it.
\<close>

definition first_sha :: "bytes \<Rightarrow> bytes" where
  "first_sha data = (if data = ''hello'' then replicate 64 CHR ''a'' else replicate 64 CHR ''b'')"

definition double_result :: tool_result where
  "double_result = zero_result\<lparr>tr_Content := ''hello'', tr_Structured := ''{1:2}''\<rparr>"

lemma hex_first_sha: "hex_sha first_sha"
  by (simp add: hex_sha_def first_sha_def artifact_name_def hex_digit_def less_eq_char_def)

lemma temp_is_no_digest:
  "hex_digit c \<Longrightarrow> temp_name sha data stamp \<noteq> replicate 64 c" "hex_digit c \<Longrightarrow> replicate 64 c \<noteq> temp_name sha data stamp"
proof -
  show "temp_name sha data stamp \<noteq> replicate 64 c" if "hex_digit c"
    using artifact_name_temp [of sha data stamp] that by (auto simp: artifact_name_def)
  then show "hex_digit c \<Longrightarrow> replicate 64 c \<noteq> temp_name sha data stamp"
    by metis
qed

lemma process_double:
  "\<exists>st' result. store_Process first_sha None good_save good_save double_result empty_store = (st', result, None)"
  by (simp add: store_Process_def processText_def processContent_def processStructured_def double_result_def empty_store_def
      zero_result_def store_save_def maxOutputArtifactBytes_def good_save_def pathFor_reference [OF hex_first_sha]
      matchesExisting_def save_new_def publish_def write_file_def Let_def first_sha_def update_conv' delete_conv' temp_is_no_digest hex_digit_def less_eq_char_def)

theorem stored_output_reads_back_witness:
  "\<exists>st' result. store_Process first_sha None good_save good_save double_result empty_store = (st', result, None) \<and>
     taken_out empty_store double_result = [''hello'', ''{1:2}''] \<and>
     sublist (stored_marker (store_reference first_sha ''hello'')) (tr_Content result) \<and>
     sublist (stored_marker (store_reference first_sha ''{1:2}'')) (tr_Content result) \<and>
     store_read clean_read (store_reference first_sha ''hello'') 1 2 st' = Inr (''el'', 5) \<and>
     store_read clean_read (store_reference first_sha ''{1:2}'') 1 2 st' = Inr (''1:'', 5)"
proof -
  obtain st' result where run: "store_Process first_sha None good_save good_save double_result empty_store = (st', result, None)"
    using process_double by blast
  have bodies: "taken_out empty_store double_result = [''hello'', ''{1:2}'']"
    by (simp add: taken_out_def text_out_def double_result_def zero_result_def empty_store_def)
  have free: "collision_free first_sha (taken_out empty_store double_result) empty_store"
    unfolding bodies by (simp add: collision_free_def first_sha_def) (simp add: empty_store_def)
  have "list_all (\<lambda>body. sublist (stored_marker (store_reference first_sha body)) (tr_Content result) \<and>
      store_read clean_read (store_reference first_sha body) 1 2 st' =
        Inr (take (nat 2) (drop (nat 1) body), length body)) (taken_out empty_store double_result)"
    using stored_output_reads_back [OF hex_first_sha _ free run keeps_artifacts_refl, of 1 2] by (simp add: empty_store_def)
  then show ?thesis
    using run bodies by simp
qed

theorem stored_preview_bounded_witness:
  "int (length (store_preview empty_store ''hello'' (store_reference flat_sha ''hello''))) \<le> 86"
  using stored_preview_bounded [OF hex_flat_sha, of empty_store "''hello''"]
  by (simp add: empty_store_def stored_marker_def store_reference_def artifactScheme_def flat_sha_def)

text \<open>The second occurrence lies across two pieces.\<close>

definition sample_answer :: bytes where
  "sample_answer = ''offset=0: aba'' @ [CHR 0x0A] @ ''offset=2: ab'' @ [CHR 0x0A]"

lemma sample_search: "scanSearch ''ab'' 5 1 100 [''aba''] (EndOfFile ''b'') = Inr sample_answer"
  by code_simp

theorem search_reports_occurrences_witness:
  "scanSearch ''ab'' 5 1 100 [''aba''] (EndOfFile ''b'') = Inr sample_answer \<and>
   (\<exists>entries k. map fst entries = [0, 2] \<and>
     (\<forall>(offset, entry) \<in> set entries. prefix (entry_head offset) entry \<and> sublist ''ab'' entry) \<and>
     k \<le> 2 \<and> concat (map snd (take k entries)) = sample_answer \<and>
     (k < 2 \<longrightarrow> 100 < length (concat (map snd (take (Suc k) entries)))))"
proof -
  have offsets: "occurrences ''ab'' (concat [''aba''] @ ''b'') = [0, 2]"
    by (simp add: occurrences_def occurs_def upt_rec)
  have answer: "sample_answer \<noteq> []" "sample_answer \<noteq> ''no matches''"
    by code_simp+
  obtain entries k where e: "map fst entries = occurrences ''ab'' (concat [''aba''] @ ''b'')"
    "\<forall>(offset, entry) \<in> set entries. prefix (entry_head offset) entry \<and> sublist ''ab'' entry"
    and k: "k \<le> min 5 (length entries)"
    "(let output = concat (map snd (take k entries)) in length output \<le> 100 \<and>
     scanSearch ''ab'' 5 1 100 [''aba''] (EndOfFile ''b'') =
       (if k < min 5 (length entries) then (if output = [] then Inl too_small else Inr output)
        else Inr (outputOrNoMatches output)) \<and>
     (k < min 5 (length entries) \<longrightarrow> 100 < length (concat (map snd (take (Suc k) entries)))))"
    using search_reports_occurrences [of "''ab''" "[''aba'']" "''b''" 5 100 1] by blast
  have "map fst entries = [0, 2]"
    using e(1) offsets by simp
  moreover from this have "length entries = 2"
    by (metis length_map list.size(3,4) One_nat_def numeral_2_eq_2 Suc_eq_plus1)
  moreover have "concat (map snd (take k entries)) = sample_answer"
    using k answer calculation unfolding sample_search Let_def outputOrNoMatches_def
    by (auto split: if_splits)
  ultimately show ?thesis
    using e(2) k sample_search by (intro conjI exI [of _ entries] exI [of _ k]) (simp_all add: Let_def)
qed

end
