(* ===== verification/Sse.thy ===== *)
theory Sse
  imports Json
begin

text \<open>
  Server-sent events: \<open>src/provider/shared/sse.go\<close> and \<open>stream_limits.go\<close>.  The body of a response is
  the bytes not read yet and the error that follows them; \<open>read_slice\<close> is \<open>bufio.Reader.ReadSlice\<close>
  with its buffer of 4096 bytes (when exactly a full buffer is left, it may also report the end at
  once, with the same effect on \<open>read_line\<close>).  The lemmas show that frames written in the wire
  format are read back, in order and whole, and what a stream can deliver at most.
\<close>

section \<open>Lines\<close>

definition MaxSSELineBytes :: nat where "MaxSSELineBytes = 8388608"
definition MaxSSEFrameBytes :: nat where "MaxSSEFrameBytes = 16777216"
definition MaxSSEFrameLines :: nat where "MaxSSEFrameLines = 4096"
definition MaxStreamFrames :: nat where "MaxStreamFrames = 65536"
definition MaxStreamBytes :: nat where "MaxStreamBytes = 67108864"
definition MaxStreamItems :: nat where "MaxStreamItems = 1024"

abbreviation newline :: char where "newline \<equiv> CHR 0x0A"
abbreviation return :: char where "return \<equiv> CHR 0x0D"

record sse_reader =
  rd_rest :: bytes
  rd_end :: go_err
  rd_bytes :: nat

datatype slice_end = SliceLine | SliceFull | SliceEnd

definition read_slice :: "bytes \<Rightarrow> bytes \<times> bytes \<times> slice_end" where
  "read_slice rest =
     (if newline \<in> set (take 4096 rest)
        then (takeWhile (\<lambda>c. c \<noteq> newline) rest @ [newline], tl (dropWhile (\<lambda>c. c \<noteq> newline) rest), SliceLine)
      else if 4096 \<le> length rest then (take 4096 rest, drop 4096 rest, SliceFull)
      else (rest, [], SliceEnd))"

definition trim_suffix :: "char \<Rightarrow> bytes \<Rightarrow> bytes" where
  "trim_suffix c s = (if s \<noteq> [] \<and> last s = c then butlast s else s)"

definition strip_eol :: "bytes \<Rightarrow> bytes" where
  "strip_eol s = trim_suffix return (trim_suffix newline s)"

lemma read_slice_full: "read_slice rest = (chunk, rest', SliceFull) \<Longrightarrow> length rest' < length rest \<and> chunk \<noteq> []"
  by (auto simp: read_slice_def split: if_splits)

function read_line :: "bytes \<Rightarrow> sse_reader \<Rightarrow> sse_reader \<times> (go_err + bytes)" where
  "read_line buf r = (case read_slice (rd_rest r) of (chunk, rest, stop) \<Rightarrow>
     if MaxStreamBytes < rd_bytes r + length chunk
       then (r\<lparr>rd_rest := rest\<rparr>, Inl (new_err ''sse: stream exceeds wire bytes''))
     else let r' = r\<lparr>rd_rest := rest, rd_bytes := rd_bytes r + length chunk\<rparr> in
     if MaxSSELineBytes < length buf + length chunk then (r', Inl (new_err ''sse: line exceeds bytes''))
     else (case stop of
         SliceFull \<Rightarrow> read_line (buf @ chunk) r'
       | SliceEnd \<Rightarrow>
           if rd_end r \<noteq> sentinel IoEOF then (r', Inl (rd_end r))
           else if chunk = [] \<and> buf = [] then (r', Inl (sentinel IoEOF))
           else (r', Inr (strip_eol (buf @ chunk)))
       | SliceLine \<Rightarrow> (r', Inr (strip_eol (buf @ chunk)))))"
  by auto
termination
  by (relation "measure (\<lambda>(buf, r). length (rd_rest r))") (auto dest!: read_slice_full [OF sym])

declare read_line.simps [simp del]

text \<open>\<open>parseSSELine\<close>.\<close>

definition parseSSELine :: "bytes \<Rightarrow> bytes \<times> bytes" where
  "parseSSELine line =
     (if CHR '':'' \<notin> set line then ([], [])
      else let after = tl (dropWhile (\<lambda>c. c \<noteq> CHR '':'') line)
      in (takeWhile (\<lambda>c. c \<noteq> CHR '':'') line,
          case after of [] \<Rightarrow> [] | c # value \<Rightarrow> if c = CHR '' '' then value else after))"

section \<open>Frames\<close>

record sse_event =
  se_Name :: bytes
  se_Data :: bytes
  se_ID :: bytes
  se_Comment :: bytes

record frame_parts =
  pt_name :: bytes
  pt_data :: "bytes list"
  pt_id :: bytes
  pt_comment :: bytes

definition no_parts :: frame_parts where
  "no_parts = \<lparr>pt_name = [], pt_data = [], pt_id = [], pt_comment = []\<rparr>"

definition empty_frame :: sse_event where
  "empty_frame = \<lparr>se_Name = [], se_Data = [], se_ID = [], se_Comment = []\<rparr>"

fun join_lines :: "bytes list \<Rightarrow> bytes" where
  "join_lines [] = []"
| "join_lines [s] = s"
| "join_lines (s # ss) = s @ [newline] @ join_lines ss"

definition frame_event :: "frame_parts \<Rightarrow> sse_event" where
  "frame_event p = \<lparr>se_Name = pt_name p, se_Data = join_lines (pt_data p), se_ID = pt_id p, se_Comment = pt_comment p\<rparr>"

text \<open>A line that is not blank.\<close>

definition add_line :: "bytes \<Rightarrow> frame_parts \<Rightarrow> frame_parts" where
  "add_line line p =
     (if take 1 line = '':'' then p\<lparr>pt_comment := trim_space (drop 1 line)\<rparr>
      else case parseSSELine line of (key, value) \<Rightarrow>
        if key = ''event'' then p\<lparr>pt_name := value\<rparr>
        else if key = ''data'' then p\<lparr>pt_data := pt_data p @ [value]\<rparr>
        else if key = ''id'' then p\<lparr>pt_id := value\<rparr>
        else p)"

definition no_frame :: "frame_parts \<Rightarrow> bool" where
  "no_frame p \<longleftrightarrow> pt_data p = [] \<and> pt_name p = [] \<and> pt_id p = [] \<and> pt_comment p = []"

lemma tl_dropWhile_less: "x \<in> set xs \<Longrightarrow> length (tl (dropWhile (\<lambda>c. c \<noteq> x) xs)) < length xs"
proof -
  assume x: "x \<in> set xs"
  have "length (dropWhile (\<lambda>c. c \<noteq> x) xs) \<le> length xs" "xs \<noteq> []"
    using x by (auto intro: length_dropWhile_le)
  then show ?thesis
    by (cases xs) auto
qed

lemma read_slice_shrinks:
  "read_slice rest = (chunk, rest', stop) \<Longrightarrow> length rest' \<le> length rest \<and> (chunk \<noteq> [] \<longrightarrow> length rest' < length rest)"
  by (auto simp: read_slice_def split: if_splits dest: in_set_takeD intro!: tl_dropWhile_less less_imp_le)

lemma read_line_shrinks:
  "read_line buf r = (r', Inr line) \<Longrightarrow>
     length (rd_rest r') \<le> length (rd_rest r) \<and> (buf = [] \<longrightarrow> length (rd_rest r') < length (rd_rest r))"
proof (induction buf r rule: read_line.induct)
  case (1 buf r)
  obtain chunk rest stop where s: "read_slice (rd_rest r) = (chunk, rest, stop)"
    by (cases "read_slice (rd_rest r)")
  let ?r = "r\<lparr>rd_rest := rest, rd_bytes := rd_bytes r + length chunk\<rparr>"
  have shrinks: "length rest \<le> length (rd_rest r)" "chunk \<noteq> [] \<Longrightarrow> length rest < length (rd_rest r)"
    using read_slice_shrinks [OF s] by auto
  show ?case
  proof (cases stop)
    case SliceFull
    then have "chunk \<noteq> []"
      using read_slice_full s by blast
    moreover have "read_line (buf @ chunk) ?r = (r', Inr line)" "\<not> MaxStreamBytes < rd_bytes r + length chunk"
      "\<not> MaxSSELineBytes < length buf + length chunk"
      using 1(2) by (auto simp: read_line.simps [of buf r] s SliceFull Let_def split: if_splits)
    then have "length (rd_rest r') \<le> length rest"
      using 1(1) [OF s [symmetric] refl _ refl _ SliceFull] by simp
    ultimately show ?thesis
      using shrinks by auto
  next
    case SliceLine
    then have "chunk \<noteq> []"
      using s by (auto simp: read_slice_def split: if_splits)
    then show ?thesis
      using 1(2) shrinks by (auto simp: read_line.simps [of buf r] s SliceLine Let_def split: if_splits)
  next
    case SliceEnd
    then show ?thesis
      using 1(2) shrinks by (auto simp: read_line.simps [of buf r] s Let_def split: if_splits)
  qed
qed

text \<open>The loop of \<open>Next\<close>: the bytes and lines of the frame so far, and its parts.\<close>

function next_loop ::
  "nat \<Rightarrow> nat \<Rightarrow> frame_parts \<Rightarrow> sse_reader \<Rightarrow> sse_reader \<times> sse_event \<times> go_err option" where
  "next_loop frameBytes frameLines p r = (case read_line [] r of
       (r', Inl e) \<Rightarrow>
         if e \<noteq> sentinel IoEOF then (r', empty_frame, Some e)
         else if \<not> no_frame p then (r', frame_event p, Some (sentinel IoUnexpectedEOF))
         else (r', empty_frame, Some (sentinel IoEOF))
     | (r', Inr line) \<Rightarrow>
         if MaxSSEFrameBytes < frameBytes + length line + 1 \<or> MaxSSEFrameLines < frameLines + 1
           then (r', empty_frame, Some (new_err ''sse: frame exceeds bytes or lines''))
         else if trim_space line = []
           then (if no_frame p then next_loop (frameBytes + length line + 1) (frameLines + 1) p r'
                 else (r', frame_event p, None))
         else next_loop (frameBytes + length line + 1) (frameLines + 1) (add_line line p) r')"
  by auto
termination
  by (relation "measure (\<lambda>(b, l, p, r). length (rd_rest r))") (auto dest: read_line_shrinks [OF sym])

declare next_loop.simps [simp del]

definition Next :: "sse_reader \<Rightarrow> sse_reader \<times> sse_event \<times> go_err option" where
  "Next r = next_loop 0 0 no_parts r"

section \<open>Limits of a stream\<close>

record stream_budget =
  bu_frames :: nat
  bu_bytes :: nat

definition event_size :: "sse_event \<Rightarrow> nat" where
  "event_size e = length (se_Data e) + length (se_Name e) + length (se_ID e) + length (se_Comment e)"

definition Observe :: "sse_event \<Rightarrow> stream_budget \<Rightarrow> stream_budget \<times> go_err option" where
  "Observe e b = (let b' = b\<lparr>bu_frames := bu_frames b + 1\<rparr> in
     if MaxStreamFrames < bu_frames b' \<or> MaxStreamBytes < bu_bytes b + event_size e
       then (b', Some (new_err ''provider stream exceeds frame or byte limit''))
     else (b'\<lparr>bu_bytes := bu_bytes b + event_size e\<rparr>, None))"

text \<open>\<open>DecodeStreamJSON\<close>; \<open>json.Unmarshal\<close> into the type of the caller is the argument \<open>decode\<close>.\<close>

definition DecodeStreamJSON :: "(bytes \<Rightarrow> tokens) \<Rightarrow> (bytes \<Rightarrow> go_err + 'a) \<Rightarrow> bytes \<Rightarrow> go_err + 'a" where
  "DecodeStreamJSON decoder decode data =
     (case CheckJSON decoder data \<lparr>jl_Bytes = int MaxSSEFrameBytes, jl_Depth = 128, jl_Values = 65536,
        jl_Collection = int MaxStreamItems\<rparr> of Some e \<Rightarrow> Inl e | None \<Rightarrow> decode data)"

section \<open>Written frames are read back\<close>

lemma takeWhile_stop: "x \<notin> set xs \<Longrightarrow> takeWhile (\<lambda>c. c \<noteq> x) (xs @ x # ys) = xs"
  and dropWhile_stop: "x \<notin> set xs \<Longrightarrow> dropWhile (\<lambda>c. c \<noteq> x) (xs @ x # ys) = x # ys"
  by (induction xs) auto

lemma read_slice_line:
  assumes "newline \<notin> set line" "length line < 4096"
  shows "read_slice (line @ newline # rest) = (line @ [newline], rest, SliceLine)"
proof -
  have "newline \<in> set (take 4096 (line @ newline # rest))"
    using assms(2) by (cases "4096 - length line") auto
  then show ?thesis
    using takeWhile_stop [OF assms(1)] dropWhile_stop [OF assms(1)] by (simp add: read_slice_def)
qed

lemma read_slice_part:
  assumes "newline \<notin> set line" "4096 \<le> length line"
  shows "read_slice (line @ newline # rest) = (take 4096 line, drop 4096 line @ newline # rest, SliceFull)"
  using assms by (auto simp: read_slice_def dest: in_set_takeD)

lemma strip_eol_line: "line = [] \<or> last line \<noteq> return \<Longrightarrow> strip_eol (line @ [newline]) = line"
  by (auto simp: strip_eol_def trim_suffix_def)

lemma read_line_exact:
  assumes "newline \<notin> set line" "buf @ line = [] \<or> last (buf @ line) \<noteq> return" "rd_rest r = line @ newline # rest"
    and "rd_bytes r + length line + 1 \<le> MaxStreamBytes" "length buf + length line + 1 \<le> MaxSSELineBytes"
  shows "read_line buf r = (r\<lparr>rd_rest := rest, rd_bytes := rd_bytes r + length line + 1\<rparr>, Inr (buf @ line))"
  using assms
proof (induction "length line" arbitrary: line buf r rule: less_induct)
  case less
  show ?case
  proof (cases "length line < 4096")
    case True
    then show ?thesis
      using less.prems read_slice_line [OF less.prems(1) True, of rest] strip_eol_line [of "buf @ line"]
      by (simp add: read_line.simps [of buf r])
  next
    case False
    let ?r = "r\<lparr>rd_rest := drop 4096 line @ newline # rest, rd_bytes := rd_bytes r + 4096\<rparr>"
    have "newline \<notin> set (drop 4096 line)"
      using less.prems(1) by (auto dest: in_set_dropD)
    then have "read_line (buf @ take 4096 line) ?r =
        (?r\<lparr>rd_rest := rest, rd_bytes := rd_bytes ?r + length (drop 4096 line) + 1\<rparr>, Inr ((buf @ take 4096 line) @ drop 4096 line))"
      using less.prems False by (intro less.hyps) auto
    then show ?thesis
      using less.prems False read_slice_part [of line rest] by (simp add: read_line.simps [of buf r])
  qed
qed

text \<open>Bytes that no white-space rune contains are not trimmed away.\<close>

definition plain :: "char \<Rightarrow> bool" where
  "plain c \<longleftrightarrow> CHR ''!'' \<le> c \<and> c \<le> CHR ''~''"

lemma plain_space: "plain c \<Longrightarrow> \<not> ascii_space c" "plain c \<Longrightarrow> \<not> space2 c d" "plain d \<Longrightarrow> \<not> space2 c d"
  "plain c \<Longrightarrow> \<not> space3 c d e" "plain d \<Longrightarrow> \<not> space3 c d e" "plain e \<Longrightarrow> \<not> space3 c d e"
  by (auto simp: plain_def ascii_space_def space2_def space3_def less_eq_char_def)

lemma plain_trim_left: "x \<in> set s \<Longrightarrow> plain x \<Longrightarrow> x \<in> set (trim_left s)"
  by (induction s rule: trim_left.induct) (auto simp: plain_space)

lemma plain_trim_left_rev: "x \<in> set s \<Longrightarrow> plain x \<Longrightarrow> x \<in> set (trim_left_rev s)"
  by (induction s rule: trim_left_rev.induct) (auto simp: plain_space)

lemma plain_not_blank: "x \<in> set s \<Longrightarrow> plain x \<Longrightarrow> trim_space s \<noteq> []"
  using plain_trim_left_rev [of x "rev (trim_left s)"] plain_trim_left [of x s] by (auto simp: trim_space_def)

text \<open>Lines the loop takes in as they are.\<close>

definition frame_line :: "bytes \<Rightarrow> bool" where
  "frame_line line \<longleftrightarrow> newline \<notin> set line \<and> last line \<noteq> return \<and> (\<exists>c \<in> set line. plain c)"

definition wire :: "bytes list \<Rightarrow> bytes" where
  "wire lines = concat (map (\<lambda>line. line @ [newline]) lines)"

lemma wire_simps [simp]: "wire [] = []" "wire (line # lines) = line @ newline # wire lines"
  by (simp_all add: wire_def)

lemma next_loop_lines:
  assumes "\<forall>line \<in> set lines. frame_line line \<and> length line + 1 \<le> MaxSSELineBytes"
    and "rd_rest r = wire lines @ newline # rest" "rd_bytes r + length (wire lines) + 1 \<le> MaxStreamBytes"
    and "frameBytes + length (wire lines) + 1 \<le> MaxSSEFrameBytes" "frameLines + length lines + 1 \<le> MaxSSEFrameLines"
    and "\<not> no_frame (fold add_line lines p)"
  shows "next_loop frameBytes frameLines p r =
     (r\<lparr>rd_rest := rest, rd_bytes := rd_bytes r + length (wire lines) + 1\<rparr>, frame_event (fold add_line lines p), None)"
  using assms
proof (induction lines arbitrary: frameBytes frameLines p r)
  case Nil
  then have "read_line [] r = (r\<lparr>rd_rest := rest, rd_bytes := rd_bytes r + 1\<rparr>, Inr [])"
    using read_line_exact [of "[]" "[]" r rest] by (simp add: MaxSSELineBytes_def)
  then show ?case
    using Nil.prems by (simp add: next_loop.simps [of frameBytes])
next
  case (Cons line lines)
  let ?r = "r\<lparr>rd_rest := wire lines @ newline # rest, rd_bytes := rd_bytes r + length line + 1\<rparr>"
  have "read_line [] r = (?r, Inr line)"
    using Cons.prems read_line_exact [of line "[]" r "wire lines @ newline # rest"] by (simp add: frame_line_def)
  moreover have "trim_space line \<noteq> []"
    using Cons.prems(1) plain_not_blank by (auto simp: frame_line_def)
  moreover have "next_loop (frameBytes + length line + 1) (frameLines + 1) (add_line line p) ?r =
      (?r\<lparr>rd_rest := rest, rd_bytes := rd_bytes ?r + length (wire lines) + 1\<rparr>,
       frame_event (fold add_line lines (add_line line p)), None)"
    using Cons.prems by (intro Cons.IH) auto
  ultimately show ?case
    using Cons.prems by (simp add: next_loop.simps [of frameBytes])
qed

text \<open>A frame in the wire format.\<close>

definition frame_lines :: "frame_parts \<Rightarrow> bytes list" where
  "frame_lines p = (if pt_name p = [] then [] else [''event: '' @ pt_name p]) @
     (if pt_id p = [] then [] else [''id: '' @ pt_id p]) @
     (if pt_comment p = [] then [] else ['': '' @ pt_comment p]) @
     map (\<lambda>d. ''data: '' @ d) (pt_data p)"

definition frame_wire :: "frame_parts \<Rightarrow> bytes" where
  "frame_wire p = wire (frame_lines p) @ [newline]"

definition clean_text :: "bytes \<Rightarrow> bool" where
  "clean_text s \<longleftrightarrow> newline \<notin> set s \<and> (s = [] \<or> last s \<noteq> return)"

definition writable :: "frame_parts \<Rightarrow> bool" where
  "writable p \<longleftrightarrow> \<not> no_frame p \<and> clean_text (pt_name p) \<and> clean_text (pt_id p) \<and> clean_text (pt_comment p) \<and>
     trim_space (pt_comment p) = pt_comment p \<and> (\<forall>d \<in> set (pt_data p). clean_text d) \<and>
     (\<forall>line \<in> set (frame_lines p). length line + 1 \<le> MaxSSELineBytes) \<and>
     length (frame_wire p) \<le> MaxSSEFrameBytes \<and> length (frame_lines p) + 1 \<le> MaxSSEFrameLines"

lemma parseSSELine_key: "CHR '':'' \<notin> set k \<Longrightarrow> parseSSELine (k @ CHR '':'' # CHR '' '' # v) = (k, v)"
  using takeWhile_stop [of "CHR '':''" k "CHR '' '' # v"] dropWhile_stop [of "CHR '':''" k "CHR '' '' # v"]
  by (simp add: parseSSELine_def)

lemma trim_left_blank: "trim_left (CHR '' '' # s) = trim_left s"
proof -
  have "trim_left (CHR '' '' # s) = trim_left s" if "s = d # e # r" for d e r
    by (simp add: that ascii_space_def)
  moreover have "trim_left [CHR '' '', d] = trim_left [d]" for d
    by (simp add: ascii_space_def)
  ultimately show ?thesis
    by (cases s; cases "tl s") (auto simp: ascii_space_def)
qed

lemma add_line_simps:
  "add_line (''event: '' @ v) p = p\<lparr>pt_name := v\<rparr>" "add_line (''id: '' @ v) p = p\<lparr>pt_id := v\<rparr>"
  "add_line (''data: '' @ v) p = p\<lparr>pt_data := pt_data p @ [v]\<rparr>"
  "add_line ('': '' @ v) p = p\<lparr>pt_comment := trim_space v\<rparr>"
  using parseSSELine_key [of "''event''" v] parseSSELine_key [of "''id''" v] parseSSELine_key [of "''data''" v]
  by (simp_all add: add_line_def trim_space_def trim_left_blank)

lemma fold_data: "fold add_line (map (\<lambda>d. ''data: '' @ d) ds) p = p\<lparr>pt_data := pt_data p @ ds\<rparr>"
  by (induction ds arbitrary: p) (simp_all only: list.map fold_simps add_line_simps comp_apply, simp_all)

lemma fold_frame_lines:
  assumes "trim_space (pt_comment p) = pt_comment p"
  shows "fold add_line (frame_lines p) no_parts = p"
  by (simp only: frame_lines_def fold_append comp_apply fold_data)
    (simp add: add_line_simps assms no_parts_def del: append_Cons)

lemma frame_lines_ok:
  assumes "writable p"
  shows "\<forall>line \<in> set (frame_lines p). frame_line line \<and> length line + 1 \<le> MaxSSELineBytes"
proof -
  have plain: "plain CHR '':''"
    by (simp add: plain_def less_eq_char_def)
  have tagged: "frame_line (k @ '': '' @ v)" if "clean_text v" "newline \<notin> set k" for k v
    using that plain by (auto simp: frame_line_def clean_text_def)
  have "frame_line (''event: '' @ v)" "frame_line (''id: '' @ v)" "frame_line (''data: '' @ v)" "frame_line ('': '' @ v)"
    if "clean_text v" for v
    using tagged [OF that, of "''event''"] tagged [OF that, of "''id''"] tagged [OF that, of "''data''"] tagged [OF that, of "[]"]
    by simp_all
  then show ?thesis
    using assms unfolding writable_def by (simp add: frame_lines_def)
qed

lemma Next_frame:
  assumes "writable p" "rd_rest r = frame_wire p @ rest" "rd_bytes r + length (frame_wire p) \<le> MaxStreamBytes"
  shows "Next r = (r\<lparr>rd_rest := rest, rd_bytes := rd_bytes r + length (frame_wire p)\<rparr>, frame_event p, None)"
proof -
  have "fold add_line (frame_lines p) no_parts = p" "\<not> no_frame p"
    using assms(1) fold_frame_lines by (auto simp: writable_def)
  then show ?thesis
    using next_loop_lines [OF frame_lines_ok [OF assms(1)], of r rest 0 0 no_parts] assms
    by (simp add: Next_def frame_wire_def writable_def)
qed

text \<open>Reading a number of frames.\<close>

primrec reads :: "nat \<Rightarrow> sse_reader \<Rightarrow> (sse_event \<times> go_err option) list" where
  "reads 0 r = []"
| "reads (Suc n) r = (case Next r of (r', x) \<Rightarrow> x # reads n r')"

lemma Next_end:
  assumes "rd_rest r = []" "rd_end r = sentinel IoEOF" "rd_bytes r \<le> MaxStreamBytes"
  shows "Next r = (r, empty_frame, Some (sentinel IoEOF))"
  using assms
  by (simp add: Next_def next_loop.simps read_line.simps read_slice_def no_frame_def no_parts_def)

section \<open>What a stream can deliver\<close>

definition parts_size :: "frame_parts \<Rightarrow> nat" where
  "parts_size p = length (pt_name p) + length (pt_id p) + length (pt_comment p) +
     sum_list (map (\<lambda>d. length d + 1) (pt_data p))"

lemma join_lines_length: "length (join_lines ss) \<le> sum_list (map (\<lambda>d. length d + 1) ss)"
  by (induction ss rule: join_lines.induct) auto

lemma parseSSELine_length: "parseSSELine line = (k, v) \<Longrightarrow> length v \<le> length line"
proof -
  assume p: "parseSSELine line = (k, v)"
  define after where "after = tl (dropWhile (\<lambda>c. c \<noteq> CHR '':'') line)"
  have "length after \<le> length line"
    using length_dropWhile_le [of "\<lambda>c. c \<noteq> CHR '':''" line] by (simp add: after_def)
  then show ?thesis
    using p by (auto simp: parseSSELine_def Let_def after_def [symmetric] split: if_splits list.splits)
qed

lemma trim_left_length: "length (trim_left s) \<le> length s"
  by (induction s rule: trim_left.induct) (auto intro: le_SucI)

lemma trim_left_rev_length: "length (trim_left_rev s) \<le> length s"
  by (induction s rule: trim_left_rev.induct) (auto intro: le_SucI)

lemma trim_space_length: "length (trim_space s) \<le> length s"
  using trim_left_length [of s] trim_left_rev_length [of "rev (trim_left s)"] by (simp add: trim_space_def)

lemma add_line_size: "parts_size (add_line line p) \<le> parts_size p + length line + 1"
proof -
  obtain k v where kv: "parseSSELine line = (k, v)"
    by force
  have "length (trim_space (drop 1 line)) \<le> length line" "length v \<le> length line"
    using trim_space_length [of "drop 1 line"] parseSSELine_length [OF kv] by simp_all
  then show ?thesis
    by (auto simp: add_line_def kv parts_size_def)
qed

lemma next_loop_size:
  "next_loop b l p r = (r', e, None) \<Longrightarrow> parts_size p \<le> b \<Longrightarrow> event_size e \<le> MaxSSEFrameBytes"
proof (induction b l p r rule: next_loop.induct)
  case (1 b l p r)
  obtain r1 x where read: "read_line [] r = (r1, x)"
    by force
  then obtain line where line: "x = Inr line" "\<not> (MaxSSEFrameBytes < b + length line + 1 \<or> MaxSSEFrameLines < l + 1)"
    using 1(3) by (auto simp: next_loop.simps [of b] split: sum.splits if_splits)
  consider (blank) "trim_space line = []" "no_frame p" | (closed) "trim_space line = []" "\<not> no_frame p" | (more) "trim_space line \<noteq> []"
    by blast
  then show ?case
  proof cases
    case blank
    then show ?thesis
      using 1(1) [OF read [symmetric] line blank] 1(3,4) read line by (simp add: next_loop.simps [of b])
  next
    case closed
    then have "event_size e \<le> parts_size p"
      using 1(3) read line join_lines_length [of "pt_data p"]
      by (auto simp: next_loop.simps [of b] event_size_def frame_event_def parts_size_def)
    then show ?thesis
      using 1(4) line by simp
  next
    case more
    then show ?thesis
      using 1(2) [OF read [symmetric] line more] 1(3,4) read line add_line_size [of line p]
      by (simp add: next_loop.simps [of b])
  qed
qed

text \<open>One frame holds at most \<open>MaxSSEFrameBytes\<close>.\<close>

lemma frame_bounded: "Next r = (r', e, None) \<Longrightarrow> event_size e \<le> MaxSSEFrameBytes"
  by (simp add: Next_def next_loop_size parts_size_def no_parts_def)

text \<open>A stream whose frames are all observed without an error has at most \<open>MaxStreamFrames\<close> of them.\<close>

fun observe_all :: "sse_event list \<Rightarrow> stream_budget \<Rightarrow> stream_budget option" where
  "observe_all [] b = Some b"
| "observe_all (e # es) b = (case Observe e b of (b', None) \<Rightarrow> observe_all es b' | (b', Some x) \<Rightarrow> None)"

lemma observe_all_bounds:
  "observe_all es b = Some b' \<Longrightarrow> bu_frames b \<le> MaxStreamFrames \<Longrightarrow> bu_bytes b \<le> MaxStreamBytes \<Longrightarrow>
     bu_frames b' = bu_frames b + length es \<and> bu_bytes b' = bu_bytes b + sum_list (map event_size es) \<and>
     bu_frames b' \<le> MaxStreamFrames \<and> bu_bytes b' \<le> MaxStreamBytes"
proof (induction es arbitrary: b)
  case (Cons e es)
  then show ?case
    using Cons.IH [of "b\<lparr>bu_frames := bu_frames b + 1, bu_bytes := bu_bytes b + event_size e\<rparr>"]
    by (auto simp: Observe_def Let_def split: if_splits)
qed simp

section \<open>Properties\<close>

text \<open>
  C36.  Frames written in the wire format, within the limits, are read back whole and in order,
  multi-line data included, and the end of the body is reported after them.
\<close>

theorem sse_frames_read_back:
  assumes "\<forall>p \<in> set ps. writable p" "rd_rest r = concat (map frame_wire ps)" "rd_end r = sentinel IoEOF"
    and "rd_bytes r + length (rd_rest r) \<le> MaxStreamBytes"
  shows "reads (length ps + 1) r = map (\<lambda>p. (frame_event p, None)) ps @ [(empty_frame, Some (sentinel IoEOF))]"
  using assms
proof (induction ps arbitrary: r)
  case Nil
  then show ?case
    using Next_end [of r] by simp
next
  case (Cons p ps)
  let ?r = "r\<lparr>rd_rest := concat (map frame_wire ps), rd_bytes := rd_bytes r + length (frame_wire p)\<rparr>"
  have "Next r = (?r, frame_event p, None)"
    using Cons.prems by (intro Next_frame) auto
  moreover have "reads (length ps + 1) ?r = map (\<lambda>p. (frame_event p, None)) ps @ [(empty_frame, Some (sentinel IoEOF))]"
    using Cons.prems by (intro Cons.IH) auto
  ultimately show ?case
    by simp
qed

text \<open>A named frame with two lines of data and a heartbeat.\<close>

definition sample_frames :: "frame_parts list" where
  "sample_frames = [\<lparr>pt_name = ''delta'', pt_data = [''a'', ''b''], pt_id = [], pt_comment = []\<rparr>,
     \<lparr>pt_name = [], pt_data = [], pt_id = [], pt_comment = ''ping''\<rparr>]"

theorem sse_frames_read_back_witness:
  "reads 3 \<lparr>rd_rest = concat (map frame_wire sample_frames), rd_end = sentinel IoEOF, rd_bytes = 0\<rparr> =
     [(\<lparr>se_Name = ''delta'', se_Data = [CHR ''a'', newline, CHR ''b''], se_ID = [], se_Comment = []\<rparr>, None),
      (\<lparr>se_Name = [], se_Data = [], se_ID = [], se_Comment = ''ping''\<rparr>, None), (empty_frame, Some (sentinel IoEOF))]"
proof -
  have "\<forall>p \<in> set sample_frames. writable p" "length (concat (map frame_wire sample_frames)) \<le> MaxStreamBytes"
    by (auto simp: sample_frames_def writable_def frame_lines_def frame_wire_def clean_text_def no_frame_def trim_space_def
        ascii_space_def space2_def space3_def MaxSSELineBytes_def MaxSSEFrameBytes_def MaxSSEFrameLines_def MaxStreamBytes_def)
  then show ?thesis
    using sse_frames_read_back [of sample_frames "\<lparr>rd_rest = concat (map frame_wire sample_frames), rd_end = sentinel IoEOF, rd_bytes = 0\<rparr>"]
    by (simp add: sample_frames_def frame_event_def numeral_3_eq_3)
qed

end
