(* ===== verification/WireStream.thy ===== *)
theory WireStream
  imports ProviderEvents Sse
begin

text \<open>
  What the stream adapters of the providers share: the errors of a provider
  (\<open>src/provider/provider.go\<close>), reported token counts, and the contract of \<open>provider.Stream\<close> that
  every adapter keeps, as a locale: a terminal event ends the stream, and an ended stream gives no
  more events.
\<close>

section \<open>Provider errors\<close>

datatype error_kind =
    ErrorUnknown | ErrorAuthentication | ErrorPermission | ErrorInvalidRequest | ErrorContextLength
  | ErrorNotFound | ErrorRateLimit | ErrorServer | ErrorStream

fun error_kind_name :: "error_kind \<Rightarrow> bytes" where
  "error_kind_name ErrorUnknown = ''unknown''"
| "error_kind_name ErrorAuthentication = ''authentication''"
| "error_kind_name ErrorPermission = ''permission''"
| "error_kind_name ErrorInvalidRequest = ''invalid_request''"
| "error_kind_name ErrorContextLength = ''context_length''"
| "error_kind_name ErrorNotFound = ''not_found''"
| "error_kind_name ErrorRateLimit = ''rate_limit''"
| "error_kind_name ErrorServer = ''server''"
| "error_kind_name ErrorStream = ''stream''"

record provider_error =
  pe_Provider :: bytes
  pe_Kind :: error_kind
  pe_Code :: bytes
  pe_StatusCode :: int
  pe_Message :: bytes
  pe_RetryAfter :: int

text \<open>
  \<open>Error.Error\<close>, and the error value: of its type, \<open>IsContextOverflow\<close> reads whether the kind is
  \<open>ErrorContextLength\<close>.
\<close>

definition provider_error_text :: "provider_error \<Rightarrow> bytes" where
  "provider_error_text e =
     (let label = pe_Provider e;
          label = (if pe_Code e \<noteq> [] then (if label \<noteq> [] then label @ '' '' else []) @ pe_Code e else label);
          label = (if label = [] then error_kind_name (pe_Kind e) else label);
          label = (if pe_StatusCode e \<noteq> 0 then label @ '' HTTP '' @ print_int (pe_StatusCode e) else label)
      in if pe_Message e = [] then label else label @ '': '' @ pe_Message e)"

definition provider_go_err :: "provider_error \<Rightarrow> go_err" where
  "provider_go_err e = (if pe_Kind e = ErrorContextLength
     then wrap_err (provider_error_text e) (sentinel ErrContextOverflow) else new_err (provider_error_text e))"

definition Retryable :: "provider_error \<Rightarrow> bool" where
  "Retryable e \<longleftrightarrow> pe_Kind e \<in> {ErrorRateLimit, ErrorServer, ErrorStream}"

definition RetryDelay :: "provider_error \<Rightarrow> int" where
  "RetryDelay e = max 0 (pe_RetryAfter e)"

definition isContextLengthCode :: "bytes \<Rightarrow> bool" where
  "isContextLengthCode code \<longleftrightarrow> code \<in> {''context_length_exceeded'', ''max_context_length'', ''prompt_too_long''}"

definition httpErrorKind :: "int \<Rightarrow> error_kind" where
  "httpErrorKind statusCode =
     (if statusCode = 401 then ErrorAuthentication
      else if statusCode = 403 then ErrorPermission
      else if statusCode = 404 then ErrorNotFound
      else if statusCode = 429 then ErrorRateLimit
      else if 500 \<le> statusCode \<and> statusCode \<le> 599 then ErrorServer
      else if 400 \<le> statusCode \<and> statusCode \<le> 499 then ErrorInvalidRequest
      else ErrorUnknown)"

text \<open>The JSON envelope of an error body, as \<open>encoding/json\<close> decodes it.\<close>

record error_envelope =
  ee_Code :: bytes
  ee_Type :: bytes
  ee_Message :: bytes
  ee_TopCode :: bytes

definition has_prefix :: "bytes \<Rightarrow> bytes \<Rightarrow> bool" where
  "has_prefix p s \<longleftrightarrow> take (length p) s = p"

definition providerErrorCode :: "(bytes \<Rightarrow> go_err + error_envelope) \<Rightarrow> bytes \<Rightarrow> bytes" where
  "providerErrorCode decode body = (case decode body of
       Inl e \<Rightarrow> []
     | Inr envelope \<Rightarrow>
         if ee_Code envelope \<noteq> [] then ee_Code envelope
         else if ee_Type envelope = ''invalid_request_error'' \<and>
             has_prefix ''prompt is too long:'' (trim_space (ee_Message envelope))
           then ''prompt_too_long''
         else ee_TopCode envelope)"

definition NewHTTPError ::
  "(bytes \<Rightarrow> go_err + error_envelope) \<Rightarrow> bytes \<Rightarrow> int \<Rightarrow> bytes \<Rightarrow> provider_error" where
  "NewHTTPError decode providerName statusCode message =
     (let code = providerErrorCode decode message in
      \<lparr>pe_Provider = providerName,
       pe_Kind = (if isContextLengthCode code then ErrorContextLength else httpErrorKind statusCode),
       pe_Code = code, pe_StatusCode = statusCode, pe_Message = message,
       pe_RetryAfter = 0\<rparr>)"

text \<open>\<open>reportedToken\<close> and \<open>optionalToken\<close>.\<close>

definition reportedToken :: "int option \<Rightarrow> int \<times> bool" where
  "reportedToken value = (case value of None \<Rightarrow> (0, False) | Some n \<Rightarrow> (max 0 n, True))"

section \<open>The contract of a stream\<close>

definition terminal :: "event \<Rightarrow> bool" where
  "terminal e \<longleftrightarrow> ev_Kind e = EventDone \<or> ev_Kind e = EventError"

text \<open>The events of a number of \<open>Recv\<close> calls; calls that fail give none.\<close>

primrec received :: "('s \<Rightarrow> 's \<times> (go_err + event)) \<Rightarrow> nat \<Rightarrow> 's \<Rightarrow> event list" where
  "received recv 0 s = []"
| "received recv (Suc n) s = (case recv s of (s', x) \<Rightarrow>
     (case x of Inl _ \<Rightarrow> [] | Inr e \<Rightarrow> [e]) @ received recv n s')"

locale wire_stream =
  fixes recv :: "'s \<Rightarrow> 's \<times> (go_err + event)"
    and sound :: "'s \<Rightarrow> bool"
    and ended :: "'s \<Rightarrow> bool"
  assumes sound_recv: "sound s \<Longrightarrow> recv s = (s', x) \<Longrightarrow> sound s'"
    and terminal_ends: "sound s \<Longrightarrow> recv s = (s', Inr e) \<Longrightarrow> terminal e \<Longrightarrow> ended s'"
    and ended_silent: "sound s \<Longrightarrow> ended s \<Longrightarrow> recv s = (s', x) \<Longrightarrow> ended s' \<and> (\<exists>e. x = Inl e)"
begin

lemma ended_receives_nothing: "sound s \<Longrightarrow> ended s \<Longrightarrow> received recv n s = []"
proof (induction n arbitrary: s)
  case (Suc n)
  obtain s' x where "recv s = (s', x)"
    by force
  then show ?case
    using Suc ended_silent [of s s' x] sound_recv [of s s' x] by auto
qed simp

lemma one_terminal_event: "sound s \<Longrightarrow> validateTerminalSequence (received recv n s) False = None"
proof -
  assume "sound s"
  then have "\<exists>t. terminal_scan False (received recv n s) = Inr t"
  proof (induction n arbitrary: s)
    case (Suc n)
    obtain s' x where step: "recv s = (s', x)"
      by force
    note s' = sound_recv [OF Suc.prems step]
    show ?case
    proof (cases x)
      case (Inr e)
      show ?thesis
      proof (cases "terminal e")
        case True
        then show ?thesis
          using terminal_ends [OF Suc.prems step [unfolded Inr]] ended_receives_nothing [OF s'] step Inr
          by (auto simp: terminal_def)
      next
        case False
        then show ?thesis
          using Suc.IH [OF s'] step Inr by (auto simp: terminal_def)
      qed
    qed (use Suc.IH [OF s'] step in simp)
  qed auto
  then show ?thesis
    by (auto simp: validateTerminalSequence_def)
qed

end

text \<open>The stream after a number of \<open>Recv\<close> calls.\<close>

primrec receive_n :: "('s \<Rightarrow> 's \<times> 'x) \<Rightarrow> nat \<Rightarrow> 's \<Rightarrow> 's" where
  "receive_n recv 0 s = s"
| "receive_n recv (Suc n) s = receive_n recv n (fst (recv s))"

text \<open>
  Reading comes to an end: after a number of events there is an error, and it is \<open>io.EOF\<close> only when
  a terminal event was among them.
\<close>

definition drains :: "('s \<Rightarrow> 's \<times> (go_err + event)) \<Rightarrow> 's \<Rightarrow> bool" where
  "drains recv s \<longleftrightarrow> (\<exists>n e. snd (recv (receive_n recv n s)) = Inl e \<and> length (received recv n s) = n \<and>
     (e = sentinel IoEOF \<longrightarrow> (\<exists>ev \<in> set (received recv n s). terminal ev)))"

text \<open>
  A stream that comes to an end: every event leaves less to read, and \<open>io.EOF\<close> is the answer of an
  ended stream only, which a terminal event has ended.
\<close>

locale draining_stream = wire_stream recv sound ended
  for recv :: "'s \<Rightarrow> 's \<times> (go_err + event)" and sound ended +
  fixes whole :: "'s \<Rightarrow> bool"
    and smaller :: "('s \<times> 's) set"
  assumes smaller_wf: "wf smaller"
    and whole_recv: "sound s \<Longrightarrow> whole s \<Longrightarrow> recv s = (s', Inr e) \<Longrightarrow> whole s'"
    and progress: "sound s \<Longrightarrow> whole s \<Longrightarrow> recv s = (s', Inr e) \<Longrightarrow> (s', s) \<in> smaller"
    and terminal_ended: "sound s \<Longrightarrow> whole s \<Longrightarrow> \<not> ended s \<Longrightarrow> recv s = (s', Inr e) \<Longrightarrow> ended s' \<Longrightarrow> terminal e"
    and eof_ended: "sound s \<Longrightarrow> whole s \<Longrightarrow> recv s = (s', Inl (sentinel IoEOF)) \<Longrightarrow> ended s"
begin

lemma drained_from:
  "sound s \<Longrightarrow> whole s \<Longrightarrow> \<exists>n e. snd (recv (receive_n recv n s)) = Inl e \<and> length (received recv n s) = n \<and>
     (e = sentinel IoEOF \<longrightarrow> ended s \<or> (\<exists>ev \<in> set (received recv n s). terminal ev))"
proof (induction s rule: wf_induct_rule [OF smaller_wf])
  case (1 s)
  obtain s' x where step: "recv s = (s', x)"
    by force
  show ?case
  proof (cases x)
    case (Inl e)
    then show ?thesis
      using step eof_ended [OF 1(2,3)] by (intro exI [of _ 0] exI [of _ e]) auto
  next
    case (Inr ev)
    obtain n e where IH: "snd (recv (receive_n recv n s')) = Inl e" "length (received recv n s') = n"
      "e = sentinel IoEOF \<longrightarrow> ended s' \<or> (\<exists>ev \<in> set (received recv n s'). terminal ev)"
      using 1(1) [OF progress [OF 1(2,3) step [unfolded Inr]] sound_recv [OF 1(2) step]
        whole_recv [OF 1(2,3) step [unfolded Inr]]] by blast
    then show ?thesis
      using step Inr terminal_ended [OF 1(2,3) _ step [unfolded Inr]]
      by (intro exI [of _ "Suc n"] exI [of _ e]) auto
  qed
qed

lemma drained: "sound s \<Longrightarrow> whole s \<Longrightarrow> \<not> ended s \<Longrightarrow> drains recv s"
  unfolding drains_def using drained_from by blast

end

text \<open>Reading one frame takes bytes off the body.\<close>

lemma Next_shrinks:
  assumes "Next r = (r', e, None)"
  shows "length (rd_rest r') < length (rd_rest r)"
proof -
  have "next_loop b l p r = (r', e, None) \<Longrightarrow> length (rd_rest r') < length (rd_rest r)" for b l p
  proof (induction b l p r rule: next_loop.induct)
    case (1 b l p r)
    obtain r1 x where read: "read_line [] r = (r1, x)"
      by force
    then obtain line where line: "x = Inr line" "\<not> (MaxSSEFrameBytes < b + length line + 1 \<or> MaxSSEFrameLines < l + 1)"
      using 1(3) by (auto simp: next_loop.simps [of b] split: sum.splits if_splits)
    have shrunk: "length (rd_rest r1) < length (rd_rest r)"
      using read_line_shrinks read line(1) by blast
    show ?case
    proof (cases "trim_space line = []")
      case True
      then show ?thesis
        using 1(1) [OF read [symmetric] line True] 1(3) read line shrunk
        by (auto simp: next_loop.simps [of b] split: if_splits)
    next
      case False
      then show ?thesis
        using 1(2) [OF read [symmetric] line False] 1(3) read line shrunk
        by (simp add: next_loop.simps [of b])
    qed
  qed
  then show ?thesis
    using assms by (simp add: Next_def)
qed

text \<open>The frames of a body, up to the error that ends it.\<close>

function wire_frames :: "sse_reader \<Rightarrow> sse_event list" where
  "wire_frames r = (case Next r of (r', frame, None) \<Rightarrow> frame # wire_frames r' | (r', frame, Some e) \<Rightarrow> [])"
  by auto
termination
  by (relation "measure (\<lambda>r. length (rd_rest r))") (auto dest!: Next_shrinks [OF sym])

declare wire_frames.simps [simp del]

lemma wire_frames_Next: "Next r = (r', frame, None) \<Longrightarrow> wire_frames r = frame # wire_frames r'"
  by (subst wire_frames.simps) simp

end
