(* ===== verification/OpenAIChat.thy ===== *)
theory OpenAIChat
  imports WireStream ByteSearch ToolBus
begin

text \<open>
  The chat-completions stream of OpenAI: \<open>src/provider/openai/stream.go\<close>, the decoding of its chunks
  being \<open>encoding/json\<close>'s.  Text passes through a splitter that takes \<open><think>\<close> sections out of it;
  tool calls arrive in fragments with or without an index or an id.  The lemmas show that the
  splitter gives, in whatever pieces the text arrives, what splitting the whole text gives; that
  what a stream keeps of tool calls stays within its limits, the check before a chunk being exact;
  and that the stream ends with its terminal event.
\<close>

section \<open>The splitter\<close>

record think_splitter =
  th_inThink :: bool
  th_buffer :: bytes

definition think_tag :: "bool \<Rightarrow> bytes" where
  "think_tag inThink = (if inThink then ''</think>'' else ''<think>'')"

text \<open>The loop of \<open>safeEmitLen\<close>, \<open>k\<close> going down.\<close>

fun safe_len :: "bytes \<Rightarrow> bytes \<Rightarrow> nat \<Rightarrow> nat" where
  "safe_len s target 0 = length s"
| "safe_len s target (Suc k) =
     (if take (Suc k) target = drop (length s - Suc k) s then length s - Suc k else safe_len s target k)"

definition safeEmitLen :: "bytes \<Rightarrow> bytes \<Rightarrow> nat" where
  "safeEmitLen s target = safe_len s target (min (length target - 1) (length s))"

lemma think_tag_length: "7 \<le> length (think_tag b)" "think_tag b \<noteq> []"
  by (simp_all add: think_tag_def)

lemma index_shrinks:
  "bytes_index (think_tag b) buffer = Some i \<Longrightarrow> length (drop (i + length (think_tag b)) buffer) < length buffer"
  using bytes_index_Some [of "think_tag b" buffer i] occurs_bound [of "think_tag b" buffer i] think_tag_length [of b]
  by (cases buffer) auto

text \<open>The loop of \<open>process\<close>: the text and the thinking written so far.\<close>

function split_loop :: "bool \<Rightarrow> bytes \<Rightarrow> bytes \<Rightarrow> bytes \<Rightarrow> think_splitter \<times> bytes \<times> bytes" where
  "split_loop inThink buffer textB thinkB = (case bytes_index (think_tag inThink) buffer of
       Some i \<Rightarrow> split_loop (\<not> inThink) (drop (i + length (think_tag inThink)) buffer)
         (if inThink then textB else textB @ take i buffer) (if inThink then thinkB @ take i buffer else thinkB)
     | None \<Rightarrow>
         let safe = safeEmitLen buffer (think_tag inThink) in
         (\<lparr>th_inThink = inThink, th_buffer = drop safe buffer\<rparr>,
          if inThink then textB else textB @ take safe buffer,
          if inThink then thinkB @ take safe buffer else thinkB))"
  by auto
termination
  by (relation "measure (\<lambda>(inThink, buffer, textB, thinkB). length buffer)") (use index_shrinks in auto)

declare split_loop.simps [simp del]

definition process :: "bytes \<Rightarrow> think_splitter \<Rightarrow> think_splitter \<times> bytes \<times> bytes" where
  "process delta t = split_loop (th_inThink t) (th_buffer t @ delta) [] []"

definition flush :: "think_splitter \<Rightarrow> think_splitter \<times> bytes \<times> bytes" where
  "flush t = (t\<lparr>th_buffer := []\<rparr>, if th_inThink t then [] else th_buffer t, if th_inThink t then th_buffer t else [])"

section \<open>Chunks\<close>

record chat_item =
  ci_Index :: "int option"
  ci_ID :: bytes
  ci_Name :: bytes
  ci_Arguments :: bytes

record chat_choice =
  cc_Content :: bytes
  cc_ReasoningContent :: bytes
  cc_Reasoning :: bytes
  cc_ToolCalls :: "chat_item list"
  cc_FinishReason :: bytes

record chat_usage =
  cu_PromptTokens :: "int option"
  cu_CompletionTokens :: int
  cu_TotalTokens :: int
  cu_CachedTokens :: "int option"
  cu_CacheWriteTokens :: "int option"
  cu_ReasoningTokens :: "int option"

record api_error =
  ae_Type :: bytes
  ae_Code :: bytes
  ae_Message :: bytes

record chat_chunk =
  ck_ID :: bytes
  ck_Model :: bytes
  ck_Choices :: "chat_choice list"
  ck_Error :: "api_error option"
  ck_Usage :: chat_usage

text \<open>\<open>openAIErrorKind\<close> and \<open>responsesError\<close> (\<open>src/provider/openai/responses.go\<close>).\<close>

definition openAIErrorKind :: "bytes \<Rightarrow> bytes \<Rightarrow> error_kind" where
  "openAIErrorKind errorType code =
     (if code \<in> {''context_length_exceeded'', ''max_context_length'', ''prompt_too_long''} then ErrorContextLength
      else if code = ''rate_limit_exceeded'' \<or> errorType = ''rate_limit_error'' then ErrorRateLimit
      else if code \<in> {''server_error'', ''server_is_overloaded'', ''model_error''} \<or>
          errorType \<in> {''api_error'', ''overloaded_error''} then ErrorServer
      else if code = ''stream_error'' then ErrorStream
      else if code \<in> {''invalid_request_error'', ''invalid_request'', ''unsupported_parameter''} \<or>
          errorType = ''invalid_request_error'' then ErrorInvalidRequest
      else if code = ''invalid_api_key'' \<or> errorType = ''authentication_error'' then ErrorAuthentication
      else if errorType = ''permission_error'' then ErrorPermission
      else if errorType = ''not_found_error'' then ErrorNotFound
      else ErrorUnknown)"

definition responsesError :: "api_error option \<Rightarrow> go_err" where
  "responsesError apiError = provider_go_err (case apiError of
       None \<Rightarrow> \<lparr>pe_Provider = ''openai'', pe_Kind = ErrorUnknown, pe_Code = [], pe_StatusCode = 0,
         pe_Message = ''responses API failed'', pe_RetryAfter = 0\<rparr>
     | Some a \<Rightarrow> \<lparr>pe_Provider = ''openai'', pe_Kind = openAIErrorKind (ae_Type a) (ae_Code a), pe_Code = ae_Code a,
         pe_StatusCode = 0, pe_Message = ae_Message a, pe_RetryAfter = 0\<rparr>)"

definition mapOpenAIStopReason :: "bytes \<Rightarrow> stop_reason" where
  "mapOpenAIStopReason reason =
     (if reason = ''stop'' then StopReasonComplete
      else if reason = ''length'' then StopReasonLength
      else if reason = ''tool_calls'' \<or> reason = ''function_call'' then StopReasonToolUse
      else if reason = ''content_filter'' then StopReasonContentFilter
      else StopReasonUnknown)"

section \<open>Which call a fragment belongs to\<close>

text \<open>\<open>calls\<close>, \<open>idIndex\<close> and \<open>lastSlot\<close>; a map is the association list of its entries.\<close>

record slots =
  sl_calls :: "(int \<times> tool_call) list"
  sl_ids :: "(bytes \<times> int) list"
  sl_last :: "int option"

definition no_call :: tool_call where
  "no_call = \<lparr>tc_ID = [], tc_Name = [], tc_Arguments = [], tc_OperationID = []\<rparr>"

text \<open>\<open>for calls[index] != nil\<close>: as many steps as there are calls are enough.\<close>

fun free_from :: "(int \<times> tool_call) list \<Rightarrow> nat \<Rightarrow> int \<Rightarrow> int" where
  "free_from calls 0 index = index"
| "free_from calls (Suc fuel) index =
     (if map_of calls index = None then index else free_from calls fuel (index + 1))"

definition free_slot :: "(int \<times> tool_call) list \<Rightarrow> int" where
  "free_slot calls = free_from calls (length calls) 0"

definition resolveToolCallIndex :: "chat_item \<Rightarrow> slots \<Rightarrow> slots \<times> int" where
  "resolveToolCallIndex item s = (case ci_Index item of
       Some index \<Rightarrow> (s\<lparr>sl_ids := (if ci_ID item \<noteq> [] then AList.update (ci_ID item) index (sl_ids s) else sl_ids s),
         sl_last := Some index\<rparr>, index)
     | None \<Rightarrow>
         if ci_ID item \<noteq> [] then
           (case map_of (sl_ids s) (ci_ID item) of
              Some index \<Rightarrow> (s\<lparr>sl_last := Some index\<rparr>, index)
            | None \<Rightarrow>
                (case (case sl_last s of None \<Rightarrow> None | Some slot \<Rightarrow> (case map_of (sl_calls s) slot of
                     None \<Rightarrow> None
                   | Some existing \<Rightarrow>
                       if tc_ID existing = [] \<and> (tc_Name existing = [] \<or> ci_Name item = []) then Some slot else None)) of
                   Some index \<Rightarrow> (s\<lparr>sl_ids := AList.update (ci_ID item) index (sl_ids s)\<rparr>, index)
                 | None \<Rightarrow>
                     let index = free_slot (sl_calls s)
                     in (s\<lparr>sl_ids := AList.update (ci_ID item) index (sl_ids s), sl_last := Some index\<rparr>, index)))
         else
           (case sl_last s of
              Some slot \<Rightarrow>
                if ci_Name item \<noteq> [] \<and> (case map_of (sl_calls s) slot of None \<Rightarrow> False
                    | Some existing \<Rightarrow> tc_Name existing \<noteq> [])
                  then (s\<lparr>sl_last := Some (free_slot (sl_calls s))\<rparr>, free_slot (sl_calls s))
                else (s, slot)
            | None \<Rightarrow> (s\<lparr>sl_last := Some 0\<rparr>, 0)))"

text \<open>The fragment is merged into its call.\<close>

definition name_call :: "chat_item \<Rightarrow> tool_call \<Rightarrow> tool_call" where
  "name_call item call = call\<lparr>tc_ID := (if ci_ID item \<noteq> [] then ci_ID item else tc_ID call),
     tc_Name := (if ci_Name item \<noteq> [] then ci_Name item else tc_Name call)\<rparr>"

definition slot_call :: "slots \<Rightarrow> int \<Rightarrow> tool_call" where
  "slot_call s index = (case map_of (sl_calls s) index of None \<Rightarrow> no_call | Some call \<Rightarrow> call)"

definition put_call :: "int \<Rightarrow> tool_call \<Rightarrow> slots \<Rightarrow> slots" where
  "put_call index call s = s\<lparr>sl_calls := AList.update index call (sl_calls s)\<rparr>"

section \<open>The check of a chunk\<close>

definition max_arguments :: nat where
  "max_arguments = 2 ^ 20"

text \<open>The loop of \<open>validateChunk\<close> over the items of all choices, on copies of the state.\<close>

definition used_bytes :: "(int \<times> nat) list \<Rightarrow> int \<Rightarrow> nat" where
  "used_bytes indexes index = (case map_of indexes index of None \<Rightarrow> 0 | Some n \<Rightarrow> n)"

fun validate_items :: "chat_item list \<Rightarrow> nat \<Rightarrow> slots \<Rightarrow> (int \<times> nat) list \<Rightarrow> go_err option" where
  "validate_items [] toolItems sim indexes = None"
| "validate_items (item # items) toolItems sim indexes =
     (if MaxStreamItems < toolItems + 1 then Some (new_err ''openai chunk exceeds tool item limit'')
      else if MaxToolNameBytes < length (ci_Name item) then Some (new_err (''openai tool name exceeds '' @ print_int (int MaxToolNameBytes) @ '' bytes''))
      else case resolveToolCallIndex item sim of (sim1, index) \<Rightarrow>
        if index < 0 then Some (new_err ''openai tool index is negative'')
        else let sim2 = put_call index (name_call item (slot_call sim1 index)) sim1 in
        if max_arguments < used_bytes indexes index + length (ci_Arguments item)
          then Some (new_err ''openai tool arguments exceed byte limit'')
        else let indexes1 = AList.update index (used_bytes indexes index + length (ci_Arguments item)) indexes in
        if MaxStreamItems < length indexes1 then Some (new_err ''openai tool calls exceed item limit'')
        else validate_items items (toolItems + 1) sim2 indexes1)"

definition call_bytes :: "(int \<times> tool_call) list \<Rightarrow> (int \<times> nat) list" where
  "call_bytes calls = map (\<lambda>(index, call). (index, length (tc_Arguments call))) calls"

definition validateChunk :: "chat_chunk \<Rightarrow> slots \<Rightarrow> go_err option" where
  "validateChunk parsed s =
     validate_items (concat (map cc_ToolCalls (ck_Choices parsed))) 0 s (call_bytes (sl_calls s))"

section \<open>The stream\<close>

record chat_stream =
  cs_reader :: sse_reader
  cs_budget :: stream_budget
  cs_pending :: "event list"
  cs_finished :: bool
  cs_usage :: usage
  cs_stopReason :: stop_reason
  cs_response :: response_metadata
  cs_contextUsage :: bool
  cs_reports :: "int list"
  cs_slots :: slots
  cs_order :: "int list"
  cs_emitted :: "int list"
  cs_complete :: bool
  cs_splitter :: think_splitter

definition text_events :: "bytes \<Rightarrow> bytes \<Rightarrow> event list" where
  "text_events txt thinking =
     (if thinking \<noteq> [] then [zero_event\<lparr>ev_Kind := EventThinkingDelta, ev_Thinking := thinking\<rparr>] else []) @
     (if txt \<noteq> [] then [zero_event\<lparr>ev_Kind := EventTextDelta, ev_Text := txt, ev_TextPhase := TextPhaseFinalAnswer\<rparr>]
      else [])"

definition queue :: "event list \<Rightarrow> chat_stream \<Rightarrow> chat_stream" where
  "queue events s = s\<lparr>cs_pending := cs_pending s @ events\<rparr>"

definition handleDoneMarker :: "chat_stream \<Rightarrow> chat_stream" where
  "handleDoneMarker s = (case flush (cs_splitter s) of (t, txt, thinking) \<Rightarrow>
     queue (text_events txt thinking @ [zero_event\<lparr>ev_Kind := EventDone, ev_Usage := cs_usage s,
         ev_StopReason := cs_stopReason s, ev_Response := cs_response s\<rparr>])
       (s\<lparr>cs_finished := True, cs_splitter := t\<rparr>))"

text \<open>One tool-call fragment of a choice.\<close>

definition tool_delta :: "chat_item \<Rightarrow> chat_stream \<Rightarrow> chat_stream" where
  "tool_delta item s = (case resolveToolCallIndex item (cs_slots s) of (slots1, index) \<Rightarrow>
     let call = name_call item (slot_call slots1 index);
         call = call\<lparr>tc_Arguments := tc_Arguments call @ ci_Arguments item\<rparr>
     in queue [zero_event\<lparr>ev_Kind := EventToolCallDelta, ev_ToolCallDelta := Some \<lparr>dl_Index = Some index,
            dl_ID = ci_ID item, dl_Name = ci_Name item, dl_ArgumentsDelta = ci_Arguments item\<rparr>\<rparr>]
          (s\<lparr>cs_slots := put_call index call slots1,
             cs_order := (if map_of (sl_calls slots1) index = None then cs_order s @ [index] else cs_order s)\<rparr>))"

text \<open>One step of the loop of \<open>emitCompleteToolCalls\<close>; \<open>json.Valid\<close> is the argument.\<close>

definition complete_call :: "(bytes \<Rightarrow> bool) \<Rightarrow> int \<Rightarrow> chat_stream \<Rightarrow> chat_stream" where
  "complete_call json_valid index s =
     (if index \<in> set (cs_emitted s) then s
      else case map_of (sl_calls (cs_slots s)) index of
        None \<Rightarrow> s
      | Some call \<Rightarrow>
          if tc_ID call = [] \<or> tc_Name call = [] \<or> \<not> json_valid (tc_Arguments call) then s
          else queue [zero_event\<lparr>ev_Kind := EventToolCall, ev_ToolCall := Some call\<rparr>]
            (s\<lparr>cs_emitted := index # cs_emitted s\<rparr>))"

definition emitCompleteToolCalls :: "(bytes \<Rightarrow> bool) \<Rightarrow> chat_stream \<Rightarrow> chat_stream" where
  "emitCompleteToolCalls json_valid s = fold (complete_call json_valid) (sort (cs_order s)) s"

definition processChoiceDelta :: "(bytes \<Rightarrow> bool) \<Rightarrow> chat_choice \<Rightarrow> chat_stream \<Rightarrow> chat_stream" where
  "processChoiceDelta json_valid choice s =
     (let reasoning = (if cc_ReasoningContent choice \<noteq> [] then cc_ReasoningContent choice else cc_Reasoning choice);
          s = queue (text_events [] reasoning) s;
          s = (if cc_Content choice \<noteq> [] then (case process (cc_Content choice) (cs_splitter s) of
                 (t, txt, thinking) \<Rightarrow> queue (text_events txt thinking) (s\<lparr>cs_splitter := t\<rparr>)) else s);
          s = fold tool_delta (cc_ToolCalls choice) s
      in if cc_FinishReason choice = [] then s
         else let s = s\<lparr>cs_stopReason := mapOpenAIStopReason (cc_FinishReason choice)\<rparr>
           in if cc_FinishReason choice = ''tool_calls'' \<and> cs_complete s
                then emitCompleteToolCalls json_valid s else s)"

text \<open>The context-usage observer is called at most once; \<open>cs_reports\<close> are its calls.\<close>

definition record_usage :: "chat_usage \<Rightarrow> chat_stream \<Rightarrow> chat_stream" where
  "record_usage u s =
     (if 0 < cu_TotalTokens u \<or> cu_PromptTokens u \<noteq> None \<or> 0 < cu_CompletionTokens u \<or> cu_CachedTokens u \<noteq> None \<or>
          cu_CacheWriteTokens u \<noteq> None \<or> cu_ReasoningTokens u \<noteq> None
        then let prompt = (case cu_PromptTokens u of None \<Rightarrow> 0 | Some n \<Rightarrow> n) in
          s\<lparr>cs_reports := (if cs_reports s = [] \<and> cs_contextUsage s \<and> cu_PromptTokens u \<noteq> None
                then [prompt] else cs_reports s),
            cs_usage := \<lparr>u_InputTokens = prompt,
              u_CachedInputTokens = fst (reportedToken (cu_CachedTokens u)),
              u_CachedInputTokensReported = snd (reportedToken (cu_CachedTokens u)),
              u_CacheWriteInputTokens = fst (reportedToken (cu_CacheWriteTokens u)),
              u_CacheWriteInputTokensReported = snd (reportedToken (cu_CacheWriteTokens u)),
              u_OutputTokens = cu_CompletionTokens u,
              u_ReasoningTokens = fst (reportedToken (cu_ReasoningTokens u)),
              u_TotalTokens = cu_TotalTokens u\<rparr>\<rparr>
      else s)"

definition consumeChunk :: "(bytes \<Rightarrow> bool) \<Rightarrow> chat_chunk \<Rightarrow> chat_stream \<Rightarrow> chat_stream" where
  "consumeChunk json_valid parsed s =
     fold (processChoiceDelta json_valid) (ck_Choices parsed) (record_usage (ck_Usage parsed) s)"

text \<open>After \<open>consumeChunk\<close>: the id and the model of the response.\<close>

definition record_response :: "chat_chunk \<Rightarrow> chat_stream \<Rightarrow> chat_stream" where
  "record_response parsed s = s\<lparr>cs_response := (cs_response s)
     \<lparr>rm_ID := (if ck_ID parsed \<noteq> [] then ck_ID parsed else rm_ID (cs_response s)),
      rm_Model := (if ck_Model parsed \<noteq> [] then ck_Model parsed else rm_Model (cs_response s))\<rparr>\<rparr>"

text \<open>Handling a chunk reads nothing.\<close>

lemma fold_invariant: "(\<And>x s. x \<in> set xs \<Longrightarrow> f (g x s) = f s) \<Longrightarrow> f (fold g xs s) = f s"
  by (induction xs arbitrary: s) auto

lemma queue_simps [simp]:
  "cs_reader (queue es s) = cs_reader s" "cs_slots (queue es s) = cs_slots s" "cs_finished (queue es s) = cs_finished s"
  "cs_pending (queue es s) = cs_pending s @ es" "cs_order (queue es s) = cs_order s"
  by (simp_all add: queue_def)

lemma tool_delta_reader [simp]: "cs_reader (tool_delta item s) = cs_reader s"
  and complete_call_reader [simp]: "cs_reader (complete_call json_valid index s) = cs_reader s"
  by (simp_all add: tool_delta_def complete_call_def Let_def split: prod.split option.split)

lemma emitCompleteToolCalls_reader [simp]: "cs_reader (emitCompleteToolCalls json_valid s) = cs_reader s"
  by (simp add: emitCompleteToolCalls_def fold_invariant [where f = cs_reader])

lemma processChoiceDelta_reader [simp]: "cs_reader (processChoiceDelta json_valid choice s) = cs_reader s"
  by (simp add: processChoiceDelta_def Let_def fold_invariant [where f = cs_reader] split: prod.split)

lemma consumeChunk_reader [simp]: "cs_reader (record_response parsed (consumeChunk json_valid parsed s)) = cs_reader s"
  by (simp add: record_response_def consumeChunk_def record_usage_def Let_def fold_invariant [where f = cs_reader])

lemma handleDoneMarker_reader [simp]: "cs_reader (handleDoneMarker s) = cs_reader s"
  by (simp add: handleDoneMarker_def split: prod.split)

definition done_marker :: bytes where
  "done_marker = ''[DONE]''"

text \<open>One frame: the stream returns (\<open>Inl\<close>), or its loop goes on (\<open>Inr\<close>).\<close>

definition chat_frame ::
  "(bytes \<Rightarrow> bool) \<Rightarrow> (bytes \<Rightarrow> tokens) \<Rightarrow> (bytes \<Rightarrow> go_err + chat_chunk) \<Rightarrow> chat_stream \<Rightarrow> (chat_stream \<times> (go_err + event)) + chat_stream" where
  "chat_frame json_valid decoder decode s = (case Next (cs_reader s) of
       (r, frame, Some err) \<Rightarrow>
         Inl (s\<lparr>cs_reader := r\<rparr>, Inl (if err = sentinel IoEOF then sentinel IoUnexpectedEOF else err))
     | (r, frame, None) \<Rightarrow> (case Observe frame (cs_budget s) of
         (b, Some err) \<Rightarrow> Inl (s\<lparr>cs_reader := r, cs_budget := b, cs_finished := True\<rparr>, Inl err)
       | (b, None) \<Rightarrow>
           let s1 = s\<lparr>cs_reader := r, cs_budget := b\<rparr>; failed = s1\<lparr>cs_finished := True\<rparr> in
           if trim_space (se_Data frame) = [] then Inr s1
           else if se_Data frame = done_marker then Inr (handleDoneMarker s1)
           else (case DecodeStreamJSON decoder decode (se_Data frame) of
               Inl err \<Rightarrow> Inl (failed, Inl err)
             | Inr parsed \<Rightarrow> (case ck_Error parsed of
                 Some a \<Rightarrow> Inl (failed,
                   Inr (zero_event\<lparr>ev_Kind := EventError, ev_Err := Some (responsesError (Some a))\<rparr>))
               | None \<Rightarrow> (case validateChunk parsed (cs_slots s1) of
                   Some err \<Rightarrow> Inl (failed, Inl err)
                 | None \<Rightarrow> Inr (record_response parsed (consumeChunk json_valid parsed s1)))))))"

lemma chat_frame_shrinks:
  "chat_frame json_valid decoder decode s = Inr s' \<Longrightarrow> length (rd_rest (cs_reader s')) < length (rd_rest (cs_reader s))"
  by (auto simp: chat_frame_def Let_def dest!: Next_shrinks split: prod.splits option.splits if_splits sum.splits)

function Recv_chat ::
  "(bytes \<Rightarrow> bool) \<Rightarrow> (bytes \<Rightarrow> tokens) \<Rightarrow> (bytes \<Rightarrow> go_err + chat_chunk) \<Rightarrow> chat_stream \<Rightarrow> chat_stream \<times> (go_err + event)" where
  "Recv_chat json_valid decoder decode s = (case cs_pending s of
       e # es \<Rightarrow> (s\<lparr>cs_pending := es\<rparr>, Inr e)
     | [] \<Rightarrow>
         if cs_finished s then (s, Inl (sentinel IoEOF))
         else (case chat_frame json_valid decoder decode s of
             Inl result \<Rightarrow> result | Inr s' \<Rightarrow> Recv_chat json_valid decoder decode s'))"
  by auto
termination
  by (relation "measure (\<lambda>(json_valid, decoder, decode, s). length (rd_rest (cs_reader s)))") (auto dest!: chat_frame_shrinks)

declare Recv_chat.simps [simp del]

definition new_chat_stream :: "bytes \<Rightarrow> go_err \<Rightarrow> bool \<Rightarrow> bool \<Rightarrow> chat_stream" where
  "new_chat_stream body bodyEnd contextUsage complete =
     \<lparr>cs_reader = \<lparr>rd_rest = body, rd_end = bodyEnd, rd_bytes = 0\<rparr>, cs_budget = \<lparr>bu_frames = 0, bu_bytes = 0\<rparr>,
      cs_pending = [], cs_finished = False, cs_usage = zero_usage, cs_stopReason = StopReasonOther [],
      cs_response = zero_response, cs_contextUsage = contextUsage, cs_reports = [],
      cs_slots = \<lparr>sl_calls = [], sl_ids = [], sl_last = None\<rparr>, cs_order = [], cs_emitted = [],
      cs_complete = complete, cs_splitter = \<lparr>th_inThink = False, th_buffer = []\<rparr>\<rparr>"

section \<open>Splitting in pieces\<close>

text \<open>The text and the thinking of a whole answer.\<close>

function think_split :: "bool \<Rightarrow> bytes \<Rightarrow> bytes \<times> bytes" where
  "think_split inThink s = (case bytes_index (think_tag inThink) s of
       None \<Rightarrow> (if inThink then ([], s) else (s, []))
     | Some i \<Rightarrow> (case think_split (\<not> inThink) (drop (i + length (think_tag inThink)) s) of (t, k) \<Rightarrow>
         if inThink then (t, take i s @ k) else (take i s @ t, k)))"
  by auto
termination
  by (relation "measure (\<lambda>(inThink, s). length s)") (use index_shrinks in auto)

declare think_split.simps [simp del]

lemma safe_len_spec:
  assumes "k \<le> length s"
  shows "length s - k \<le> safe_len s target k \<and> safe_len s target k \<le> length s \<and>
    (\<forall>j. 0 < j \<and> j \<le> k \<and> length s - j < safe_len s target k \<longrightarrow> take j target \<noteq> drop (length s - j) s)"
  using assms
proof (induction k)
  case (Suc k)
  show ?case
  proof (cases "take (Suc k) target = drop (length s - Suc k) s")
    case True
    have "\<not> length s - j < length s - Suc k" if "j \<le> Suc k" for j
      using that by simp
    then show ?thesis
      unfolding safe_len.simps if_P [OF True] by auto
  next
    case False
    then show ?thesis
      using Suc by (auto simp: le_Suc_eq)
  qed
qed auto

lemma take_drop_append_add:
  assumes "n \<le> length s"
  shows "take (n + i) (s @ r) = take n s @ take i (drop n s @ r)" "drop (n + i) (s @ r) = drop i (drop n s @ r)"
proof -
  have "take n (s @ r) = take n s" "drop n (s @ r) = drop n s @ r"
    using assms by simp_all
  then show "take (n + i) (s @ r) = take n s @ take i (drop n s @ r)" "drop (n + i) (s @ r) = drop i (drop n s @ r)"
    using take_add [of n i "s @ r"] drop_drop [of i n "s @ r"] by (simp_all add: add.commute)
qed

text \<open>No tag starts in the part of the buffer that is emitted, whatever follows.\<close>

lemma safe_no_tag:
  assumes "bytes_index tag s = None" "tag \<noteq> []" "p < safeEmitLen s tag"
  shows "\<not> occurs tag (s @ rest) p"
proof
  assume occ: "occurs tag (s @ rest) p"
  let ?k = "min (length tag - 1) (length s)"
  have spec: "safeEmitLen s tag \<le> length s"
    "\<And>j. 0 < j \<Longrightarrow> j \<le> ?k \<Longrightarrow> length s - j < safeEmitLen s tag \<Longrightarrow> take j tag \<noteq> drop (length s - j) s"
    using safe_len_spec [of ?k s tag] unfolding safeEmitLen_def by auto
  show False
  proof (cases "p + length tag \<le> length s")
    case True
    then show ?thesis
      using occ bytes_index_None [OF assms(1)] by (simp add: occurs_append)
  next
    case False
    let ?j = "length s - p"
    have j: "0 < ?j" "?j \<le> ?k" "length s - ?j = p" "?j \<le> length tag"
      using False spec(1) assms(3) by auto
    have "take (length tag) (drop p s @ rest) = tag"
      using occ spec(1) assms(3) by (simp add: occurs_def)
    then have "take ?j tag = take ?j (take (length tag) (drop p s @ rest))"
      by simp
    also have "\<dots> = drop p s"
      using j(4) by (simp add: min_absorb1)
    finally show False
      using spec(2) [OF j(1,2)] j(3) assms(3) by simp
  qed
qed

lemma split_loop_spec:
  assumes "split_loop inThink buffer textB thinkB = (t, txt, thinking)"
  shows "length (th_buffer t) < length (think_tag (th_inThink t)) \<and>
    (\<exists>a b. txt = textB @ a \<and> thinking = thinkB @ b \<and>
      (\<forall>rest. think_split inThink (buffer @ rest) = (case think_split (th_inThink t) (th_buffer t @ rest) of
         (x, y) \<Rightarrow> (a @ x, b @ y))))"
  using assms
proof (induction inThink buffer textB thinkB rule: split_loop.induct)
  case (1 inThink buffer textB thinkB)
  let ?tag = "think_tag inThink"
  show ?case
  proof (cases "bytes_index ?tag buffer")
    case (Some i)
    let ?rest = "drop (i + length ?tag) buffer"
    have le: "i + length ?tag \<le> length buffer"
      using bytes_index_Some [OF Some] occurs_bound think_tag_length by blast
    obtain a b where IH: "length (th_buffer t) < length (think_tag (th_inThink t))"
      "txt = (if inThink then textB else textB @ take i buffer) @ a"
      "thinking = (if inThink then thinkB @ take i buffer else thinkB) @ b"
      "\<And>rest. think_split (\<not> inThink) (?rest @ rest) = (case think_split (th_inThink t) (th_buffer t @ rest) of
         (x, y) \<Rightarrow> (a @ x, b @ y))"
      using 1(1) [OF Some] 1(2) by (auto simp: split_loop.simps [of inThink buffer] Some)
    have "think_split inThink (buffer @ rest) = (case think_split (\<not> inThink) (?rest @ rest) of (x, y) \<Rightarrow>
        if inThink then (x, take i buffer @ y) else (take i buffer @ x, y))" for rest
      using bytes_index_append [OF Some think_tag_length(2)] le
      by (subst think_split.simps) (auto split: prod.split)
    then show ?thesis
      using IH by (intro conjI exI [of _ "(if inThink then [] else take i buffer) @ a"]
          exI [of _ "(if inThink then take i buffer else []) @ b"]) (auto split: prod.split)
  next
    case None
    let ?safe = "safeEmitLen buffer ?tag"
    have t: "t = \<lparr>th_inThink = inThink, th_buffer = drop ?safe buffer\<rparr>"
      "txt = (if inThink then textB else textB @ take ?safe buffer)"
      "thinking = (if inThink then thinkB @ take ?safe buffer else thinkB)"
      using 1(2) by (auto simp: split_loop.simps [of inThink buffer] None Let_def)
    have safe: "?safe \<le> length buffer" "length buffer - ?safe < length ?tag"
      using safe_len_spec [of "min (length ?tag - 1) (length buffer)" buffer ?tag] think_tag_length(1) [of inThink]
      by (auto simp: safeEmitLen_def)
    have "think_split inThink (buffer @ rest) = (case think_split inThink (drop ?safe buffer @ rest) of (x, y) \<Rightarrow>
        ((if inThink then [] else take ?safe buffer) @ x, (if inThink then take ?safe buffer else []) @ y))" for rest
    proof -
      have skip: "bytes_index ?tag (buffer @ rest) = map_option (\<lambda>i. ?safe + i) (bytes_index ?tag (drop ?safe buffer @ rest))"
        using bytes_index_skip [of ?safe ?tag "buffer @ rest"] safe_no_tag [OF None think_tag_length(2)] safe(1) by simp
      show ?thesis
      proof (cases "bytes_index ?tag (drop ?safe buffer @ rest)")
        case none: None
        then show ?thesis
          using skip by (subst (1 2) think_split.simps) auto
      next
        case (Some i)
        have "take (?safe + i) (buffer @ rest) = take ?safe buffer @ take i (drop ?safe buffer @ rest)"
          "drop (?safe + i + length ?tag) (buffer @ rest) = drop (i + length ?tag) (drop ?safe buffer @ rest)"
          using take_drop_append_add [OF safe(1)] by (simp_all only: add.assoc)
        then show ?thesis
          using skip Some by (subst (1 2) think_split.simps) (auto split: prod.split)
      qed
    qed
    then show ?thesis
      using safe by (auto simp: t)
  qed
qed

text \<open>Feeding an answer in pieces, then flushing.\<close>

fun feed :: "bytes list \<Rightarrow> think_splitter \<Rightarrow> bytes \<times> bytes" where
  "feed [] t = snd (flush t)"
| "feed (delta # deltas) t = (case process delta t of (t', txt, thinking) \<Rightarrow>
     (case feed deltas t' of (x, y) \<Rightarrow> (txt @ x, thinking @ y)))"

lemma feed_split:
  "length (th_buffer t) < length (think_tag (th_inThink t)) \<Longrightarrow>
     feed deltas t = think_split (th_inThink t) (th_buffer t @ concat deltas)"
proof (induction deltas arbitrary: t)
  case Nil
  have "bytes_index (think_tag (th_inThink t)) (th_buffer t) = None"
    using Nil occurs_bound [OF _ think_tag_length(2)] bytes_index_Some
    by (cases "bytes_index (think_tag (th_inThink t)) (th_buffer t)") fastforce+
  then show ?case
    by (simp add: flush_def think_split.simps)
next
  case (Cons delta deltas)
  obtain t' out thinking where p: "process delta t = (t', out, thinking)"
    using prod_cases3 by blast
  have "length (th_buffer t') < length (think_tag (th_inThink t'))"
    "\<And>rest. think_split (th_inThink t) ((th_buffer t @ delta) @ rest) =
      (case think_split (th_inThink t') (th_buffer t' @ rest) of (x, y) \<Rightarrow> (out @ x, thinking @ y))"
    using split_loop_spec [OF p [unfolded process_def]] by auto
  then show ?case
    using Cons.IH [of t'] by (simp add: p)
qed

section \<open>What a stream keeps of tool calls\<close>

definition calls_bounded :: "slots \<Rightarrow> bool" where
  "calls_bounded s \<longleftrightarrow> distinct (map fst (sl_calls s)) \<and> length (sl_calls s) \<le> MaxStreamItems \<and>
     (\<forall>(index, call) \<in> set (sl_calls s). 0 \<le> index \<and> length (tc_Name call) \<le> MaxToolNameBytes \<and>
        length (tc_Arguments call) \<le> max_arguments)"

text \<open>What a fragment does to the slots, and the slots without the arguments, which decide the index.\<close>

definition slots_step :: "chat_item \<Rightarrow> slots \<Rightarrow> slots" where
  "slots_step item s = (case resolveToolCallIndex item s of (s1, index) \<Rightarrow>
     let call = name_call item (slot_call s1 index)
     in put_call index (call\<lparr>tc_Arguments := tc_Arguments call @ ci_Arguments item\<rparr>) s1)"

definition bare_call :: "tool_call \<Rightarrow> tool_call" where
  "bare_call call = call\<lparr>tc_Arguments := []\<rparr>"

definition bare :: "slots \<Rightarrow> slots" where
  "bare s = s\<lparr>sl_calls := map (apsnd bare_call) (sl_calls s)\<rparr>"

lemma bare_call_simps [simp]:
  "tc_ID (bare_call c) = tc_ID c" "tc_Name (bare_call c) = tc_Name c" "bare_call (c\<lparr>tc_Arguments := a\<rparr>) = bare_call c"
  "bare_call (name_call item c) = name_call item (bare_call c)" "bare_call no_call = no_call"
  by (simp_all add: bare_call_def name_call_def no_call_def)

lemma map_of_apsnd: "map_of (map (apsnd f) xs) k = map_option f (map_of xs k)"
  by (induction xs) auto

lemma update_apsnd: "map (apsnd f) (AList.update k v xs) = AList.update k (f v) (map (apsnd f) xs)"
  by (induction xs) auto

lemma bare_simps [simp]:
  "sl_ids (bare s) = sl_ids s" "sl_last (bare s) = sl_last s" "sl_calls (bare s) = map (apsnd bare_call) (sl_calls s)"
  "bare (s\<lparr>sl_ids := i\<rparr>) = bare s\<lparr>sl_ids := i\<rparr>" "bare (s\<lparr>sl_last := l\<rparr>) = bare s\<lparr>sl_last := l\<rparr>"
  by (simp_all add: bare_def)

lemma bare_put: "bare (put_call index call s) = put_call index (bare_call call) (bare s)"
  by (simp add: put_call_def bare_def update_apsnd)

lemma bare_slot_call: "bare_call (slot_call s index) = slot_call (bare s) index"
  by (simp add: slot_call_def map_of_apsnd split: option.split)

lemma free_from_bare: "free_from (map (apsnd bare_call) calls) fuel index = free_from calls fuel index"
  by (induction fuel arbitrary: index) (simp_all add: map_of_apsnd)

lemma resolve_bare: "resolveToolCallIndex item (bare s) = (case resolveToolCallIndex item s of (s1, index) \<Rightarrow> (bare s1, index))"
  by (auto simp: resolveToolCallIndex_def free_slot_def free_from_bare map_of_apsnd Let_def split: option.split)

lemma resolve_calls: "resolveToolCallIndex item s = (s1, index) \<Longrightarrow> sl_calls s1 = sl_calls s"
  by (auto simp: resolveToolCallIndex_def Let_def split: option.splits if_splits)

lemma call_bytes_update:
  "call_bytes (AList.update index call calls) = AList.update index (length (tc_Arguments call)) (call_bytes calls)"
  by (induction calls) (auto simp: call_bytes_def)

lemma used_bytes_call: "used_bytes (call_bytes (sl_calls s)) index = length (tc_Arguments (slot_call s index))"
proof -
  have "map_of (call_bytes calls) index = map_option (\<lambda>c. length (tc_Arguments c)) (map_of calls index)" for calls
    by (induction calls) (auto simp: call_bytes_def)
  then show ?thesis
    by (simp add: used_bytes_def slot_call_def no_call_def split: option.split)
qed

lemma set_update: "(k', v') \<in> set (AList.update k v xs) \<Longrightarrow> (k', v') = (k, v) \<or> (k', v') \<in> set xs"
  by (induction xs) (auto split: if_splits)

text \<open>The check runs on a copy without the new arguments; what it accepts is what the stream can keep.\<close>

lemma validate_items_ok:
  assumes "validate_items items toolItems sim (call_bytes (sl_calls s)) = None" "bare sim = bare s" "calls_bounded s"
  shows "calls_bounded (fold slots_step items s)"
  using assms
proof (induction items arbitrary: toolItems sim s)
  case (Cons item items)
  obtain sim1 index where sim1: "resolveToolCallIndex item sim = (sim1, index)"
    by force
  then obtain s1 where s1: "resolveToolCallIndex item s = (s1, index)" "bare s1 = bare sim1"
    using resolve_bare [of item sim] resolve_bare [of item s] Cons.prems(2) by (cases "resolveToolCallIndex item s") auto
  let ?call = "name_call item (slot_call s1 index)"
  let ?full = "?call\<lparr>tc_Arguments := tc_Arguments ?call @ ci_Arguments item\<rparr>"
  let ?s = "put_call index ?full s1" and ?sim = "put_call index (name_call item (slot_call sim1 index)) sim1"
  have args: "tc_Arguments ?call = tc_Arguments (slot_call s1 index)"
    by (simp add: name_call_def)
  have calls: "sl_calls s1 = sl_calls s"
    using resolve_calls [OF s1(1)] .
  have used: "used_bytes (call_bytes (sl_calls s)) index = length (tc_Arguments ?call)"
    using used_bytes_call [of s1 index] by (simp add: calls args)
  have accepted: "0 \<le> index" "length (ci_Name item) \<le> MaxToolNameBytes" "length (tc_Arguments ?full) \<le> max_arguments"
    "length (call_bytes (sl_calls ?s)) \<le> MaxStreamItems"
    "validate_items items (toolItems + 1) ?sim (call_bytes (sl_calls ?s)) = None"
    using Cons.prems(1)
    by (simp_all add: sim1 used Let_def put_call_def call_bytes_update calls split: if_splits)
  have "bare ?sim = bare ?s"
    using s1(2) by (simp add: bare_put bare_slot_call)
  moreover have "calls_bounded ?s"
  proof -
    have "length (tc_Name (slot_call s1 index)) \<le> MaxToolNameBytes"
      using Cons.prems(3) map_of_SomeD [of "sl_calls s" index]
      by (auto simp: calls_bounded_def slot_call_def no_call_def calls split: option.split)
    then have name: "length (tc_Name ?full) \<le> MaxToolNameBytes"
      using accepted(2) by (simp add: name_call_def)
    have "distinct (map fst (sl_calls ?s))"
      using Cons.prems(3) by (simp add: put_call_def calls calls_bounded_def distinct_update)
    moreover have "0 \<le> i \<and> length (tc_Name c) \<le> MaxToolNameBytes \<and> length (tc_Arguments c) \<le> max_arguments"
      if "(i, c) \<in> set (sl_calls ?s)" for i c
      using set_update [of i c index ?full "sl_calls s"] that accepted(1,3) name Cons.prems(3)
      by (auto simp: put_call_def calls calls_bounded_def)
    moreover have "length (sl_calls ?s) \<le> MaxStreamItems"
      using accepted(4) by (simp add: call_bytes_def)
    ultimately show ?thesis
      by (auto simp: calls_bounded_def)
  qed
  ultimately have "calls_bounded (fold slots_step items ?s)"
    using Cons.IH [OF accepted(5)] by blast
  moreover have "slots_step item s = ?s"
    by (simp add: slots_step_def s1(1) Let_def)
  ultimately show ?case
    by simp
qed simp

lemma validateChunk_ok:
  "validateChunk parsed s = None \<Longrightarrow> calls_bounded s \<Longrightarrow>
     calls_bounded (fold slots_step (concat (map cc_ToolCalls (ck_Choices parsed))) s)"
  by (simp add: validateChunk_def validate_items_ok)

text \<open>The slots after a chunk are those.\<close>

lemma tool_delta_slots: "cs_slots (tool_delta item s) = slots_step item (cs_slots s)"
  by (simp add: tool_delta_def slots_step_def Let_def split: prod.split)

lemma fold_tool_delta_slots: "cs_slots (fold tool_delta items s) = fold slots_step items (cs_slots s)"
  by (induction items arbitrary: s) (simp_all add: tool_delta_slots)

lemma complete_call_simps:
  "cs_slots (complete_call json_valid index s) = cs_slots s" "cs_finished (complete_call json_valid index s) = cs_finished s"
  by (simp_all add: complete_call_def split: option.split)

lemma emitComplete_simps:
  "cs_slots (emitCompleteToolCalls json_valid s) = cs_slots s"
  "cs_finished (emitCompleteToolCalls json_valid s) = cs_finished s"
  by (simp_all add: emitCompleteToolCalls_def fold_invariant complete_call_simps)

lemma processChoiceDelta_slots:
  "cs_slots (processChoiceDelta json_valid choice s) = fold slots_step (cc_ToolCalls choice) (cs_slots s)"
  by (simp add: processChoiceDelta_def Let_def fold_tool_delta_slots emitComplete_simps split: prod.split)

lemma consumeChunk_slots:
  "cs_slots (consumeChunk json_valid parsed s) = fold slots_step (concat (map cc_ToolCalls (ck_Choices parsed))) (cs_slots s)"
proof -
  have "cs_slots (fold (processChoiceDelta json_valid) choices s) =
      fold slots_step (concat (map cc_ToolCalls choices)) (cs_slots s)" for choices s
    by (induction choices arbitrary: s) (simp_all add: processChoiceDelta_slots)
  moreover have "cs_slots (record_usage u s) = cs_slots s" for u
    by (simp add: record_usage_def Let_def)
  ultimately show ?thesis
    by (simp add: consumeChunk_def)
qed

section \<open>The events of a stream\<close>

text \<open>A complete call that is queued has an id, a name and valid arguments.\<close>

definition call_event_ok :: "(bytes \<Rightarrow> bool) \<Rightarrow> event \<Rightarrow> bool" where
  "call_event_ok json_valid e \<longleftrightarrow> (ev_Kind e = EventToolCall \<longrightarrow>
     (\<exists>call. ev_ToolCall e = Some call \<and> tc_ID call \<noteq> [] \<and> tc_Name call \<noteq> [] \<and> json_valid (tc_Arguments call)))"

definition quiet_event :: "(bytes \<Rightarrow> bool) \<Rightarrow> event \<Rightarrow> bool" where
  "quiet_event json_valid e \<longleftrightarrow> \<not> terminal e \<and> call_event_ok json_valid e"

definition quiet :: "(bytes \<Rightarrow> bool) \<Rightarrow> chat_stream \<Rightarrow> bool" where
  "quiet json_valid s \<longleftrightarrow> \<not> cs_finished s \<and> (\<forall>e \<in> set (cs_pending s). quiet_event json_valid e)"

lemma text_events_quiet: "e \<in> set (text_events a b) \<Longrightarrow> quiet_event json_valid e"
  by (auto simp: text_events_def quiet_event_def terminal_def call_event_ok_def split: if_splits)

lemma quiet_queue: "quiet json_valid s \<Longrightarrow> (\<And>e. e \<in> set es \<Longrightarrow> quiet_event json_valid e) \<Longrightarrow> quiet json_valid (queue es s)"
  by (auto simp: quiet_def)

lemma quiet_fold: "(\<And>x s. quiet v s \<Longrightarrow> quiet v (f x s)) \<Longrightarrow> quiet v s \<Longrightarrow> quiet v (fold f xs s)"
  by (induction xs arbitrary: s) auto

lemma quiet_same: "quiet v s \<Longrightarrow> cs_finished s' = cs_finished s \<Longrightarrow> cs_pending s' = cs_pending s \<Longrightarrow> quiet v s'"
  by (simp add: quiet_def)

lemma quiet_tool_delta: "quiet v s \<Longrightarrow> quiet v (tool_delta item s)"
  unfolding tool_delta_def Let_def
  by (auto split: prod.split intro!: quiet_queue elim: quiet_same
      simp: quiet_event_def terminal_def call_event_ok_def)

lemma quiet_complete_call: "quiet v s \<Longrightarrow> quiet v (complete_call v index s)"
  unfolding complete_call_def
  by (auto split: option.split intro!: quiet_queue elim: quiet_same
      simp: quiet_event_def terminal_def call_event_ok_def)

lemma quiet_processChoiceDelta: "quiet v s \<Longrightarrow> quiet v (processChoiceDelta v choice s)"
proof -
  assume "quiet v s"
  define a where "a = queue (text_events [] (if cc_ReasoningContent choice \<noteq> [] then cc_ReasoningContent choice else cc_Reasoning choice)) s"
  have "quiet v a"
    using \<open>quiet v s\<close> unfolding a_def by (rule quiet_queue) (rule text_events_quiet)
  define b where "b = (if cc_Content choice \<noteq> [] then (case process (cc_Content choice) (cs_splitter a) of
      (t, txt, thinking) \<Rightarrow> queue (text_events txt thinking) (a\<lparr>cs_splitter := t\<rparr>)) else a)"
  have "quiet v b"
    using \<open>quiet v a\<close> unfolding b_def
    by (auto split: prod.split intro!: quiet_queue elim: quiet_same text_events_quiet)
  define c where "c = fold tool_delta (cc_ToolCalls choice) b"
  have "quiet v c"
    using \<open>quiet v b\<close> unfolding c_def by (intro quiet_fold quiet_tool_delta)
  have "quiet v (c\<lparr>cs_stopReason := r\<rparr>)" "quiet v (emitCompleteToolCalls v (c\<lparr>cs_stopReason := r\<rparr>))" for r
    using \<open>quiet v c\<close> unfolding emitCompleteToolCalls_def
    by (auto intro!: quiet_fold quiet_complete_call elim: quiet_same)
  moreover have "processChoiceDelta v choice s =
      (if cc_FinishReason choice = [] then c
       else let s = c\<lparr>cs_stopReason := mapOpenAIStopReason (cc_FinishReason choice)\<rparr>
         in if cc_FinishReason choice = ''tool_calls'' \<and> cs_complete s then emitCompleteToolCalls v s else s)"
    by (simp only: processChoiceDelta_def Let_def a_def b_def c_def)
  ultimately show ?thesis
    using \<open>quiet v c\<close> by (simp add: Let_def)
qed

lemma quiet_chunk: "quiet v s \<Longrightarrow> quiet v (record_response parsed (consumeChunk v parsed s))"
proof -
  assume "quiet v s"
  then have "quiet v (record_usage (ck_Usage parsed) s)"
    by (elim quiet_same) (simp_all add: record_usage_def Let_def)
  then have "quiet v (consumeChunk v parsed s)"
    unfolding consumeChunk_def by (intro quiet_fold quiet_processChoiceDelta)
  then show ?thesis
    by (elim quiet_same) (simp_all add: record_response_def)
qed

section \<open>The contract\<close>

definition chat_ended :: "chat_stream \<Rightarrow> bool" where
  "chat_ended s \<longleftrightarrow> cs_finished s \<and> cs_pending s = []"

definition chat_sound :: "(bytes \<Rightarrow> bool) \<Rightarrow> chat_stream \<Rightarrow> bool" where
  "chat_sound v s \<longleftrightarrow> calls_bounded (cs_slots s) \<and> (\<forall>e \<in> set (cs_pending s). call_event_ok v e) \<and>
     (\<forall>e \<in> set (if cs_finished s then butlast (cs_pending s) else cs_pending s). \<not> terminal e)"

lemma chat_sound_quiet: "calls_bounded (cs_slots s) \<Longrightarrow> quiet v s \<Longrightarrow> chat_sound v s"
  by (auto simp: chat_sound_def quiet_def quiet_event_def)

lemma chat_sound_done:
  assumes "calls_bounded (cs_slots s)" "cs_pending s = []"
  shows "chat_sound v (handleDoneMarker s)"
proof -
  obtain t a b where f: "flush (cs_splitter s) = (t, a, b)"
    using prod_cases3 by blast
  show ?thesis
    using assms text_events_quiet [of _ a b v]
    by (auto simp: handleDoneMarker_def f chat_sound_def queue_def butlast_append quiet_event_def call_event_ok_def)
qed

text \<open>The chunk step keeps the stream sound.\<close>

lemma chat_sound_chunk:
  assumes "chat_sound v s" "\<not> cs_finished s" "cs_pending s = []" "validateChunk parsed (cs_slots s) = None"
  shows "chat_sound v (record_response parsed (consumeChunk v parsed s))"
proof (rule chat_sound_quiet)
  have "calls_bounded (cs_slots (consumeChunk v parsed s))"
    using assms(1,4) validateChunk_ok by (simp add: consumeChunk_slots chat_sound_def)
  then show "calls_bounded (cs_slots (record_response parsed (consumeChunk v parsed s)))"
    by (simp add: record_response_def)
  show "quiet v (record_response parsed (consumeChunk v parsed s))"
    using assms(2,3) by (intro quiet_chunk) (simp add: quiet_def)
qed

text \<open>What one frame does: the stream stays sound, and returns an error or its terminal event.\<close>

lemma chat_frame_contract:
  assumes "chat_sound v s" "\<not> cs_finished s" "cs_pending s = []"
  shows "chat_frame v decoder decode s = Inr s' \<Longrightarrow> chat_sound v s'"
    and "chat_frame v decoder decode s = Inl (s', x) \<Longrightarrow>
      chat_sound v s' \<and> (\<forall>e. x = Inr e \<longrightarrow> call_event_ok v e \<and> (terminal e \<longrightarrow> chat_ended s'))"
proof -
  have slots: "calls_bounded (cs_slots s)"
    using assms(1) by (simp add: chat_sound_def)
  have idle: "chat_sound v (s\<lparr>cs_reader := r, cs_budget := b\<rparr>)"
    "chat_sound v (s\<lparr>cs_reader := r, cs_budget := b, cs_finished := True\<rparr>)" "chat_sound v (s\<lparr>cs_reader := r\<rparr>)" for r b
    using slots assms(3) by (simp_all add: chat_sound_def)
  have marker: "chat_sound v (handleDoneMarker (s\<lparr>cs_reader := r, cs_budget := b\<rparr>))" for r b
    using slots assms(3) by (intro chat_sound_done) simp_all
  have chunk: "chat_sound v (record_response parsed (consumeChunk v parsed (s\<lparr>cs_reader := r, cs_budget := b\<rparr>)))"
    if "validateChunk parsed (cs_slots s) = None" for r b parsed
    using idle(1) assms(2,3) that by (intro chat_sound_chunk) simp_all
  show "chat_frame v decoder decode s = Inr s' \<Longrightarrow> chat_sound v s'"
    using idle(1) marker chunk
    by (auto simp: chat_frame_def Let_def split: prod.splits option.splits if_splits sum.splits)
  show "chat_frame v decoder decode s = Inl (s', x) \<Longrightarrow>
      chat_sound v s' \<and> (\<forall>e. x = Inr e \<longrightarrow> call_event_ok v e \<and> (terminal e \<longrightarrow> chat_ended s'))"
    using idle(2,3) assms(3)
    by (auto simp: chat_frame_def Let_def chat_ended_def call_event_ok_def split: prod.splits option.splits if_splits sum.splits)
qed

lemma Recv_chat_contract:
  assumes "Recv_chat v decoder decode s = (s', x)" "chat_sound v s"
  shows "chat_sound v s' \<and> (\<forall>e. x = Inr e \<longrightarrow> call_event_ok v e \<and> (terminal e \<longrightarrow> chat_ended s')) \<and>
    (chat_ended s \<longrightarrow> chat_ended s' \<and> (\<exists>e. x = Inl e))"
  using assms
proof (induction v decoder decode s rule: Recv_chat.induct)
  case (1 v decoder decode s)
  note unfold = Recv_chat.simps [of v decoder decode s]
  consider (pending) e es where "cs_pending s = e # es" | (finished) "cs_pending s = []" "cs_finished s"
    | (frame) "cs_pending s = []" "\<not> cs_finished s"
    by (cases "cs_pending s") auto
  then show ?case
  proof cases
    case pending
    then have s': "s' = s\<lparr>cs_pending := es\<rparr>" "x = Inr e"
      using 1(2) by (simp_all add: unfold)
    have "terminal e \<longrightarrow> cs_finished s \<and> es = []" "chat_sound v s'" "call_event_ok v e"
      using 1(3) pending unfolding s'(1) chat_sound_def by (cases "cs_finished s"; cases es; simp)+
    then show ?thesis
      using pending by (simp add: s' chat_ended_def)
  next
    case finished
    then show ?thesis
      using 1(2,3) by (auto simp: unfold chat_ended_def)
  next
    case frame
    have "\<not> chat_ended s"
      using frame by (simp add: chat_ended_def)
    show ?thesis
    proof (cases "chat_frame v decoder decode s")
      case (Inl result)
      then show ?thesis
        using 1(2) frame \<open>\<not> chat_ended s\<close> chat_frame_contract(2) [OF 1(3) frame(2,1), of decoder decode s' x] by (simp add: unfold)
    next
      case (Inr s1)
      then show ?thesis
        using 1 frame \<open>\<not> chat_ended s\<close> chat_frame_contract(1) [OF 1(3) frame(2,1) Inr] by (simp add: unfold)
    qed
  qed
qed

interpretation chat: wire_stream "Recv_chat v decoder decode" "chat_sound v" chat_ended for v decoder decode
  using Recv_chat_contract by unfold_locales blast+

lemma new_chat_sound: "chat_sound v (new_chat_stream body bodyEnd contextUsage complete)"
  by (simp add: chat_sound_def new_chat_stream_def calls_bounded_def)

text \<open>Draining: no frame of the body ends in the middle of a JSON document.\<close>

definition chat_whole :: "(bytes \<Rightarrow> tokens) \<Rightarrow> (bytes \<Rightarrow> go_err + chat_chunk) \<Rightarrow> chat_stream \<Rightarrow> bool" where
  "chat_whole decoder decode s \<longleftrightarrow>
     (cs_finished s \<and> cs_pending s \<noteq> [] \<longrightarrow> terminal (last (cs_pending s))) \<and>
     (\<forall>f \<in> set (wire_frames (cs_reader s)). DecodeStreamJSON decoder decode (se_Data f) \<noteq> Inl (sentinel IoEOF))"

definition chat_smaller :: "(chat_stream \<times> chat_stream) set" where
  "chat_smaller = measures [\<lambda>s. length (rd_rest (cs_reader s)), \<lambda>s. length (cs_pending s)]"

lemma done_marker_last: "cs_pending (handleDoneMarker s) \<noteq> [] \<and> terminal (last (cs_pending (handleDoneMarker s)))"
  by (simp add: handleDoneMarker_def terminal_def split: prod.split)

lemma Observe_text: "Observe frame b = (b', Some e) \<Longrightarrow> e \<noteq> sentinel IoEOF"
  by (auto simp: Observe_def new_err_def Let_def split: if_splits)

lemma validate_items_text: "validate_items items n sim indexes = Some e \<Longrightarrow> e \<noteq> sentinel IoEOF"
  by (induction items n sim indexes rule: validate_items.induct)
    (auto simp: new_err_def Let_def split: if_splits prod.splits)

lemma chat_frame_drains:
  assumes "chat_sound v s" "chat_whole decoder decode s" "\<not> cs_finished s" "cs_pending s = []"
  shows "chat_frame v decoder decode s = Inr s' \<Longrightarrow> chat_whole decoder decode s'"
    and "chat_frame v decoder decode s = Inl (s', x) \<Longrightarrow> x \<noteq> Inl (sentinel IoEOF) \<and>
      (\<forall>e. x = Inr e \<longrightarrow> chat_whole decoder decode s' \<and> terminal e \<and> length (rd_rest (cs_reader s')) < length (rd_rest (cs_reader s)))"
proof -
  have rest: "wire_frames (cs_reader s) = frame # wire_frames r" if "Next (cs_reader s) = (r, frame, None)" for r frame
    using wire_frames_Next [OF that] .
  have chunk: "\<not> cs_finished (record_response parsed (consumeChunk v parsed (s\<lparr>cs_reader := r, cs_budget := b\<rparr>)))" for r b parsed
    using quiet_chunk [of v "s\<lparr>cs_reader := r, cs_budget := b\<rparr>" parsed] assms(3,4) by (simp add: quiet_def)
  show "chat_frame v decoder decode s = Inr s' \<Longrightarrow> chat_whole decoder decode s'"
    using assms(2-4) done_marker_last chunk rest
    by (auto simp: chat_frame_def Let_def chat_whole_def split: prod.splits option.splits if_splits sum.splits)
  show "chat_frame v decoder decode s = Inl (s', x) \<Longrightarrow> x \<noteq> Inl (sentinel IoEOF) \<and>
      (\<forall>e. x = Inr e \<longrightarrow> chat_whole decoder decode s' \<and> terminal e \<and> length (rd_rest (cs_reader s')) < length (rd_rest (cs_reader s)))"
    using assms(2-4) rest
    by (auto simp: chat_frame_def Let_def chat_whole_def terminal_def validateChunk_def
        dest: Observe_text validate_items_text Next_shrinks split: prod.splits option.splits if_splits sum.splits)
qed

lemma chat_frame_goes_on:
  assumes "\<not> cs_finished s" "cs_pending s = []" "chat_frame v decoder decode s = Inr s'"
  shows "\<not> (cs_finished s' \<and> cs_pending s' = [])"
proof -
  have "\<not> cs_finished (record_response parsed (consumeChunk v parsed (s\<lparr>cs_reader := r, cs_budget := b\<rparr>)))" for r b parsed
    using quiet_chunk [of v "s\<lparr>cs_reader := r, cs_budget := b\<rparr>" parsed] assms(1,2) by (simp add: quiet_def)
  then show ?thesis
    using assms done_marker_last
    by (auto simp: chat_frame_def Let_def split: prod.splits option.splits if_splits sum.splits)
qed

lemma Recv_chat_drains:
  assumes "Recv_chat v decoder decode s = (s', x)" "chat_sound v s" "chat_whole decoder decode s"
  shows "(x = Inl (sentinel IoEOF) \<longrightarrow> chat_ended s) \<and>
    (\<forall>e. x = Inr e \<longrightarrow> chat_whole decoder decode s' \<and> (s', s) \<in> chat_smaller \<and> (chat_ended s' \<longrightarrow> terminal e))"
  using assms
proof (induction v decoder decode s rule: Recv_chat.induct)
  case (1 v decoder decode s)
  note unfold = Recv_chat.simps [of v decoder decode s]
  consider (pending) e es where "cs_pending s = e # es" | (finished) "cs_pending s = []" "cs_finished s"
    | (frame) "cs_pending s = []" "\<not> cs_finished s"
    by (cases "cs_pending s") auto
  then show ?case
  proof cases
    case pending
    then show ?thesis
      using 1(2,4) by (auto simp: unfold chat_whole_def chat_ended_def chat_smaller_def)
  next
    case finished
    then show ?thesis
      using 1(2) by (auto simp: unfold chat_ended_def)
  next
    case frame
    show ?thesis
    proof (cases "chat_frame v decoder decode s")
      case (Inl result)
      then show ?thesis
        using 1(2) frame chat_frame_drains(2) [OF 1(3,4) frame(2,1), of s' x] by (auto simp: unfold chat_smaller_def)
    next
      case (Inr s1)
      have "length (rd_rest (cs_reader s1)) < length (rd_rest (cs_reader s))"
        using chat_frame_shrinks [OF Inr] .
      moreover have "(x = Inl (sentinel IoEOF) \<longrightarrow> chat_ended s1) \<and>
          (\<forall>e. x = Inr e \<longrightarrow> chat_whole decoder decode s' \<and> (s', s1) \<in> chat_smaller \<and> (chat_ended s' \<longrightarrow> terminal e))"
        using 1 frame Inr chat_frame_contract(1) [OF 1(3) frame(2,1) Inr] chat_frame_drains(1) [OF 1(3,4) frame(2,1) Inr]
        by (simp add: unfold)
      moreover have "\<not> chat_ended s1"
        using chat_frame_goes_on [OF frame(2,1) Inr] by (auto simp: chat_ended_def)
      ultimately show ?thesis
        by (auto simp: chat_smaller_def)
    qed
  qed
qed

interpretation chat: draining_stream "Recv_chat v decoder decode" "chat_sound v" chat_ended
    "chat_whole decoder decode" chat_smaller for v decoder decode
proof
  show "wf chat_smaller"
    by (simp add: chat_smaller_def)
qed (use Recv_chat_drains in fast)+

text \<open>
  A frame whose JSON stops short ends the stream with \<open>io.EOF\<close>, the answer of a stream that has ended,
  though no terminal event came: \<open>Decoder.Token\<close> returns it at the end of the frame, and
  \<open>CheckJSON\<close> and \<open>Recv\<close> hand it on.
\<close>

lemma short_frame_is_eof:
  assumes "Next (cs_reader s) = (r, frame, None)" "Observe frame (cs_budget s) = (b, None)"
    "cs_pending s = []" "\<not> cs_finished s" "trim_space (se_Data frame) \<noteq> []" "se_Data frame \<noteq> done_marker"
    "CheckJSON decoder (se_Data frame) \<lparr>jl_Bytes = int MaxSSEFrameBytes, jl_Depth = 128, jl_Values = 65536,
        jl_Collection = int MaxStreamItems\<rparr> = Some (sentinel IoEOF)"
  shows "snd (Recv_chat v decoder decode s) = Inl (sentinel IoEOF)"
  using assms by (simp add: Recv_chat.simps [of v decoder decode s] chat_frame_def DecodeStreamJSON_def)

lemma short_document_is_eof:
  "CheckJSON (\<lambda>_. \<lparr>tk_rest = [TkOpen True, TkString ''choices'', TkOpen False], tk_end = sentinel IoEOF\<rparr>)
     ''{\"choices\":['' \<lparr>jl_Bytes = int MaxSSEFrameBytes, jl_Depth = 128, jl_Values = 65536,
        jl_Collection = int MaxStreamItems\<rparr> = Some (sentinel IoEOF)"
  by (simp add: CheckJSON_def check_value.simps check_collection.simps next_token.simps has_more.simps MaxSSEFrameBytes_def
      MaxStreamItems_def)

section \<open>Properties\<close>

text \<open>
  C37.  However an answer is cut into deltas, its text and its thinking are what splitting the whole
  answer at its tags gives; nothing is lost, repeated or put on the other side.
\<close>

theorem think_splitter_ignores_chunking:
  "feed deltas \<lparr>th_inThink = False, th_buffer = []\<rparr> = think_split False (concat deltas)"
  using feed_split [of "\<lparr>th_inThink = False, th_buffer = []\<rparr>" deltas] think_tag_length [of False] by simp

text \<open>
  C38.  Whatever a provider sends, the tool calls a chat stream keeps have distinct indexes that are
  not negative, are at most \<open>MaxStreamItems\<close>, and have a name of at most \<open>MaxToolNameBytes\<close> and at
  most a mebibyte of arguments each; a complete call it hands out has an id, a name and valid arguments.
\<close>

theorem chat_tool_calls_bounded:
  "calls_bounded (cs_slots (receive_n (Recv_chat v decoder decode) n (new_chat_stream body bodyEnd contextUsage complete))) \<and>
   list_all (call_event_ok v) (received (Recv_chat v decoder decode) n (new_chat_stream body bodyEnd contextUsage complete))"
proof -
  have "chat_sound v s \<Longrightarrow> calls_bounded (cs_slots (receive_n (Recv_chat v decoder decode) n s)) \<and>
      list_all (call_event_ok v) (received (Recv_chat v decoder decode) n s)" for s
  proof (induction n arbitrary: s)
    case (Suc n)
    obtain s' x where step: "Recv_chat v decoder decode s = (s', x)"
      by force
    then show ?case
      using Suc.IH [of s'] Recv_chat_contract [OF step Suc.prems] by (cases x) auto
  qed (simp add: chat_sound_def)
  then show ?thesis
    using new_chat_sound by blast
qed

text \<open>
  C39.  A chat stream ends with its terminal event: whatever the provider sends and however often the
  stream is read, at most one terminal event comes out and nothing after it.
\<close>

theorem chat_stream_ends_once:
  "validateTerminalSequence (received (Recv_chat v decoder decode) n (new_chat_stream body bodyEnd contextUsage complete)) False = None"
  by (rule chat.one_terminal_event) (rule new_chat_sound)

text \<open>
  C40.  Provided no frame of the body is one on which the JSON check itself answers \<open>io.EOF\<close> (a
  document that stops short), reading a chat stream comes to an end, and an answer that was cut off is
  not taken for a complete one: after finitely many events there is an error, and it is \<open>io.EOF\<close> only
  when a terminal event was delivered.  For a frame of that kind the second part fails
  (\<open>short_frame_is_eof\<close>).
\<close>

theorem chat_stream_drains:
  assumes "\<And>f. f \<in> set (wire_frames \<lparr>rd_rest = body, rd_end = bodyEnd, rd_bytes = 0\<rparr>) \<Longrightarrow>
    DecodeStreamJSON decoder decode (se_Data f) \<noteq> Inl (sentinel IoEOF)"
  shows "drains (Recv_chat v decoder decode) (new_chat_stream body bodyEnd contextUsage complete)"
proof (rule chat.drained)
  show "chat_sound v (new_chat_stream body bodyEnd contextUsage complete)"
    by (rule new_chat_sound)
  show "chat_whole decoder decode (new_chat_stream body bodyEnd contextUsage complete)"
    "\<not> chat_ended (new_chat_stream body bodyEnd contextUsage complete)"
    using assms by (simp_all add: chat_whole_def chat_ended_def new_chat_stream_def)
qed

theorem chat_stream_drains_witness:
  "drains (Recv_chat (\<lambda>_. True) (\<lambda>_. \<lparr>tk_rest = [TkOther], tk_end = sentinel IoEOF\<rparr>) (\<lambda>_. Inl (new_err ''x'')))
     (new_chat_stream (''data: [DONE]'' @ [newline, newline]) (sentinel IoEOF) False True)"
  by (rule chat_stream_drains)
    (simp add: DecodeStreamJSON_def CheckJSON_def check_value.simps next_token.simps new_err_def)

end
