(* ===== verification/Spec2Isabelle.thy ===== *)
theory Spec2Isabelle
  imports Prelude Messages History Usage Requests Control ToolBatch Continuation ContextWindow Frames
    ExtraBody Json ToolText OutputPolicy Loop Samples Recovery Guardrails Compaction ToolDispatch Overlap
    ModelTurn StepEnds AgentLoop RetryStream SkillBundles SkillRuntime EngineRun Resume
    Routing Build StreamInterceptors OutputStore Sse OpenAIChat
begin

text \<open>
  A verification development of Venat, a Go library for bounded AI agents (\<open>src/\<close>, Go packages
  \<open>message\<close>, \<open>provider\<close>, \<open>tool\<close>, \<open>skill\<close> and \<open>agent\<close>).

  \<^bold>\<open>The program.\<close>  An \<open>Engine\<close> executes a request: it builds a history of messages, and in a loop asks a
  provider for a model turn, dispatches the tool calls of the answer on a bus of tools, and appends
  their results, until the model answers without a call, a limit is reached or the execution is
  paused.  Around this loop are the budgets of iterations, tokens and tool calls, hooks and guardrails of
  the caller, the compaction of histories that grow too long, skills the model activates, structured
  output with repairs, live steering through a \<open>Control\<close>, and continuations, from which an execution
  is resumed.

  \<^bold>\<open>Conventions.\<close>  Definitions have the names of the code.  A struct is a record, an enumerated string a
  datatype with a constructor for other strings, a pointer that may be nil an option; values have no
  identity, so the deep clones of the code are the identity and are left out.  \<open>int\<close> and \<open>int64\<close> are HOL
  integers, with the wrap-around written out where an operation may overflow (\<open>wrap64\<close>, saturating
  additions); strings and byte slices are lists of characters, one per byte.  Errors are values of
  \<open>go_err\<close>, which records what is wrapped and which sentinels \<open>errors.Is\<close> finds.  Code that may panic
  returns an \<open>outcome\<close>, \<open>Returned\<close> or \<open>Panicked\<close>, with the state it was left in.  What the library is
  given (drivers, tools, hooks, observers, guardrails, sinks) is an arbitrary action on the world
  (theory Effects) or an arbitrary program tree (theory Programs); concurrency is a sequence of atomic
  steps, chosen arbitrarily (theory Machines).  \<open>encoding/json\<close>, \<open>yaml.v3\<close>, \<open>math/big\<close>, sha256, the schema
  compiler, the clock and the operating system are arguments; what is assumed of them is a hypothesis
  with a name (\<open>hex_sha\<close>, \<open>collision_free\<close>, \<open>faithful_io\<close>).

  \<^bold>\<open>Foundations.\<close>  Prelude: integers, errors, byte strings, list lemmas.  Machines: reachable states and
  the locales \<open>machine\<close> and \<open>machine_stable\<close>.  Programs and Effects: program trees, actions, and the
  logic of invariants \<open>keeps\<close> and \<open>yields\<close>.  ByteSearch: \<open>bytes.Index\<close>.  Samples: the small execution the
  witnesses run.

  \<^bold>\<open>Package message.\<close>
  Messages (\<open>message.go\<close>, \<open>content.go\<close>): messages and the two views of their content.
  History (\<open>history.go\<close>): \<open>ValidateCompleteTurns\<close> is shown to accept exactly the complete histories,
  which are defined inductively and without the functions of the validator (C1); from that follow what
  accepted turns look like and where a history may be cut (C2, C3).
  Json (\<open>json_limits.go\<close>): \<open>CheckJSON\<close> over the tokens of a decoder, which may deliver any stream; it
  accepts exactly the streams of one complete value within the limits (C17).

  \<^bold>\<open>Package tool.\<close>
  ToolUpdates (\<open>update.go\<close>): the numbered, bounded stream of updates a tool emits (C10).
  Interceptors (\<open>interceptor.go\<close>): chains of interceptors around a driver (C9).
  ToolBus (\<open>tool.go\<close>, \<open>validation.go\<close>): registration, lookup, validation and execution of one call (C8);
  the locale \<open>registry\<close> is interpreted by the bus and by the registry of skills.
  ToolBatch (\<open>tool.go\<close>): sequential and parallel batches, the latter as the machine \<open>pool_step\<close> (C7).
  OutputStore (\<open>output_store.go\<close>): saving, reading and searching oversized output over an explicit
  directory, every failure of the operating system included (C32 to C35).

  \<^bold>\<open>Package provider.\<close>
  Usage: token accounting, the locale \<open>ledger\<close>.  ProviderEvents (\<open>provider.go\<close>, \<open>conformance.go\<close>): events
  and their normalization into a response (C14).  ExtraBody (\<open>extra_body.go\<close>).  RetryStream
  (\<open>retry_stream.go\<close>, C21).  Routing (\<open>failover.go\<close>, \<open>resolver.go\<close>).  StreamInterceptors (\<open>interceptor.go\<close>,
  C31).  Sse (\<open>shared/sse.go\<close>, \<open>stream_limits.go\<close>): the frames of a response body (C36).  WireStream: the
  contract of \<open>provider.Stream\<close> as the locales \<open>wire_stream\<close> (one terminal event) and \<open>draining_stream\<close>
  (reading comes to an end).  OpenAIChat (\<open>openai/stream.go\<close>): the chat stream from bytes to events, which
  interprets both (C37 to C40).

  \<^bold>\<open>Package skill.\<close>  SkillBundles (\<open>skill.go\<close>, \<open>resource.go\<close>): parsing of bundles, the registry, resources.

  \<^bold>\<open>Package agent.\<close>
  Requests (\<open>request.go\<close>, \<open>loop_policy.go\<close>), Steps (\<open>step.go\<close>), Frames (\<open>output.go\<close>, C16), Loop (the data of
  \<open>RunMessages\<close>).
  Control (\<open>control.go\<close>): the steering handle as a machine (C4 to C6).
  Continuation (\<open>continuation.go\<close>): \<open>ValidateContinuation\<close> and its transcript scan, related to a grammar and
  to package message (C11 to C13).
  ContextWindow (\<open>context_window.go\<close>, C15) and Compaction (\<open>agent.go\<close>, \<open>runtime_helpers.go\<close>): what is sent
  to the model; the locale \<open>preparation\<close> covers the two places that compact (C19).
  ToolText and Recovery (\<open>response_recovery.go\<close>), Guardrails (\<open>hook.go\<close>, \<open>output_guardrail.go\<close>), ToolDispatch
  and Overlap (\<open>stream_overlap.go\<close>), ModelTurn (\<open>runTurn\<close> and \<open>collect\<close> of \<open>agent.go\<close>, \<open>timeout.go\<close>, C20), StepEnds
  (\<open>pause_continuation.go\<close>): the parts of one round.
  AgentLoop: the rounds and \<open>RunMessages\<close>; it keeps the account of tool calls that the limits of
  whole executions rest on.
  OutputPolicy (\<open>output_policy.go\<close>): schemas and the values that conform to them (C18).
  SkillRuntime (\<open>skill_tools.go\<close>, C22).  EngineRun (\<open>engine.go\<close>, \<open>failure.go\<close>, \<open>result.go\<close>): one execution with
  its repairs (C23 to C25).  Resume (\<open>resume.go\<close>): the execution goes on from a continuation (C26 to
  C29).  Build (\<open>spec.go\<close>): agents from specifications (C30).

  \<^bold>\<open>How the parts meet.\<close>  EngineRun calls AgentLoop, which per round calls Compaction, ModelTurn (which
  opens a stream of package provider and may start tools through Overlap), StepEnds or ToolDispatch
  (which calls ToolBatch, ToolBus, Interceptors and ToolUpdates), then OutputStore and the observers.
  Resume enters AgentLoop at the point the continuation names.  The state of a run is the record \<open>run\<close> of
  AgentLoop over the record \<open>world\<close> of Effects.

  \<^bold>\<open>Fuel and bounds.\<close>  Only \<open>run_loop\<close> and what calls it takes fuel, one unit per round.  Without a control
  handle and with a finite policy, the number of iterations of the policy (twelve by default) is
  enough for every run of an execution (\<open>enough_fuel\<close>, C24); an unlimited policy may go on for ever,
  and a run that is out of fuel is \<open>None\<close>, never a result.  Every other loop is total, with
  a measure where the recursion is not structural.  The limits of the code are its constants
  (64 inputs and 4 MiB of a control queue, 32 parallel calls, 1024 tool calls and stream items, 256 bytes of
  a tool name, a mebibyte of arguments).

  \<^bold>\<open>Limits of the statements.\<close>  C9 and C31 compare the JSON encodings of calls and requests, not the values:
  arguments that differ in spacing pass.  A call of \<open>next\<close> that an interceptor keeps and makes after its
  return is not represented; the bound rests on the counter of calls.  C13 needs calls and results to
  sit on messages of the right role, C22 the activation results as the tool returned them, C24 a context builder
  that does not panic, C33 bodies whose digests do not collide, C40 a body without frames whose JSON
  stops short; in each case a lemma beside the theorem shows what happens otherwise where the code
  does not exclude it (\<open>scan_ignores_misplaced_calls\<close>, \<open>changed_activation_is_lost\<close>,
  \<open>builder_panic_escapes\<close>, \<open>short_frame_is_eof\<close>).  C29 is a defect of the code, shown on a concrete
  continuation.  C35 is about literal occurrences: the query is not a pattern, although the README says so.
  The uint64 sequence counters of \<open>Control\<close> are natural numbers.  A save of the output store, which
  holds its mutex, and an early tool between its start and its join are one step each.

  \<^bold>\<open>Not modelled.\<close>  \<open>working_memory.go\<close> (one implementation of the context manager, which is a parameter
  here), \<open>agent_tool.go\<close> (a tool driver that runs a child engine, with its token ledger),
  \<open>tool_verifier.go\<close> (a guardrail), the encoding of \<open>continuation_codec.go\<close> apart from its document check,
  the Anthropic adapter and the OpenAI responses protocol, the construction of HTTP requests, \<open>shared/http.go\<close>
  and \<open>shared/retry.go\<close>, the discovery of skills on disk, \<open>tool/kit\<close> (schemas by reflection, processes, HTTP),
  the scripted and error drivers, examples and scripts: they are input and output, calls of
  libraries, or further implementations of interfaces that are modelled for every implementation.
\<close>

end
